(* ===== verification/Prelude.thy ===== *)
theory Prelude
  imports Main "HOL-Library.Sublist" "HOL-Library.Multiset"
begin

text \<open>
  What every theory of the development shares: the character constants of the TypeScript
  sources, JavaScript string reads (\<open>s[i]\<close>, \<open>startsWith\<close>, \<open>slice\<close>, \<open>trim\<close>, \<open>indexOf\<close>),
  the character classes of the regular expressions, and the list lemmas the component proofs
  rest on. A JavaScript string is a list of 8-bit characters here (code units 0 to 255); a code
  unit above 255 has no counterpart in the model. Every character class below is exact on that
  range.
\<close>

named_theorems js_simps \<open>reading JavaScript strings by position\<close>

section \<open>Characters\<close>

abbreviation NL :: char where "NL \<equiv> CHR 0x0A"
abbreviation TAB :: char where "TAB \<equiv> CHR 0x09"
abbreviation CR :: char where "CR \<equiv> CHR 0x0D"
abbreviation SP :: char where "SP \<equiv> CHR 0x20"
abbreviation SQ :: char where "SQ \<equiv> CHR 0x27"
abbreviation DQ :: char where "DQ \<equiv> CHR 0x22"
abbreviation BSL :: char where "BSL \<equiv> CHR 0x5C"
abbreviation BTICK :: char where "BTICK \<equiv> CHR 0x60"
abbreviation NUL :: char where "NUL \<equiv> CHR 0x00"

type_synonym jsstring = "char list"

definition code_of :: "char \<Rightarrow> nat" where
  "code_of c = of_char c"

text \<open>\<open>[0-9]\<close>, \<open>[A-Za-z_]\<close> and \<open>[A-Za-z0-9_]\<close> (also \<open>\w\<close>).\<close>

definition is_digit :: "char \<Rightarrow> bool" where
  "is_digit c \<longleftrightarrow> 48 \<le> code_of c \<and> code_of c \<le> 57"

definition is_alpha :: "char \<Rightarrow> bool" where
  "is_alpha c \<longleftrightarrow> (65 \<le> code_of c \<and> code_of c \<le> 90) \<or> (97 \<le> code_of c \<and> code_of c \<le> 122)"

definition is_ident_start :: "char \<Rightarrow> bool" where
  "is_ident_start c \<longleftrightarrow> is_alpha c \<or> c = CHR ''_''"

definition is_ident_char :: "char \<Rightarrow> bool" where
  "is_ident_char c \<longleftrightarrow> is_alpha c \<or> is_digit c \<or> c = CHR ''_''"

text \<open>\<open>\s\<close> and the set \<open>String.prototype.trim\<close> removes: on code units up to 255 both are
  TAB, LF, VT, FF, CR, space and the no-break space.\<close>

definition is_space :: "char \<Rightarrow> bool" where
  "is_space c \<longleftrightarrow> (9 \<le> code_of c \<and> code_of c \<le> 13) \<or> code_of c = 32 \<or> code_of c = 160"

text \<open>\<open>toUpperCase\<close>, used only on ASCII words or compared with ASCII capitals: every character
  outside \<open>a\<close> to \<open>z\<close> maps to something that is no ASCII capital letter unless it is one already.\<close>

definition upper_char :: "char \<Rightarrow> char" where
  "upper_char c = (if 97 \<le> code_of c \<and> code_of c \<le> 122 then char_of (code_of c - 32) else c)"

definition upper :: "jsstring \<Rightarrow> jsstring" where
  "upper s = List.map upper_char s"

text \<open>\<open>toLowerCase\<close>: ASCII capitals and the Latin-1 capitals 192 to 222 (without 215) move up
  by 32.\<close>

definition lower_char :: "char \<Rightarrow> char" where
  "lower_char c = (let n = code_of c in
     if (65 \<le> n \<and> n \<le> 90) \<or> (192 \<le> n \<and> n \<le> 222 \<and> n \<noteq> 215) then char_of (n + 32) else c)"

definition lower :: "jsstring \<Rightarrow> jsstring" where
  "lower s = List.map lower_char s"

section \<open>Lists by position\<close>

text \<open>\<open>findIndex\<close> with \<open>None\<close> for \<open>-1\<close>.\<close>

fun find_index :: "('a \<Rightarrow> bool) \<Rightarrow> 'a list \<Rightarrow> nat option" where
  "find_index P [] = None"
| "find_index P (x # xs) = (if P x then Some 0 else map_option Suc (find_index P xs))"

lemma find_index_Some:
  "find_index P xs = Some i \<Longrightarrow> i < length xs \<and> P (xs ! i) \<and> (\<forall>j < i. \<not> P (xs ! j))"
proof (induction xs arbitrary: i)
  case (Cons x xs)
  show ?case
  proof (cases "P x")
    case False
    with Cons.prems obtain k where "find_index P xs = Some k" "i = Suc k" by auto
    with Cons.IH [of k] False show ?thesis by (auto simp: nth_Cons less_Suc_eq_0_disj)
  qed (use Cons.prems in auto)
qed simp

lemma find_index_filter_nth:
  "find_index P xs = None \<longleftrightarrow> (\<forall>x \<in> set xs. \<not> P x)"
  by (induction xs) auto

text \<open>\<open>xs.splice(i, 0, x)\<close>.\<close>

definition splice_in :: "nat \<Rightarrow> 'a \<Rightarrow> 'a list \<Rightarrow> 'a list" where
  "splice_in i x xs = take i xs @ x # drop i xs"

section \<open>Strings by position\<close>

text \<open>\<open>s[i]\<close> (\<open>None\<close> is \<open>undefined\<close>), \<open>s.startsWith(t, i)\<close>, \<open>s.slice(a, b)\<close> for \<open>0 \<le> a\<close>, \<open>0 \<le> b\<close>.\<close>

definition char_at :: "jsstring \<Rightarrow> nat \<Rightarrow> char option" where
  "char_at s i = (if i < length s then Some (s ! i) else None)"

definition starts_at :: "jsstring \<Rightarrow> jsstring \<Rightarrow> nat \<Rightarrow> bool" where
  "starts_at s t i \<longleftrightarrow> take (length t) (drop i s) = t"

definition slice :: "jsstring \<Rightarrow> nat \<Rightarrow> nat \<Rightarrow> jsstring" where
  "slice s a b = take (b - a) (drop a s)"

text \<open>\<open>s.indexOf(t)\<close>, with \<open>None\<close> for \<open>-1\<close>.\<close>

fun index_of :: "jsstring \<Rightarrow> jsstring \<Rightarrow> nat option" where
  "index_of [] t = (if t = [] then Some 0 else None)"
| "index_of (c # s) t = (if prefix t (c # s) then Some 0 else map_option Suc (index_of s t))"

definition trim_start :: "jsstring \<Rightarrow> jsstring" where
  "trim_start s = dropWhile is_space s"

definition trim :: "jsstring \<Rightarrow> jsstring" where
  "trim s = rev (dropWhile is_space (rev (dropWhile is_space s)))"

text \<open>The loop \<open>while (p < lim && test(s[p])) p++\<close>; \<open>test\<close> sees \<open>undefined\<close> as \<open>None\<close>.\<close>

function scan_while :: "(char option \<Rightarrow> bool) \<Rightarrow> jsstring \<Rightarrow> nat \<Rightarrow> nat \<Rightarrow> nat" where
  "scan_while test s lim p =
     (if p < lim \<and> test (char_at s p) then scan_while test s lim (Suc p) else p)"
  by pat_completeness auto
termination
  by (relation "measure (\<lambda>(test, s, lim, p). lim - p)") auto

declare scan_while.simps [simp del]

text \<open>\<open>s.replace(re, rep)\<close> for a global \<open>re\<close>: leftmost matches, none of them empty. \<open>m\<close> gives the length of
  the match at the head of its argument. \<open>s.split(d)\<close> for one character \<open>d\<close>.\<close>

function replace_all :: "(jsstring \<Rightarrow> nat option) \<Rightarrow> jsstring \<Rightarrow> jsstring \<Rightarrow> jsstring" where
  "replace_all m rep [] = []"
| "replace_all m rep (c # cs) =
     (case m (c # cs) of
        Some (Suc n) \<Rightarrow> rep @ replace_all m rep (drop n cs)
      | _ \<Rightarrow> c # replace_all m rep cs)"
  by pat_completeness auto
termination
  by (relation "measure (\<lambda>(m, rep, s). length s)") auto

fun split_on :: "char \<Rightarrow> jsstring \<Rightarrow> jsstring list" where
  "split_on d [] = [[]]"
| "split_on d (c # cs) =
     (if c = d then [] # split_on d cs
      else (case split_on d cs of [] \<Rightarrow> [[c]] | w # ws \<Rightarrow> (c # w) # ws))"

section \<open>Lemmas on positions\<close>

lemma char_at_Some [js_simps]: "char_at s i = Some c \<longleftrightarrow> i < length s \<and> s ! i = c"
  by (auto simp: char_at_def)

lemma char_at_None [js_simps]: "char_at s i = None \<longleftrightarrow> length s \<le> i"
  by (auto simp: char_at_def)

lemma char_at_append_right [js_simps]: "char_at (xs @ ys) (length xs + i) = char_at ys i"
  by (simp add: char_at_def)

lemma starts_at_iff_prefix: "starts_at s t i \<longleftrightarrow> prefix t (drop i s)"
  by (auto simp: starts_at_def prefix_def intro: append_take_drop_id [symmetric]
        dest: sym [of "take _ _"]) (metis append_take_drop_id)

lemma starts_at_bound: "starts_at s t i \<Longrightarrow> t \<noteq> [] \<Longrightarrow> i + length t \<le> length s"
  by (cases "i \<le> length s") (auto simp: starts_at_iff_prefix dest!: prefix_length_le)

lemma starts_at_single [js_simps]: "starts_at s [c] i \<longleftrightarrow> char_at s i = Some c"
  by (cases "i < length s")
     (auto simp: starts_at_def char_at_def Cons_nth_drop_Suc [symmetric])

lemma scan_while_ge: "p \<le> scan_while test s lim p"
proof (induction test s lim p rule: scan_while.induct)
  case (1 test s lim p)
  then show ?case by (subst scan_while.simps) (auto dest: Suc_leD)
qed

lemma scan_while_le: "p \<le> lim \<Longrightarrow> scan_while test s lim p \<le> lim"
proof (induction test s lim p rule: scan_while.induct)
  case (1 test s lim p)
  then show ?case by (subst scan_while.simps) auto
qed

lemma scan_while_stop:
  "scan_while test s lim p < lim \<Longrightarrow> \<not> test (char_at s (scan_while test s lim p))"
proof (induction test s lim p rule: scan_while.induct)
  case (1 test s lim p)
  then show ?case by (subst (asm) scan_while.simps, subst scan_while.simps) (auto split: if_splits)
qed

lemma scan_while_all:
  "p \<le> i \<Longrightarrow> i < scan_while test s lim p \<Longrightarrow> test (char_at s i)"
proof (induction test s lim p rule: scan_while.induct)
  case (1 test s lim p)
  show ?case
  proof (cases "p < lim \<and> test (char_at s p)")
    case True
    with "1.prems" have "i < scan_while test s lim (Suc p)" by (subst (asm) scan_while.simps) simp
    with 1 True show ?thesis by (cases "p = i") simp_all
  next
    case False
    with "1.prems" show ?thesis by (subst (asm) scan_while.simps) auto
  qed
qed

lemma scan_while_strict: "p < lim \<Longrightarrow> test (char_at s p) \<Longrightarrow> p < scan_while test s lim p"
  using scan_while_ge [of "Suc p" test s lim] by (subst scan_while.simps) auto

lemma length_slice [js_simps]: "b \<le> length s \<Longrightarrow> length (slice s a b) = b - a"
  by (simp add: slice_def)

lemma slice_append_slice: "a \<le> b \<Longrightarrow> b \<le> c \<Longrightarrow> slice s a b @ slice s b c = slice s a c"
proof -
  assume "a \<le> b" "b \<le> c"
  then have "take (c - a) (drop a s) = take (b - a) (drop a s) @ take (c - b) (drop (b - a) (drop a s))"
    using take_add [of "b - a" "c - b" "drop a s"] by simp
  with \<open>a \<le> b\<close> show ?thesis by (simp add: slice_def)
qed

lemma slice_full [simp]: "slice s 0 (length s) = s"
  by (simp add: slice_def)

lemma slice_self [simp]: "slice s a a = []"
  by (simp add: slice_def)

text \<open>Trimmed strings.\<close>

lemma trim_id: "s \<noteq> [] \<Longrightarrow> \<not> is_space (hd s) \<Longrightarrow> \<not> is_space (last s) \<Longrightarrow> trim s = s"
proof -
  assume s: "s \<noteq> []" "\<not> is_space (hd s)" "\<not> is_space (last s)"
  then have "dropWhile is_space s = s" by (cases s) auto
  moreover have "dropWhile is_space (rev s) = rev s" using s by (cases s rule: rev_cases) auto
  ultimately show ?thesis by (simp add: trim_def)
qed

lemma trimmed_edges: "trim t = t \<Longrightarrow> t \<noteq> [] \<Longrightarrow> \<not> is_space (hd t) \<and> \<not> is_space (last t)"
proof -
  assume t: "trim t = t" "t \<noteq> []"
  define u where "u = dropWhile is_space (rev (dropWhile is_space t))"
  have r: "t = rev u" using t(1) by (simp add: trim_def u_def)
  then have "u \<noteq> []" using t(2) by auto
  then have "\<not> is_space (hd u)" unfolding u_def by (rule hd_dropWhile)
  then have l: "\<not> is_space (last t)" by (metis r last_rev)
  have "length u \<le> length (dropWhile is_space t)" unfolding u_def by (metis length_dropWhile_le length_rev)
  then have "length t \<le> length (dropWhile is_space t)" using arg_cong [OF r, of length] by simp
  moreover have "length t = length (takeWhile is_space t) + length (dropWhile is_space t)"
    by (metis length_append takeWhile_dropWhile_id)
  ultimately have "takeWhile is_space t = []" by simp
  then have "\<not> is_space (hd t)" using t(2) by (cases t) (auto split: if_splits)
  with l show ?thesis by blast
qed

end
