(* ===== verification/SqlOptions.thy ===== *)
theory SqlOptions
  imports Prelude
begin

text \<open>
  The data model of the SQL splitter (\<open>utils/sqlSplitter/index.ts\<close>): the token kinds, the quote
  rules and per-dialect options of the scanner, the six built-in presets and how a dialect name
  or a resolved syntax selects one. \<open>wf_options\<close> is the well-formedness the scanner needs to make
  progress (no quote opens or closes with the empty string); every preset satisfies it here, every
  plugin-declared syntax in theory \<open>SqlSyntax\<close>.
\<close>

named_theorems option_defs \<open>the presets of the dialect table\<close>

datatype Dialect = Postgres | Mysql | Mssql | Sqlite | Oracle | Generic

record StatementRange =
  range_start :: nat
  range_end :: nat

record NonCodeSpan =
  nc_start :: nat
  nc_end :: nat

record Statement =
  stmt_text :: jsstring
  stmt_range :: StatementRange
  stmt_isSelect :: bool
  stmt_returnsResultSet :: bool
  stmt_isExplainable :: bool

datatype TokenKind =
    Whitespace | Eoln | LineComment | BlockComment | StringTok
  | Delimiter | SetDelimiter | GoDelimiter | SlashDelimiter | Data

record Token =
  kind :: TokenKind
  tlen :: nat
  tvalue :: "jsstring option"

datatype QuoteKind = QString | QIdentifier

record QuoteRule =
  q_open :: jsstring
  q_close :: jsstring
  q_escape :: "jsstring option"
  q_doubleClose :: bool
  q_kind :: QuoteKind

record DialectOptions =
  quotes :: "QuoteRule list"
  eString :: bool
  dollarQuoting :: bool
  customDelimiter :: bool
  goDelimiter :: bool
  slashDelimiter :: bool
  plsqlBlocks :: bool
  qQuoting :: bool
  lineComments :: bool
  blockComments :: bool
  hashComments :: bool
  executableComments :: bool
  nestedBlockComments :: bool
  lineCommentRequiresSpace :: bool
  tripleQuotedStrings :: bool
  stringPrefixes :: "jsstring list"
  scriptBlocks :: bool

text \<open>A resolved syntax as the splitter entry points accept it, and the union they accept.\<close>

record SqlSyntaxSource =
  dialect :: "Dialect option"
  declared :: bool
  options :: DialectOptions

datatype DialectInput = NoDialect | DialectName jsstring | Resolved SqlSyntaxSource

section \<open>Presets\<close>

definition STANDARD_QUOTES :: "QuoteRule list" where
  "STANDARD_QUOTES =
     [\<lparr>q_open = [SQ], q_close = [SQ], q_escape = None, q_doubleClose = True, q_kind = QString\<rparr>,
      \<lparr>q_open = [DQ], q_close = [DQ], q_escape = None, q_doubleClose = True, q_kind = QIdentifier\<rparr>]"

definition NO_PREFIXES :: "jsstring list" where
  "NO_PREFIXES = []"

definition POSTGRES :: DialectOptions where
  "POSTGRES = \<lparr>quotes = STANDARD_QUOTES, eString = True, dollarQuoting = True,
     customDelimiter = False, goDelimiter = False, slashDelimiter = False, plsqlBlocks = False,
     qQuoting = False, lineComments = True, blockComments = True, hashComments = False,
     executableComments = False, nestedBlockComments = True, lineCommentRequiresSpace = False,
     tripleQuotedStrings = False, stringPrefixes = NO_PREFIXES, scriptBlocks = False\<rparr>"

definition MYSQL :: DialectOptions where
  "MYSQL = \<lparr>quotes =
       [\<lparr>q_open = [SQ], q_close = [SQ], q_escape = Some [BSL], q_doubleClose = True, q_kind = QString\<rparr>,
        \<lparr>q_open = [DQ], q_close = [DQ], q_escape = Some [BSL], q_doubleClose = True, q_kind = QString\<rparr>,
        \<lparr>q_open = [BTICK], q_close = [BTICK], q_escape = None, q_doubleClose = True, q_kind = QIdentifier\<rparr>],
     eString = False, dollarQuoting = False,
     customDelimiter = True, goDelimiter = False, slashDelimiter = False, plsqlBlocks = False,
     qQuoting = False, lineComments = True, blockComments = True, hashComments = True,
     executableComments = True, nestedBlockComments = False, lineCommentRequiresSpace = True,
     tripleQuotedStrings = False, stringPrefixes = NO_PREFIXES, scriptBlocks = False\<rparr>"

definition MSSQL :: DialectOptions where
  "MSSQL = \<lparr>quotes =
       [\<lparr>q_open = [SQ], q_close = [SQ], q_escape = None, q_doubleClose = True, q_kind = QString\<rparr>,
        \<lparr>q_open = ''['', q_close = '']'', q_escape = None, q_doubleClose = True, q_kind = QIdentifier\<rparr>,
        \<lparr>q_open = [DQ], q_close = [DQ], q_escape = None, q_doubleClose = True, q_kind = QIdentifier\<rparr>],
     eString = False, dollarQuoting = False,
     customDelimiter = False, goDelimiter = True, slashDelimiter = False, plsqlBlocks = False,
     qQuoting = False, lineComments = True, blockComments = True, hashComments = False,
     executableComments = False, nestedBlockComments = True, lineCommentRequiresSpace = False,
     tripleQuotedStrings = False, stringPrefixes = NO_PREFIXES, scriptBlocks = False\<rparr>"

definition SQLITE :: DialectOptions where
  "SQLITE = \<lparr>quotes =
       [\<lparr>q_open = [SQ], q_close = [SQ], q_escape = None, q_doubleClose = True, q_kind = QString\<rparr>,
        \<lparr>q_open = [DQ], q_close = [DQ], q_escape = None, q_doubleClose = True, q_kind = QIdentifier\<rparr>,
        \<lparr>q_open = [BTICK], q_close = [BTICK], q_escape = None, q_doubleClose = True, q_kind = QIdentifier\<rparr>,
        \<lparr>q_open = ''['', q_close = '']'', q_escape = None, q_doubleClose = False, q_kind = QIdentifier\<rparr>],
     eString = False, dollarQuoting = False,
     customDelimiter = False, goDelimiter = False, slashDelimiter = False, plsqlBlocks = False,
     qQuoting = False, lineComments = True, blockComments = True, hashComments = False,
     executableComments = False, nestedBlockComments = False, lineCommentRequiresSpace = False,
     tripleQuotedStrings = False, stringPrefixes = NO_PREFIXES, scriptBlocks = False\<rparr>"

definition ORACLE :: DialectOptions where
  "ORACLE = \<lparr>quotes = STANDARD_QUOTES, eString = False, dollarQuoting = False,
     customDelimiter = False, goDelimiter = False, slashDelimiter = True, plsqlBlocks = True,
     qQuoting = True, lineComments = True, blockComments = True, hashComments = False,
     executableComments = False, nestedBlockComments = False, lineCommentRequiresSpace = False,
     tripleQuotedStrings = False, stringPrefixes = NO_PREFIXES, scriptBlocks = False\<rparr>"

definition GENERIC :: DialectOptions where
  "GENERIC = \<lparr>quotes = STANDARD_QUOTES, eString = False, dollarQuoting = False,
     customDelimiter = False, goDelimiter = False, slashDelimiter = False, plsqlBlocks = False,
     qQuoting = False, lineComments = True, blockComments = True, hashComments = False,
     executableComments = False, nestedBlockComments = False, lineCommentRequiresSpace = False,
     tripleQuotedStrings = False, stringPrefixes = NO_PREFIXES, scriptBlocks = False\<rparr>"

lemmas preset_defs [option_defs] =
  STANDARD_QUOTES_def NO_PREFIXES_def POSTGRES_def MYSQL_def MSSQL_def SQLITE_def ORACLE_def GENERIC_def

text \<open>The keys of \<open>DIALECT_TABLE\<close> in declaration order, with their presets.\<close>

definition DIALECT_TABLE :: "(jsstring \<times> (Dialect \<times> DialectOptions)) list" where
  "DIALECT_TABLE =
     [(''postgres'', Postgres, POSTGRES), (''mysql'', Mysql, MYSQL), (''mssql'', Mssql, MSSQL),
      (''sqlite'', Sqlite, SQLITE), (''oracle'', Oracle, ORACLE), (''generic'', Generic, GENERIC)]"

fun dialectOptions :: "Dialect \<Rightarrow> DialectOptions" where
  "dialectOptions Postgres = POSTGRES"
| "dialectOptions Mysql = MYSQL"
| "dialectOptions Mssql = MSSQL"
| "dialectOptions Sqlite = SQLITE"
| "dialectOptions Oracle = ORACLE"
| "dialectOptions Generic = GENERIC"

text \<open>\<open>isDialect\<close> narrows its argument: \<open>Some\<close> is the dialect of that name.\<close>

definition isDialect :: "jsstring option \<Rightarrow> Dialect option" where
  "isDialect name = Option.bind name (\<lambda>n. map_option fst (map_of DIALECT_TABLE n))"

definition normalizeDialect :: "jsstring option \<Rightarrow> Dialect" where
  "normalizeDialect name =
     (case name of None \<Rightarrow> Postgres
      | Some n \<Rightarrow> (case isDialect (Some n) of Some d \<Rightarrow> d | None \<Rightarrow> Generic))"

fun optionsFor :: "DialectInput \<Rightarrow> DialectOptions" where
  "optionsFor (Resolved s) = options s"
| "optionsFor (DialectName n) = dialectOptions (normalizeDialect (Some n))"
| "optionsFor NoDialect = dialectOptions (normalizeDialect None)"

section \<open>Well-formed options\<close>

definition wf_quote :: "QuoteRule \<Rightarrow> bool" where
  "wf_quote r \<longleftrightarrow> q_open r \<noteq> [] \<and> q_close r \<noteq> []"

definition wf_options :: "DialectOptions \<Rightarrow> bool" where
  "wf_options opts \<longleftrightarrow> list_all wf_quote (quotes opts)"

lemma wf_options_quote: "wf_options opts \<Longrightarrow> r \<in> set (quotes opts) \<Longrightarrow> wf_quote r"
  by (simp add: wf_options_def list_all_iff)

lemma wf_dialectOptions [simp]: "wf_options (dialectOptions d)"
  by (cases d) (simp_all add: option_defs wf_options_def wf_quote_def)

definition wf_input :: "DialectInput \<Rightarrow> bool" where
  "wf_input i = (case i of Resolved s \<Rightarrow> wf_options (options s) | _ \<Rightarrow> True)"

lemma wf_optionsFor: "wf_input i \<Longrightarrow> wf_options (optionsFor i)"
  by (cases i) (simp_all add: wf_input_def)

text \<open>The table and the lookup agree: a name of the table selects its own preset.\<close>

lemma isDialect_preset:
  "isDialect (Some n) = Some d \<Longrightarrow> map_of DIALECT_TABLE n = Some (d, dialectOptions d)"
  by (auto simp: isDialect_def DIALECT_TABLE_def split: if_splits)

lemma isDialect_None [simp]: "isDialect None = None"
  by (simp add: isDialect_def)

end
