(* ===== verification/Tokenizer.thy ===== *)
theory Tokenizer
  imports SqlOptions
begin

text \<open>
  The single-token scanner (\<open>utils/sqlSplitter/tokenizer.ts\<close>). Each \<open>scan...\<close> and \<open>read...\<close>
  function of the source is one definition; a sticky regular expression is the hand-written
  matcher of the same language. The scanner of a quoted run can loop forever on a rule with an
  empty close, so it runs on fuel: \<open>None\<close> there is "does not return", and \<open>scanToken\<close> carries it
  as its outer \<open>None\<close> (the inner option is the source's \<open>Token | null\<close>). The lemmas show that
  with well-formed options every token is nonempty and stays inside the source.
\<close>

named_theorems token_bounds \<open>a scanner's token is nonempty and inside the source\<close>

record TokenizerState =
  delimiter :: jsstring
  lineLeading :: bool

definition mkToken :: "TokenKind \<Rightarrow> nat \<Rightarrow> Token" where
  "mkToken k n = \<lparr>kind = k, tlen = n, tvalue = None\<rparr>"

text \<open>\<open>IDENT_CHAR_RE.test(x)\<close>: \<open>undefined\<close> is tested as the string \<open>"undefined"\<close>, which matches.\<close>

definition test_ident :: "char option \<Rightarrow> bool" where
  "test_ident c = (case c of None \<Rightarrow> True | Some c \<Rightarrow> is_ident_char c)"

definition isIdentBoundary :: "jsstring \<Rightarrow> int \<Rightarrow> bool" where
  "isIdentBoundary source prevIndex =
     (if prevIndex < 0 then False else test_ident (char_at source (nat prevIndex)))"

section \<open>Comments\<close>

function scanBlockComment_loop :: "jsstring \<Rightarrow> nat \<Rightarrow> bool \<Rightarrow> nat \<Rightarrow> nat \<Rightarrow> nat" where
  "scanBlockComment_loop source position nested depth p =
     (if p + 1 < length source then
        (if nested \<and> source ! p = CHR ''/'' \<and> source ! (p + 1) = CHR ''*'' then
           scanBlockComment_loop source position nested (depth + 1) (p + 2)
         else if source ! p = CHR ''*'' \<and> source ! (p + 1) = CHR ''/'' then
           (if depth - 1 = 0 then p + 2 - position
            else scanBlockComment_loop source position nested (depth - 1) (p + 2))
         else scanBlockComment_loop source position nested depth (p + 1))
      else length source - position)"
  by pat_completeness auto
termination
  by (relation "measure (\<lambda>(source, position, nested, depth, p). length source - p)") auto

declare scanBlockComment_loop.simps [simp del]

definition scanBlockCommentLength :: "jsstring \<Rightarrow> nat \<Rightarrow> bool \<Rightarrow> nat" where
  "scanBlockCommentLength source position nested =
     scanBlockComment_loop source position nested 1 (position + 2)"

definition scanComment :: "jsstring \<Rightarrow> nat \<Rightarrow> DialectOptions \<Rightarrow> Token option" where
  "scanComment source position opts =
     (let ch = char_at source position in
      if lineComments opts \<and> ch = Some (CHR ''-'') \<and> char_at source (position + 1) = Some (CHR ''-'') then
        (let after = char_at source (position + 2) in
         if lineCommentRequiresSpace opts \<and> after \<noteq> None \<and> after \<noteq> Some SP \<and> after \<noteq> Some TAB
            \<and> after \<noteq> Some NL \<and> after \<noteq> Some CR
         then Some (mkToken Data 1)
         else Some (mkToken LineComment
                (scan_while (\<lambda>c. c \<noteq> Some NL) source (length source) (position + 2) - position)))
      else if hashComments opts \<and> ch = Some (CHR ''#'') then
        Some (mkToken LineComment
                (scan_while (\<lambda>c. c \<noteq> Some NL) source (length source) (position + 1) - position))
      else if blockComments opts \<and> ch = Some (CHR ''/'') \<and> char_at source (position + 1) = Some (CHR ''*'') then
        (let len = scanBlockCommentLength source position (nestedBlockComments opts);
             isExecutable = (executableComments opts \<and> char_at source (position + 2) = Some (CHR ''!''))
         in Some (mkToken (if isExecutable then Data else BlockComment) len))
      else None)"

section \<open>Quoted runs\<close>

text \<open>One iteration of the \<open>while\<close> loop of \<open>scanQuoted\<close> per unit of fuel.\<close>

fun scanQuoted_loop :: "nat \<Rightarrow> jsstring \<Rightarrow> nat \<Rightarrow> QuoteRule \<Rightarrow> nat \<Rightarrow> Token option" where
  "scanQuoted_loop 0 source start rule p = None"
| "scanQuoted_loop (Suc fuel) source start rule p =
     (if p < length source then
        (if Some [source ! p] = q_escape rule \<and> p + 1 < length source then
           scanQuoted_loop fuel source start rule (p + 2)
         else if starts_at source (q_close rule) p then
           (if q_doubleClose rule \<and> starts_at source (q_close rule) (p + length (q_close rule)) then
              scanQuoted_loop fuel source start rule (p + length (q_close rule) * 2)
            else Some (mkToken StringTok (p + length (q_close rule) - start)))
         else scanQuoted_loop fuel source start rule (p + 1))
      else Some (mkToken StringTok (length source - start)))"

definition scanQuoted :: "jsstring \<Rightarrow> nat \<Rightarrow> QuoteRule \<Rightarrow> Token option" where
  "scanQuoted source position rule =
     scanQuoted_loop (Suc (length source)) source position rule (position + length (q_open rule))"

function scanEString_loop :: "jsstring \<Rightarrow> nat \<Rightarrow> nat \<Rightarrow> Token" where
  "scanEString_loop source position p =
     (if p < length source then
        (if source ! p = BSL \<and> p + 1 < length source then scanEString_loop source position (p + 2)
         else if source ! p = SQ then
           (if char_at source (p + 1) = Some SQ then scanEString_loop source position (p + 2)
            else mkToken StringTok (p + 1 - position))
         else scanEString_loop source position (p + 1))
      else mkToken StringTok (length source - position))"
  by pat_completeness auto
termination
  by (relation "measure (\<lambda>(source, position, p). length source - p)") auto

declare scanEString_loop.simps [simp del]

definition scanEString :: "jsstring \<Rightarrow> nat \<Rightarrow> Token" where
  "scanEString source position = scanEString_loop source position (position + 2)"

text \<open>\<open>DOLLAR_TAG_RE = /\$([A-Za-z0-9_]*)\$/y\<close>: the matched text.\<close>

definition dollarTag :: "jsstring \<Rightarrow> nat \<Rightarrow> jsstring option" where
  "dollarTag source position =
     (if char_at source position = Some (CHR ''$'') then
        (let e = scan_while (\<lambda>c. case c of None \<Rightarrow> False | Some c \<Rightarrow> is_ident_char c)
                   source (length source) (position + 1)
         in if char_at source e = Some (CHR ''$'') then Some (slice source position (e + 1)) else None)
      else None)"

function dollarQuoted_loop :: "jsstring \<Rightarrow> nat \<Rightarrow> jsstring \<Rightarrow> nat \<Rightarrow> Token" where
  "dollarQuoted_loop source position tag p =
     (if p < length source then
        (if starts_at source tag p then mkToken StringTok (p + length tag - position)
         else dollarQuoted_loop source position tag (p + 1))
      else mkToken StringTok (length source - position))"
  by pat_completeness auto
termination
  by (relation "measure (\<lambda>(source, position, tag, p). length source - p)") auto

declare dollarQuoted_loop.simps [simp del]

definition scanDollarQuoted :: "jsstring \<Rightarrow> nat \<Rightarrow> Token option" where
  "scanDollarQuoted source position =
     (if isIdentBoundary source (int position - 1) then None
      else case dollarTag source position of
        None \<Rightarrow> None
      | Some tag \<Rightarrow> Some (dollarQuoted_loop source position tag (position + length tag)))"

definition matchStringPrefix :: "jsstring \<Rightarrow> nat \<Rightarrow> jsstring list \<Rightarrow> nat" where
  "matchStringPrefix source position pres =
     foldl (\<lambda>longest pre.
         if length pre > longest \<and> lower (slice source position (position + length pre)) = pre
         then length pre else longest) 0 pres"

function triple_loop :: "jsstring \<Rightarrow> nat \<Rightarrow> QuoteRule \<Rightarrow> jsstring \<Rightarrow> nat \<Rightarrow> Token" where
  "triple_loop source position rule triple p =
     (if p < length source then
        (if Some [source ! p] = q_escape rule \<and> p + 1 < length source then
           triple_loop source position rule triple (p + 2)
         else if starts_at source triple p then mkToken StringTok (p + length triple - position)
         else triple_loop source position rule triple (p + 1))
      else mkToken StringTok (length source - position))"
  by pat_completeness auto
termination
  by (relation "measure (\<lambda>(source, position, rule, triple, p). length source - p)") auto

declare triple_loop.simps [simp del]

text \<open>Outer \<open>None\<close>: \<open>scanQuoted\<close> did not return; \<open>Some None\<close>: the source's \<open>null\<close>.\<close>

definition scanPrefixedOrTripleString ::
  "jsstring \<Rightarrow> nat \<Rightarrow> DialectOptions \<Rightarrow> Token option option" where
  "scanPrefixedOrTripleString source position opts =
     (let p = (if \<not> isIdentBoundary source (int position - 1)
               then position + matchStringPrefix source position (stringPrefixes opts) else position)
      in case find (\<lambda>q. q_kind q = QString \<and> length (q_open q) = 1 \<and> q_open q = q_close q
                        \<and> starts_at source (q_open q) p) (quotes opts) of
           None \<Rightarrow> Some None
         | Some rule \<Rightarrow>
             (let triple = concat (replicate 3 (q_open rule));
                  isTriple = (tripleQuotedStrings opts \<and> (q_open rule = [SQ] \<or> q_open rule = [DQ])
                              \<and> starts_at source triple p)
              in if p = position \<and> \<not> isTriple then Some None
                 else if \<not> isTriple then
                   (case scanQuoted source p rule of
                      None \<Rightarrow> None
                    | Some t \<Rightarrow> Some (Some (mkToken StringTok (tlen t + p - position))))
                 else Some (Some (triple_loop source position rule triple (p + length triple)))))"

section \<open>Oracle q-quotes\<close>

definition isQQuoteWhitespaceDelimiter :: "char \<Rightarrow> bool" where
  "isQQuoteWhitespaceDelimiter d \<longleftrightarrow> d = SP \<or> d = TAB \<or> d = CR \<or> d = NL"

definition qQuoteCloseDelimiter :: "char \<Rightarrow> char" where
  "qQuoteCloseDelimiter d =
     (if d = CHR ''['' then CHR '']'' else if d = CHR ''{'' then CHR ''}''
      else if d = CHR ''('' then CHR '')'' else if d = CHR ''<'' then CHR ''>'' else d)"

function qQuoted_loop :: "jsstring \<Rightarrow> nat \<Rightarrow> char \<Rightarrow> nat \<Rightarrow> Token" where
  "qQuoted_loop source position closeDelimiter p =
     (if p < length source then
        (if starts_at source [closeDelimiter] p \<and> char_at source (p + 1) = Some SQ
         then mkToken StringTok (p + 1 + 1 - position)
         else qQuoted_loop source position closeDelimiter (p + 1))
      else mkToken StringTok (length source - position))"
  by pat_completeness auto
termination
  by (relation "measure (\<lambda>(source, position, closeDelimiter, p). length source - p)") auto

declare qQuoted_loop.simps [simp del]

text \<open>Every code unit of the model is below 256, so a delimiter is one code unit long.\<close>

definition scanQQuoted :: "jsstring \<Rightarrow> nat \<Rightarrow> Token option" where
  "scanQQuoted source position =
     (if isIdentBoundary source (int position - 1) then None
      else
        (let ch = char_at source position; nxt = char_at source (position + 1);
             third = char_at source (position + 2);
             prefixLength =
               (if (ch = Some (CHR ''Q'') \<or> ch = Some (CHR ''q'')) \<and> nxt = Some SQ then Some 2
                else if (ch = Some (CHR ''N'') \<or> ch = Some (CHR ''n''))
                        \<and> (nxt = Some (CHR ''Q'') \<or> nxt = Some (CHR ''q'')) \<and> third = Some SQ then Some (3::nat)
                else None)
         in case prefixLength of None \<Rightarrow> None
            | Some pl \<Rightarrow>
                (case char_at source (position + pl) of None \<Rightarrow> None
                 | Some openDelimiter \<Rightarrow>
                     (if isQQuoteWhitespaceDelimiter openDelimiter then None
                      else Some (qQuoted_loop source position (qQuoteCloseDelimiter openDelimiter)
                                   (position + pl + 1))))))"

section \<open>Line directives\<close>

definition matchesKeyword :: "jsstring \<Rightarrow> nat \<Rightarrow> jsstring \<Rightarrow> bool" where
  "matchesKeyword source position word =
     (if position + length word > length source then False
      else if \<not> list_all (\<lambda>i. upper_char (source ! (position + i)) = word ! i) [0..<length word] then False
      else (case char_at source (position + length word) of
              None \<Rightarrow> True | Some c \<Rightarrow> \<not> is_ident_char c))"

text \<open>\<open>[ \t]*\<close> from \<open>p\<close>, and \<open>[ \t\r]*\<close> from \<open>p\<close>.\<close>

definition skip_blank :: "jsstring \<Rightarrow> nat \<Rightarrow> nat" where
  "skip_blank s p = scan_while (\<lambda>c. c = Some SP \<or> c = Some TAB) s (length s) p"

definition skip_blank_cr :: "jsstring \<Rightarrow> nat \<Rightarrow> nat" where
  "skip_blank_cr s p = scan_while (\<lambda>c. c = Some SP \<or> c = Some TAB \<or> c = Some CR) s (length s) p"

text \<open>\<open>CUSTOM_DELIM_RE = /DELIMITER[ \t]+(\S+)/iy\<close>: \<open>[ \t]+\<close> and \<open>\S+\<close> share no character, so greedy
  matching needs no backtracking.\<close>

definition readCustomDelimiter :: "jsstring \<Rightarrow> nat \<Rightarrow> Token option" where
  "readCustomDelimiter source position =
     (if upper (slice source position (position + 9)) \<noteq> ''DELIMITER'' then None
      else
        (let w = skip_blank source (position + 9);
             e = scan_while (\<lambda>c. case c of None \<Rightarrow> False | Some c \<Rightarrow> \<not> is_space c) source (length source) w
         in if w = position + 9 \<or> e = w then None
            else Some \<lparr>kind = SetDelimiter, tlen = e - position, tvalue = Some (slice source w e)\<rparr>))"

text \<open>\<open>(\n|$)\<close> at \<open>p\<close>: \<open>length\<close> is the directive's, with a matched newline left out.\<close>

definition at_line_end :: "jsstring \<Rightarrow> nat \<Rightarrow> bool" where
  "at_line_end s p \<longleftrightarrow> char_at s p = Some NL \<or> p = length s"

text \<open>\<open>GO_RE = /GO(?:[ \t]+\d+)?[ \t\r]*(\n|$)/iy\<close>: the optional group is taken exactly when blanks
  and a digit follow, since without it those digits could not be matched.\<close>

definition readGoDelimiter :: "jsstring \<Rightarrow> nat \<Rightarrow> Token option" where
  "readGoDelimiter source position =
     (if upper (slice source position (position + 2)) \<noteq> ''GO'' then None
      else
        (let b = skip_blank source (position + 2);
             d = scan_while (\<lambda>c. case c of None \<Rightarrow> False | Some c \<Rightarrow> is_digit c) source (length source) b;
             g = (if position + 2 < b \<and> b < d then d else position + 2);
             e = skip_blank_cr source g
         in if at_line_end source e then Some (mkToken GoDelimiter (e - position)) else None))"

text \<open>\<open>SLASH_RE = /\/[ \t\r]*(\n|$)/y\<close>.\<close>

definition readSlashDelimiter :: "jsstring \<Rightarrow> nat \<Rightarrow> Token option" where
  "readSlashDelimiter source position =
     (if char_at source position \<noteq> Some (CHR ''/'') then None
      else
        (let e = skip_blank_cr source (position + 1)
         in if at_line_end source e then Some (mkToken SlashDelimiter (e - position)) else None))"

text \<open>The three directives \<open>scanToken\<close> tries at the start of a line, in the source's order.\<close>

definition scanLineDirective :: "jsstring \<Rightarrow> nat \<Rightarrow> DialectOptions \<Rightarrow> Token option" where
  "scanLineDirective source position opts =
     (case (if customDelimiter opts \<and> matchesKeyword source position ''DELIMITER''
            then readCustomDelimiter source position else None) of
        Some t \<Rightarrow> Some t
      | None \<Rightarrow>
        (case (if goDelimiter opts \<and> matchesKeyword source position ''GO''
               then readGoDelimiter source position else None) of
           Some t \<Rightarrow> Some t
         | None \<Rightarrow>
           (if slashDelimiter opts \<and> char_at source position = Some (CHR ''/'')
            then readSlashDelimiter source position else None)))"

section \<open>The scanner\<close>

definition scanToken ::
  "jsstring \<Rightarrow> nat \<Rightarrow> DialectOptions \<Rightarrow> TokenizerState \<Rightarrow> Token option option" where
  "scanToken source position opts state =
     (if position \<ge> length source then Some None
      else if length (delimiter state) > 0 \<and> starts_at source (delimiter state) position then
        Some (Some (mkToken Delimiter (length (delimiter state))))
      else
        (let ch = source ! position in
         if ch = NL then Some (Some (mkToken Eoln 1))
         else if ch = SP \<or> ch = TAB \<or> ch = CR then Some (Some (mkToken Whitespace 1))
         else case scanComment source position opts of Some t \<Rightarrow> Some (Some t) | None \<Rightarrow>
           (if eString opts \<and> (ch = CHR ''E'' \<or> ch = CHR ''e'') \<and> char_at source (position + 1) = Some SQ
               \<and> \<not> isIdentBoundary source (int position - 1)
            then Some (Some (scanEString source position))
            else case (if dollarQuoting opts \<and> ch = CHR ''$'' then scanDollarQuoted source position else None) of
              Some t \<Rightarrow> Some (Some t) | None \<Rightarrow>
            (case (if qQuoting opts \<and> (ch = CHR ''Q'' \<or> ch = CHR ''q'' \<or> ch = CHR ''N'' \<or> ch = CHR ''n'')
                   then scanQQuoted source position else None) of
              Some t \<Rightarrow> Some (Some t) | None \<Rightarrow>
            (case (if tripleQuotedStrings opts \<or> length (stringPrefixes opts) > 0
                   then scanPrefixedOrTripleString source position opts else Some None) of
              None \<Rightarrow> None | Some (Some t) \<Rightarrow> Some (Some t) | Some None \<Rightarrow>
            (case find (\<lambda>rule. starts_at source (q_open rule) position) (quotes opts) of
              Some rule \<Rightarrow> map_option Some (scanQuoted source position rule)
            | None \<Rightarrow>
            (case (if lineLeading state then scanLineDirective source position opts else None) of
              Some t \<Rightarrow> Some (Some t)
            | None \<Rightarrow> Some (Some (mkToken Data 1))))))))) "

section \<open>Every token is nonempty and inside the source\<close>

definition token_ok :: "jsstring \<Rightarrow> nat \<Rightarrow> Token \<Rightarrow> bool" where
  "token_ok s p t \<longleftrightarrow> 0 < tlen t \<and> p + tlen t \<le> length s"

lemma mkToken_sel [simp]:
  "kind (mkToken k n) = k" "tlen (mkToken k n) = n" "tvalue (mkToken k n) = None"
  by (simp_all add: mkToken_def)

lemma token_ok_mkToken [simp]: "token_ok s p (mkToken k n) \<longleftrightarrow> 0 < n \<and> p + n \<le> length s"
  by (simp add: token_ok_def)

lemma scanBlockComment_loop_bounds:
  "position + 2 \<le> p \<Longrightarrow> p \<le> length source \<Longrightarrow>
   0 < scanBlockComment_loop source position nested depth p \<and>
   position + scanBlockComment_loop source position nested depth p \<le> length source"
proof (induction source position nested depth p rule: scanBlockComment_loop.induct)
  case (1 source position nested depth p)
  then show ?case by (subst (1 2) scanBlockComment_loop.simps) auto
qed

lemma scanComment_ok [token_bounds]: "scanComment s p opts = Some t \<Longrightarrow> token_ok s p t"
  using scan_while_ge [of "p + 2" "\<lambda>c. c \<noteq> Some NL" s "length s"]
    scan_while_le [of "p + 2" "length s" "\<lambda>c. c \<noteq> Some NL" s]
    scan_while_ge [of "p + 1" "\<lambda>c. c \<noteq> Some NL" s "length s"]
    scan_while_le [of "p + 1" "length s" "\<lambda>c. c \<noteq> Some NL" s]
    scanBlockComment_loop_bounds [of p "p + 2" s]
  by (auto simp: scanComment_def scanBlockCommentLength_def Let_def js_simps split: if_splits)

lemma scanQuoted_loop_ok:
  assumes "wf_quote rule" "start < p" "p \<le> length s" "length s - p < fuel"
  shows "\<exists>t. scanQuoted_loop fuel s start rule p = Some t \<and> token_ok s start t"
  using assms(2-)
proof (induction fuel arbitrary: p)
  case 0
  then show ?case by simp
next
  case (Suc fuel)
  have c: "q_close rule \<noteq> []" using assms(1) by (simp add: wf_quote_def)
  note b = starts_at_bound [OF _ c]
  have l: "0 < length (q_close rule)" using c by simp
  show ?case
  proof (cases "p < length s")
    case False
    with Suc.prems show ?thesis by simp
  next
    case p: True
    consider (esc) "Some [s ! p] = q_escape rule \<and> p + 1 < length s"
      | (dbl) "\<not> (Some [s ! p] = q_escape rule \<and> p + 1 < length s)" "starts_at s (q_close rule) p"
          "q_doubleClose rule \<and> starts_at s (q_close rule) (p + length (q_close rule))"
      | (cls) "\<not> (Some [s ! p] = q_escape rule \<and> p + 1 < length s)" "starts_at s (q_close rule) p"
          "\<not> (q_doubleClose rule \<and> starts_at s (q_close rule) (p + length (q_close rule)))"
      | (step) "\<not> (Some [s ! p] = q_escape rule \<and> p + 1 < length s)" "\<not> starts_at s (q_close rule) p"
      by blast
    then show ?thesis
    proof cases
      case esc
      with p Suc.prems show ?thesis using Suc.IH [of "p + 2"] by auto
    next
      case dbl
      have "p + length (q_close rule) * 2 \<le> length s" using b [of s "p + length (q_close rule)"] dbl(3) by simp
      moreover have "length s - (p + length (q_close rule) * 2) < fuel"
        using Suc.prems(3) l p by linarith
      ultimately show ?thesis using dbl p Suc.prems Suc.IH [of "p + length (q_close rule) * 2"] by auto
    next
      case cls
      with p Suc.prems b [of s p] l show ?thesis by auto
    next
      case step
      with p Suc.prems show ?thesis using Suc.IH [of "p + 1"] by auto
    qed
  qed
qed

lemma scanQuoted_ok:
  assumes "wf_quote rule" "starts_at s (q_open rule) p"
  shows "\<exists>t. scanQuoted s p rule = Some t \<and> token_ok s p t"
proof -
  have "p + length (q_open rule) \<le> length s" and "0 < length (q_open rule)"
    using assms starts_at_bound by (auto simp: wf_quote_def)
  then show ?thesis unfolding scanQuoted_def
    by (intro scanQuoted_loop_ok [OF assms(1)]) auto
qed

lemma scanEString_loop_ok:
  "position < p \<Longrightarrow> p \<le> length s \<Longrightarrow> token_ok s position (scanEString_loop s position p)"
proof (induction s position p rule: scanEString_loop.induct)
  case (1 s position p)
  then show ?case by (subst scanEString_loop.simps) (auto simp: js_simps)
qed

lemma dollarQuoted_loop_ok:
  "position < p \<Longrightarrow> p \<le> length s \<Longrightarrow> tag \<noteq> [] \<Longrightarrow> token_ok s position (dollarQuoted_loop s position tag p)"
proof (induction s position tag p rule: dollarQuoted_loop.induct)
  case (1 s position tag p)
  then show ?case using starts_at_bound [of s tag p]
    by (subst dollarQuoted_loop.simps) auto
qed

lemma dollarTag_bound: "dollarTag s p = Some tag \<Longrightarrow> 2 \<le> length tag \<and> p + length tag \<le> length s"
  using scan_while_ge [of "p + 1" "\<lambda>c. case c of None \<Rightarrow> False | Some c \<Rightarrow> is_ident_char c" s "length s"]
  by (auto simp: dollarTag_def Let_def js_simps split: if_splits)

lemma scanDollarQuoted_ok [token_bounds]: "scanDollarQuoted s p = Some t \<Longrightarrow> token_ok s p t"
  using dollarTag_bound [of s p]
  by (auto simp: scanDollarQuoted_def split: if_splits option.splits intro!: dollarQuoted_loop_ok)

lemma triple_loop_ok:
  "position < p \<Longrightarrow> p \<le> length s \<Longrightarrow> triple \<noteq> [] \<Longrightarrow> token_ok s position (triple_loop s position rule triple p)"
proof (induction s position rule triple p rule: triple_loop.induct)
  case (1 s position rule triple p)
  then show ?case using starts_at_bound [of s triple p]
    by (subst triple_loop.simps) auto
qed

lemma qQuoted_loop_ok:
  "position < p \<Longrightarrow> p \<le> length s \<Longrightarrow> token_ok s position (qQuoted_loop s position c p)"
proof (induction s position c p rule: qQuoted_loop.induct)
  case (1 s position c p)
  then show ?case by (subst qQuoted_loop.simps) (auto simp: js_simps)
qed

lemma scanQQuoted_ok [token_bounds]: "scanQQuoted s p = Some t \<Longrightarrow> token_ok s p t"
  by (auto simp: scanQQuoted_def Let_def js_simps split: if_splits option.splits intro!: qQuoted_loop_ok)

lemma scanPrefixedOrTripleString_ok:
  assumes "wf_options opts"
  shows "\<exists>r. scanPrefixedOrTripleString s p opts = Some r \<and> (\<forall>t. r = Some t \<longrightarrow> token_ok s p t)"
proof -
  define p' where "p' = (if \<not> isIdentBoundary s (int p - 1)
    then p + matchStringPrefix s p (stringPrefixes opts) else p)"
  have p': "p \<le> p'" by (simp add: p'_def)
  let ?find = "find (\<lambda>q. q_kind q = QString \<and> length (q_open q) = 1 \<and> q_open q = q_close q
                        \<and> starts_at s (q_open q) p') (quotes opts)"
  show ?thesis
  proof (cases ?find)
    case None
    then show ?thesis by (simp add: scanPrefixedOrTripleString_def p'_def [symmetric] Let_def)
  next
    case (Some rule)
    then have rule: "rule \<in> set (quotes opts)" "length (q_open rule) = 1" "starts_at s (q_open rule) p'"
      by (auto simp: find_Some_iff)
    obtain t where t: "scanQuoted s p' rule = Some t" "token_ok s p' t"
      using scanQuoted_ok [OF wf_options_quote [OF assms rule(1)] rule(3)] by blast
    define triple where "triple = concat (replicate 3 (q_open rule))"
    have triple: "triple \<noteq> []" "length triple = 3"
      using rule(2) by (auto simp: triple_def numeral_3_eq_3)
    have "starts_at s triple p' \<Longrightarrow> token_ok s p (triple_loop s p rule triple (p' + length triple))"
      using starts_at_bound [OF _ triple(1)] p' triple by (intro triple_loop_ok) (auto simp: triple(2))
    with t p' show ?thesis
      by (simp only: scanPrefixedOrTripleString_def p'_def [symmetric] Let_def Some option.case
            triple_def [symmetric]) (auto simp: token_ok_def)
  qed
qed

lemma skip_blank_ge: "p \<le> skip_blank s p"
  by (simp add: skip_blank_def scan_while_ge)

lemma skip_blank_cr_ge: "p \<le> skip_blank_cr s p"
  by (simp add: skip_blank_cr_def scan_while_ge)

lemma at_line_end_bound: "at_line_end s p \<Longrightarrow> p \<le> length s"
  by (auto simp: at_line_end_def js_simps)

lemma readCustomDelimiter_ok [token_bounds]: "readCustomDelimiter s p = Some t \<Longrightarrow> token_ok s p t"
proof -
  assume t: "readCustomDelimiter s p = Some t"
  let ?w = "skip_blank s (p + 9)"
  let ?nsp = "\<lambda>c. case c of None \<Rightarrow> False | Some c \<Rightarrow> \<not> is_space c"
  let ?e = "scan_while ?nsp s (length s) ?w"
  from t have e: "?e \<noteq> ?w" "tlen t = ?e - p"
    by (auto simp: readCustomDelimiter_def Let_def split: if_splits)
  from e(1) have "?w < length s" by (subst (asm) scan_while.simps) (auto split: if_splits)
  then have "?e \<le> length s" by (simp add: scan_while_le)
  moreover have "p + 9 \<le> ?e" using scan_while_ge [of ?w ?nsp s "length s"] skip_blank_ge [of "p + 9" s]
    by linarith
  ultimately show ?thesis using e(2) by (simp add: token_ok_def)
qed

lemma readGoDelimiter_ok [token_bounds]: "readGoDelimiter s p = Some t \<Longrightarrow> token_ok s p t"
proof -
  assume t: "readGoDelimiter s p = Some t"
  define b where "b = skip_blank s (p + 2)"
  define d where "d = scan_while (\<lambda>c. case c of None \<Rightarrow> False | Some c \<Rightarrow> is_digit c) s (length s) b"
  define g where "g = (if p + 2 < b \<and> b < d then d else p + 2)"
  have g: "p + 2 \<le> g" "at_line_end s (skip_blank_cr s g)" "tlen t = skip_blank_cr s g - p"
    using t by (simp_all only: readGoDelimiter_def Let_def b_def [symmetric] d_def [symmetric] g_def [symmetric])
      (auto simp: g_def split: if_splits)
  then show ?thesis using at_line_end_bound [OF g(2)] skip_blank_cr_ge [of g s]
    by (simp add: token_ok_def)
qed

lemma readSlashDelimiter_ok [token_bounds]: "readSlashDelimiter s p = Some t \<Longrightarrow> token_ok s p t"
  using at_line_end_bound [of s "skip_blank_cr s (p + 1)"] skip_blank_cr_ge [of "p + 1" s]
  by (auto simp: readSlashDelimiter_def Let_def split: if_splits)

lemma scanLineDirective_ok [token_bounds]: "scanLineDirective s p opts = Some t \<Longrightarrow> token_ok s p t"
  by (auto simp: scanLineDirective_def split: if_splits option.splits
        intro: readCustomDelimiter_ok readGoDelimiter_ok readSlashDelimiter_ok)

text \<open>
  The scanner's contract: with well-formed options it returns at every position of the source,
  with a token that is nonempty and ends inside the source.
\<close>

lemma scanToken_ok:
  assumes wf: "wf_options opts" and p: "p < length s"
  shows "\<exists>t. scanToken s p opts st = Some (Some t) \<and> token_ok s p t"
proof -
  obtain r where r: "scanPrefixedOrTripleString s p opts = Some r" "\<And>t. r = Some t \<Longrightarrow> token_ok s p t"
    using scanPrefixedOrTripleString_ok [OF wf] by blast
  have q: "\<exists>t. scanQuoted s p rule = Some t \<and> token_ok s p t"
    if "find (\<lambda>rule. starts_at s (q_open rule) p) (quotes opts) = Some rule" for rule
    using that scanQuoted_ok wf_options_quote [OF wf] by (auto simp: find_Some_iff)
  have e: "char_at s (Suc p) = Some SQ \<Longrightarrow> token_ok s p (scanEString s p)"
    unfolding scanEString_def by (rule scanEString_loop_ok) (auto simp: js_simps)
  have d: "starts_at s (delimiter st) p \<Longrightarrow> delimiter st \<noteq> [] \<Longrightarrow>
      token_ok s p (mkToken Delimiter (length (delimiter st)))"
    using starts_at_bound by simp
  show ?thesis
    using p r d e q
    by (auto simp: scanToken_def Let_def token_bounds split: option.splits)
qed

end
