(* ===== verification/TokenLoop.thy ===== *)
theory TokenLoop
  imports Tokenizer
begin

text \<open>
  The driver loop every client of the scanner runs,
  \<open>while (position < sql.length) { token = scanToken(...); if (token === null) break; ... }\<close>:
  the splitter, the non-code scan and the comment stripper differ only in what one token does to
  their state and how far it advances. The loop runs on fuel (\<open>None\<close>: it does not return).
  The locale \<open>scanner\<close> is the scanner's contract; \<open>token_driver\<close> adds the client's step. Inside it,
  fuel for one turn per remaining character is enough, and an invariant of the step holds at the
  end of the source.
\<close>

fun token_loop ::
  "(nat \<Rightarrow> 'st \<Rightarrow> Token option option) \<Rightarrow> (Token \<Rightarrow> nat \<Rightarrow> 'st \<Rightarrow> nat \<times> 'st) \<Rightarrow> nat \<Rightarrow>
   nat \<Rightarrow> nat \<Rightarrow> 'st \<Rightarrow> 'st option" where
  "token_loop scan step lim 0 p st = None"
| "token_loop scan step lim (Suc fuel) p st =
     (if p < lim then
        (case scan p st of
           None \<Rightarrow> None
         | Some None \<Rightarrow> Some st
         | Some (Some t) \<Rightarrow>
             (case step t p st of (p', st') \<Rightarrow> token_loop scan step lim fuel p' st'))
      else Some st)"

locale scanner =
  fixes ok :: "'o \<Rightarrow> bool"
    and scan :: "'o \<Rightarrow> jsstring \<Rightarrow> nat \<Rightarrow> 'st \<Rightarrow> Token option option"
  assumes scan_total:
    "ok opts \<Longrightarrow> p < length s \<Longrightarrow> \<exists>t. scan opts s p st = Some (Some t) \<and> token_ok s p t"

locale token_driver = scanner ok scan
  for ok :: "'o \<Rightarrow> bool" and scan :: "'o \<Rightarrow> jsstring \<Rightarrow> nat \<Rightarrow> 'st \<Rightarrow> Token option option" +
  fixes step :: "'o \<Rightarrow> jsstring \<Rightarrow> Token \<Rightarrow> nat \<Rightarrow> 'st \<Rightarrow> nat \<times> 'st"
  assumes step_progress:
    "ok opts \<Longrightarrow> scan opts s p st = Some (Some t) \<Longrightarrow> token_ok s p t \<Longrightarrow> step opts s t p st = (p', st') \<Longrightarrow>
     p < p' \<and> p' \<le> length s"
begin

lemma loop_invariant:
  assumes ok: "ok opts"
    and keeps: "\<And>p st t p' st'. Inv p st \<Longrightarrow> p < length s \<Longrightarrow> scan opts s p st = Some (Some t) \<Longrightarrow>
                 token_ok s p t \<Longrightarrow> step opts s t p st = (p', st') \<Longrightarrow> Inv p' st'"
    and start: "Inv p st" "p \<le> length s" "length s - p < fuel"
  shows "\<exists>st'. token_loop (scan opts s) (step opts s) (length s) fuel p st = Some st' \<and> Inv (length s) st'"
  using start
proof (induction fuel arbitrary: p st)
  case 0
  then show ?case by simp
next
  case (Suc fuel)
  show ?case
  proof (cases "p < length s")
    case False
    with Suc.prems show ?thesis by (auto simp: le_less)
  next
    case True
    obtain t where t: "scan opts s p st = Some (Some t)" "token_ok s p t"
      using scan_total [OF ok True] by blast
    obtain p' st' where st': "step opts s t p st = (p', st')" by fastforce
    have p': "p < p'" "p' \<le> length s" using step_progress [OF ok t st'] by auto
    then have "length s - p' < fuel" using Suc.prems(3) True by linarith
    with p' keeps [OF Suc.prems(1) True t st'] obtain st'' where
        "token_loop (scan opts s) (step opts s) (length s) fuel p' st' = Some st'' \<and> Inv (length s) st''"
      using Suc.IH [of p' st'] by blast
    with t st' True show ?thesis by simp
  qed
qed

lemma loop_returns:
  assumes "ok opts" "p \<le> length s" "length s - p < fuel"
  shows "\<exists>st'. token_loop (scan opts s) (step opts s) (length s) fuel p st = Some st'"
  using loop_invariant [where Inv = "\<lambda>_ _. True"] assms by blast

end

text \<open>Two clients that advance alike run in lock step.\<close>

lemma token_loop_sim:
  assumes scan: "\<And>p st1 st2. R p st1 st2 \<Longrightarrow> p < lim \<Longrightarrow> scan1 p st1 = scan2 p st2"
    and step: "\<And>p st1 st2 t. R p st1 st2 \<Longrightarrow> p < lim \<Longrightarrow> scan1 p st1 = Some (Some t) \<Longrightarrow>
       fst (step1 t p st1) = fst (step2 t p st2)
       \<and> R (fst (step1 t p st1)) (snd (step1 t p st1)) (snd (step2 t p st2))"
    and start: "R p st1 st2" and fin: "token_loop scan1 step1 lim fuel p st1 = Some r1"
  shows "\<exists>r2 q. token_loop scan2 step2 lim fuel p st2 = Some r2 \<and> R q r1 r2
    \<and> (lim \<le> q \<or> scan1 q r1 = Some None)"
  using start fin
proof (induction fuel arbitrary: p st1 st2)
  case (Suc fuel)
  show ?case
  proof (cases "p < lim")
    case True
    with Suc.prems scan [OF Suc.prems(1) True] obtain r where r: "scan1 p st1 = Some r" "scan2 p st2 = Some r"
      by (auto split: option.splits)
    show ?thesis
    proof (cases r)
      case None
      with r True Suc.prems show ?thesis by auto
    next
      case (Some t)
      with r step [OF Suc.prems(1) True, of t] Suc.prems(2) True
        Suc.IH [of "fst (step1 t p st1)" "snd (step1 t p st1)" "snd (step2 t p st2)"]
      show ?thesis by (auto simp: case_prod_beta)
    qed
  qed (use Suc.prems in auto)
qed simp

text \<open>\<open>scanToken\<close> meets the contract for well-formed options, whatever part of the client's state
  holds its \<open>TokenizerState\<close>.\<close>

interpretation sql_scanner: scanner wf_options "\<lambda>opts s p st. scanToken s p opts st"
  by unfold_locales (rule scanToken_ok)

end
