(* ===== verification/ScriptBlocks.thy ===== *)
theory ScriptBlocks
  imports Tokenizer
begin

text \<open>
  The GoogleSQL procedural-block tracker (\<open>utils/sqlSplitter/scriptBlocks.ts\<close>): the state the
  source mutates is a record passed along, its \<open>stack\<close> with the top at the end as \<open>push\<close> and
  \<open>pop\<close> leave it. \<open>scanScriptWord\<close> returns the characters it consumed and the next state.
\<close>

datatype BlockKind = BK_BEGIN | BK_IF | BK_LOOP | BK_WHILE | BK_REPEAT | BK_FOR | BK_CASE_STMT | BK_CASE_EXPR

record ScriptBlockState =
  stack :: "BlockKind list"
  statementStart :: bool
  leadingWord :: jsstring
  awaitingProcedureBody :: bool
  parenDepth :: int

text \<open>\<open>NAME_PREFIX_RE = /[A-Za-z0-9_.@$`]/\<close>, tested on \<open>undefined\<close> like \<open>WORD_CHAR_RE\<close>.\<close>

definition test_name_prefix :: "char option \<Rightarrow> bool" where
  "test_name_prefix c = (case c of None \<Rightarrow> True
     | Some c \<Rightarrow> is_ident_char c \<or> c = CHR ''.'' \<or> c = CHR ''@'' \<or> c = CHR ''$'' \<or> c = BTICK)"

fun END_FOLLOWERS :: "BlockKind \<Rightarrow> jsstring option" where
  "END_FOLLOWERS BK_IF = Some ''IF''"
| "END_FOLLOWERS BK_LOOP = Some ''LOOP''"
| "END_FOLLOWERS BK_WHILE = Some ''WHILE''"
| "END_FOLLOWERS BK_REPEAT = Some ''REPEAT''"
| "END_FOLLOWERS BK_FOR = Some ''FOR''"
| "END_FOLLOWERS BK_CASE_STMT = Some ''CASE''"
| "END_FOLLOWERS BK_BEGIN = None"
| "END_FOLLOWERS BK_CASE_EXPR = None"

definition createScriptBlockState :: ScriptBlockState where
  "createScriptBlockState = \<lparr>stack = [], statementStart = True, leadingWord = [],
     awaitingProcedureBody = False, parenDepth = 0\<rparr>"

definition isInsideBlock :: "ScriptBlockState \<Rightarrow> bool" where
  "isInsideBlock state \<longleftrightarrow> length (stack state) > 0"

definition onStatementDelimiter :: "ScriptBlockState \<Rightarrow> ScriptBlockState" where
  "onStatementDelimiter state =
     state\<lparr>statementStart := True, leadingWord := [], awaitingProcedureBody := False, parenDepth := 0\<rparr>"

definition resetScriptBlockState :: "ScriptBlockState \<Rightarrow> ScriptBlockState" where
  "resetScriptBlockState state = onStatementDelimiter (state\<lparr>stack := []\<rparr>)"

definition onScriptPunctuation :: "ScriptBlockState \<Rightarrow> char \<Rightarrow> ScriptBlockState" where
  "onScriptPunctuation state ch =
     (let state' = (if ch = CHR ''('' then state\<lparr>parenDepth := parenDepth state + 1\<rparr>
                    else if ch = CHR '')'' then state\<lparr>parenDepth := max 0 (parenDepth state - 1)\<rparr>
                    else state)
      in state'\<lparr>statementStart := False\<rparr>)"

text \<open>\<open>WORD_RE = /[A-Za-z_][A-Za-z0-9_]*/y\<close> at \<open>p\<close>: the matched word.\<close>

definition word_at :: "jsstring \<Rightarrow> nat \<Rightarrow> jsstring option" where
  "word_at s p =
     (case char_at s p of
        None \<Rightarrow> None
      | Some c \<Rightarrow> if is_ident_start c then Some (c # takeWhile is_ident_char (drop (p + 1) s)) else None)"

lemma word_at_bound: "word_at s p = Some w \<Longrightarrow> 0 < length w \<and> p + length w \<le> length s"
  using length_takeWhile_le [of is_ident_char "drop (Suc p) s"]
  by (auto simp: word_at_def js_simps split: option.splits if_splits)

definition skip_space :: "jsstring \<Rightarrow> nat \<Rightarrow> nat" where
  "skip_space s p = scan_while (\<lambda>c. case c of None \<Rightarrow> False | Some c \<Rightarrow> is_space c) s (length s) p"

lemma skip_space_ge: "p \<le> skip_space s p"
  by (simp add: skip_space_def scan_while_ge)

lemma skip_space_le: "p \<le> length s \<Longrightarrow> skip_space s p \<le> length s"
  by (simp add: skip_space_def scan_while_le)

function scriptSkipTrivia :: "jsstring \<Rightarrow> nat \<Rightarrow> DialectOptions \<Rightarrow> nat" where
  "scriptSkipTrivia source p opts =
     (case scanComment source (skip_space source p) opts of
        None \<Rightarrow> skip_space source p
      | Some comment \<Rightarrow>
          if kind comment = Data then skip_space source p
          else scriptSkipTrivia source (skip_space source p + tlen comment) opts)"
  by pat_completeness auto
termination
proof (relation "measure (\<lambda>(source, p, opts). length source - p)", goal_cases)
  case (2 source p opts comment)
  from scanComment_ok [OF 2(1)] skip_space_ge [of p source] show ?case
    by (auto simp: token_ok_def)
qed simp

declare scriptSkipTrivia.simps [simp del]

lemma scriptSkipTrivia_ge: "p \<le> scriptSkipTrivia source p opts"
proof (induction source p opts rule: scriptSkipTrivia.induct)
  case (1 source p opts)
  then show ?case using skip_space_ge [of p source]
    by (subst scriptSkipTrivia.simps) (fastforce split: option.splits)
qed

lemma scriptSkipTrivia_le: "p \<le> length source \<Longrightarrow> scriptSkipTrivia source p opts \<le> length source"
proof (induction source p opts rule: scriptSkipTrivia.induct)
  case (1 source p opts)
  then show ?case using skip_space_le [of p source] scanComment_ok [of source "skip_space source p" opts]
    by (subst scriptSkipTrivia.simps) (auto simp: token_ok_def split: option.splits)
qed

definition peekWord :: "jsstring \<Rightarrow> nat \<Rightarrow> DialectOptions \<Rightarrow> (jsstring \<times> nat) option" where
  "peekWord source position opts =
     (let start = scriptSkipTrivia source position opts in
      case word_at source start of
        None \<Rightarrow> None
      | Some w \<Rightarrow> Some (upper w, start + length w))"

definition beginsTransaction :: "jsstring \<Rightarrow> nat \<Rightarrow> DialectOptions \<Rightarrow> bool" where
  "beginsTransaction source position opts =
     (let nxt = scriptSkipTrivia source position opts in
      if nxt \<ge> length source \<or> source ! nxt = CHR '';'' then True
      else (case peekWord source position opts of
              None \<Rightarrow> False | Some (word, e) \<Rightarrow> word = ''TRANSACTION''))"

definition top_of :: "'a list \<Rightarrow> 'a option" where
  "top_of xs = (if xs = [] then None else Some (last xs))"

text \<open>The \<open>END\<close> case of the \<open>switch\<close>: \<open>blk\<close> (the source's \<open>top\<close>) is the block it closes.\<close>

definition scanEndWord ::
  "jsstring \<Rightarrow> nat \<Rightarrow> nat \<Rightarrow> DialectOptions \<Rightarrow> ScriptBlockState \<Rightarrow> nat \<times> ScriptBlockState" where
  "scanEndWord source position len opts state =
     (case top_of (stack state) of
        None \<Rightarrow> (len, state\<lparr>statementStart := False\<rparr>)
      | Some blk \<Rightarrow>
          let state1 = state\<lparr>stack := butlast (stack state)\<rparr> in
          case END_FOLLOWERS blk of
            None \<Rightarrow> (len, state1\<lparr>statementStart := False\<rparr>)
          | Some follower \<Rightarrow>
              (case peekWord source (position + len) opts of
                 Some (word, e) \<Rightarrow>
                   if word = follower then (e - position, state1\<lparr>statementStart := False\<rparr>)
                   else (len, state1\<lparr>statementStart := False\<rparr>)
               | None \<Rightarrow> (len, state1\<lparr>statementStart := False\<rparr>)))"

definition push_block :: "BlockKind \<Rightarrow> ScriptBlockState \<Rightarrow> ScriptBlockState" where
  "push_block b state = state\<lparr>stack := stack state @ [b]\<rparr>"

definition scanScriptWord ::
  "jsstring \<Rightarrow> nat \<Rightarrow> DialectOptions \<Rightarrow> ScriptBlockState \<Rightarrow> nat \<times> ScriptBlockState" where
  "scanScriptWord source position opts state0 =
     (if position > 0 \<and> test_ident (char_at source (position - 1)) then (0, state0)
      else case word_at source position of None \<Rightarrow> (0, state0) | Some match \<Rightarrow>
      (let len = length match in
       if position > 0 \<and> test_name_prefix (char_at source (position - 1))
       then (len, state0\<lparr>statementStart := False\<rparr>)
       else
         (let word = upper match;
              atStart = statementStart state0;
              state = (if atStart \<and> leadingWord state0 = [] then state0\<lparr>leadingWord := word\<rparr> else state0);
              blk = top_of (stack state)
          in
          if word = ''BEGIN'' then
            (let opens = ((atStart \<or> (awaitingProcedureBody state \<and> parenDepth state = 0))
                          \<and> \<not> beginsTransaction source (position + len) opts);
                 state1 = (if opens then (push_block BK_BEGIN state)\<lparr>awaitingProcedureBody := False\<rparr> else state)
             in (len, state1\<lparr>statementStart := opens\<rparr>))
          else if word = ''END'' then scanEndWord source position len opts state
          else if word = ''IF'' then
            (len, (if atStart then push_block BK_IF state else state)\<lparr>statementStart := False\<rparr>)
          else if word = ''WHILE'' then
            (len, (if atStart then push_block BK_WHILE state else state)\<lparr>statementStart := False\<rparr>)
          else if word = ''FOR'' then
            (len, (if atStart then push_block BK_FOR state else state)\<lparr>statementStart := False\<rparr>)
          else if word = ''LOOP'' then
            (len, (if atStart then push_block BK_LOOP state else state)\<lparr>statementStart := atStart\<rparr>)
          else if word = ''REPEAT'' then
            (len, (if atStart then push_block BK_REPEAT state else state)\<lparr>statementStart := atStart\<rparr>)
          else if word = ''CASE'' then
            (len, (push_block (if atStart then BK_CASE_STMT else BK_CASE_EXPR) state)\<lparr>statementStart := False\<rparr>)
          else if word = ''THEN'' \<or> word = ''ELSE'' then
            (len, state\<lparr>statementStart := (blk \<noteq> None \<and> blk \<noteq> Some BK_CASE_EXPR)\<rparr>)
          else if word = ''DO'' then
            (len, state\<lparr>statementStart := (blk = Some BK_WHILE \<or> blk = Some BK_FOR)\<rparr>)
          else if word = ''PROCEDURE'' then
            (len, (if leadingWord state = ''CREATE'' then state\<lparr>awaitingProcedureBody := True\<rparr> else state)
                    \<lparr>statementStart := False\<rparr>)
          else
            (let colon = scriptSkipTrivia source (position + len) opts in
             if atStart \<and> char_at source colon = Some (CHR '':'')
             then (colon + 1 - position, state\<lparr>leadingWord := []\<rparr>)
             else (len, state\<lparr>statementStart := False\<rparr>)))))"

lemma peekWord_bound:
  assumes "peekWord source p opts = Some (w, e)"
  shows "p < e \<and> e \<le> length source"
proof -
  from assms obtain w' where "word_at source (scriptSkipTrivia source p opts) = Some w'"
      "e = scriptSkipTrivia source p opts + length w'"
    by (auto simp: peekWord_def Let_def split: option.splits)
  with word_at_bound [of source "scriptSkipTrivia source p opts" w'] scriptSkipTrivia_ge [of p source opts]
  show ?thesis by linarith
qed

lemma scanEndWord_bound:
  assumes "fst (scanEndWord source p len opts st) = n" "p + len \<le> length source" "0 < len"
  shows "0 < n \<and> p + n \<le> length source"
  using assms peekWord_bound [of source "p + len" opts]
  by (auto simp: scanEndWord_def Let_def split: option.splits if_splits)

text \<open>A consumed word is nonempty and ends inside the source.\<close>

lemma scanScriptWord_bound:
  assumes "fst (scanScriptWord source p opts st) = n" "n \<noteq> 0"
  shows "p + n \<le> length source"
proof (cases "word_at source p")
  case None
  with assms show ?thesis by (auto simp: scanScriptWord_def split: if_splits)
next
  case (Some w)
  note b = word_at_bound [OF Some]
  let ?colon = "scriptSkipTrivia source (p + length w) opts"
  have c: "p + length w \<le> ?colon" "?colon \<le> length source"
    using scriptSkipTrivia_ge scriptSkipTrivia_le b by auto
  have e: "p + fst (scanEndWord source p (length w) opts st') \<le> length source" for st'
    using scanEndWord_bound [OF refl] b by blast
  show ?thesis using assms Some b c e
    by (auto simp: scanScriptWord_def Let_def js_simps split: if_splits)
qed

end
