(* ===== verification/Classify.thy ===== *)
theory Classify
  imports Prelude
begin

text \<open>
  Single-statement classifiers (\<open>utils/sqlSplitter/classify.ts\<close>): the keyword sets, the
  removal of leading comments and the fixed-point loop that finds a statement's leading keyword.
  Both loops only ever drop a prefix of the text, which is their termination argument.
  \<open>hash\<close> is the truth value of the optional \<open>hashComments\<close> field.
\<close>

definition RESULT_SET_KEYWORDS :: "jsstring set" where
  "RESULT_SET_KEYWORDS = set [''SELECT'', ''WITH'', ''SHOW'', ''EXPLAIN'', ''DESCRIBE'', ''DESC'',
     ''VALUES'', ''TABLE'', ''PRAGMA'', ''CALL'']"

definition EXPLAINABLE_KEYWORDS :: "jsstring set" where
  "EXPLAINABLE_KEYWORDS = set [''SELECT'', ''INSERT'', ''UPDATE'', ''DELETE'', ''REPLACE'', ''WITH'',
     ''TABLE'', ''MERGE'']"

lemma index_of_bound: "index_of s t = Some i \<Longrightarrow> i + length t \<le> length s"
proof (induction s t arbitrary: i rule: index_of.induct)
  case (2 c s t)
  then show ?case by (auto split: if_splits dest: prefix_length_le)
qed (auto split: if_splits)

lemma length_trim_start_le: "length (trim_start s) \<le> length s"
  by (simp add: trim_start_def length_dropWhile_le)

lemma suffix_trim_start [simp]: "suffix (trim_start s) s"
  by (simp add: trim_start_def suffix_dropWhile)

text \<open>One turn of the loop after the leading whitespace is gone: what is left of \<open>s\<close> when it starts
  with a comment, \<open>None\<close> when the loop breaks.\<close>

definition drop_leading_comment :: "jsstring \<Rightarrow> bool \<Rightarrow> jsstring option" where
  "drop_leading_comment s hash =
     (if prefix ''--'' s \<or> (hash \<and> prefix ''#'' s) then
        Some (case index_of s [NL] of None \<Rightarrow> [] | Some nl \<Rightarrow> drop (nl + 1) s)
      else if prefix ''/*'' s then
        Some (case index_of s ''*/'' of None \<Rightarrow> [] | Some e \<Rightarrow> drop (e + 2) s)
      else None)"

lemma drop_leading_comment_shorter:
  assumes "drop_leading_comment s hash = Some r"
  shows "suffix r s" and "length r < length s"
proof -
  from assms show "suffix r s"
    by (auto simp: drop_leading_comment_def suffix_drop split: if_splits option.splits)
  have "s \<noteq> []" using assms by (auto simp: drop_leading_comment_def split: if_splits)
  with assms show "length r < length s"
    by (auto simp: drop_leading_comment_def split: if_splits option.splits)
qed

function stripLeadingComments :: "jsstring \<Rightarrow> bool \<Rightarrow> jsstring" where
  "stripLeadingComments query hash =
     (case drop_leading_comment (trim_start query) hash of
        None \<Rightarrow> trim_start query
      | Some rest \<Rightarrow> stripLeadingComments rest hash)"
  by pat_completeness auto
termination
proof (relation "measure (\<lambda>(s, hash). length s)", goal_cases)
  case (2 query hash rest)
  from drop_leading_comment_shorter(2) [OF 2] length_trim_start_le [of query]
  show ?case by simp
qed simp

declare stripLeadingComments.simps [simp del]

lemma suffix_stripLeadingComments: "suffix (stripLeadingComments s hash) s"
proof (induction s hash rule: stripLeadingComments.induct)
  case (1 s hash)
  show ?case
  proof (cases "drop_leading_comment (trim_start s) hash")
    case None
    then show ?thesis by (subst stripLeadingComments.simps) simp
  next
    case (Some rest)
    have "suffix rest s"
      using drop_leading_comment_shorter(1) [OF Some] suffix_trim_start suffix_order.trans by blast
    with 1 [OF Some] have "suffix (stripLeadingComments rest hash) s" using suffix_order.trans by blast
    with Some show ?thesis by (subst stripLeadingComments.simps) simp
  qed
qed

text \<open>\<open>LEADING_PARENS_RE = /^[(\s]+/\<close> removed.\<close>

definition strip_parens :: "jsstring \<Rightarrow> jsstring" where
  "strip_parens s = dropWhile (\<lambda>c. c = CHR ''('' \<or> is_space c) s"

definition keyword_step :: "jsstring \<Rightarrow> bool \<Rightarrow> jsstring" where
  "keyword_step body hash = strip_parens (stripLeadingComments body hash)"

lemma suffix_keyword_step: "suffix (keyword_step body hash) body"
  unfolding keyword_step_def strip_parens_def
  by (rule suffix_order.trans [OF suffix_dropWhile suffix_stripLeadingComments])

function keyword_body :: "jsstring \<Rightarrow> bool \<Rightarrow> jsstring" where
  "keyword_body body hash =
     (let nxt = keyword_step body hash in if nxt = body then body else keyword_body nxt hash)"
  by pat_completeness auto
termination
proof (relation "measure (\<lambda>(s, hash). length s)", goal_cases)
  case (2 body hash x)
  obtain zs where "body = zs @ x" using suffix_keyword_step [of body hash] 2(1) by (auto simp: suffix_def)
  with 2 show ?case by (cases zs) auto
qed simp

declare keyword_body.simps [simp del]

text \<open>\<open>LEADING_KEYWORD_RE = /^([A-Za-z_][A-Za-z0-9_]*)/\<close>.\<close>

definition leadingKeyword :: "jsstring \<Rightarrow> bool \<Rightarrow> jsstring" where
  "leadingKeyword query hash =
     (case keyword_body query hash of
        [] \<Rightarrow> []
      | c # cs \<Rightarrow> if is_ident_start c then upper (c # takeWhile is_ident_char cs) else [])"

definition isSelect :: "jsstring \<Rightarrow> bool" where
  "isSelect query \<longleftrightarrow> leadingKeyword query False = ''SELECT''"

definition returnsResultSet :: "jsstring \<Rightarrow> bool" where
  "returnsResultSet query \<longleftrightarrow> leadingKeyword query False \<in> RESULT_SET_KEYWORDS"

definition isExplainable :: "jsstring \<Rightarrow> bool" where
  "isExplainable query \<longleftrightarrow> leadingKeyword query False \<in> EXPLAINABLE_KEYWORDS"

end
