(* ===== verification/Splitter.thy ===== *)
theory Splitter
  imports TokenLoop ScriptBlocks Classify
begin

text \<open>
  The statement splitter (\<open>utils/sqlSplitter/splitter.ts\<close>): \<open>collectSegments\<close> partitions the source
  by delimiter tokens, \<open>foldBlocks\<close> merges PL/SQL units, \<open>foldComments\<close> attaches comment-only
  segments to a neighbour and \<open>buildStatement\<close> cuts out each statement. The locals of
  \<open>collectSegments\<close> are the record \<open>CollectState\<close>; its \<open>switch\<close> is \<open>collectStep\<close>.
\<close>

datatype SegmentTerminator = T_delimiter | T_goDelimiter | T_slashDelimiter | T_setDelimiter | T_eof

record RawSegment =
  seg_start :: nat
  seg_end :: nat
  hasMeaningful :: bool
  terminator :: SegmentTerminator

record Span =
  sp_start :: nat
  sp_end :: nat

record FoldedGroup =
  spans :: "Span list"
  meaningful :: Span

definition MAX_LEADING_TOKENS :: nat where
  "MAX_LEADING_TOKENS = 12"

section \<open>Segments\<close>

record CollectState =
  tstate :: TokenizerState
  blocks :: "ScriptBlockState option"
  segments :: "RawSegment list"
  segStart :: nat
  curMeaningful :: bool

definition pushSegment :: "nat \<Rightarrow> SegmentTerminator \<Rightarrow> CollectState \<Rightarrow> CollectState" where
  "pushSegment e term st =
     (if e \<le> segStart st then st
      else st\<lparr>segments := segments st @
             [\<lparr>seg_start = segStart st, seg_end = e, hasMeaningful = curMeaningful st, terminator = term\<rparr>]\<rparr>)"

fun terminator_of :: "TokenKind \<Rightarrow> SegmentTerminator" where
  "terminator_of GoDelimiter = T_goDelimiter"
| "terminator_of SlashDelimiter = T_slashDelimiter"
| "terminator_of SetDelimiter = T_setDelimiter"
| "terminator_of _ = T_delimiter"

definition set_lineLeading :: "bool \<Rightarrow> CollectState \<Rightarrow> CollectState" where
  "set_lineLeading b st = st\<lparr>tstate := (tstate st)\<lparr>lineLeading := b\<rparr>\<rparr>"

text \<open>A delimiter token that does end the segment: push, restart after it.\<close>

definition endSegment :: "SegmentTerminator \<Rightarrow> nat \<Rightarrow> nat \<Rightarrow> CollectState \<Rightarrow> CollectState" where
  "endSegment term position len st =
     (pushSegment position term st)\<lparr>segStart := position + len, curMeaningful := False\<rparr>"

definition collectStep ::
  "DialectOptions \<times> bool \<Rightarrow> jsstring \<Rightarrow> Token \<Rightarrow> nat \<Rightarrow> CollectState \<Rightarrow> nat \<times> CollectState" where
  "collectStep ob sql token position st =
     (let opts = fst ob; batchOnly = snd ob; next_pos = position + tlen token in
      if kind token = Delimiter \<or> kind token = GoDelimiter \<or> kind token = SlashDelimiter then
        (if kind token = Delimiter
            \<and> (batchOnly \<or> (case blocks st of None \<Rightarrow> False | Some b \<Rightarrow> isInsideBlock b))
         then (next_pos, set_lineLeading False (st\<lparr>blocks := map_option onStatementDelimiter (blocks st)\<rparr>))
         else (next_pos, set_lineLeading False
                 (endSegment (terminator_of (kind token)) position (tlen token)
                    (st\<lparr>blocks := map_option resetScriptBlockState (blocks st)\<rparr>))))
      else if kind token = SetDelimiter then
        (next_pos, set_lineLeading False
           (let st1 = endSegment T_setDelimiter position (tlen token) st in
            case tvalue token of None \<Rightarrow> st1
            | Some v \<Rightarrow> st1\<lparr>tstate := (tstate st1)\<lparr>delimiter := v\<rparr>\<rparr>))
      else if kind token = StringTok \<or> kind token = Data then
        (let st1 = set_lineLeading False (st\<lparr>curMeaningful := True\<rparr>) in
         case blocks st of
           None \<Rightarrow> (next_pos, st1)
         | Some b \<Rightarrow>
             (case (if kind token = Data then scanScriptWord sql position opts b else (0, b)) of
                (wordLength, b1) \<Rightarrow>
                  if wordLength > 0 then (position + wordLength, st1\<lparr>blocks := Some b1\<rparr>)
                  else (next_pos, st1\<lparr>blocks := Some (onScriptPunctuation b1 (sql ! position))\<rparr>)))
      else if kind token = LineComment \<or> kind token = BlockComment then (next_pos, set_lineLeading False st)
      else if kind token = Eoln then (next_pos, set_lineLeading True st)
      else (next_pos, st))"

definition collectScan ::
  "DialectOptions \<times> bool \<Rightarrow> jsstring \<Rightarrow> nat \<Rightarrow> CollectState \<Rightarrow> Token option option" where
  "collectScan ob sql position st = scanToken sql position (fst ob) (tstate st)"

definition collectInit :: "DialectOptions \<Rightarrow> CollectState" where
  "collectInit opts = \<lparr>tstate = \<lparr>delimiter = '';'', lineLeading = True\<rparr>,
     blocks = (if scriptBlocks opts then Some createScriptBlockState else None),
     segments = [], segStart = 0, curMeaningful = False\<rparr>"

definition collectSegments :: "jsstring \<Rightarrow> DialectOptions \<Rightarrow> bool \<Rightarrow> RawSegment list option" where
  "collectSegments sql opts batchOnly =
     map_option (\<lambda>st. segments (pushSegment (length sql) T_eof st))
       (token_loop (collectScan (opts, batchOnly) sql) (collectStep (opts, batchOnly) sql)
          (length sql) (Suc (length sql)) 0 (collectInit opts))"

section \<open>PL/SQL units\<close>

definition isAsciiSpace :: "char option \<Rightarrow> bool" where
  "isAsciiSpace c \<longleftrightarrow> c = Some SP \<or> c = Some TAB \<or> c = Some NL \<or> c = Some CR"

text \<open>The inner loop of a block comment: past the closing star-slash, or the last position tried.\<close>

function skipBlock :: "jsstring \<Rightarrow> nat \<Rightarrow> nat \<Rightarrow> nat" where
  "skipBlock source e p =
     (if p + 1 < e then
        (if char_at source p = Some (CHR ''*'') \<and> char_at source (p + 1) = Some (CHR ''/'') then p + 2
         else skipBlock source e (p + 1))
      else p)"
  by pat_completeness auto
termination
  by (relation "measure (\<lambda>(source, e, p). e - p)") auto

declare skipBlock.simps [simp del]

lemma skipBlock_ge: "p \<le> skipBlock source e p"
proof (induction source e p rule: skipBlock.induct)
  case (1 source e p)
  then show ?case by (subst skipBlock.simps) auto
qed

definition skipAscii :: "jsstring \<Rightarrow> nat \<Rightarrow> nat \<Rightarrow> nat" where
  "skipAscii source e p = scan_while isAsciiSpace source e p"

lemma skipAscii_ge: "p \<le> skipAscii source e p"
  by (simp add: skipAscii_def scan_while_ge)

function skipTrivia :: "jsstring \<Rightarrow> nat \<Rightarrow> nat \<Rightarrow> nat" where
  "skipTrivia source p0 e =
     (let p = skipAscii source e p0 in
      if starts_at source ''--'' p then
        skipTrivia source (scan_while (\<lambda>c. c \<noteq> Some NL) source e (p + 2)) e
      else if starts_at source ''/*'' p then skipTrivia source (skipBlock source e (p + 2)) e
      else p)"
  by pat_completeness auto
termination
proof (relation "measure (\<lambda>(source, p, e). length source - p)", goal_cases)
  case (2 source p0 e x)
  have "x + 2 \<le> length source" using starts_at_bound [OF 2(2)] by simp
  moreover have "p0 \<le> x" using 2(1) skipAscii_ge by simp
  moreover have "x + 2 \<le> scan_while (\<lambda>c. c \<noteq> Some NL) source e (x + 2)" by (rule scan_while_ge)
  ultimately show ?case by simp
next
  case (3 source p0 e x)
  have "x + 2 \<le> length source" using starts_at_bound [OF 3(3)] by simp
  moreover have "p0 \<le> x" using 3(1) skipAscii_ge by simp
  moreover have "x + 2 \<le> skipBlock source e (x + 2)" by (rule skipBlock_ge)
  ultimately show ?case by simp
qed simp

declare skipTrivia.simps [simp del]

lemma skipTrivia_ge: "p \<le> skipTrivia source p e"
proof (induction source p e rule: skipTrivia.induct)
  case (1 source p0 e)
  have a: "p0 \<le> skipAscii source e p0" by (rule skipAscii_ge)
  have b: "q + 2 \<le> scan_while (\<lambda>c. c \<noteq> Some NL) source e (q + 2)" for q by (rule scan_while_ge)
  have c: "q + 2 \<le> skipBlock source e (q + 2)" for q by (rule skipBlock_ge)
  show ?case using 1(1) [OF refl] 1(2) [OF refl] a b [of "skipAscii source e p0"] c [of "skipAscii source e p0"]
    by (subst skipTrivia.simps) (auto simp: Let_def)
qed

text \<open>\<open>WORD_RE = /[A-Za-z_][A-Za-z0-9_$#]*/y\<close>.\<close>

definition plsql_word_at :: "jsstring \<Rightarrow> nat \<Rightarrow> jsstring option" where
  "plsql_word_at s p =
     (case char_at s p of
        None \<Rightarrow> None
      | Some c \<Rightarrow> if is_ident_start c
          then Some (c # takeWhile (\<lambda>c. is_ident_char c \<or> c = CHR ''$'' \<or> c = CHR ''#'') (drop (p + 1) s))
          else None)"

text \<open>One token of \<open>leadingSignificantTokens\<close> at a non-trivia position: what is pushed, if
  anything, and how far the position moves.\<close>

definition significantToken :: "jsstring \<Rightarrow> nat \<Rightarrow> jsstring option \<times> nat" where
  "significantToken source p =
     (if starts_at source ''<<'' p then (Some ''<<'', 2)
      else if starts_at source ''>>'' p then (Some ''>>'', 2)
      else if char_at source p = Some (CHR ''('') then (Some ''('', 1)
      else case plsql_word_at source p of
             Some w \<Rightarrow> (Some (upper w), length w)
           | None \<Rightarrow> (None, 1))"

lemma significantToken_pos: "significantToken source p = (r, n) \<Longrightarrow> 0 < n"
  by (auto simp: significantToken_def plsql_word_at_def split: if_splits option.splits)

function leadingTokens_loop :: "jsstring \<Rightarrow> nat \<Rightarrow> nat \<Rightarrow> jsstring list \<Rightarrow> jsstring list" where
  "leadingTokens_loop source e position tokens =
     (if position < e \<and> length tokens < MAX_LEADING_TOKENS then
        (let nxt = skipTrivia source position e in
         if nxt \<ge> e then tokens
         else (case significantToken source nxt of
                 (r, n) \<Rightarrow> leadingTokens_loop source e (nxt + n)
                             (case r of None \<Rightarrow> tokens | Some w \<Rightarrow> tokens @ [w])))
      else tokens)"
  by pat_completeness auto
termination
proof (relation "measure (\<lambda>(source, e, position, tokens). e - position)", goal_cases)
  case (2 source e position tokens)
  then show ?case using skipTrivia_ge [of position source e]
    by (auto dest!: significantToken_pos [OF sym])
qed simp

declare leadingTokens_loop.simps [simp del]

definition leadingSignificantTokens :: "jsstring \<Rightarrow> nat \<Rightarrow> nat \<Rightarrow> jsstring list" where
  "leadingSignificantTokens source start e = leadingTokens_loop source e start []"

text \<open>\<open>tokens[i]\<close>, \<open>None\<close> past the end.\<close>

definition tok :: "jsstring list \<Rightarrow> nat \<Rightarrow> jsstring option" where
  "tok tokens i = (if i < length tokens then Some (tokens ! i) else None)"

text \<open>\<open>tokens.indexOf('>>', i)\<close>.\<close>

definition find_from :: "jsstring list \<Rightarrow> jsstring \<Rightarrow> nat \<Rightarrow> nat option" where
  "find_from tokens t i = find (\<lambda>j. tokens ! j = t) [i..<length tokens]"

function skipLabels :: "jsstring list \<Rightarrow> nat \<Rightarrow> nat" where
  "skipLabels tokens index =
     (if tok tokens index = Some ''<<'' then
        (case find_from tokens ''>>'' (index + 1) of
           None \<Rightarrow> index
         | Some labelEnd \<Rightarrow> skipLabels tokens (labelEnd + 1))
      else index)"
  by pat_completeness auto
termination
proof (relation "measure (\<lambda>(tokens, index). length tokens - index)", goal_cases)
  case (2 tokens index labelEnd)
  then show ?case by (auto simp: find_from_def find_Some_iff tok_def split: if_splits)
qed simp

declare skipLabels.simps [simp del]

definition isJavaCompileOption :: "jsstring option \<Rightarrow> bool" where
  "isJavaCompileOption token \<longleftrightarrow> token = Some ''COMPILE'' \<or> token = Some ''RESOLVE''"

definition isWithBlockOpener :: "jsstring list \<Rightarrow> nat \<Rightarrow> bool" where
  "isWithBlockOpener tokens index =
     (if tok tokens index \<noteq> Some ''FUNCTION'' \<and> tok tokens index \<noteq> Some ''PROCEDURE'' then False
      else tok tokens (index + 1) \<noteq> Some ''AS'' \<and> tok tokens (index + 1) \<noteq> Some ''('')"

definition isCreateBlockOpener :: "jsstring list \<Rightarrow> nat \<Rightarrow> bool" where
  "isCreateBlockOpener tokens startIndex =
     (let i0 = startIndex;
          i1 = (if tok tokens i0 = Some ''OR'' \<and> tok tokens (i0 + 1) = Some ''REPLACE'' then i0 + 2 else i0);
          i2 = (if tok tokens i1 = Some ''EDITIONABLE'' \<or> tok tokens i1 = Some ''NONEDITIONABLE'' then i1 + 1 else i1);
          i3 = (if tok tokens i2 = Some ''AND'' \<and> isJavaCompileOption (tok tokens (i2 + 1)) then i2 + 2 else i2);
          i4 = (if tok tokens i3 = Some ''NOFORCE'' then i3 + 1 else i3);
          k = tok tokens i4;
          nxt = tok tokens (i4 + 1)
      in if k = Some ''FUNCTION'' \<or> k = Some ''PROCEDURE'' \<or> k = Some ''TRIGGER'' then True
         else if k = Some ''LIBRARY'' then False
         else if k = Some ''PACKAGE'' \<or> k = Some ''CLASS'' then nxt \<noteq> None
         else if k = Some ''TYPE'' then nxt = Some ''BODY''
         else if k = Some ''JAVA'' then nxt = Some ''SOURCE'' \<or> nxt = Some ''CLASS'' \<or> nxt = Some ''RESOURCE''
         else False)"

definition isPlsqlBlockOpener :: "jsstring \<Rightarrow> RawSegment \<Rightarrow> bool" where
  "isPlsqlBlockOpener sql segment =
     (let tokens = leadingSignificantTokens sql (seg_start segment) (seg_end segment);
          index = skipLabels tokens 0;
          first = tok tokens index
      in if first = Some ''DECLARE'' \<or> first = Some ''BEGIN'' then True
         else if first = Some ''WITH'' then isWithBlockOpener tokens (index + 1)
         else if first \<noteq> Some ''CREATE'' then False
         else isCreateBlockOpener tokens (index + 1))"

text \<open>\<open>foldBlocks\<close> on the segments from \<open>index\<close> on: an opener swallows everything up to and with the
  next slash-terminated segment, or up to the end of the source.\<close>

function foldBlocks :: "jsstring \<Rightarrow> RawSegment list \<Rightarrow> RawSegment list" where
  "foldBlocks sql [] = []"
| "foldBlocks sql (segment # rest) =
     (if \<not> hasMeaningful segment \<or> \<not> isPlsqlBlockOpener sql segment then segment # foldBlocks sql rest
      else (case dropWhile (\<lambda>s. terminator s \<noteq> T_slashDelimiter) (segment # rest) of
              [] \<Rightarrow> [\<lparr>seg_start = seg_start segment, seg_end = length sql, hasMeaningful = True,
                      terminator = terminator (last (segment # rest))\<rparr>]
            | endSeg # after \<Rightarrow>
                \<lparr>seg_start = seg_start segment, seg_end = seg_end endSeg, hasMeaningful = True,
                 terminator = terminator endSeg\<rparr> # foldBlocks sql after))"
  by pat_completeness auto
termination
proof (relation "measure (\<lambda>(sql, segs). length segs)", goal_cases)
  case (3 sql segment rest endSeg after)
  then show ?case
    using length_dropWhile_le [of "\<lambda>s. terminator s \<noteq> T_slashDelimiter" "segment # rest"]
    by (simp del: dropWhile.simps)
qed simp_all

section \<open>Folding comment-only segments\<close>

definition span_of :: "RawSegment \<Rightarrow> Span" where
  "span_of seg = \<lparr>sp_start = seg_start seg, sp_end = seg_end seg\<rparr>"

text \<open>One turn of the \<open>for\<close> loop over \<open>(output, pending)\<close>.\<close>

definition foldComments_step ::
  "FoldedGroup list \<times> Span list \<Rightarrow> RawSegment \<Rightarrow> FoldedGroup list \<times> Span list" where
  "foldComments_step acc seg =
     (case acc of (output, pending) \<Rightarrow>
        if hasMeaningful seg
        then (output @ [\<lparr>spans = pending @ [span_of seg], meaningful = span_of seg\<rparr>], [])
        else (output, pending @ [span_of seg]))"

definition foldComments :: "RawSegment list \<Rightarrow> FoldedGroup list" where
  "foldComments segs =
     (case foldl foldComments_step ([], []) segs of
        (output, pending) \<Rightarrow>
          if pending \<noteq> [] \<and> output \<noteq> [] then
            (let lastGroup = last output
             in butlast output @ [\<lparr>spans = spans lastGroup @ pending, meaningful = meaningful lastGroup\<rparr>])
          else output)"

section \<open>Statements\<close>

text \<open>The two \<open>while\<close> loops of \<open>trimRange\<close>.\<close>

fun trim_back :: "jsstring \<Rightarrow> nat \<Rightarrow> nat \<Rightarrow> nat" where
  "trim_back sql start 0 = 0"
| "trim_back sql start (Suc n) =
     (if Suc n > start \<and> isAsciiSpace (char_at sql n) then trim_back sql start n else Suc n)"

definition trimRange :: "jsstring \<Rightarrow> nat \<Rightarrow> nat \<Rightarrow> nat \<times> nat" where
  "trimRange sql start e =
     (let start' = scan_while isAsciiSpace sql e start in (start', trim_back sql start' e))"

definition buildStatement :: "jsstring \<Rightarrow> FoldedGroup \<Rightarrow> DialectOptions \<Rightarrow> Statement" where
  "buildStatement sql grp opts =
     (let txt = trim (concat (map (\<lambda>s. slice sql (sp_start s) (sp_end s)) (spans grp)));
          keyword = leadingKeyword txt (hashComments opts);
          (start, e) = trimRange sql (sp_start (meaningful grp)) (sp_end (meaningful grp))
      in \<lparr>stmt_text = txt,
          stmt_range = \<lparr>range_start = start, range_end = e\<rparr>,
          stmt_isSelect = (keyword = ''SELECT''),
          stmt_returnsResultSet = (keyword \<in> RESULT_SET_KEYWORDS),
          stmt_isExplainable = (keyword \<in> EXPLAINABLE_KEYWORDS)\<rparr>)"

definition splitInto :: "jsstring \<Rightarrow> DialectOptions \<Rightarrow> bool \<Rightarrow> Statement list option" where
  "splitInto sql opts batchOnly =
     (if length sql = 0 then Some []
      else map_option
             (\<lambda>segs. let foldedBlocks = (if plsqlBlocks opts then foldBlocks sql segs else segs)
                     in map (\<lambda>grp. buildStatement sql grp opts) (foldComments foldedBlocks))
             (collectSegments sql opts batchOnly))"

section \<open>Entry points of \<open>sqlSplitter/index.ts\<close>\<close>

definition splitStatements :: "jsstring \<Rightarrow> DialectInput \<Rightarrow> Statement list option" where
  "splitStatements sql input = splitInto sql (optionsFor input) False"

definition splitQueries :: "jsstring \<Rightarrow> DialectInput \<Rightarrow> jsstring list option" where
  "splitQueries sql input = map_option (map stmt_text) (splitStatements sql input)"

definition splitBatches :: "jsstring \<Rightarrow> DialectInput \<Rightarrow> Statement list option" where
  "splitBatches sql input =
     (let opts = optionsFor input in splitInto sql opts (goDelimiter opts))"

text \<open>\<open>sqlSplitter/statementAt.ts\<close>: the last statement starting at or before the offset, the first
  one when there is none.\<close>

fun statementAt_loop :: "Statement \<Rightarrow> Statement list \<Rightarrow> nat \<Rightarrow> Statement" where
  "statementAt_loop result [] offset = result"
| "statementAt_loop result (s # rest) offset =
     (if offset < range_start (stmt_range s) then result else statementAt_loop s rest offset)"

definition findStatementAtOffset :: "Statement list \<Rightarrow> nat \<Rightarrow> Statement option" where
  "findStatementAtOffset statements offset =
     (case statements of [] \<Rightarrow> None | s # _ \<Rightarrow> Some (statementAt_loop s statements offset))"

end
