(* ===== verification/SplitterFacts.thy ===== *)
theory SplitterFacts
  imports Splitter
begin

text \<open>
  Correctness of the splitter. \<open>tiles\<close> is the specification of \<open>collectSegments\<close>: the segments and
  the delimiter tokens between them cover the source without overlap. The driver invariant that
  gives it is proved once per token through the locale \<open>token_driver\<close>. The folding passes are then
  shown to keep the order of the segments and to lose none, and the statement ranges and the
  cursor lookup rest on that.
\<close>

section \<open>What the tokens say about a position\<close>

lemma scanToken_code:
  assumes "scanToken s p opts st = Some (Some t)" "p < length s" "kind t = StringTok \<or> kind t = Data"
  shows "\<not> isAsciiSpace (char_at s p)"
  using assms by (auto simp: scanToken_def Let_def isAsciiSpace_def char_at_def split: if_splits)

definition is_delimiter_kind :: "TokenKind \<Rightarrow> bool" where
  "is_delimiter_kind k \<longleftrightarrow> k = Delimiter \<or> k = GoDelimiter \<or> k = SlashDelimiter \<or> k = SetDelimiter"

text \<open>\<open>delims sql opts a b\<close>: the text from \<open>a\<close> to \<open>b\<close> is a run of delimiter tokens.\<close>

inductive delims :: "jsstring \<Rightarrow> DialectOptions \<Rightarrow> nat \<Rightarrow> nat \<Rightarrow> bool" for sql opts where
  none: "delims sql opts a a"
| more: "delims sql opts a b \<Longrightarrow> scanToken sql b opts st = Some (Some t) \<Longrightarrow>
    is_delimiter_kind (kind t) \<Longrightarrow> delims sql opts a (b + tlen t)"

lemma delims_le: "delims sql opts a b \<Longrightarrow> a \<le> b"
  by (induction rule: delims.induct) auto

lemma delims_one:
  "scanToken sql a opts st = Some (Some t) \<Longrightarrow> is_delimiter_kind (kind t) \<Longrightarrow>
   delims sql opts a (a + tlen t)"
  using delims.more [OF delims.none] .

fun tiles :: "jsstring \<Rightarrow> DialectOptions \<Rightarrow> nat \<Rightarrow> RawSegment list \<Rightarrow> nat \<Rightarrow> bool" where
  "tiles sql opts lo [] hi = delims sql opts lo hi"
| "tiles sql opts lo (x # xs) hi =
     (delims sql opts lo (seg_start x) \<and> seg_start x < seg_end x \<and> tiles sql opts (seg_end x) xs hi)"

lemma tiles_snoc:
  "tiles sql opts lo (xs @ [x]) hi \<longleftrightarrow>
   tiles sql opts lo xs (seg_start x) \<and> seg_start x < seg_end x \<and> delims sql opts (seg_end x) hi"
  by (induction xs arbitrary: lo) auto

lemma tiles_extend:
  "tiles sql opts lo xs b \<Longrightarrow> scanToken sql b opts st = Some (Some t) \<Longrightarrow>
   is_delimiter_kind (kind t) \<Longrightarrow> tiles sql opts lo xs (b + tlen t)"
  by (induction xs arbitrary: lo) (auto intro: delims.more)

section \<open>The driver invariant of \<open>collectSegments\<close>\<close>

definition has_code :: "jsstring \<Rightarrow> nat \<Rightarrow> nat \<Rightarrow> bool" where
  "has_code sql a b \<longleftrightarrow> (\<exists>i. a \<le> i \<and> i < b \<and> i < length sql \<and> \<not> isAsciiSpace (char_at sql i))"

lemma has_code_mono: "has_code sql a b \<Longrightarrow> b \<le> c \<Longrightarrow> has_code sql a c"
  by (auto simp: has_code_def intro: less_le_trans)

definition seg_code :: "jsstring \<Rightarrow> RawSegment \<Rightarrow> bool" where
  "seg_code sql x \<longleftrightarrow> (hasMeaningful x \<longrightarrow> has_code sql (seg_start x) (seg_end x))"

lemma seg_code_simple:
  "seg_code sql \<lparr>seg_start = a, seg_end = b, hasMeaningful = True, terminator = k\<rparr> \<longleftrightarrow> has_code sql a b"
  by (simp add: seg_code_def)

definition collect_inv :: "jsstring \<Rightarrow> DialectOptions \<times> bool \<Rightarrow> nat \<Rightarrow> CollectState \<Rightarrow> bool" where
  "collect_inv sql ob p st \<longleftrightarrow>
     tiles sql (fst ob) 0 (segments st) (segStart st) \<and> segStart st \<le> p \<and>
     list_all (seg_code sql) (segments st) \<and>
     (curMeaningful st \<longrightarrow> has_code sql (segStart st) p) \<and>
     (snd ob \<longrightarrow> list_all (\<lambda>x. terminator x \<noteq> T_delimiter) (segments st))"

lemma set_lineLeading_sel [simp]:
  "segments (set_lineLeading b st) = segments st" "segStart (set_lineLeading b st) = segStart st"
  "curMeaningful (set_lineLeading b st) = curMeaningful st" "blocks (set_lineLeading b st) = blocks st"
  by (simp_all add: set_lineLeading_def)

lemma collect_inv_frame:
  "segments st' = segments st \<Longrightarrow> segStart st' = segStart st \<Longrightarrow> curMeaningful st' = curMeaningful st \<Longrightarrow>
   collect_inv sql ob p st \<Longrightarrow> p \<le> p' \<Longrightarrow> collect_inv sql ob p' st'"
  by (auto simp: collect_inv_def dest: has_code_mono)

lemma collect_inv_tstate [simp]:
  "collect_inv sql ob p (set_lineLeading b st) = collect_inv sql ob p st"
  "collect_inv sql ob p (st\<lparr>tstate := ts\<rparr>) = collect_inv sql ob p st"
  by (simp_all add: collect_inv_def)

lemma collect_inv_code:
  "collect_inv sql ob p st \<Longrightarrow> p < length sql \<Longrightarrow> \<not> isAsciiSpace (char_at sql p) \<Longrightarrow> p < p' \<Longrightarrow>
   segments st' = segments st \<Longrightarrow> segStart st' = segStart st \<Longrightarrow> collect_inv sql ob p' st'"
  by (auto simp: collect_inv_def has_code_def)

lemma collect_inv_endSegment:
  assumes inv: "collect_inv sql ob p st" and t: "scanToken sql p (fst ob) ts = Some (Some t)"
    and k: "is_delimiter_kind (kind t)" and tm: "snd ob \<Longrightarrow> term \<noteq> T_delimiter"
  shows "collect_inv sql ob (p + tlen t) (endSegment term p (tlen t) st)"
proof (cases "p \<le> segStart st")
  case True
  then have "segStart st = p" using inv by (simp add: collect_inv_def)
  with inv t k show ?thesis
    by (auto simp: collect_inv_def endSegment_def pushSegment_def intro: tiles_extend)
next
  case False
  with inv tm delims_one [OF t k] show ?thesis
    by (auto simp: collect_inv_def endSegment_def pushSegment_def tiles_snoc seg_code_def)
qed

lemma collectStep_progress:
  assumes "token_ok sql p t" "collectStep ob sql t p st = (p', st')"
  shows "p < p' \<and> p' \<le> length sql"
  using assms scanScriptWord_bound [OF refl, of sql p "fst ob"]
  by (auto simp: collectStep_def token_ok_def Let_def split: if_splits option.splits prod.splits)
     (metis fst_conv)+

interpretation collect: token_driver "\<lambda>ob. wf_options (fst ob)" collectScan collectStep
proof unfold_locales
  fix ob :: "DialectOptions \<times> bool" and p and s :: jsstring and st :: CollectState
  assume "wf_options (fst ob)" "p < length s"
  then show "\<exists>t. collectScan ob s p st = Some (Some t) \<and> token_ok s p t"
    unfolding collectScan_def by (rule sql_scanner.scan_total)
qed (erule collectStep_progress)

lemma collectStep_inv:
  assumes inv: "collect_inv sql ob p st" and p: "p < length sql"
    and t: "collectScan ob sql p st = Some (Some t)" and ok: "token_ok sql p t"
    and s: "collectStep ob sql t p st = (p', st')"
  shows "collect_inv sql ob p' st'"
proof -
  note t' = t [unfolded collectScan_def]
  have p': "p < p'" using collectStep_progress [OF ok s] by simp
  have inv': "collect_inv sql ob p (st\<lparr>blocks := b\<rparr>)" for b
    using inv by (rule collect_inv_frame [rotated 3]) simp_all
  have e: "collect_inv sql ob (p + tlen t) (endSegment term p (tlen t) st0)"
    if "is_delimiter_kind (kind t)" "snd ob \<Longrightarrow> term \<noteq> T_delimiter" "collect_inv sql ob p st0" for "term" st0
    using collect_inv_endSegment [OF that(3) t' that(1,2)] .
  show ?thesis
  proof (cases "kind t")
    case Whitespace
    with s inv p' show ?thesis by (auto simp: collectStep_def intro: collect_inv_frame)
  next
    case Eoln
    with s inv p' show ?thesis by (auto simp: collectStep_def intro: collect_inv_frame)
  next
    case LineComment
    with s inv p' show ?thesis by (auto simp: collectStep_def intro: collect_inv_frame)
  next
    case BlockComment
    with s inv p' show ?thesis by (auto simp: collectStep_def intro: collect_inv_frame)
  next
    case StringTok
    then have "\<not> isAsciiSpace (char_at sql p)" using scanToken_code [OF t' p] by simp
    from collect_inv_code [OF inv p this p'] StringTok s show ?thesis
      by (auto simp: collectStep_def Let_def split: option.splits)
  next
    case Data
    then have "\<not> isAsciiSpace (char_at sql p)" using scanToken_code [OF t' p] by simp
    from collect_inv_code [OF inv p this p'] Data s show ?thesis
      by (auto simp: collectStep_def Let_def split: option.splits prod.splits if_splits)
  next
    case Delimiter
    with s e [OF _ _ inv'] inv p' show ?thesis
      by (auto simp: collectStep_def Let_def is_delimiter_kind_def split: if_splits
            intro: collect_inv_frame)
  next
    case GoDelimiter
    with s e [OF _ _ inv'] show ?thesis
      by (auto simp: collectStep_def is_delimiter_kind_def intro: collect_inv_frame)
  next
    case SlashDelimiter
    with s e [OF _ _ inv'] show ?thesis
      by (auto simp: collectStep_def is_delimiter_kind_def intro: collect_inv_frame)
  next
    case SetDelimiter
    with s e [OF _ _ inv] show ?thesis
      by (auto simp: collectStep_def Let_def is_delimiter_kind_def split: option.splits
            intro: collect_inv_frame)
  qed
qed

lemma collect_inv_init: "collect_inv sql (opts, b) 0 (collectInit opts)"
  by (simp add: collect_inv_def collectInit_def delims.none)

text \<open>The segments tile the source; a meaningful one holds a non-blank character; in batch mode none
  ends at a \<open>;\<close>.\<close>

lemma collectSegments_spec:
  assumes "wf_options opts"
  shows "\<exists>segs. collectSegments sql opts batchOnly = Some segs \<and>
           tiles sql opts 0 segs (length sql) \<and> list_all (seg_code sql) segs \<and>
           (batchOnly \<longrightarrow> list_all (\<lambda>x. terminator x \<noteq> T_delimiter) segs)"
proof -
  obtain st where st: "token_loop (collectScan (opts, batchOnly) sql) (collectStep (opts, batchOnly) sql)
      (length sql) (Suc (length sql)) 0 (collectInit opts) = Some st"
    and inv: "collect_inv sql (opts, batchOnly) (length sql) st"
    using collect.loop_invariant [of "(opts, batchOnly)" "collect_inv sql (opts, batchOnly)" sql 0
        "collectInit opts" "Suc (length sql)"] collectStep_inv collect_inv_init assms by fastforce
  let ?segs = "segments (pushSegment (length sql) T_eof st)"
  have "tiles sql opts 0 ?segs (length sql)"
    using inv delims.none by (auto simp: collect_inv_def pushSegment_def tiles_snoc le_antisym)
  moreover have "list_all (seg_code sql) ?segs"
    using inv by (auto simp: collect_inv_def pushSegment_def seg_code_def)
  moreover have "batchOnly \<longrightarrow> list_all (\<lambda>x. terminator x \<noteq> T_delimiter) ?segs"
    using inv by (auto simp: collect_inv_def pushSegment_def)
  ultimately show ?thesis using st by (auto simp: collectSegments_def)
qed

section \<open>Order of the segments, kept by \<open>foldBlocks\<close>\<close>

definition seg_sorted :: "jsstring \<Rightarrow> RawSegment list \<Rightarrow> bool" where
  "seg_sorted sql segs \<longleftrightarrow>
     sorted_wrt (\<lambda>a b. seg_end a \<le> seg_start b) segs \<and>
     (\<forall>x\<in>set segs. seg_start x < seg_end x \<and> seg_end x \<le> length sql)"

lemma tiles_sorted:
  "tiles sql opts lo segs hi \<Longrightarrow> hi \<le> length sql \<Longrightarrow>
   seg_sorted sql segs \<and> (\<forall>x\<in>set segs. lo \<le> seg_start x) \<and> lo \<le> hi"
proof (induction segs arbitrary: lo)
  case Nil
  then show ?case by (simp add: seg_sorted_def delims_le)
next
  case (Cons x segs)
  then have "delims sql opts lo (seg_start x)" "seg_start x < seg_end x" by auto
  moreover note delims_le [OF this(1)] Cons.IH [of "seg_end x"] Cons.prems
  ultimately show ?case by (fastforce simp: seg_sorted_def)
qed

lemma foldBlocks_starts: "seg_start ` set (foldBlocks sql segs) \<subseteq> seg_start ` set segs"
proof (induction sql segs rule: foldBlocks.induct)
  case (2 sql segment rest)
  show ?case
  proof (cases "hasMeaningful segment \<and> isPlsqlBlockOpener sql segment")
    case False
    with 2(1) show ?thesis by auto
  next
    case True
    let ?dw = "dropWhile (\<lambda>s. terminator s \<noteq> T_slashDelimiter) (segment # rest)"
    show ?thesis
    proof (cases ?dw)
      case Nil
      with True show ?thesis by simp
    next
      case (Cons endSeg after)
      then have "set after \<subseteq> set (segment # rest)"
        by (metis set_dropWhileD set_subset_Cons subset_code(1))
      with 2(2) [OF _ Cons] True Cons show ?thesis by (auto simp del: dropWhile.simps)
    qed
  qed
qed simp

lemma seg_sorted_append:
  "seg_sorted sql (xs @ ys) \<longleftrightarrow>
   seg_sorted sql xs \<and> seg_sorted sql ys \<and> (\<forall>x\<in>set xs. \<forall>y\<in>set ys. seg_end x \<le> seg_start y)"
  by (auto simp: seg_sorted_def sorted_wrt_append)

lemma seg_sorted_Cons:
  "seg_sorted sql (x # xs) \<longleftrightarrow> seg_start x < seg_end x \<and> seg_end x \<le> length sql \<and>
     (\<forall>y\<in>set xs. seg_end x \<le> seg_start y) \<and> seg_sorted sql xs"
  by (auto simp: seg_sorted_def)

lemma seg_sorted_split:
  assumes "seg_sorted sql (segment # rest)" "dropWhile P (segment # rest) = endSeg # after"
  shows "seg_sorted sql after" "seg_end segment \<le> seg_end endSeg" "seg_end endSeg \<le> length sql"
    "\<forall>y\<in>set after. seg_end endSeg \<le> seg_start y"
proof -
  obtain tw where tw: "segment # rest = tw @ endSeg # after"
    using takeWhile_dropWhile_id [of P "segment # rest"] assms(2) by metis
  with assms(1) have s: "seg_sorted sql (tw @ endSeg # after)" by simp
  then show "seg_sorted sql after" "seg_end endSeg \<le> length sql"
      "\<forall>y\<in>set after. seg_end endSeg \<le> seg_start y"
    by (simp_all add: seg_sorted_append seg_sorted_Cons)
  show "seg_end segment \<le> seg_end endSeg"
    using s tw by (cases tw) (auto simp: seg_sorted_append seg_sorted_Cons intro: less_imp_le le_less_trans)
qed

lemma foldBlocks_keeps:
  "seg_sorted sql segs \<Longrightarrow> list_all (seg_code sql) segs \<Longrightarrow>
   seg_sorted sql (foldBlocks sql segs) \<and> list_all (seg_code sql) (foldBlocks sql segs)"
proof (induction sql segs rule: foldBlocks.induct)
  case (2 sql segment rest)
  note prems = "2.prems"
  show ?case
  proof (cases "hasMeaningful segment \<and> isPlsqlBlockOpener sql segment")
    case False
    have "\<forall>y\<in>set (foldBlocks sql rest). seg_end segment \<le> seg_start y"
      using foldBlocks_starts [of sql rest] prems(1) by (fastforce simp: seg_sorted_Cons)
    with False 2(1) prems show ?thesis by (auto simp: seg_sorted_Cons)
  next
    case True
    let ?dw = "dropWhile (\<lambda>s. terminator s \<noteq> T_slashDelimiter) (segment # rest)"
    from True prems(2) have code: "has_code sql (seg_start segment) (seg_end segment)"
      by (simp add: seg_code_def)
    from prems(1) have seg: "seg_start segment < seg_end segment" "seg_end segment \<le> length sql"
      by (simp_all add: seg_sorted_Cons)
    show ?thesis
    proof (cases ?dw)
      case Nil
      with True seg has_code_mono [OF code seg(2)] show ?thesis
        by (simp add: seg_sorted_def seg_code_def)
    next
      case (Cons endSeg after)
      note sp = seg_sorted_split [OF prems(1) Cons]
      have "list_all (seg_code sql) after"
        using prems(2) set_dropWhileD [of _ "\<lambda>s. terminator s \<noteq> T_slashDelimiter" "segment # rest"] Cons
        by (metis list.set_intros(2) list_all_iff)
      with 2(2) [OF _ Cons] True sp(1)
      have ih: "seg_sorted sql (foldBlocks sql after)" "list_all (seg_code sql) (foldBlocks sql after)"
        by simp_all
      have "\<forall>y\<in>set (foldBlocks sql after). seg_end endSeg \<le> seg_start y"
        using foldBlocks_starts [of sql after] sp(4) by fastforce
      with True Cons ih sp seg has_code_mono [OF code sp(2)] show ?thesis
        by (simp add: seg_sorted_Cons seg_code_simple del: dropWhile.simps)
    qed
  qed
qed simp

section \<open>\<open>foldComments\<close> loses no segment\<close>

lemma foldl_foldComments:
  assumes "foldl foldComments_step ([], []) segs = (outp, pending)"
  shows "concat (map spans outp) @ pending = map span_of segs"
    and "map meaningful outp = map span_of (filter hasMeaningful segs)"
proof -
  have "concat (map spans outp) @ pending = map span_of segs \<and>
      map meaningful outp = map span_of (filter hasMeaningful segs)"
    using assms
  proof (induction segs arbitrary: outp pending rule: rev_induct)
    case (snoc x xs)
    obtain out0 pend0 where 0: "foldl foldComments_step ([], []) xs = (out0, pend0)" by fastforce
    have "foldComments_step (out0, pend0) x = (outp, pending)" using snoc.prems 0 by simp
    with snoc.IH [OF 0] show ?case by (auto simp: foldComments_step_def split: if_splits)
  qed simp
  then show "concat (map spans outp) @ pending = map span_of segs"
    and "map meaningful outp = map span_of (filter hasMeaningful segs)" by auto
qed

lemma foldComments_meaningful:
  "map meaningful (foldComments segs) = map span_of (filter hasMeaningful segs)"
proof -
  obtain outp pending where f: "foldl foldComments_step ([], []) segs = (outp, pending)" by fastforce
  have "map meaningful (foldComments segs) = map meaningful outp"
    by (cases outp rule: rev_cases) (auto simp: foldComments_def f Let_def)
  with foldl_foldComments(2) [OF f] show ?thesis by simp
qed

lemma foldComments_spans:
  assumes "filter hasMeaningful segs \<noteq> []"
  shows "concat (map spans (foldComments segs)) = map span_of segs"
proof -
  obtain outp pending where f: "foldl foldComments_step ([], []) segs = (outp, pending)" by fastforce
  have "outp \<noteq> []" using foldl_foldComments(2) [OF f] assms by auto
  then have "concat (map spans (foldComments segs)) = concat (map spans outp) @ pending"
    by (cases outp rule: rev_cases) (auto simp: foldComments_def f Let_def)
  with foldl_foldComments(1) [OF f] show ?thesis by simp
qed

section \<open>Statement ranges\<close>

lemma trim_back_spec:
  "s < b \<Longrightarrow> \<not> isAsciiSpace (char_at sql s) \<Longrightarrow>
   s < trim_back sql s b \<and> trim_back sql s b \<le> b \<and> \<not> isAsciiSpace (char_at sql (trim_back sql s b - 1))"
proof (induction b)
  case (Suc b)
  then show ?case by (cases "s = b") auto
qed simp

lemma trimRange_spec:
  assumes "has_code sql a b" "trimRange sql a b = (s, e)"
  shows "a \<le> s" "s < e" "e \<le> b" "\<not> isAsciiSpace (char_at sql s)" "\<not> isAsciiSpace (char_at sql (e - 1))"
proof -
  obtain i where i: "a \<le> i" "i < b" "\<not> isAsciiSpace (char_at sql i)"
    using assms(1) by (auto simp: has_code_def)
  have s: "s = scan_while isAsciiSpace sql b a" and e: "e = trim_back sql s b"
    using assms(2) by (auto simp: trimRange_def Let_def)
  have "s \<le> i" using scan_while_all [OF i(1)] i(3) s not_le by blast
  with i(2) have "s < b" by simp
  with s have sp: "\<not> isAsciiSpace (char_at sql s)" using scan_while_stop by blast
  with trim_back_spec [OF \<open>s < b\<close>] e
  show "s < e" "e \<le> b" "\<not> isAsciiSpace (char_at sql s)" "\<not> isAsciiSpace (char_at sql (e - 1))"
    by auto
  show "a \<le> s" using s scan_while_ge by blast
qed

definition range_ok :: "jsstring \<Rightarrow> Statement \<Rightarrow> bool" where
  "range_ok sql st \<longleftrightarrow>
     (let s = range_start (stmt_range st); e = range_end (stmt_range st) in
      s < e \<and> e \<le> length sql \<and> \<not> isAsciiSpace (char_at sql s) \<and> \<not> isAsciiSpace (char_at sql (e - 1)))"

definition ranges_ordered :: "Statement list \<Rightarrow> bool" where
  "ranges_ordered stmts \<longleftrightarrow>
     sorted_wrt (\<lambda>a b. range_end (stmt_range a) \<le> range_start (stmt_range b)) stmts"

text \<open>The range of the statement built from a segment's span lies in that span.\<close>

definition in_span :: "jsstring \<Rightarrow> Span \<Rightarrow> Statement \<Rightarrow> bool" where
  "in_span sql sp st \<longleftrightarrow> range_ok sql st \<and>
     sp_start sp \<le> range_start (stmt_range st) \<and> range_end (stmt_range st) \<le> sp_end sp"

lemma buildStatement_in_span:
  assumes "has_code sql (sp_start (meaningful g)) (sp_end (meaningful g))" "sp_end (meaningful g) \<le> length sql"
  shows "in_span sql (meaningful g) (buildStatement sql g opts)"
proof -
  obtain s e where t: "trimRange sql (sp_start (meaningful g)) (sp_end (meaningful g)) = (s, e)" by fastforce
  from trimRange_spec [OF assms(1) t] assms(2) t show ?thesis
    by (simp add: in_span_def range_ok_def buildStatement_def Let_def)
qed

lemma statements_ordered:
  assumes "seg_sorted sql segs" "list_all (seg_code sql) segs"
  shows "list_all (range_ok sql) (map (\<lambda>g. buildStatement sql g opts) (foldComments segs)) \<and>
         ranges_ordered (map (\<lambda>g. buildStatement sql g opts) (foldComments segs))"
proof -
  let ?gs = "foldComments segs"
  let ?ms = "filter hasMeaningful segs"
  have m: "map meaningful ?gs = map span_of ?ms" by (rule foldComments_meaningful)
  have sorted: "sorted_wrt (\<lambda>a b. sp_end a \<le> sp_start b) (map meaningful ?gs)"
    unfolding m sorted_wrt_map using assms(1)
    by (auto simp: span_of_def seg_sorted_def intro: sorted_wrt_filter)
  have "\<forall>sp\<in>set (map meaningful ?gs). has_code sql (sp_start sp) (sp_end sp) \<and> sp_end sp \<le> length sql"
    unfolding m using assms by (auto simp: span_of_def seg_sorted_def list_all_iff seg_code_def)
  then have ins: "\<forall>g\<in>set ?gs. in_span sql (meaningful g) (buildStatement sql g opts)"
    using buildStatement_in_span by auto
  have "ranges_ordered (map (\<lambda>g. buildStatement sql g opts) ?gs)"
    unfolding ranges_ordered_def sorted_wrt_map
    by (rule sorted_wrt_mono_rel [OF _ sorted [unfolded sorted_wrt_map]])
       (use ins in \<open>meson in_span_def order_trans\<close>)
  with ins show ?thesis by (auto simp: list_all_iff in_span_def)
qed

lemma splitInto_spec:
  assumes "wf_options opts"
  shows "\<exists>stmts. splitInto sql opts batchOnly = Some stmts \<and> list_all (range_ok sql) stmts \<and> ranges_ordered stmts"
proof (cases "sql = []")
  case True
  then show ?thesis by (simp add: splitInto_def ranges_ordered_def)
next
  case False
  obtain segs where segs: "collectSegments sql opts batchOnly = Some segs"
      "tiles sql opts 0 segs (length sql)" "list_all (seg_code sql) segs"
    using collectSegments_spec [OF assms] by blast
  define folded where "folded = (if plsqlBlocks opts then foldBlocks sql segs else segs)"
  have "seg_sorted sql folded \<and> list_all (seg_code sql) folded"
    using foldBlocks_keeps tiles_sorted [OF segs(2)] segs(3) by (simp add: folded_def)
  with statements_ordered [of sql folded opts] False segs(1) show ?thesis
    by (simp add: splitInto_def folded_def [symmetric])
qed

section \<open>The statement under the cursor\<close>

lemma statementAt_loop_mem: "statementAt_loop r ss off \<in> set (r # ss)"
  by (induction r ss off rule: statementAt_loop.induct) auto

lemma statementAt_loop_before:
  "(\<And>x. x \<in> set ss \<Longrightarrow> off < range_start (stmt_range x)) \<Longrightarrow> statementAt_loop r ss off = r"
  by (cases ss) auto

lemma statementAt_loop_hit:
  assumes "sorted_wrt (\<lambda>a b. range_end (stmt_range a) \<le> range_start (stmt_range b)) ss"
    and "\<And>x. x \<in> set ss \<Longrightarrow> range_start (stmt_range x) \<le> range_end (stmt_range x)"
    and "s \<in> set ss" "range_start (stmt_range s) \<le> off" "off < range_end (stmt_range s)"
  shows "statementAt_loop r ss off = s"
  using assms
proof (induction ss arbitrary: r)
  case (Cons x ss)
  show ?case
  proof (cases "s = x")
    case True
    have "\<And>y. y \<in> set ss \<Longrightarrow> off < range_start (stmt_range y)"
      using Cons.prems True by fastforce
    with True Cons.prems show ?thesis by (simp add: statementAt_loop_before)
  next
    case False
    then have "s \<in> set ss" using Cons.prems by simp
    moreover have "\<not> off < range_start (stmt_range x)"
      using Cons.prems \<open>s \<in> set ss\<close> by (force intro: order_trans)
    ultimately show ?thesis using Cons by simp
  qed
qed simp

lemma splitStatements_facts:
  assumes "wf_input input" "splitStatements sql input = Some stmts"
  shows "list_all (range_ok sql) stmts" and "ranges_ordered stmts"
  using splitInto_spec [OF wf_optionsFor [OF assms(1)], of sql False] assms(2)
  by (auto simp: splitStatements_def)

section \<open>Properties\<close>

text \<open>C1 (splitStatements_ranges): for every dialect name, for no dialect and for every resolved
  syntax whose quotes are nonempty, \<open>splitStatements\<close> returns; every statement range is nonempty,
  lies inside the source and starts and ends with a non-blank character, and the ranges are in
  source order and do not overlap.\<close>

theorem splitStatements_ranges:
  assumes "wf_input input"
  shows "\<exists>stmts. splitStatements sql input = Some stmts \<and>
           list_all (range_ok sql) stmts \<and> ranges_ordered stmts"
  unfolding splitStatements_def by (rule splitInto_spec [OF wf_optionsFor [OF assms]])

theorem splitStatements_ranges_witness:
  "\<exists>stmts. splitStatements ''a;b'' (DialectName ''mysql'') = Some stmts \<and>
     list_all (range_ok ''a;b'') stmts \<and> ranges_ordered stmts"
  by (rule splitStatements_ranges) (simp add: wf_input_def)



text \<open>Property (foldComments_lossless): the comment folding keeps one statement per meaningful segment, in
  order, and as soon as there is one, every segment's text is in exactly one statement, in order:
  a comment-only segment is never lost.\<close>

theorem foldComments_lossless:
  "map meaningful (foldComments segs) = map span_of (filter hasMeaningful segs) \<and>
   (filter hasMeaningful segs \<noteq> [] \<longrightarrow> concat (map spans (foldComments segs)) = map span_of segs)"
  by (simp add: foldComments_meaningful foldComments_spans)

theorem foldComments_lossless_witness:
  "concat (map spans (foldComments
     [\<lparr>seg_start = 0, seg_end = 4, hasMeaningful = False, terminator = T_delimiter\<rparr>,
      \<lparr>seg_start = 5, seg_end = 9, hasMeaningful = True, terminator = T_eof\<rparr>])) =
   [\<lparr>sp_start = 0, sp_end = 4\<rparr>, \<lparr>sp_start = 5, sp_end = 9\<rparr>]"
  using foldComments_lossless
    [of "[\<lparr>seg_start = 0, seg_end = 4, hasMeaningful = False, terminator = T_delimiter\<rparr>,
      \<lparr>seg_start = 5, seg_end = 9, hasMeaningful = True, terminator = T_eof\<rparr>]"]
  by (simp add: span_of_def)

text \<open>C24 (cursor_inside_statement): a cursor offset inside a statement's range of the split source
  resolves to that very statement.\<close>

theorem cursor_inside_statement:
  assumes "wf_input input" "splitStatements sql input = Some stmts" "st \<in> set stmts"
    and "range_start (stmt_range st) \<le> offset" "offset < range_end (stmt_range st)"
  shows "findStatementAtOffset stmts offset = Some st"
proof -
  have "list_all (range_ok sql) stmts" "ranges_ordered stmts"
    using splitStatements_facts [OF assms(1,2)] by simp_all
  then have "statementAt_loop r stmts offset = st" for r
    using statementAt_loop_hit [of stmts st offset r] assms(3-)
    by (fastforce simp: ranges_ordered_def range_ok_def Let_def list_all_iff)
  moreover obtain x xs where "stmts = x # xs" using assms(3) by (cases stmts) auto
  ultimately show ?thesis by (simp add: findStatementAtOffset_def del: statementAt_loop.simps)
qed

theorem cursor_inside_statement_witness:
  "\<exists>stmts st. splitStatements ''a;b'' NoDialect = Some stmts \<and> findStatementAtOffset stmts 2 = Some st \<and> stmt_text st = ''b''"
proof -
  define st where "st = \<lparr>stmt_text = ''b'', stmt_range = \<lparr>range_start = 2, range_end = 3\<rparr>,
    stmt_isSelect = False, stmt_returnsResultSet = False, stmt_isExplainable = False\<rparr>"
  define sa where "sa = \<lparr>stmt_text = ''a'', stmt_range = \<lparr>range_start = 0, range_end = 1\<rparr>,
    stmt_isSelect = False, stmt_returnsResultSet = False, stmt_isExplainable = False\<rparr>"
  have 1: "splitStatements ''a;b'' NoDialect = Some [sa, st]" unfolding st_def sa_def by code_simp
  have "findStatementAtOffset [sa, st] 2 = Some st"
    by (rule cursor_inside_statement [OF _ 1]) (simp_all add: wf_input_def st_def)
  with 1 show ?thesis by (auto simp: st_def)
qed

text \<open>Property (cursor_resolution): for the statements of a split source the lookup is total on a nonempty
  list, and returns the last statement that starts at or before the offset, the first statement
  when the offset is before all of them.\<close>

theorem cursor_resolution:
  assumes "wf_input input" "splitStatements sql input = Some stmts"
  shows "findStatementAtOffset stmts offset =
    (case filter (\<lambda>st. range_start (stmt_range st) \<le> offset) stmts of
       [] \<Rightarrow> (case stmts of [] \<Rightarrow> None | st # _ \<Rightarrow> Some st)
     | x # xs \<Rightarrow> Some (last (x # xs)))"
proof -
  have l: "list_all (range_ok sql) stmts" and o: "ranges_ordered stmts"
    using splitStatements_facts [OF assms(1,2)] by simp_all
  have start: "sorted_wrt (\<lambda>a b. range_start (stmt_range a) \<le> range_start (stmt_range b)) stmts"
    by (rule sorted_wrt_mono_rel [OF _ o [unfolded ranges_ordered_def]])
       (use l in \<open>fastforce simp: list_all_iff range_ok_def Let_def\<close>)
  have loop: "sorted_wrt (\<lambda>a b. range_start (stmt_range a) \<le> range_start (stmt_range b)) ss \<Longrightarrow>
      statementAt_loop r ss offset = last (r # filter (\<lambda>st. range_start (stmt_range st) \<le> offset) ss)" for r ss
  proof (induction ss arbitrary: r)
    case (Cons x ss)
    show ?case
    proof (cases "offset < range_start (stmt_range x)")
      case True
      with Cons.prems have "filter (\<lambda>st. range_start (stmt_range st) \<le> offset) ss = []"
        by (fastforce simp: filter_empty_conv)
      with True show ?thesis by simp
    qed (use Cons in auto)
  qed simp
  show ?thesis
  proof (cases stmts)
    case (Cons x xs)
    have "findStatementAtOffset stmts offset = Some (statementAt_loop x stmts offset)"
      by (simp add: findStatementAtOffset_def Cons del: statementAt_loop.simps)
    also have "\<dots> = Some (last (x # filter (\<lambda>st. range_start (stmt_range st) \<le> offset) stmts))"
      by (simp only: loop [OF start])
    finally show ?thesis
      using Cons by (cases "filter (\<lambda>st. range_start (stmt_range st) \<le> offset) stmts") simp_all
  qed (simp add: findStatementAtOffset_def)
qed

theorem cursor_resolution_witness:
  "\<exists>stmts st. splitStatements ''a;b'' NoDialect = Some stmts \<and> findStatementAtOffset stmts 1 = Some st \<and> stmt_text st = ''a''"
proof -
  define st where "st = \<lparr>stmt_text = ''b'', stmt_range = \<lparr>range_start = 2, range_end = 3\<rparr>,
    stmt_isSelect = False, stmt_returnsResultSet = False, stmt_isExplainable = False\<rparr>"
  define sa where "sa = \<lparr>stmt_text = ''a'', stmt_range = \<lparr>range_start = 0, range_end = 1\<rparr>,
    stmt_isSelect = False, stmt_returnsResultSet = False, stmt_isExplainable = False\<rparr>"
  have 1: "splitStatements ''a;b'' NoDialect = Some [sa, st]" unfolding st_def sa_def by code_simp
  have "findStatementAtOffset [sa, st] 1 = Some sa"
    by (subst cursor_resolution [OF _ 1]) (simp_all add: wf_input_def st_def sa_def)
  with 1 show ?thesis by (auto simp: sa_def)
qed

text \<open>Property (batch_never_cut_at_semicolon): in batch mode (\<open>splitBatches\<close> on a dialect with \<open>GO\<close>) no
  segment ends at a statement delimiter: a T-SQL batch is only cut at \<open>GO\<close>, a \<open>DELIMITER\<close>
  directive, a slash line or the end of the source, so \<open>DECLARE\<close>d variables keep their scope.\<close>

theorem batch_never_cut_at_semicolon:
  assumes "wf_options opts"
  shows "\<exists>segs. collectSegments sql opts True = Some segs \<and> list_all (\<lambda>x. terminator x \<noteq> T_delimiter) segs"
  using collectSegments_spec [OF assms, of sql True] by blast

theorem batch_never_cut_at_semicolon_witness:
  "\<exists>segs. collectSegments ''a;b'' MSSQL True = Some segs \<and> list_all (\<lambda>x. terminator x \<noteq> T_delimiter) segs"
  by (rule batch_never_cut_at_semicolon) (simp add: option_defs wf_options_def wf_quote_def)

text \<open>Property (no_break_space_is_a_statement): the splitter counts a no-break space as code but \<open>trim\<close>
  removes it, so a trailing no-break space yields a second statement with empty text.\<close>

theorem no_break_space_is_a_statement:
  "splitQueries (''a;'' @ [CHR 0xA0]) (DialectName ''postgres'') = Some [''a'', []]"
  by code_simp

end
