(* ===== verification/JsValue.thy ===== *)
theory JsValue
  imports Prelude
begin

text \<open>
  JavaScript values that reach the code as \<open>unknown\<close> (plugin manifests, stored UI state): the JSON
  values plus \<open>undefined\<close>. An object is its own enumerable properties in insertion order; reading a
  missing property gives \<open>undefined\<close>. A JSON number is kept as its decimal, so \<open>NaN\<close>
  and the infinities have no counterpart.
\<close>

datatype jsval =
    JUndefined
  | JNull
  | JBool bool
  | JNum int nat \<comment> \<open>a decimal: mantissa and number of fractional digits\<close>
  | JStr jsstring
  | JArr "jsval list"
  | JObj "(jsstring \<times> jsval) list"

fun truthy :: "jsval \<Rightarrow> bool" where
  "truthy JUndefined = False"
| "truthy JNull = False"
| "truthy (JBool b) = b"
| "truthy (JNum m _) = (m \<noteq> 0)"
| "truthy (JStr s) = (s \<noteq> [])"
| "truthy (JArr _) = True"
| "truthy (JObj _) = True"

definition get_prop :: "(jsstring \<times> jsval) list \<Rightarrow> jsstring \<Rightarrow> jsval" where
  "get_prop kvs k = (case map_of kvs k of None \<Rightarrow> JUndefined | Some v \<Rightarrow> v)"

fun is_object :: "jsval \<Rightarrow> bool" where
  "is_object (JObj _) = True"
| "is_object (JArr _) = True"
| "is_object _ = False"

text \<open>\<open>obj[k] = v\<close>, which keeps the place of a key already there, and \<open>delete obj[k]\<close>. That a key
  which is an array index would be enumerated first is not modelled here.\<close>

fun set_prop :: "(jsstring \<times> 'a) list \<Rightarrow> jsstring \<times> 'a \<Rightarrow> (jsstring \<times> 'a) list" where
  "set_prop [] kv = [kv]"
| "set_prop ((k', v') # kvs) kv = (if k' = fst kv then kv # kvs else (k', v') # set_prop kvs kv)"

definition delete_prop :: "(jsstring \<times> 'a) list \<Rightarrow> jsstring \<Rightarrow> (jsstring \<times> 'a) list" where
  "delete_prop kvs k = filter (\<lambda>kv. fst kv \<noteq> k) kvs"

lemma map_of_set_prop [simp]: "map_of (set_prop kvs (k, v)) = (map_of kvs)(k \<mapsto> v)"
  by (induction kvs) auto

lemma keys_set_prop: "fst ` set (set_prop kvs (k, v)) = insert k (fst ` set kvs)"
  by (simp add: dom_map_of_conv_image_fst [symmetric])

lemma distinct_set_prop [intro]: "distinct (map fst kvs) \<Longrightarrow> distinct (map fst (set_prop kvs (k, v)))"
proof (induction kvs)
  case (Cons kv kvs)
  then show ?case using keys_set_prop [of kvs k v] by (cases kv) (auto simp: image_iff)
qed simp

lemma map_of_delete_prop [simp]: "map_of (delete_prop kvs k) = (map_of kvs)(k := None)"
  by (induction kvs) (auto simp: delete_prop_def)

lemma distinct_delete_prop [intro]: "distinct (map fst kvs) \<Longrightarrow> distinct (map fst (delete_prop kvs k))"
  by (induction kvs) (auto simp: delete_prop_def)

text \<open>\<open>[...new Set(xs)]\<close>: first occurrences, in order.\<close>

fun uniq_aux :: "'a set \<Rightarrow> 'a list \<Rightarrow> 'a list" where
  "uniq_aux seen [] = []"
| "uniq_aux seen (x # xs) = (if x \<in> seen then uniq_aux seen xs else x # uniq_aux (insert x seen) xs)"

definition uniq :: "'a list \<Rightarrow> 'a list" where
  "uniq xs = uniq_aux {} xs"

lemma set_uniq_aux: "set (uniq_aux seen xs) = set xs - seen"
  by (induction seen xs rule: uniq_aux.induct) auto

lemma distinct_uniq_aux: "distinct (uniq_aux seen xs)"
  by (induction seen xs rule: uniq_aux.induct) (auto simp: set_uniq_aux)

lemma set_uniq [simp]: "set (uniq xs) = set xs"
  by (simp add: uniq_def set_uniq_aux)

lemma distinct_uniq [simp]: "distinct (uniq xs)"
  by (simp add: uniq_def distinct_uniq_aux)

section \<open>\<open>JSON.stringify\<close>\<close>

fun nat_str :: "nat \<Rightarrow> jsstring" where
  "nat_str n = (if n < 10 then [char_of (48 + n)] else nat_str (n div 10) @ [char_of (48 + n mod 10)])"

declare nat_str.simps [simp del]

lemma char_of_add_inj: "m < (10::nat) \<Longrightarrow> n < (10::nat) \<Longrightarrow> (char_of (48 + m) :: char) = char_of (48 + n) \<longleftrightarrow> m = n"
  by (auto dest!: arg_cong [of _ _ "of_char :: char \<Rightarrow> nat"] simp: take_bit_eq_mod)

lemma nat_str_inj: "nat_str m = nat_str n \<Longrightarrow> m = n"
proof (induction m arbitrary: n rule: nat_str.induct)
  case (1 m)
  have ne: "nat_str k \<noteq> []" for k by (subst nat_str.simps) simp
  show ?case
  proof (cases "m < 10")
    case True
    with 1 have e: "nat_str n = [char_of (48 + m)]" by (subst (asm) nat_str.simps) simp
    then have "n < 10" using ne [of "n div 10"] by (subst (asm) nat_str.simps) (auto split: if_splits)
    with e True show ?thesis by (subst (asm) nat_str.simps) (simp add: char_of_add_inj)
  next
    case False
    then have m: "nat_str m = nat_str (m div 10) @ [char_of (48 + m mod 10)]" by (subst nat_str.simps) simp
    have "\<not> n < 10"
    proof
      assume "n < 10"
      then have "nat_str n = [char_of (48 + n)]" by (subst nat_str.simps) simp
      with m "1.prems" ne [of "m div 10"] show False by simp
    qed
    then have n: "nat_str n = nat_str (n div 10) @ [char_of (48 + n mod 10)]" by (subst nat_str.simps) simp
    from m n "1.prems" have a: "nat_str (m div 10) = nat_str (n div 10)"
      and b: "(char_of (48 + m mod 10) :: char) = char_of (48 + n mod 10)" by simp_all
    from "1.IH" [OF False a] char_of_add_inj [of "m mod 10" "n mod 10"] b show ?thesis
      by (metis div_mult_mod_eq mod_less_divisor zero_less_numeral)
  qed
qed

text \<open>A decimal without trailing zeros, printed as JavaScript prints numbers below \<open>10^21\<close> that need no exponent.\<close>

fun trim_decimal :: "int \<Rightarrow> nat \<Rightarrow> int \<times> nat" where
  "trim_decimal m 0 = (m, 0)"
| "trim_decimal m (Suc d) = (if m mod 10 = 0 then trim_decimal (m div 10) d else (m, Suc d))"

definition num_str :: "int \<Rightarrow> nat \<Rightarrow> jsstring" where
  "num_str m d =
     (case trim_decimal m d of (m', d') \<Rightarrow>
        (let digits = nat_str (nat \<bar>m'\<bar>);
             padded = replicate (Suc d' - length digits) (CHR ''0'') @ digits;
             k = length padded - d'
         in (if m' < 0 then ''-'' else []) @ take k padded @ (if d' = 0 then [] else CHR ''.'' # drop k padded)))"

definition hex_digit :: "nat \<Rightarrow> char" where
  "hex_digit n = (if n < 10 then char_of (48 + n) else char_of (87 + n))"

definition json_char :: "char \<Rightarrow> jsstring" where
  "json_char c =
     (let n = code_of c in
      if c = DQ then [BSL, DQ] else if c = BSL then [BSL, BSL]
      else if n = 8 then [BSL, CHR ''b''] else if n = 9 then [BSL, CHR ''t'']
      else if n = 10 then [BSL, CHR ''n''] else if n = 12 then [BSL, CHR ''f'']
      else if n = 13 then [BSL, CHR ''r'']
      else if n < 32 then [BSL, CHR ''u'', CHR ''0'', CHR ''0'', hex_digit (n div 16), hex_digit (n mod 16)]
      else [c])"

definition json_str :: "jsstring \<Rightarrow> jsstring" where
  "json_str s = [DQ] @ concat (map json_char s) @ [DQ]"

fun comma_join :: "jsstring list \<Rightarrow> jsstring" where
  "comma_join [] = []"
| "comma_join [x] = x"
| "comma_join (x # xs) = x @ '','' @ comma_join xs"

text \<open>\<open>None\<close>: \<open>JSON.stringify(undefined)\<close> is \<open>undefined\<close>. Inside an array \<open>undefined\<close> is \<open>null\<close>; an
  undefined property is left out.\<close>

fun stringify :: "jsval \<Rightarrow> jsstring option"
  and stringify_list :: "jsval list \<Rightarrow> jsstring list"
  and stringify_props :: "(jsstring \<times> jsval) list \<Rightarrow> jsstring list" where
  "stringify JUndefined = None"
| "stringify JNull = Some ''null''"
| "stringify (JBool b) = Some (if b then ''true'' else ''false'')"
| "stringify (JNum m d) = Some (num_str m d)"
| "stringify (JStr s) = Some (json_str s)"
| "stringify (JArr xs) = Some (''['' @ comma_join (stringify_list xs) @ '']'')"
| "stringify (JObj kvs) = Some (''{'' @ comma_join (stringify_props kvs) @ ''}'')"
| "stringify_list [] = []"
| "stringify_list (v # vs) = (case stringify v of None \<Rightarrow> ''null'' | Some t \<Rightarrow> t) # stringify_list vs"
| "stringify_props [] = []"
| "stringify_props ((k, v) # kvs) =
     (case stringify v of None \<Rightarrow> stringify_props kvs
      | Some t \<Rightarrow> (json_str k @ '':'' @ t) # stringify_props kvs)"

text \<open>A quoted JSON string can be read back: its escapes are prefix-free and none starts with the quote.\<close>

lemma code_of_inj: "code_of c = code_of d \<Longrightarrow> c = d"
  by (simp add: code_of_def)

lemma hex_digit_inj: "m < 16 \<Longrightarrow> n < 16 \<Longrightarrow> hex_digit m = hex_digit n \<Longrightarrow> m = n"
  by (auto simp: hex_digit_def take_bit_eq_mod split: if_splits dest: arg_cong [of _ _ "of_char :: char \<Rightarrow> nat"])

lemma json_char_unicode:
  assumes "code_of c < 32" "code_of d < 32" "hex_digit (code_of c div 16) = hex_digit (code_of d div 16)"
    "hex_digit (code_of c mod 16) = hex_digit (code_of d mod 16)"
  shows "c = d"
proof -
  have "code_of c div 16 = code_of d div 16" "code_of c mod 16 = code_of d mod 16"
    by (rule hex_digit_inj; use assms in simp)+
  then have "code_of c = code_of d" by (metis div_mult_mod_eq)
  then show ?thesis by (rule code_of_inj)
qed

lemma json_char_prefix_free: "json_char c @ xs = json_char d @ ys \<Longrightarrow> c = d \<and> xs = ys"
  by (auto simp: json_char_def Let_def split: if_splits intro: code_of_inj json_char_unicode)

lemma json_char_head: "json_char c @ xs \<noteq> DQ # ys"
  by (auto simp: json_char_def Let_def)

lemma json_body_inj:
  "concat (map json_char s) @ DQ # xs = concat (map json_char t) @ DQ # ys \<Longrightarrow> s = t \<and> xs = ys"
proof (induction s arbitrary: t)
  case Nil
  then show ?case using json_char_head [symmetric] by (cases t) auto
next
  case (Cons c s)
  show ?case
  proof (cases t)
    case Nil
    with Cons.prems json_char_head [of c] show ?thesis by simp
  next
    case (Cons d t')
    with Cons.prems have "json_char c @ (concat (map json_char s) @ DQ # xs)
        = json_char d @ (concat (map json_char t') @ DQ # ys)" by simp
    with json_char_prefix_free Cons Cons.IH [of t'] show ?thesis by blast
  qed
qed

lemma json_str_inj: "json_str s @ xs = json_str t @ ys \<Longrightarrow> s = t \<and> xs = ys"
  using json_body_inj [of s xs t ys] by (simp add: json_str_def)

end
