(* ===== verification/SqlSyntax.thy ===== *)
theory SqlSyntax
  imports SqlOptions JsValue
begin

text \<open>
  A driver's resolved SQL syntax (\<open>utils/sqlSyntax.ts\<close>): its preset plus the \<open>sql_syntax\<close> fields a
  plugin declares, each an unknown JSON value that is checked before it is used. The module-level
  caches of the source (\<open>PRESETS\<close>, and \<open>DECLARED\<close> keyed by descriptor object) are passed explicitly.
  A descriptor object is a reference into a store \<open>objs\<close> of descriptors, which nothing in the module
  writes. \<open>console.warn\<close> is left out.
\<close>

datatype StringEscapeStyle = SE_standard | SE_mysql | SE_backslash

datatype BooleanLiteralStyle = BL_keywords | BL_numeric

record SqlSyntax = SqlSyntaxSource +
  stringEscape :: StringEscapeStyle
  likeEscape :: bool
  booleanLiterals :: "BooleanLiteralStyle option"
  formatter :: jsstring
  syn_keywords :: "jsstring list"
  syn_functions :: "jsstring list"

record SqlSyntaxDescriptor =
  d_extends :: jsval
  d_quotes :: jsval
  d_triple_quoted_strings :: jsval
  d_string_prefixes :: jsval
  d_hash_comments :: jsval
  d_nested_block_comments :: jsval
  d_line_comment_requires_space :: jsval
  d_script_blocks :: jsval
  d_dollar_quoting :: jsval
  d_string_escape :: jsval
  d_like_escape :: jsval
  d_boolean_literals :: jsval
  d_formatter :: jsval
  d_keywords :: jsval
  d_functions :: jsval

definition maxQuotes :: nat where "maxQuotes = 8"
definition maxStringPrefixes :: nat where "maxStringPrefixes = 8"
definition maxStringPrefixLength :: nat where "maxStringPrefixLength = 2"
definition maxWords :: nat where "maxWords = 1000"
definition maxWordLength :: nat where "maxWordLength = 64"

definition SQL_SYNTAX_FORMATTERS :: "jsstring list" where
  "SQL_SYNTAX_FORMATTERS = [''bigquery'', ''clickhouse'', ''db2'', ''db2i'', ''duckdb'', ''hive'',
     ''mariadb'', ''mysql'', ''n1ql'', ''plsql'', ''postgresql'', ''redshift'', ''singlestoredb'',
     ''snowflake'', ''spark'', ''sql'', ''sqlite'', ''tidb'', ''transactsql'', ''trino'']"

fun PRESET_FORMATTERS :: "Dialect \<Rightarrow> jsstring" where
  "PRESET_FORMATTERS Postgres = ''postgresql''"
| "PRESET_FORMATTERS Mysql = ''mysql''"
| "PRESET_FORMATTERS Mssql = ''transactsql''"
| "PRESET_FORMATTERS Sqlite = ''sqlite''"
| "PRESET_FORMATTERS Oracle = ''plsql''"
| "PRESET_FORMATTERS Generic = ''sql''"

text \<open>\<open>presetFormatter\<close> takes a name; \<open>presetSyntax\<close> passes it the dialect it has already narrowed to,
  which is the same lookup.\<close>

definition presetFormatter :: "jsstring option \<Rightarrow> jsstring" where
  "presetFormatter name = (case isDialect name of None \<Rightarrow> ''sql'' | Some d \<Rightarrow> PRESET_FORMATTERS d)"

definition presetSyntax :: "jsstring option \<Rightarrow> SqlSyntax" where
  "presetSyntax name =
     (let d = isDialect name in
      \<lparr>dialect = d, declared = False, options = dialectOptions (normalizeDialect name),
       stringEscape = (if d = Some Mysql then SE_mysql else SE_standard), likeEscape = True,
       booleanLiterals = None, formatter = presetFormatter (case d of None \<Rightarrow> None | Some _ \<Rightarrow> name),
       syn_keywords = [], syn_functions = []\<rparr>)"

section \<open>Checking the declared fields\<close>

definition declaredStringEscape :: "jsval \<Rightarrow> StringEscapeStyle \<Rightarrow> StringEscapeStyle" where
  "declaredStringEscape decl base =
     (if decl \<noteq> JStr ''standard'' \<and> decl \<noteq> JStr ''backslash'' then base
      else if decl = JStr ''standard'' \<and> base = SE_mysql then base
      else if decl = JStr ''standard'' then SE_standard else SE_backslash)"

definition parseBooleanLiterals :: "jsval \<Rightarrow> BooleanLiteralStyle option" where
  "parseBooleanLiterals v =
     (if v = JStr ''keywords'' then Some BL_keywords
      else if v = JStr ''numeric'' then Some BL_numeric else None)"

definition QUOTE_CLOSE :: "(jsstring \<times> jsstring) list" where
  "QUOTE_CLOSE = [([SQ], [SQ]), ([DQ], [DQ]), ([BTICK], [BTICK]), (''['', '']'')]"

definition parseQuote :: "jsval \<Rightarrow> QuoteRule option" where
  "parseQuote item =
     (case item of
        JObj kvs \<Rightarrow>
          (case get_prop kvs ''open'' of
             JStr opn \<Rightarrow>
               (case map_of QUOTE_CLOSE opn of
                  None \<Rightarrow> None
                | Some expectedClose \<Rightarrow>
                    (let cls = get_prop kvs ''close''; knd = get_prop kvs ''kind'';
                         esc = get_prop kvs ''escape'';
                         style = (if esc = JUndefined \<or> esc = JNull then JStr ''double'' else esc)
                     in if cls \<noteq> JUndefined \<and> cls \<noteq> JNull \<and> cls \<noteq> JStr expectedClose then None
                        else if knd \<noteq> JStr ''string'' \<and> knd \<noteq> JStr ''identifier'' then None
                        else if style \<notin> {JStr ''double'', JStr ''backslash'', JStr ''both'', JStr ''none''} then None
                        else Some \<lparr>q_open = opn, q_close = expectedClose,
                                   q_escape = (if style = JStr ''backslash'' \<or> style = JStr ''both''
                                               then Some [BSL] else None),
                                   q_doubleClose = (style = JStr ''double'' \<or> style = JStr ''both''),
                                   q_kind = (if knd = JStr ''string'' then QString else QIdentifier)\<rparr>))
           | _ \<Rightarrow> None)
      | _ \<Rightarrow> None)"

fun parseQuotes_loop :: "QuoteRule list \<Rightarrow> jsval list \<Rightarrow> QuoteRule list option" where
  "parseQuotes_loop rules [] = Some rules"
| "parseQuotes_loop rules (item # items) =
     (case parseQuote item of
        None \<Rightarrow> None
      | Some rule \<Rightarrow>
          if list_ex (\<lambda>r. q_open r = q_open rule) rules then None
          else parseQuotes_loop (rules @ [rule]) items)"

definition parseQuotes :: "jsval \<Rightarrow> QuoteRule list option" where
  "parseQuotes v =
     (case v of
        JArr items \<Rightarrow>
          if length items = 0 \<or> length items > maxQuotes then None else parseQuotes_loop [] items
      | _ \<Rightarrow> None)"

fun parsePrefixes_loop :: "jsstring list \<Rightarrow> jsval list \<Rightarrow> jsstring list option" where
  "parsePrefixes_loop acc [] = Some acc"
| "parsePrefixes_loop acc (item # items) =
     (case item of
        JStr s \<Rightarrow>
          if length s > maxStringPrefixLength \<or> \<not> (s \<noteq> [] \<and> list_all is_alpha s) then None
          else parsePrefixes_loop (if lower s \<in> set acc then acc else acc @ [lower s]) items
      | _ \<Rightarrow> None)"

definition parseStringPrefixes :: "jsval \<Rightarrow> jsstring list option" where
  "parseStringPrefixes v =
     (case v of
        JArr items \<Rightarrow> if length items > maxStringPrefixes then None else parsePrefixes_loop [] items
      | _ \<Rightarrow> None)"

text \<open>\<open>WORD_RE = /^[A-Za-z_](?:[A-Za-z0-9_$.]| (?! ))*$/\<close>: after the first character, a space is
  accepted when no space follows it.\<close>

fun word_rest :: "jsstring \<Rightarrow> bool" where
  "word_rest [] = True"
| "word_rest (c # cs) =
     ((is_ident_char c \<or> c = CHR ''$'' \<or> c = CHR ''.''
       \<or> (c = SP \<and> (case cs of [] \<Rightarrow> True | d # _ \<Rightarrow> d \<noteq> SP))) \<and> word_rest cs)"

definition isValidSyntaxWord :: "jsval \<Rightarrow> bool" where
  "isValidSyntaxWord v =
     (case v of
        JStr w \<Rightarrow> length w \<le> maxWordLength \<and> \<not> suffix [SP] w
          \<and> (case w of [] \<Rightarrow> False | c # cs \<Rightarrow> is_ident_start c \<and> word_rest cs)
      | _ \<Rightarrow> False)"

definition parseWords :: "jsval \<Rightarrow> jsstring list option" where
  "parseWords v =
     (case v of
        JArr items \<Rightarrow>
          if length items > maxWords \<or> \<not> list_all isValidSyntaxWord items then None
          else Some (uniq (map (\<lambda>i. case i of JStr s \<Rightarrow> s | _ \<Rightarrow> []) items))
      | _ \<Rightarrow> None)"

section \<open>Applying a descriptor\<close>

definition flag :: "jsval \<Rightarrow> bool \<Rightarrow> bool" where
  "flag v fallback = (case v of JBool b \<Rightarrow> b | _ \<Rightarrow> fallback)"

definition or_else :: "'a option \<Rightarrow> 'a \<Rightarrow> 'a" where
  "or_else m d = (case m of None \<Rightarrow> d | Some x \<Rightarrow> x)"

definition extendsPreset :: "jsval \<Rightarrow> jsstring option" where
  "extendsPreset v = (case v of JStr n \<Rightarrow> (if isDialect (Some n) \<noteq> None then Some n else None) | _ \<Rightarrow> None)"

definition applyDescriptor :: "SqlSyntaxDescriptor \<Rightarrow> jsstring option \<Rightarrow> SqlSyntax" where
  "applyDescriptor desc sqlDialect =
     (let base = presetSyntax (case extendsPreset (d_extends desc) of Some n \<Rightarrow> Some n | None \<Rightarrow> sqlDialect);
          preset = options base
      in \<lparr>dialect = dialect base, declared = True,
          options = preset\<lparr>
            quotes := or_else (parseQuotes (d_quotes desc)) (quotes preset),
            tripleQuotedStrings := flag (d_triple_quoted_strings desc) (tripleQuotedStrings preset),
            stringPrefixes := or_else (parseStringPrefixes (d_string_prefixes desc)) (stringPrefixes preset),
            hashComments := flag (d_hash_comments desc) (hashComments preset),
            nestedBlockComments := flag (d_nested_block_comments desc) (nestedBlockComments preset),
            lineCommentRequiresSpace :=
              flag (d_line_comment_requires_space desc) (lineCommentRequiresSpace preset),
            scriptBlocks := flag (d_script_blocks desc) (scriptBlocks preset),
            dollarQuoting := flag (d_dollar_quoting desc) (dollarQuoting preset)\<rparr>,
          stringEscape = declaredStringEscape (d_string_escape desc) (stringEscape base),
          likeEscape = flag (d_like_escape desc) (likeEscape base),
          booleanLiterals = parseBooleanLiterals (d_boolean_literals desc),
          formatter = or_else (find (\<lambda>f. JStr f = d_formatter desc) SQL_SYNTAX_FORMATTERS) (formatter base),
          syn_keywords = or_else (parseWords (d_keywords desc)) [],
          syn_functions = or_else (parseWords (d_functions desc)) []\<rparr>)"

section \<open>Resolving a driver, with the caches\<close>

text \<open>\<open>capabilities.sql_syntax\<close> is a descriptor object (a reference) or something else.\<close>

datatype SyntaxField = SynOther jsval | SynObject nat

record DriverCapabilities =
  sql_dialect :: "jsstring option"
  sql_syntax :: SyntaxField
  identifier_quote :: "jsstring option"

datatype DriverRef =
    NoDriver
  | Manifest "DriverCapabilities option"
  | Caps DriverCapabilities

record SyntaxCache =
  PRESETS :: "jsstring option \<Rightarrow> SqlSyntax option"
  DECLARED :: "nat \<Rightarrow> (jsstring option \<Rightarrow> SqlSyntax option) option"

definition empty_cache :: SyntaxCache where
  "empty_cache = \<lparr>PRESETS = (\<lambda>_. None), DECLARED = (\<lambda>_. None)\<rparr>"

definition cachedPreset :: "SyntaxCache \<Rightarrow> jsstring option \<Rightarrow> SqlSyntax \<times> SyntaxCache" where
  "cachedPreset cache name =
     (case PRESETS cache name of
        Some syntax \<Rightarrow> (syntax, cache)
      | None \<Rightarrow> (let syntax = presetSyntax name
                 in (syntax, cache\<lparr>PRESETS := (PRESETS cache)(name := Some syntax)\<rparr>)))"

fun driver_caps :: "DriverRef \<Rightarrow> DriverCapabilities option" where
  "driver_caps NoDriver = None"
| "driver_caps (Manifest caps) = caps"
| "driver_caps (Caps caps) = Some caps"

definition resolveSqlSyntax ::
  "(nat \<Rightarrow> SqlSyntaxDescriptor) \<Rightarrow> SyntaxCache \<Rightarrow> DriverRef \<Rightarrow> SqlSyntax \<times> SyntaxCache" where
  "resolveSqlSyntax objs cache driver =
     (let caps = driver_caps driver;
          dial = Option.bind caps sql_dialect
      in case map_option sql_syntax caps of
           Some (SynObject ref) \<Rightarrow>
             (let byDialect = or_else (DECLARED cache ref) (\<lambda>_. None);
                  cache1 = cache\<lparr>DECLARED := (DECLARED cache)(ref := Some byDialect)\<rparr>
              in case byDialect dial of
                   Some syntax \<Rightarrow> (syntax, cache1)
                 | None \<Rightarrow>
                     (let syntax = applyDescriptor (objs ref) dial
                      in (syntax, cache1\<lparr>DECLARED := (DECLARED cache1)(ref := Some (byDialect(dial := Some syntax)))\<rparr>)))
         | _ \<Rightarrow> cachedPreset cache dial)"

text \<open>The syntax without the caches: what \<open>resolveSqlSyntax\<close> computes.\<close>

definition syntaxOf :: "(nat \<Rightarrow> SqlSyntaxDescriptor) \<Rightarrow> DriverRef \<Rightarrow> SqlSyntax" where
  "syntaxOf objs driver =
     (let caps = driver_caps driver; dial = Option.bind caps sql_dialect in
      case map_option sql_syntax caps of
        Some (SynObject ref) \<Rightarrow> applyDescriptor (objs ref) dial
      | _ \<Rightarrow> presetSyntax dial)"

definition syntaxKeywords :: "jsstring list \<Rightarrow> SqlSyntax \<Rightarrow> jsstring list" where
  "syntaxKeywords base syntax =
     (if syn_keywords syntax = [] \<and> syn_functions syntax = [] then base
      else base @ uniq_aux (set base) (syn_keywords syntax @ syn_functions syntax))"


section \<open>Checked quotes\<close>

definition quote_checked :: "QuoteRule \<Rightarrow> bool" where
  "quote_checked r \<longleftrightarrow> wf_quote r \<and> map_of QUOTE_CLOSE (q_open r) = Some (q_close r)
     \<and> (q_escape r = None \<or> q_escape r = Some [BSL])"

lemma parseQuote_checked:
  assumes "parseQuote item = Some r"
  shows "quote_checked r"
proof -
  from assms obtain opn cl where m: "map_of QUOTE_CLOSE opn = Some cl" "q_open r = opn" "q_close r = cl"
    and e: "q_escape r = None \<or> q_escape r = Some [BSL]"
    by (auto simp: parseQuote_def Let_def split: jsval.splits option.splits if_splits)
  from m(1) have "opn \<noteq> [] \<and> cl \<noteq> []" by (auto simp: QUOTE_CLOSE_def split: if_splits)
  with m e show ?thesis by (simp add: quote_checked_def wf_quote_def)
qed

definition quotes_checked :: "QuoteRule list \<Rightarrow> bool" where
  "quotes_checked rs \<longleftrightarrow> list_all quote_checked rs \<and> distinct (map q_open rs)"

lemma parseQuotes_loop_checked:
  "parseQuotes_loop rules items = Some rs \<Longrightarrow> quotes_checked rules \<Longrightarrow>
   quotes_checked rs \<and> length rs = length rules + length items"
proof (induction rules items rule: parseQuotes_loop.induct)
  case (2 rules item items)
  from "2.prems" obtain r where r: "parseQuote item = Some r" "\<not> list_ex (\<lambda>r'. q_open r' = q_open r) rules"
    "parseQuotes_loop (rules @ [r]) items = Some rs"
    by (auto split: option.splits if_splits)
  from r(2) "2.prems" parseQuote_checked [OF r(1)] have "quotes_checked (rules @ [r])"
    by (auto simp: quotes_checked_def list_ex_iff)
  with "2.IH" r show ?case by auto
qed simp

lemma parseQuotes_checked:
  "parseQuotes v = Some rs \<Longrightarrow> quotes_checked rs \<and> 0 < length rs \<and> length rs \<le> maxQuotes"
  using parseQuotes_loop_checked [of "[]" _ rs]
  by (cases v) (auto simp: parseQuotes_def quotes_checked_def split: if_splits)

lemma quotes_checked_wf: "quotes_checked rs \<Longrightarrow> list_all wf_quote rs"
  by (auto simp: quotes_checked_def quote_checked_def list_all_iff)

section \<open>Resolved syntaxes are well-formed\<close>

lemma wf_presetSyntax [simp]: "wf_options (options (presetSyntax name))"
  by (simp add: presetSyntax_def Let_def)

lemma wf_applyDescriptor [simp]: "wf_options (options (applyDescriptor desc d))"
proof -
  have "list_all wf_quote (or_else (parseQuotes (d_quotes desc)) qs)" if "list_all wf_quote qs" for qs
    using that parseQuotes_checked [of "d_quotes desc"] quotes_checked_wf
    by (cases "parseQuotes (d_quotes desc)") (auto simp: or_else_def)
  moreover have "list_all wf_quote (quotes (options (presetSyntax n)))" for n
    using wf_presetSyntax [of n] unfolding wf_options_def .
  ultimately show ?thesis by (simp add: applyDescriptor_def Let_def wf_options_def)
qed

lemma wf_syntaxOf [simp]: "wf_options (options (syntaxOf objs driver))"
  by (simp add: syntaxOf_def Let_def split: option.split SyntaxField.split)

text \<open>A resolved syntax as the splitter sees it.\<close>

definition as_input :: "SqlSyntax \<Rightarrow> DialectInput" where
  "as_input s = Resolved (SqlSyntaxSource.truncate s)"

lemma optionsFor_as_input [simp]: "optionsFor (as_input s) = options s"
  by (simp add: as_input_def SqlSyntaxSource.truncate_def)

lemma wf_as_input: "wf_options (options s) \<Longrightarrow> wf_input (as_input s)"
  by (simp add: as_input_def wf_input_def SqlSyntaxSource.truncate_def)

text \<open>A \<open>mysql\<close> base keeps backslashes escaped whatever the plugin declares.\<close>

lemma declaredStringEscape_mysql: "declaredStringEscape v SE_mysql \<noteq> SE_standard"
  by (simp add: declaredStringEscape_def)

lemma presetSyntax_mysql:
  "SqlSyntaxSource.dialect (presetSyntax name) = Some Mysql \<longleftrightarrow> stringEscape (presetSyntax name) = SE_mysql"
  by (simp add: presetSyntax_def Let_def)

lemma applyDescriptor_mysql:
  "SqlSyntaxSource.dialect (applyDescriptor desc d) = Some Mysql \<Longrightarrow>
   stringEscape (applyDescriptor desc d) \<noteq> SE_standard"
  using declaredStringEscape_mysql [of "d_string_escape desc"]
  by (auto simp: applyDescriptor_def Let_def presetSyntax_mysql)

section \<open>The caches are transparent\<close>

text \<open>
  A memo table run over a list of keys: the interface a caching function promises is that in a good
  cache it returns what the uncached function returns and leaves a good cache.
\<close>

fun memo_all :: "('c \<Rightarrow> 'k \<Rightarrow> 'v \<times> 'c) \<Rightarrow> 'c \<Rightarrow> 'k list \<Rightarrow> 'v list" where
  "memo_all run c [] = []"
| "memo_all run c (k # ks) = fst (run c k) # memo_all run (snd (run c k)) ks"

locale memo =
  fixes good :: "'c \<Rightarrow> bool"
    and run :: "'c \<Rightarrow> 'k \<Rightarrow> 'v \<times> 'c"
    and spec :: "'k \<Rightarrow> 'v"
  assumes run_spec: "good c \<Longrightarrow> fst (run c k) = spec k"
    and run_good: "good c \<Longrightarrow> good (snd (run c k))"
begin

lemma all_spec: "good c \<Longrightarrow> memo_all run c ks = map spec ks"
  by (induction ks arbitrary: c) (simp_all add: run_spec run_good)

end

definition good_cache :: "(nat \<Rightarrow> SqlSyntaxDescriptor) \<Rightarrow> SyntaxCache \<Rightarrow> bool" where
  "good_cache objs c \<longleftrightarrow> (\<forall>n s. PRESETS c n = Some s \<longrightarrow> s = presetSyntax n)
     \<and> (\<forall>r m d s. DECLARED c r = Some m \<longrightarrow> m d = Some s \<longrightarrow> s = applyDescriptor (objs r) d)"

lemma good_empty [simp]: "good_cache objs empty_cache"
  by (simp add: good_cache_def empty_cache_def)

lemma cachedPreset_good:
  "good_cache objs c \<Longrightarrow>
   fst (cachedPreset c n) = presetSyntax n \<and> good_cache objs (snd (cachedPreset c n))"
  by (auto simp: cachedPreset_def good_cache_def Let_def split: option.split)

lemma resolveSqlSyntax_good:
  assumes "good_cache objs c"
  shows "fst (resolveSqlSyntax objs c driver) = syntaxOf objs driver
    \<and> good_cache objs (snd (resolveSqlSyntax objs c driver))"
proof (cases "driver_caps driver")
  case None
  with cachedPreset_good [OF assms] show ?thesis by (simp add: resolveSqlSyntax_def syntaxOf_def Let_def)
next
  case (Some caps)
  show ?thesis
  proof (cases "sql_syntax caps")
    case (SynOther x)
    with Some cachedPreset_good [OF assms] show ?thesis
      by (simp add: resolveSqlSyntax_def syntaxOf_def Let_def)
  next
    case (SynObject r)
    with Some assms show ?thesis
      by (auto simp: resolveSqlSyntax_def syntaxOf_def Let_def good_cache_def or_else_def
            split: option.splits if_splits)
  qed
qed

interpretation syntax_memo: memo "good_cache objs" "resolveSqlSyntax objs" "syntaxOf objs" for objs
  by unfold_locales (simp_all add: resolveSqlSyntax_good)

text \<open>Property (resolveSqlSyntax_cached): whatever sequence of drivers is resolved from a fresh start, each gets
  the syntax of its own capabilities: the preset and descriptor caches never hand a driver a syntax
  computed for another one (or for another \<open>sql_dialect\<close> of the same descriptor object).\<close>

theorem resolveSqlSyntax_cached:
  "memo_all (resolveSqlSyntax objs) empty_cache drivers = map (syntaxOf objs) drivers"
  by (rule syntax_memo.all_spec) simp

section \<open>Autocomplete words\<close>

lemma word_rest_words: "word_rest w \<Longrightarrow> \<forall>c \<in> set w. is_ident_char c \<or> c \<in> {CHR ''$'', CHR ''.'', SP}"
  by (induction w) auto

lemma parseWords_ok:
  "parseWords v = Some ws \<Longrightarrow> distinct ws \<and> list_all (\<lambda>w. isValidSyntaxWord (JStr w)) ws \<and> length ws \<le> maxWords"
proof (cases v)
  case (JArr items)
  assume p: "parseWords v = Some ws"
  let ?f = "\<lambda>i. case i of JStr s \<Rightarrow> s | _ \<Rightarrow> []"
  from p JArr have v: "list_all isValidSyntaxWord items" "length items \<le> maxWords" "ws = uniq (map ?f items)"
    by (auto simp: parseWords_def split: if_splits)
  have "isValidSyntaxWord (JStr (?f i))" if "i \<in> set items" for i
  proof -
    from that v(1) have "isValidSyntaxWord i" by (simp add: list_all_iff)
    then show ?thesis by (cases i) (simp_all add: isValidSyntaxWord_def)
  qed
  then have "list_all (\<lambda>w. isValidSyntaxWord (JStr w)) ws" using v(3) by (auto simp: list_all_iff)
  moreover have "length ws \<le> length items"
  proof -
    have "length ws = card (set (map ?f items))"
      unfolding v(3) using distinct_card [OF distinct_uniq, of "map ?f items"] by simp
    also have "\<dots> \<le> length items" using card_length [of "map ?f items"] by simp
    finally show ?thesis .
  qed
  ultimately show ?thesis using v by simp
qed (simp_all add: parseWords_def)

text \<open>Property (syntaxKeywords_extends): the completion list is the shared base list, untouched, followed by
  exactly the declared words that are not in it, each once.\<close>

theorem syntaxKeywords_extends:
  "\<exists>extra. syntaxKeywords base syntax = base @ extra \<and> distinct extra
     \<and> set extra = (set (syn_keywords syntax) \<union> set (syn_functions syntax)) - set base"
  by (cases "syn_keywords syntax = [] \<and> syn_functions syntax = []")
     (auto simp: syntaxKeywords_def set_uniq_aux distinct_uniq_aux)

end
