(* ===== verification/SqlLiteral.thy ===== *)
theory SqlLiteral
  imports SqlSyntax Tokenizer
begin

text \<open>
  Generated literals (\<open>utils/sqlLiteral.ts\<close>): which escape style a driver gets, the boolean literals,
  and the quoting of string values. A global single-character \<open>replace\<close> is \<open>replace_char\<close>. The lemmas
  show that the tokenizer reads a quoted value back as one string token, whatever the value, so a
  value can never leak out of its literal, and that quoting is injective.
\<close>

text \<open>The argument of the helpers: an id, a manifest (its \<open>id\<close> and \<open>capabilities\<close>), bare capabilities.\<close>

datatype DriverArg =
    ArgNone
  | ArgId jsstring
  | ArgManifest "jsstring option" "DriverCapabilities option"
  | ArgCaps DriverCapabilities

fun arg_ref :: "DriverArg \<Rightarrow> DriverRef option" where
  "arg_ref ArgNone = None"
| "arg_ref (ArgId _) = None"
| "arg_ref (ArgManifest _ caps) = Some (Manifest caps)"
| "arg_ref (ArgCaps caps) = Some (Caps caps)"

definition MYSQL_ESCAPE_DRIVER_IDS :: "jsstring list" where
  "MYSQL_ESCAPE_DRIVER_IDS = [''mysql'', ''mariadb'']"

definition escapeById :: "jsstring option \<Rightarrow> StringEscapeStyle" where
  "escapeById driverId =
     (case driverId of None \<Rightarrow> SE_standard
      | Some i \<Rightarrow> (if i \<noteq> [] \<and> i \<in> set MYSQL_ESCAPE_DRIVER_IDS then SE_mysql else SE_standard))"

fun syntax_truthy :: "SyntaxField \<Rightarrow> bool" where
  "syntax_truthy (SynOther v) = truthy v"
| "syntax_truthy (SynObject _) = True"

definition capsDeclared :: "DriverCapabilities option \<Rightarrow> bool" where
  "capsDeclared caps =
     (case caps of None \<Rightarrow> False
      | Some c \<Rightarrow> syntax_truthy (sql_syntax c)
          \<or> (case sql_dialect c of None \<Rightarrow> False | Some d \<Rightarrow> d \<noteq> [] \<and> d \<noteq> ''generic''))"

definition stringEscapeStyle ::
  "(nat \<Rightarrow> SqlSyntaxDescriptor) \<Rightarrow> DriverArg \<Rightarrow> jsstring option \<Rightarrow> StringEscapeStyle" where
  "stringEscapeStyle objs driver driverId =
     (case driver of
        ArgId i \<Rightarrow> escapeById (Some i)
      | ArgNone \<Rightarrow> escapeById driverId
      | ArgManifest mid caps \<Rightarrow>
          if capsDeclared caps then stringEscape (syntaxOf objs (case caps of Some c \<Rightarrow> Caps c | None \<Rightarrow> NoDriver))
          else escapeById (case driverId of Some i \<Rightarrow> Some i | None \<Rightarrow> mid)
      | ArgCaps c \<Rightarrow>
          if capsDeclared (Some c) then stringEscape (syntaxOf objs (Caps c))
          else escapeById (case driverId of Some i \<Rightarrow> Some i | None \<Rightarrow> None))"

definition supportsLikeEscape :: "(nat \<Rightarrow> SqlSyntaxDescriptor) \<Rightarrow> DriverArg \<Rightarrow> bool" where
  "supportsLikeEscape objs driver =
     (case arg_ref driver of None \<Rightarrow> True | Some r \<Rightarrow> likeEscape (syntaxOf objs r))"

definition declaredBooleanLiterals ::
  "(nat \<Rightarrow> SqlSyntaxDescriptor) \<Rightarrow> DriverArg \<Rightarrow> BooleanLiteralStyle option" where
  "declaredBooleanLiterals objs driver =
     (case arg_ref driver of None \<Rightarrow> None | Some r \<Rightarrow> booleanLiterals (syntaxOf objs r))"

definition booleanLiteralWithStyle :: "bool \<Rightarrow> BooleanLiteralStyle \<Rightarrow> jsstring" where
  "booleanLiteralWithStyle v style =
     (if style = BL_numeric then (if v then ''1'' else ''0'') else (if v then ''TRUE'' else ''FALSE''))"

definition sqlBooleanLiteral :: "(nat \<Rightarrow> SqlSyntaxDescriptor) \<Rightarrow> bool \<Rightarrow> DriverArg \<Rightarrow> jsstring" where
  "sqlBooleanLiteral objs v driver =
     booleanLiteralWithStyle v (or_else (declaredBooleanLiterals objs driver) BL_keywords)"

section \<open>Quoting\<close>

definition replace_char :: "char \<Rightarrow> jsstring \<Rightarrow> jsstring \<Rightarrow> jsstring" where
  "replace_char c t s = concat (map (\<lambda>x. if x = c then t else [x]) s)"

definition escapeBackslashString :: "jsstring \<Rightarrow> jsstring" where
  "escapeBackslashString v =
     replace_char CR [BSL, CHR ''r'']
       (replace_char NL [BSL, CHR ''n'']
         (replace_char NUL [BSL, CHR ''0'']
           (concat (map (\<lambda>c. if c = BSL \<or> c = SQ then [BSL, c] else [c]) v))))"

fun escapeString :: "StringEscapeStyle \<Rightarrow> jsstring \<Rightarrow> jsstring" where
  "escapeString SE_backslash v = escapeBackslashString v"
| "escapeString SE_mysql v =
     replace_char NUL [BSL, CHR ''0''] (replace_char SQ [SQ, SQ] (replace_char BSL [BSL, BSL] v))"
| "escapeString SE_standard v = replace_char SQ [SQ, SQ] v"

definition quoteSqlStringWithStyle :: "jsstring \<Rightarrow> StringEscapeStyle \<Rightarrow> jsstring" where
  "quoteSqlStringWithStyle v style = [SQ] @ escapeString style v @ [SQ]"

definition quoteSqlString :: "(nat \<Rightarrow> SqlSyntaxDescriptor) \<Rightarrow> jsstring \<Rightarrow> DriverArg \<Rightarrow> jsstring" where
  "quoteSqlString objs v driver = quoteSqlStringWithStyle v (stringEscapeStyle objs driver None)"

section \<open>Escaping is one code word per character\<close>

fun escape1 :: "StringEscapeStyle \<Rightarrow> char \<Rightarrow> jsstring" where
  "escape1 SE_backslash c =
     (if c = BSL \<or> c = SQ then [BSL, c] else if c = NUL then [BSL, CHR ''0'']
      else if c = NL then [BSL, CHR ''n''] else if c = CR then [BSL, CHR ''r''] else [c])"
| "escape1 SE_mysql c =
     (if c = BSL then [BSL, BSL] else if c = SQ then [SQ, SQ]
      else if c = NUL then [BSL, CHR ''0''] else [c])"
| "escape1 SE_standard c = (if c = SQ then [SQ, SQ] else [c])"

lemma replace_char_concat_map:
  "replace_char c t (concat (map f s)) = concat (map (\<lambda>x. replace_char c t (f x)) s)"
  by (induction s) (simp_all add: replace_char_def)

lemma escapeString_code: "escapeString style v = concat (map (escape1 style) v)"
proof (cases style)
  case SE_standard
  then show ?thesis by (auto simp: replace_char_def intro!: arg_cong [where f = concat] map_cong)
next
  case SE_mysql
  have e: "(\<lambda>x. replace_char NUL [BSL, CHR ''0''] (replace_char SQ [SQ, SQ] (if x = BSL then [BSL, BSL] else [x])))
     = escape1 SE_mysql"
    by (rule ext) (simp add: replace_char_def)
  show ?thesis
    unfolding SE_mysql escapeString.simps replace_char_def [of BSL] replace_char_concat_map e ..
next
  case SE_backslash
  have e: "(\<lambda>x. replace_char CR [BSL, CHR ''r''] (replace_char NL [BSL, CHR ''n'']
      (replace_char NUL [BSL, CHR ''0''] (if x = BSL \<or> x = SQ then [BSL, x] else [x]))))
     = escape1 SE_backslash"
    by (rule ext) (simp add: replace_char_def)
  show ?thesis
    unfolding SE_backslash escapeString.simps escapeBackslashString_def replace_char_concat_map e ..
qed

lemma escape1_not_Nil [simp]: "escape1 style c \<noteq> []"
  by (cases style) simp_all

text \<open>The code is prefix-free, so it can be read back.\<close>

lemma escape1_prefix_free: "escape1 style c @ xs = escape1 style d @ ys \<Longrightarrow> c = d \<and> xs = ys"
  by (cases style) (auto split: if_splits)

lemma escapeString_inj: "escapeString style v = escapeString style w \<Longrightarrow> v = w"
proof (induction v arbitrary: w)
  case Nil
  then show ?case by (cases w) (simp_all add: escapeString_code)
next
  case (Cons c v)
  then show ?case
    by (cases w) (auto simp: escapeString_code dest!: escape1_prefix_free)
qed

text \<open>Property (quoteSqlString_injective): two different values are never written as the same literal.\<close>

theorem quoteSqlString_injective:
  "quoteSqlStringWithStyle v style = quoteSqlStringWithStyle w style \<longleftrightarrow> v = w"
  by (auto simp: quoteSqlStringWithStyle_def dest: escapeString_inj)

section \<open>The tokenizer reads a literal back as one string\<close>

text \<open>What the body of a quoted run may consist of, for a rule closed by the character \<open>k\<close>.\<close>

definition body_unit :: "char \<Rightarrow> QuoteRule \<Rightarrow> jsstring \<Rightarrow> bool" where
  "body_unit k rule u \<longleftrightarrow>
     (\<exists>c. u = [c] \<and> c \<noteq> k \<and> Some [c] \<noteq> q_escape rule)
     \<or> (u = [k, k] \<and> q_doubleClose rule)
     \<or> (\<exists>e d. u = [e, d] \<and> q_escape rule = Some [e])"

lemma nth_append_mid [simp]: "(xs @ y # ys) ! length xs = y"
  by simp

lemma scanQuoted_loop_body:
  assumes "q_close rule = [k]" "q_escape rule \<noteq> Some [k]"
    and "list_all (body_unit k rule) us" "q_doubleClose rule \<longrightarrow> \<not> prefix [k] rest"
    and "length (concat us) < fuel"
  shows "scanQuoted_loop fuel (pre @ concat us @ k # rest) start rule (length pre)
     = Some (mkToken StringTok (length pre + length (concat us) + 1 - start))"
  using assms(3,5)
proof (induction us arbitrary: fuel pre)
  case Nil
  then obtain f where f: "fuel = Suc f" by (cases fuel) auto
  have "\<not> starts_at (pre @ k # rest) [k] (length pre + 1)" if "q_doubleClose rule"
    using that assms(4) by (auto simp: starts_at_iff_prefix)
  moreover have "starts_at (pre @ k # rest) [k] (length pre)" by (simp add: starts_at_def)
  ultimately show ?case using assms(1,2) f by (auto simp: eq_commute)
next
  case (Cons u us)
  then obtain f where f: "fuel = Suc f" by (cases fuel) auto
  let ?s = "pre @ concat (u # us) @ k # rest"
  have next_: "scanQuoted_loop f ?s start rule (length (pre @ u))
      = Some (mkToken StringTok (length (pre @ u) + length (concat us) + 1 - start))"
    if "length (concat us) < f" using Cons.IH [of f "pre @ u"] Cons.prems that by simp
  from Cons.prems have "body_unit k rule u" by simp
  then consider (one) c where "u = [c]" "c \<noteq> k" "Some [c] \<noteq> q_escape rule"
    | (two) "u = [k, k]" "q_doubleClose rule"
    | (esc) e d where "u = [e, d]" "q_escape rule = Some [e]"
    unfolding body_unit_def by blast
  then show ?case
  proof cases
    case one
    have "\<not> starts_at ?s [k] (length pre)" using one by (simp add: starts_at_def)
    with one f assms(1) next_ Cons.prems show ?thesis by auto
  next
    case two
    have "starts_at ?s [k] (length pre)" "starts_at ?s [k] (Suc (length pre))"
      using two by (simp_all add: starts_at_def)
    with two f assms(1,2) next_ Cons.prems show ?thesis by (auto simp: eq_commute)
  next
    case esc
    with f next_ Cons.prems show ?thesis by auto
  qed
qed

text \<open>When a syntax's quote rules read the literals its escape style writes.\<close>

fun literal_rule :: "StringEscapeStyle \<Rightarrow> QuoteRule \<Rightarrow> bool" where
  "literal_rule SE_standard r \<longleftrightarrow> q_close r = [SQ] \<and> q_doubleClose r \<and> q_escape r = None"
| "literal_rule SE_mysql r \<longleftrightarrow> q_close r = [SQ] \<and> q_doubleClose r \<and> q_escape r = Some [BSL]"
| "literal_rule SE_backslash r \<longleftrightarrow> q_close r = [SQ] \<and> q_escape r = Some [BSL]"

definition literals_readable :: "DialectOptions \<Rightarrow> StringEscapeStyle \<Rightarrow> bool" where
  "literals_readable opts style \<longleftrightarrow>
     (case find (\<lambda>r. q_open r = [SQ]) (quotes opts) of
        None \<Rightarrow> False | Some r \<Rightarrow> literal_rule style r)
     \<and> list_all (\<lambda>r. length (q_open r) = 1) (quotes opts)
     \<and> list_all (list_all is_alpha) (stringPrefixes opts)
     \<and> (tripleQuotedStrings opts \<longrightarrow> style = SE_backslash)"

lemma escape1_body_unit: "literal_rule style r \<Longrightarrow> body_unit SQ r (escape1 style c)"
  by (cases style) (auto simp: body_unit_def)

lemma scanQuoted_literal:
  assumes "literal_rule style r" "q_open r = [SQ]" "\<not> prefix [SQ] rest"
  shows "scanQuoted (pre @ quoteSqlStringWithStyle v style @ rest) (length pre) r
     = Some (mkToken StringTok (length (quoteSqlStringWithStyle v style)))"
proof -
  let ?us = "map (escape1 style) v"
  have r: "q_close r = [SQ]" "q_escape r \<noteq> Some [SQ]" using assms(1) by (cases style; simp)+
  have us: "list_all (body_unit SQ r) ?us" using escape1_body_unit [OF assms(1)] by (simp add: list_all_iff)
  have q: "pre @ quoteSqlStringWithStyle v style @ rest = (pre @ [SQ]) @ concat ?us @ SQ # rest"
    by (simp add: quoteSqlStringWithStyle_def escapeString_code)
  have l: "length (quoteSqlStringWithStyle v style) = length (concat ?us) + 2"
    by (simp add: quoteSqlStringWithStyle_def escapeString_code)
  have p: "length pre + length (q_open r) = length (pre @ [SQ])" using assms(2) by simp
  show ?thesis
    unfolding scanQuoted_def q l p
    by (subst scanQuoted_loop_body [OF r us]) (use assms(3) in simp_all)
qed

lemma lower_char_SQ [simp]: "lower_char SQ = SQ"
  by (simp add: lower_char_def code_of_def)

lemma matchStringPrefix_quote:
  assumes "list_all (list_all is_alpha) ps"
  shows "matchStringPrefix (pre @ SQ # s) (length pre) ps = 0"
proof -
  have "lower (slice (pre @ SQ # s) (length pre) (length pre + length p)) \<noteq> p"
    if "p \<in> set ps" "p \<noteq> []" for p
  proof -
    from that(2) obtain a p' where p: "p = a # p'" by (cases p) auto
    with that(1) assms have "is_alpha a" by (auto simp: list_all_iff)
    then have "a \<noteq> SQ" by (auto simp: is_alpha_def code_of_def)
    then show ?thesis by (simp add: slice_def p lower_def)
  qed
  then have "foldl (\<lambda>longest p. if length p > longest
       \<and> lower (slice (pre @ SQ # s) (length pre) (length pre + length p)) = p
       then length p else longest) 0 ps = 0"
    by (induction ps) auto
  then show ?thesis by (simp add: matchStringPrefix_def)
qed

lemma find_open_quote:
  assumes "list_all (\<lambda>r. length (q_open r) = 1) qs"
  shows "find (\<lambda>r. starts_at (pre @ q # s) (q_open r) (length pre)) qs = find (\<lambda>r. q_open r = [q]) qs"
  using assms
proof (induction qs)
  case (Cons r qs)
  then obtain c where "q_open r = [c]" by (auto simp: length_Suc_conv)
  with Cons show ?case by (auto simp: starts_at_def)
qed simp

lemma backslash_no_triple:
  assumes "\<not> prefix [SQ] rest"
  shows "\<not> starts_at (pre @ quoteSqlStringWithStyle v SE_backslash @ rest) [SQ, SQ, SQ] (length pre)"
proof (cases v)
  case Nil
  with assms show ?thesis
    by (auto simp: starts_at_iff_prefix quoteSqlStringWithStyle_def escapeString_code)
next
  case (Cons c v')
  then show ?thesis
    by (auto simp: starts_at_iff_prefix quoteSqlStringWithStyle_def escapeString_code split: if_splits)
qed

lemma scanPrefixed_literal:
  assumes "literals_readable opts style" "\<not> prefix [SQ] rest"
  shows "scanPrefixedOrTripleString (pre @ quoteSqlStringWithStyle v style @ rest) (length pre) opts = Some None"
proof -
  let ?s = "pre @ quoteSqlStringWithStyle v style @ rest"
  have s: "?s = pre @ SQ # (escapeString style v @ SQ # rest)" by (simp add: quoteSqlStringWithStyle_def)
  have m: "matchStringPrefix ?s (length pre) (stringPrefixes opts) = 0"
    unfolding s by (rule matchStringPrefix_quote) (use assms(1) in \<open>simp add: literals_readable_def\<close>)
  have t: "\<not> starts_at ?s (concat (replicate 3 [SQ])) (length pre)" if "tripleQuotedStrings opts"
    using that assms backslash_no_triple by (simp add: literals_readable_def numeral_3_eq_3)
  have o: "q_open r = [SQ]"
    if "find (\<lambda>q. q_kind q = QString \<and> length (q_open q) = 1 \<and> q_open q = q_close q
          \<and> starts_at ?s (q_open q) (length pre)) (quotes opts) = Some r" for r
    using that unfolding find_Some_iff s by (auto simp: length_Suc_conv starts_at_def)
  let ?find = "find (\<lambda>q. q_kind q = QString \<and> length (q_open q) = 1 \<and> q_open q = q_close q
    \<and> starts_at ?s (q_open q) (length pre)) (quotes opts)"
  show ?thesis
  proof (cases ?find)
    case None
    then show ?thesis unfolding scanPrefixedOrTripleString_def Let_def m by simp
  next
    case (Some r)
    have "\<not> (tripleQuotedStrings opts \<and> starts_at ?s (concat (replicate 3 (q_open r))) (length pre))"
      unfolding o [OF Some] using t by blast
    with Some show ?thesis unfolding scanPrefixedOrTripleString_def Let_def m by simp
  qed
qed

lemma scanComment_quote: "scanComment (pre @ SQ # s) (length pre) opts = None"
  by (simp add: scanComment_def char_at_def)

lemma scanToken_literal:
  assumes "literals_readable opts style" "\<not> prefix [SQ] rest" "\<not> prefix [SQ] (delimiter state)"
  shows "scanToken (pre @ quoteSqlStringWithStyle v style @ rest) (length pre) opts state
     = Some (Some (mkToken StringTok (length (quoteSqlStringWithStyle v style))))"
proof -
  let ?s = "pre @ quoteSqlStringWithStyle v style @ rest"
  have s: "?s = pre @ SQ # (escapeString style v @ SQ # rest)" by (simp add: quoteSqlStringWithStyle_def)
  obtain r where r: "find (\<lambda>r. q_open r = [SQ]) (quotes opts) = Some r" "literal_rule style r"
    using assms(1) by (auto simp: literals_readable_def split: option.splits)
  then have o: "q_open r = [SQ]" by (auto simp: find_Some_iff)
  have f: "find (\<lambda>rule. starts_at ?s (q_open rule) (length pre)) (quotes opts) = Some r"
    unfolding s r(1) [symmetric]
    by (rule find_open_quote) (use assms(1) in \<open>simp add: literals_readable_def\<close>)
  have d: "\<not> (length (delimiter state) > 0 \<and> starts_at ?s (delimiter state) (length pre))"
    using assms(3) by (cases "delimiter state") (auto simp: starts_at_def quoteSqlStringWithStyle_def)
  have c: "?s ! length pre = SQ" "\<not> length ?s \<le> length pre" unfolding s by simp_all
  have k: "scanComment ?s (length pre) opts = None" unfolding s by (rule scanComment_quote)
  show ?thesis
    unfolding scanToken_def Let_def c(1) k f
      if_not_P [OF d] if_not_P [OF c(2)] scanPrefixed_literal [OF assms(1,2)]
    by (simp add: scanQuoted_literal [OF r(2) o assms(2)])
qed

lemma presets_readable: "literals_readable (options (presetSyntax name)) (stringEscape (presetSyntax name))"
proof (cases "isDialect name")
  case None
  then show ?thesis
    by (cases name) (simp_all add: presetSyntax_def Let_def normalizeDialect_def option_defs literals_readable_def)
next
  case (Some d)
  then obtain n where "name = Some n" by (cases name) auto
  with Some show ?thesis
    by (cases d) (simp_all add: presetSyntax_def Let_def normalizeDialect_def option_defs literals_readable_def)
qed

text \<open>Property (preset_literal_is_one_token): on every built-in dialect, in any script and in any scanner state
  whose statement delimiter does not itself start with a quote, a value of any content, quoted in the
  dialect's own style, is scanned back as exactly one string token that ends where the literal ends.
  Nothing of the value leaks into the statement.\<close>

theorem preset_literal_is_one_token:
  assumes "\<not> prefix [SQ] rest" "\<not> prefix [SQ] (delimiter state)"
  shows "scanToken (pre @ quoteSqlStringWithStyle v (stringEscape (presetSyntax name)) @ rest) (length pre)
       (options (presetSyntax name)) state
     = Some (Some (mkToken StringTok (length (quoteSqlStringWithStyle v (stringEscape (presetSyntax name))))))"
  by (rule scanToken_literal [OF presets_readable assms])

lemma preset_literal_is_one_token_witness:
  "scanToken (''SELECT '' @ quoteSqlStringWithStyle [SQ, BSL] (stringEscape (presetSyntax (Some ''mysql''))) @ '';'')
     (length ''SELECT '') (options (presetSyntax (Some ''mysql''))) \<lparr>delimiter = '';'', lineLeading = False\<rparr>
   = Some (Some (mkToken StringTok (length (quoteSqlStringWithStyle [SQ, BSL] (stringEscape (presetSyntax (Some ''mysql'')))))))"
  by (rule preset_literal_is_one_token) simp_all

lemma QUOTE_CLOSE_open:
  "map_of QUOTE_CLOSE opn = Some cl \<Longrightarrow> length opn = 1 \<and> (opn = [SQ] \<longrightarrow> cl = [SQ])"
  by (simp add: QUOTE_CLOSE_def split: if_splits) auto

lemma quote_checked_open:
  "quote_checked r \<Longrightarrow> length (q_open r) = 1 \<and> (q_open r = [SQ] \<longrightarrow> q_close r = [SQ])"
  using QUOTE_CLOSE_open [of "q_open r" "q_close r"] by (simp add: quote_checked_def)

section \<open>Declared syntaxes\<close>

lemma parsePrefixes_loop_alpha:
  "parsePrefixes_loop acc items = Some ps \<Longrightarrow> list_all (list_all is_alpha) acc \<Longrightarrow>
   list_all (list_all is_alpha) ps"
proof (induction acc items rule: parsePrefixes_loop.induct)
  case (2 acc item items)
  from "2.prems"(1) obtain s where s: "item = JStr s" "list_all is_alpha s"
    "parsePrefixes_loop (if lower s \<in> set acc then acc else acc @ [lower s]) items = Some ps"
    "\<not> (length s > maxStringPrefixLength \<or> \<not> (s \<noteq> [] \<and> list_all is_alpha s))"
    by (auto split: jsval.splits if_splits)
  have "is_alpha (lower_char c)" if "is_alpha c" for c
    using that by (auto simp: is_alpha_def lower_char_def code_of_def Let_def)
  with s(2) have "list_all is_alpha (lower s)" by (auto simp: lower_def list_all_iff)
  with "2.IH" [OF s(1) s(4)] s(3) "2.prems"(2) show ?case by auto
qed simp

lemma parseStringPrefixes_alpha:
  "parseStringPrefixes v = Some ps \<Longrightarrow> list_all (list_all is_alpha) ps"
  using parsePrefixes_loop_alpha [of "[]" _ ps]
  by (auto simp: parseStringPrefixes_def split: jsval.splits if_splits)

definition lexable :: "DialectOptions \<Rightarrow> bool" where
  "lexable opts \<longleftrightarrow> list_all (\<lambda>r. length (q_open r) = 1) (quotes opts)
     \<and> list_all (list_all is_alpha) (stringPrefixes opts)"

lemma lexable_preset: "lexable (options (presetSyntax name))"
  using presets_readable [of name] by (simp add: lexable_def literals_readable_def)

lemma lexable_applyDescriptor: "lexable (options (applyDescriptor desc d))"
proof -
  have q: "list_all (\<lambda>r. length (q_open r) = 1) (or_else (parseQuotes v) qs)"
    if "list_all (\<lambda>r. length (q_open r) = 1) qs" for v qs
    using that parseQuotes_checked [of v] quote_checked_open
    by (cases "parseQuotes v") (auto simp: or_else_def quotes_checked_def list_all_iff)
  have p: "list_all (list_all is_alpha) (or_else (parseStringPrefixes v) ps)"
    if "list_all (list_all is_alpha) ps" for v ps
    using that parseStringPrefixes_alpha [of v] by (cases "parseStringPrefixes v") (auto simp: or_else_def)
  show ?thesis using lexable_preset q p
    by (simp add: applyDescriptor_def Let_def lexable_def)
qed

lemma lexable_syntaxOf: "lexable (options (syntaxOf objs driver))"
  by (simp add: syntaxOf_def Let_def lexable_preset lexable_applyDescriptor
      split: option.split SyntaxField.split)

text \<open>The declaration a plugin has to get right: its single-quote rule reads what its escape style
  writes, and triple quoting is only combined with backslash escapes.\<close>

definition literals_declared :: "SqlSyntax \<Rightarrow> bool" where
  "literals_declared s \<longleftrightarrow>
     (case find (\<lambda>r. q_open r = [SQ]) (quotes (options s)) of
        None \<Rightarrow> False | Some r \<Rightarrow> literal_rule (stringEscape s) r)
     \<and> (tripleQuotedStrings (options s) \<longrightarrow> stringEscape s = SE_backslash)"


text \<open>A GoogleSQL-like manifest: backslash-escaped strings, triple quotes, \<open>r\<close> and \<open>b\<close> prefixes.\<close>

definition googlesql :: SqlSyntaxDescriptor where
  "googlesql = \<lparr>d_extends = JStr ''generic'',
     d_quotes = JArr [JObj [(''open'', JStr [SQ]), (''kind'', JStr ''string''), (''escape'', JStr ''backslash'')],
       JObj [(''open'', JStr [BTICK]), (''kind'', JStr ''identifier''), (''escape'', JStr ''backslash'')]],
     d_triple_quoted_strings = JBool True, d_string_prefixes = JArr [JStr ''r'', JStr ''b'', JStr ''rb''],
     d_hash_comments = JBool True, d_nested_block_comments = JUndefined,
     d_line_comment_requires_space = JUndefined, d_script_blocks = JBool True, d_dollar_quoting = JUndefined,
     d_string_escape = JStr ''backslash'', d_like_escape = JBool False, d_boolean_literals = JUndefined,
     d_formatter = JStr ''bigquery'', d_keywords = JArr [JStr ''QUALIFY''], d_functions = JUndefined\<rparr>"


section \<open>Which style a driver gets\<close>

text \<open>Property (mysql_literals_escape_backslashes): a driver that resolves to the \<open>mysql\<close> dialect never writes
  literals with backslashes left as they are, whatever \<open>string_escape\<close> its manifest declares.\<close>

theorem mysql_literals_escape_backslashes:
  assumes "SqlSyntaxSource.dialect (syntaxOf objs (Caps caps)) = Some Mysql"
  shows "stringEscapeStyle objs (ArgCaps caps) driverId \<noteq> SE_standard"
proof -
  have "stringEscape (syntaxOf objs (Caps caps)) \<noteq> SE_standard"
    using assms applyDescriptor_mysql presetSyntax_mysql
    by (auto simp: syntaxOf_def Let_def split: SyntaxField.splits)
  moreover have "capsDeclared (Some caps)"
  proof (cases "sql_syntax caps")
    case (SynOther v)
    with assms have "isDialect (sql_dialect caps) = Some Mysql"
      by (simp add: syntaxOf_def Let_def presetSyntax_def)
    then have "sql_dialect caps = Some ''mysql''"
      by (cases "sql_dialect caps") (auto simp: isDialect_def DIALECT_TABLE_def split: if_splits)
    then show ?thesis by (simp add: capsDeclared_def)
  qed (simp add: capsDeclared_def)
  ultimately show ?thesis by (simp add: stringEscapeStyle_def)
qed

lemma mysql_literals_escape_backslashes_witness:
  "stringEscapeStyle (\<lambda>_. googlesql\<lparr>d_extends := JStr ''mysql'', d_string_escape := JStr ''standard''\<rparr>)
     (ArgCaps \<lparr>sql_dialect = None, sql_syntax = SynObject 0, identifier_quote = None\<rparr>) None \<noteq> SE_standard"
  by (rule mysql_literals_escape_backslashes) code_simp

end
