(* ===== verification/TokenKinds.thy ===== *)
theory TokenKinds
  imports TokenLoop
begin

text \<open>
  What a token's kind says about the source: which scanner it came from, how long a block comment is,
  what an end-of-line token covers. Shared by the clients of the token loop.
\<close>

named_theorems token_kinds \<open>the kinds a scanner can return\<close>

lemma scanQuoted_loop_kind: "scanQuoted_loop fuel s st r p = Some t \<Longrightarrow> kind t = StringTok"
  by (induction fuel s st r p rule: scanQuoted_loop.induct) (auto split: if_splits)

lemma scanQuoted_kind [token_kinds]: "scanQuoted s p r = Some t \<Longrightarrow> kind t = StringTok"
  unfolding scanQuoted_def by (rule scanQuoted_loop_kind)

lemma scanEString_loop_kind: "kind (scanEString_loop s st p) = StringTok"
  by (induction s st p rule: scanEString_loop.induct) (subst scanEString_loop.simps, auto)

lemma scanEString_kind [simp]: "kind (scanEString s p) = StringTok"
  by (simp add: scanEString_def scanEString_loop_kind)

lemma dollarQuoted_loop_kind: "kind (dollarQuoted_loop s st tag p) = StringTok"
  by (induction s st tag p rule: dollarQuoted_loop.induct) (subst dollarQuoted_loop.simps, auto)

lemma scanDollarQuoted_kind [token_kinds]: "scanDollarQuoted s p = Some t \<Longrightarrow> kind t = StringTok"
  by (auto simp: scanDollarQuoted_def dollarQuoted_loop_kind split: if_splits option.splits)

lemma triple_loop_kind: "kind (triple_loop s st r tr p) = StringTok"
  by (induction s st r tr p rule: triple_loop.induct) (subst triple_loop.simps, auto)

lemma scanPrefixed_kind [token_kinds]:
  "scanPrefixedOrTripleString s p opts = Some (Some t) \<Longrightarrow> kind t = StringTok"
  by (auto simp: scanPrefixedOrTripleString_def Let_def triple_loop_kind split: if_splits option.splits)

lemma qQuoted_loop_kind: "kind (qQuoted_loop s st c p) = StringTok"
  by (induction s st c p rule: qQuoted_loop.induct) (subst qQuoted_loop.simps, auto)

lemma scanQQuoted_kind [token_kinds]: "scanQQuoted s p = Some t \<Longrightarrow> kind t = StringTok"
  by (auto simp: scanQQuoted_def Let_def qQuoted_loop_kind split: if_splits option.splits)

lemma scanLineDirective_kind [token_kinds]:
  "scanLineDirective s p opts = Some t \<Longrightarrow> kind t = SetDelimiter \<or> kind t = GoDelimiter \<or> kind t = SlashDelimiter"
  by (auto simp: scanLineDirective_def readCustomDelimiter_def readGoDelimiter_def readSlashDelimiter_def
      Let_def split: if_splits option.splits)

text \<open>
  \<open>scanToken\<close> is a cascade of scanners. A property that no scanner's token has is refuted for the whole
  cascade branch by branch, with one rule per shape of branch.
\<close>

definition maybe :: "(Token \<Rightarrow> bool) \<Rightarrow> Token option option \<Rightarrow> bool" where
  "maybe P r \<longleftrightarrow> (\<exists>t. r = Some (Some t) \<and> P t)"

lemma maybe_simps [simp]:
  "\<not> maybe P None" "\<not> maybe P (Some None)" "maybe P (Some (Some t)) \<longleftrightarrow> P t"
  by (simp_all add: maybe_def)

lemma not_maybe_if:
  "(b \<Longrightarrow> \<not> maybe P x) \<Longrightarrow> \<not> maybe P y \<Longrightarrow> \<not> maybe P (if b then x else y)"
  by simp

lemma not_maybe_scan:
  "(\<And>t. m = Some t \<Longrightarrow> \<not> P t) \<Longrightarrow> \<not> maybe P z \<Longrightarrow>
   \<not> maybe P (case (if b then m else None) of None \<Rightarrow> z | Some t \<Rightarrow> Some (Some t))"
  by (cases m) simp_all

lemma not_maybe_comment:
  "(\<And>t. m = Some t \<Longrightarrow> \<not> P t) \<Longrightarrow> \<not> maybe P z \<Longrightarrow>
   \<not> maybe P (case m of None \<Rightarrow> z | Some t \<Rightarrow> Some (Some t))"
  by (cases m) simp_all

lemma not_maybe_scan2:
  "(\<And>t. m = Some (Some t) \<Longrightarrow> \<not> P t) \<Longrightarrow> \<not> maybe P z \<Longrightarrow>
   \<not> maybe P (case (if b then m else Some None) of
       None \<Rightarrow> None | Some None \<Rightarrow> z | Some (Some t) \<Rightarrow> Some (Some t))"
  by (cases m) (auto split: option.split)

lemma not_maybe_find:
  "(\<And>r. \<not> maybe P (f r)) \<Longrightarrow> \<not> maybe P z \<Longrightarrow> \<not> maybe P (case m of None \<Rightarrow> z | Some r \<Rightarrow> f r)"
  by (cases m) simp_all

lemmas cascade = not_maybe_if not_maybe_scan not_maybe_comment not_maybe_scan2 not_maybe_find

text \<open>A property that only comments and one-character tokens can have.\<close>

definition not_string :: "(Token \<Rightarrow> bool) \<Rightarrow> bool" where
  "not_string P \<longleftrightarrow> (\<forall>t. P t \<longrightarrow> kind t \<notin> {StringTok, SetDelimiter, GoDelimiter, SlashDelimiter})"

lemma not_string_scanners:
  assumes "not_string P"
  shows "\<not> maybe P (map_option Some (scanQuoted s p r))"
    and "scanDollarQuoted s p = Some t \<Longrightarrow> \<not> P t"
    and "scanQQuoted s p = Some t \<Longrightarrow> \<not> P t"
    and "scanPrefixedOrTripleString s p opts = Some (Some t) \<Longrightarrow> \<not> P t"
    and "scanLineDirective s p opts = Some t \<Longrightarrow> \<not> P t"
    and "\<not> P (scanEString s p)"
  subgoal using assms scanQuoted_kind [of s p r] by (cases "scanQuoted s p r") (auto simp: not_string_def)
  subgoal using assms token_kinds by (auto simp: not_string_def)
  subgoal using assms token_kinds by (auto simp: not_string_def)
  subgoal using assms token_kinds by (auto simp: not_string_def)
  subgoal using assms scanLineDirective_kind [of s p opts t] by (auto simp: not_string_def)
  subgoal using assms by (auto simp: not_string_def)
  done

definition comment_like :: "Token \<Rightarrow> bool" where
  "comment_like t \<longleftrightarrow> kind t = LineComment \<or> kind t = BlockComment \<or> (kind t = Data \<and> 1 < tlen t)"

lemma not_string_comment_like [simp]: "not_string comment_like"
  by (auto simp: not_string_def comment_like_def)

lemma scanToken_no_comment:
  assumes "scanComment s p opts = None"
  shows "\<not> maybe comment_like (scanToken s p opts st)"
  unfolding scanToken_def Let_def assms option.case
  by (intro not_maybe_if not_maybe_scan not_maybe_scan2 not_maybe_find;
      simp add: comment_like_def [of "mkToken _ _"] not_string_scanners)

lemma scanComment_kind: "scanComment s p opts = Some t \<Longrightarrow> kind t \<in> {LineComment, BlockComment, Data}"
  by (auto simp: scanComment_def Let_def split: if_splits)

text \<open>An end-of-line token is one newline.\<close>

definition bad_eoln :: "jsstring \<Rightarrow> nat \<Rightarrow> Token \<Rightarrow> bool" where
  "bad_eoln s p t \<longleftrightarrow> kind t = Eoln \<and> \<not> (tlen t = 1 \<and> s ! p = NL)"

lemma not_string_bad_eoln [simp]: "not_string (bad_eoln s p)"
  by (auto simp: not_string_def bad_eoln_def)

lemma scanComment_not_eoln: "scanComment s p opts = Some t \<Longrightarrow> \<not> bad_eoln q r t"
  using scanComment_kind [of s p opts t] by (auto simp: bad_eoln_def)

lemma scanToken_eoln:
  assumes "scanToken s p opts st = Some (Some t)" "kind t = Eoln"
  shows "tlen t = 1 \<and> s ! p = NL"
proof -
  have "\<not> maybe (bad_eoln s p) (scanToken s p opts st)"
    unfolding scanToken_def Let_def
    by (intro cascade; simp add: bad_eoln_def [of _ _ "mkToken _ _"] not_string_scanners scanComment_not_eoln)
  with assms show ?thesis by (simp add: bad_eoln_def)
qed

lemma scanToken_comment:
  assumes "scanToken s p opts st = Some (Some t)" "comment_like t"
  shows "scanComment s p opts = Some t"
proof (cases "scanComment s p opts")
  case None
  then show ?thesis using scanToken_no_comment [of s p opts st] assms by simp
next
  case (Some c)
  show ?thesis using assms unfolding scanToken_def Let_def Some option.case comment_like_def
    by (auto split: if_split_asm)
qed

lemma scanBlockComment_loop_ge:
  "position \<le> p \<Longrightarrow> p - position + 2 \<le> scanBlockComment_loop source position nested depth p
     \<or> scanBlockComment_loop source position nested depth p = length source - position"
proof (induction source position nested depth p rule: scanBlockComment_loop.induct)
  case (1 source position nested depth p)
  then show ?case by (subst (1 2) scanBlockComment_loop.simps) auto
qed

lemma block_comment_length:
  assumes "scanComment s p opts = Some t" "kind t = BlockComment \<or> kind t = Data \<and> 1 < tlen t"
    and "starts_at s h p" "length h \<le> 4" "h \<noteq> []"
  shows "length h \<le> tlen t"
proof -
  have "tlen t = scanBlockCommentLength s p (nestedBlockComments opts)"
    using assms(1,2) by (auto simp: scanComment_def Let_def split: if_splits)
  then have "4 \<le> tlen t \<or> tlen t = length s - p"
    using scanBlockComment_loop_ge [of p "p + 2" s] by (auto simp: scanBlockCommentLength_def)
  with starts_at_bound [OF assms(3,5)] assms(4) show ?thesis by auto
qed

end
