(* ===== verification/NonCodeSpans.thy ===== *)
theory NonCodeSpans
  imports TokenKinds
begin

text \<open>
  The spans of string literals and comments (\<open>utils/sqlSplitter/nonCodeSpans.ts\<close>, and
  \<open>scanNonCodeSpans\<close> of \<open>index.ts\<close>): the driver loop over one region, which queues the payload of
  an executable comment as a region of its own, and the loop over the queue. The queue is used as a
  stack (\<open>push\<close> and \<open>pop\<close>), held here with its top first. The lemmas show that the loop over the
  queue ends (the queued text shrinks with every region), and that the spans found are nonempty,
  inside the source, in order and disjoint.
\<close>

record PendingRegion =
  r_text :: jsstring
  r_offset :: nat
  r_depth :: nat
  r_state :: TokenizerState

record RegionState =
  rg_spans :: "NonCodeSpan list"
  rg_pending :: "PendingRegion list"
  rg_state :: TokenizerState

definition MAX_EXECUTABLE_COMMENT_DEPTH :: nat where
  "MAX_EXECUTABLE_COMMENT_DEPTH = 8"

definition queuePayload :: "jsstring \<Rightarrow> nat \<Rightarrow> nat \<Rightarrow> nat \<Rightarrow> nat \<Rightarrow> nat \<Rightarrow> RegionState \<Rightarrow> RegionState" where
  "queuePayload txt offset depth tokenStart tokenLength headerLength st =
     (let innerStart = tokenStart + headerLength;
          closed = starts_at txt ''*/'' (tokenStart + tokenLength - 2);
          innerEnd = tokenStart + tokenLength - (if closed then 2 else 0)
      in st\<lparr>rg_pending :=
           \<lparr>r_text = slice txt innerStart innerEnd, r_offset = offset + innerStart, r_depth = depth + 1,
            r_state = \<lparr>delimiter = delimiter (rg_state st), lineLeading = False\<rparr>\<rparr> # rg_pending st\<rparr>)"

definition pushSpan :: "nat \<Rightarrow> nat \<Rightarrow> RegionState \<Rightarrow> RegionState" where
  "pushSpan a b st = st\<lparr>rg_spans := rg_spans st @ [\<lparr>nc_start = a, nc_end = b\<rparr>]\<rparr>"

definition set_leading :: "bool \<Rightarrow> RegionState \<Rightarrow> RegionState" where
  "set_leading b st = st\<lparr>rg_state := (rg_state st)\<lparr>lineLeading := b\<rparr>\<rparr>"

text \<open>The \<open>switch\<close> on the token's kind. The region (its text, offset and depth) is a parameter.\<close>

definition regionStep ::
  "DialectOptions \<times> nat \<times> nat \<Rightarrow> jsstring \<Rightarrow> Token \<Rightarrow> nat \<Rightarrow> RegionState \<Rightarrow> nat \<times> RegionState" where
  "regionStep = (\<lambda>(opts, offset, depth) txt t position st.
     (position + tlen t,
      (case kind t of
         StringTok \<Rightarrow> set_leading False (pushSpan (offset + position) (offset + position + tlen t) st)
       | LineComment \<Rightarrow> set_leading False (pushSpan (offset + position) (offset + position + tlen t) st)
       | BlockComment \<Rightarrow>
           set_leading False
             (if executableComments opts \<and> starts_at txt ''/*M!'' position
                 \<and> depth < MAX_EXECUTABLE_COMMENT_DEPTH
              then queuePayload txt offset depth position (tlen t) 4 st
              else pushSpan (offset + position) (offset + position + tlen t) st)
       | Data \<Rightarrow>
           set_leading False
             (if tlen t > 1 \<and> starts_at txt ''/*!'' position \<and> depth < MAX_EXECUTABLE_COMMENT_DEPTH
              then queuePayload txt offset depth position (tlen t) 3 st else st)
       | SetDelimiter \<Rightarrow>
           set_leading False
             (case tvalue t of None \<Rightarrow> st
              | Some v \<Rightarrow> st\<lparr>rg_state := (rg_state st)\<lparr>delimiter := v\<rparr>\<rparr>)
       | Delimiter \<Rightarrow> set_leading False st
       | GoDelimiter \<Rightarrow> set_leading False st
       | SlashDelimiter \<Rightarrow> set_leading False st
       | Eoln \<Rightarrow> set_leading True st
       | Whitespace \<Rightarrow> st)))"

definition regionScan ::
  "DialectOptions \<times> nat \<times> nat \<Rightarrow> jsstring \<Rightarrow> nat \<Rightarrow> RegionState \<Rightarrow> Token option option" where
  "regionScan env txt position st = scanToken txt position (fst env) (rg_state st)"

text \<open>One turn of the outer loop on a popped region, and the loop (fuel: one unit per region).\<close>

definition scanRegion ::
  "DialectOptions \<Rightarrow> PendingRegion \<Rightarrow> NonCodeSpan list \<Rightarrow> PendingRegion list \<Rightarrow> RegionState option" where
  "scanRegion opts r spans pending =
     (let env = (opts, r_offset r, r_depth r)
      in token_loop (regionScan env (r_text r)) (regionStep env (r_text r)) (length (r_text r))
           (Suc (length (r_text r))) 0
           \<lparr>rg_spans = spans, rg_pending = pending, rg_state = r_state r\<rparr>)"

fun collectRegions ::
  "nat \<Rightarrow> DialectOptions \<Rightarrow> NonCodeSpan list \<Rightarrow> PendingRegion list \<Rightarrow> NonCodeSpan list option" where
  "collectRegions fuel opts spans [] = Some spans"
| "collectRegions 0 opts spans (r # pending) = None"
| "collectRegions (Suc fuel) opts spans (r # pending) =
     (case scanRegion opts r spans pending of
        None \<Rightarrow> None
      | Some st \<Rightarrow> collectRegions fuel opts (rg_spans st) (rg_pending st))"

definition collectNonCodeSpans :: "jsstring \<Rightarrow> DialectOptions \<Rightarrow> NonCodeSpan list option" where
  "collectNonCodeSpans source opts =
     map_option (sort_key nc_start)
       (collectRegions (Suc (length source)) opts []
          [\<lparr>r_text = source, r_offset = 0, r_depth = 0,
            r_state = \<lparr>delimiter = '';'', lineLeading = True\<rparr>\<rparr>])"

definition scanNonCodeSpans :: "jsstring \<Rightarrow> DialectInput \<Rightarrow> NonCodeSpan list option" where
  "scanNonCodeSpans sql input =
     (case input of
        Resolved s \<Rightarrow>
          if \<not> declared s \<and> dialect s = None then Some [] else collectNonCodeSpans sql (options s)
      | DialectName n \<Rightarrow>
          (case isDialect (Some n) of None \<Rightarrow> Some [] | Some d \<Rightarrow> collectNonCodeSpans sql (dialectOptions d))
      | NoDialect \<Rightarrow> Some [])"

section \<open>Intervals\<close>

definition apart :: "nat \<times> nat \<Rightarrow> nat \<times> nat \<Rightarrow> bool" where
  "apart x y \<longleftrightarrow> snd x \<le> fst y \<or> snd y \<le> fst x"

definition inside :: "nat \<Rightarrow> nat \<Rightarrow> nat \<times> nat \<Rightarrow> bool" where
  "inside a b x \<longleftrightarrow> a \<le> fst x \<and> fst x \<le> snd x \<and> snd x \<le> b"

definition iv_span :: "NonCodeSpan \<Rightarrow> nat \<times> nat" where
  "iv_span n = (nc_start n, nc_end n)"

definition iv_region :: "PendingRegion \<Rightarrow> nat \<times> nat" where
  "iv_region r = (r_offset r, r_offset r + length (r_text r))"

definition weight :: "PendingRegion list \<Rightarrow> nat" where
  "weight rs = sum_list (map (\<lambda>r. Suc (length (r_text r))) rs)"

lemma weight_simps [simp]:
  "weight [] = 0" "weight (r # rs) = Suc (length (r_text r)) + weight rs" "weight (xs @ ys) = weight xs + weight ys"
  by (simp_all add: weight_def)

lemma apart_inside: "apart (a, b) y \<Longrightarrow> inside a b x \<Longrightarrow> apart x y"
  by (auto simp: apart_def inside_def)

lemma apart_sym: "apart x y \<longleftrightarrow> apart y x"
  by (auto simp: apart_def)

lemma inside_mono: "inside a b x \<Longrightarrow> b \<le> c \<Longrightarrow> inside a c x"
  by (auto simp: inside_def)

lemma inside_trans: "inside a b x \<Longrightarrow> inside (fst x) (snd x) y \<Longrightarrow> inside a b y"
  by (auto simp: inside_def)

lemma inside_apart: "inside a b x \<Longrightarrow> inside b c y \<Longrightarrow> apart x y"
  by (auto simp: apart_def inside_def)

text \<open>A family of spans and regions that lie in \<open>[a, b]\<close> without overlapping.\<close>

definition family :: "nat \<Rightarrow> nat \<Rightarrow> NonCodeSpan list \<Rightarrow> PendingRegion list \<Rightarrow> bool" where
  "family a b spans rs \<longleftrightarrow>
     list_all (inside a b) (map iv_span spans @ map iv_region rs)
     \<and> sorted_wrt apart (map iv_span spans @ map iv_region rs)
     \<and> list_all (\<lambda>n. nc_start n < nc_end n) spans"

lemma family_add_span:
  assumes "family a b spans rs" "b \<le> x" "x < y" "a \<le> x"
  shows "family a y (spans @ [\<lparr>nc_start = x, nc_end = y\<rparr>]) rs"
proof -
  have "apart z (x, y)" if "z \<in> iv_span ` set spans \<union> iv_region ` set rs" for z
  proof -
    from that assms(1) have "inside a b z" by (auto simp: family_def list_all_iff)
    with assms(2) show ?thesis by (auto simp: apart_def inside_def)
  qed
  moreover have "inside a y z" if "inside a b z" for z using that assms(2,3) by (auto simp: inside_def)
  moreover have "inside a y (x, y)" using assms(3,4) by (simp add: inside_def)
  ultimately show ?thesis
    using assms(1,3) unfolding family_def
    by (auto simp: sorted_wrt_append list_all_iff iv_span_def apart_sym [of "(x, y)"])
qed

lemma family_add_region:
  assumes "family a b spans rs" "b \<le> x" "iv_region r = (x, y)" "x \<le> y" "y \<le> z" "a \<le> x"
  shows "family a z spans (r # rs)"
proof -
  have "apart w (x, y)" if "w \<in> iv_span ` set spans \<union> iv_region ` set rs" for w
  proof -
    from that assms(1) have "inside a b w" by (auto simp: family_def list_all_iff)
    with assms(2) show ?thesis by (auto simp: apart_def inside_def)
  qed
  moreover have "inside a z w" if "inside a b w" for w using that assms(2,4,5) by (auto simp: inside_def)
  moreover have "inside a z (x, y)" using assms(4,5,6) by (simp add: inside_def)
  ultimately show ?thesis
    using assms(1) unfolding family_def
    by (auto simp: sorted_wrt_append list_all_iff assms(3) apart_sym [of "(x, y)"])
qed

lemma family_widen: "family a b spans rs \<Longrightarrow> b \<le> c \<Longrightarrow> family a c spans rs"
  by (auto simp: family_def list_all_iff intro: inside_mono)

lemma family_nil: "family a b [] []"
  by (simp add: family_def)

section \<open>One region\<close>

text \<open>What a region has produced when its scan stands at \<open>p\<close>: new spans and new regions, all of them
  in \<open>[offset, offset + p]\<close>, the queued text no longer than what has been read.\<close>

definition region_inv ::
  "nat \<Rightarrow> NonCodeSpan list \<Rightarrow> PendingRegion list \<Rightarrow> nat \<Rightarrow> RegionState \<Rightarrow> bool" where
  "region_inv offset spans0 pending0 p st \<longleftrightarrow>
     (\<exists>news newp. rg_spans st = spans0 @ news \<and> rg_pending st = newp @ pending0
        \<and> family offset (offset + p) news newp \<and> weight newp \<le> p)"

lemma region_inv_leading [simp]:
  "region_inv o' s0 p0 p (set_leading b st) = region_inv o' s0 p0 p st"
  "region_inv o' s0 p0 p (st\<lparr>rg_state := ts\<rparr>) = region_inv o' s0 p0 p st"
  by (simp_all add: region_inv_def set_leading_def)

lemma region_inv_widen: "region_inv o' s0 p0 p st \<Longrightarrow> p \<le> p' \<Longrightarrow> region_inv o' s0 p0 p' st"
  unfolding region_inv_def using family_widen by (metis add_left_mono le_trans)

lemma region_inv_span:
  assumes "region_inv o' s0 p0 p st" "0 < n"
  shows "region_inv o' s0 p0 (p + n) (pushSpan (o' + p) (o' + p + n) st)"
proof -
  from assms(1) obtain news newp where i: "rg_spans st = s0 @ news" "rg_pending st = newp @ p0"
    "family o' (o' + p) news newp" "weight newp \<le> p" unfolding region_inv_def by blast
  have "family o' (o' + (p + n)) (news @ [\<lparr>nc_start = o' + p, nc_end = o' + p + n\<rparr>]) newp"
    using family_add_span [OF i(3), of "o' + p" "o' + p + n"] assms(2) by (simp add: add.assoc)
  with i show ?thesis unfolding region_inv_def pushSpan_def by force
qed

lemma region_inv_payload:
  assumes inv: "region_inv o' s0 p0 p st" and n: "p + n \<le> length txt" "h \<le> n" "0 < h"
    and c: "starts_at txt ''*/'' (p + n - 2) \<Longrightarrow> h \<le> n - 2"
  shows "region_inv o' s0 p0 (p + n) (queuePayload txt o' depth p n h st)"
proof -
  from inv obtain news newp where i: "rg_spans st = s0 @ news" "rg_pending st = newp @ p0"
    "family o' (o' + p) news newp" "weight newp \<le> p" unfolding region_inv_def by blast
  define e where "e = p + n - (if starts_at txt ''*/'' (p + n - 2) then 2 else 0)"
  define r where "r = \<lparr>r_text = slice txt (p + h) e, r_offset = o' + (p + h), r_depth = depth + 1,
     r_state = \<lparr>delimiter = delimiter (rg_state st), lineLeading = False\<rparr>\<rparr>"
  have e: "p + h \<le> e" "e \<le> p + n" using n c by (auto simp: e_def)
  have l: "length (r_text r) = e - (p + h)" using e n(1) by (simp add: r_def js_simps)
  have iv: "iv_region r = (o' + (p + h), o' + e)" using l e by (simp add: iv_region_def r_def)
  have "family o' (o' + (p + n)) news (r # newp)"
    by (rule family_add_region [OF i(3) _ iv]) (use e n in auto)
  moreover have "weight (r # newp) \<le> p + n" using i(4) l e n by simp
  moreover have "queuePayload txt o' depth p n h st = st\<lparr>rg_pending := r # rg_pending st\<rparr>"
    by (simp add: queuePayload_def e_def r_def Let_def)
  ultimately show ?thesis using i unfolding region_inv_def by force
qed

lemma token_comment_cases:
  assumes "scanToken s p opts ts = Some (Some t)" "kind t = BlockComment \<or> kind t = Data \<and> 1 < tlen t"
    and "starts_at s h p" "h = ''/*!'' \<or> h = ''/*M!''"
  shows "length h \<le> tlen t \<and> (starts_at s ''*/'' (p + tlen t - 2) \<longrightarrow> length h \<le> tlen t - 2)"
proof
  have c: "scanComment s p opts = Some t"
    by (rule scanToken_comment [OF assms(1)]) (use assms(2) in \<open>auto simp: comment_like_def\<close>)
  show l: "length h \<le> tlen t"
    by (rule block_comment_length [OF c assms(2,3)]) (use assms(4) in auto)
  show "starts_at s ''*/'' (p + tlen t - 2) \<longrightarrow> length h \<le> tlen t - 2"
  proof (rule impI, rule ccontr)
    assume e: "starts_at s ''*/'' (p + tlen t - 2)" and "\<not> length h \<le> tlen t - 2"
    then have "tlen t = length h \<or> tlen t = length h + 1" using l assms(4) by auto
    moreover obtain r where "drop p s = h @ r" using assms(3) by (auto simp: starts_at_iff_prefix prefix_def)
    moreover have "drop (p + tlen t - 2) s = drop (tlen t - 2) (drop p s)"
      using l assms(4) by (auto simp: add.commute)
    ultimately show False using e assms(4) by (auto simp: starts_at_def)
  qed
qed

lemma regionStep_inv:
  assumes inv: "region_inv offset s0 p0 p st" and t: "scanToken txt p opts (rg_state st) = Some (Some t)"
    and ok: "token_ok txt p t" and st': "regionStep (opts, offset, depth) txt t p st = (p', st')"
  shows "region_inv offset s0 p0 p' st'"
proof -
  have p': "p' = p + tlen t" using st' by (simp add: regionStep_def)
  have n: "0 < tlen t" "p + tlen t \<le> length txt" using ok by (auto simp: token_ok_def)
  have w: "region_inv offset s0 p0 (p + tlen t) st" by (rule region_inv_widen [OF inv]) simp
  have sp: "region_inv offset s0 p0 (p + tlen t) (pushSpan (offset + p) (offset + p + tlen t) st)"
    by (rule region_inv_span [OF inv n(1)])
  have pay: "region_inv offset s0 p0 (p + tlen t) (queuePayload txt offset depth p (tlen t) k st)"
    if "kind t = BlockComment \<or> kind t = Data \<and> 1 < tlen t" "starts_at txt h p"
      "(h, k) = (''/*!'', 3) \<or> (h, k) = (''/*M!'', 4)" for h k
    using token_comment_cases [OF t that(1,2)] that(3)
    by (intro region_inv_payload [OF inv n(2)]) auto
  show ?thesis
    using st' w sp pay [of "''/*M!''" 4] pay [of "''/*!''" 3] unfolding p'
    by (cases "kind t") (auto simp: regionStep_def split: if_splits option.splits)
qed

interpretation region: token_driver "\<lambda>env. wf_options (fst env)" regionScan regionStep
proof unfold_locales
  fix env :: "DialectOptions \<times> nat \<times> nat" and p and s :: jsstring and st :: RegionState
  assume "wf_options (fst env)" "p < length s"
  then show "\<exists>t. regionScan env s p st = Some (Some t) \<and> token_ok s p t"
    unfolding regionScan_def by (rule sql_scanner.scan_total)
qed (auto simp: regionStep_def token_ok_def split: prod.splits)

lemma scanRegion_inv:
  assumes "wf_options opts"
  shows "\<exists>st. scanRegion opts r spans pending = Some st
     \<and> region_inv (r_offset r) spans pending (length (r_text r)) st"
proof -
  let ?env = "(opts, r_offset r, r_depth r)"
  let ?Inv = "region_inv (r_offset r) spans pending"
  let ?st = "\<lparr>rg_spans = spans, rg_pending = pending, rg_state = r_state r\<rparr>"
  have start: "?Inv 0 ?st" by (auto simp: region_inv_def family_nil)
  show ?thesis
    unfolding scanRegion_def Let_def
    by (rule region.loop_invariant [where Inv = ?Inv and opts = ?env])
      (use assms start in \<open>auto simp: regionScan_def intro: regionStep_inv\<close>)
qed

section \<open>The queue\<close>

definition queue_inv :: "nat \<Rightarrow> NonCodeSpan list \<Rightarrow> PendingRegion list \<Rightarrow> bool" where
  "queue_inv n spans pending \<longleftrightarrow> family 0 n spans pending"

lemma queue_inv_region:
  assumes "queue_inv n spans (r # pending)" "region_inv (r_offset r) spans pending (length (r_text r)) st"
  shows "queue_inv n (rg_spans st) (rg_pending st) \<and> weight (rg_pending st) < weight (r # pending)"
proof -
  from assms(2) obtain news newp where i: "rg_spans st = spans @ news" "rg_pending st = newp @ pending"
    "family (r_offset r) (r_offset r + length (r_text r)) news newp" "weight newp \<le> length (r_text r)"
    unfolding region_inv_def by blast
  let ?new = "iv_span ` set news \<union> iv_region ` set newp"
  let ?old = "iv_span ` set spans \<union> iv_region ` set pending"
  have new: "inside (fst (iv_region r)) (snd (iv_region r)) x" if "x \<in> ?new" for x
    using that i(3) by (auto simp: family_def list_all_iff iv_region_def)
  have old: "apart (iv_region r) y" if "y \<in> ?old" for y
    using that assms(1) by (auto simp: queue_inv_def family_def sorted_wrt_append apart_sym)
  have r: "inside 0 n (iv_region r)" using assms(1) by (simp add: queue_inv_def family_def)
  have "\<forall>x \<in> ?new. \<forall>y \<in> ?old. apart x y \<and> apart y x"
  proof (intro ballI)
    fix x y assume x: "x \<in> ?new" and y: "y \<in> ?old"
    have "apart x y" by (rule apart_inside [OF _ new [OF x]]) (use old [OF y] in simp)
    then show "apart x y \<and> apart y x" by (simp add: apart_sym)
  qed
  moreover have "\<forall>x \<in> ?new. inside 0 n x"
    using new inside_trans [OF r] by blast
  ultimately show ?thesis
    using assms(1) i
    by (simp add: queue_inv_def family_def sorted_wrt_append list_all_iff ball_Un)
qed

lemma collectRegions_inv:
  assumes "wf_options opts" "queue_inv n spans pending" "weight pending \<le> fuel"
  shows "\<exists>out. collectRegions fuel opts spans pending = Some out \<and> queue_inv n out []"
  using assms
proof (induction fuel opts spans pending rule: collectRegions.induct)
  case (3 fuel opts spans r pending)
  obtain st where st: "scanRegion opts r spans pending = Some st"
    "region_inv (r_offset r) spans pending (length (r_text r)) st"
    using scanRegion_inv [OF "3.prems"(1), of r spans pending] by blast
  with queue_inv_region [OF "3.prems"(2) st(2)] "3.IH" [OF st(1)] "3.prems"(1,3) show ?case by auto
qed auto

section \<open>The spans\<close>

definition spans_ok :: "nat \<Rightarrow> NonCodeSpan list \<Rightarrow> bool" where
  "spans_ok n spans \<longleftrightarrow> list_all (\<lambda>x. nc_start x < nc_end x \<and> nc_end x \<le> n) spans
     \<and> sorted_wrt (\<lambda>x y. nc_end x \<le> nc_start y) spans"

lemma sorted_apart:
  assumes "sorted (map nc_start spans)" "sorted_wrt (\<lambda>x y. apart (iv_span x) (iv_span y)) spans"
    and "\<forall>x \<in> set spans. nc_start x < nc_end x"
  shows "sorted_wrt (\<lambda>x y. nc_end x \<le> nc_start y) spans"
  using assms
  by (induction spans) (auto simp: apart_def iv_span_def, fastforce)

lemma sorted_wrt_mset:
  assumes "\<And>x y. P x y \<Longrightarrow> P y x" "mset xs = mset ys" "sorted_wrt P xs"
  shows "sorted_wrt P ys"
  using assms(2,3)
proof (induction xs arbitrary: ys)
  case (Cons x xs)
  then obtain as bs where ys: "ys = as @ x # bs" by (metis in_set_conv_decomp mset_eq_setD list.set_intros(1))
  with Cons have "sorted_wrt P (as @ bs)" by simp
  moreover from ys Cons.prems(1) have "set xs = set (as @ bs)"
    by (metis add_mset_add_single add_right_cancel mset.simps(2) mset_append mset_eq_setD union_mset_add_mset_right)
  ultimately show ?case using ys Cons.prems(2) assms(1) by (auto simp: sorted_wrt_append)
qed simp

lemma spans_ok_sort:
  assumes "family 0 n spans []"
  shows "spans_ok n (sort_key nc_start spans)"
proof -
  have s: "sorted_wrt (\<lambda>x y. apart (iv_span x) (iv_span y)) spans"
    using assms by (simp add: family_def sorted_wrt_map)
  have "sorted_wrt (\<lambda>x y. apart (iv_span x) (iv_span y)) (sort_key nc_start spans)"
    by (rule sorted_wrt_mset [OF _ _ s]) (auto simp: apart_sym)
  with assms show ?thesis
    unfolding spans_ok_def
    by (intro conjI sorted_apart) (auto simp: family_def list_all_iff inside_def iv_span_def)
qed

lemma collectNonCodeSpans_ok:
  assumes "wf_options opts"
  shows "\<exists>spans. collectNonCodeSpans source opts = Some spans \<and> spans_ok (length source) spans"
proof -
  let ?r = "\<lparr>r_text = source, r_offset = 0, r_depth = 0, r_state = \<lparr>delimiter = '';'', lineLeading = True\<rparr>\<rparr>"
  have "queue_inv (length source) [] [?r]"
    by (simp add: queue_inv_def family_def inside_def iv_region_def)
  from collectRegions_inv [OF assms this, of "Suc (length source)"]
  obtain out where "collectRegions (Suc (length source)) opts [] [?r] = Some out"
    "queue_inv (length source) out []" by auto
  then show ?thesis using spans_ok_sort by (auto simp: collectNonCodeSpans_def queue_inv_def)
qed

lemma scanNonCodeSpans_ok:
  assumes "wf_input input"
  shows "\<exists>spans. scanNonCodeSpans sql input = Some spans \<and> spans_ok (length sql) spans"
proof -
  have "spans_ok (length sql) []" by (simp add: spans_ok_def)
  then show ?thesis
    using assms collectNonCodeSpans_ok
    by (cases input) (auto simp: scanNonCodeSpans_def wf_input_def split: option.split)
qed

text \<open>Property (scanNonCodeSpans_ordered): for every dialect input with well-formed quote rules the scan returns
  (the queue of executable-comment payloads runs dry), and the spans are nonempty, inside the source,
  in document order and disjoint, although the payload regions are scanned out of order.\<close>

theorem scanNonCodeSpans_ordered:
  assumes "wf_input input"
  shows "\<exists>spans. scanNonCodeSpans sql input = Some spans
     \<and> list_all (\<lambda>x. nc_start x < nc_end x \<and> nc_end x \<le> length sql) spans
     \<and> sorted_wrt (\<lambda>x y. nc_end x \<le> nc_start y) spans"
  using scanNonCodeSpans_ok [OF assms] unfolding spans_ok_def .

lemma scanNonCodeSpans_ordered_witness:
  "\<exists>spans. scanNonCodeSpans ''/*! a -- b */ c'' (DialectName ''mysql'') = Some spans
     \<and> list_all (\<lambda>x. nc_start x < nc_end x \<and> nc_end x \<le> length ''/*! a -- b */ c'') spans
     \<and> sorted_wrt (\<lambda>x y. nc_end x \<le> nc_start y) spans"
  by (rule scanNonCodeSpans_ordered) (simp add: wf_input_def)

end
