(* ===== verification/QueryParams.thy ===== *)
theory QueryParams
  imports NonCodeSpans JsValue
begin

text \<open>
  Bind parameters of a query (\<open>utils/queryParameters.ts\<close>): sanitising a column name into a parameter
  name, masking string literals and comments, finding the \<open>:name\<close> parameters on the masked text and
  substituting them into the original. \<open>PARAM_RE\<close> is the matcher \<open>param_at\<close>. The lemmas show that the mask
  keeps every position, that substitution is rendering of one segmentation of the query, and that
  a sanitised name is found again.
\<close>

definition toBindParamName :: "jsstring \<Rightarrow> jsstring" where
  "toBindParamName name =
     (let sanitized = map (\<lambda>c. if is_ident_char c then c else CHR ''_'') name
      in if sanitized = [] \<or> (case sanitized of [] \<Rightarrow> False | c # _ \<Rightarrow> is_digit c) then CHR ''_'' # sanitized
         else sanitized)"

section \<open>The mask\<close>

definition spaces :: "nat \<Rightarrow> jsstring" where
  "spaces n = replicate n SP"

fun mask_loop :: "jsstring \<Rightarrow> nat \<Rightarrow> NonCodeSpan list \<Rightarrow> jsstring \<Rightarrow> jsstring" where
  "mask_loop sql cursor [] masked = masked @ drop cursor sql"
| "mask_loop sql cursor (s # spans) masked =
     mask_loop sql (nc_end s) spans
       (masked @ slice sql cursor (nc_start s) @ spaces (nc_end s - nc_start s))"

definition maskNonCode :: "jsstring \<Rightarrow> DialectInput \<Rightarrow> jsstring option" where
  "maskNonCode sql input =
     (case scanNonCodeSpans sql input of
        None \<Rightarrow> None
      | Some spans \<Rightarrow> Some (if length spans = 0 then sql else mask_loop sql 0 spans []))"

section \<open>Parameters\<close>

text \<open>\<open>PARAM_RE\<close> at \<open>i\<close>: a colon not preceded by a colon or a word character, then a maximal identifier.
  The value is the parameter's name.\<close>

definition word_test :: "char option \<Rightarrow> bool" where
  "word_test c = (case c of None \<Rightarrow> False | Some c \<Rightarrow> is_ident_char c)"

definition param_at :: "jsstring \<Rightarrow> nat \<Rightarrow> jsstring option" where
  "param_at s i =
     (if char_at s i = Some (CHR '':'')
         \<and> \<not> (0 < i \<and> (char_at s (i - 1) = Some (CHR '':'') \<or> word_test (char_at s (i - 1))))
         \<and> (case char_at s (i + 1) of None \<Rightarrow> False | Some c \<Rightarrow> is_ident_start c)
      then Some (slice s (i + 1) (scan_while word_test s (length s) (i + 1)))
      else None)"

lemma param_at_length: "param_at s i = Some name \<Longrightarrow> i + length name < length s"
  using scan_while_le [of "i + 1" "length s" word_test s]
  by (auto simp: param_at_def js_simps split: if_splits option.splits)

text \<open>\<open>matchAll(PARAM_RE)\<close>: the matches from \<open>p\<close> on, left to right, each with its index.\<close>

function paramMatches :: "jsstring \<Rightarrow> nat \<Rightarrow> (nat \<times> jsstring) list" where
  "paramMatches s p =
     (if p < length s then
        (case param_at s p of
           Some name \<Rightarrow> (p, name) # paramMatches s (p + Suc (length name))
         | None \<Rightarrow> paramMatches s (Suc p))
      else [])"
  by pat_completeness auto
termination
  by (relation "measure (\<lambda>(s, p). length s - p)") auto

declare paramMatches.simps [simp del]

definition extractQueryParams :: "jsstring \<Rightarrow> DialectInput \<Rightarrow> jsstring list option" where
  "extractQueryParams sql input =
     (if sql = [] then Some []
      else map_option (\<lambda>m. uniq (map snd (paramMatches m 0))) (maskNonCode sql input))"

text \<open>\<open>params\<close> is the object's own properties.\<close>

fun interpolate_loop ::
  "jsstring \<Rightarrow> (jsstring \<Rightarrow> jsstring option) \<Rightarrow> nat \<Rightarrow> (nat \<times> jsstring) list \<Rightarrow> jsstring \<Rightarrow> jsstring" where
  "interpolate_loop sql params cursor [] result = result @ drop cursor sql"
| "interpolate_loop sql params cursor ((i, name) # ms) result =
     (case params name of
        None \<Rightarrow> interpolate_loop sql params cursor ms result
      | Some v \<Rightarrow> interpolate_loop sql params (i + Suc (length name)) ms (result @ slice sql cursor i @ v))"

definition interpolateQueryParams ::
  "jsstring \<Rightarrow> (jsstring \<Rightarrow> jsstring option) \<Rightarrow> DialectInput \<Rightarrow> jsstring option" where
  "interpolateQueryParams sql params input =
     (if sql = [] then Some []
      else map_option (\<lambda>m. interpolate_loop sql params 0 (paramMatches m 0) []) (maskNonCode sql input))"

section \<open>The mask keeps every position\<close>

definition masked_at :: "NonCodeSpan list \<Rightarrow> nat \<Rightarrow> bool" where
  "masked_at spans i \<longleftrightarrow> list_ex (\<lambda>s. nc_start s \<le> i \<and> i < nc_end s) spans"

definition mask_of :: "jsstring \<Rightarrow> NonCodeSpan list \<Rightarrow> nat \<Rightarrow> jsstring" where
  "mask_of sql spans a = map (\<lambda>i. if masked_at spans i then SP else sql ! i) [a..<length sql]"

lemma upt_split: "a \<le> b \<Longrightarrow> b \<le> c \<Longrightarrow> [a..<c] = [a..<b] @ [b..<c]"
  using upt_add_eq_append [of a b "c - b"] by simp

lemma map_nth_slice: "b \<le> length sql \<Longrightarrow> map (\<lambda>i. sql ! i) [a..<b] = slice sql a b"
  by (rule nth_equalityI) (auto simp: slice_def)

lemma mask_loop_spec:
  assumes "spans_ok (length sql) spans" "list_all (\<lambda>s. cursor \<le> nc_start s) spans" "cursor \<le> length sql"
  shows "mask_loop sql cursor spans masked = masked @ mask_of sql spans cursor"
  using assms
proof (induction sql cursor spans masked rule: mask_loop.induct)
  case (1 sql cursor masked)
  have "map (\<lambda>i. sql ! i) [cursor..<length sql] = drop cursor sql"
    using "1.prems" map_nth_slice [of "length sql" sql cursor] by (simp add: slice_def)
  then show ?case by (simp add: mask_of_def masked_at_def)
next
  case (2 sql cursor s spans masked)
  let ?f = "\<lambda>ss i. if masked_at ss i then SP else sql ! i"
  have b: "cursor \<le> nc_start s" "nc_start s < nc_end s" "nc_end s \<le> length sql"
    and later: "list_all (\<lambda>x. nc_end s \<le> nc_start x) spans" "spans_ok (length sql) spans"
    using "2.prems" by (auto simp: spans_ok_def list_all_iff)
  have "[cursor..<length sql] = [cursor..<nc_start s] @ [nc_start s..<nc_end s] @ [nc_end s..<length sql]"
    using b upt_split [of cursor "nc_start s" "length sql"] upt_split [of "nc_start s" "nc_end s" "length sql"]
    by simp
  moreover have "map (?f (s # spans)) [cursor..<nc_start s] = slice sql cursor (nc_start s)"
  proof -
    have "\<not> masked_at (s # spans) i" if "i < nc_start s" for i
      using that b later(1) by (auto simp: masked_at_def list_ex_iff list_all_iff)
    then have "map (?f (s # spans)) [cursor..<nc_start s] = map (\<lambda>i. sql ! i) [cursor..<nc_start s]" by auto
    then show ?thesis using b map_nth_slice [of "nc_start s" sql cursor] by simp
  qed
  moreover have "map (?f (s # spans)) [nc_start s..<nc_end s] = spaces (nc_end s - nc_start s)"
    by (rule nth_equalityI) (auto simp: masked_at_def spaces_def)
  moreover have "map (?f (s # spans)) [nc_end s..<length sql] = mask_of sql spans (nc_end s)"
    by (auto simp: mask_of_def masked_at_def)
  ultimately have "mask_of sql (s # spans) cursor
      = slice sql cursor (nc_start s) @ spaces (nc_end s - nc_start s) @ mask_of sql spans (nc_end s)"
    by (simp add: mask_of_def)
  with "2.IH" later b(3) show ?case by simp
qed

lemma maskNonCode_spec:
  assumes "wf_input input"
  shows "\<exists>spans. scanNonCodeSpans sql input = Some spans \<and> spans_ok (length sql) spans
     \<and> maskNonCode sql input = Some (mask_of sql spans 0)"
proof -
  from scanNonCodeSpans_ok [OF assms] obtain spans where
    s: "scanNonCodeSpans sql input = Some spans" "spans_ok (length sql) spans" by blast
  have "sql = mask_of sql [] 0" using mask_loop_spec [of sql "[]" 0 "[]"] by (simp add: spans_ok_def)
  moreover have "mask_loop sql 0 spans [] = mask_of sql spans 0"
    using mask_loop_spec [OF s(2), of 0 "[]"] by (simp add: list_all_iff)
  ultimately show ?thesis using s by (auto simp: maskNonCode_def)
qed

lemma length_mask_of [simp]: "length (mask_of sql spans 0) = length sql"
  by (simp add: mask_of_def)

lemma nth_mask_of: "i < length sql \<Longrightarrow> mask_of sql spans 0 ! i = (if masked_at spans i then SP else sql ! i)"
  by (simp add: mask_of_def)

section \<open>Substitution renders one segmentation\<close>

datatype QueryPart = Text jsstring | Param jsstring

fun render :: "(jsstring \<Rightarrow> jsstring option) \<Rightarrow> QueryPart \<Rightarrow> jsstring" where
  "render params (Text t) = t"
| "render params (Param n) = (case params n of None \<Rightarrow> CHR '':'' # n | Some v \<Rightarrow> v)"

fun part_names :: "QueryPart list \<Rightarrow> jsstring list" where
  "part_names [] = []"
| "part_names (Text _ # ps) = part_names ps"
| "part_names (Param n # ps) = n # part_names ps"

fun parts :: "jsstring \<Rightarrow> nat \<Rightarrow> (nat \<times> jsstring) list \<Rightarrow> QueryPart list" where
  "parts sql cursor [] = [Text (drop cursor sql)]"
| "parts sql cursor ((i, name) # ms) =
     Text (slice sql cursor i) # Param name # parts sql (i + Suc (length name)) ms"

fun matches_ok :: "jsstring \<Rightarrow> nat \<Rightarrow> (nat \<times> jsstring) list \<Rightarrow> bool" where
  "matches_ok sql cursor [] \<longleftrightarrow> cursor \<le> length sql"
| "matches_ok sql cursor ((i, name) # ms) \<longleftrightarrow>
     cursor \<le> i \<and> slice sql i (i + Suc (length name)) = CHR '':'' # name
     \<and> matches_ok sql (i + Suc (length name)) ms"

definition rendered :: "(jsstring \<Rightarrow> jsstring option) \<Rightarrow> jsstring \<Rightarrow> nat \<Rightarrow> (nat \<times> jsstring) list \<Rightarrow> jsstring" where
  "rendered params sql cursor ms = concat (map (render params) (parts sql cursor ms))"

lemma matches_ok_bound: "matches_ok sql c ms \<Longrightarrow> c \<le> length sql"
  by (induction sql c ms rule: matches_ok.induct) auto

lemma rendered_back: "matches_ok sql d ms \<Longrightarrow> c \<le> d \<Longrightarrow> rendered params sql c ms = slice sql c d @ rendered params sql d ms"
proof (cases ms)
  case Nil
  assume "matches_ok sql d ms" "c \<le> d"
  then show ?thesis using Nil slice_append_slice [of c d "length sql" sql]
    by (simp add: rendered_def slice_def)
next
  case (Cons m ms')
  assume "matches_ok sql d ms" "c \<le> d"
  then show ?thesis using Cons slice_append_slice [of c d "fst m" sql]
    by (cases m) (simp add: rendered_def)
qed

lemma interpolate_rendered:
  "matches_ok sql cursor ms \<Longrightarrow>
   interpolate_loop sql params cursor ms result = result @ rendered params sql cursor ms"
proof (induction sql params cursor ms result rule: interpolate_loop.induct)
  case (1 sql params cursor result)
  then show ?case by (simp add: rendered_def)
next
  case (2 sql params cursor i name ms result)
  let ?e = "i + Suc (length name)"
  from "2.prems" have ok: "cursor \<le> i" "slice sql i ?e = CHR '':'' # name" "matches_ok sql ?e ms" by simp_all
  then have b: "?e \<le> length sql" by (auto dest: matches_ok_bound)
  show ?case
  proof (cases "params name")
    case None
    have earlier: "rendered params sql cursor ms = slice sql cursor ?e @ rendered params sql ?e ms"
      by (rule rendered_back [OF ok(3)]) (use ok(1) in simp)
    have "matches_ok sql cursor ms"
    proof (cases ms)
      case Nil
      with ok b show ?thesis by simp
    next
      case (Cons m ms')
      with ok show ?thesis by (cases m) auto
    qed
    with None "2.IH"(1) have "interpolate_loop sql params cursor ((i, name) # ms) result
        = result @ slice sql cursor ?e @ rendered params sql ?e ms"
      using earlier by simp
    also have "slice sql cursor ?e = slice sql cursor i @ CHR '':'' # name"
      using ok(1) slice_append_slice [of cursor i ?e sql] unfolding ok(2) by simp
    finally show ?thesis using None by (simp add: rendered_def)
  next
    case (Some v)
    with "2.IH"(2) [OF Some ok(3)] show ?thesis by (simp add: rendered_def)
  qed
qed

lemma part_names_parts: "part_names (parts sql c ms) = map snd ms"
  by (induction sql c ms rule: parts.induct) auto

lemma param_at_slice:
  assumes "param_at s i = Some name"
  shows "slice s i (i + Suc (length name)) = CHR '':'' # name"
proof -
  have l: "i + length name < length s" by (rule param_at_length [OF assms])
  define e where "e = scan_while word_test s (length s) (i + 1)"
  have n: "char_at s i = Some (CHR '':'')" "name = slice s (i + 1) e"
    using assms by (auto simp: param_at_def e_def split: if_splits)
  have "e \<le> length s" using l scan_while_le [of "i + 1" "length s" word_test s] by (simp add: e_def)
  then have "length name = e - (i + 1)" using n(2) by (simp add: js_simps)
  then have "take (length name) (drop (Suc i) s) = name" using n(2) by (simp add: slice_def)
  moreover have "drop i s = CHR '':'' # drop (Suc i) s"
    using n(1) Cons_nth_drop_Suc [of i s] by (auto simp: js_simps)
  ultimately show ?thesis by (simp add: slice_def)
qed

lemma paramMatches_ok: "p \<le> length s \<Longrightarrow> matches_ok s p (paramMatches s p)"
proof (induction s p rule: paramMatches.induct)
  case (1 s p)
  show ?case
  proof (cases "p < length s")
    case False
    with 1 show ?thesis by (subst paramMatches.simps) simp
  next
    case True
    show ?thesis
    proof (cases "param_at s p")
      case None
      have "matches_ok s p ms" if "matches_ok s (Suc p) ms" for ms
        using that by (cases ms) (auto split: prod.splits)
      with "1.IH"(1) [OF True None] True None show ?thesis
        by (subst paramMatches.simps) simp
    next
      case (Some name)
      with "1.IH"(2) [OF True Some] True param_at_slice [OF Some] param_at_length [OF Some] show ?thesis
        by (subst paramMatches.simps) simp
    qed
  qed
qed

lemma param_at_name:
  assumes "param_at s i = Some name"
  shows "list_all is_ident_char name"
proof -
  define e where "e = scan_while word_test s (length s) (i + 1)"
  have n: "name = slice s (i + 1) e" "i < length s"
    using assms by (auto simp: param_at_def e_def js_simps split: if_splits)
  have "e \<le> length s" using n(2) scan_while_le [of "i + 1" "length s" word_test s] by (simp add: e_def)
  have "is_ident_char (s ! j)" if "i + 1 \<le> j" "j < e" for j
    using scan_while_all [of "i + 1" j word_test s "length s"] that \<open>e \<le> length s\<close>
    by (simp add: e_def word_test_def char_at_def)
  then show ?thesis using n(1) \<open>e \<le> length s\<close> by (auto simp: list_all_length slice_def)
qed

lemma paramMatches_names: "list_all (\<lambda>m. list_all is_ident_char (snd m)) (paramMatches s p)"
proof (induction s p rule: paramMatches.induct)
  case (1 s p)
  then show ?case by (subst paramMatches.simps) (auto split: option.split dest: param_at_name)
qed

lemma mask_slice:
  assumes "slice (mask_of sql spans 0) a b = t" "SP \<notin> set t" "b \<le> length sql"
  shows "slice sql a b = t \<and> (\<forall>j. a \<le> j \<and> j < b \<longrightarrow> \<not> masked_at spans j)"
proof -
  have l: "length t = b - a" using assms(1,3) by (auto simp: js_simps)
  have t: "t ! k = mask_of sql spans 0 ! (a + k)" if "k < b - a" for k
    using assms(1,3) that by (auto simp: slice_def)
  have m: "\<not> masked_at spans (a + k)" if "k < b - a" for k
    using t [OF that] nth_mask_of [of "a + k" sql spans] assms(2,3) that l nth_mem [of k t] by auto
  have "slice sql a b = t"
  proof (rule nth_equalityI)
    show "length (slice sql a b) = length t" using assms(3) l by (simp add: js_simps)
    fix k assume "k < length (slice sql a b)"
    then have "k < b - a" using assms(3) by (simp add: js_simps)
    then show "slice sql a b ! k = t ! k"
      using t m nth_mask_of [of "a + k" sql spans] assms(3) by (auto simp: slice_def)
  qed
  moreover have "\<not> masked_at spans j" if "a \<le> j" "j < b" for j
    using m [of "j - a"] that by simp
  ultimately show ?thesis by blast
qed

lemma ident_no_space: "list_all is_ident_char n \<Longrightarrow> SP \<notin> set n"
  by (auto simp: list_all_iff is_ident_char_def is_alpha_def is_digit_def code_of_def)

lemma matches_unmask:
  assumes "matches_ok (mask_of sql spans 0) c ms" "list_all (\<lambda>m. list_all is_ident_char (snd m)) ms"
  shows "matches_ok sql c ms
    \<and> list_all (\<lambda>(i, n). \<forall>j. i \<le> j \<and> j \<le> i + length n \<longrightarrow> \<not> masked_at spans j) ms"
  using assms
proof (induction "mask_of sql spans 0" c ms rule: matches_ok.induct)
  case (2 cursor i name ms)
  from "2.prems" have "i + Suc (length name) \<le> length sql" by (auto dest: matches_ok_bound)
  moreover have "SP \<notin> set (CHR '':'' # name)" using "2.prems" ident_no_space by simp
  moreover have "slice (mask_of sql spans 0) i (i + Suc (length name)) = CHR '':'' # name" using "2.prems" by simp
  ultimately have "slice sql i (i + Suc (length name)) = CHR '':'' # name
      \<and> (\<forall>j. i \<le> j \<and> j < i + Suc (length name) \<longrightarrow> \<not> masked_at spans j)"
    by (intro mask_slice)
  with 2 show ?case by (simp add: less_Suc_eq_le)
qed simp

text \<open>Property (maskNonCode_pointwise): the mask has the length of the query, blanks exactly the positions of
  its string literals and comments, and leaves every other character where it is, so an index found on
  the masked text is valid on the original.\<close>

theorem maskNonCode_pointwise:
  assumes "wf_input input"
  shows "\<exists>spans m. scanNonCodeSpans sql input = Some spans \<and> maskNonCode sql input = Some m
    \<and> length m = length sql
    \<and> (\<forall>i < length sql. m ! i = (if masked_at spans i then SP else sql ! i))"
  using maskNonCode_spec [OF assms, of sql] nth_mask_of length_mask_of by fastforce

lemma maskNonCode_pointwise_witness:
  "\<exists>spans m. scanNonCodeSpans ''select :a -- :b'' (DialectName ''postgres'') = Some spans
    \<and> maskNonCode ''select :a -- :b'' (DialectName ''postgres'') = Some m
    \<and> length m = length ''select :a -- :b''
    \<and> (\<forall>i < length ''select :a -- :b''. m ! i = (if masked_at spans i then SP else ''select :a -- :b'' ! i))"
  by (rule maskNonCode_pointwise) (simp add: wf_input_def)

lemma interpolate_parts:
  assumes "wf_input input"
  shows "\<exists>ps spans. scanNonCodeSpans sql input = Some spans
    \<and> extractQueryParams sql input = Some (uniq (part_names ps))
    \<and> concat (map (render (\<lambda>_. None)) ps) = sql
    \<and> (\<forall>params. interpolateQueryParams sql params input = Some (concat (map (render params) ps)))"
proof (cases "sql = []")
  case True
  obtain spans where "scanNonCodeSpans sql input = Some spans" using scanNonCodeSpans_ok [OF assms] by blast
  with True show ?thesis
    by (intro exI [of _ "[]"] exI [of _ spans]) (simp add: extractQueryParams_def interpolateQueryParams_def uniq_def)
next
  case False
  obtain spans where s: "scanNonCodeSpans sql input = Some spans"
    "maskNonCode sql input = Some (mask_of sql spans 0)" using maskNonCode_spec [OF assms, of sql] by blast
  define ms where "ms = paramMatches (mask_of sql spans 0) 0"
  have "matches_ok sql 0 ms"
    using matches_unmask [OF _ paramMatches_names] paramMatches_ok [of 0 "mask_of sql spans 0"]
    by (simp add: ms_def)
  then have r: "interpolate_loop sql params 0 ms [] = rendered params sql 0 ms" for params
    by (simp add: interpolate_rendered)
  moreover have "rendered (\<lambda>_. None) sql 0 ms = sql"
  proof -
    have "interpolate_loop sql (\<lambda>_. None) c ns res = res @ drop c sql" for c ns res
      by (induction ns) auto
    then show ?thesis using r [of "\<lambda>_. None"] by simp
  qed
  ultimately show ?thesis using s False
    by (intro exI [of _ "parts sql 0 ms"] exI [of _ spans])
      (simp add: extractQueryParams_def interpolateQueryParams_def part_names_parts ms_def rendered_def)
qed



section \<open>Sanitised names\<close>

lemma toBindParamName_valid:
  "\<exists>c cs. toBindParamName name = c # cs \<and> is_ident_start c \<and> list_all is_ident_char (c # cs)"
proof -
  let ?f = "\<lambda>c. if is_ident_char c then c else CHR ''_''"
  have u: "is_ident_char (CHR ''_'')" "is_ident_start (CHR ''_'')"
    by (simp_all add: is_ident_char_def is_ident_start_def)
  have all: "list_all is_ident_char (map ?f name)" using u by (auto simp: list_all_iff)
  show ?thesis
  proof (cases "map ?f name")
    case Nil
    then show ?thesis using u by (simp add: toBindParamName_def Let_def)
  next
    case (Cons c cs)
    show ?thesis
    proof (cases "is_digit c")
      case True
      with Cons all u show ?thesis by (simp add: toBindParamName_def Let_def)
    next
      case False
      with Cons all have "is_ident_start c" by (auto simp: is_ident_start_def is_ident_char_def)
      with Cons all False show ?thesis by (simp add: toBindParamName_def Let_def)
    qed
  qed
qed

lemma scan_while_to_end:
  "list_all (\<lambda>c. test (Some c)) (drop p s) \<Longrightarrow> p \<le> length s \<Longrightarrow> scan_while test s (length s) p = length s"
proof (induction test s "length s" p rule: scan_while.induct)
  case (1 test s p)
  show ?case
  proof (cases "p < length s")
    case True
    then have "drop p s = s ! p # drop (Suc p) s" by (simp add: Cons_nth_drop_Suc)
    with 1 True show ?thesis by (subst scan_while.simps) (auto simp: char_at_def)
  next
    case False
    with 1 show ?thesis by (subst scan_while.simps) simp
  qed
qed

text \<open>Property (toBindParamName_found): whatever the column is called, the parameter written for it is found
  again, under exactly the sanitised name.\<close>

theorem toBindParamName_found:
  "extractQueryParams (CHR '':'' # toBindParamName name) NoDialect = Some [toBindParamName name]"
proof -
  obtain c cs where n: "toBindParamName name = c # cs" "is_ident_start c" "list_all is_ident_char (c # cs)"
    using toBindParamName_valid by blast
  let ?s = "CHR '':'' # c # cs"
  have "scan_while word_test ?s (length ?s) 1 = length ?s"
    by (rule scan_while_to_end) (use n(3) in \<open>auto simp: word_test_def list_all_iff\<close>)
  then have "param_at ?s 0 = Some (c # cs)"
    using n(2) by (simp add: param_at_def char_at_def slice_def)
  then have "paramMatches ?s 0 = [(0, c # cs)]"
    by (subst paramMatches.simps) (simp add: paramMatches.simps [of _ "Suc (Suc _)"])
  then show ?thesis
    by (simp add: extractQueryParams_def maskNonCode_def scanNonCodeSpans_def n(1) uniq_def)
qed

end
