(* ===== verification/StripComments.thy ===== *)
theory StripComments
  imports TokenKinds
begin

text \<open>
  Removing the comments of a statement (\<open>utils/stripSqlComments.ts\<close>): one more client of the token
  loop. Its output is compared with the plain concatenation of the tokens that are not stripped: the
  two differ in whitespace only, and a source without a strippable comment is returned unchanged.
\<close>

record StripState =
  out_text :: jsstring
  lineStart :: nat
  lineHadComment :: bool
  s_state :: TokenizerState

definition declaredOptions :: "DialectInput \<Rightarrow> DialectOptions option" where
  "declaredOptions input =
     (case input of
        Resolved s \<Rightarrow>
          if declared s \<or> (dialect s \<noteq> None \<and> dialect s \<noteq> Some Generic) then Some (options s) else None
      | DialectName n \<Rightarrow>
          (case isDialect (Some n) of None \<Rightarrow> None
           | Some d \<Rightarrow> if n \<noteq> ''generic'' then Some (dialectOptions d) else None)
      | NoDialect \<Rightarrow> None)"

definition canStripSqlComments :: "DialectInput \<Rightarrow> bool" where
  "canStripSqlComments input \<longleftrightarrow> declaredOptions input \<noteq> None"

definition isKeptBlockComment :: "jsstring \<Rightarrow> nat \<Rightarrow> DialectOptions \<Rightarrow> bool" where
  "isKeptBlockComment source position opts \<longleftrightarrow>
     starts_at source ''/*+'' position \<or> (executableComments opts \<and> starts_at source ''/*M!'' position)"

definition isKeptLineComment :: "jsstring \<Rightarrow> nat \<Rightarrow> bool" where
  "isKeptLineComment source position \<longleftrightarrow> starts_at source ''--+'' position"

definition strippable :: "DialectOptions \<Rightarrow> jsstring \<Rightarrow> nat \<Rightarrow> Token \<Rightarrow> bool" where
  "strippable opts sql position t \<longleftrightarrow>
     (kind t = LineComment \<and> \<not> isKeptLineComment sql position)
     \<or> (kind t = BlockComment \<and> \<not> isKeptBlockComment sql position opts)"

definition dropCommentOnlyLine :: "StripState \<Rightarrow> StripState" where
  "dropCommentOnlyLine st =
     (if lineHadComment st \<and> trim (drop (lineStart st) (out_text st)) = []
      then st\<lparr>out_text := take (lineStart st) (out_text st)\<rparr> else st)"

text \<open>Where the token ends for the stripper: a line comment gives back the \<open>\r\<close> of a CRLF.\<close>

definition strip_end :: "DialectOptions \<Rightarrow> jsstring \<Rightarrow> nat \<Rightarrow> Token \<Rightarrow> nat" where
  "strip_end opts sql position t =
     (let e = position + tlen t
      in if strippable opts sql position t \<and> kind t = LineComment \<and> char_at sql (e - 1) = Some CR
         then e - 1 else e)"

definition next_tstate :: "Token \<Rightarrow> TokenizerState \<Rightarrow> TokenizerState" where
  "next_tstate t ts =
     (if kind t = Eoln then ts\<lparr>lineLeading := True\<rparr>
      else if kind t \<noteq> Whitespace then
        (case (if kind t = SetDelimiter then tvalue t else None) of
           None \<Rightarrow> ts\<lparr>lineLeading := False\<rparr>
         | Some v \<Rightarrow> ts\<lparr>delimiter := v, lineLeading := False\<rparr>)
      else ts)"

definition stripStep :: "DialectOptions \<Rightarrow> jsstring \<Rightarrow> Token \<Rightarrow> nat \<Rightarrow> StripState \<Rightarrow> nat \<times> StripState" where
  "stripStep opts sql t position st =
     (let e = strip_end opts sql position t;
          st1 =
            (if strippable opts sql position t then
               (let prev = (if out_text st = [] then None else Some (last (out_text st)));
                    nxt = char_at sql e;
                    sep = (case (prev, nxt) of (Some a, Some b) \<Rightarrow> \<not> is_space a \<and> \<not> is_space b | _ \<Rightarrow> False)
                in st\<lparr>lineHadComment := True, out_text := out_text st @ (if sep then [SP] else [])\<rparr>)
             else if kind t = Eoln then
               (let d = dropCommentOnlyLine st;
                    d2 = (if length (out_text d) > lineStart d \<or> \<not> lineHadComment d
                          then d\<lparr>out_text := out_text d @ slice sql position e\<rparr> else d)
                in d2\<lparr>lineStart := length (out_text d2), lineHadComment := False\<rparr>)
             else st\<lparr>out_text := out_text st @ slice sql position e\<rparr>)
      in (e, st1\<lparr>s_state := next_tstate t (s_state st)\<rparr>))"

definition stripScan :: "DialectOptions \<Rightarrow> jsstring \<Rightarrow> nat \<Rightarrow> StripState \<Rightarrow> Token option option" where
  "stripScan opts sql position st = scanToken sql position opts (s_state st)"

definition stripInit :: StripState where
  "stripInit = \<lparr>out_text = [], lineStart = 0, lineHadComment = False,
     s_state = \<lparr>delimiter = '';'', lineLeading = True\<rparr>\<rparr>"

definition stripSqlComments :: "jsstring \<Rightarrow> DialectInput \<Rightarrow> jsstring option" where
  "stripSqlComments sql input =
     (case declaredOptions input of
        None \<Rightarrow> Some sql
      | Some opts \<Rightarrow>
          map_option (\<lambda>st. out_text (dropCommentOnlyLine st))
            (token_loop (stripScan opts sql) (stripStep opts sql) (length sql) (Suc (length sql)) 0 stripInit))"

section \<open>The stripper as a token client\<close>

lemma strip_end_bounds:
  assumes "scanToken sql p opts ts = Some (Some t)" "token_ok sql p t"
  shows "p < strip_end opts sql p t \<and> strip_end opts sql p t \<le> length sql"
proof -
  have "char_at sql p \<noteq> Some CR" if "kind t = LineComment"
    using that assms(1) by (auto simp: scanToken_def Let_def char_at_def split: if_splits)
  then have "2 \<le> tlen t" if "kind t = LineComment" "char_at sql (p + tlen t - 1) = Some CR"
    using that assms(2) by (cases "tlen t = 1") (auto simp: token_ok_def)
  then show ?thesis using assms(2) by (auto simp: strip_end_def Let_def token_ok_def)
qed

interpretation strip: token_driver wf_options stripScan stripStep
proof unfold_locales
  fix opts p and s :: jsstring and st :: StripState
  assume "wf_options opts" "p < length s"
  then show "\<exists>t. stripScan opts s p st = Some (Some t) \<and> token_ok s p t"
    unfolding stripScan_def by (rule sql_scanner.scan_total)
next
  fix opts s p t and st st' :: StripState and p'
  assume "stripScan opts s p st = Some (Some t)" "token_ok s p t" "stripStep opts s t p st = (p', st')"
  then show "p < p' \<and> p' \<le> length s"
    using strip_end_bounds by (auto simp: stripScan_def stripStep_def Let_def)
qed

section \<open>Only comments are lost\<close>

definition nonspace :: "jsstring \<Rightarrow> jsstring" where
  "nonspace s = filter (\<lambda>c. \<not> is_space c) s"

lemma nonspace_append [simp]: "nonspace (xs @ ys) = nonspace xs @ nonspace ys"
  by (simp add: nonspace_def)

lemma nonspace_blank: "trim s = [] \<Longrightarrow> nonspace s = []"
proof -
  assume "trim s = []"
  then have "\<forall>c \<in> set s. is_space c"
    by (auto simp: trim_def dropWhile_eq_Nil_conv) (metis dropWhile_eq_Nil_conv set_dropWhileD hd_dropWhile hd_in_set)
  then show ?thesis by (simp add: nonspace_def filter_empty_conv)
qed

lemma nonspace_drop_line [simp]: "nonspace (out_text (dropCommentOnlyLine st)) = nonspace (out_text st)"
proof (cases "lineHadComment st \<and> trim (drop (lineStart st) (out_text st)) = []")
  case True
  have "nonspace (out_text st) = nonspace (take (lineStart st) (out_text st)) @ nonspace (drop (lineStart st) (out_text st))"
    by (simp flip: nonspace_append)
  with True nonspace_blank [of "drop (lineStart st) (out_text st)"] show ?thesis
    by (simp add: dropCommentOnlyLine_def)
qed (auto simp: dropCommentOnlyLine_def)

text \<open>The reference: the text of the tokens that stay, and how many were stripped.\<close>

record KeptState =
  kept_text :: jsstring
  stripped :: nat
  k_state :: TokenizerState

definition keptStep :: "DialectOptions \<Rightarrow> jsstring \<Rightarrow> Token \<Rightarrow> nat \<Rightarrow> KeptState \<Rightarrow> nat \<times> KeptState" where
  "keptStep opts sql t position st =
     (let e = strip_end opts sql position t in
      (e, (if strippable opts sql position t then st\<lparr>stripped := Suc (stripped st)\<rparr>
           else st\<lparr>kept_text := kept_text st @ slice sql position e\<rparr>)
          \<lparr>k_state := next_tstate t (k_state st)\<rparr>))"

definition keptTokens :: "jsstring \<Rightarrow> DialectOptions \<Rightarrow> KeptState option" where
  "keptTokens sql opts =
     token_loop (\<lambda>p st. scanToken sql p opts (k_state st)) (keptStep opts sql) (length sql) (Suc (length sql)) 0
       \<lparr>kept_text = [], stripped = 0, k_state = \<lparr>delimiter = '';'', lineLeading = True\<rparr>\<rparr>"

definition strip_rel :: "jsstring \<Rightarrow> nat \<Rightarrow> StripState \<Rightarrow> KeptState \<Rightarrow> bool" where
  "strip_rel sql p st k \<longleftrightarrow> s_state st = k_state k \<and> nonspace (out_text st) = nonspace (kept_text k)
     \<and> (stripped k = 0 \<longrightarrow> out_text st = take p sql \<and> kept_text k = take p sql \<and> \<not> lineHadComment st)"

lemma eoln_text:
  assumes "scanToken sql p opts ts = Some (Some t)" "kind t = Eoln" "p < length sql"
  shows "slice sql p (strip_end opts sql p t) = [NL] \<and> strip_end opts sql p t = Suc p"
  using scanToken_eoln [OF assms(1,2)] assms(2,3)
  by (auto simp: strip_end_def slice_def strippable_def Let_def take_Suc_conv_app_nth)

lemma nonspace_NL [simp]: "nonspace [] = []" "nonspace [NL] = []" "nonspace [SP] = []"
  by (simp_all add: nonspace_def is_space_def code_of_def)

lemma take_slice: "p \<le> e \<Longrightarrow> take p s @ slice s p e = take e s"
  by (simp add: slice_def take_add [symmetric])

lemma dropCommentOnlyLine_sel [simp]:
  "s_state (dropCommentOnlyLine st) = s_state st"
  "lineHadComment (dropCommentOnlyLine st) = lineHadComment st"
  "lineStart (dropCommentOnlyLine st) = lineStart st"
  "\<not> lineHadComment st \<Longrightarrow> dropCommentOnlyLine st = st"
  by (simp_all add: dropCommentOnlyLine_def)

lemma strip_rel_step:
  assumes rel: "strip_rel sql p st k" and p: "p < length sql" and t: "stripScan opts sql p st = Some (Some t)"
    and wf: "wf_options opts"
  shows "fst (stripStep opts sql t p st) = fst (keptStep opts sql t p k) \<and>
    strip_rel sql (fst (stripStep opts sql t p st)) (snd (stripStep opts sql t p st)) (snd (keptStep opts sql t p k))"
proof -
  let ?e = "strip_end opts sql p t"
  have sc: "scanToken sql p opts (s_state st) = Some (Some t)" using t by (simp add: stripScan_def)
  then have "token_ok sql p t" using scanToken_ok [OF wf p, of "s_state st"] by auto
  then have e: "p < ?e" using strip_end_bounds [OF sc] by simp
  show ?thesis
  proof (cases "strippable opts sql p t")
    case True
    with rel show ?thesis
      by (simp add: stripStep_def keptStep_def Let_def strip_rel_def)
  next
    case ns: False
    show ?thesis
    proof (cases "kind t = Eoln")
      case True
      note n = eoln_text [OF sc True p]
      have tk: "take p sql @ [NL] = take (Suc p) sql"
        using take_slice [of p "Suc p" sql] n by (metis le_SucI order_refl)
      show ?thesis using rel ns True n tk
        by (auto simp: stripStep_def keptStep_def Let_def strip_rel_def)
    next
      case False
      with rel ns e take_slice [of p ?e sql] show ?thesis
        by (simp add: stripStep_def keptStep_def Let_def strip_rel_def)
    qed
  qed
qed

lemma strip_kept:
  assumes wf: "wf_options opts"
  shows "\<exists>st k. token_loop (stripScan opts sql) (stripStep opts sql) (length sql) (Suc (length sql)) 0 stripInit = Some st
     \<and> keptTokens sql opts = Some k \<and> strip_rel sql (length sql) st k"
proof -
  let ?k = "\<lparr>kept_text = [], stripped = 0, k_state = \<lparr>delimiter = '';'', lineLeading = True\<rparr>\<rparr>"
  let ?R = "\<lambda>p st k. strip_rel sql p st k \<and> p \<le> length sql"
  obtain st where st: "token_loop (stripScan opts sql) (stripStep opts sql) (length sql) (Suc (length sql)) 0 stripInit
      = Some st"
    using strip.loop_returns [OF wf, of 0 sql "Suc (length sql)" stripInit] by auto
  have "\<exists>k q. token_loop (\<lambda>p st. scanToken sql p opts (k_state st)) (keptStep opts sql) (length sql)
      (Suc (length sql)) 0 ?k = Some k \<and> ?R q st k
      \<and> (length sql \<le> q \<or> stripScan opts sql q st = Some None)"
  proof (rule token_loop_sim [where ?scan1.0 = "stripScan opts sql" and ?step1.0 = "stripStep opts sql" and R = ?R,
        OF _ _ _ st])
    show "?R 0 stripInit ?k" by (simp add: strip_rel_def stripInit_def)
  next
    fix p st k assume "?R p st k"
    then show "stripScan opts sql p st = scanToken sql p opts (k_state k)"
      by (simp add: stripScan_def strip_rel_def)
  next
    fix p st k t
    assume R: "?R p st k" and p: "p < length sql" and t: "stripScan opts sql p st = Some (Some t)"
    obtain u where "stripScan opts sql p st = Some (Some u)" "token_ok sql p u"
      using strip.scan_total [OF wf p, of st] by blast
    with t have ok: "token_ok sql p t" by simp
    have "fst (stripStep opts sql t p st) \<le> length sql"
      using strip.step_progress [OF wf t ok] by (metis prod.collapse)
    with strip_rel_step [OF _ p t wf] R show "fst (stripStep opts sql t p st) = fst (keptStep opts sql t p k)
      \<and> ?R (fst (stripStep opts sql t p st)) (snd (stripStep opts sql t p st)) (snd (keptStep opts sql t p k))"
      by blast
  qed
  then obtain k q where k: "keptTokens sql opts = Some k" "strip_rel sql q st k" "q \<le> length sql"
    "length sql \<le> q \<or> stripScan opts sql q st = Some None" unfolding keptTokens_def by blast
  moreover have "q = length sql"
  proof (rule ccontr)
    assume "q \<noteq> length sql"
    with k(3) have "q < length sql" by simp
    from strip.scan_total [OF wf this, of st] k(4) \<open>q < length sql\<close> show False by auto
  qed
  ultimately show ?thesis using st by blast
qed

lemma declaredOptions_wf: "wf_input input \<Longrightarrow> declaredOptions input = Some opts \<Longrightarrow> wf_options opts"
  by (cases input) (auto simp: declaredOptions_def wf_input_def split: if_splits option.splits)

text \<open>C15 (stripSqlComments_keeps_code): stripping always returns; apart from whitespace its result is the
  concatenation of exactly the tokens that are not strippable comments (string literals, quoted
  identifiers, optimizer hints and executable comments included), and when no comment was stripped
  it is the input itself, whitespace included.\<close>

theorem stripSqlComments_keeps_code:
  assumes "wf_input input" "declaredOptions input = Some opts"
  shows "\<exists>out k. stripSqlComments sql input = Some out \<and> keptTokens sql opts = Some k
    \<and> nonspace out = nonspace (kept_text k) \<and> (stripped k = 0 \<longrightarrow> out = sql)"
  using strip_kept [OF declaredOptions_wf [OF assms], of sql]
  by (auto simp: stripSqlComments_def assms(2) strip_rel_def)

lemma stripSqlComments_keeps_code_witness:
  "\<exists>out k. stripSqlComments ''a /* b */ c'' (DialectName ''mysql'') = Some out
    \<and> keptTokens ''a /* b */ c'' MYSQL = Some k
    \<and> nonspace out = nonspace (kept_text k) \<and> (stripped k = 0 \<longrightarrow> out = ''a /* b */ c'')"
  by (rule stripSqlComments_keeps_code)
    (simp_all add: wf_input_def declaredOptions_def isDialect_def DIALECT_TABLE_def)

end
