(* ===== verification/Tabs.thy ===== *)
theory Tabs
  imports JsValue
begin

text \<open>
  The editor's tabs: filtering (\<open>utils/tabFilters.ts\<close>), pinning and bulk close (\<open>utils/tabPins.ts\<close>),
  reordering (\<open>utils/tabDnd.ts\<close>), what is stored of a tab (\<open>utils/tabCleaner.ts\<close>) and the stacks of
  closed tabs (\<open>utils/closedTabs.ts\<close>). All tabs of all connections are one list; an operation on one
  connection leaves the others' tabs in their slots. Fields the code only copies are \<open>jsval\<close>s;
  \<open>pinned\<close> is its truth value. \<open>generateTabId\<close> is random, so a fresh id is an argument.
\<close>

datatype TabType = TConsole | TTable | TQueryBuilder | TNotebook | TUsers

record CleanedTab =
  c_id :: jsstring
  c_title :: jsstring
  c_type :: "TabType option"
  c_query :: jsstring
  c_page :: int
  c_activeTable :: "jsstring option"
  c_pkColumns :: "jsstring list option"
  c_connectionId :: jsstring
  c_database :: jsval
  c_flowState :: jsval
  c_isEditorOpen :: jsval
  c_filterClause :: jsval
  c_sortClause :: jsval
  c_limitClause :: jsval
  c_pageSize :: jsval
  c_transposed :: jsval
  c_autoRefreshIntervalMs :: "nat option"
  c_queryParams :: jsval
  c_notebookId :: jsval
  c_schema :: jsval
  c_readOnly :: jsval
  c_sourceFilePath :: jsval
  c_sourceFileContent :: jsval
  c_sourceFileDirty :: jsval
  c_pinned :: bool

text \<open>A full tab. \<open>t_runtime\<close> holds the optional fields that neither storing nor restoring names
  (column metadata, results of a multi-statement run, grid history).\<close>

record Tab =
  t_id :: jsstring
  t_title :: jsstring
  t_type :: TabType
  t_query :: jsstring
  t_page :: int
  t_activeTable :: "jsstring option"
  t_pkColumns :: "jsstring list option"
  t_connectionId :: jsstring
  t_database :: jsval
  t_flowState :: jsval
  t_isEditorOpen :: jsval
  t_filterClause :: jsval
  t_sortClause :: jsval
  t_limitClause :: jsval
  t_pageSize :: jsval
  t_transposed :: jsval
  t_autoRefreshIntervalMs :: "nat option"
  t_queryParams :: jsval
  t_notebookId :: jsval
  t_schema :: jsval
  t_readOnly :: jsval
  t_sourceFilePath :: jsval
  t_sourceFileContent :: jsval
  t_sourceFileDirty :: jsval
  t_pinned :: bool
  t_result :: jsval
  t_error :: jsstring
  t_executionTime :: jsval
  t_isLoading :: bool
  t_isAutoRefreshing :: bool
  t_autoRefreshError :: jsstring
  t_pendingChanges :: jsval
  t_pendingInsertions :: jsval
  t_pendingDeletions :: jsval
  t_selectedRows :: jsval
  t_notebookState :: jsval
  t_runtime :: "(jsstring \<times> jsval) list"

section \<open>Filters\<close>

definition filterTabsByConnection :: "Tab list \<Rightarrow> jsstring option \<Rightarrow> Tab list" where
  "filterTabsByConnection tabs connectionId =
     (case connectionId of None \<Rightarrow> []
      | Some c \<Rightarrow> if c = [] then [] else filter (\<lambda>t. t_connectionId t = c) tabs)"

definition findTabById :: "Tab list \<Rightarrow> jsstring option \<Rightarrow> Tab option" where
  "findTabById tabs tabId =
     (case tabId of None \<Rightarrow> None
      | Some i \<Rightarrow> if i = [] then None else find (\<lambda>t. t_id t = i) tabs)"

definition getActiveTabForConnection ::
  "Tab list \<Rightarrow> jsstring option \<Rightarrow> jsstring option \<Rightarrow> Tab option" where
  "getActiveTabForConnection tabs connectionId activeTabId =
     (if connectionId = None \<or> connectionId = Some [] \<or> activeTabId = None \<or> activeTabId = Some [] then None
      else case findTabById tabs activeTabId of
             None \<Rightarrow> None
           | Some tab \<Rightarrow> if Some (t_connectionId tab) = connectionId then Some tab else None)"

definition hasTabsForConnection :: "Tab list \<Rightarrow> jsstring option \<Rightarrow> bool" where
  "hasTabsForConnection tabs connectionId =
     (case connectionId of None \<Rightarrow> False
      | Some c \<Rightarrow> c \<noteq> [] \<and> list_ex (\<lambda>t. t_connectionId t = c) tabs)"

definition countTabsForConnection :: "Tab list \<Rightarrow> jsstring option \<Rightarrow> nat" where
  "countTabsForConnection tabs connectionId = length (filterTabsByConnection tabs connectionId)"

section \<open>Pins\<close>

datatype BulkTabCloseAction = CloseAll | CloseOthers | CloseLeft | CloseRight

fun in_range :: "nat option \<Rightarrow> BulkTabCloseAction \<Rightarrow> nat \<Rightarrow> bool" where
  "in_range target CloseAll i = True"
| "in_range target CloseOthers i = (Some i \<noteq> target)"
| "in_range target CloseLeft i = (case target of None \<Rightarrow> False | Some k \<Rightarrow> i < k)"
| "in_range target CloseRight i = (case target of None \<Rightarrow> False | Some k \<Rightarrow> i > k)"

definition getBulkClosedTabIds :: "Tab list \<Rightarrow> BulkTabCloseAction \<Rightarrow> jsstring option \<Rightarrow> jsstring list" where
  "getBulkClosedTabIds connectionTabs action targetTabId =
     (let targetIndex = find_index (\<lambda>t. Some (t_id t) = targetTabId) connectionTabs
      in map (t_id \<circ> snd)
           (filter (\<lambda>(i, t). \<not> t_pinned t \<and> in_range targetIndex action i) (enumerate 0 connectionTabs)))"

text \<open>\<open>tabs.map((t) => P(t) ? ordered[next++] : t)\<close>; \<open>None\<close>: \<open>ordered\<close> ran out (an \<open>undefined\<close> tab).\<close>

fun fill_slots :: "('a \<Rightarrow> bool) \<Rightarrow> 'a list \<Rightarrow> 'a list \<Rightarrow> 'a list option" where
  "fill_slots P [] ordered = Some []"
| "fill_slots P (t # ts) ordered =
     (if P t then
        (case ordered of [] \<Rightarrow> None | u # us \<Rightarrow> map_option (Cons u) (fill_slots P ts us))
      else map_option (Cons t) (fill_slots P ts ordered))"

definition keepPinnedTabsFirst :: "Tab list \<Rightarrow> jsstring \<Rightarrow> Tab list option" where
  "keepPinnedTabsFirst tabs connectionId =
     (let connectionTabs = filter (\<lambda>t. t_connectionId t = connectionId) tabs;
          ordered = filter t_pinned connectionTabs @ filter (\<lambda>t. \<not> t_pinned t) connectionTabs
      in if ordered = connectionTabs then Some tabs
         else fill_slots (\<lambda>t. t_connectionId t = connectionId) tabs ordered)"

definition setTabPinned :: "Tab list \<Rightarrow> jsstring \<Rightarrow> bool \<Rightarrow> Tab list option" where
  "setTabPinned tabs tabId pin =
     (case find (\<lambda>t. t_id t = tabId) tabs of
        None \<Rightarrow> Some tabs
      | Some target \<Rightarrow>
          if t_pinned target = pin then Some tabs
          else
            (let others = filter (\<lambda>t. t_connectionId t = t_connectionId target \<and> t_id t \<noteq> tabId) tabs;
                 ordered = filter t_pinned others @ [target\<lparr>t_pinned := pin\<rparr>]
                           @ filter (\<lambda>t. \<not> t_pinned t) others
             in fill_slots (\<lambda>t. t_connectionId t = t_connectionId target) tabs ordered))"

section \<open>Moving a tab\<close>

definition groupGapRange :: "Tab list \<Rightarrow> nat \<Rightarrow> int \<times> int" where
  "groupGapRange connectionTabs index =
     (let pinnedCount = int (length (filter t_pinned connectionTabs))
      in if t_pinned (connectionTabs ! index) then (0, pinnedCount)
         else (pinnedCount, int (length connectionTabs)))"

definition clamp :: "int \<Rightarrow> int \<Rightarrow> int \<Rightarrow> int" where
  "clamp lo hi x = min (max x lo) hi"

definition clampTabGap :: "Tab list \<Rightarrow> jsstring \<Rightarrow> int \<Rightarrow> int" where
  "clampTabGap connectionTabs tabId insertAt =
     (case find_index (\<lambda>t. t_id t = tabId) connectionTabs of
        None \<Rightarrow> insertAt
      | Some index \<Rightarrow> (case groupGapRange connectionTabs index of (lo, hi) \<Rightarrow> clamp lo hi insertAt))"

text \<open>Two \<open>splice\<close>s: take the element out, put it back so that it lands in the gap.\<close>

definition splice_move :: "'a list \<Rightarrow> nat \<Rightarrow> nat \<Rightarrow> 'a list" where
  "splice_move xs fromIndex gap =
     (let moved = xs ! fromIndex;
          rest = take fromIndex xs @ drop (Suc fromIndex) xs;
          target = (if gap > fromIndex then gap - 1 else gap)
      in take target rest @ moved # drop target rest)"

definition moveTab :: "Tab list \<Rightarrow> jsstring \<Rightarrow> jsstring \<Rightarrow> int \<Rightarrow> Tab list option" where
  "moveTab tabs connectionId fromTabId insertAt =
     (let connectionTabs = filter (\<lambda>t. t_connectionId t = connectionId) tabs
      in case find_index (\<lambda>t. t_id t = fromTabId) connectionTabs of
           None \<Rightarrow> Some tabs
         | Some fromIndex \<Rightarrow>
             if insertAt < 0 \<or> insertAt > int (length connectionTabs) then Some tabs
             else
               (case groupGapRange connectionTabs fromIndex of (lo, hi) \<Rightarrow>
                  (let gap = clamp lo hi insertAt
                   in if gap = int fromIndex \<or> gap = int fromIndex + 1 then Some tabs
                      else fill_slots (\<lambda>t. t_connectionId t = connectionId) tabs
                             (splice_move connectionTabs fromIndex (nat gap)))))"

datatype Direction = DLeft | DRight

definition getAdjacentTabGap :: "Tab list \<Rightarrow> jsstring \<Rightarrow> jsstring \<Rightarrow> Direction \<Rightarrow> int option" where
  "getAdjacentTabGap tabs connectionId tabId direction =
     (let connectionTabs = filter (\<lambda>t. t_connectionId t = connectionId) tabs
      in case find_index (\<lambda>t. t_id t = tabId) connectionTabs of
           None \<Rightarrow> None
         | Some index \<Rightarrow>
             (let gap = (if direction = DLeft then int index - 1 else int index + 2)
              in case groupGapRange connectionTabs index of (lo, hi) \<Rightarrow>
                   if gap < lo \<or> gap > hi then None else Some gap))"

section \<open>Storing and restoring\<close>

definition AUTO_REFRESH_INTERVALS :: "nat list" where
  "AUTO_REFRESH_INTERVALS = [0, 5000, 10000, 30000, 60000]"

definition normalizeAutoRefreshInterval :: "nat option \<Rightarrow> nat option" where
  "normalizeAutoRefreshInterval v =
     (case find (\<lambda>i. Some i = v) AUTO_REFRESH_INTERVALS of Some i \<Rightarrow> Some i | None \<Rightarrow> Some 0)"

definition cleanTabForStorage :: "Tab \<Rightarrow> CleanedTab" where
  "cleanTabForStorage tab =
     \<lparr>c_id = t_id tab, c_title = t_title tab, c_type = Some (t_type tab), c_query = t_query tab,
      c_page = t_page tab, c_activeTable = t_activeTable tab, c_pkColumns = t_pkColumns tab,
      c_connectionId = t_connectionId tab, c_database = t_database tab, c_flowState = t_flowState tab,
      c_isEditorOpen = t_isEditorOpen tab, c_filterClause = t_filterClause tab,
      c_sortClause = t_sortClause tab, c_limitClause = t_limitClause tab, c_pageSize = t_pageSize tab,
      c_transposed = t_transposed tab,
      c_autoRefreshIntervalMs = normalizeAutoRefreshInterval (t_autoRefreshIntervalMs tab),
      c_queryParams = t_queryParams tab, c_notebookId = t_notebookId tab, c_schema = t_schema tab,
      c_readOnly = t_readOnly tab, c_sourceFilePath = t_sourceFilePath tab,
      c_sourceFileContent = t_sourceFileContent tab, c_sourceFileDirty = t_sourceFileDirty tab,
      c_pinned = t_pinned tab\<rparr>"

definition restoreTabFromStorage :: "CleanedTab \<Rightarrow> Tab" where
  "restoreTabFromStorage c =
     \<lparr>t_id = c_id c, t_title = (if c_title c = [] then ''Untitled'' else c_title c),
      t_type = (case c_type c of None \<Rightarrow> TConsole | Some ty \<Rightarrow> ty), t_query = c_query c,
      t_page = (if c_page c = 0 then 1 else c_page c),
      t_activeTable = (if c_activeTable c = Some [] then None else c_activeTable c),
      t_pkColumns = c_pkColumns c, t_connectionId = c_connectionId c, t_database = c_database c,
      t_flowState = c_flowState c, t_isEditorOpen = c_isEditorOpen c, t_filterClause = c_filterClause c,
      t_sortClause = c_sortClause c, t_limitClause = c_limitClause c, t_pageSize = c_pageSize c,
      t_transposed = c_transposed c,
      t_autoRefreshIntervalMs = normalizeAutoRefreshInterval (c_autoRefreshIntervalMs c),
      t_queryParams = c_queryParams c, t_notebookId = c_notebookId c, t_schema = c_schema c,
      t_readOnly = c_readOnly c, t_sourceFilePath = c_sourceFilePath c,
      t_sourceFileContent = c_sourceFileContent c, t_sourceFileDirty = c_sourceFileDirty c,
      t_pinned = c_pinned c,
      t_result = JNull, t_error = [], t_executionTime = JNull, t_isLoading = False,
      t_isAutoRefreshing = False, t_autoRefreshError = [], t_pendingChanges = JUndefined,
      t_pendingInsertions = JUndefined, t_pendingDeletions = JUndefined, t_selectedRows = JUndefined,
      t_notebookState = JUndefined, t_runtime = []\<rparr>"

section \<open>Closed tabs\<close>

definition MAX_CLOSED_TABS :: nat where
  "MAX_CLOSED_TABS = 20"

record ClosedTabEntry =
  e_tab :: CleanedTab
  e_index :: nat

type_synonym ClosedTabs = "jsstring \<Rightarrow> ClosedTabEntry list option"

definition keep_last :: "nat \<Rightarrow> 'a list \<Rightarrow> 'a list" where
  "keep_last n xs = (if length xs > n then drop (length xs - n) xs else xs)"

definition pushClosedTab :: "Tab list \<Rightarrow> jsstring \<Rightarrow> ClosedTabs \<Rightarrow> ClosedTabs" where
  "pushClosedTab tabsBeforeClose i next =
     (case find (\<lambda>t. t_id t = i) tabsBeforeClose of
        None \<Rightarrow> next
      | Some tab \<Rightarrow>
          if t_type tab = TNotebook then next
          else
            (let conn = t_connectionId tab;
                 stack = (case next conn of None \<Rightarrow> [] | Some s \<Rightarrow> s);
                 index = find_index (\<lambda>t. t_id t = i) (filter (\<lambda>t. t_connectionId t = conn) tabsBeforeClose);
                 entries = stack @ [\<lparr>e_tab = cleanTabForStorage tab,
                                     e_index = (case index of None \<Rightarrow> 0 | Some k \<Rightarrow> k)\<rparr>]
             in next(conn \<mapsto> keep_last MAX_CLOSED_TABS entries)))"

definition pushClosedTabs :: "ClosedTabs \<Rightarrow> Tab list \<Rightarrow> jsstring list \<Rightarrow> ClosedTabs" where
  "pushClosedTabs stacks tabsBeforeClose closedIds =
     foldl (\<lambda>next i. pushClosedTab tabsBeforeClose i next) stacks closedIds"

definition popClosedTab :: "ClosedTabs \<Rightarrow> jsstring \<Rightarrow> ClosedTabEntry option \<times> ClosedTabs" where
  "popClosedTab stacks connectionId =
     (case stacks connectionId of
        None \<Rightarrow> (None, stacks)
      | Some stack \<Rightarrow>
          if stack = [] then (None, stacks)
          else (Some (last stack), stacks(connectionId \<mapsto> butlast stack)))"

definition insert_at :: "nat \<Rightarrow> 'a \<Rightarrow> 'a list \<Rightarrow> 'a list" where
  "insert_at i x xs = take i xs @ x # drop i xs"

definition insertReopenedTab ::
  "jsstring \<Rightarrow> Tab list \<Rightarrow> jsstring \<Rightarrow> ClosedTabEntry \<Rightarrow> Tab list \<times> Tab" where
  "insertReopenedTab freshId tabs connectionId entry =
     (let idTaken = list_ex (\<lambda>t. t_id t = c_id (e_tab entry)) tabs;
          tab = restoreTabFromStorage (if idTaken then (e_tab entry)\<lparr>c_id := freshId\<rparr> else e_tab entry);
          connectionPositions =
            map fst (filter (\<lambda>(i, t). t_connectionId t = connectionId) (enumerate 0 tabs));
          index = min (e_index entry) (length connectionPositions);
          newTabs =
            (if index < length connectionPositions then insert_at (connectionPositions ! index) tab tabs
             else if length connectionPositions > 0 then
               insert_at (connectionPositions ! (length connectionPositions - 1) + 1) tab tabs
             else tabs @ [tab])
      in (newTabs, tab))"

end
