(* ===== verification/TabFacts.thy ===== *)
theory TabFacts
  imports Tabs
begin

text \<open>
  Correctness of the tab operations: filling one connection's slots permutes nothing else, pinning and
  moving keep the pinned tabs first, the keyboard move is one position, a stored tab is restored to a
  tab that stores the same, and a tab that is closed and reopened comes back to its place.
\<close>

named_theorems tab_defs \<open>definitions the tab proofs unfold\<close>

section \<open>Slots\<close>

text \<open>What another connection sees of the list: its own tabs in their slots.\<close>

definition other_slots :: "jsstring \<Rightarrow> Tab list \<Rightarrow> Tab option list" where
  "other_slots c tabs = map (\<lambda>t. if t_connectionId t = c then None else Some t) tabs"

abbreviation conn_tabs :: "jsstring \<Rightarrow> Tab list \<Rightarrow> Tab list" where
  "conn_tabs c tabs \<equiv> filter (\<lambda>t. t_connectionId t = c) tabs"

lemma fill_slots_Some:
  "length os = length (filter P ts) \<Longrightarrow> list_all P os \<Longrightarrow>
   \<exists>r. fill_slots P ts os = Some r \<and> filter P r = os \<and> filter (\<lambda>x. \<not> P x) r = filter (\<lambda>x. \<not> P x) ts
     \<and> map (\<lambda>t. if P t then None else Some t) r = map (\<lambda>t. if P t then None else Some t) ts"
proof (induction P ts os rule: fill_slots.induct)
  case (2 P t ts os)
  show ?case
  proof (cases "P t")
    case True
    with "2.prems" obtain u us where "os = u # us" by (cases os) auto
    with 2 True show ?thesis by auto
  next
    case False
    with 2 show ?thesis by auto
  qed
qed simp

lemma mset_partition_eq:
  "mset (filter P r) = mset (filter P ts) \<Longrightarrow> filter (\<lambda>x. \<not> P x) r = filter (\<lambda>x. \<not> P x) ts \<Longrightarrow> mset r = mset ts"
  by (metis mset_filter multiset_partition)

lemma fill_conn:
  assumes "mset os = mset (conn_tabs c tabs)"
  shows "\<exists>r. fill_slots (\<lambda>t. t_connectionId t = c) tabs os = Some r \<and> conn_tabs c r = os
     \<and> mset r = mset tabs \<and> other_slots c r = other_slots c tabs"
proof -
  have "length os = length (conn_tabs c tabs)" by (rule mset_eq_length [OF assms])
  moreover have "list_all (\<lambda>t. t_connectionId t = c) os"
    using mset_eq_setD [OF assms] by (auto simp: list_all_iff)
  ultimately obtain r where r: "fill_slots (\<lambda>t. t_connectionId t = c) tabs os = Some r"
    "conn_tabs c r = os" "filter (\<lambda>t. t_connectionId t \<noteq> c) r = filter (\<lambda>t. t_connectionId t \<noteq> c) tabs"
    "other_slots c r = other_slots c tabs"
    using fill_slots_Some [of os "\<lambda>t. t_connectionId t = c" tabs] unfolding other_slots_def by blast
  moreover have "mset r = mset tabs"
    by (rule mset_partition_eq [of "\<lambda>t. t_connectionId t = c"]) (use assms r in simp_all)
  ultimately show ?thesis by blast
qed

section \<open>Pinned tabs first\<close>

definition pinned_first :: "Tab list \<Rightarrow> bool" where
  "pinned_first ts \<longleftrightarrow> filter t_pinned ts @ filter (\<lambda>t. \<not> t_pinned t) ts = ts"

lemma pinned_first_append:
  "list_all t_pinned ps \<Longrightarrow> list_all (\<lambda>t. \<not> t_pinned t) us \<Longrightarrow> pinned_first (ps @ us)"
  by (simp add: pinned_first_def list_all_iff filter_empty_conv filter_id_conv)

lemma pinned_first_split:
  assumes "pinned_first ts"
  obtains ps us where "ts = ps @ us" "list_all t_pinned ps" "list_all (\<lambda>t. \<not> t_pinned t) us"
    "length ps = length (filter t_pinned ts)"
proof -
  from assms have "ts = filter t_pinned ts @ filter (\<lambda>t. \<not> t_pinned t) ts" by (simp add: pinned_first_def)
  then show ?thesis by (rule that) (simp_all add: list_all_iff)
qed

text \<open>Property (keepPinnedTabsFirst_correct): reordering gives a list of the same tabs in which the connection's
  pinned tabs come first, the order inside each group unchanged, and every other connection's tab is
  still in its slot; no slot is left without a tab.\<close>

theorem keepPinnedTabsFirst_correct:
  "\<exists>r. keepPinnedTabsFirst tabs c = Some r \<and> mset r = mset tabs \<and> other_slots c r = other_slots c tabs
    \<and> conn_tabs c r = filter t_pinned (conn_tabs c tabs) @ filter (\<lambda>t. \<not> t_pinned t) (conn_tabs c tabs)"
proof -
  let ?o = "filter t_pinned (conn_tabs c tabs) @ filter (\<lambda>t. \<not> t_pinned t) (conn_tabs c tabs)"
  have "mset ?o = mset (conn_tabs c tabs)"
    unfolding mset_append mset_filter [of "\<lambda>t. \<not> t_pinned t"] mset_filter [of t_pinned]
    by (rule multiset_partition [symmetric])
  from fill_conn [OF this] obtain r where r: "fill_slots (\<lambda>t. t_connectionId t = c) tabs ?o = Some r"
    "conn_tabs c r = ?o" "mset r = mset tabs" "other_slots c r = other_slots c tabs" by blast
  show ?thesis
  proof (cases "?o = conn_tabs c tabs")
    case True
    then show ?thesis unfolding keepPinnedTabsFirst_def Let_def by simp
  next
    case False
    then show ?thesis using r unfolding keepPinnedTabsFirst_def Let_def by simp
  qed
qed

section \<open>Moving\<close>

lemma take_nth_drop: "i < length xs \<Longrightarrow> xs = take i xs @ xs ! i # drop (Suc i) xs"
  by (simp add: Cons_nth_drop_Suc)

lemma mset_splice_move:
  assumes "f < length xs"
  shows "mset (splice_move xs f g) = mset xs"
proof -
  let ?rest = "take f xs @ drop (Suc f) xs"
  have "mset (take k ?rest @ x # drop k ?rest) = add_mset x (mset ?rest)" for k x
    by (metis add_mset_add_single append_take_drop_id mset.simps(2) mset_append union_mset_add_mset_right)
  then have "mset (splice_move xs f g) = add_mset (xs ! f) (mset (take f xs) + mset (drop (Suc f) xs))"
    unfolding splice_move_def Let_def mset_append [symmetric] by blast
  also have "\<dots> = mset (take f xs @ xs ! f # drop (Suc f) xs)" by simp
  finally show ?thesis using take_nth_drop [OF assms] by simp
qed

lemma splice_move_pinned:
  assumes "f < length ps" "g \<le> length ps" "list_all t_pinned ps" "list_all (\<lambda>t. \<not> t_pinned t) us"
  shows "pinned_first (splice_move (ps @ us) f g)"
proof -
  let ?ps = "take f ps @ drop (Suc f) ps"
  let ?t = "if g > f then g - 1 else g"
  have "?t \<le> length ?ps" using assms(1,2) by auto
  then have "splice_move (ps @ us) f g = (take ?t ?ps @ ps ! f # drop ?t ?ps) @ us"
    using assms(1) by (simp add: splice_move_def Let_def nth_append)
  moreover have "list_all t_pinned (take ?t ?ps @ ps ! f # drop ?t ?ps)"
    using assms(1,3) by (auto simp: list_all_iff dest!: in_set_takeD in_set_dropD)
  ultimately show ?thesis using assms(4) by (simp only: pinned_first_append)
qed

lemma splice_move_unpinned:
  assumes "length ps \<le> f" "f < length ps + length us" "length ps \<le> g" "g \<le> length ps + length us"
    and "list_all t_pinned ps" "list_all (\<lambda>t. \<not> t_pinned t) us"
  shows "pinned_first (splice_move (ps @ us) f g)"
proof -
  let ?f = "f - length ps"
  let ?us = "take ?f us @ drop (Suc ?f) us"
  let ?t = "if g > f then g - 1 else g"
  have rest: "take f (ps @ us) @ drop (Suc f) (ps @ us) = ps @ ?us"
    using assms(1) by (simp add: Suc_diff_le)
  have t: "length ps \<le> ?t" using assms(1,3) by auto
  have "splice_move (ps @ us) f g = ps @ (take (?t - length ps) ?us @ us ! ?f # drop (?t - length ps) ?us)"
    using assms(1,2) t unfolding splice_move_def Let_def rest by (simp add: nth_append)
  moreover have "list_all (\<lambda>t. \<not> t_pinned t) (take (?t - length ps) ?us @ us ! ?f # drop (?t - length ps) ?us)"
    using assms(1,2,6) by (auto simp: list_all_iff dest!: in_set_takeD in_set_dropD)
  ultimately show ?thesis using assms(5) by (simp only: pinned_first_append)
qed

lemma splice_move_pinned_first:
  assumes xs: "pinned_first xs" and f: "f < length xs"
    and g: "groupGapRange xs f = (lo, hi)" "lo \<le> g" "g \<le> hi"
  shows "pinned_first (splice_move xs f (nat g))"
proof -
  obtain ps us where s: "xs = ps @ us" "list_all t_pinned ps" "list_all (\<lambda>t. \<not> t_pinned t) us"
    "length ps = length (filter t_pinned xs)" by (rule pinned_first_split [OF xs])
  show ?thesis
  proof (cases "f < length ps")
    case True
    then have "t_pinned (xs ! f)" using s(1,2) by (simp add: nth_append list_all_length)
    with g s(4) have "nat g \<le> length ps" by (auto simp: groupGapRange_def Let_def)
    with True s show ?thesis by (simp add: splice_move_pinned)
  next
    case False
    with f s(1) have "f - length ps < length us" by simp
    with False s(1,3) have "\<not> t_pinned (xs ! f)" by (simp add: nth_append list_all_length)
    with g s(1,4) have "length ps \<le> nat g" "nat g \<le> length ps + length us"
      by (auto simp: groupGapRange_def Let_def)
    with False f s show ?thesis by (simp add: splice_move_unpinned)
  qed
qed

lemma clamp_range: "lo \<le> hi \<Longrightarrow> lo \<le> clamp lo hi x \<and> clamp lo hi x \<le> hi"
  by (simp add: clamp_def)

lemma groupGapRange_le: "groupGapRange xs i = (lo, hi) \<Longrightarrow> lo \<le> hi"
  using length_filter_le [of t_pinned xs] by (auto simp: groupGapRange_def Let_def split: if_splits)

lemma moveTab_conn:
  "\<exists>r. moveTab tabs c i g = Some r \<and> mset r = mset tabs \<and> other_slots c r = other_slots c tabs
    \<and> (pinned_first (conn_tabs c tabs) \<longrightarrow> pinned_first (conn_tabs c r))"
proof (cases "find_index (\<lambda>t. t_id t = i) (conn_tabs c tabs)")
  case None
  then show ?thesis by (simp add: moveTab_def)
next
  case (Some f)
  let ?xs = "conn_tabs c tabs"
  have f: "f < length ?xs" using find_index_Some [OF Some] by blast
  obtain lo hi where r: "groupGapRange ?xs f = (lo, hi)" by fastforce
  let ?g = "clamp lo hi g"
  have g: "lo \<le> ?g" "?g \<le> hi" using clamp_range [OF groupGapRange_le [OF r]] by auto
  obtain r' where r': "fill_slots (\<lambda>t. t_connectionId t = c) tabs (splice_move ?xs f (nat ?g)) = Some r'"
    "conn_tabs c r' = splice_move ?xs f (nat ?g)" "mset r' = mset tabs" "other_slots c r' = other_slots c tabs"
    using fill_conn [OF mset_splice_move [OF f]] by blast
  have "pinned_first (conn_tabs c r')" if "pinned_first ?xs"
    unfolding r'(2) by (rule splice_move_pinned_first [OF that f r g])
  with r' r Some show ?thesis by (simp add: moveTab_def Let_def)
qed

text \<open>Property (moveTab_keeps_pinned_first): dragging a tab to any gap, in range or not, only permutes its own
  connection's tabs; other connections' tabs stay in their slots, and if the pinned tabs were first
  they still are.\<close>

theorem moveTab_keeps_pinned_first:
  assumes "pinned_first (conn_tabs c tabs)"
  shows "\<exists>r. moveTab tabs c tabId insertAt = Some r \<and> mset r = mset tabs
    \<and> other_slots c r = other_slots c tabs \<and> pinned_first (conn_tabs c r)"
  using moveTab_conn [of tabs c tabId insertAt] assms by blast

text \<open>A sample tab for the witnesses.\<close>

definition sample_tab :: "jsstring \<Rightarrow> jsstring \<Rightarrow> bool \<Rightarrow> Tab" where
  "sample_tab i c pin = (restoreTabFromStorage
     \<lparr>c_id = i, c_title = ''T'', c_type = Some TTable, c_query = [], c_page = 1, c_activeTable = None,
      c_pkColumns = None, c_connectionId = c, c_database = JUndefined, c_flowState = JUndefined,
      c_isEditorOpen = JUndefined, c_filterClause = JUndefined, c_sortClause = JUndefined,
      c_limitClause = JUndefined, c_pageSize = JUndefined, c_transposed = JUndefined,
      c_autoRefreshIntervalMs = None, c_queryParams = JUndefined, c_notebookId = JUndefined,
      c_schema = JUndefined, c_readOnly = JUndefined, c_sourceFilePath = JUndefined,
      c_sourceFileContent = JUndefined, c_sourceFileDirty = JUndefined, c_pinned = pin\<rparr>)"

lemma sample_tab_sel [simp]:
  "t_id (sample_tab i c p) = i" "t_connectionId (sample_tab i c p) = c" "t_pinned (sample_tab i c p) = p"
  "t_type (sample_tab i c p) = TTable"
  by (simp_all add: sample_tab_def restoreTabFromStorage_def)

lemma moveTab_keeps_pinned_first_witness:
  "let tabs = [sample_tab ''a'' ''x'' True, sample_tab ''b'' ''y'' False, sample_tab ''c'' ''x'' False] in
   \<exists>r. moveTab tabs ''x'' ''a'' 2 = Some r \<and> mset r = mset tabs
    \<and> other_slots ''x'' r = other_slots ''x'' tabs \<and> pinned_first (conn_tabs ''x'' r)"
  unfolding Let_def by (rule moveTab_keeps_pinned_first) (simp add: pinned_first_def)

section \<open>The keyboard move\<close>

text \<open>Two neighbours of the connection's list change places.\<close>

definition swap_at :: "nat \<Rightarrow> nat \<Rightarrow> 'a list \<Rightarrow> 'a list" where
  "swap_at i j xs = xs[i := xs ! j, j := xs ! i]"

lemma swap_at_neighbours:
  assumes "Suc i < length xs"
  shows "swap_at i (Suc i) xs = take i xs @ xs ! Suc i # xs ! i # drop (Suc (Suc i)) xs"
    and "swap_at (Suc i) i xs = swap_at i (Suc i) xs"
proof -
  have "xs = take i xs @ xs ! i # xs ! Suc i # drop (Suc (Suc i)) xs"
    using assms by (simp add: Cons_nth_drop_Suc)
  then obtain as x y bs where s: "xs = as @ x # y # bs" "i = length as"
    using assms by (metis length_take min.absorb2 Suc_lessD less_imp_le_nat)
  show "swap_at i (Suc i) xs = take i xs @ xs ! Suc i # xs ! i # drop (Suc (Suc i)) xs"
    "swap_at (Suc i) i xs = swap_at i (Suc i) xs"
    unfolding s(1) s(2) by (simp_all add: swap_at_def nth_append list_update_append)
qed

lemma splice_move_left:
  assumes "Suc i < length xs"
  shows "splice_move xs (Suc i) i = swap_at i (Suc i) xs"
proof -
  have "take i (take (Suc i) xs @ drop (Suc (Suc i)) xs) = take i xs" by (simp add: min_def)
  moreover have "drop i (take (Suc i) xs @ drop (Suc (Suc i)) xs) = xs ! i # drop (Suc (Suc i)) xs"
    using assms by (simp add: take_Suc_conv_app_nth)
  ultimately show ?thesis
    using swap_at_neighbours(1) [OF assms] by (simp add: splice_move_def Let_def)
qed

lemma splice_move_right:
  assumes "Suc i < length xs"
  shows "splice_move xs i (Suc (Suc i)) = swap_at i (Suc i) xs"
proof -
  have d: "drop (Suc i) xs = xs ! Suc i # drop (Suc (Suc i)) xs" using assms by (simp add: Cons_nth_drop_Suc)
  have "take (Suc i) (take i xs @ drop (Suc i) xs) = take i xs @ [xs ! Suc i]"
    unfolding d using assms by (simp add: take_Cons')
  moreover have "drop (Suc i) (take i xs @ drop (Suc i) xs) = drop (Suc (Suc i)) xs"
    unfolding d using assms by simp
  ultimately show ?thesis
    using swap_at_neighbours(1) [OF assms] by (simp add: splice_move_def Let_def)
qed

text \<open>Property (getAdjacentTabGap_swaps): when the keyboard shortcut offers a gap, moving the tab there makes it
  change places with exactly its neighbour in that direction.\<close>

theorem getAdjacentTabGap_swaps:
  assumes "find_index (\<lambda>t. t_id t = tabId) (conn_tabs c tabs) = Some i"
    and "getAdjacentTabGap tabs c tabId d = Some gap"
  shows "\<exists>r. moveTab tabs c tabId gap = Some r
    \<and> conn_tabs c r = swap_at i (if d = DLeft then i - 1 else i + 1) (conn_tabs c tabs)"
proof -
  let ?xs = "conn_tabs c tabs"
  have i: "i < length ?xs" using find_index_Some [OF assms(1)] by blast
  obtain lo hi where r: "groupGapRange ?xs i = (lo, hi)" by fastforce
  have g: "gap = (if d = DLeft then int i - 1 else int i + 2)" "lo \<le> gap" "gap \<le> hi"
    using assms r by (auto simp: getAdjacentTabGap_def Let_def split: if_splits)
  have b: "0 \<le> lo" "hi \<le> int (length ?xs)"
    using r length_filter_le [of t_pinned ?xs] by (auto simp: groupGapRange_def Let_def split: if_splits)
  have m: "splice_move ?xs i (nat gap) = swap_at i (if d = DLeft then i - 1 else i + 1) ?xs"
  proof (cases "d = DLeft")
    case True
    with g b obtain k where k: "i = Suc k" by (cases i) auto
    with True g i show ?thesis
      using splice_move_left [of k ?xs] swap_at_neighbours(2) [of k ?xs] by simp
  next
    case False
    with g b have "Suc i < length ?xs" "nat gap = Suc (Suc i)" by auto
    with False show ?thesis using splice_move_right [of i ?xs] by simp
  qed
  obtain r' where r': "fill_slots (\<lambda>t. t_connectionId t = c) tabs (splice_move ?xs i (nat gap)) = Some r'"
    "conn_tabs c r' = splice_move ?xs i (nat gap)"
    using fill_conn [OF mset_splice_move [OF i]] by blast
  have "clamp lo hi gap = gap" using g by (simp add: clamp_def)
  with r' r assms(1) g b have "moveTab tabs c tabId gap = Some r'"
    by (auto simp: moveTab_def Let_def split: if_splits)
  with r' m show ?thesis by simp
qed

lemma getAdjacentTabGap_swaps_witness:
  "\<exists>r. moveTab [sample_tab ''a'' ''x'' False, sample_tab ''b'' ''x'' False] ''x'' ''a'' 2 = Some r
    \<and> conn_tabs ''x'' r = swap_at 0 (if DRight = DLeft then 0 - 1 else 0 + 1)
        (conn_tabs ''x'' [sample_tab ''a'' ''x'' False, sample_tab ''b'' ''x'' False])"
  by (rule getAdjacentTabGap_swaps) (simp_all add: getAdjacentTabGap_def groupGapRange_def Let_def)

section \<open>Pinning\<close>

lemma find_distinct:
  assumes "find (\<lambda>t. t_id t = i) tabs = Some t" "distinct (map t_id tabs)"
  shows "t \<in> set tabs \<and> t_id t = i \<and> (\<forall>u \<in> set tabs. t_id u = i \<longrightarrow> u = t)"
  using assms
proof (induction tabs)
  case (Cons u us)
  show ?case
  proof (cases "t_id u = i")
    case True
    with Cons.prems show ?thesis by (auto simp: image_iff)
  next
    case False
    with Cons show ?thesis by auto
  qed
qed simp

lemma length_others:
  assumes "t \<in> set tabs" "t_connectionId t = c" "\<forall>u \<in> set tabs. t_id u = t_id t \<longrightarrow> u = t" "distinct (map t_id tabs)"
  shows "length (conn_tabs c tabs) = Suc (length (filter (\<lambda>u. t_connectionId u = c \<and> t_id u \<noteq> t_id t) tabs))"
  using assms
proof (induction tabs)
  case (Cons u us)
  show ?case
  proof (cases "u = t")
    case True
    with Cons.prems have "filter (\<lambda>u. t_connectionId u = c \<and> t_id u \<noteq> t_id t) us = conn_tabs c us"
      by (intro filter_cong) auto
    with True Cons.prems(2) show ?thesis by simp
  next
    case False
    with Cons.prems have "t_id u \<noteq> t_id t" by auto
    with Cons False show ?thesis by auto
  qed
qed simp

text \<open>Property (setTabPinned_at_boundary): with distinct tab ids, pinning or unpinning a tab changes that tab's flag,
  puts it on the boundary between its connection's pinned and unpinned tabs, and leaves every other
  tab of the connection as it was and the other connections' tabs in their slots.\<close>

theorem setTabPinned_at_boundary:
  assumes "distinct (map t_id tabs)" "find (\<lambda>t. t_id t = tabId) tabs = Some target" "t_pinned target \<noteq> pin"
  shows "\<exists>r. setTabPinned tabs tabId pin = Some r
    \<and> other_slots (t_connectionId target) r = other_slots (t_connectionId target) tabs
    \<and> (let others = filter (\<lambda>t. t_connectionId t = t_connectionId target \<and> t_id t \<noteq> tabId) tabs in
       conn_tabs (t_connectionId target) r
         = filter t_pinned others @ [target\<lparr>t_pinned := pin\<rparr>] @ filter (\<lambda>t. \<not> t_pinned t) others)"
proof -
  let ?c = "t_connectionId target"
  let ?others = "filter (\<lambda>t. t_connectionId t = ?c \<and> t_id t \<noteq> tabId) tabs"
  let ?os = "filter t_pinned ?others @ [target\<lparr>t_pinned := pin\<rparr>] @ filter (\<lambda>t. \<not> t_pinned t) ?others"
  note t = find_distinct [OF assms(2,1)]
  have "length ?os = Suc (length ?others)"
    using sum_length_filter_compl [of t_pinned ?others] unfolding length_append list.size(4) list.size(3)
    by linarith
  also have "\<dots> = length (conn_tabs ?c tabs)" using length_others [of target tabs ?c] t assms(1) by simp
  finally have "length ?os = length (conn_tabs ?c tabs)" .
  moreover have "list_all (\<lambda>t. t_connectionId t = ?c) ?os" by (auto simp: list_all_iff)
  ultimately obtain r where "fill_slots (\<lambda>t. t_connectionId t = ?c) tabs ?os = Some r" "conn_tabs ?c r = ?os"
    "other_slots ?c r = other_slots ?c tabs"
    using fill_slots_Some unfolding other_slots_def by blast
  with assms(2,3) show ?thesis unfolding setTabPinned_def Let_def by simp
qed

lemma setTabPinned_at_boundary_witness:
  "let tabs = [sample_tab ''a'' ''x'' True, sample_tab ''b'' ''y'' False, sample_tab ''c'' ''x'' False];
       target = sample_tab ''c'' ''x'' False in
   \<exists>r. setTabPinned tabs ''c'' True = Some r
    \<and> other_slots (t_connectionId target) r = other_slots (t_connectionId target) tabs
    \<and> (let others = filter (\<lambda>t. t_connectionId t = t_connectionId target \<and> t_id t \<noteq> ''c'') tabs in
       conn_tabs (t_connectionId target) r
         = filter t_pinned others @ [target\<lparr>t_pinned := True\<rparr>] @ filter (\<lambda>t. \<not> t_pinned t) others)"
  unfolding Let_def [of "[_, _, _]"] Let_def [of "sample_tab _ _ _"]
  by (rule setTabPinned_at_boundary) simp_all

section \<open>Bulk close\<close>

text \<open>Property (getBulkClosedTabIds_spares): no bulk close action lists a pinned tab, and with distinct ids none of
  them but \<open>all\<close> lists the tab the menu was opened on.\<close>

theorem getBulkClosedTabIds_spares:
  assumes "distinct (map t_id tabs)" "t \<in> set tabs" "t_pinned t \<or> (action \<noteq> CloseAll \<and> target = Some (t_id t))"
  shows "t_id t \<notin> set (getBulkClosedTabIds tabs action target)"
proof
  assume "t_id t \<in> set (getBulkClosedTabIds tabs action target)"
  then obtain k u where u: "k < length tabs" "tabs ! k = u" "t_id u = t_id t" "\<not> t_pinned u"
    "in_range (find_index (\<lambda>t. Some (t_id t) = target) tabs) action k"
    by (auto simp: getBulkClosedTabIds_def Let_def in_set_enumerate_eq)
  then have "u = t" using assms(1,2) by (metis distinct_map inj_on_def nth_mem)
  with u(4) assms(3) have a: "action \<noteq> CloseAll" "target = Some (t_id t)" by auto
  have "find_index (\<lambda>t. Some (t_id t) = target) tabs \<noteq> None"
    using a(2) assms(2) by (auto simp: find_index_filter_nth)
  then obtain j where j: "find_index (\<lambda>t. Some (t_id t) = target) tabs = Some j" by blast
  then have "j < length tabs" "t_id (tabs ! j) = t_id t"
    using find_index_Some [OF j] a(2) by auto
  with u(1-3) assms(1) have "j = k" by (metis nth_eq_iff_index_eq nth_map length_map)
  with u(5) j a(1) show False by (cases action) auto
qed

lemma getBulkClosedTabIds_spares_witness:
  "t_id (sample_tab ''b'' ''x'' True)
     \<notin> set (getBulkClosedTabIds [sample_tab ''a'' ''x'' False, sample_tab ''b'' ''x'' True] CloseAll None)"
  by (rule getBulkClosedTabIds_spares) simp_all

section \<open>Storing and restoring\<close>

lemma normalize_idem [simp]:
  "normalizeAutoRefreshInterval (normalizeAutoRefreshInterval v) = normalizeAutoRefreshInterval v"
proof -
  have "\<exists>i \<in> set AUTO_REFRESH_INTERVALS. normalizeAutoRefreshInterval v = Some i"
    by (auto simp: normalizeAutoRefreshInterval_def find_Some_iff AUTO_REFRESH_INTERVALS_def
        split: option.split)
  then show ?thesis
    by (auto simp: AUTO_REFRESH_INTERVALS_def) (simp_all add: normalizeAutoRefreshInterval_def AUTO_REFRESH_INTERVALS_def)
qed

text \<open>Property (restored_tab_stores_the_same): a tab restored from storage is stored again as what it was restored
  from, after the first restore has put the defaults in: restarting the application any number of
  times loses nothing more. The transient state of a restored tab is empty.\<close>

theorem restored_tab_stores_the_same:
  "cleanTabForStorage (restoreTabFromStorage (cleanTabForStorage (restoreTabFromStorage c)))
     = cleanTabForStorage (restoreTabFromStorage c)
   \<and> t_result (restoreTabFromStorage c) = JNull \<and> \<not> t_isLoading (restoreTabFromStorage c)
   \<and> t_pendingChanges (restoreTabFromStorage c) = JUndefined"
  by (simp add: cleanTabForStorage_def restoreTabFromStorage_def)

section \<open>Closing and reopening\<close>

text \<open>The stacks that closing and popping can produce from none.\<close>

inductive closed_stacks :: "ClosedTabs \<Rightarrow> bool" where
  start: "closed_stacks (\<lambda>_. None)"
| close: "closed_stacks stacks \<Longrightarrow> closed_stacks (pushClosedTabs stacks tabs ids)"
| reopen: "closed_stacks stacks \<Longrightarrow> closed_stacks (snd (popClosedTab stacks c))"

definition bounded_stacks :: "ClosedTabs \<Rightarrow> bool" where
  "bounded_stacks stacks \<longleftrightarrow> (\<forall>c s. stacks c = Some s \<longrightarrow> length s \<le> MAX_CLOSED_TABS)"

lemma keep_last_length: "length (keep_last n xs) \<le> n"
  by (simp add: keep_last_def)

lemma bounded_pushClosedTab: "bounded_stacks s \<Longrightarrow> bounded_stacks (pushClosedTab tabs i s)"
  using keep_last_length
  by (auto simp: pushClosedTab_def bounded_stacks_def Let_def split: option.splits if_splits)

lemma bounded_pushClosedTabs: "bounded_stacks s \<Longrightarrow> bounded_stacks (pushClosedTabs s tabs ids)"
  unfolding pushClosedTabs_def by (induction ids arbitrary: s) (simp_all add: bounded_pushClosedTab)

text \<open>Property (closed_stacks_bounded): every connection's stack of closed tabs stays within its limit of 20,
  whatever is closed and reopened in whatever order.\<close>

theorem closed_stacks_bounded:
  assumes "closed_stacks stacks" "stacks c = Some s"
  shows "length s \<le> 20"
proof -
  have "bounded_stacks stacks" using assms(1)
  proof induction
    case (reopen stacks c)
    then show ?case
      by (auto simp: bounded_stacks_def popClosedTab_def split: option.splits if_splits)
        (metis diff_le_self length_butlast le_trans)
  next
    case start
    show ?case by (simp add: bounded_stacks_def)
  next
    case (close stacks tabs ids)
    then show ?case by (intro bounded_pushClosedTabs)
  qed
  with assms(2) show ?thesis by (simp add: bounded_stacks_def MAX_CLOSED_TABS_def)
qed

lemma closed_stacks_bounded_witness:
  "length [\<lparr>e_tab = cleanTabForStorage (sample_tab ''a'' ''x'' False), e_index = 0\<rparr>] \<le> 20"
proof (rule closed_stacks_bounded)
  show "closed_stacks (pushClosedTabs (\<lambda>_. None) [sample_tab ''a'' ''x'' False] [''a''])"
    by (intro closed_stacks.intros)
  show "pushClosedTabs (\<lambda>_. None) [sample_tab ''a'' ''x'' False] [''a''] ''x''
      = Some [\<lparr>e_tab = cleanTabForStorage (sample_tab ''a'' ''x'' False), e_index = 0\<rparr>]"
    by (simp add: pushClosedTabs_def pushClosedTab_def Let_def keep_last_def MAX_CLOSED_TABS_def)
qed

lemma position_prefix:
  "k < length (filter P ts) \<Longrightarrow>
   n \<le> map fst (filter (\<lambda>(i, t). P t) (enumerate n ts)) ! k
   \<and> map fst (filter (\<lambda>(i, t). P t) (enumerate n ts)) ! k - n < length ts
   \<and> P (ts ! (map fst (filter (\<lambda>(i, t). P t) (enumerate n ts)) ! k - n))
   \<and> filter P (take (map fst (filter (\<lambda>(i, t). P t) (enumerate n ts)) ! k - n) ts) = take k (filter P ts)"
proof (induction ts arbitrary: k n)
  case (Cons t ts)
  let ?pos = "\<lambda>k. map fst (filter (\<lambda>(i, t). P t) (enumerate (Suc n) ts)) ! k"
  show ?case
  proof (cases "P t")
    case False
    with Cons.prems have k: "k < length (filter P ts)" by simp
    note ih = Cons.IH [OF k, of "Suc n"]
    then obtain d where "?pos k - n = Suc d" "?pos k - Suc n = d" by (metis Suc_diff_Suc Suc_le_eq)
    with ih False show ?thesis by auto
  next
    case True
    show ?thesis
    proof (cases k)
      case 0
      with True show ?thesis by simp
    next
      case (Suc k')
      with True Cons.prems have k: "k' < length (filter P ts)" by simp
      note ih = Cons.IH [OF k, of "Suc n"]
      then obtain d where "?pos k' - n = Suc d" "?pos k' - Suc n = d" by (metis Suc_diff_Suc Suc_le_eq)
      with ih True Suc show ?thesis by auto
    qed
  qed
qed simp

lemma length_positions [simp]:
  "length (filter (\<lambda>(i, t). P t) (enumerate n ts)) = length (filter P ts)"
  by (induction ts arbitrary: n) simp_all

lemma filter_insert_at:
  assumes "P x" "filter P (take p ts) = take k (filter P ts)"
  shows "filter P (insert_at p x ts) = insert_at k x (filter P ts)
    \<and> filter (\<lambda>y. \<not> P y) (insert_at p x ts) = filter (\<lambda>y. \<not> P y) ts"
proof -
  have "take k (filter P ts) @ filter P (drop p ts) = take k (filter P ts) @ drop k (filter P ts)"
    by (metis append_take_drop_id assms(2) filter_append)
  then have "filter P (drop p ts) = drop k (filter P ts)" by (rule same_append_eq [THEN iffD1])
  moreover have "filter (\<lambda>y. \<not> P y) (take p ts) @ filter (\<lambda>y. \<not> P y) (drop p ts) = filter (\<lambda>y. \<not> P y) ts"
    by (metis append_take_drop_id filter_append)
  ultimately show ?thesis using assms by (simp add: insert_at_def)
qed

lemma prefix_take: "prefix as bs \<Longrightarrow> as = take (length as) bs"
  by (auto simp: prefix_def)

lemma insertReopenedTab_place:
  assumes "t_connectionId (restoreTabFromStorage (e_tab entry)) = c"
    and "list_all (\<lambda>t. t_id t \<noteq> c_id (e_tab entry)) tabs" "e_index entry \<le> length (conn_tabs c tabs)"
  defines "u \<equiv> restoreTabFromStorage (e_tab entry)"
  shows "snd (insertReopenedTab fresh tabs c entry) = u
    \<and> conn_tabs c (fst (insertReopenedTab fresh tabs c entry)) = insert_at (e_index entry) u (conn_tabs c tabs)
    \<and> filter (\<lambda>t. t_connectionId t \<noteq> c) (fst (insertReopenedTab fresh tabs c entry))
      = filter (\<lambda>t. t_connectionId t \<noteq> c) tabs"
proof -
  let ?P = "\<lambda>t. t_connectionId t = c"
  let ?pos = "map fst (filter (\<lambda>(i, t). t_connectionId t = c) (enumerate 0 tabs))"
  let ?k = "e_index entry"
  have nt: "\<not> list_ex (\<lambda>t. t_id t = c_id (e_tab entry)) tabs" using assms(2) by (auto simp: list_all_iff list_ex_iff)
  have u: "?P u" using assms(1) by (simp add: u_def)
  have i: "insertReopenedTab fresh tabs c entry = (
      if ?k < length (conn_tabs c tabs) then insert_at (?pos ! ?k) u tabs
      else if length (conn_tabs c tabs) > 0 then insert_at (?pos ! (length (conn_tabs c tabs) - 1) + 1) u tabs
      else tabs @ [u], u)"
    using nt assms(3) by (simp add: insertReopenedTab_def Let_def u_def min_def)
  consider (mid) "?k < length (conn_tabs c tabs)"
    | (end_) "?k = length (conn_tabs c tabs)" "0 < length (conn_tabs c tabs)"
    | (none) "?k = 0" "conn_tabs c tabs = []" using assms(3) by fastforce
  then show ?thesis
  proof cases
    case mid
    with position_prefix [of ?k ?P tabs 0] filter_insert_at [of ?P u "?pos ! ?k" tabs ?k] u i show ?thesis by simp
  next
    case end_
    let ?n = "length (conn_tabs c tabs)"
    let ?p = "?pos ! (?n - 1)"
    have p: "?p < length tabs" "?P (tabs ! ?p)" "filter ?P (take ?p tabs) = take (?n - 1) (conn_tabs c tabs)"
      using position_prefix [of "?n - 1" ?P tabs 0] end_ by auto
    have "filter ?P (take (?p + 1) tabs) = take (?n - 1) (conn_tabs c tabs) @ [tabs ! ?p]"
      using p by (simp add: take_Suc_conv_app_nth)
    then have "length (filter ?P (take (?p + 1) tabs)) = ?n" using end_(2) by simp
    moreover have "prefix (filter ?P (take (?p + 1) tabs)) (conn_tabs c tabs)"
      by (metis append_take_drop_id filter_append prefixI)
    ultimately have "filter ?P (take (?p + 1) tabs) = take ?n (conn_tabs c tabs)"
      using prefix_take by metis
    note f = filter_insert_at [of ?P, OF u this]
    have "insertReopenedTab fresh tabs c entry = (insert_at (?p + 1) u tabs, u)"
      using i end_ by simp
    with f end_(1) show ?thesis by (simp only: fst_conv snd_conv)
  next
    case none
    with u i show ?thesis by (simp add: insert_at_def)
  qed
qed

lemma find_index_filter_distinct:
  assumes "distinct (map t_id tabs)" "k < length (conn_tabs c tabs)"
  shows "find_index (\<lambda>t. t_id t = t_id (conn_tabs c tabs ! k)) (conn_tabs c tabs) = Some k"
proof -
  let ?xs = "conn_tabs c tabs"
  have d: "distinct (map t_id ?xs)" using assms(1) by (simp add: distinct_map_filter)
  have "find_index (\<lambda>t. t_id t = t_id (?xs ! k)) ?xs \<noteq> None"
    using assms(2) by (auto simp: find_index_filter_nth simp del: set_filter)
  then obtain j where j: "find_index (\<lambda>t. t_id t = t_id (?xs ! k)) ?xs = Some j" by blast
  then have "j < length ?xs" "map t_id ?xs ! j = map t_id ?xs ! k"
    using find_index_Some [OF j] assms(2) by (simp_all del: filter_filter)
  then have "j = k" using nth_eq_iff_index_eq [OF d, of j k] assms(2) by simp
  with j show ?thesis by simp
qed

lemma filter_remove_id:
  assumes "distinct (map t_id xs)" "k < length xs"
  shows "filter (\<lambda>u. t_id u \<noteq> t_id (xs ! k)) xs = take k xs @ drop (Suc k) xs"
proof -
  have s: "xs = take k xs @ xs ! k # drop (Suc k) xs" by (rule take_nth_drop [OF assms(2)])
  with assms(1) have d: "distinct (map t_id (take k xs @ xs ! k # drop (Suc k) xs))" by simp
  have "filter (\<lambda>u. t_id u \<noteq> t_id (xs ! k)) (take k xs) = take k xs"
    "filter (\<lambda>u. t_id u \<noteq> t_id (xs ! k)) (drop (Suc k) xs) = drop (Suc k) xs"
    using d by (auto simp: filter_id_conv image_iff)
  then show ?thesis by (subst s) (simp del: append_take_drop_id)
qed

text \<open>Property (reopened_tab_returns): closing a tab and reopening it puts it back: the newest entry of its
  connection's stack is that tab, and inserting it gives the connection's tab list as it was, with the
  tab replaced by its restored copy at the same index; other connections' tabs keep their order.\<close>

theorem reopened_tab_returns:
  assumes "distinct (map t_id tabs)" "k < length (conn_tabs c tabs)" "conn_tabs c tabs ! k = t"
    and "t_type t \<noteq> TNotebook"
  shows "\<exists>entry rest newTabs u. popClosedTab (pushClosedTabs stacks tabs [t_id t]) c = (Some entry, rest)
    \<and> insertReopenedTab fresh (filter (\<lambda>v. t_id v \<noteq> t_id t) tabs) c entry = (newTabs, u)
    \<and> u = restoreTabFromStorage (cleanTabForStorage t)
    \<and> conn_tabs c newTabs = (conn_tabs c tabs)[k := u]
    \<and> filter (\<lambda>v. t_connectionId v \<noteq> c) newTabs = filter (\<lambda>v. t_connectionId v \<noteq> c) tabs"
proof -
  let ?xs = "conn_tabs c tabs"
  let ?after = "filter (\<lambda>v. t_id v \<noteq> t_id t) tabs"
  let ?e = "\<lparr>e_tab = cleanTabForStorage t, e_index = k\<rparr>"
  have t: "t \<in> set tabs" "t_connectionId t = c" using assms(2,3) nth_mem [of k ?xs] by auto
  have f: "find (\<lambda>v. t_id v = t_id t) tabs = Some t"
  proof (cases "find (\<lambda>v. t_id v = t_id t) tabs")
    case None
    then show ?thesis using t(1) by (auto simp: find_None_iff)
  next
    case (Some v)
    then show ?thesis using find_distinct [OF Some assms(1)] t(1) by auto
  qed
  have fi: "find_index (\<lambda>v. t_id v = t_id t) ?xs = Some k"
    using find_index_filter_distinct [OF assms(1,2)] assms(3) by simp
  obtain s where s: "pushClosedTabs stacks tabs [t_id t] c = Some s" "s \<noteq> []" "last s = ?e"
    using f fi t assms(4)
    by (auto simp: pushClosedTabs_def pushClosedTab_def Let_def keep_last_def MAX_CLOSED_TABS_def last_drop)
  have pop: "\<exists>rest. popClosedTab (pushClosedTabs stacks tabs [t_id t]) c = (Some ?e, rest)"
    using s by (simp add: popClosedTab_def)
  have after: "conn_tabs c ?after = take k ?xs @ drop (Suc k) ?xs"
    using filter_remove_id [of ?xs k] assms by (simp add: distinct_map_filter conj_commute)
  have others: "filter (\<lambda>v. t_connectionId v \<noteq> c) ?after = filter (\<lambda>v. t_connectionId v \<noteq> c) tabs"
    using find_distinct [OF f assms(1)] t(2) by (auto intro!: filter_cong)
  have r: "t_connectionId (restoreTabFromStorage (e_tab ?e)) = c"
    "c_id (e_tab ?e) = t_id t"
    using t(2) by (simp_all add: restoreTabFromStorage_def cleanTabForStorage_def)
  have "insert_at k u (take k ?xs @ drop (Suc k) ?xs) = ?xs[k := u]" for u
    using assms(2) by (simp add: insert_at_def upd_conv_take_nth_drop min_def)
  moreover have "list_all (\<lambda>v. t_id v \<noteq> c_id (e_tab ?e)) ?after" using r(2) by (simp add: list_all_iff)
  moreover have "e_index ?e \<le> length (conn_tabs c ?after)" using assms(2) unfolding after by simp
  ultimately have "snd (insertReopenedTab fresh ?after c ?e) = restoreTabFromStorage (cleanTabForStorage t)
    \<and> conn_tabs c (fst (insertReopenedTab fresh ?after c ?e)) = ?xs[k := restoreTabFromStorage (cleanTabForStorage t)]
    \<and> filter (\<lambda>v. t_connectionId v \<noteq> c) (fst (insertReopenedTab fresh ?after c ?e))
      = filter (\<lambda>v. t_connectionId v \<noteq> c) tabs"
    using insertReopenedTab_place [OF r(1), of ?after fresh] unfolding after others by simp
  with pop show ?thesis by (metis prod.collapse)
qed

lemma reopened_tab_returns_witness:
  "let tabs = [sample_tab ''a'' ''x'' False, sample_tab ''b'' ''y'' False, sample_tab ''d'' ''x'' False];
       t = sample_tab ''a'' ''x'' False in
   \<exists>entry rest newTabs u. popClosedTab (pushClosedTabs (\<lambda>_. None) tabs [t_id t]) ''x'' = (Some entry, rest)
    \<and> insertReopenedTab ''f'' (filter (\<lambda>v. t_id v \<noteq> t_id t) tabs) ''x'' entry = (newTabs, u)
    \<and> u = restoreTabFromStorage (cleanTabForStorage t)
    \<and> conn_tabs ''x'' newTabs = (conn_tabs ''x'' tabs)[0 := u]
    \<and> filter (\<lambda>v. t_connectionId v \<noteq> ''x'') newTabs = filter (\<lambda>v. t_connectionId v \<noteq> ''x'') tabs"
  unfolding Let_def by (rule reopened_tab_returns) simp_all

end
