(* ===== verification/UndoHistory.thy ===== *)
theory UndoHistory
  imports JsValue
begin

text \<open>
  The undo histories. The locale \<open>undo_stack\<close> is the contract both of them share: a past and a future of
  entries around the current state, an undo and a redo that move one entry across. Its lemmas (undo and
  redo are inverse, any undo_walk stays inside one fixed timeline) hold for the notebook's history
  (\<open>utils/notebookUndo.ts\<close>, modelled here) and for the data grid's (theory \<open>GridUndo\<close>).
\<close>

section \<open>The shared contract\<close>

datatype Move = Undo | Redo

text \<open>Undo and redo pressed any number of times; a step that is not possible changes nothing.\<close>

fun undo_walk :: "('h \<Rightarrow> 's \<Rightarrow> ('h \<times> 's) option) \<Rightarrow> ('h \<Rightarrow> 's \<Rightarrow> ('h \<times> 's) option) \<Rightarrow> Move list \<Rightarrow>
    'h \<times> 's \<Rightarrow> 'h \<times> 's" where
  "undo_walk un re [] hs = hs"
| "undo_walk un re (m # ms) (h, c) =
     undo_walk un re ms
       (case (case m of Undo \<Rightarrow> un h c | Redo \<Rightarrow> re h c) of None \<Rightarrow> (h, c) | Some hs \<Rightarrow> hs)"

locale undo_stack =
  fixes good :: "'h \<Rightarrow> bool"
    and ok :: "'s \<Rightarrow> bool"
    and past_of :: "'h \<Rightarrow> 'e list"
    and future_of :: "'h \<Rightarrow> 'e list"
    and snap :: "'s \<Rightarrow> 'e"
    and undo_of :: "'h \<Rightarrow> 's \<Rightarrow> ('h \<times> 's) option"
    and redo_of :: "'h \<Rightarrow> 's \<Rightarrow> ('h \<times> 's) option"
  assumes undo_None: "undo_of h c = None \<longleftrightarrow> past_of h = []"
    and redo_None: "redo_of h c = None \<longleftrightarrow> future_of h = []"
    and undo_Some: "good h \<Longrightarrow> ok c \<Longrightarrow> undo_of h c = Some (h', s) \<Longrightarrow>
       past_of h = past_of h' @ [snap s] \<and> future_of h' = snap c # future_of h \<and> good h' \<and> ok s"
    and redo_Some: "good h \<Longrightarrow> ok c \<Longrightarrow> redo_of h c = Some (h', s) \<Longrightarrow>
       past_of h' = past_of h @ [snap c] \<and> future_of h = snap s # future_of h' \<and> good h' \<and> ok s"
begin

definition timeline_of :: "'h \<times> 's \<Rightarrow> 'e list" where
  "timeline_of hs = past_of (fst hs) @ snap (snd hs) # future_of (fst hs)"

lemma redo_after_undo:
  assumes "good h" "ok c" "undo_of h c = Some (h', s)"
  shows "\<exists>h'' s'. redo_of h' s = Some (h'', s') \<and> past_of h'' = past_of h \<and> future_of h'' = future_of h
    \<and> snap s' = snap c"
proof -
  note u = undo_Some [OF assms]
  then have "redo_of h' s \<noteq> None" by (simp add: redo_None)
  then obtain h'' s' where r: "redo_of h' s = Some (h'', s')" by auto
  with u redo_Some [of h' s h'' s'] show ?thesis by auto
qed

lemma undo_after_redo:
  assumes "good h" "ok c" "redo_of h c = Some (h', s)"
  shows "\<exists>h'' s'. undo_of h' s = Some (h'', s') \<and> past_of h'' = past_of h \<and> future_of h'' = future_of h
    \<and> snap s' = snap c"
proof -
  note r = redo_Some [OF assms]
  then have "undo_of h' s \<noteq> None" by (simp add: undo_None)
  then obtain h'' s' where u: "undo_of h' s = Some (h'', s')" by auto
  with r undo_Some [of h' s h'' s'] show ?thesis by auto
qed

lemma walk_timeline:
  "good h \<Longrightarrow> ok c \<Longrightarrow> timeline_of (undo_walk undo_of redo_of ms (h, c)) = timeline_of (h, c)"
proof (induction ms arbitrary: h c)
  case (Cons m ms)
  let ?step = "case m of Undo \<Rightarrow> undo_of h c | Redo \<Rightarrow> redo_of h c"
  show ?case
  proof (cases ?step)
    case None
    with Cons show ?thesis by simp
  next
    case (Some hs')
    obtain h' s where hs': "hs' = (h', s)" by (cases hs')
    with Some Cons.prems undo_Some [of h c h' s] redo_Some [of h c h' s]
    have "good h'" "ok s" "timeline_of (h', s) = timeline_of (h, c)"
      by (auto simp: timeline_of_def split: Move.splits)
    with Cons.IH [of h' s] Some hs' show ?thesis by simp
  qed
qed simp

end

section \<open>The notebook's history\<close>

datatype CellType = Sql | Markdown

record NotebookCell =
  cell_id :: jsstring
  cell_type :: CellType
  content :: jsstring
  cell_name :: "jsstring option"
  cell_schema :: "jsstring option"
  cell_result :: jsval
  cell_error :: "jsstring option"
  cell_executionTime :: jsval
  cell_isLoading :: bool
  isPreview :: bool
  chartConfig :: jsval
  resultHeight :: jsval
  isParallel :: bool
  isCollapsed :: bool
  isQueryCollapsed :: bool
  isResultCollapsed :: bool
  isChartVisible :: jsval
  isQueryPlanVisible :: jsval

record NotebookState =
  cells :: "NotebookCell list"
  stopOnError :: bool
  nb_params :: "jsval list"

definition HISTORY_LIMIT :: nat where "HISTORY_LIMIT = 50"
definition COALESCE_MS :: int where "COALESCE_MS = 500"

record NotebookHistory =
  past :: "NotebookState list"
  future :: "NotebookState list"
  lastEditTime :: int

definition createHistory :: NotebookHistory where
  "createHistory = \<lparr>past = [], future = [], lastEditTime = 0\<rparr>"

fun type_str :: "CellType \<Rightarrow> jsstring" where
  "type_str Sql = ''sql''"
| "type_str Markdown = ''markdown''"

text \<open>\<open>x ?? null\<close>.\<close>

definition null_if_undefined :: "jsval \<Rightarrow> jsval" where
  "null_if_undefined v = (if v = JUndefined then JNull else v)"

definition opt_str :: "jsstring option \<Rightarrow> jsval" where
  "opt_str m = (case m of None \<Rightarrow> JNull | Some s \<Rightarrow> JStr s)"

definition cell_doc :: "NotebookCell \<Rightarrow> jsval" where
  "cell_doc c = JObj [(''type'', JStr (type_str (cell_type c))), (''content'', JStr (content c)),
     (''name'', opt_str (cell_name c)), (''schema'', opt_str (cell_schema c)),
     (''isParallel'', JBool (isParallel c)), (''isCollapsed'', JBool (isCollapsed c)),
     (''chartConfig'', null_if_undefined (chartConfig c))]"

definition documentSignature :: "NotebookState \<Rightarrow> jsstring option" where
  "documentSignature st =
     stringify (JObj [(''cells'', JArr (map cell_doc (cells st))), (''params'', JArr (nb_params st)),
       (''stopOnError'', JBool (stopOnError st))])"

text \<open>\<open>past.push(x)\<close>, then \<open>past.shift()\<close> over the limit.\<close>

definition push_limited :: "nat \<Rightarrow> 'a list \<Rightarrow> 'a \<Rightarrow> 'a list" where
  "push_limited limit xs x = (let ys = xs @ [x] in if length ys > limit then tl ys else ys)"

definition recordEdit :: "NotebookHistory \<Rightarrow> NotebookState \<Rightarrow> NotebookState \<Rightarrow> int \<Rightarrow> NotebookHistory" where
  "recordEdit history prev next now =
     (if documentSignature prev = documentSignature next then history
      else if now - lastEditTime history < COALESCE_MS then history\<lparr>lastEditTime := now\<rparr>
      else \<lparr>past = push_limited HISTORY_LIMIT (past history) prev, future = [], lastEditTime = now\<rparr>)"

definition undo :: "NotebookHistory \<Rightarrow> NotebookState \<Rightarrow> (NotebookHistory \<times> NotebookState) option" where
  "undo history current =
     (if length (past history) = 0 then None
      else Some (\<lparr>past = butlast (past history), future = current # future history, lastEditTime = 0\<rparr>,
                 last (past history)))"

definition redo :: "NotebookHistory \<Rightarrow> NotebookState \<Rightarrow> (NotebookHistory \<times> NotebookState) option" where
  "redo history current =
     (case future history of
        [] \<Rightarrow> None
      | state # rest \<Rightarrow> Some (\<lparr>past = past history @ [current], future = rest, lastEditTime = 0\<rparr>, state))"

definition timeline :: "NotebookHistory \<Rightarrow> NotebookState \<Rightarrow> NotebookState list \<times> nat" where
  "timeline history current = (past history @ [current] @ future history, length (past history))"

definition jumpTo ::
  "NotebookHistory \<Rightarrow> NotebookState \<Rightarrow> int \<Rightarrow> (NotebookHistory \<times> NotebookState) option" where
  "jumpTo history current index =
     (let states = past history @ [current] @ future history
      in if index < 0 \<or> index \<ge> int (length states) \<or> index = int (length (past history)) then None
         else Some (\<lparr>past = take (nat index) states, future = drop (nat index + 1) states, lastEditTime = 0\<rparr>,
                    states ! nat index))"

interpretation notebook: undo_stack "\<lambda>_. True" "\<lambda>_. True" past future "\<lambda>s. s" undo redo
  by unfold_locales (auto simp: undo_def redo_def split: list.splits if_splits)

section \<open>Properties of the notebook's history\<close>

text \<open>Property (notebook_walk_timeline): however often undo and redo are pressed, the versions on the timeline are
  the same in the same order; only the position in it moves.\<close>

theorem notebook_walk_timeline:
  "fst (timeline (fst (undo_walk undo redo moves (h, c))) (snd (undo_walk undo redo moves (h, c)))) = fst (timeline h c)"
  using notebook.walk_timeline [where h = h and ms = moves and c = c]
  by (simp add: notebook.timeline_of_def timeline_def)

text \<open>Property (notebook_redo_undoes_undo): after an undo a redo gives back the state that was undone, with the
  same past and the same future.\<close>

theorem notebook_redo_undoes_undo:
  assumes "undo h c = Some (h', s)"
  shows "\<exists>h''. redo h' s = Some (h'', c) \<and> past h'' = past h \<and> future h'' = future h"
  using notebook.redo_after_undo [OF _ _ assms] by auto

definition empty_state :: "jsval list \<Rightarrow> NotebookState" where
  "empty_state ps = \<lparr>cells = [], stopOnError = False, nb_params = ps\<rparr>"

lemma notebook_redo_undoes_undo_witness:
  "\<exists>h''. redo \<lparr>past = [], future = [empty_state [JNull]], lastEditTime = 0\<rparr> (empty_state []) = Some (h'', empty_state [JNull])
    \<and> past h'' = past \<lparr>past = [empty_state []], future = [], lastEditTime = 9\<rparr>
    \<and> future h'' = future \<lparr>past = [empty_state []], future = [], lastEditTime = 9\<rparr>"
  by (rule notebook_redo_undoes_undo) (simp add: undo_def)

text \<open>Histories the editor can have: it records edits with the clock's time, undoes, redoes and jumps.
  The clock is past the coalescing window counted from the epoch.\<close>

inductive notebook_reach :: "NotebookHistory \<Rightarrow> bool" where
  create: "notebook_reach createHistory"
| edit: "notebook_reach h \<Longrightarrow> COALESCE_MS \<le> now \<Longrightarrow> notebook_reach (recordEdit h prev next now)"
| undo: "notebook_reach h \<Longrightarrow> undo h c = Some (h', s) \<Longrightarrow> notebook_reach h'"
| redo: "notebook_reach h \<Longrightarrow> redo h c = Some (h', s) \<Longrightarrow> notebook_reach h'"
| jump: "notebook_reach h \<Longrightarrow> jumpTo h c i = Some (h', s) \<Longrightarrow> notebook_reach h'"

lemma push_limited_length: "length xs \<le> n \<Longrightarrow> length (push_limited n xs x) \<le> n"
  by (simp add: push_limited_def Let_def)

text \<open>A redo branch is only ever there with the clock reset, so no edit can coalesce into it. The whole
  timeline is at most one longer than the limit.\<close>

lemma notebook_reach_inv:
  "notebook_reach h \<Longrightarrow> (future h \<noteq> [] \<longrightarrow> lastEditTime h = 0) \<and> length (past h) + length (future h) \<le> HISTORY_LIMIT"
proof (induction rule: notebook_reach.induct)
  case create
  show ?case by (simp add: createHistory_def)
next
  case (edit h now prev nxt)
  show ?case
  proof (cases "documentSignature prev = documentSignature nxt")
    case True
    with edit show ?thesis by (simp add: recordEdit_def)
  next
    case False
    with edit push_limited_length [of "past h" HISTORY_LIMIT prev] show ?thesis
      by (auto simp: recordEdit_def)
  qed
next
  case (undo h c h' s)
  then show ?case by (cases "past h" rule: rev_cases) (auto simp: undo_def split: if_splits)
next
  case (redo h c h' s)
  then show ?case by (auto simp: redo_def split: list.splits)
next
  case (jump h c i h' s)
  then show ?case by (auto simp: jumpTo_def Let_def split: if_splits)
qed

text \<open>Property (notebook_edit_clears_redo): in every history the editor can have, an edit that changes the document
  leaves nothing to redo, also when it is coalesced with the edit before it, and the timeline never
  grows past the limit of 50 undo steps.\<close>

theorem notebook_edit_clears_redo:
  assumes "notebook_reach h" "COALESCE_MS \<le> now" "documentSignature prev \<noteq> documentSignature next"
  shows "future (recordEdit h prev next now) = [] \<and> length (past (recordEdit h prev next now)) \<le> 50"
proof
  note inv = notebook_reach_inv [OF assms(1)]
  show "future (recordEdit h prev next now) = []"
    using inv assms(2,3) by (auto simp: recordEdit_def)
  have "notebook_reach (recordEdit h prev next now)" by (rule notebook_reach.edit [OF assms(1,2)])
  from notebook_reach_inv [OF this] show "length (past (recordEdit h prev next now)) \<le> 50"
    by (simp add: HISTORY_LIMIT_def)
qed

lemma notebook_edit_clears_redo_witness:
  "future (recordEdit createHistory (empty_state []) (empty_state [JNull]) 1000) = []
   \<and> length (past (recordEdit createHistory (empty_state []) (empty_state [JNull]) 1000)) \<le> 50"
proof (rule notebook_edit_clears_redo)
  show "notebook_reach createHistory" by (rule notebook_reach.create)
  show "COALESCE_MS \<le> 1000" by (simp add: COALESCE_MS_def)
  show "documentSignature (empty_state []) \<noteq> documentSignature (empty_state [JNull])"
    by (simp add: documentSignature_def empty_state_def)
qed

text \<open>Property (jumpTo_generalises): a jump lands on the version of the timeline it names, keeps the timeline as it
  was, and a jump one step back or forth is an undo or a redo.\<close>

theorem jumpTo_generalises:
  assumes "jumpTo h c index = Some (h', s)"
  shows "timeline h' s = (fst (timeline h c), nat index) \<and> s = fst (timeline h c) ! nat index
    \<and> (index = int (length (past h)) - 1 \<longrightarrow> undo h c = Some (h', s))
    \<and> (index = int (length (past h)) + 1 \<longrightarrow> redo h c = Some (h', s))"
proof -
  let ?ss = "past h @ [c] @ future h"
  from assms have i: "0 \<le> index" "nat index < length ?ss" "index \<noteq> int (length (past h))"
    and h': "h' = \<lparr>past = take (nat index) ?ss, future = drop (nat index + 1) ?ss, lastEditTime = 0\<rparr>"
      "s = ?ss ! nat index"
    by (auto simp: jumpTo_def Let_def split: if_splits)
  have "take (nat index) ?ss @ [?ss ! nat index] @ drop (nat index + 1) ?ss = ?ss"
    using i(2) by (simp only: append_Cons append_Nil Suc_eq_plus1 [symmetric] id_take_nth_drop [symmetric])
  moreover have "undo h c = Some (h', s)" if "index = int (length (past h)) - 1"
  proof -
    from that i(1) obtain xs x where p: "past h = xs @ [x]" by (cases "past h" rule: rev_cases) auto
    with that have "nat index = length xs" by simp
    with p h' show ?thesis by (simp add: undo_def)
  qed
  moreover have "redo h c = Some (h', s)" if "index = int (length (past h)) + 1"
  proof -
    from that have n: "nat index = Suc (length (past h))" by simp
    with i(2) obtain y ys where "future h = y # ys" by (cases "future h") auto
    with n h' show ?thesis by (simp add: redo_def nth_append)
  qed
  ultimately show ?thesis using h' i(2) by (simp add: timeline_def)
qed

lemma jumpTo_generalises_witness:
  "timeline \<lparr>past = [], future = [empty_state [JNull]], lastEditTime = 0\<rparr> (empty_state [])
     = (fst (timeline \<lparr>past = [empty_state []], future = [], lastEditTime = 7\<rparr> (empty_state [JNull])), 0)
   \<and> undo \<lparr>past = [empty_state []], future = [], lastEditTime = 7\<rparr> (empty_state [JNull])
     = Some (\<lparr>past = [], future = [empty_state [JNull]], lastEditTime = 0\<rparr>, empty_state [])"
proof -
  have "jumpTo \<lparr>past = [empty_state []], future = [], lastEditTime = 7\<rparr> (empty_state [JNull]) 0
      = Some (\<lparr>past = [], future = [empty_state [JNull]], lastEditTime = 0\<rparr>, empty_state [])"
    by (simp add: jumpTo_def)
  from jumpTo_generalises [OF this] show ?thesis by simp
qed

end
