(* ===== verification/GridUndo.thy ===== *)
theory GridUndo
  imports UndoHistory "HOL-Library.List_Lexorder" "HOL-Library.Char_ord"
begin

text \<open>
  The data grid's history of pending edits (\<open>utils/gridUndo.ts\<close>). The pending maps are JavaScript objects
  of unknown values, so they are \<open>jsval\<close>s here and every dynamic test of the code (\<open>in\<close>, truthiness,
  \<open>typeof\<close>) is written out. A snapshot entry is the code's \<open>GridPendingSnapshot | undefined\<close>. The code's
  reference comparisons only shortcut the comparison by value that follows them.
\<close>

record GridPendingSnapshot =
  pendingChanges :: jsval
  pendingDeletions :: jsval
  pendingInsertions :: jsval

definition GRID_HISTORY_LIMIT :: nat where "GRID_HISTORY_LIMIT = 50"
definition GRID_BURST_COALESCE_MS :: int where "GRID_BURST_COALESCE_MS = 150"
definition GRID_COALESCE_MS :: int where "GRID_COALESCE_MS = 500"

record GridHistory =
  g_past :: "GridPendingSnapshot option list"
  g_future :: "GridPendingSnapshot option list"
  g_lastEditTime :: int
  g_lastModifiedKey :: "jsstring option"

definition createGridHistory :: GridHistory where
  "createGridHistory = \<lparr>g_past = [], g_future = [], g_lastEditTime = 0, g_lastModifiedKey = None\<rparr>"

section \<open>JavaScript objects\<close>

text \<open>\<open>{...v}\<close>, \<open>Object.entries(v)\<close>, \<open>v[k]\<close>, \<open>k in v\<close>, \<open>typeof v === 'object'\<close> for a non-null \<open>v\<close>.\<close>

fun spread :: "jsval \<Rightarrow> (jsstring \<times> jsval) list" where
  "spread (JObj kvs) = kvs"
| "spread (JArr xs) = map (\<lambda>(i, x). (nat_str i, x)) (enumerate 0 xs)"
| "spread (JStr s) = map (\<lambda>(i, c). (nat_str i, JStr [c])) (enumerate 0 s)"
| "spread _ = []"

definition js_prop :: "jsval \<Rightarrow> jsstring \<Rightarrow> jsval" where
  "js_prop v k = get_prop (spread v) k"

definition has_key :: "jsval \<Rightarrow> jsstring \<Rightarrow> bool" where
  "has_key v k = list_ex (\<lambda>(k', _). k' = k) (spread v)"

definition or_undefined :: "(jsstring \<times> jsval) list \<Rightarrow> jsval" where
  "or_undefined kvs = (if kvs = [] then JUndefined else JObj kvs)"

section \<open>Snapshots\<close>

definition isSnapshot :: "jsval \<Rightarrow> bool" where
  "isSnapshot v =
     (is_object v
      \<and> (has_key v ''pendingChanges'' \<or> has_key v ''pendingDeletions'' \<or> has_key v ''pendingInsertions'')
      \<and> \<not> list_ex (\<lambda>(_, x). is_object x \<and> (has_key x ''changes'' \<or> has_key x ''pkOriginalValue'')) (spread v))"

definition toGridSnapshot :: "jsval \<Rightarrow> GridPendingSnapshot option" where
  "toGridSnapshot state =
     (if \<not> truthy state then None
      else if isSnapshot state then
        (if \<not> truthy (js_prop state ''pendingChanges'') \<and> \<not> truthy (js_prop state ''pendingDeletions'')
            \<and> \<not> truthy (js_prop state ''pendingInsertions'') then None
         else Some \<lparr>pendingChanges = js_prop state ''pendingChanges'',
                    pendingDeletions = js_prop state ''pendingDeletions'',
                    pendingInsertions = js_prop state ''pendingInsertions''\<rparr>)
      else Some \<lparr>pendingChanges = state, pendingDeletions = JUndefined, pendingInsertions = JUndefined\<rparr>)"

definition clonePendingChanges :: "jsval \<Rightarrow> jsval" where
  "clonePendingChanges changes =
     (if \<not> truthy changes then JUndefined
      else or_undefined
        (map (\<lambda>(k, e). (k, JObj [(''pkOriginalValue'', js_prop e ''pkOriginalValue''),
                                 (''changes'', JObj (spread (js_prop e ''changes'')))]))
          (filter (\<lambda>(k, e). truthy e \<and> truthy (js_prop e ''changes'')) (spread changes))))"

definition clonePendingDeletions :: "jsval \<Rightarrow> jsval" where
  "clonePendingDeletions deletions =
     (if \<not> truthy deletions then JUndefined
      else or_undefined
        (map (\<lambda>(k, v). (k, if is_object v then JObj (spread v) else v)) (spread deletions)))"

definition clonePendingInsertions :: "jsval \<Rightarrow> jsval" where
  "clonePendingInsertions insertions =
     (if \<not> truthy insertions then JUndefined
      else or_undefined
        (map (\<lambda>(k, e). (k, JObj [(''tempId'', js_prop e ''tempId''),
              (''displayIndex'',
                 if js_prop e ''displayIndex'' = JUndefined \<or> js_prop e ''displayIndex'' = JNull then JNum 0 0
                 else js_prop e ''displayIndex''),
              (''data'', JObj (spread (js_prop e ''data'')))]))
          (filter (\<lambda>(k, e). truthy e) (spread insertions))))"

definition cloneGridSnapshot :: "GridPendingSnapshot option \<Rightarrow> GridPendingSnapshot option" where
  "cloneGridSnapshot snapshot =
     (case snapshot of
        None \<Rightarrow> None
      | Some s \<Rightarrow>
          (let changes = clonePendingChanges (pendingChanges s);
               deletions = clonePendingDeletions (pendingDeletions s);
               insertions = clonePendingInsertions (pendingInsertions s)
           in if \<not> truthy changes \<and> \<not> truthy deletions \<and> \<not> truthy insertions then None
              else Some \<lparr>pendingChanges = changes, pendingDeletions = deletions, pendingInsertions = insertions\<rparr>))"

section \<open>Signatures\<close>

definition js_keys :: "jsval \<Rightarrow> jsstring list" where
  "js_keys v = map fst (spread v)"

definition json_or_empty :: "jsval \<Rightarrow> jsstring" where
  "json_or_empty v = (case stringify v of None \<Rightarrow> [] | Some t \<Rightarrow> t)"

definition pendingChangesSignature :: "jsval \<Rightarrow> jsstring" where
  "pendingChangesSignature changes =
     (if \<not> truthy changes \<or> js_keys changes = [] then []
      else json_or_empty (JObj
        (map (\<lambda>k. (k, JObj (map (\<lambda>col. (col, js_prop (js_prop (js_prop changes k) ''changes'') col))
                               (sort (js_keys (js_prop (js_prop changes k) ''changes''))))))
          (filter (\<lambda>k. truthy (js_prop changes k) \<and> truthy (js_prop (js_prop changes k) ''changes'')
                       \<and> js_keys (js_prop (js_prop changes k) ''changes'') \<noteq> [])
            (sort (js_keys changes))))))"

text \<open>\<open>toGridSnapshot\<close> is applied again inside; a snapshot record is then the object with its three keys.\<close>

definition snap_obj :: "GridPendingSnapshot \<Rightarrow> jsval" where
  "snap_obj s = JObj [(''pendingChanges'', pendingChanges s), (''pendingDeletions'', pendingDeletions s),
                      (''pendingInsertions'', pendingInsertions s)]"

definition gridSnapshotSignature :: "GridPendingSnapshot option \<Rightarrow> jsstring" where
  "gridSnapshotSignature state =
     (case Option.bind state (\<lambda>s. toGridSnapshot (snap_obj s)) of
        None \<Rightarrow> []
      | Some snap \<Rightarrow>
          (let delKeys = sort (js_keys (pendingDeletions snap));
               delSig = (if delKeys = [] then [] else json_or_empty (JArr (map JStr delKeys)));
               insKeys = sort (js_keys (pendingInsertions snap));
               insSig = (if insKeys = [] then []
                 else json_or_empty (JObj (map (\<lambda>k.
                   (k, JObj [(''d'', js_prop (js_prop (pendingInsertions snap) k) ''displayIndex''),
                             (''data'', js_prop (js_prop (pendingInsertions snap) k) ''data'')])) insKeys)))
           in pendingChangesSignature (pendingChanges snap) @ ''::'' @ delSig @ ''::'' @ insSig))"

definition changed_key :: "jsstring \<Rightarrow> jsval \<Rightarrow> jsval \<Rightarrow> jsstring option" where
  "changed_key tag p n =
     (case find (\<lambda>k. stringify (js_prop p k) \<noteq> stringify (js_prop n k)) (js_keys n) of
        Some k \<Rightarrow> Some (tag @ k)
      | None \<Rightarrow> map_option (\<lambda>k. tag @ k) (find (\<lambda>k. \<not> truthy (js_prop n k)) (js_keys p)))"

definition findModifiedKey ::
  "GridPendingSnapshot option \<Rightarrow> GridPendingSnapshot option \<Rightarrow> jsstring option" where
  "findModifiedKey prev next =
     (let field = (\<lambda>f st. case st of None \<Rightarrow> JObj [] | Some s \<Rightarrow> if truthy (f s) then f s else JObj [])
      in case changed_key ''c:'' (field pendingChanges prev) (field pendingChanges next) of
           Some k \<Rightarrow> Some k
         | None \<Rightarrow> changed_key ''i:'' (field pendingInsertions prev) (field pendingInsertions next))"

section \<open>Recording, undo, redo\<close>

text \<open>\<open>coalesce\<close> is \<open>options?.coalesce !== false\<close>.\<close>

definition recordGridEdit :: "GridHistory \<Rightarrow> jsval \<Rightarrow> jsval \<Rightarrow> int \<Rightarrow> bool \<Rightarrow> GridHistory" where
  "recordGridEdit history prev next now coalesce =
     (if prev = next then history
      else
        (let prevSnap = toGridSnapshot prev; nextSnap = toGridSnapshot next in
         if gridSnapshotSignature prevSnap = gridSnapshotSignature nextSnap then history
         else
           (let modifiedKey = findModifiedKey prevSnap nextSnap;
                elapsed = now - g_lastEditTime history;
                isSameEntity = (modifiedKey \<noteq> None \<and> modifiedKey = g_lastModifiedKey history);
                shouldCoalesce = (coalesce \<and> length (g_past history) > 0
                  \<and> (elapsed < GRID_BURST_COALESCE_MS \<or> (isSameEntity \<and> elapsed < GRID_COALESCE_MS)))
            in if shouldCoalesce then history\<lparr>g_lastEditTime := now, g_lastModifiedKey := modifiedKey\<rparr>
               else \<lparr>g_past = push_limited GRID_HISTORY_LIMIT (g_past history) (cloneGridSnapshot prevSnap),
                     g_future = [], g_lastEditTime = now, g_lastModifiedKey = modifiedKey\<rparr>)))"

text \<open>A step's result: the new history and the three pending maps, here as the object the editor
  stores them in (and passes as \<open>current\<close> to the next step).\<close>

definition step_state :: "GridPendingSnapshot option \<Rightarrow> jsval" where
  "step_state target =
     snap_obj \<lparr>pendingChanges = (case target of None \<Rightarrow> JUndefined | Some s \<Rightarrow> clonePendingChanges (pendingChanges s)),
       pendingDeletions = (case target of None \<Rightarrow> JUndefined | Some s \<Rightarrow> clonePendingDeletions (pendingDeletions s)),
       pendingInsertions = (case target of None \<Rightarrow> JUndefined | Some s \<Rightarrow> clonePendingInsertions (pendingInsertions s))\<rparr>"

definition undoGridEdit :: "GridHistory \<Rightarrow> jsval \<Rightarrow> (GridHistory \<times> jsval) option" where
  "undoGridEdit history current =
     (if length (g_past history) = 0 then None
      else Some (\<lparr>g_past = butlast (g_past history),
                  g_future = cloneGridSnapshot (toGridSnapshot current) # g_future history,
                  g_lastEditTime = 0, g_lastModifiedKey = None\<rparr>,
                 step_state (last (g_past history))))"

definition redoGridEdit :: "GridHistory \<Rightarrow> jsval \<Rightarrow> (GridHistory \<times> jsval) option" where
  "redoGridEdit history current =
     (case g_future history of
        [] \<Rightarrow> None
      | target # rest \<Rightarrow>
          Some (\<lparr>g_past = g_past history @ [cloneGridSnapshot (toGridSnapshot current)],
                 g_future = rest, g_lastEditTime = 0, g_lastModifiedKey = None\<rparr>, step_state target))"

definition canUndoGrid :: "GridHistory option \<Rightarrow> bool" where
  "canUndoGrid h = (case h of None \<Rightarrow> False | Some h \<Rightarrow> length (g_past h) > 0)"

definition canRedoGrid :: "GridHistory option \<Rightarrow> bool" where
  "canRedoGrid h = (case h of None \<Rightarrow> False | Some h \<Rightarrow> length (g_future h) > 0)"

section \<open>Cloning\<close>

lemma js_prop_obj [simp]: "js_prop (JObj kvs) k = get_prop kvs k"
  by (simp add: js_prop_def)

lemma get_prop_simps [simp]:
  "get_prop [] k = JUndefined" "get_prop ((k', v) # kvs) k = (if k' = k then v else get_prop kvs k)"
  by (simp_all add: get_prop_def)

lemma clone_kind:
  "clonePendingChanges v = JUndefined \<or> (\<exists>kvs. clonePendingChanges v = JObj kvs)"
  "clonePendingDeletions v = JUndefined \<or> (\<exists>kvs. clonePendingDeletions v = JObj kvs)"
  "clonePendingInsertions v = JUndefined \<or> (\<exists>kvs. clonePendingInsertions v = JObj kvs)"
  by (auto simp: clonePendingChanges_def clonePendingDeletions_def clonePendingInsertions_def or_undefined_def)

lemma map_filter_idem:
  "(\<And>x. P x \<Longrightarrow> P (f x) \<and> f (f x) = f x) \<Longrightarrow>
   map f (filter P (map f (filter P xs))) = map f (filter P xs)"
  by (induction xs) auto

lemma clonePendingChanges_idem [simp]: "clonePendingChanges (clonePendingChanges v) = clonePendingChanges v"
proof -
  let ?f = "\<lambda>(k, e). (k, JObj [(''pkOriginalValue'', js_prop e ''pkOriginalValue''),
    (''changes'', JObj (spread (js_prop e ''changes'')))])"
  let ?P = "\<lambda>(k, e). truthy e \<and> truthy (js_prop e ''changes'')"
  define es where "es = map ?f (filter ?P (spread v))"
  have "map ?f (filter ?P es) = es"
    unfolding es_def by (rule map_filter_idem) (auto split: prod.splits)
  then show ?thesis
    by (cases "es = []") (auto simp: clonePendingChanges_def or_undefined_def es_def [symmetric])
qed

lemma clonePendingDeletions_idem [simp]: "clonePendingDeletions (clonePendingDeletions v) = clonePendingDeletions v"
proof -
  let ?f = "\<lambda>(k, v). (k, if is_object v then JObj (spread v) else v)"
  define es where "es = map ?f (spread v)"
  have "map ?f es = es"
    by (auto simp: es_def case_prod_beta)
  then show ?thesis
    by (cases "es = []") (auto simp: clonePendingDeletions_def or_undefined_def es_def [symmetric])
qed

lemma clonePendingInsertions_idem [simp]: "clonePendingInsertions (clonePendingInsertions v) = clonePendingInsertions v"
proof -
  let ?f = "\<lambda>(k, e). (k, JObj [(''tempId'', js_prop e ''tempId''),
    (''displayIndex'', if js_prop e ''displayIndex'' = JUndefined \<or> js_prop e ''displayIndex'' = JNull then JNum 0 0
       else js_prop e ''displayIndex''), (''data'', JObj (spread (js_prop e ''data'')))])"
  let ?P = "\<lambda>(k, e). truthy e"
  define es where "es = map ?f (filter ?P (spread v))"
  have "map ?f (filter ?P es) = es"
    unfolding es_def by (rule map_filter_idem) (auto split: prod.splits)
  then show ?thesis
    by (cases "es = []") (auto simp: clonePendingInsertions_def or_undefined_def es_def [symmetric])
qed

lemma cloneGridSnapshot_idem [simp]: "cloneGridSnapshot (cloneGridSnapshot e) = cloneGridSnapshot e"
  by (cases e) (auto simp: cloneGridSnapshot_def Let_def)

text \<open>
  A row of a pending map must not be called \<open>changes\<close> or \<open>pkOriginalValue\<close>: \<open>isSnapshot\<close> would take the
  map for a row. The grid's keys are JSON texts (\<open>serializePkKey\<close>) and \<open>temp_...\<close> ids, so none is.
\<close>

definition safe_rows :: "jsval \<Rightarrow> bool" where
  "safe_rows v \<longleftrightarrow> \<not> has_key v ''changes'' \<and> \<not> has_key v ''pkOriginalValue''"

definition entry_ok :: "GridPendingSnapshot option \<Rightarrow> bool" where
  "entry_ok e \<longleftrightarrow> cloneGridSnapshot e = e
     \<and> (case e of None \<Rightarrow> True | Some s \<Rightarrow>
          safe_rows (pendingChanges s) \<and> safe_rows (pendingDeletions s) \<and> safe_rows (pendingInsertions s))"

definition grid_snap :: "jsval \<Rightarrow> GridPendingSnapshot option" where
  "grid_snap current = cloneGridSnapshot (toGridSnapshot current)"

lemma toGridSnapshot_snap_obj:
  assumes "safe_rows (pendingChanges s)" "safe_rows (pendingDeletions s)" "safe_rows (pendingInsertions s)"
  shows "toGridSnapshot (snap_obj s) =
    (if \<not> truthy (pendingChanges s) \<and> \<not> truthy (pendingDeletions s) \<and> \<not> truthy (pendingInsertions s)
     then None else Some s)"
  using assms
  by (simp add: toGridSnapshot_def snap_obj_def isSnapshot_def safe_rows_def has_key_def [of "JObj _"])

lemma grid_snap_step_state:
  assumes "entry_ok e"
  shows "grid_snap (step_state e) = e"
proof (cases e)
  case None
  then show ?thesis
    by (simp add: grid_snap_def step_state_def snap_obj_def toGridSnapshot_def isSnapshot_def has_key_def
        cloneGridSnapshot_def)
next
  case (Some s)
  with assms have c: "cloneGridSnapshot (Some s) = Some s"
    and s: "safe_rows (pendingChanges s)" "safe_rows (pendingDeletions s)" "safe_rows (pendingInsertions s)"
    by (simp_all add: entry_ok_def)
  from c have f: "clonePendingChanges (pendingChanges s) = pendingChanges s"
    "clonePendingDeletions (pendingDeletions s) = pendingDeletions s"
    "clonePendingInsertions (pendingInsertions s) = pendingInsertions s"
    "truthy (pendingChanges s) \<or> truthy (pendingDeletions s) \<or> truthy (pendingInsertions s)"
    by (auto simp: cloneGridSnapshot_def Let_def split: if_splits dest: arg_cong [of _ _ pendingChanges]
        arg_cong [of _ _ pendingDeletions] arg_cong [of _ _ pendingInsertions])
  have "step_state (Some s) = snap_obj s" using f by (simp add: step_state_def snap_obj_def)
  with f(4) c s Some show ?thesis by (auto simp: grid_snap_def toGridSnapshot_snap_obj)
qed

definition good_grid :: "GridHistory \<Rightarrow> bool" where
  "good_grid h \<longleftrightarrow> list_all entry_ok (g_past h) \<and> list_all entry_ok (g_future h)"

definition good_pending :: "jsval \<Rightarrow> bool" where
  "good_pending c \<longleftrightarrow> entry_ok (grid_snap c)"

interpretation grid: undo_stack good_grid good_pending g_past g_future grid_snap undoGridEdit redoGridEdit
proof unfold_locales
  fix h :: GridHistory and c h' s
  assume g: "good_grid h" "good_pending c"
  show "g_past h = g_past h' @ [grid_snap s] \<and> g_future h' = grid_snap c # g_future h \<and> good_grid h' \<and> good_pending s"
    if "undoGridEdit h c = Some (h', s)"
  proof -
    from that obtain xs e where p: "g_past h = xs @ [e]"
      by (cases "g_past h" rule: rev_cases) (auto simp: undoGridEdit_def)
    with g have "entry_ok e" by (simp add: good_grid_def)
    with that p g show ?thesis
      by (auto simp: undoGridEdit_def good_grid_def good_pending_def grid_snap_step_state)
        (simp add: grid_snap_def good_pending_def)+
  qed
  show "g_past h' = g_past h @ [grid_snap c] \<and> g_future h = grid_snap s # g_future h' \<and> good_grid h' \<and> good_pending s"
    if "redoGridEdit h c = Some (h', s)"
  proof -
    from that obtain e es where p: "g_future h = e # es" by (cases "g_future h") (auto simp: redoGridEdit_def)
    with g have "entry_ok e" by (simp add: good_grid_def)
    with that p g show ?thesis
      by (auto simp: redoGridEdit_def good_grid_def good_pending_def grid_snap_step_state)
        (simp add: grid_snap_def good_pending_def)+
  qed
qed (auto simp: undoGridEdit_def redoGridEdit_def split: list.splits)

section \<open>Properties of the grid's history\<close>

text \<open>C30 (grid_redo_undoes_undo): in the grid, redoing what was undone gives back the pending edits as they
  were (as deep copies) with the same past and future, and undo hands back exactly the snapshot that was
  recorded last.\<close>

theorem grid_redo_undoes_undo:
  assumes "good_grid h" "good_pending c" "undoGridEdit h c = Some (h', s)"
  shows "cloneGridSnapshot (toGridSnapshot s) = last (g_past h)
    \<and> (\<exists>h'' s'. redoGridEdit h' s = Some (h'', s') \<and> g_past h'' = g_past h \<and> g_future h'' = g_future h
         \<and> cloneGridSnapshot (toGridSnapshot s') = cloneGridSnapshot (toGridSnapshot c))"
  using grid.redo_after_undo [OF assms] grid.undo_Some [OF assms] by (simp add: grid_snap_def)

lemma grid_redo_undoes_undo_witness:
  "cloneGridSnapshot (toGridSnapshot (step_state None)) = last [None]
    \<and> (\<exists>h'' s'. redoGridEdit \<lparr>g_past = [], g_future = [None], g_lastEditTime = 0, g_lastModifiedKey = None\<rparr>
          (step_state None) = Some (h'', s') \<and> g_past h'' = [None] \<and> g_future h'' = []
         \<and> cloneGridSnapshot (toGridSnapshot s') = cloneGridSnapshot (toGridSnapshot JUndefined))"
  using grid_redo_undoes_undo [of "\<lparr>g_past = [None], g_future = [], g_lastEditTime = 5, g_lastModifiedKey = None\<rparr>"
      JUndefined "\<lparr>g_past = [], g_future = [None], g_lastEditTime = 0, g_lastModifiedKey = None\<rparr>" "step_state None"]
  by (simp add: good_grid_def good_pending_def grid_snap_def entry_ok_def toGridSnapshot_def
      cloneGridSnapshot_def undoGridEdit_def)

text \<open>Histories a grid can have. The clock is past the coalescing window counted from the epoch.\<close>

inductive grid_reach :: "GridHistory \<Rightarrow> bool" where
  create: "grid_reach createGridHistory"
| edit: "grid_reach h \<Longrightarrow> GRID_BURST_COALESCE_MS \<le> now \<Longrightarrow> grid_reach (recordGridEdit h prev next now coalesce)"
| undo: "grid_reach h \<Longrightarrow> undoGridEdit h c = Some (h', s) \<Longrightarrow> grid_reach h'"
| redo: "grid_reach h \<Longrightarrow> redoGridEdit h c = Some (h', s) \<Longrightarrow> grid_reach h'"

lemma grid_reach_inv:
  "grid_reach h \<Longrightarrow> (g_future h \<noteq> [] \<longrightarrow> g_lastEditTime h = 0 \<and> g_lastModifiedKey h = None)
     \<and> length (g_past h) + length (g_future h) \<le> GRID_HISTORY_LIMIT"
proof (induction rule: grid_reach.induct)
  case create
  show ?case by (simp add: createGridHistory_def)
next
  case (edit h now prev nxt co)
  then show ?case using push_limited_length [of "g_past h" GRID_HISTORY_LIMIT]
    by (auto simp: recordGridEdit_def Let_def)
next
  case (undo h c h' s)
  then show ?case by (cases "g_past h" rule: rev_cases) (auto simp: undoGridEdit_def split: if_splits)
next
  case (redo h c h' s)
  then show ?case by (auto simp: redoGridEdit_def split: list.splits)
qed

text \<open>Property (grid_edit_clears_redo): in every history a grid can have, an edit that changes the pending state
  leaves nothing to redo, coalesced or not, and at most 50 undo steps are kept.\<close>

theorem grid_edit_clears_redo:
  assumes "grid_reach h" "GRID_BURST_COALESCE_MS \<le> now" "prev \<noteq> next"
    "gridSnapshotSignature (toGridSnapshot prev) \<noteq> gridSnapshotSignature (toGridSnapshot next)"
  shows "g_future (recordGridEdit h prev next now coalesce) = []
    \<and> length (g_past (recordGridEdit h prev next now coalesce)) \<le> 50"
proof
  note inv = grid_reach_inv [OF assms(1)]
  show "g_future (recordGridEdit h prev next now coalesce) = []"
    using inv assms(2-4) by (auto simp: recordGridEdit_def Let_def)
  have "grid_reach (recordGridEdit h prev next now coalesce)" by (rule grid_reach.edit [OF assms(1,2)])
  from grid_reach_inv [OF this] show "length (g_past (recordGridEdit h prev next now coalesce)) \<le> 50"
    by (simp add: GRID_HISTORY_LIMIT_def)
qed

lemma grid_edit_clears_redo_witness:
  "let next = JObj [(''1'', JObj [(''pkOriginalValue'', JNum 1 0), (''changes'', JObj [(''c'', JNull)])])] in
   g_future (recordGridEdit createGridHistory JUndefined next 1000 True) = []
    \<and> length (g_past (recordGridEdit createGridHistory JUndefined next 1000 True)) \<le> 50"
  unfolding Let_def
proof (rule grid_edit_clears_redo)
  show "grid_reach createGridHistory" by (rule grid_reach.create)
  show "gridSnapshotSignature (toGridSnapshot JUndefined) \<noteq> gridSnapshotSignature (toGridSnapshot
      (JObj [(''1'', JObj [(''pkOriginalValue'', JNum 1 0), (''changes'', JObj [(''c'', JNull)])])]))"
    by code_simp
qed (simp_all add: GRID_BURST_COALESCE_MS_def)

end
