(* ===== verification/AsyncResource.thy ===== *)
theory AsyncResource
  imports Prelude
begin

text \<open>
  A shared asynchronous resource (\<open>utils/asyncResource.ts\<close>): the closure's variables are the state, the
  promise chain is the phase of the current request, and a step is one turn of the event loop: a call of
  \<open>load\<close>, \<open>refresh\<close> or \<open>set\<close>, the deferred start of the request, the resolution or rejection of
  the read in flight. \<open>fetchData\<close> is not modelled: each read ends with any data or error, or never.
  Listeners are not called. \<open>asked\<close> and \<open>served\<close> are ghosts: how many refreshes were asked for, and how
  many had been when the newest read started.
\<close>

record 'a ResourceSnapshot =
  snap_data :: 'a
  snap_loading :: bool
  snap_error :: "jsstring option"

text \<open>\<open>Idle\<close>: \<open>request === null\<close>. \<open>Scheduled\<close>: the request exists, its first turn has not run.
  \<open>Fetching started\<close>: inside \<open>await fetchData()\<close>.\<close>

datatype Phase = Idle | Scheduled | Fetching nat

record 'a Resource =
  snapshot :: "'a ResourceSnapshot"
  request :: Phase
  loaded :: bool
  dirty :: bool
  generation :: nat
  asked :: nat
  served :: nat

definition createAsyncResource :: "'a \<Rightarrow> 'a Resource" where
  "createAsyncResource initial =
     \<lparr>snapshot = \<lparr>snap_data = initial, snap_loading = True, snap_error = None\<rparr>, request = Idle,
      loaded = False, dirty = False, generation = 0, asked = 0, served = 0\<rparr>"

definition load :: "bool \<Rightarrow> 'a Resource \<Rightarrow> 'a Resource" where
  "load isRefresh r =
     (let r1 = (if isRefresh then r\<lparr>dirty := True, asked := Suc (asked r)\<rparr> else r)
      in if request r1 \<noteq> Idle then r1
         else if loaded r1 \<and> \<not> dirty r1 then r1
         else r1\<lparr>request := Scheduled\<rparr>)"

text \<open>The head of the \<open>do\<close> loop, up to the call of \<open>fetchData\<close>.\<close>

definition start_read :: "'a Resource \<Rightarrow> 'a Resource" where
  "start_read r =
     r\<lparr>dirty := False, snapshot := (snapshot r)\<lparr>snap_loading := True, snap_error := None\<rparr>,
       request := Fetching (generation r), served := asked r\<rparr>"

text \<open>\<open>while (dirty)\<close>, and the \<open>finally\<close> that clears the request.\<close>

definition loop_or_finish :: "'a Resource \<Rightarrow> 'a Resource" where
  "loop_or_finish r = (if dirty r then start_read r else r\<lparr>request := Idle\<rparr>)"

definition run_scheduled :: "'a Resource \<Rightarrow> 'a Resource" where
  "run_scheduled r = start_read r"

definition resolve :: "nat \<Rightarrow> 'a \<Rightarrow> 'a Resource \<Rightarrow> 'a Resource" where
  "resolve started d r =
     (if started \<noteq> generation r then loop_or_finish r
      else loop_or_finish
             (r\<lparr>loaded := True, snapshot := \<lparr>snap_data = d, snap_loading = False, snap_error = None\<rparr>\<rparr>))"

definition reject :: "nat \<Rightarrow> jsstring \<Rightarrow> 'a Resource \<Rightarrow> 'a Resource" where
  "reject started e r =
     (if started \<noteq> generation r then loop_or_finish r
      else loop_or_finish
             (r\<lparr>loaded := False,
                snapshot := (snapshot r)\<lparr>snap_loading := False, snap_error := Some e\<rparr>\<rparr>))"

definition set_data :: "'a \<Rightarrow> 'a Resource \<Rightarrow> 'a Resource" where
  "set_data d r =
     r\<lparr>generation := Suc (generation r), loaded := True,
       snapshot := \<lparr>snap_data = d, snap_loading = False, snap_error = None\<rparr>\<rparr>"

text \<open>One turn of the event loop.\<close>

inductive turn :: "'a Resource \<Rightarrow> 'a Resource \<Rightarrow> bool" where
  load: "turn r (load False r)"
| refresh: "turn r (load True r)"
| set_: "turn r (set_data d r)"
| begin_: "request r = Scheduled \<Longrightarrow> turn r (run_scheduled r)"
| resolved: "request r = Fetching n \<Longrightarrow> turn r (resolve n d r)"
| rejected: "request r = Fetching n \<Longrightarrow> turn r (reject n e r)"

inductive reachable :: "'a \<Rightarrow> 'a Resource \<Rightarrow> bool" for initial where
  start: "reachable initial (createAsyncResource initial)"
| step: "reachable initial r \<Longrightarrow> turn r r' \<Longrightarrow> reachable initial r'"

section \<open>The invariant\<close>

definition fresh_resource :: "'a \<Rightarrow> 'a Resource \<Rightarrow> bool" where
  "fresh_resource initial r \<longleftrightarrow>
     (\<not> dirty r \<longrightarrow> served r = asked r)
     \<and> (case request r of
          Idle \<Rightarrow> \<not> dirty r \<and>
            (snap_loading (snapshot r) \<longrightarrow> snapshot r = snapshot (createAsyncResource initial) \<and> \<not> loaded r \<and> asked r = 0)
            \<and> (\<not> snap_loading (snapshot r) \<longrightarrow> loaded r = (snap_error (snapshot r) = None))
        | Scheduled \<Rightarrow> True
        | Fetching n \<Rightarrow> n \<le> generation r
            \<and> (if n = generation r then snap_loading (snapshot r) \<and> snap_error (snapshot r) = None
               else \<not> snap_loading (snapshot r) \<and> loaded r \<and> snap_error (snapshot r) = None))"

lemma fresh_start_read: "fresh_resource i (start_read r)"
  by (simp add: fresh_resource_def start_read_def)

lemma fresh_loop_or_finish:
  assumes "\<not> dirty r \<longrightarrow> served r = asked r" "\<not> snap_loading (snapshot r)"
    "loaded r = (snap_error (snapshot r) = None)"
  shows "fresh_resource i (loop_or_finish r)"
  using assms fresh_start_read [of i r] by (simp add: loop_or_finish_def fresh_resource_def)

lemma fresh_turn:
  assumes "turn r r'" "fresh_resource i r"
  shows "fresh_resource i r'"
  using assms
proof cases
  case load
  with assms(2) show ?thesis by (auto simp: load_def fresh_resource_def Let_def split: Phase.splits)
next
  case refresh
  with assms(2) show ?thesis by (auto simp: load_def fresh_resource_def Let_def split: Phase.splits if_splits)
next
  case (set_ d)
  with assms(2) show ?thesis by (auto simp: set_data_def fresh_resource_def split: Phase.splits if_splits)
next
  case begin_
  then show ?thesis by (simp add: run_scheduled_def fresh_start_read)
next
  case (resolved n d)
  with assms(2) show ?thesis
    unfolding resolve_def by (auto simp: fresh_resource_def [of i r] intro!: fresh_loop_or_finish)
next
  case (rejected n e)
  with assms(2) show ?thesis
    unfolding reject_def by (auto simp: fresh_resource_def [of i r] intro!: fresh_loop_or_finish)
qed

lemma reachable_fresh: "reachable i r \<Longrightarrow> fresh_resource i r"
proof (induction rule: reachable.induct)
  case start
  show ?case by (simp add: fresh_resource_def createAsyncResource_def)
next
  case (step r r')
  then show ?case by (simp add: fresh_turn)
qed

text \<open>Property (resource_idle_is_fresh): whenever no request is under way, no refresh has been forgotten (the newest
  read started after the newest refresh was asked for), and the snapshot is either the untouched
  initial one or a finished one: not loading, and marked loaded exactly when it has no error.\<close>

theorem resource_idle_is_fresh:
  assumes "reachable initial r" "request r = Idle"
  shows "\<not> dirty r \<and> served r = asked r
    \<and> (snapshot r = snapshot (createAsyncResource initial)
       \<or> (\<not> snap_loading (snapshot r) \<and> loaded r = (snap_error (snapshot r) = None)))"
  using reachable_fresh [OF assms(1)] assms(2) by (auto simp: fresh_resource_def)

lemma resource_idle_is_fresh_witness:
  "\<not> dirty (createAsyncResource (0::nat)) \<and> served (createAsyncResource (0::nat)) = asked (createAsyncResource (0::nat))
    \<and> (snapshot (createAsyncResource (0::nat)) = snapshot (createAsyncResource 0)
       \<or> (\<not> snap_loading (snapshot (createAsyncResource (0::nat)))
          \<and> loaded (createAsyncResource (0::nat)) = (snap_error (snapshot (createAsyncResource (0::nat))) = None)))"
  by (rule resource_idle_is_fresh [OF reachable.start]) (simp add: createAsyncResource_def)

text \<open>C16 (set_supersedes_read): data adopted by \<open>set\<close> while a read is in flight is not overwritten by that
  read, whether it succeeds or fails: when it ends, either the adopted data is shown and the resource is
  idle, or a read that a refresh asked for has started with the adopted data still shown.\<close>

theorem set_supersedes_read:
  assumes "reachable initial r" "request r = Fetching n"
  shows "snap_data (snapshot (resolve n old (set_data d r))) = d
    \<and> snap_data (snapshot (reject n e (set_data d r))) = d
    \<and> loaded (resolve n old (set_data d r))
    \<and> (request (resolve n old (set_data d r)) = Idle \<or> dirty r)"
proof -
  have "n \<le> generation r" using reachable_fresh [OF assms(1)] assms(2) by (simp add: fresh_resource_def)
  then show ?thesis
    by (simp add: resolve_def reject_def set_data_def loop_or_finish_def start_read_def)
qed

lemma set_supersedes_read_witness:
  "let r = run_scheduled (load False (createAsyncResource (0::nat))) in
   snap_data (snapshot (resolve 0 5 (set_data 7 r))) = 7
    \<and> snap_data (snapshot (reject 0 ''e'' (set_data 7 r))) = 7
    \<and> loaded (resolve 0 5 (set_data 7 r))
    \<and> (request (resolve 0 5 (set_data 7 r)) = Idle \<or> dirty r)"
  unfolding Let_def
proof (rule set_supersedes_read)
  have r: "request (load False (createAsyncResource (0::nat))) = Scheduled"
    by (simp add: load_def createAsyncResource_def)
  show "reachable 0 (run_scheduled (load False (createAsyncResource (0::nat))))"
    by (intro reachable.step [OF reachable.step [OF reachable.start turn.load] turn.begin_ [OF r]])
  show "request (run_scheduled (load False (createAsyncResource (0::nat)))) = Fetching 0"
    by (simp add: run_scheduled_def start_read_def load_def createAsyncResource_def)
qed

section \<open>A request ends\<close>

text \<open>The event loop left alone: the scheduled start runs, a read in flight ends with the given result.\<close>

definition advance :: "'a + jsstring \<Rightarrow> 'a Resource \<Rightarrow> 'a Resource" where
  "advance res r =
     (case request r of
        Idle \<Rightarrow> r
      | Scheduled \<Rightarrow> run_scheduled r
      | Fetching n \<Rightarrow> (case res of Inl d \<Rightarrow> resolve n d r | Inr e \<Rightarrow> reject n e r))"


end
