(* ===== verification/ConnectionLayout.thy ===== *)
theory ConnectionLayout
  imports Prelude Complex_Main
begin

text \<open>
  The split view's tiling tree (\<open>utils/connectionLayout.ts\<close>): building, removing, inserting, moving and
  swapping panels, resizing, and the geometry of panes and dividers. Shares and coordinates are exact
  rationals where the code computes with doubles.
\<close>

datatype SplitMode = Vertical | Horizontal

datatype SplitNode = Leaf jsstring | Split SplitMode "SplitNode list" "rat list"

record SplitView =
  layout :: SplitNode
  connectionIds :: "jsstring list"
  mode :: SplitMode

datatype SplitEdge = ELeft | ERight | ETop | EBottom

definition MAX_SPLIT_CONNECTIONS :: nat where "MAX_SPLIT_CONNECTIONS = 4"
definition MIN_SPLIT_PANE_SIZE :: rat where "MIN_SPLIT_PANE_SIZE = 10"

record SplitLayoutState =
  splitView :: "SplitView option"
  isSplitVisible :: bool
  pathname :: jsstring

definition resolveRenderedSplitLayout :: "SplitLayoutState \<Rightarrow> SplitView option" where
  "resolveRenderedSplitLayout st =
     (let isRouteWithSplit = (pathname st \<noteq> ''/'' \<and> pathname st \<noteq> ''/connections'' \<and> pathname st \<noteq> ''/settings'')
      in if splitView st \<noteq> None \<and> isSplitVisible st \<and> isRouteWithSplit then splitView st else None)"

fun flattenLayout :: "SplitNode \<Rightarrow> jsstring list" where
  "flattenLayout (Leaf i) = [i]"
| "flattenLayout (Split m children sizes) = concat (map flattenLayout children)"

definition defaultSplitSizes :: "nat \<Rightarrow> rat list" where
  "defaultSplitSizes paneCount = replicate paneCount (100 / of_nat paneCount)"

definition layoutFromIds :: "jsstring list \<Rightarrow> SplitMode \<Rightarrow> SplitNode option" where
  "layoutFromIds ids m =
     (if length ids = 0 then None
      else if length ids = 1 then Some (Leaf (ids ! 0))
      else Some (Split m (map Leaf ids) (defaultSplitSizes (length ids))))"

definition makeSplitView :: "SplitNode option \<Rightarrow> SplitView option" where
  "makeSplitView node =
     (case node of None \<Rightarrow> None
      | Some l \<Rightarrow>
          (let ids = flattenLayout l
           in if length ids = 0 then None
              else Some \<lparr>layout = l, connectionIds = ids,
                         mode = (case l of Split m _ _ \<Rightarrow> m | Leaf _ \<Rightarrow> Vertical)\<rparr>))"

definition isConnectionGrouped :: "jsstring \<Rightarrow> SplitView option \<Rightarrow> bool" where
  "isConnectionGrouped i v = (case v of None \<Rightarrow> False | Some v \<Rightarrow> i \<in> set (connectionIds v))"

definition buildPanelDatabaseData :: "jsstring \<Rightarrow> (jsstring \<Rightarrow> 'd option) \<Rightarrow> 'd option" where
  "buildPanelDatabaseData i m = m i"

definition canActivateSplit :: "jsstring set \<Rightarrow> bool" where
  "canActivateSplit selectedIds \<longleftrightarrow> 2 \<le> card selectedIds \<and> card selectedIds \<le> MAX_SPLIT_CONNECTIONS"

definition canAddToSplit :: "SplitView option \<Rightarrow> jsstring \<Rightarrow> bool" where
  "canAddToSplit v i =
     (case v of None \<Rightarrow> False
      | Some v \<Rightarrow> length (connectionIds v) < MAX_SPLIT_CONNECTIONS \<and> i \<notin> set (connectionIds v))"

definition resizeSplitSizes :: "rat list \<Rightarrow> int \<Rightarrow> rat \<Rightarrow> rat list" where
  "resizeSplitSizes sizes dividerIndex deltaPercent =
     (if dividerIndex < 0 \<or> dividerIndex \<ge> int (length sizes) - 1 then sizes
      else
        (let i = nat dividerIndex; left = sizes ! i; right = sizes ! (i + 1);
             clampedDelta = max (MIN_SPLIT_PANE_SIZE - left) (min deltaPercent (right - MIN_SPLIT_PANE_SIZE))
         in if clampedDelta = 0 then sizes
            else sizes[i := left + clampedDelta, i + 1 := right - clampedDelta]))"

text \<open>\<open>sizes[i] ?? 100 / count\<close>.\<close>

definition share_at :: "rat list \<Rightarrow> nat \<Rightarrow> nat \<Rightarrow> rat" where
  "share_at sizes i n = (if i < length sizes then sizes ! i else 100 / of_nat n)"

fun removeFromLayout :: "SplitNode \<Rightarrow> jsstring \<Rightarrow> SplitNode option" where
  "removeFromLayout (Leaf i) x = (if i = x then None else Some (Leaf i))"
| "removeFromLayout (Split m children sizes) x =
     (let removed = map (\<lambda>c. removeFromLayout c x) children;
          kept = filter (\<lambda>(i, r). r \<noteq> None) (enumerate 0 removed);
          children' = map (\<lambda>(i, r). the r) kept;
          sizes' = map (\<lambda>(i, r). share_at sizes i (length children)) kept
      in if length children' = 0 then None
         else if length children' = 1 then Some (children' ! 0)
         else
           (let total = (if sum_list sizes' = 0 then 1 else sum_list sizes')
            in Some (Split m children' (map (\<lambda>s. (s / total) * 100) sizes'))))"

fun leaf_index :: "jsstring \<Rightarrow> SplitNode list \<Rightarrow> nat option" where
  "leaf_index t [] = None"
| "leaf_index t (c # cs) = (if c = Leaf t then Some 0 else map_option Suc (leaf_index t cs))"

fun insert_node :: "jsstring \<Rightarrow> jsstring \<Rightarrow> SplitMode \<Rightarrow> bool \<Rightarrow> SplitNode \<Rightarrow> SplitNode" where
  "insert_node target new m before (Leaf i) =
     (if i \<noteq> target then Leaf i
      else Split m (if before then [Leaf new, Leaf i] else [Leaf i, Leaf new]) [50, 50])"
| "insert_node target new m before (Split m' children sizes) =
     (case (if m' = m then leaf_index target children else None) of
        Some idx \<Rightarrow>
          (let share = share_at sizes idx (length children) / 2;
               gap = (if before then idx else idx + 1)
           in Split m' (splice_in gap (Leaf new) children) (splice_in gap share (sizes[idx := share])))
      | None \<Rightarrow> Split m' (map (insert_node target new m before) children) sizes)"

definition insertIntoLayout :: "SplitNode \<Rightarrow> jsstring \<Rightarrow> jsstring \<Rightarrow> SplitEdge \<Rightarrow> SplitNode" where
  "insertIntoLayout node targetId connectionId edge =
     insert_node targetId connectionId
       (if edge = ELeft \<or> edge = ERight then Vertical else Horizontal) (edge = ELeft \<or> edge = ETop) node"

definition or_view :: "SplitView option \<Rightarrow> SplitView \<Rightarrow> SplitView" where
  "or_view m v = (case m of None \<Rightarrow> v | Some w \<Rightarrow> w)"

definition moveInSplit :: "SplitView \<Rightarrow> jsstring \<Rightarrow> jsstring \<Rightarrow> SplitEdge \<Rightarrow> SplitView" where
  "moveInSplit v draggedId targetId edge =
     (if draggedId = targetId then v
      else if draggedId \<notin> set (connectionIds v) \<or> targetId \<notin> set (connectionIds v) then v
      else case removeFromLayout (layout v) draggedId of
             None \<Rightarrow> v
           | Some without \<Rightarrow>
               or_view (makeSplitView (Some (insertIntoLayout without targetId draggedId edge))) v)"

definition addToSplit :: "SplitView \<Rightarrow> jsstring \<Rightarrow> SplitView" where
  "addToSplit v connectionId =
     (if \<not> canAddToSplit (Some v) connectionId then v
      else
        (let next =
           (case layout v of
              Split m children sizes \<Rightarrow>
                (let count = length children; scale = of_nat count / of_nat (count + 1)
                 in Split m (children @ [Leaf connectionId])
                      (map (\<lambda>s. s * scale) sizes @ [100 / of_nat (count + 1)]))
            | Leaf i \<Rightarrow> Split Vertical [Leaf i, Leaf connectionId] [50, 50])
         in or_view (makeSplitView (Some next)) v))"

fun swap_node :: "jsstring \<Rightarrow> jsstring \<Rightarrow> SplitNode \<Rightarrow> SplitNode" where
  "swap_node a b (Leaf i) = (if i = a then Leaf b else if i = b then Leaf a else Leaf i)"
| "swap_node a b (Split m children sizes) = Split m (map (swap_node a b) children) sizes"

definition swapInSplit :: "SplitView \<Rightarrow> jsstring \<Rightarrow> jsstring \<Rightarrow> SplitView" where
  "swapInSplit v aId bId =
     (if aId = bId then v
      else if aId \<notin> set (connectionIds v) \<or> bId \<notin> set (connectionIds v) then v
      else or_view (makeSplitView (Some (swap_node aId bId (layout v)))) v)"

fun getSplitNodeAt :: "SplitNode \<Rightarrow> nat list \<Rightarrow> SplitNode option" where
  "getSplitNodeAt node [] = Some node"
| "getSplitNodeAt (Leaf i) (idx # path) = None"
| "getSplitNodeAt (Split m children sizes) (idx # path) =
     (if idx < length children then getSplitNodeAt (children ! idx) path else None)"

fun resizeLayoutAt :: "SplitNode \<Rightarrow> nat list \<Rightarrow> rat list \<Rightarrow> SplitNode" where
  "resizeLayoutAt (Leaf i) path sizes = Leaf i"
| "resizeLayoutAt (Split m children old) [] sizes = Split m children sizes"
| "resizeLayoutAt (Split m children old) (h # rest) sizes =
     Split m (map (\<lambda>(i, c). if i = h then resizeLayoutAt c rest sizes else c) (enumerate 0 children)) old"

section \<open>Geometry\<close>

record PaneRect =
  p_left :: rat
  p_top :: rat
  p_width :: rat
  p_height :: rat

record DividerGeometry =
  d_path :: "nat list"
  d_index :: nat
  d_mode :: SplitMode
  d_pos :: rat
  d_crossStart :: rat
  d_crossSize :: rat
  d_nodeMainSize :: rat

type_synonym Geometry = "(jsstring \<times> PaneRect) list \<times> DividerGeometry list"

text \<open>The \<open>forEach\<close> over the children is \<open>place_children\<close>: \<open>i\<close> and \<open>offset\<close> are its running state, \<open>n\<close> the
  number of children.\<close>

function computeLayoutGeometry :: "SplitNode \<Rightarrow> PaneRect \<Rightarrow> nat list \<Rightarrow> Geometry"
  and place_children ::
    "SplitMode \<Rightarrow> rat list \<Rightarrow> nat \<Rightarrow> PaneRect \<Rightarrow> nat list \<Rightarrow> SplitNode list \<Rightarrow> nat \<Rightarrow> rat \<Rightarrow> Geometry" where
  "computeLayoutGeometry (Leaf i) rect path = ([(i, rect)], [])"
| "computeLayoutGeometry (Split m children sizes) rect path =
     place_children m sizes (length children) rect path children 0
       (if m = Vertical then p_left rect else p_top rect)"
| "place_children m sizes n rect path [] i offset = ([], [])"
| "place_children m sizes n rect path (child # rest) i offset =
     (let isVertical = (m = Vertical);
          mainSize = (if isVertical then p_width rect else p_height rect);
          childSize = (mainSize * share_at sizes i n) / 100;
          childRect =
            (if isVertical
             then \<lparr>p_left = offset, p_top = p_top rect, p_width = childSize, p_height = p_height rect\<rparr>
             else \<lparr>p_left = p_left rect, p_top = offset, p_width = p_width rect, p_height = childSize\<rparr>);
          sub = computeLayoutGeometry child childRect (path @ [i]);
          offset' = offset + childSize;
          divider =
            (if i + 1 < n then
               [\<lparr>d_path = path, d_index = i, d_mode = m, d_pos = offset',
                 d_crossStart = (if isVertical then p_top rect else p_left rect),
                 d_crossSize = (if isVertical then p_height rect else p_width rect),
                 d_nodeMainSize = mainSize\<rparr>]
             else []);
          others = place_children m sizes n rect path rest (i + 1) offset'
      in (fst sub @ fst others, snd sub @ divider @ snd others))"
  by pat_completeness auto
termination
  by (relation "measure (\<lambda>x. case x of Inl (node, _) \<Rightarrow> size node
        | Inr (m, sizes, n, rect, path, cs, _) \<Rightarrow> size_list size cs)") auto

text \<open>The edge with the smallest distance, the first one on ties.\<close>

definition getPanelDropEdge :: "PaneRect \<Rightarrow> rat \<Rightarrow> rat \<Rightarrow> SplitEdge" where
  "getPanelDropEdge rect clientX clientY =
     (let x = (if p_width rect > 0 then (clientX - p_left rect) / p_width rect else 1 / 2);
          y = (if p_height rect > 0 then (clientY - p_top rect) / p_height rect else 1 / 2);
          distances = [(ELeft, x), (ERight, 1 - x), (ETop, y), (EBottom, 1 - y)]
      in fst (foldl (\<lambda>closest candidate. if snd candidate < snd closest then candidate else closest)
                (hd distances) (tl distances)))"

end
