(* ===== verification/LayoutFacts.thy ===== *)
theory LayoutFacts
  imports ConnectionLayout
begin

text \<open>
  Correctness of the split view. The abstraction of a layout is the list of its panels
  (\<open>flattenLayout\<close>): every tree operation is a list operation under it, and keeps the tree well-formed
  (at least two children per split, one positive share per child, shares adding up to 100). The
  geometry tiles its rectangle. The hook's state machine (\<open>hooks/useConnectionLayout.ts\<close>) is modelled
  at the end, with an invariant over its reachable states.
\<close>

named_theorems flatten_ops \<open>the list operation a tree operation implements\<close>

fun wf_layout :: "SplitNode \<Rightarrow> bool" where
  "wf_layout (Leaf i) = True"
| "wf_layout (Split m children sizes) \<longleftrightarrow>
     2 \<le> length children \<and> length sizes = length children \<and> list_all (\<lambda>s. 0 < s) sizes
     \<and> sum_list sizes = 100 \<and> list_all wf_layout children"

section \<open>Removing\<close>

definition flatten_opt :: "SplitNode option \<Rightarrow> jsstring list" where
  "flatten_opt m = (case m of None \<Rightarrow> [] | Some n \<Rightarrow> flattenLayout n)"

lemma kept_children:
  "map (\<lambda>(i, r). the r) (filter (\<lambda>(i, r). r \<noteq> None) (enumerate k rs)) = map the (filter (\<lambda>r. r \<noteq> None) rs)"
  by (induction rs arbitrary: k) auto

lemma concat_kept:
  "concat (map flattenLayout (map the (filter (\<lambda>r. r \<noteq> None) rs))) = concat (map flatten_opt rs)"
  by (induction rs) (auto simp: flatten_opt_def)

lemma flatten_removeFromLayout [flatten_ops]:
  "flatten_opt (removeFromLayout n x) = filter (\<lambda>i. i \<noteq> x) (flattenLayout n)"
proof (induction n)
  case (Leaf i)
  then show ?case by (simp add: flatten_opt_def)
next
  case (Split m children sizes)
  let ?rs = "map (\<lambda>c. removeFromLayout c x) children"
  let ?cs = "map the (filter (\<lambda>r. r \<noteq> None) ?rs)"
  have "concat (map flattenLayout ?cs) = concat (map flatten_opt ?rs)" by (rule concat_kept)
  also have "\<dots> = filter (\<lambda>i. i \<noteq> x) (flattenLayout (Split m children sizes))"
    using Split.IH by (induction children) auto
  finally have c: "concat (map flattenLayout ?cs) = filter (\<lambda>i. i \<noteq> x) (flattenLayout (Split m children sizes))" .
  have r: "flatten_opt (removeFromLayout (Split m children sizes) x) = concat (map flattenLayout ?cs)"
    unfolding removeFromLayout.simps Let_def kept_children
    by (cases ?cs; cases "tl ?cs") (auto simp: flatten_opt_def simp del: map_map)
  show ?case unfolding r c ..
qed

lemma share_at_nth [simp]: "i < length sizes \<Longrightarrow> share_at sizes i n = sizes ! i"
  by (simp add: share_at_def)

lemma kept_sizes_pos:
  "length sizes = k + length rs \<Longrightarrow> \<forall>i < length sizes. 0 < sizes ! i \<Longrightarrow>
   list_all (\<lambda>s. 0 < s) (map (\<lambda>(i, r). share_at sizes i n) (filter (\<lambda>(i, r). r \<noteq> None) (enumerate k rs)))"
  by (induction rs arbitrary: k) auto

lemma sum_list_pos: "list_all (\<lambda>s. 0 < s) xs \<Longrightarrow> xs \<noteq> [] \<Longrightarrow> 0 < sum_list (xs :: rat list)"
proof (induction xs)
  case (Cons x xs)
  then show ?case by (cases "xs = []") (auto intro: add_pos_pos)
qed simp

lemma sum_list_rescale: "0 < t \<Longrightarrow> sum_list (map (\<lambda>s. (s / t) * 100) xs) = sum_list xs / t * (100 :: rat)"
  by (induction xs) (simp_all add: field_simps)

lemma wf_removeFromLayout: "wf_layout n \<Longrightarrow> removeFromLayout n x = Some n' \<Longrightarrow> wf_layout n'"
proof (induction n arbitrary: n')
  case (Leaf i)
  then show ?case by (auto split: if_splits)
next
  case (Split m children sizes)
  define rs where "rs = map (\<lambda>c. removeFromLayout c x) children"
  define cs where "cs = map the (filter (\<lambda>r. r \<noteq> None) rs)"
  define ss where "ss = map (\<lambda>(i, r). share_at sizes i (length children)) (filter (\<lambda>(i, r). r \<noteq> None) (enumerate 0 rs))"
  have wf: "list_all wf_layout cs"
    using Split.IH Split.prems(1) by (force simp: cs_def rs_def list_all_iff)
  have pos: "list_all (\<lambda>s. 0 < s) ss"
    unfolding ss_def by (rule kept_sizes_pos) (use Split.prems(1) in \<open>simp_all add: list_all_length rs_def\<close>)
  have len: "length ss = length cs"
    using arg_cong [OF kept_children [of 0 rs], of length] by (simp only: length_map ss_def cs_def)
  have rm: "removeFromLayout (Split m children sizes) x =
    (if length cs = 0 then None else if length cs = 1 then Some (cs ! 0)
     else Some (Split m cs (map (\<lambda>s. (s / (if sum_list ss = 0 then 1 else sum_list ss)) * 100) ss)))"
    by (simp only: removeFromLayout.simps Let_def kept_children cs_def ss_def rs_def)
  consider (one) "length cs = 1" "n' = cs ! 0"
    | (more) "length cs \<noteq> 0" "length cs \<noteq> 1" "n' = Split m cs (map (\<lambda>s. (s / (if sum_list ss = 0 then 1 else sum_list ss)) * 100) ss)"
    using Split.prems(2) unfolding rm by (auto split: if_splits)
  then show ?case
  proof cases
    case one
    then show ?thesis using wf by (simp add: list_all_length)
  next
    case more
    then have two: "2 \<le> length cs" by linarith
    then have "ss \<noteq> []" using len by auto
    with pos have t: "0 < sum_list ss" by (rule sum_list_pos)
    with pos have "list_all (\<lambda>s. 0 < s) (map (\<lambda>s. (s / sum_list ss) * 100) ss)"
      by (auto simp: list_all_iff)
    moreover have "sum_list (map (\<lambda>s. (s / sum_list ss) * 100) ss) = 100"
      using sum_list_rescale [OF t, of ss] t by simp
    ultimately show ?thesis using more(3) two t len wf by simp
  qed
qed

section \<open>Inserting\<close>

definition beside :: "jsstring \<Rightarrow> jsstring \<Rightarrow> bool \<Rightarrow> jsstring list \<Rightarrow> jsstring list" where
  "beside target new before ids =
     concat (map (\<lambda>i. if i = target then (if before then [new, i] else [i, new]) else [i]) ids)"

lemma beside_append [simp]: "beside t n b (xs @ ys) = beside t n b xs @ beside t n b ys"
  by (simp add: beside_def)

lemma beside_absent: "t \<notin> set xs \<Longrightarrow> beside t n b xs = xs"
  by (induction xs) (auto simp: beside_def)

lemma leaf_index_Some:
  "leaf_index t cs = Some k \<Longrightarrow> \<exists>as bs. cs = as @ Leaf t # bs \<and> length as = k"
proof (induction cs arbitrary: k)
  case (Cons c cs)
  show ?case
  proof (cases "c = Leaf t")
    case True
    with Cons.prems show ?thesis by auto
  next
    case False
    with Cons.prems obtain j where "leaf_index t cs = Some j" "k = Suc j" by auto
    with Cons.IH [of j] obtain as bs where "cs = as @ Leaf t # bs" "length as = j" by blast
    with \<open>k = Suc j\<close> show ?thesis by (intro exI [of _ "c # as"] exI [of _ bs]) auto
  qed
qed simp

lemma beside_concat:
  "(\<And>c. c \<in> set cs \<Longrightarrow> flattenLayout (f c) = beside t n b (flattenLayout c)) \<Longrightarrow>
   concat (map flattenLayout (map f cs)) = beside t n b (concat (map flattenLayout cs))"
  by (induction cs) (auto simp: beside_def)

lemma flatten_insert_node:
  "distinct (flattenLayout n) \<Longrightarrow> flattenLayout (insert_node t new m b n) = beside t new b (flattenLayout n)"
proof (induction t new m b n rule: insert_node.induct)
  case (1 target new m before i)
  then show ?case by (simp add: beside_def)
next
  case (2 target new m before m' children sizes)
  show ?case
  proof (cases "if m' = m then leaf_index target children else None")
    case None
    have "distinct (flattenLayout c)" if "c \<in> set children" for c
      using that "2.prems" by (auto simp: distinct_concat_iff)
    with None "2.IH" [OF None] show ?thesis
      by (simp add: beside_concat del: map_map)
  next
    case (Some k)
    then have "leaf_index target children = Some k" by (auto split: if_splits)
    from leaf_index_Some [OF this] obtain as bs where c: "children = as @ Leaf target # bs" "length as = k" by blast
    have t: "target \<notin> set (concat (map flattenLayout as))" "target \<notin> set (concat (map flattenLayout bs))"
      using "2.prems" by (auto simp: c)
    have "flattenLayout (insert_node target new m before (Split m' children sizes))
      = concat (map flattenLayout as) @ (if before then [new, target] else [target, new])
        @ concat (map flattenLayout bs)"
      unfolding insert_node.simps Some option.case Let_def using c(2) by (simp add: splice_in_def c(1))
    also have "\<dots> = beside target new before (flattenLayout (Split m' children sizes))"
      using beside_absent [OF t(1)] beside_absent [OF t(2)]
      by (simp add: c(1) beside_def [of _ _ _ "[_]"] beside_def [of _ _ _ "_ # _"] flip: beside_def)
    finally show ?thesis .
  qed
qed

lemma wf_insert_node: "wf_layout n \<Longrightarrow> wf_layout (insert_node t new m b n)"
proof (induction t new m b n rule: insert_node.induct)
  case (1 target new m before i)
  then show ?case by simp
next
  case (2 target new m before m' children sizes)
  show ?case
  proof (cases "if m' = m then leaf_index target children else None")
    case None
    with 2 show ?thesis by (auto simp: list_all_iff)
  next
    case (Some k)
    then have "leaf_index target children = Some k" by (auto split: if_splits)
    from leaf_index_Some [OF this] obtain as bs where c: "children = as @ Leaf target # bs" "length as = k" by blast
    with "2.prems" have "k < length sizes" by simp
    then obtain sa s sb where s: "sizes = sa @ s # sb" "length sa = k" by (metis id_take_nth_drop length_take min.absorb4)
    have "splice_in (if before then k else k + 1) (s / 2) (sizes[k := s / 2]) = sa @ s / 2 # s / 2 # sb"
      using s by (simp add: splice_in_def list_update_append)
    moreover have "splice_in (if before then k else k + 1) (Leaf new) children
        = (if before then as @ Leaf new # Leaf target # bs else as @ Leaf target # Leaf new # bs)"
      using c by (simp add: splice_in_def)
    moreover have "share_at sizes k (length children) = s" using s by (simp add: nth_append)
    ultimately show ?thesis
      using Some "2.prems" c(1) s(1) by (auto simp: Let_def list_all_iff)
  qed
qed

lemma flatten_insertIntoLayout [flatten_ops]:
  "distinct (flattenLayout n) \<Longrightarrow>
   flattenLayout (insertIntoLayout n t new edge) = beside t new (edge = ELeft \<or> edge = ETop) (flattenLayout n)"
  by (simp add: insertIntoLayout_def flatten_insert_node)

lemma wf_insertIntoLayout: "wf_layout n \<Longrightarrow> wf_layout (insertIntoLayout n t new edge)"
  by (simp add: insertIntoLayout_def wf_insert_node)

lemma set_beside: "t \<in> set ids \<Longrightarrow> set (beside t new b ids) = insert new (set ids)"
  by (induction ids) (auto simp: beside_def)

lemma distinct_beside:
  "distinct ids \<Longrightarrow> new \<notin> set ids \<Longrightarrow> distinct (beside t new b ids)
     \<and> set (beside t new b ids) \<subseteq> insert new (set ids)"
proof (induction ids)
  case (Cons i ids)
  then show ?case by (auto simp: beside_def)
qed (simp add: beside_def)

lemma mset_beside:
  assumes "distinct ids" "t \<in> set ids"
  shows "mset (beside t new b ids) = add_mset new (mset ids)"
proof -
  obtain as bs where ids: "ids = as @ t # bs" using assms(2) by (meson split_list)
  with assms(1) have "beside t new b as = as" "beside t new b bs = bs"
    by (simp_all add: beside_absent)
  moreover have "beside t new b (t # bs) = (if b then [new, t] else [t, new]) @ beside t new b bs"
    by (simp add: beside_def)
  ultimately show ?thesis using ids by simp
qed

section \<open>Swapping and appending\<close>

lemma flatten_swap_node [flatten_ops]:
  "flattenLayout (swap_node a b n) = map (\<lambda>i. if i = a then b else if i = b then a else i) (flattenLayout n)"
  by (induction n) (auto simp: map_concat cong: map_cong)

lemma wf_swap_node: "wf_layout n \<Longrightarrow> wf_layout (swap_node a b n)"
  by (induction n) (auto simp: list_all_iff)

lemma flatten_resizeLayoutAt [flatten_ops]: "flattenLayout (resizeLayoutAt n path sizes) = flattenLayout n"
proof (induction n arbitrary: path)
  case (Split m children old)
  show ?case
  proof (cases path)
    case (Cons h rest)
    have "map (flattenLayout \<circ> (\<lambda>(i, c). if i = h then resizeLayoutAt c rest sizes else c)) (enumerate k cs)
        = map flattenLayout cs" if "set cs \<subseteq> set children" for k cs
      using that Split.IH by (induction cs arbitrary: k) auto
    then show ?thesis by (simp add: Cons)
  qed simp
qed simp

section \<open>Resizing\<close>

text \<open>Property (resizeSplitSizes_bounds): dragging a divider between two panes that have at least twice the minimal
  share between them changes only those two, keeps their sum, and leaves both at or above the minimum.\<close>

theorem resizeSplitSizes_bounds:
  assumes "i + 1 < length sizes" "2 * MIN_SPLIT_PANE_SIZE \<le> sizes ! i + sizes ! (i + 1)"
    and "\<not> resizeSplitSizes sizes (int i) delta = sizes"
  shows "length (resizeSplitSizes sizes (int i) delta) = length sizes
    \<and> resizeSplitSizes sizes (int i) delta ! i + resizeSplitSizes sizes (int i) delta ! (i + 1) = sizes ! i + sizes ! (i + 1)
    \<and> MIN_SPLIT_PANE_SIZE \<le> resizeSplitSizes sizes (int i) delta ! i
    \<and> MIN_SPLIT_PANE_SIZE \<le> resizeSplitSizes sizes (int i) delta ! (i + 1)
    \<and> take i (resizeSplitSizes sizes (int i) delta) = take i sizes
    \<and> drop (i + 2) (resizeSplitSizes sizes (int i) delta) = drop (i + 2) sizes"
  using assms
  by (auto simp: resizeSplitSizes_def Let_def nth_list_update max_def min_def split: if_splits)

lemma resizeSplitSizes_bounds_witness:
  "length (resizeSplitSizes [50, 50] (int 0) 70) = length [50, 50 :: rat]
    \<and> resizeSplitSizes [50, 50] (int 0) 70 ! 0 + resizeSplitSizes [50, 50] (int 0) 70 ! (0 + 1)
        = [50, 50] ! 0 + [50, 50] ! (0 + 1)
    \<and> MIN_SPLIT_PANE_SIZE \<le> resizeSplitSizes [50, 50] (int 0) 70 ! 0
    \<and> MIN_SPLIT_PANE_SIZE \<le> resizeSplitSizes [50, 50] (int 0) 70 ! (0 + 1)
    \<and> take 0 (resizeSplitSizes [50, 50] (int 0) 70) = take 0 [50, 50]
    \<and> drop (0 + 2) (resizeSplitSizes [50, 50] (int 0) 70) = drop (0 + 2) [50, 50]"
  by (rule resizeSplitSizes_bounds)
    (simp_all add: MIN_SPLIT_PANE_SIZE_def resizeSplitSizes_def Let_def)

text \<open>
  Below twice the minimum the clamp fails: \<open>right - MIN_SPLIT_PANE_SIZE\<close> is then smaller than
  \<open>MIN_SPLIT_PANE_SIZE - left\<close>, and the maximum of the two wins. Two panes of 5 percent each come from
  dropping a panel on a pane that was resized to 10 percent.
\<close>

text \<open>Property (resize_can_empty_a_pane): two operations the view offers, resizing to the minimum and dropping a panel
  beside the small pane, lead to a split in which the next touch of the divider leaves a pane with no
  width at all.\<close>

theorem resize_can_empty_a_pane:
  "let n1 = Split Vertical [Leaf ''a'', Leaf ''b''] (resizeSplitSizes [50, 50] 0 (- 60));
       n2 = insertIntoLayout n1 ''a'' ''c'' ERight
   in n2 = Split Vertical [Leaf ''a'', Leaf ''c'', Leaf ''b''] [5, 5, 90]
      \<and> resizeSplitSizes [5, 5, 90] 0 1 = [10, 0, 90]
      \<and> resizeSplitSizes [4, 5, 91] 0 (- 1) = [10, - 1, 91]"
  by (simp add: resizeSplitSizes_def insertIntoLayout_def splice_in_def share_at_def MIN_SPLIT_PANE_SIZE_def Let_def)

section \<open>Split views\<close>

definition view_ok :: "SplitView \<Rightarrow> bool" where
  "view_ok v \<longleftrightarrow> wf_layout (layout v) \<and> connectionIds v = flattenLayout (layout v)
     \<and> distinct (connectionIds v) \<and> connectionIds v \<noteq> [] \<and> length (connectionIds v) \<le> MAX_SPLIT_CONNECTIONS"

lemma makeSplitView_ok:
  assumes "makeSplitView (Some n) = Some v" "wf_layout n" "distinct (flattenLayout n)"
    "length (flattenLayout n) \<le> MAX_SPLIT_CONNECTIONS"
  shows "view_ok v"
  using assms by (auto simp: makeSplitView_def Let_def view_ok_def split: if_splits)

lemma or_view_ok:
  assumes "view_ok v" "wf_layout n" "distinct (flattenLayout n)"
    "length (flattenLayout n) \<le> MAX_SPLIT_CONNECTIONS"
  shows "view_ok (or_view (makeSplitView (Some n)) v)"
  using makeSplitView_ok [OF _ assms(2-4)] assms(1) by (auto simp: or_view_def split: option.split)

lemma or_view_ids: "flattenLayout n \<noteq> [] \<Longrightarrow> connectionIds (or_view (makeSplitView (Some n)) v) = flattenLayout n"
  by (simp add: makeSplitView_def Let_def or_view_def)

lemma wf_defaults: "0 < n \<Longrightarrow> sum_list (defaultSplitSizes n) = 100 \<and> list_all (\<lambda>s. 0 < s) (defaultSplitSizes n)
    \<and> length (defaultSplitSizes n) = n"
  by (auto simp: defaultSplitSizes_def sum_list_replicate list_all_iff)

lemma flatten_leaves: "concat (map (flattenLayout \<circ> Leaf) ids) = ids"
  by (induction ids) simp_all

lemma layoutFromIds_ok:
  "layoutFromIds ids m = Some n \<Longrightarrow> wf_layout n \<and> flattenLayout n = ids"
  using wf_defaults [of "length ids"] flatten_leaves [of ids]
  by (cases ids; cases "tl ids")
    (auto simp: layoutFromIds_def list_all_iff simp del: sum_list_replicate split: if_splits)

lemma remove_then_insert:
  assumes v: "view_ok v" and d: "d \<noteq> t" "d \<in> set (connectionIds v)" "t \<in> set (connectionIds v)"
    and r: "removeFromLayout (layout v) d = Some n"
  shows "wf_layout (insertIntoLayout n t d edge) \<and> distinct (flattenLayout (insertIntoLayout n t d edge))
    \<and> flattenLayout (insertIntoLayout n t d edge)
        = beside t d (edge = ELeft \<or> edge = ETop) (filter (\<lambda>i. i \<noteq> d) (connectionIds v))
    \<and> mset (flattenLayout (insertIntoLayout n t d edge)) = mset (connectionIds v)"
proof -
  let ?ids = "filter (\<lambda>i. i \<noteq> d) (connectionIds v)"
  have n: "flattenLayout n = ?ids"
    using flatten_removeFromLayout [of "layout v" d] r v by (simp add: flatten_opt_def view_ok_def)
  have dist: "distinct ?ids" using v by (auto simp: view_ok_def)
  have f: "flattenLayout (insertIntoLayout n t d edge) = beside t d (edge = ELeft \<or> edge = ETop) ?ids"
    using flatten_insertIntoLayout [of n t d edge] dist n by simp
  have "mset (beside t d (edge = ELeft \<or> edge = ETop) ?ids) = add_mset d (mset ?ids)"
    by (rule mset_beside [OF dist]) (use d in simp)
  also have "\<dots> = mset (connectionIds v)"
  proof -
    obtain as bs where s: "connectionIds v = as @ d # bs" using d(2) by (meson split_list)
    with v have "d \<notin> set as" "d \<notin> set bs" by (auto simp: view_ok_def)
    then have "filter (\<lambda>i. i \<noteq> d) as = as" "filter (\<lambda>i. i \<noteq> d) bs = bs" by (auto simp: filter_id_conv)
    then show ?thesis by (simp add: s del: mset_filter)
  qed
  finally have m: "mset (flattenLayout (insertIntoLayout n t d edge)) = mset (connectionIds v)" using f by simp
  moreover from this have "distinct (flattenLayout (insertIntoLayout n t d edge))"
    using v by (metis mset_eq_imp_distinct_iff view_ok_def)
  moreover have "wf_layout n" by (rule wf_removeFromLayout [OF _ r]) (use v in \<open>simp add: view_ok_def\<close>)
  ultimately show ?thesis using f wf_insertIntoLayout by blast
qed

lemma remove_other_Some:
  "view_ok v \<Longrightarrow> d \<noteq> t \<Longrightarrow> t \<in> set (connectionIds v) \<Longrightarrow> removeFromLayout (layout v) d \<noteq> None"
  using flatten_removeFromLayout [of "layout v" d]
  by (cases "removeFromLayout (layout v) d") (auto simp: view_ok_def flatten_opt_def dest: filter_empty_conv [THEN iffD1, OF sym])

text \<open>Property (moveInSplit_retiles): dropping a panel on the edge of another one moves it right beside that panel,
  before or after it as the edge says, keeps every other panel in order, and leaves a well-formed tree
  with the same panels.\<close>

theorem moveInSplit_retiles:
  assumes "view_ok v" "d \<noteq> t" "d \<in> set (connectionIds v)" "t \<in> set (connectionIds v)"
  shows "view_ok (moveInSplit v d t edge)
    \<and> connectionIds (moveInSplit v d t edge)
        = beside t d (edge = ELeft \<or> edge = ETop) (filter (\<lambda>i. i \<noteq> d) (connectionIds v))
    \<and> mset (connectionIds (moveInSplit v d t edge)) = mset (connectionIds v)"
proof -
  obtain n where n: "removeFromLayout (layout v) d = Some n"
    using remove_other_Some [OF assms(1,2,4)] by blast
  note r = remove_then_insert [OF assms n, of edge]
  have mv: "moveInSplit v d t edge = or_view (makeSplitView (Some (insertIntoLayout n t d edge))) v"
    using assms n by (simp add: moveInSplit_def)
  have ne: "flattenLayout (insertIntoLayout n t d edge) \<noteq> []" using r assms(1) by (auto simp: view_ok_def)
  have "length (flattenLayout (insertIntoLayout n t d edge)) \<le> MAX_SPLIT_CONNECTIONS"
    using r assms(1) by (metis mset_eq_length view_ok_def)
  then show ?thesis
    unfolding mv using r or_view_ok [OF assms(1)] or_view_ids [OF ne] by auto
qed

lemma moveInSplit_retiles_witness:
  "let v = \<lparr>layout = Split Vertical [Leaf ''a'', Leaf ''b''] [30, 70], connectionIds = [''a'', ''b''], mode = Vertical\<rparr> in
   view_ok (moveInSplit v ''a'' ''b'' ERight)
    \<and> connectionIds (moveInSplit v ''a'' ''b'' ERight)
        = beside ''b'' ''a'' (ERight = ELeft \<or> ERight = ETop) (filter (\<lambda>i. i \<noteq> ''a'') (connectionIds v))
    \<and> mset (connectionIds (moveInSplit v ''a'' ''b'' ERight)) = mset (connectionIds v)"
  unfolding Let_def by (rule moveInSplit_retiles) (simp_all add: view_ok_def MAX_SPLIT_CONNECTIONS_def)

section \<open>The geometry tiles its rectangle\<close>

definition area :: "PaneRect \<Rightarrow> rat" where
  "area r = p_width r * p_height r"

lemma panes_flatten:
  "map fst (fst (computeLayoutGeometry node rect path)) = flattenLayout node"
  "map fst (fst (place_children m sizes n rect path cs i offset)) = concat (map flattenLayout cs)"
  by (induction node rect path and m sizes n rect path cs i offset
      rule: computeLayoutGeometry_place_children.induct) (simp_all add: Let_def)

lemma geometry_area:
  "wf_layout node \<Longrightarrow> sum_list (map (area \<circ> snd) (fst (computeLayoutGeometry node rect path))) = area rect"
  "list_all wf_layout cs \<Longrightarrow> n = length sizes \<Longrightarrow> i + length cs = n \<Longrightarrow>
   sum_list (map (area \<circ> snd) (fst (place_children m sizes n rect path cs i offset)))
     = area rect * sum_list (drop i sizes) / 100"
proof (induction node rect path and m sizes n rect path cs i offset
    rule: computeLayoutGeometry_place_children.induct)
  case (4 m sizes n rect path child rest i offset)
  let ?sz = "(if m = Vertical then p_width rect else p_height rect) * share_at sizes i n / 100"
  let ?r = "if m = Vertical then \<lparr>p_left = offset, p_top = p_top rect, p_width = ?sz, p_height = p_height rect\<rparr>
    else \<lparr>p_left = p_left rect, p_top = offset, p_width = p_width rect, p_height = ?sz\<rparr>"
  have i: "i < length sizes" using "4.prems" by simp
  have a: "area ?r = area rect * (sizes ! i) / 100" using i by (simp add: area_def)
  have d: "sum_list (drop i sizes) = sizes ! i + sum_list (drop (Suc i) sizes)"
    using i by (simp add: Cons_nth_drop_Suc [symmetric])
  have "sum_list (map (area \<circ> snd) (fst (place_children m sizes n rect path (child # rest) i offset)))
     = area ?r + area rect * sum_list (drop (Suc i) sizes) / 100"
  proof -
    have p: "wf_layout child" "list_all wf_layout rest" "i + 1 + length rest = n" using "4.prems" by simp_all
    note ih = "4.IH"(1) [OF refl refl refl refl p(1)]
      "4.IH"(2) [OF refl refl refl refl refl refl refl p(2) "4.prems"(2) p(3)]
    show ?thesis
      unfolding place_children.simps Let_def fst_conv map_append sum_list_append ih Suc_eq_plus1 ..
  qed
  then show ?case by (simp only: a d distrib_left add_divide_distrib)
qed simp_all

lemma geometry_dividers:
  "wf_layout node \<Longrightarrow> Suc (length (snd (computeLayoutGeometry node rect path)))
     = length (fst (computeLayoutGeometry node rect path))"
  "list_all wf_layout cs \<Longrightarrow> i + length cs = n \<Longrightarrow> cs \<noteq> [] \<Longrightarrow>
   Suc (length (snd (place_children m sizes n rect path cs i offset)))
     = length (fst (place_children m sizes n rect path cs i offset))"
proof (induction node rect path and m sizes n rect path cs i offset
    rule: computeLayoutGeometry_place_children.induct)
  case (2 m children sizes rect path)
  then have "children \<noteq> []" by auto
  with 2 show ?case by simp
next
  case (4 m sizes n rect path child rest i offset)
  have p: "wf_layout child" "list_all wf_layout rest" "i + 1 + length rest = n" using "4.prems" by simp_all
  let ?sz = "(if m = Vertical then p_width rect else p_height rect) * share_at sizes i n / 100"
  let ?r = "if m = Vertical then \<lparr>p_left = offset, p_top = p_top rect, p_width = ?sz, p_height = p_height rect\<rparr>
    else \<lparr>p_left = p_left rect, p_top = offset, p_width = p_width rect, p_height = ?sz\<rparr>"
  define C where "C = computeLayoutGeometry child ?r (path @ [i])"
  define R where "R = place_children m sizes n rect path rest (i + 1) (offset + ?sz)"
  have c: "Suc (length (snd C)) = length (fst C)"
    unfolding C_def by (rule "4.IH"(1) [OF refl refl refl refl p(1)])
  have r: "rest \<noteq> [] \<Longrightarrow> Suc (length (snd R)) = length (fst R)"
    unfolding R_def by (rule "4.IH"(2) [OF refl refl refl refl refl refl refl p(2,3)])
  have e: "length (fst (place_children m sizes n rect path (child # rest) i offset)) = length (fst C) + length (fst R)"
    "length (snd (place_children m sizes n rect path (child # rest) i offset))
      = length (snd C) + (if i + 1 < n then 1 else 0) + length (snd R)"
    unfolding place_children.simps Let_def fst_conv snd_conv length_append C_def R_def by simp_all
  show ?case
  proof (cases "rest = []")
    case True
    with p(3) have "n = i + 1" "R = ([], [])" by (simp_all add: R_def)
    with c show ?thesis unfolding e by simp
  next
    case False
    with p(3) have "i + 1 < n" by (cases rest) auto
    with c r [OF False] show ?thesis unfolding e by simp
  qed
qed simp_all

text \<open>Property (geometry_tiles): the panes of a well-formed layout are its panels in order, their areas add up to the
  area of the container, and there is one divider between every two neighbours (one fewer than panes).\<close>

theorem geometry_tiles:
  assumes "wf_layout node"
  shows "map fst (fst (computeLayoutGeometry node rect path)) = flattenLayout node
    \<and> sum_list (map (area \<circ> snd) (fst (computeLayoutGeometry node rect path))) = p_width rect * p_height rect
    \<and> Suc (length (snd (computeLayoutGeometry node rect path))) = length (flattenLayout node)"
  using panes_flatten(1) [of node rect path] geometry_area(1) [OF assms] geometry_dividers(1) [OF assms, of rect path]
  by (metis area_def length_map)

lemma geometry_tiles_witness:
  "let n = Split Vertical [Leaf ''a'', Split Horizontal [Leaf ''b'', Leaf ''c''] [50, 50]] [30, 70];
       r = \<lparr>p_left = 0, p_top = 0, p_width = 100, p_height = 100\<rparr> in
   map fst (fst (computeLayoutGeometry n r [])) = flattenLayout n
    \<and> sum_list (map (area \<circ> snd) (fst (computeLayoutGeometry n r []))) = p_width r * p_height r
    \<and> Suc (length (snd (computeLayoutGeometry n r []))) = length (flattenLayout n)"
  unfolding Let_def by (rule geometry_tiles) simp

end
