(* ===== verification/SplitHook.thy ===== *)
theory SplitHook
  imports LayoutFacts
begin

text \<open>
  The split view's state machine (\<open>hooks/useConnectionLayout.ts\<close>): one step per callback the hook
  returns. The selection is the JavaScript \<open>Set\<close> in insertion order. Navigation is left out. A resize
  step carries the sizes the divider handler computes (\<open>SplitPaneLayout.tsx\<close>: \<open>resizeSplitSizes\<close> of the
  node at the divider's path), for a pair of panes with room for both minima; a focus step names a panel
  of the split or none, as its callers do.
\<close>

record HookState =
  selectedConnectionIds :: "jsstring list"
  view :: "SplitView option"
  isVisible :: bool
  explorerConnectionId :: "jsstring option"

definition initial_hook :: HookState where
  "initial_hook = \<lparr>selectedConnectionIds = [], view = None, isVisible = False, explorerConnectionId = None\<rparr>"

definition toggleSelection :: "jsstring \<Rightarrow> bool \<Rightarrow> HookState \<Rightarrow> HookState" where
  "toggleSelection i isCtrlHeld st =
     (if \<not> isCtrlHeld then st\<lparr>selectedConnectionIds := []\<rparr>
      else st\<lparr>selectedConnectionIds :=
                (if i \<in> set (selectedConnectionIds st) then filter (\<lambda>j. j \<noteq> i) (selectedConnectionIds st)
                 else selectedConnectionIds st @ [i])\<rparr>)"

definition activateSplit :: "SplitMode \<Rightarrow> HookState \<Rightarrow> HookState" where
  "activateSplit m st =
     (if \<not> canActivateSplit (set (selectedConnectionIds st)) then st
      else case makeSplitView (layoutFromIds (selectedConnectionIds st) m) of
             None \<Rightarrow> st
           | Some v \<Rightarrow> st\<lparr>view := Some v, isVisible := True,
                           explorerConnectionId := Some (connectionIds v ! 0), selectedConnectionIds := []\<rparr>)"

definition deactivateSplit :: "HookState \<Rightarrow> HookState" where
  "deactivateSplit st = st\<lparr>view := None, isVisible := False, explorerConnectionId := None\<rparr>"

definition removeConnectionFromSplit :: "jsstring \<Rightarrow> HookState \<Rightarrow> HookState" where
  "removeConnectionFromSplit i st =
     (let next = (case view st of None \<Rightarrow> None | Some v \<Rightarrow> makeSplitView (removeFromLayout (layout v) i))
      in case next of
           None \<Rightarrow> deactivateSplit st
         | Some v \<Rightarrow>
             if length (connectionIds v) < 2 then deactivateSplit st
             else st\<lparr>view := Some v,
                     explorerConnectionId :=
                       (if explorerConnectionId st = Some i then Some (connectionIds v ! 0)
                        else explorerConnectionId st)\<rparr>)"

definition on_view :: "(SplitView \<Rightarrow> SplitView) \<Rightarrow> HookState \<Rightarrow> HookState" where
  "on_view f st = st\<lparr>view := map_option f (view st)\<rparr>"

definition resizeSplitNode :: "nat list \<Rightarrow> rat list \<Rightarrow> HookState \<Rightarrow> HookState" where
  "resizeSplitNode path sizes st =
     on_view (\<lambda>v. or_view (makeSplitView (Some (resizeLayoutAt (layout v) path sizes))) v) st"

inductive hook_step :: "HookState \<Rightarrow> HookState \<Rightarrow> bool" where
  toggle: "hook_step st (toggleSelection i ctrl st)"
| activate: "hook_step st (activateSplit m st)"
| deactivate: "hook_step st (deactivateSplit st)"
| remove: "hook_step st (removeConnectionFromSplit i st)"
| add: "hook_step st (on_view (\<lambda>v. addToSplit v i) st)"
| swap: "hook_step st (on_view (\<lambda>v. swapInSplit v a b) st)"
| move: "hook_step st (on_view (\<lambda>v. moveInSplit v d t edge) st)"
| resize: "view st = Some v \<Longrightarrow> getSplitNodeAt (layout v) path = Some (Split m cs sizes) \<Longrightarrow>
    i + 1 < length sizes \<Longrightarrow> 2 * MIN_SPLIT_PANE_SIZE \<le> sizes ! i + sizes ! (i + 1) \<Longrightarrow>
    hook_step st (resizeSplitNode path (resizeSplitSizes sizes (int i) delta) st)"
| visible: "hook_step st (st\<lparr>isVisible := b\<rparr>)"
| clear: "hook_step st (st\<lparr>selectedConnectionIds := []\<rparr>)"
| focus: "view st = Some v \<Longrightarrow> i \<in> set (connectionIds v) \<Longrightarrow> hook_step st (st\<lparr>explorerConnectionId := Some i\<rparr>)"
| unfocus: "hook_step st (st\<lparr>explorerConnectionId := None\<rparr>)"

inductive hook_reach :: "HookState \<Rightarrow> bool" where
  start: "hook_reach initial_hook"
| step: "hook_reach st \<Longrightarrow> hook_step st st' \<Longrightarrow> hook_reach st'"

section \<open>The invariant\<close>

definition hook_ok :: "HookState \<Rightarrow> bool" where
  "hook_ok st \<longleftrightarrow> distinct (selectedConnectionIds st)
     \<and> (case view st of
          None \<Rightarrow> explorerConnectionId st = None
        | Some v \<Rightarrow> view_ok v \<and> 2 \<le> length (connectionIds v)
            \<and> (case explorerConnectionId st of None \<Rightarrow> True | Some i \<Rightarrow> i \<in> set (connectionIds v)))"

lemma view_okD:
  "view_ok v \<Longrightarrow> wf_layout (layout v)" "view_ok v \<Longrightarrow> distinct (connectionIds v)"
  "view_ok v \<Longrightarrow> distinct (flattenLayout (layout v))" "view_ok v \<Longrightarrow> connectionIds v = flattenLayout (layout v)"
  "view_ok v \<Longrightarrow> length (connectionIds v) \<le> MAX_SPLIT_CONNECTIONS"
  by (auto simp: view_ok_def)

lemma hook_ok_view:
  assumes "hook_ok st" "\<And>v. view st = Some v \<Longrightarrow> view_ok (f v) \<and> set (connectionIds v) \<subseteq> set (connectionIds (f v))"
  shows "hook_ok (on_view f st)"
proof (cases "view st")
  case None
  with assms(1) show ?thesis by (simp add: hook_ok_def on_view_def)
next
  case (Some v)
  with assms(1) have v: "view_ok v" "2 \<le> length (connectionIds v)" by (simp_all add: hook_ok_def)
  note f = assms(2) [OF Some]
  have "card (set (connectionIds v)) \<le> card (set (connectionIds (f v)))"
    using f by (intro card_mono) auto
  then have "length (connectionIds v) \<le> length (connectionIds (f v))"
    using view_okD(2) [OF v(1)] view_okD(2) [of "f v"] f by (simp only: distinct_card)
  with f v Some assms(1) show ?thesis by (auto simp: hook_ok_def on_view_def split: option.splits)
qed

lemma addToSplit_ok:
  assumes "view_ok v"
  shows "view_ok (addToSplit v i)
    \<and> connectionIds (addToSplit v i) = connectionIds v @ (if canAddToSplit (Some v) i then [i] else [])"
proof (cases "canAddToSplit (Some v) i")
  case False
  with assms show ?thesis by (simp add: addToSplit_def)
next
  case True
  define n where "n = (case layout v of
      Split m children sizes \<Rightarrow>
        Split m (children @ [Leaf i])
          (map (\<lambda>s. s * (of_nat (length children) / of_nat (length children + 1))) sizes
             @ [100 / of_nat (length children + 1)])
    | Leaf j \<Rightarrow> Split Vertical [Leaf j, Leaf i] [50, 50])"
  have a: "addToSplit v i = or_view (makeSplitView (Some n)) v"
    using True by (simp only: addToSplit_def Let_def n_def not_True_eq_False if_False)
  have f: "flattenLayout n = connectionIds v @ [i]"
    using assms by (cases "layout v") (auto simp: n_def view_ok_def)
  have "wf_layout n"
  proof (cases "layout v")
    case (Split m cs ss)
    with assms have w: "2 \<le> length cs" "length ss = length cs" "list_all (\<lambda>s. 0 < s) ss" "sum_list ss = 100"
      "list_all wf_layout cs" by (simp_all add: view_ok_def)
    define c :: rat where "c = of_nat (length cs) / of_nat (length cs + 1)"
    have "sum_list (map (\<lambda>s. s * c) ss) = 100 * c"
      using w(4) sum_list_mult_const [of "\<lambda>s. s" c ss] by simp
    moreover have "100 * c + 100 / of_nat (length cs + 1) = 100"
      by (simp add: c_def field_simps add_divide_distrib [symmetric])
    ultimately have "sum_list (map (\<lambda>s. s * c) ss) + 100 / of_nat (length cs + 1) = 100" by simp
    moreover have "0 < length cs" using w(1) by linarith
    then have "0 < c" unfolding c_def by (intro divide_pos_pos) simp_all
    then have "list_all (\<lambda>s. 0 < s) (map (\<lambda>s. s * c) ss)" using w(3) by (auto simp: list_all_iff)
    moreover have "n = Split m (cs @ [Leaf i]) (map (\<lambda>s. s * c) ss @ [100 / of_nat (length cs + 1)])"
      using Split by (simp add: n_def c_def)
    ultimately show ?thesis using w by simp
  qed (simp add: n_def)
  then have "view_ok (or_view (makeSplitView (Some n)) v)"
    by (rule or_view_ok [OF assms]) (use f True assms in \<open>auto simp: canAddToSplit_def view_ok_def\<close>)
  then show ?thesis using or_view_ids [of n v] f True by (simp add: a)
qed

lemma swapInSplit_ok:
  assumes "view_ok v"
  shows "view_ok (swapInSplit v a b) \<and> set (connectionIds (swapInSplit v a b)) = set (connectionIds v)"
proof (cases "a \<noteq> b \<and> a \<in> set (connectionIds v) \<and> b \<in> set (connectionIds v)")
  case False
  with assms show ?thesis by (auto simp: swapInSplit_def)
next
  case True
  let ?f = "\<lambda>i. if i = a then b else if i = b then a else i"
  let ?n = "swap_node a b (layout v)"
  have f: "flattenLayout ?n = map ?f (connectionIds v)"
    using assms by (simp add: flatten_swap_node view_ok_def)
  have "inj_on ?f (set (connectionIds v))" by (auto simp: inj_on_def split: if_splits)
  then have d: "distinct (flattenLayout ?n)" unfolding f using view_okD(2) [OF assms] by (simp add: distinct_map)
  have "?f ` set (connectionIds v) = set (connectionIds v)"
  proof
    show "?f ` set (connectionIds v) \<subseteq> set (connectionIds v)" using True by (simp add: image_subset_iff) blast
    show "set (connectionIds v) \<subseteq> ?f ` set (connectionIds v)"
    proof
      fix i assume "i \<in> set (connectionIds v)"
      then have "?f i \<in> set (connectionIds v)" using True by simp
      moreover have "i = ?f (?f i)" by simp
      ultimately show "i \<in> ?f ` set (connectionIds v)" by (rule image_eqI [rotated])
    qed
  qed
  then have s: "set (flattenLayout ?n) = set (connectionIds v)" unfolding f set_map .
  have "view_ok (or_view (makeSplitView (Some ?n)) v)"
    by (rule or_view_ok [OF assms _ d])
      (use f view_okD(5) [OF assms] wf_swap_node [OF view_okD(1) [OF assms]] in simp_all)
  moreover have "flattenLayout ?n \<noteq> []" unfolding f using True by auto
  moreover have "swapInSplit v a b = or_view (makeSplitView (Some ?n)) v" using True by (simp add: swapInSplit_def)
  ultimately show ?thesis using s by (simp only: or_view_ids simp_thms)
qed

lemma wf_resizeLayoutAt:
  "wf_layout n \<Longrightarrow> getSplitNodeAt n path = Some (Split m cs old) \<Longrightarrow> length sizes = length old \<Longrightarrow>
   list_all (\<lambda>s. 0 < s) sizes \<Longrightarrow> sum_list sizes = 100 \<Longrightarrow> wf_layout (resizeLayoutAt n path sizes)"
proof (induction n path sizes rule: resizeLayoutAt.induct)
  case (3 m' children old' h rest sizes)
  have "wf_layout (if i = h then resizeLayoutAt c rest sizes else c)"
    if "(i, c) \<in> set (enumerate 0 children)" for i c
  proof -
    from that have c: "i < length children" "c = children ! i" by (auto simp: in_set_enumerate_eq)
    with "3.prems"(1) have "wf_layout c" by (auto simp: list_all_length)
    with c "3.IH" [OF that refl] "3.prems" show ?thesis by auto
  qed
  with "3.prems" show ?case by (auto simp: list_all_iff)
qed simp_all

lemma resizeSplitSizes_wf:
  assumes "i + 1 < length sizes" "2 * MIN_SPLIT_PANE_SIZE \<le> sizes ! i + sizes ! (i + 1)"
    and "list_all (\<lambda>s. 0 < s) sizes"
  shows "length (resizeSplitSizes sizes (int i) d) = length sizes
    \<and> list_all (\<lambda>s. 0 < s) (resizeSplitSizes sizes (int i) d)
    \<and> sum_list (resizeSplitSizes sizes (int i) d) = sum_list sizes"
proof -
  obtain as x y bs where s: "sizes = as @ x # y # bs" "length as = i"
  proof -
    have "sizes = take i sizes @ sizes ! i # sizes ! Suc i # drop (Suc (Suc i)) sizes"
      using assms(1) by (simp add: Cons_nth_drop_Suc)
    with that [of "take i sizes"] assms(1) show ?thesis by simp
  qed
  define c where "c = max (MIN_SPLIT_PANE_SIZE - x) (min d (y - MIN_SPLIT_PANE_SIZE))"
  have r: "resizeSplitSizes sizes (int i) d = (if c = 0 then sizes else as @ (x + c) # (y - c) # bs)"
    using s assms(1) by (simp add: resizeSplitSizes_def Let_def c_def nth_append list_update_append)
  have "MIN_SPLIT_PANE_SIZE \<le> x + c" "MIN_SPLIT_PANE_SIZE \<le> y - c"
    using assms(2) s by (auto simp: c_def nth_append max_def min_def)
  then have "0 < x + c" "0 < y - c" by (simp_all add: MIN_SPLIT_PANE_SIZE_def)
  moreover have "sum_list (as @ (x + c) # (y - c) # bs) = sum_list sizes" by (simp add: s)
  moreover have "length (as @ (x + c) # (y - c) # bs) = length sizes" by (simp add: s)
  moreover have "list_all (\<lambda>s. 0 < s) as" "list_all (\<lambda>s. 0 < s) bs" using assms(3) by (simp_all add: s(1))
  ultimately show ?thesis using assms(3) unfolding r by (cases "c = 0") (simp_all only: if_True if_False list_all_append list.pred_inject simp_thms)
qed

lemma wf_getSplitNodeAt: "wf_layout n \<Longrightarrow> getSplitNodeAt n path = Some n' \<Longrightarrow> wf_layout n'"
  by (induction n path rule: getSplitNodeAt.induct) (auto simp: list_all_length split: if_splits)

lemma hook_ok_resize:
  assumes ok: "hook_ok st" and v: "view st = Some v" and g: "getSplitNodeAt (layout v) path = Some (Split m cs sizes)"
    and i: "i + 1 < length sizes" "2 * MIN_SPLIT_PANE_SIZE \<le> sizes ! i + sizes ! (i + 1)"
  shows "hook_ok (resizeSplitNode path (resizeSplitSizes sizes (int i) delta) st)"
  unfolding resizeSplitNode_def
proof (rule hook_ok_view [OF ok])
  fix w assume "view st = Some w"
  with v have w: "w = v" by simp
  from ok v have vo: "view_ok v" by (simp add: hook_ok_def)
  let ?n = "resizeLayoutAt (layout w) path (resizeSplitSizes sizes (int i) delta)"
  have s: "list_all (\<lambda>s. 0 < s) sizes" "sum_list sizes = 100"
    using wf_getSplitNodeAt [OF _ g] vo by (auto simp: view_ok_def)
  have "wf_layout ?n"
    unfolding w by (rule wf_resizeLayoutAt [OF _ g]) (use vo s resizeSplitSizes_wf [OF i s(1)] in \<open>auto simp: view_ok_def\<close>)
  moreover have f: "flattenLayout ?n = connectionIds w"
    using vo w by (simp add: flatten_resizeLayoutAt view_ok_def)
  ultimately show "view_ok (or_view (makeSplitView (Some ?n)) w)
      \<and> set (connectionIds w) \<subseteq> set (connectionIds (or_view (makeSplitView (Some ?n)) w))"
    using or_view_ok [of w ?n] or_view_ids [of ?n w] vo w by (auto simp: view_ok_def)
qed

lemma hook_ok_remove:
  assumes ok: "hook_ok st"
  shows "hook_ok (removeConnectionFromSplit i st)"
proof (cases "view st")
  case None
  with ok show ?thesis by (simp add: removeConnectionFromSplit_def deactivateSplit_def hook_ok_def)
next
  case vs: (Some v)
  with ok have v: "view_ok v" by (simp add: hook_ok_def)
  show ?thesis
  proof (cases "makeSplitView (removeFromLayout (layout v) i)")
    case None
    with vs ok show ?thesis by (simp add: removeConnectionFromSplit_def deactivateSplit_def hook_ok_def)
  next
    case (Some w)
    then obtain n where n: "removeFromLayout (layout v) i = Some n" "makeSplitView (Some n) = Some w"
      by (cases "removeFromLayout (layout v) i") (auto simp: makeSplitView_def)
    have f: "flattenLayout n = filter (\<lambda>j. j \<noteq> i) (connectionIds v)"
      using flatten_removeFromLayout [of "layout v" i] n(1) v by (simp add: flatten_opt_def view_ok_def)
    have "length (flattenLayout n) \<le> MAX_SPLIT_CONNECTIONS"
      unfolding f using v by (meson length_filter_le order_trans view_ok_def)
    moreover have "distinct (flattenLayout n)" unfolding f using v by (auto simp: view_ok_def)
    moreover have "wf_layout n" by (rule wf_removeFromLayout [OF view_okD(1) [OF v] n(1)])
    ultimately have w: "view_ok w" by (intro makeSplitView_ok [OF n(2)])
    have ids: "connectionIds w = filter (\<lambda>j. j \<noteq> i) (connectionIds v)"
      using n(2) f by (auto simp: makeSplitView_def Let_def split: if_splits)
    let ?e = "if explorerConnectionId st = Some i then Some (connectionIds w ! 0) else explorerConnectionId st"
    have r: "removeConnectionFromSplit i st = (if length (connectionIds w) < 2 then deactivateSplit st
        else st\<lparr>view := Some w, explorerConnectionId := ?e\<rparr>)"
      by (simp add: removeConnectionFromSplit_def vs Some)
    have e: "case ?e of None \<Rightarrow> True | Some j \<Rightarrow> j \<in> set (connectionIds w)" if "2 \<le> length (connectionIds w)"
    proof (cases "explorerConnectionId st = Some i")
      case True
      have "connectionIds w ! 0 \<in> set (connectionIds w)" using that by (intro nth_mem) linarith
      with True show ?thesis by simp
    next
      case False
      with ok vs show ?thesis by (auto simp: hook_ok_def ids split: option.splits)
    qed
    show ?thesis
    proof (cases "length (connectionIds w) < 2")
      case True
      with r ok show ?thesis by (simp add: deactivateSplit_def hook_ok_def)
    next
      case False
      with r e ok w show ?thesis by (simp add: hook_ok_def)
    qed
  qed
qed

lemma hook_ok_activate:
  assumes ok: "hook_ok st"
  shows "hook_ok (activateSplit m st)"
proof (cases "canActivateSplit (set (selectedConnectionIds st))")
  case True
  let ?ids = "selectedConnectionIds st"
  have l: "2 \<le> length ?ids" "length ?ids \<le> MAX_SPLIT_CONNECTIONS" "distinct ?ids"
    using True ok by (simp_all add: canActivateSplit_def distinct_card hook_ok_def)
  then have "?ids \<noteq> []" by force
  then obtain n where n: "layoutFromIds ?ids m = Some n"
    unfolding layoutFromIds_def by (cases "length ?ids = 1") simp_all
  note w = layoutFromIds_ok [OF n]
  then obtain v where v: "makeSplitView (Some n) = Some v" "connectionIds v = ?ids"
    using \<open>?ids \<noteq> []\<close> by (simp add: makeSplitView_def Let_def)
  have "view_ok v" by (rule makeSplitView_ok [OF v(1)]) (use w l in auto)
  moreover have "?ids ! 0 \<in> set ?ids" using \<open>?ids \<noteq> []\<close> by simp
  ultimately show ?thesis using True n v l by (simp add: activateSplit_def hook_ok_def)
qed (use ok in \<open>simp add: activateSplit_def\<close>)

lemma moveInSplit_ok:
  assumes v: "view_ok v"
  shows "view_ok (moveInSplit v d t edge) \<and> set (connectionIds (moveInSplit v d t edge)) = set (connectionIds v)"
proof (cases "d \<noteq> t \<and> d \<in> set (connectionIds v) \<and> t \<in> set (connectionIds v)")
  case True
  then have c: "d \<noteq> t" "d \<in> set (connectionIds v)" "t \<in> set (connectionIds v)" by simp_all
  obtain n where n: "removeFromLayout (layout v) d = Some n"
    using remove_other_Some [OF v c(1,3)] by blast
  define k where "k = insertIntoLayout n t d edge"
  have w: "wf_layout k" and dk: "distinct (flattenLayout k)" and m: "mset (flattenLayout k) = mset (connectionIds v)"
    unfolding k_def using remove_then_insert [OF v c n, of edge] by blast+
  have e: "moveInSplit v d t edge = or_view (makeSplitView (Some k)) v"
    using c n by (simp add: moveInSplit_def k_def)
  have l: "length (flattenLayout k) = length (connectionIds v)" using m by (rule mset_eq_length)
  then have ne: "flattenLayout k \<noteq> []" using c(2) by auto
  have "view_ok (or_view (makeSplitView (Some k)) v)"
    by (rule or_view_ok [OF v w dk]) (use l view_okD(5) [OF v] in simp)
  then show ?thesis by (simp only: e or_view_ids [OF ne] mset_eq_setD [OF m] simp_thms)
qed (use v in \<open>auto simp: moveInSplit_def\<close>)

lemma hook_ok_step: "hook_step st st' \<Longrightarrow> hook_ok st \<Longrightarrow> hook_ok st'"
proof (induction rule: hook_step.induct)
  case (toggle st i ctrl)
  then show ?case by (auto simp: toggleSelection_def hook_ok_def split: option.splits)
next
  case (add st i)
  show ?case by (rule hook_ok_view [OF add]) (use add addToSplit_ok in \<open>auto simp: hook_ok_def\<close>)
next
  case (swap st a b)
  show ?case by (rule hook_ok_view [OF swap]) (use swap swapInSplit_ok in \<open>auto simp: hook_ok_def\<close>)
next
  case (move st d t edge)
  show ?case
    by (rule hook_ok_view [OF move]) (use move moveInSplit_ok in \<open>force simp: hook_ok_def\<close>)
next
  case (resize st v path m cs sizes i delta)
  then show ?case by (intro hook_ok_resize)
qed (auto simp: hook_ok_remove hook_ok_activate, auto simp: hook_ok_def deactivateSplit_def split: option.splits)



end
