(* ===== verification/GridCells.thy ===== *)
theory GridCells
  imports JsValue Complex_Main
begin

text \<open>
  Cell positions and ranges of the data grid (the navigation part of \<open>utils/dataGrid.ts\<close>) and the hidden
  columns view over a result (\<open>utils/hiddenColumns.ts\<close>). Row and column numbers are integers; a
  JavaScript \<open>Set\<close> of them is a finite set, since nothing here depends on its order. Measured widths are
  rationals, \<open>None\<close> standing for the \<open>NaN\<close> of a column that has no width yet.
\<close>

section \<open>Positions and ranges\<close>

record CellPosition =
  rowIndex :: int
  colIndex :: int

record CellRangeRect =
  minRow :: int
  maxRow :: int
  minCol :: int
  maxCol :: int

datatype RangeExtendKey = ArrowUp | ArrowDown | ArrowLeft | ArrowRight

definition getRangeCursor :: "CellPosition \<Rightarrow> CellRangeRect option \<Rightarrow> CellPosition" where
  "getRangeCursor anchor rng =
     (case rng of
        None \<Rightarrow> anchor
      | Some r \<Rightarrow>
          \<lparr>rowIndex = (if rowIndex anchor = minRow r then maxRow r else minRow r),
           colIndex = (if colIndex anchor = minCol r then maxCol r else minCol r)\<rparr>)"

definition buildCellRange :: "CellPosition \<Rightarrow> CellPosition \<Rightarrow> CellRangeRect" where
  "buildCellRange a b =
     \<lparr>minRow = min (rowIndex a) (rowIndex b), maxRow = max (rowIndex a) (rowIndex b),
      minCol = min (colIndex a) (colIndex b), maxCol = max (colIndex a) (colIndex b)\<rparr>"

fun moveCellPosition :: "CellPosition \<Rightarrow> RangeExtendKey \<Rightarrow> int \<Rightarrow> int \<Rightarrow> bool \<Rightarrow> CellPosition" where
  "moveCellPosition pos ArrowUp totalRows totalCols toEdge =
     pos\<lparr>rowIndex := (if toEdge then 0 else max 0 (rowIndex pos - 1))\<rparr>"
| "moveCellPosition pos ArrowDown totalRows totalCols toEdge =
     pos\<lparr>rowIndex := (if toEdge then totalRows - 1 else min (totalRows - 1) (rowIndex pos + 1))\<rparr>"
| "moveCellPosition pos ArrowLeft totalRows totalCols toEdge =
     pos\<lparr>colIndex := (if toEdge then 0 else max 0 (colIndex pos - 1))\<rparr>"
| "moveCellPosition pos ArrowRight totalRows totalCols toEdge =
     pos\<lparr>colIndex := (if toEdge then totalCols - 1 else min (totalCols - 1) (colIndex pos + 1))\<rparr>"

definition extendCellRange ::
  "CellPosition \<Rightarrow> CellRangeRect option \<Rightarrow> RangeExtendKey \<Rightarrow> int \<Rightarrow> int \<Rightarrow> bool
   \<Rightarrow> (CellRangeRect \<times> CellPosition) option" where
  "extendCellRange anchor rng key totalRows totalCols toEdge =
     (let cursor = getRangeCursor anchor rng;
          next = moveCellPosition cursor key totalRows totalCols toEdge
      in if rowIndex next = rowIndex cursor \<and> colIndex next = colIndex cursor then None
         else Some (buildCellRange anchor next, next))"

fun TRANSPOSED_ARROW_KEYS :: "RangeExtendKey \<Rightarrow> RangeExtendKey" where
  "TRANSPOSED_ARROW_KEYS ArrowUp = ArrowLeft"
| "TRANSPOSED_ARROW_KEYS ArrowDown = ArrowRight"
| "TRANSPOSED_ARROW_KEYS ArrowLeft = ArrowUp"
| "TRANSPOSED_ARROW_KEYS ArrowRight = ArrowDown"

definition toLogicalArrowKey :: "RangeExtendKey \<Rightarrow> bool \<Rightarrow> RangeExtendKey" where
  "toLogicalArrowKey key transposed = (if transposed then TRANSPOSED_ARROW_KEYS key else key)"

text \<open>A key name is the string of the keyboard event; \<open>arrow_key\<close> recognises the four arrows.\<close>

definition arrow_key :: "jsstring \<Rightarrow> RangeExtendKey option" where
  "arrow_key key =
     (if key = ''ArrowUp'' then Some ArrowUp else if key = ''ArrowDown'' then Some ArrowDown
      else if key = ''ArrowLeft'' then Some ArrowLeft else if key = ''ArrowRight'' then Some ArrowRight
      else None)"

definition navigateCell ::
  "jsstring \<Rightarrow> CellPosition \<Rightarrow> int \<Rightarrow> int \<Rightarrow> int \<Rightarrow> bool \<Rightarrow> CellPosition option" where
  "navigateCell key pos totalRows totalCols pageStep transposed =
     (case arrow_key key of
        Some k \<Rightarrow> Some (moveCellPosition pos (toLogicalArrowKey k transposed) totalRows totalCols False)
      | None \<Rightarrow>
          (if key = ''Home'' \<or> key = ''End'' then
             Some (moveCellPosition pos
               (toLogicalArrowKey (if key = ''Home'' then ArrowLeft else ArrowRight) transposed)
               totalRows totalCols True)
           else if key = ''PageUp'' \<or> key = ''PageDown'' then
             (let delta = (if key = ''PageUp'' then - pageStep else pageStep)
              in if transposed
                 then Some (pos\<lparr>colIndex := min (totalCols - 1) (max 0 (colIndex pos + delta))\<rparr>)
                 else Some (pos\<lparr>rowIndex := min (totalRows - 1) (max 0 (rowIndex pos + delta))\<rparr>))
           else None))"

section \<open>Hidden columns\<close>

record HiddenColumnsState =
  columnSetKey :: jsstring
  indices :: "int list"

definition getColumnSetKey :: "jsstring list \<Rightarrow> jsstring" where
  "getColumnSetKey columns = (case stringify (JArr (map JStr columns)) of Some t \<Rightarrow> t | None \<Rightarrow> [])"

definition toHiddenColumnsState :: "jsstring list \<Rightarrow> int set \<Rightarrow> HiddenColumnsState" where
  "toHiddenColumnsState columns hidden =
     \<lparr>columnSetKey = getColumnSetKey columns, indices = sorted_list_of_set hidden\<rparr>"

definition resolveHiddenColumns :: "HiddenColumnsState option \<Rightarrow> jsstring list \<Rightarrow> int set" where
  "resolveHiddenColumns state columns =
     (case state of
        None \<Rightarrow> {}
      | Some s \<Rightarrow>
          (if length (indices s) = 0 then {}
           else if columnSetKey s \<noteq> getColumnSetKey columns then {}
           else
             (let hidden = set (filter (\<lambda>i. i \<ge> 0 \<and> i < int (length columns)) (indices s))
              in if card hidden = 0 \<or> card hidden \<ge> length columns then {} else hidden)))"

definition getVisibleColumnIndices :: "nat \<Rightarrow> int set \<Rightarrow> int list" where
  "getVisibleColumnIndices columnCount hidden = filter (\<lambda>i. i \<notin> hidden) (map int [0..<columnCount])"

definition add_in_range :: "nat \<Rightarrow> int set \<Rightarrow> int list \<Rightarrow> int set" where
  "add_in_range columnCount hidden list = hidden \<union> set (filter (\<lambda>i. i \<ge> 0 \<and> i < int columnCount) list)"

definition canHideColumns :: "nat \<Rightarrow> int set \<Rightarrow> int list \<Rightarrow> bool" where
  "canHideColumns columnCount hidden list =
     (let next = add_in_range columnCount hidden list in card next > card hidden \<and> card next < columnCount)"

definition hideColumns :: "nat \<Rightarrow> int set \<Rightarrow> int list \<Rightarrow> int set" where
  "hideColumns columnCount hidden list =
     (if \<not> canHideColumns columnCount hidden list then hidden else add_in_range columnCount hidden list)"

definition showColumns :: "int set \<Rightarrow> int list \<Rightarrow> int set" where
  "showColumns hidden list = hidden - set list"

text \<open>\<open>columns[i]\<close> of a hidden index is \<open>undefined\<close> out of range, and no key column is \<open>undefined\<close>.\<close>

definition withoutKeyColumns :: "int set \<Rightarrow> jsstring list \<Rightarrow> jsstring list option \<Rightarrow> int set" where
  "withoutKeyColumns hidden columns pkColumns =
     (case pkColumns of
        None \<Rightarrow> hidden
      | Some pks \<Rightarrow>
          (if card hidden = 0 \<or> length pks = 0 then hidden
           else {i \<in> hidden. \<not> (0 \<le> i \<and> i < int (length columns) \<and> columns ! nat i \<in> set pks)}))"

definition withoutHiddenColumns :: "int set \<Rightarrow> int set \<Rightarrow> int set" where
  "withoutHiddenColumns list hidden = list - hidden"

text \<open>\<open>projectColumns\<close> of \<open>utils/clipboard.ts\<close>; a cell past the end of its row is \<open>undefined\<close>, here \<open>None\<close>.\<close>

definition cell_at :: "'a list \<Rightarrow> int \<Rightarrow> 'a option" where
  "cell_at row i = (if 0 \<le> i \<and> i < int (length row) then Some (row ! nat i) else None)"

definition projectColumns :: "'a list list \<Rightarrow> jsstring list \<Rightarrow> int set \<Rightarrow> 'a option list list \<times> jsstring option list" where
  "projectColumns rows columns colIndices =
     (let idx = sorted_list_of_set colIndices
      in (map (\<lambda>row. map (cell_at row) idx) rows, map (cell_at columns) idx))"

definition projectVisibleColumns ::
  "'a list list \<Rightarrow> jsstring list \<Rightarrow> int set \<Rightarrow> 'a option list list \<times> jsstring option list" where
  "projectVisibleColumns rows columns hidden =
     (if card hidden = 0 then (map (map Some) rows, map Some columns)
      else projectColumns rows columns (set (getVisibleColumnIndices (length columns) hidden)))"

fun find_pos :: "('a \<Rightarrow> bool) \<Rightarrow> 'a list \<Rightarrow> nat option" where
  "find_pos P [] = None"
| "find_pos P (x # xs) = (if P x then Some 0 else map_option Suc (find_pos P xs))"

lemma find_pos_Some: "find_pos P xs = Some i \<Longrightarrow> i < length xs \<and> P (xs ! i)"
  by (induction xs arbitrary: i) (auto split: if_splits)

lemma find_pos_None: "find_pos P xs = None \<longleftrightarrow> list_all (\<lambda>x. \<not> P x) xs"
  by (induction xs) auto

definition toViewColumn :: "int \<Rightarrow> int list \<Rightarrow> int" where
  "toViewColumn col visible =
     (if visible = [] then 0
      else case find_pos (\<lambda>i. i = col) visible of
             Some exact \<Rightarrow> int exact
           | None \<Rightarrow>
               (case find_pos (\<lambda>i. i > col) visible of Some next \<Rightarrow> int next | None \<Rightarrow> int (length visible) - 1))"

definition visible_or :: "int list \<Rightarrow> int \<Rightarrow> int \<Rightarrow> int" where
  "visible_or visible i dflt = (case cell_at visible i of Some c \<Rightarrow> c | None \<Rightarrow> dflt)"

definition nearestVisibleColumn :: "int \<Rightarrow> int list \<Rightarrow> int" where
  "nearestVisibleColumn col visible = visible_or visible (toViewColumn col visible) col"

definition toViewCell :: "CellPosition \<Rightarrow> int list \<Rightarrow> CellPosition" where
  "toViewCell cell visible = \<lparr>rowIndex = rowIndex cell, colIndex = toViewColumn (colIndex cell) visible\<rparr>"

definition fromViewCell :: "CellPosition \<Rightarrow> int list \<Rightarrow> CellPosition" where
  "fromViewCell cell visible =
     \<lparr>rowIndex = rowIndex cell, colIndex = visible_or visible (colIndex cell) (colIndex cell)\<rparr>"

definition moveVisibleCellPosition ::
  "CellPosition \<Rightarrow> RangeExtendKey \<Rightarrow> int \<Rightarrow> int list \<Rightarrow> bool \<Rightarrow> CellPosition" where
  "moveVisibleCellPosition pos key totalRows visible toEdge =
     (if visible = [] then pos
      else fromViewCell
        (moveCellPosition (toViewCell pos visible) key totalRows (int (length visible)) toEdge) visible)"

definition navigateVisibleCell ::
  "jsstring \<Rightarrow> CellPosition \<Rightarrow> int \<Rightarrow> int list \<Rightarrow> int \<Rightarrow> bool \<Rightarrow> CellPosition option" where
  "navigateVisibleCell key pos totalRows visible pageStep transposed =
     (if visible = [] then None
      else map_option (\<lambda>next. fromViewCell next visible)
        (navigateCell key (toViewCell pos visible) totalRows (int (length visible)) pageStep transposed))"

text \<open>The range's edges are read with \<open>visible[i]\<close> alone; \<open>visible_or\<close> agrees with it wherever the index
  is one of the list's.\<close>

definition extendVisibleCellRange ::
  "CellPosition \<Rightarrow> CellRangeRect option \<Rightarrow> RangeExtendKey \<Rightarrow> int \<Rightarrow> int list \<Rightarrow> bool
   \<Rightarrow> (CellRangeRect \<times> CellPosition) option" where
  "extendVisibleCellRange anchor rng key totalRows visible toEdge =
     (if visible = [] then None
      else
        (let viewRange = map_option (\<lambda>r. r\<lparr>minCol := toViewColumn (minCol r) visible,
                                           maxCol := toViewColumn (maxCol r) visible\<rparr>) rng
         in map_option (\<lambda>(r, c). (r\<lparr>minCol := visible_or visible (minCol r) (minCol r),
                                   maxCol := visible_or visible (maxCol r) (maxCol r)\<rparr>, fromViewCell c visible))
              (extendCellRange (toViewCell anchor visible) viewRange key totalRows (int (length visible)) toEdge)))"

function skip_right :: "int set \<Rightarrow> int \<Rightarrow> int \<Rightarrow> int" where
  "skip_right hidden lo hi = (if lo \<le> hi \<and> lo \<in> hidden then skip_right hidden (lo + 1) hi else lo)"
  by pat_completeness auto
termination
  by (relation "measure (\<lambda>(h, lo, hi). nat (hi + 1 - lo))") auto

function skip_left :: "int set \<Rightarrow> int \<Rightarrow> int \<Rightarrow> int" where
  "skip_left hidden lo hi = (if hi \<ge> lo \<and> hi \<in> hidden then skip_left hidden lo (hi - 1) else hi)"
  by pat_completeness auto
termination
  by (relation "measure (\<lambda>(h, lo, hi). nat (hi + 1 - lo))") auto

declare skip_right.simps [simp del] skip_left.simps [simp del]

definition clampRangeToVisible :: "CellRangeRect option \<Rightarrow> int set \<Rightarrow> CellRangeRect option" where
  "clampRangeToVisible rng hidden =
     (case rng of
        None \<Rightarrow> None
      | Some r \<Rightarrow>
          (if card hidden = 0 then Some r
           else
             (let lo = skip_right hidden (minCol r) (maxCol r); hi = skip_left hidden lo (maxCol r)
              in if lo > hi then None else Some (r\<lparr>minCol := lo, maxCol := hi\<rparr>))))"

definition visibleColumnsInRange :: "int \<Rightarrow> int \<Rightarrow> int set \<Rightarrow> int list" where
  "visibleColumnsInRange lo hi hidden = filter (\<lambda>c. c \<notin> hidden) [lo..hi]"

section \<open>Column widths\<close>

record LockedColumnWidths =
  lock_key :: jsstring
  widths :: "rat option list"
  resized :: bool

definition pickRenderedColumnWidths :: "rat option list option \<Rightarrow> nat list \<Rightarrow> rat option list option" where
  "pickRenderedColumnWidths ws widthIndices =
     (case ws of
        None \<Rightarrow> None
      | Some w \<Rightarrow>
          (let picked = map (\<lambda>i. if i < length w then w ! i else None) widthIndices
           in if list_ex (\<lambda>x. x = None) picked then None
              else Some (if length picked = length w then w else picked)))"

text \<open>One turn of the loop over the measured columns.\<close>

definition merge_width :: "bool \<Rightarrow> nat \<Rightarrow> rat list \<Rightarrow> rat option list \<Rightarrow> nat \<times> int \<Rightarrow> rat option list" where
  "merge_width keep columnCount measured ws = (\<lambda>(position, index).
     if keep \<and> Option.bind (cell_at ws index) id \<noteq> None then ws
     else if position < length measured \<and> index \<ge> 0 \<and> index < int columnCount
       then ws[nat index := Some (measured ! position)]
       else ws)"

definition mergeMeasuredColumnWidths ::
  "LockedColumnWidths option \<Rightarrow> jsstring \<Rightarrow> nat \<Rightarrow> int list \<Rightarrow> rat list \<Rightarrow> LockedColumnWidths" where
  "mergeMeasuredColumnWidths previous key columnCount widthIndices measured =
     (let keep = (case previous of None \<Rightarrow> False
                  | Some p \<Rightarrow> lock_key p = key \<and> length (widths p) = columnCount);
          start = (if keep then widths (the previous) else replicate columnCount None);
          ws = foldl (merge_width keep columnCount measured) start (enumerate 0 widthIndices)
      in \<lparr>lock_key = key, widths = ws, resized = (keep \<and> resized (the previous))\<rparr>)"

definition filterColumnsByName :: "jsstring list \<Rightarrow> jsstring \<Rightarrow> (jsstring \<times> nat) list" where
  "filterColumnsByName columns query =
     (let needle = lower (trim query); everything = map (\<lambda>(i, n). (n, i)) (enumerate 0 columns)
      in if needle = [] then everything
         else filter (\<lambda>(n, i). sublist needle (lower n)) everything)"

end
