(* ===== verification/GridCellFacts.thy ===== *)
theory GridCellFacts
  imports GridCells
begin

text \<open>
  Correctness of the grid's cell navigation and of hidden columns: what is stored is what is read back,
  no key moves the focus or a range edge onto a hidden column, and the last visible column stays.
\<close>

section \<open>The key of a column list\<close>

lemma json_strs_inj:
  "comma_join (map json_str xs) @ '']'' = comma_join (map json_str ys) @ '']'' \<Longrightarrow> xs = ys"
proof (induction xs arbitrary: ys rule: induct_list012)
  case 1
  then show ?case by (cases ys rule: remdups_adj.cases) (auto simp: json_str_def)
next
  case (2 x)
  then show ?case
  proof (cases ys rule: remdups_adj.cases)
    case 1
    with 2 show ?thesis by (simp add: json_str_def)
  next
    case (2 y)
    with "2.prems" json_str_inj [of x "'']''" y "'']''"] show ?thesis by simp
  next
    case (3 y z zs)
    with "2.prems" json_str_inj [of x "'']''" y "'','' @ comma_join (map json_str (z # zs)) @ '']''"]
    show ?thesis by simp
  qed
next
  case (3 x x' xs)
  show ?case
  proof (cases ys rule: remdups_adj.cases)
    case 1
    with "3.prems" show ?thesis by (simp add: json_str_def)
  next
    case (2 y)
    with "3.prems" json_str_inj [of x "'','' @ comma_join (map json_str (x' # xs)) @ '']''" y "'']''"]
    show ?thesis by simp
  next
    case (3 y y' zs)
    with "3.prems" json_str_inj [of x "'','' @ comma_join (map json_str (x' # xs)) @ '']''" y
        "'','' @ comma_join (map json_str (y' # zs)) @ '']''"] "3.IH"(2) [of "y' # zs"]
    show ?thesis by simp
  qed
qed

lemma stringify_strs: "stringify_list (map JStr xs) = map json_str xs"
  by (induction xs) simp_all

lemma getColumnSetKey_inj [simp]: "getColumnSetKey xs = getColumnSetKey ys \<longleftrightarrow> xs = ys"
  by (auto simp: getColumnSetKey_def stringify_strs intro: json_strs_inj)

section \<open>Hiding and showing\<close>

definition columns_of :: "nat \<Rightarrow> int set" where
  "columns_of n = {0..<int n}"

lemma columns_of_facts [simp]: "finite (columns_of n)" "card (columns_of n) = n"
  by (simp_all add: columns_of_def)

lemma visible_set: "set (getVisibleColumnIndices n hidden) = columns_of n - hidden"
proof -
  have "set (map int [0..<n]) = {0..<int n}" by (simp add: image_int_atLeastLessThan)
  then show ?thesis unfolding getVisibleColumnIndices_def columns_of_def by (simp add: set_diff_eq)
qed

lemma sorted_visible: "sorted_wrt (<) (getVisibleColumnIndices n hidden)"
  by (simp add: getVisibleColumnIndices_def sorted_wrt_filter sorted_wrt_map)

text \<open>Property (hidden_columns_roundtrip): a stored set of hidden columns that leaves one visible is read back as it was
  for the same column list, and hides nothing for any other list.\<close>

theorem hidden_columns_roundtrip:
  assumes "hidden \<subset> columns_of (length columns)"
  shows "resolveHiddenColumns (Some (toHiddenColumnsState columns hidden)) columns'
    = (if columns' = columns then hidden else {})"
proof -
  have f: "finite hidden" using assms by (meson columns_of_facts(1) finite_subset psubsetE)
  have c: "card hidden < length columns"
    using psubset_card_mono [OF columns_of_facts(1) assms] by simp
  have h: "set (filter (\<lambda>i. 0 \<le> i \<and> i < int (length columns)) (sorted_list_of_set hidden)) = hidden"
    using assms f by (auto simp: columns_of_def)
  show ?thesis
  proof (cases "hidden = {}")
    case False
    with f c h show ?thesis
      by (auto simp: resolveHiddenColumns_def toHiddenColumnsState_def Let_def)
  qed (simp add: resolveHiddenColumns_def toHiddenColumnsState_def)
qed

lemma hidden_columns_roundtrip_witness:
  "resolveHiddenColumns (Some (toHiddenColumnsState [''a'', ''b'', ''c''] {1})) [''a'', ''b'', ''c''] = {1}"
proof -
  have c: "columns_of (length [''a'', ''b'', ''c'']) = {0, 1, 2}" unfolding columns_of_def by code_simp
  have "2 \<in> columns_of (length [''a'', ''b'', ''c''])" "{1} \<subseteq> columns_of (length [''a'', ''b'', ''c''])" "2 \<notin> {1::int}"
    unfolding c by simp_all
  then have "{1} \<subset> columns_of (length [''a'', ''b'', ''c''])" by blast
  then show ?thesis by (subst hidden_columns_roundtrip) simp_all
qed

lemma add_in_range_alt: "add_in_range n hidden l = hidden \<union> (set l \<inter> columns_of n)"
  by (auto simp: add_in_range_def columns_of_def)

text \<open>Property (hiding_keeps_a_column): hiding columns adds exactly the asked ones of the result, unless that hides
  nothing new or leaves no column visible, and then it changes nothing; some column stays visible, and
  showing the same columns again gives back what was visible before, apart from them.\<close>

theorem hiding_keeps_a_column:
  assumes "hidden \<subset> columns_of n"
  shows "hideColumns n hidden l \<subset> columns_of n
    \<and> getVisibleColumnIndices n (hideColumns n hidden l) \<noteq> []
    \<and> hideColumns n hidden l =
        (if hidden \<union> (set l \<inter> columns_of n) = columns_of n then hidden else hidden \<union> (set l \<inter> columns_of n))
    \<and> showColumns (hideColumns n hidden l) l = hidden - set l"
proof -
  let ?k = "hidden \<union> (set l \<inter> columns_of n)"
  have k: "?k \<subseteq> columns_of n" "finite ?k" using assms finite_subset [OF _ columns_of_facts(1)] by auto
  have c: "card ?k < n \<longleftrightarrow> ?k \<noteq> columns_of n"
    using k psubset_card_mono [OF columns_of_facts(1) [of n], of ?k] by (auto simp: psubset_eq)
  have d: "card ?k > card hidden \<longleftrightarrow> ?k \<noteq> hidden"
    using psubset_card_mono [OF k(2), of hidden] by auto
  have h: "hideColumns n hidden l = (if ?k = columns_of n then hidden else ?k)"
    using c d by (auto simp: hideColumns_def canHideColumns_def Let_def add_in_range_alt)
  moreover have "hideColumns n hidden l \<subset> columns_of n" unfolding h using assms k by auto
  moreover from this have "getVisibleColumnIndices n (hideColumns n hidden l) \<noteq> []"
    using visible_set [of n "hideColumns n hidden l"] by auto
  moreover have "showColumns (hideColumns n hidden l) l = hidden - set l"
    unfolding h by (auto simp: showColumns_def)
  ultimately show ?thesis by blast
qed

lemma hiding_keeps_a_column_witness: "hideColumns 2 {0} [1] = {0} \<and> hideColumns 3 {0} [1, 7] = {0, 1}"
proof -
  have c: "columns_of 2 = {0, 1}" "columns_of 3 = {0, 1, 2}" by (simp_all add: columns_of_def) code_simp+
  have "{0} \<subset> columns_of 2" "{0} \<subset> columns_of 3" unfolding c by auto
  note h = hiding_keeps_a_column [OF this(1), of "[1]"] hiding_keeps_a_column [OF this(2), of "[1, 7]"]
  have "2 \<notin> ({0, 1} :: int set)" by simp
  then have n: "({0, 1} :: int set) \<noteq> {0, 1, 2}" by blast
  from h
  have "hideColumns 2 {0} [1] = (if {0, 1} = columns_of 2 then {0} else {0, 1})"
    "hideColumns 3 {0} [1, 7] = (if {0, 1} = columns_of 3 then {0} else {0, 1})"
    by (simp_all add: c insert_commute)
  then show ?thesis using n by (simp add: c)
qed

section \<open>Moving over the visible columns\<close>

lemma toViewColumn_range: "visible \<noteq> [] \<Longrightarrow> 0 \<le> toViewColumn c visible \<and> toViewColumn c visible < int (length visible)"
  by (auto simp: toViewColumn_def Suc_leI dest!: find_pos_Some split: option.splits)

lemma visible_or_in: "0 \<le> i \<Longrightarrow> i < int (length visible) \<Longrightarrow> visible_or visible i d \<in> set visible"
  by (simp add: visible_or_def cell_at_def)

lemma moveCellPosition_inside:
  assumes "0 \<le> rowIndex p" "rowIndex p < rows" "0 \<le> colIndex p" "colIndex p < cols"
  shows "0 \<le> rowIndex (moveCellPosition p k rows cols e) \<and> rowIndex (moveCellPosition p k rows cols e) < rows
    \<and> 0 \<le> colIndex (moveCellPosition p k rows cols e) \<and> colIndex (moveCellPosition p k rows cols e) < cols"
  using assms by (cases k) auto

lemma navigateCell_inside:
  assumes "0 \<le> rowIndex p" "rowIndex p < rows" "0 \<le> colIndex p" "colIndex p < cols"
    and "navigateCell key p rows cols step t = Some q"
  shows "0 \<le> rowIndex q \<and> rowIndex q < rows \<and> 0 \<le> colIndex q \<and> colIndex q < cols"
proof -
  note m = moveCellPosition_inside [OF assms(1-4)]
  show ?thesis
  proof (cases "arrow_key key")
    case (Some k)
    with assms(5) m show ?thesis by (auto simp: navigateCell_def)
  next
    case None
    have neg: "colIndex p - step = colIndex p + - step" "rowIndex p - step = rowIndex p + - step" by simp_all
    from None assms(5) consider k e where "q = moveCellPosition p k rows cols e"
      | d where "q = p\<lparr>colIndex := min (cols - 1) (max 0 (colIndex p + d))\<rparr>"
      | d where "q = p\<lparr>rowIndex := min (rows - 1) (max 0 (rowIndex p + d))\<rparr>"
      unfolding navigateCell_def Let_def by (simp split: if_splits) (blast | metis neg)+
    then show ?thesis
    proof cases
      case 1
      with m show ?thesis by simp
    qed (use assms in auto)
  qed
qed

text \<open>Property (navigation_stays_visible): from any cell, also one in a hidden column, every navigation key lands on a
  visible column and inside the rows of the grid.\<close>

theorem navigation_stays_visible:
  assumes "hidden \<subset> columns_of n" "0 \<le> rowIndex pos" "rowIndex pos < rows"
    and "navigateVisibleCell key pos rows (getVisibleColumnIndices n hidden) step t = Some q"
  shows "colIndex q \<in> columns_of n - hidden \<and> 0 \<le> rowIndex q \<and> rowIndex q < rows"
proof -
  let ?v = "getVisibleColumnIndices n hidden"
  have v: "?v \<noteq> []" using visible_set [of n hidden] assms(1) by auto
  with assms(4) obtain r where r: "navigateCell key (toViewCell pos ?v) rows (int (length ?v)) step t = Some r"
    "q = fromViewCell r ?v" by (auto simp: navigateVisibleCell_def)
  have "0 \<le> rowIndex r \<and> rowIndex r < rows \<and> 0 \<le> colIndex r \<and> colIndex r < int (length ?v)"
    by (rule navigateCell_inside [OF _ _ _ _ r(1)]) (use assms(2,3) toViewColumn_range [OF v] in \<open>simp_all add: toViewCell_def\<close>)
  then show ?thesis
    using visible_or_in [of "colIndex r" ?v "colIndex r"] visible_set [of n hidden] by (simp add: r(2) fromViewCell_def)
qed

lemma navigation_stays_visible_witness:
  "case navigateVisibleCell ''ArrowRight'' \<lparr>rowIndex = 0, colIndex = 0\<rparr> 5 (getVisibleColumnIndices 3 {1}) 10 False of
     Some q \<Rightarrow> colIndex q \<in> columns_of 3 - {1} | None \<Rightarrow> False"
proof -
  let ?q = "\<lparr>rowIndex = 0, colIndex = 2\<rparr>"
  have e: "navigateVisibleCell ''ArrowRight'' \<lparr>rowIndex = 0, colIndex = 0\<rparr> 5 (getVisibleColumnIndices 3 {1}) 10 False = Some ?q"
    by code_simp
  from navigation_stays_visible [OF _ _ _ this] have "colIndex ?q \<in> columns_of 3 - {1}"
    by (auto simp: columns_of_def)
  then show ?thesis unfolding e by simp
qed

section \<open>Extending a range\<close>

lemma cursor_of_built: "getRangeCursor a (Some (buildCellRange a b)) = b"
  by (auto simp: getRangeCursor_def buildCellRange_def min_def max_def)

fun opposite :: "RangeExtendKey \<Rightarrow> RangeExtendKey" where
  "opposite ArrowUp = ArrowDown" | "opposite ArrowDown = ArrowUp"
| "opposite ArrowLeft = ArrowRight" | "opposite ArrowRight = ArrowLeft"

text \<open>Property (range_walks_from_anchor): extending a range keeps the anchor as a corner and makes the moved cell the
  opposite corner, from which the next extension starts; with the cursor inside the grid, a step and the
  opposite step give the range spanned by the anchor and the old cursor.\<close>

theorem range_walks_from_anchor:
  assumes "extendCellRange anchor rng key rows cols e = Some (r, c)"
  shows "r = buildCellRange anchor c \<and> getRangeCursor anchor (Some r) = c
    \<and> (\<not> e \<longrightarrow> 0 \<le> rowIndex (getRangeCursor anchor rng) \<longrightarrow> rowIndex (getRangeCursor anchor rng) < rows \<longrightarrow>
       0 \<le> colIndex (getRangeCursor anchor rng) \<longrightarrow> colIndex (getRangeCursor anchor rng) < cols \<longrightarrow>
       extendCellRange anchor (Some r) (opposite key) rows cols False
         = Some (buildCellRange anchor (getRangeCursor anchor rng), getRangeCursor anchor rng))"
proof -
  define g where "g = getRangeCursor anchor rng"
  from assms have r: "r = buildCellRange anchor c" "c = moveCellPosition g key rows cols e" "rowIndex c \<noteq> rowIndex g \<or> colIndex c \<noteq> colIndex g"
    by (auto simp: extendCellRange_def Let_def g_def split: if_splits)
  have "extendCellRange anchor (Some r) (opposite key) rows cols False = Some (buildCellRange anchor g, g)"
    if "\<not> e" "0 \<le> rowIndex g" "rowIndex g < rows" "0 \<le> colIndex g" "colIndex g < cols"
  proof -
    have "moveCellPosition c (opposite key) rows cols False = g"
      using that r(2,3) by (cases key) (auto simp: max_def min_def split: if_splits)
    with r(3) show ?thesis by (auto simp: extendCellRange_def Let_def r(1) cursor_of_built)
  qed
  then show ?thesis using r(1) cursor_of_built by (auto simp: g_def)
qed

lemma range_walks_from_anchor_witness:
  "extendCellRange \<lparr>rowIndex = 1, colIndex = 1\<rparr>
     (Some (buildCellRange \<lparr>rowIndex = 1, colIndex = 1\<rparr> \<lparr>rowIndex = 2, colIndex = 1\<rparr>)) ArrowUp 9 9 False
   = Some (buildCellRange \<lparr>rowIndex = 1, colIndex = 1\<rparr> \<lparr>rowIndex = 1, colIndex = 1\<rparr>, \<lparr>rowIndex = 1, colIndex = 1\<rparr>)"
proof -
  let ?a = "\<lparr>rowIndex = 1, colIndex = 1\<rparr>" and ?b = "\<lparr>rowIndex = 2, colIndex = 1\<rparr>"
  have "extendCellRange ?a None ArrowDown 9 9 False = Some (buildCellRange ?a ?b, ?b)" by code_simp
  from range_walks_from_anchor [OF this] show ?thesis by (simp add: getRangeCursor_def)
qed

text \<open>Property (extended_range_stays_visible): extending a range over the visible columns gives a range whose edge columns
  and cursor column are visible, whatever range and anchor it started from.\<close>

theorem extended_range_stays_visible:
  assumes "hidden \<subset> columns_of n"
    and "extendVisibleCellRange anchor rng key rows (getVisibleColumnIndices n hidden) e = Some (r, c)"
  shows "minCol r \<in> columns_of n - hidden \<and> maxCol r \<in> columns_of n - hidden \<and> colIndex c \<in> columns_of n - hidden"
proof -
  let ?v = "getVisibleColumnIndices n hidden"
  have v: "?v \<noteq> []" using visible_set [of n hidden] assms(1) by auto
  define vr where "vr = map_option (\<lambda>r. r\<lparr>minCol := toViewColumn (minCol r) ?v, maxCol := toViewColumn (maxCol r) ?v\<rparr>) rng"
  let ?a = "toViewCell anchor ?v"
  from assms(2) v obtain r0 c0 where x: "extendCellRange ?a vr key rows (int (length ?v)) e = Some (r0, c0)"
    and r: "r = r0\<lparr>minCol := visible_or ?v (minCol r0) (minCol r0), maxCol := visible_or ?v (maxCol r0) (maxCol r0)\<rparr>"
    and c: "c = fromViewCell c0 ?v"
    by (auto simp: extendVisibleCellRange_def vr_def)
  have a: "0 \<le> colIndex ?a \<and> colIndex ?a < int (length ?v)"
    using toViewColumn_range [OF v] by (simp add: toViewCell_def)
  define g where "g = getRangeCursor ?a vr"
  have g: "0 \<le> colIndex g \<and> colIndex g < int (length ?v)"
    using a toViewColumn_range [OF v] by (auto simp: g_def getRangeCursor_def vr_def split: option.splits)
  from x have x': "c0 = moveCellPosition g key rows (int (length ?v)) e" "r0 = buildCellRange ?a c0"
    by (auto simp: extendCellRange_def Let_def g_def split: if_splits)
  have "0 \<le> colIndex c0 \<and> colIndex c0 < int (length ?v)"
    using g v unfolding x'(1) by (cases key) auto
  with a have "0 \<le> minCol r0 \<and> minCol r0 < int (length ?v)" "0 \<le> maxCol r0 \<and> maxCol r0 < int (length ?v)"
    "0 \<le> colIndex c0 \<and> colIndex c0 < int (length ?v)"
    by (auto simp: x'(2) buildCellRange_def)
  then show ?thesis
    using visible_or_in [of _ ?v] visible_set [of n hidden] by (auto simp: r c fromViewCell_def)
qed

lemma extended_range_stays_visible_witness:
  "case extendVisibleCellRange \<lparr>rowIndex = 0, colIndex = 0\<rparr> None ArrowRight 5 (getVisibleColumnIndices 4 {1, 2}) False of
     Some (r, c) \<Rightarrow> maxCol r \<in> columns_of 4 - {1, 2} | None \<Rightarrow> False"
proof -
  let ?r = "\<lparr>minRow = 0, maxRow = 0, minCol = 0, maxCol = 3\<rparr>" and ?c = "\<lparr>rowIndex = 0, colIndex = 3\<rparr>"
  have e: "extendVisibleCellRange \<lparr>rowIndex = 0, colIndex = 0\<rparr> None ArrowRight 5 (getVisibleColumnIndices 4 {1, 2}) False
      = Some (?r, ?c)" by code_simp
  have "{1, 2} \<subset> columns_of 4" by (auto simp: columns_of_def psubset_eq set_eq_iff intro!: exI [of _ 0])
  from extended_range_stays_visible [OF this e]
  show "case extendVisibleCellRange \<lparr>rowIndex = 0, colIndex = 0\<rparr> None ArrowRight 5 (getVisibleColumnIndices 4 {1, 2}) False of
     Some (r, c) \<Rightarrow> maxCol r \<in> columns_of 4 - {1, 2} | None \<Rightarrow> False" unfolding e by simp
qed

section \<open>Clamping a range to its visible columns\<close>

lemma skip_right_spec: "lo \<le> hi + 1 \<Longrightarrow>
   lo \<le> skip_right h lo hi \<and> skip_right h lo hi \<le> hi + 1 \<and> (\<forall>c. lo \<le> c \<and> c < skip_right h lo hi \<longrightarrow> c \<in> h)
   \<and> (skip_right h lo hi \<le> hi \<longrightarrow> skip_right h lo hi \<notin> h)"
proof (induction h lo hi rule: skip_right.induct)
  case (1 h lo hi)
  show ?case
  proof (cases "lo \<le> hi \<and> lo \<in> h")
    case True
    then have e: "skip_right h lo hi = skip_right h (lo + 1) hi" by (simp add: skip_right.simps [of h lo])
    let ?k = "skip_right h (lo + 1) hi"
    from "1.IH" [OF True] True have i: "lo + 1 \<le> ?k" "?k \<le> hi + 1" "\<forall>c. lo + 1 \<le> c \<and> c < ?k \<longrightarrow> c \<in> h"
      "?k \<le> hi \<longrightarrow> ?k \<notin> h" by auto
    have "c \<in> h" if "lo \<le> c" "c < ?k" for c using i(3) True that by (cases "c = lo") auto
    with i e show ?thesis by auto
  qed (use 1 in \<open>auto simp: skip_right.simps [of h lo]\<close>)
qed

lemma skip_left_spec: "lo \<le> hi + 1 \<Longrightarrow>
   skip_left h lo hi \<le> hi \<and> lo - 1 \<le> skip_left h lo hi \<and> (\<forall>c. skip_left h lo hi < c \<and> c \<le> hi \<longrightarrow> c \<in> h)
   \<and> (lo \<le> skip_left h lo hi \<longrightarrow> skip_left h lo hi \<notin> h)"
proof (induction h lo hi rule: skip_left.induct)
  case (1 h lo hi)
  show ?case
  proof (cases "hi \<ge> lo \<and> hi \<in> h")
    case True
    then have e: "skip_left h lo hi = skip_left h lo (hi - 1)" by (simp add: skip_left.simps [of h lo])
    let ?k = "skip_left h lo (hi - 1)"
    from "1.IH" [OF True] True have i: "?k \<le> hi - 1" "lo - 1 \<le> ?k" "\<forall>c. ?k < c \<and> c \<le> hi - 1 \<longrightarrow> c \<in> h"
      "lo \<le> ?k \<longrightarrow> ?k \<notin> h" by auto
    have "c \<in> h" if "?k < c" "c \<le> hi" for c using i(3) True that by (cases "c = hi") auto
    with i e show ?thesis by auto
  qed (use 1 in \<open>auto simp: skip_left.simps [of h lo]\<close>)
qed

text \<open>Property (clamped_range_is_tight): clamping a range to its visible columns gives nothing exactly when every
  column of it is hidden, and otherwise the range whose edges are its first and last visible columns,
  with the same rows and the same visible columns in between.\<close>

theorem clamped_range_is_tight:
  assumes "finite hidden" "minCol r \<le> maxCol r"
  shows "case clampRangeToVisible (Some r) hidden of
      None \<Rightarrow> visibleColumnsInRange (minCol r) (maxCol r) hidden = []
    | Some r' \<Rightarrow> minCol r' \<notin> hidden \<and> maxCol r' \<notin> hidden \<and> minCol r \<le> minCol r' \<and> minCol r' \<le> maxCol r'
        \<and> maxCol r' \<le> maxCol r \<and> minRow r' = minRow r \<and> maxRow r' = maxRow r
        \<and> visibleColumnsInRange (minCol r') (maxCol r') hidden = visibleColumnsInRange (minCol r) (maxCol r) hidden"
proof (cases "hidden = {}")
  case True
  with assms(2) show ?thesis by (simp add: clampRangeToVisible_def)
next
  case False
  define lo where "lo = skip_right hidden (minCol r) (maxCol r)"
  define hi where "hi = skip_left hidden lo (maxCol r)"
  have l: "minCol r \<le> lo" "lo \<le> maxCol r + 1" "\<And>c. minCol r \<le> c \<Longrightarrow> c < lo \<Longrightarrow> c \<in> hidden" "lo \<le> maxCol r \<Longrightarrow> lo \<notin> hidden"
    using skip_right_spec [of "minCol r" "maxCol r" hidden] assms(2) by (auto simp: lo_def)
  have h: "hi \<le> maxCol r" "lo - 1 \<le> hi" "\<And>c. hi < c \<Longrightarrow> c \<le> maxCol r \<Longrightarrow> c \<in> hidden" "lo \<le> hi \<Longrightarrow> hi \<notin> hidden"
    using skip_left_spec [of lo "maxCol r" hidden] l(2) by (auto simp: hi_def)
  have e: "clampRangeToVisible (Some r) hidden = (if lo > hi then None else Some (r\<lparr>minCol := lo, maxCol := hi\<rparr>))"
    using False assms(1) by (simp add: clampRangeToVisible_def Let_def lo_def hi_def)
  show ?thesis
  proof (cases "lo > hi")
    case True
    have "c \<in> hidden" if "minCol r \<le> c" "c \<le> maxCol r" for c
      using l(3) [of c] h(3) [of c] that True by (cases "c < lo") auto
    with True e show ?thesis by (simp add: visibleColumnsInRange_def)
  next
    case False
    have s: "[minCol r..maxCol r] = [minCol r..lo - 1] @ [lo..hi] @ [hi + 1..maxCol r]"
      using upto_split1 [of "minCol r" lo "maxCol r"] upto_split2 [of lo hi "maxCol r"] l h False by simp
    have "filter (\<lambda>c. c \<notin> hidden) [minCol r..lo - 1] = []" "filter (\<lambda>c. c \<notin> hidden) [hi + 1..maxCol r] = []"
      using l(3) h(3) by (auto simp: filter_empty_conv)
    with s have "visibleColumnsInRange lo hi hidden = visibleColumnsInRange (minCol r) (maxCol r) hidden"
      by (simp add: visibleColumnsInRange_def)
    with False e l h show ?thesis by simp
  qed
qed

lemma clamped_range_is_tight_witness:
  "clampRangeToVisible (Some \<lparr>minRow = 0, maxRow = 2, minCol = 1, maxCol = 3\<rparr>) {1, 3} \<noteq> None"
proof -
  have "visibleColumnsInRange 1 3 {1, 3} = [2]" by code_simp
  with clamped_range_is_tight [of "{1, 3}" "\<lparr>minRow = 0, maxRow = 2, minCol = 1, maxCol = 3\<rparr>"] show ?thesis
    by (cases "clampRangeToVisible (Some \<lparr>minRow = 0, maxRow = 2, minCol = 1, maxCol = 3\<rparr>) {1, 3}") simp_all
qed

section \<open>Locked widths\<close>

lemma merge_width_keeps:
  assumes "i < length ws" "ws ! i = Some w" "length ws = n"
  shows "length (merge_width True n measured ws p) = n \<and> merge_width True n measured ws p ! i = Some w"
proof -
  obtain pos idx where p: "p = (pos, idx)" by (cases p)
  show ?thesis
  proof (cases "idx = int i")
    case True
    with assms show ?thesis by (simp add: merge_width_def p cell_at_def)
  next
    case False
    then have "0 \<le> idx \<Longrightarrow> nat idx \<noteq> i" by auto
    with assms show ?thesis by (simp add: merge_width_def p)
  qed
qed

text \<open>Property (locked_widths_survive): a width already locked for the same layout survives every later measurement,
  and so does the mark of a resized layout.\<close>

theorem locked_widths_survive:
  assumes "lock_key p = key" "length (widths p) = n" "i < n" "widths p ! i = Some w"
  shows "widths (mergeMeasuredColumnWidths (Some p) key n idx measured) ! i = Some w
    \<and> length (widths (mergeMeasuredColumnWidths (Some p) key n idx measured)) = n
    \<and> resized (mergeMeasuredColumnWidths (Some p) key n idx measured) = resized p"
proof -
  have "length (foldl (merge_width True n measured) ws es) = n \<and> foldl (merge_width True n measured) ws es ! i = Some w"
    if "length ws = n" "ws ! i = Some w" for ws es
    using that
  proof (induction es arbitrary: ws)
    case (Cons x es)
    with merge_width_keeps [of i ws w n measured x] assms(3) show ?case by simp
  qed simp
  with assms show ?thesis by (simp add: mergeMeasuredColumnWidths_def Let_def)
qed

lemma locked_widths_survive_witness:
  "widths (mergeMeasuredColumnWidths (Some \<lparr>lock_key = ''k'', widths = [Some 40, None], resized = True\<rparr>)
     ''k'' 2 [0, 1] [99, 60]) ! 0 = Some 40"
  using locked_widths_survive [of "\<lparr>lock_key = ''k'', widths = [Some 40, None], resized = True\<rparr>" "''k''" 2 0 40] by simp

end
