(* ===== verification/SqlAnalysis.thy ===== *)
theory SqlAnalysis
  imports Classify
begin

text \<open>
  The guards in front of a query (\<open>utils/sqlAnalysis.ts\<close>): which statements need a confirmation because they
  drop, truncate or change a whole table, and which scripts count as read-only. Every regular expression
  is a hand-written matcher here; a matcher returns the length of the match at the head of its argument.
  The table parser for autocompletion is left out.
\<close>

section \<open>Stripping comments and literals\<close>

definition line_comment :: "jsstring \<Rightarrow> nat option" where
  "line_comment s = (if prefix ''--'' s then Some (2 + length (takeWhile (\<lambda>c. c \<noteq> NL) (drop 2 s))) else None)"

definition block_comment :: "jsstring \<Rightarrow> nat option" where
  "block_comment s = (if prefix ''/*'' s then map_option (\<lambda>i. i + 4) (index_of (drop 2 s) ''*/'') else None)"

text \<open>What follows the opening quote \<open>q\<close>, up to and with the closing one. Doubled quotes and, with \<open>esc\<close>,
  a backslash with any character but a line break are taken as pairs; when the pairs run off the end, the
  expression backtracks to the last quote at which it could have closed.\<close>

fun quoted_end :: "char \<Rightarrow> bool \<Rightarrow> jsstring \<Rightarrow> nat option" where
  "quoted_end q esc [] = None"
| "quoted_end q esc [c] = (if c = q then Some 1 else None)"
| "quoted_end q esc (c # d # ds) =
     (if c = q then
        (if d = q then (case quoted_end q esc ds of Some n \<Rightarrow> Some (n + 2) | None \<Rightarrow> Some 1) else Some 1)
      else if esc \<and> c = BSL then
        (if d = NL \<or> d = CR then None else map_option (\<lambda>n. n + 2) (quoted_end q esc ds))
      else map_option Suc (quoted_end q esc (d # ds)))"

definition quoted_literal :: "char \<Rightarrow> bool \<Rightarrow> jsstring \<Rightarrow> nat option" where
  "quoted_literal q esc s =
     (case s of c # cs \<Rightarrow> if c = q then map_option Suc (quoted_end q esc cs) else None | [] \<Rightarrow> None)"

definition stripCommentsAndLiterals :: "jsstring \<Rightarrow> jsstring" where
  "stripCommentsAndLiterals sql =
     replace_all (quoted_literal BTICK False) [BTICK, BTICK]
       (replace_all (quoted_literal DQ True) [DQ, DQ]
         (replace_all (quoted_literal SQ True) [SQ, SQ]
           (replace_all block_comment [SP]
             (replace_all line_comment [SP] sql))))"

section \<open>Keywords and conditions outside parentheses\<close>

definition CTE_STATEMENT_KEYWORDS :: "jsstring set" where
  "CTE_STATEMENT_KEYWORDS = set [''SELECT'', ''INSERT'', ''UPDATE'', ''DELETE'', ''MERGE'']"

function cte_scan :: "nat \<Rightarrow> jsstring \<Rightarrow> jsstring option" where
  "cte_scan depth [] = None"
| "cte_scan depth (c # cs) =
     (if c = CHR ''('' then cte_scan (depth + 1) cs
      else if c = CHR '')'' then cte_scan (depth - 1) cs
      else if is_ident_start c then
        (let word = upper (c # takeWhile is_ident_char cs)
         in if depth = 0 \<and> word \<in> CTE_STATEMENT_KEYWORDS then Some word
            else cte_scan depth (dropWhile is_ident_char cs))
      else cte_scan depth cs)"
  by pat_completeness auto
termination
  by (relation "measure (\<lambda>(d, s). length s)") (auto simp: le_imp_less_Suc length_dropWhile_le)

definition finalCteStatementKeyword :: "jsstring \<Rightarrow> jsstring option" where
  "finalCteStatementKeyword cleaned = cte_scan 0 cleaned"

text \<open>\<open>prefix_ci w s\<close>: \<open>s\<close> starts with the upper-case ASCII word \<open>w\<close> in any case. \<open>where_at prev s\<close>:
  \<open>\bWHERE\b\<close> matches at the head of \<open>s\<close>, where \<open>prev\<close> says whether a word character precedes it.\<close>

definition prefix_ci :: "jsstring \<Rightarrow> jsstring \<Rightarrow> bool" where
  "prefix_ci w s \<longleftrightarrow> upper (take (length w) s) = w"

definition word_head :: "jsstring \<Rightarrow> bool" where
  "word_head s = (case s of [] \<Rightarrow> False | c # _ \<Rightarrow> is_ident_char c)"

definition where_at :: "bool \<Rightarrow> jsstring \<Rightarrow> bool" where
  "where_at prev s \<longleftrightarrow> \<not> prev \<and> prefix_ci ''WHERE'' s \<and> \<not> word_head (drop 5 s)"

function where_scan :: "bool \<Rightarrow> nat \<Rightarrow> jsstring \<Rightarrow> bool" where
  "where_scan prev depth [] = False"
| "where_scan prev depth (c # cs) =
     (if c = CHR ''('' then where_scan False (depth + 1) cs
      else if c = CHR '')'' then where_scan False (depth - 1) cs
      else if where_at prev (c # cs) then (if depth = 0 then True else where_scan True depth (drop 4 cs))
      else where_scan (is_ident_char c) depth cs)"
  by pat_completeness auto
termination
  by (relation "measure (\<lambda>(p, d, s). length s)") auto

definition hasTopLevelWhere :: "jsstring \<Rightarrow> bool" where
  "hasTopLevelWhere cleaned = where_scan False 0 cleaned"

section \<open>Dangerous and read-only statements\<close>

datatype DangerousQueryKind = NoWhere | Drop | Truncate

definition classifyDangerousQuery :: "jsstring \<Rightarrow> DangerousQueryKind option" where
  "classifyDangerousQuery sql =
     (let cleaned = stripCommentsAndLiterals sql;
          first = (if leadingKeyword cleaned False \<noteq> [] then leadingKeyword cleaned False
                   else leadingKeyword cleaned True);
          keyword = (if first = ''WITH'' then
                       (case finalCteStatementKeyword cleaned of Some k \<Rightarrow> k | None \<Rightarrow> first)
                     else first)
      in if keyword = ''DROP'' then Some Drop
         else if keyword = ''TRUNCATE'' then Some Truncate
         else if (keyword = ''DELETE'' \<or> keyword = ''UPDATE'') \<and> \<not> hasTopLevelWhere cleaned then Some NoWhere
         else None)"

definition isDangerousQuery :: "jsstring \<Rightarrow> bool" where
  "isDangerousQuery sql \<longleftrightarrow> classifyDangerousQuery sql \<noteq> None"

definition isDestructiveWithoutWhere :: "jsstring \<Rightarrow> bool" where
  "isDestructiveWithoutWhere sql \<longleftrightarrow> classifyDangerousQuery sql = Some NoWhere"

definition READ_ONLY_KEYWORDS :: "jsstring set" where
  "READ_ONLY_KEYWORDS = set [''SELECT'', ''SHOW'', ''DESCRIBE'', ''DESC'', ''PRAGMA'', ''TABLE'', ''VALUES'']"

text \<open>\<open>\s+\<close> at the head of the text; one turn of the group of \<open>EXPLAIN\<close> options.\<close>

definition skip_spaces1 :: "jsstring \<Rightarrow> jsstring option" where
  "skip_spaces1 s = (case s of c # cs \<Rightarrow> if is_space c then Some (dropWhile is_space cs) else None | [] \<Rightarrow> None)"

definition word_option :: "jsstring \<Rightarrow> jsstring \<Rightarrow> jsstring option" where
  "word_option w s = (if prefix_ci w s then skip_spaces1 (drop (length w) s) else None)"

fun explain_option :: "jsstring \<Rightarrow> jsstring option" where
  "explain_option [] = None"
| "explain_option (c # cs) =
     (if c = CHR ''('' then
        (case dropWhile (\<lambda>d. d \<noteq> CHR '')'') cs of [] \<Rightarrow> None | _ # rest \<Rightarrow> skip_spaces1 rest)
      else case word_option ''ANALYZE'' (c # cs) of
          Some r \<Rightarrow> Some r
        | None \<Rightarrow>
          (case word_option ''ANALYSE'' (c # cs) of
             Some r \<Rightarrow> Some r
           | None \<Rightarrow>
             (case word_option ''VERBOSE'' (c # cs) of
                Some r \<Rightarrow> Some r
              | None \<Rightarrow> Option.bind (word_option ''QUERY'' (c # cs)) (word_option ''PLAN''))))"

lemma skip_spaces1_shorter: "skip_spaces1 s = Some r \<Longrightarrow> length r < length s"
  by (auto simp: skip_spaces1_def length_dropWhile_le le_imp_less_Suc split: list.splits if_splits)

lemma word_option_shorter: "word_option w s = Some r \<Longrightarrow> length r < length s"
  by (auto simp: word_option_def split: if_splits dest!: skip_spaces1_shorter)

lemma explain_option_shorter: "explain_option s = Some r \<Longrightarrow> length r < length s"
proof (induction s rule: explain_option.induct)
  case (2 c cs)
  show ?case
  proof (cases "c = CHR ''(''")
    case True
    with "2.prems" obtain d rest where d: "dropWhile (\<lambda>d. d \<noteq> CHR '')'') cs = d # rest" "skip_spaces1 rest = Some r"
      by (auto split: list.splits)
    then have "length (d # rest) \<le> length cs" by (metis length_dropWhile_le)
    with skip_spaces1_shorter [OF d(2)] show ?thesis by simp
  next
    case False
    with "2.prems" show ?thesis
      by (auto simp: bind_eq_Some_conv split: option.splits dest!: word_option_shorter)
  qed
qed simp

function strip_explain_options :: "jsstring \<Rightarrow> jsstring" where
  "strip_explain_options s = (case explain_option s of None \<Rightarrow> s | Some r \<Rightarrow> strip_explain_options r)"
  by pat_completeness auto
termination
  by (relation "measure length") (auto dest: explain_option_shorter)

declare strip_explain_options.simps [simp del]

definition unwrap_explain :: "jsstring \<Rightarrow> jsstring" where
  "unwrap_explain s =
     (case word_option ''EXPLAIN'' s of None \<Rightarrow> s | Some r \<Rightarrow> strip_explain_options r)"

definition effectiveStatementKeyword :: "jsstring \<Rightarrow> jsstring" where
  "effectiveStatementKeyword cleaned =
     (let unwrapped = unwrap_explain (trim cleaned) in
      if trim unwrapped = [] then ''SELECT''
      else
        (let keyword = leadingKeyword unwrapped False in
         if keyword = ''WITH'' then
           (case finalCteStatementKeyword unwrapped of Some k \<Rightarrow> k | None \<Rightarrow> keyword)
         else keyword))"

definition isReadOnlyQuery :: "jsstring \<Rightarrow> bool" where
  "isReadOnlyQuery sql =
     list_all (\<lambda>s. effectiveStatementKeyword s \<in> READ_ONLY_KEYWORDS)
       (filter (\<lambda>s. length s > 0) (map trim (split_on (CHR '';'') (stripCommentsAndLiterals sql))))"

section \<open>The statement at the cursor of a long text\<close>

text \<open>\<open>offset\<close> is the editor model's offset of the position. The two loops look at most 2000 characters
  each way.\<close>

fun last_before :: "jsstring \<Rightarrow> nat \<Rightarrow> nat \<Rightarrow> nat option" where
  "last_before s lo 0 = None"
| "last_before s lo (Suc i) =
     (if i < lo then None
      else if char_at s i = Some (CHR '';'') then Some i else last_before s lo i)"

definition getCurrentStatement :: "jsstring \<Rightarrow> nat \<Rightarrow> jsstring" where
  "getCurrentStatement fullText offset =
     (if length fullText < 500 then fullText
      else
        (let searchStart = offset - 2000;
             searchEnd = min (length fullText) (offset + 2000);
             start = (case last_before fullText searchStart offset of Some i \<Rightarrow> i + 1 | None \<Rightarrow> 0);
             scanned = scan_while (\<lambda>c. c \<noteq> Some (CHR '';'')) fullText searchEnd offset;
             finish = (if scanned < searchEnd then scanned else length fullText)
         in trim (slice fullText start finish)))"

end
