(* ===== verification/SqlGuardFacts.thy ===== *)
theory SqlGuardFacts
  imports SqlAnalysis
begin

text \<open>
  What the guards of \<open>utils/sqlAnalysis.ts\<close> guarantee on text without quotes and comments, and three inputs
  on which they let a write through.
\<close>

section \<open>Text without quotes and comments\<close>

definition plain :: "jsstring \<Rightarrow> bool" where
  "plain s \<longleftrightarrow> list_all (\<lambda>c. c \<noteq> SQ \<and> c \<noteq> DQ \<and> c \<noteq> BTICK) s \<and> \<not> sublist ''--'' s \<and> \<not> sublist ''/*'' s"

lemma replace_all_id: "(\<And>t. suffix t s \<Longrightarrow> m t = None) \<Longrightarrow> replace_all m rep s = s"
proof (induction s)
  case (Cons c cs)
  have "m (c # cs) = None" by (rule Cons.prems) simp
  moreover have "replace_all m rep cs = cs" by (rule Cons.IH) (auto intro: Cons.prems suffix_ConsI)
  ultimately show ?case by simp
qed simp

lemma prefix_suffix_sublist: "prefix p t \<Longrightarrow> suffix t s \<Longrightarrow> sublist p s"
  by (auto simp: prefix_def suffix_def sublist_def)

lemma suffix_hd: "suffix (c # t) s \<Longrightarrow> c \<in> set s"
  by (auto simp: suffix_def)

lemma strip_plain [simp]:
  assumes "plain s"
  shows "stripCommentsAndLiterals s = s"
proof -
  have q: "\<And>c. c \<in> set s \<Longrightarrow> c \<noteq> SQ \<and> c \<noteq> DQ \<and> c \<noteq> BTICK" using assms by (auto simp: plain_def list_all_iff)
  have "replace_all line_comment [SP] s = s" "replace_all block_comment [SP] s = s"
    by (rule replace_all_id;
        use assms prefix_suffix_sublist in \<open>auto simp: plain_def line_comment_def block_comment_def\<close>)+
  moreover have "replace_all (quoted_literal k e) [k, k] s = s" if "k \<in> {SQ, DQ, BTICK}" for k e
    by (rule replace_all_id) (use q that suffix_hd in \<open>fastforce simp: quoted_literal_def split: list.splits\<close>)
  ultimately show ?thesis by (simp add: stripCommentsAndLiterals_def)
qed

section \<open>The leading keyword\<close>

text \<open>\<open>leads w s\<close>: \<open>s\<close> starts with the whole word \<open>w\<close>.\<close>

definition leads :: "jsstring \<Rightarrow> jsstring \<Rightarrow> bool" where
  "leads w s \<longleftrightarrow> (\<exists>rest. s = w @ rest \<and> \<not> word_head rest) \<and> w \<noteq> [] \<and> is_ident_start (hd w) \<and> list_all is_ident_char w"

lemma ident_start_facts:
  "is_ident_start c \<Longrightarrow> is_ident_char c \<and> \<not> is_space c \<and> c \<noteq> CHR ''('' \<and> c \<noteq> CHR ''-'' \<and> c \<noteq> CHR ''/''
     \<and> c \<noteq> CHR ''#''"
  by (auto simp: is_ident_start_def is_ident_char_def is_alpha_def is_space_def code_of_def)

lemma keyword_body_ident: "is_ident_start c \<Longrightarrow> keyword_body (c # cs) h = c # cs"
proof -
  assume c: "is_ident_start c"
  have "drop_leading_comment (c # cs) h = None"
    using ident_start_facts [OF c] by (auto simp: drop_leading_comment_def)
  then have "stripLeadingComments (c # cs) h = c # cs"
    using ident_start_facts [OF c] by (subst stripLeadingComments.simps) (simp add: trim_start_def)
  then have "keyword_step (c # cs) h = c # cs"
    using ident_start_facts [OF c] by (simp add: keyword_step_def strip_parens_def)
  then show ?thesis by (subst keyword_body.simps) simp
qed

lemma leads_takeWhile:
  assumes "leads w s"
  shows "\<exists>c cs. s = c # cs \<and> is_ident_start c \<and> c # takeWhile is_ident_char cs = w"
proof -
  from assms obtain rest where s: "s = w @ rest" "\<not> word_head rest" "w \<noteq> []" "is_ident_start (hd w)"
    "list_all is_ident_char w" by (auto simp: leads_def)
  then obtain c w' where w: "w = c # w'" by (cases w) auto
  have "takeWhile is_ident_char (w' @ rest) = w'"
    using s(2,5) by (cases rest) (auto simp: w takeWhile_append word_head_def list_all_iff)
  with s w show ?thesis by auto
qed

lemma leadingKeyword_leads: "leads w s \<Longrightarrow> leadingKeyword s h = upper w"
  using leads_takeWhile [of w s] by (auto simp: leadingKeyword_def keyword_body_ident)

lemma leads_nonempty: "leads w s \<Longrightarrow> s \<noteq> [] \<and> trim_start s = s"
  using leads_takeWhile [of w s] ident_start_facts by (auto simp: trim_start_def)

lemma trim_idem [simp]: "trim (trim s) = trim s"
proof -
  define t where "t = dropWhile is_space (rev (dropWhile is_space s))"
  have r: "trim s = rev t" by (simp add: trim_def t_def)
  have "dropWhile is_space (rev t) = rev t"
  proof (cases "rev t")
    case (Cons a as)
    obtain us where us: "rev (dropWhile is_space s) = us @ t" unfolding t_def by (metis takeWhile_dropWhile_id)
    then have "dropWhile is_space s = rev t @ rev us" by (metis rev_append rev_rev_ident)
    with Cons have "dropWhile is_space s = a # (as @ rev us)" by simp
    then have "\<not> is_space a" by (simp add: dropWhile_eq_Cons_conv)
    with Cons show ?thesis by simp
  qed simp
  moreover have "dropWhile is_space t = t" by (simp add: t_def)
  ultimately show ?thesis unfolding r by (simp add: trim_def)
qed

lemma trim_leads_nonempty: "leads w (trim s) \<Longrightarrow> trim s \<noteq> []"
  using leads_nonempty by blast

lemma upper_ident: "is_alpha (upper_char c) \<Longrightarrow> is_ident_char c"
  by (auto simp: upper_char_def is_ident_char_def is_alpha_def split: if_splits)

lemma word_option_leads:
  assumes "leads w s" "word_option k s = Some r" "list_all is_alpha k"
  shows "upper w = k"
proof -
  from assms(2) have p: "upper (take (length k) s) = k" "skip_spaces1 (drop (length k) s) \<noteq> None"
    by (auto simp: word_option_def prefix_ci_def split: if_splits)
  from p(2) obtain c cs where d: "drop (length k) s = c # cs" "is_space c"
    by (auto simp: skip_spaces1_def split: list.splits if_splits)
  have "list_all is_ident_char (take (length k) s)"
    unfolding list_all_iff
  proof
    fix x assume "x \<in> set (take (length k) s)"
    then have "upper_char x \<in> set k" by (subst p(1) [symmetric]) (auto simp: upper_def)
    with assms(3) show "is_ident_char x" by (auto simp: list_all_iff intro: upper_ident)
  qed
  moreover have "s = take (length k) s @ c # cs" by (metis d(1) append_take_drop_id)
  moreover have "\<not> is_ident_char c" using d(2) by (auto simp: is_ident_char_def is_alpha_def is_digit_def is_space_def code_of_def)
  ultimately have "takeWhile is_ident_char s = take (length k) s"
    by (metis (no_types, lifting) list_all_iff takeWhile.simps(2) takeWhile_append2 append_Nil2)
  moreover obtain c' cs' where "s = c' # cs'" "is_ident_start c'" "c' # takeWhile is_ident_char cs' = w"
    using leads_takeWhile [OF assms(1)] by blast
  then have "takeWhile is_ident_char s = w" using ident_start_facts by simp
  ultimately show ?thesis using p(1) by simp
qed

lemma effective_leads:
  assumes "leads w (trim s)" "upper w \<noteq> ''EXPLAIN''" "upper w \<noteq> ''WITH''"
  shows "effectiveStatementKeyword (trim s) = upper w"
proof -
  have "word_option ''EXPLAIN'' (trim s) = None"
    using word_option_leads [OF assms(1), of "''EXPLAIN''"] assms(2)
    by (cases "word_option ''EXPLAIN'' (trim s)") (auto simp: is_alpha_def code_of_def)
  moreover have "trim s \<noteq> []" using leads_nonempty [OF assms(1)] by simp
  ultimately show ?thesis
    using leadingKeyword_leads [OF assms(1)] assms(3) by (simp add: effectiveStatementKeyword_def unwrap_explain_def)
qed



section \<open>A condition outside parentheses\<close>

fun depth_after :: "nat \<Rightarrow> jsstring \<Rightarrow> nat" where
  "depth_after d [] = d"
| "depth_after d (c # cs) =
     depth_after (if c = CHR ''('' then d + 1 else if c = CHR '')'' then d - 1 else d) cs"

definition word_before :: "bool \<Rightarrow> jsstring \<Rightarrow> bool" where
  "word_before prev xs = (if xs = [] then prev else is_ident_char (last xs))"

definition where_occurs :: "bool \<Rightarrow> nat \<Rightarrow> jsstring \<Rightarrow> bool" where
  "where_occurs prev d s \<longleftrightarrow> (\<exists>xs w ys. s = xs @ w @ ys \<and> upper w = ''WHERE'' \<and> \<not> word_before prev xs
     \<and> \<not> word_head ys \<and> depth_after d xs = 0)"

lemma where_at_iff: "where_at prev s \<longleftrightarrow> (\<exists>w ys. s = w @ ys \<and> upper w = ''WHERE'' \<and> \<not> prev \<and> \<not> word_head ys)"
proof
  assume "where_at prev s"
  then have "s = take 5 s @ drop 5 s \<and> upper (take 5 s) = ''WHERE'' \<and> \<not> prev \<and> \<not> word_head (drop 5 s)"
    by (simp add: where_at_def prefix_ci_def eval_nat_numeral)
  then show "\<exists>w ys. s = w @ ys \<and> upper w = ''WHERE'' \<and> \<not> prev \<and> \<not> word_head ys" by blast
next
  assume "\<exists>w ys. s = w @ ys \<and> upper w = ''WHERE'' \<and> \<not> prev \<and> \<not> word_head ys"
  then obtain w ys where s: "s = w @ ys" "upper w = ''WHERE''" "\<not> prev" "\<not> word_head ys" by blast
  have "length w = 5" using arg_cong [OF s(2), of length] by (simp add: upper_def)
  with s show "where_at prev s" by (simp add: where_at_def prefix_ci_def)
qed

lemma upper_WHERE:
  "upper w = ''WHERE'' \<Longrightarrow> length w = 5 \<and> list_all is_ident_char w \<and> CHR ''('' \<notin> set w \<and> CHR '')'' \<notin> set w"
proof -
  assume w: "upper w = ''WHERE''"
  have "\<And>c. c \<in> set w \<Longrightarrow> upper_char c \<in> set ''WHERE''" by (subst w [symmetric]) (auto simp: upper_def)
  moreover have "\<forall>x \<in> set ''WHERE''. is_alpha x" by (simp add: is_alpha_def code_of_def)
  ultimately have a: "\<And>c. c \<in> set w \<Longrightarrow> is_alpha (upper_char c)" by blast
  then have "list_all is_ident_char w" by (auto simp: list_all_iff intro: upper_ident)
  moreover have "\<not> is_ident_char (CHR ''('')" "\<not> is_ident_char (CHR '')'')"
    by (simp_all add: is_ident_char_def is_alpha_def is_digit_def code_of_def)
  ultimately show ?thesis using arg_cong [OF w, of length] by (auto simp: upper_def list_all_iff)
qed

lemma where_occurs_Cons:
  "where_occurs prev d (c # cs) \<longleftrightarrow> (where_at prev (c # cs) \<and> d = 0)
     \<or> where_occurs (is_ident_char c) (depth_after d [c]) cs" (is "?l \<longleftrightarrow> ?r")
proof
  assume ?l
  then obtain xs w ys where e: "c # cs = xs @ w @ ys" "upper w = ''WHERE''" "\<not> word_before prev xs"
    "\<not> word_head ys" "depth_after d xs = 0" by (auto simp: where_occurs_def)
  show ?r
  proof (cases xs)
    case Nil
    with e show ?thesis by (auto simp: where_at_iff word_before_def)
  next
    case (Cons x xs')
    with e have "cs = xs' @ w @ ys" "\<not> word_before (is_ident_char c) xs'" "depth_after (depth_after d [c]) xs' = 0"
      by (auto simp: word_before_def split: if_splits)
    with e(2,4) have "where_occurs (is_ident_char c) (depth_after d [c]) cs" unfolding where_occurs_def by blast
    then show ?thesis by blast
  qed
next
  assume r: ?r
  then consider "where_at prev (c # cs)" "d = 0" | "where_occurs (is_ident_char c) (depth_after d [c]) cs" by blast
  then show ?l
  proof cases
    case 1
    then obtain w ys where "c # cs = [] @ w @ ys" "upper w = ''WHERE''" "\<not> prev" "\<not> word_head ys"
      by (auto simp: where_at_iff)
    with 1 show ?thesis unfolding where_occurs_def word_before_def
      by (intro exI [of _ "[]"] exI [of _ w] exI [of _ ys]) simp
  next
    case 2
    then obtain xs w ys where e: "cs = xs @ w @ ys" "upper w = ''WHERE''" "\<not> word_before (is_ident_char c) xs"
      "\<not> word_head ys" "depth_after (depth_after d [c]) xs = 0" by (auto simp: where_occurs_def)
    then have "c # cs = (c # xs) @ w @ ys" "\<not> word_before prev (c # xs)" "depth_after d (c # xs) = 0"
      by (auto simp: word_before_def split: if_splits)
    with e show ?thesis unfolding where_occurs_def by blast
  qed
qed

text \<open>Inside a word the scan may jump over it: no match can start after a word character.\<close>

lemma where_occurs_word:
  "list_all is_ident_char w \<Longrightarrow> CHR ''('' \<notin> set w \<Longrightarrow> CHR '')'' \<notin> set w \<Longrightarrow> w \<noteq> [] \<Longrightarrow>
   where_occurs True d (w @ s) \<longleftrightarrow> where_occurs True d s"
proof (induction w)
  case (Cons c w)
  have n: "\<not> where_at True (c # w @ s)" by (simp add: where_at_def)
  from Cons.prems have c: "is_ident_char c" "depth_after d [c] = d" by auto
  show ?case
  proof (cases "w = []")
    case True
    with n c show ?thesis by (simp add: where_occurs_Cons)
  next
    case False
    with Cons n c show ?thesis by (simp add: where_occurs_Cons)
  qed
qed simp

lemma where_scan_iff: "where_scan prev d s \<longleftrightarrow> where_occurs prev d s"
proof (induction prev d s rule: where_scan.induct)
  case (1 prev depth)
  show ?case by (auto simp: where_occurs_def upper_def)
next
  case (2 prev depth c cs)
  have paren: "\<not> where_at prev (c # cs)" if "c = CHR ''('' \<or> c = CHR '')''"
  proof
    assume "where_at prev (c # cs)"
    then obtain w ys where w: "c # cs = w @ ys" "upper w = ''WHERE''" by (auto simp: where_at_iff)
    note u = upper_WHERE [OF w(2)]
    then have "w \<noteq> []" by auto
    with w(1) have "c \<in> set w" by (cases w) auto
    with u that show False by auto
  qed
  have nid: "\<not> is_ident_char (CHR ''('')" "\<not> is_ident_char (CHR '')'')"
    by (simp_all add: is_ident_char_def is_alpha_def is_digit_def code_of_def)
  show ?case
  proof (cases "c = CHR ''('' \<or> c = CHR '')''")
    case True
    with 2 paren nid show ?thesis by (auto simp: where_occurs_Cons)
  next
    case np: False
    show ?thesis
    proof (cases "where_at prev (c # cs)")
      case False
      with 2 np show ?thesis by (simp add: where_occurs_Cons)
    next
      case True
      then obtain w ys where w: "c # cs = w @ ys" "upper w = ''WHERE''" by (auto simp: where_at_iff)
      note u = upper_WHERE [OF w(2)]
      then obtain w' where w': "w = c # w'" using w(1) by (cases w) auto
      have l: "length w' = 4" using u w' by simp
      have cs: "cs = w' @ ys" using w(1) w' by simp
      have d: "drop 4 cs = ys" using l by (simp add: cs)
      have "where_occurs True depth cs = where_occurs True depth ys"
        unfolding cs by (rule where_occurs_word) (use u w' l in auto)
      moreover have "is_ident_char c" using u w' by simp
      ultimately show ?thesis using 2 np True d by (auto simp: where_occurs_Cons)
    qed
  qed
qed




section \<open>The statement at the cursor\<close>

lemma last_before_hit:
  "lo \<le> k \<Longrightarrow> k < i \<Longrightarrow> char_at s k = Some (CHR '';'') \<Longrightarrow> (\<And>j. k < j \<Longrightarrow> j < i \<Longrightarrow> char_at s j \<noteq> Some (CHR '';'')) \<Longrightarrow>
   last_before s lo i = Some k"
proof (induction s lo i rule: last_before.induct)
  case (2 s lo i)
  show ?case
  proof (cases "k = i")
    case True
    with 2 show ?thesis by simp
  next
    case False
    with 2 show ?thesis by simp
  qed
qed simp

lemma scan_while_hit:
  "p \<le> k \<Longrightarrow> k < lim \<Longrightarrow> \<not> test (char_at s k) \<Longrightarrow> (\<And>j. p \<le> j \<Longrightarrow> j < k \<Longrightarrow> test (char_at s j)) \<Longrightarrow>
   scan_while test s lim p = k"
  by (metis linorder_neqE_nat order.strict_trans scan_while_all scan_while_ge scan_while_stop)

text \<open>Property (statement_at_cursor): in a long text, with the next semicolon before and after the cursor at most
  2000 characters away, the extracted statement is the trimmed text between the two.\<close>

theorem statement_at_cursor:
  assumes "500 \<le> length (pre @ '';'' @ l @ r @ '';'' @ post)" "CHR '';'' \<notin> set l" "CHR '';'' \<notin> set r"
    and "length l < 2000" "length r < 2000"
  shows "getCurrentStatement (pre @ '';'' @ l @ r @ '';'' @ post) (length pre + 1 + length l) = trim (l @ r)"
proof -
  let ?t = "pre @ '';'' @ l @ r @ '';'' @ post"
  let ?p = "length pre" and ?a = "length l" and ?b = "length r"
  let ?o = "?p + 1 + ?a"
  have at: "char_at ?t (?p + 1 + j) = char_at (l @ r @ '';'' @ post) j" for j
    using char_at_append_right [of "pre @ '';''" "l @ r @ '';'' @ post" j] by simp
  have inner: "char_at ?t (?p + 1 + j) \<noteq> Some (CHR '';'')" if "j < ?a + ?b" for j
  proof -
    have "(l @ r) ! j \<in> set (l @ r)" using that by (intro nth_mem) simp
    then have "(l @ r) ! j \<noteq> CHR '';''" using assms(2,3) by auto
    with that show ?thesis unfolding at by (auto simp: char_at_def nth_append)
  qed
  have 1: "last_before ?t (?o - 2000) ?o = Some ?p"
  proof (rule last_before_hit)
    show "char_at ?t ?p = Some (CHR '';'')" by (simp add: char_at_def nth_append)
    fix j assume "?p < j" "j < ?o"
    then show "char_at ?t j \<noteq> Some (CHR '';'')" using inner [of "j - ?p - 1"] by simp
  qed (use assms(4) in auto)
  have 2: "scan_while (\<lambda>c. c \<noteq> Some (CHR '';'')) ?t (min (length ?t) (?o + 2000)) ?o = ?o + ?b"
  proof (rule scan_while_hit)
    show "\<not> char_at ?t (?o + ?b) \<noteq> Some (CHR '';'')"
      using at [of "?a + ?b"] char_at_append_right [of "l @ r" "'';'' @ post" 0] by (simp add: char_at_def add.assoc)
    fix j assume "?o \<le> j" "j < ?o + ?b"
    then show "char_at ?t j \<noteq> Some (CHR '';'')" using inner [of "j - ?p - 1"] by simp
  qed (use assms(5) in auto)
  have "slice ?t (?p + 1) (?o + ?b) = l @ r" by (simp add: slice_def)
  with 1 2 assms(1,5) show ?thesis by (simp add: getCurrentStatement_def Let_def not_less)
qed

lemma statement_at_cursor_witness:
  "getCurrentStatement (replicate 600 SP @ '';'' @ '' ab'' @ ''c '' @ '';'' @ ''x'') (length (replicate 600 SP) + 1 + length '' ab'')
   = trim ('' ab'' @ ''c '')"
  by (rule statement_at_cursor) simp_all

end
