(* ===== verification/ClipboardText.thy ===== *)
theory ClipboardText
  imports JsValue Complex_Main
begin

text \<open>
  Rows as delimited text: what the grid copies (\<open>utils/clipboard.ts\<close>, the CSV part) and how pasted text is
  read back (\<open>utils/clipboardParser.ts\<close>: the CSV and TSV readers, column names, row padding). The
  guess of the text's format and of the columns' types is left out. Each \<open>for\<close> loop over the characters is a
  recursion on the remaining text with the loop's variables as arguments.
\<close>

section \<open>Printing\<close>

text \<open>\<open>formatCellValue\<close> of \<open>utils/dataGrid.ts\<close> as the copy calls it, without a column type.\<close>

definition formatCellValue :: "jsval \<Rightarrow> jsstring \<Rightarrow> jsstring" where
  "formatCellValue v nullLabel =
     (case v of
        JUndefined \<Rightarrow> nullLabel
      | JNull \<Rightarrow> nullLabel
      | JBool b \<Rightarrow> if b then ''true'' else ''false''
      | JStr s \<Rightarrow> s
      | JNum m d \<Rightarrow> num_str m d
      | _ \<Rightarrow> (case stringify v of Some t \<Rightarrow> t | None \<Rightarrow> []))"

definition double_quotes :: "jsstring \<Rightarrow> jsstring" where
  "double_quotes t = concat (map (\<lambda>c. if c = DQ then [DQ, DQ] else [c]) t)"

definition csv_quoted :: "jsstring \<Rightarrow> jsstring \<Rightarrow> bool" where
  "csv_quoted t delimiter \<longleftrightarrow> sublist delimiter t \<or> DQ \<in> set t \<or> list_ex (\<lambda>c. c = CR \<or> c = NL) t"

definition csvField :: "jsstring \<Rightarrow> jsstring \<Rightarrow> jsstring" where
  "csvField t delimiter = (if csv_quoted t delimiter then [DQ] @ double_quotes t @ [DQ] else t)"

fun join_with :: "jsstring \<Rightarrow> jsstring list \<Rightarrow> jsstring" where
  "join_with d [] = []"
| "join_with d [x] = x"
| "join_with d (x # xs) = x @ d @ join_with d xs"

definition rowToCSV :: "jsval list \<Rightarrow> jsstring \<Rightarrow> jsstring \<Rightarrow> jsstring" where
  "rowToCSV row nullLabel delimiter =
     join_with delimiter (map (\<lambda>cell. csvField (formatCellValue cell nullLabel) delimiter) row)"

definition rowsToCSV :: "jsval list list \<Rightarrow> jsstring \<Rightarrow> jsstring \<Rightarrow> jsstring" where
  "rowsToCSV rows nullLabel delimiter = join_with [NL] (map (\<lambda>row. rowToCSV row nullLabel delimiter) rows)"

definition rowsToCSVWithHeaders :: "jsval list list \<Rightarrow> jsstring list \<Rightarrow> jsstring \<Rightarrow> jsstring \<Rightarrow> jsstring" where
  "rowsToCSVWithHeaders rows columns nullLabel delimiter =
     (let header = join_with delimiter (map (\<lambda>column. csvField column delimiter) columns);
          body = rowsToCSV rows nullLabel delimiter
      in if body \<noteq> [] then header @ [NL] @ body else header)"

section \<open>Reading CSV\<close>

definition next_is :: "char \<Rightarrow> jsstring \<Rightarrow> bool" where
  "next_is d s = (case s of c # _ \<Rightarrow> c = d | [] \<Rightarrow> False)"

text \<open>The first loop counts the separators of the first record outside quotes.\<close>

fun count_separators :: "bool \<Rightarrow> nat \<Rightarrow> nat \<Rightarrow> jsstring \<Rightarrow> nat \<times> nat" where
  "count_separators quoted commas semicolons [] = (commas, semicolons)"
| "count_separators quoted commas semicolons (ch # rest) =
     (if ch = DQ then
        (if quoted \<and> next_is DQ rest then count_separators quoted commas semicolons (tl rest)
         else count_separators (\<not> quoted) commas semicolons rest)
      else if \<not> quoted then
        (if ch = CR \<or> ch = NL then (commas, semicolons)
         else count_separators quoted (if ch = CHR '','' then commas + 1 else commas)
                (if ch = CHR '';'' then semicolons + 1 else semicolons) rest)
      else count_separators quoted commas semicolons rest)"

definition csv_separator :: "jsstring \<Rightarrow> char" where
  "csv_separator txt =
     (case count_separators False 0 0 txt of (commas, semicolons) \<Rightarrow>
        if semicolons > commas then CHR '';'' else CHR '','')"

fun csv_loop ::
  "char \<Rightarrow> jsstring list list \<Rightarrow> jsstring list \<Rightarrow> jsstring \<Rightarrow> bool \<Rightarrow> jsstring \<Rightarrow> jsstring list list" where
  "csv_loop separator rows cells current inQuotes [] = rows @ [cells @ [trim current]]"
| "csv_loop separator rows cells current inQuotes (ch # rest) =
     (if ch = DQ then
        (if inQuotes \<and> next_is DQ rest then csv_loop separator rows cells (current @ [DQ]) inQuotes (tl rest)
         else csv_loop separator rows cells current (\<not> inQuotes) rest)
      else if ch = separator \<and> \<not> inQuotes then
        csv_loop separator rows (cells @ [trim current]) [] inQuotes rest
      else if (ch = NL \<or> ch = CR) \<and> \<not> inQuotes then
        csv_loop separator (rows @ [cells @ [trim current]]) [] [] inQuotes
          (if ch = CR \<and> next_is NL rest then tl rest else rest)
      else csv_loop separator rows cells (current @ [ch]) inQuotes rest)"

definition parseCsv :: "jsstring \<Rightarrow> jsstring list list" where
  "parseCsv txt = csv_loop (csv_separator txt) [] [] [] False (trim txt)"

section \<open>Reading TSV\<close>

text \<open>What follows the opening quote of a field: the text of the quoted field and what comes after its
  closing quote.\<close>

fun readQuotedTsvField :: "jsstring \<Rightarrow> jsstring \<Rightarrow> (jsstring \<times> jsstring) option" where
  "readQuotedTsvField txt [] = None"
| "readQuotedTsvField txt (c # rest) =
     (if c \<noteq> DQ then readQuotedTsvField (txt @ [c]) rest
      else if next_is DQ rest then readQuotedTsvField (txt @ [DQ]) (tl rest)
      else if rest = [] \<or> next_is TAB rest \<or> next_is NL rest \<or> next_is CR rest then Some (txt, rest)
      else None)"

lemma readQuotedTsvField_shorter:
  "readQuotedTsvField t0 s = Some (t, r) \<Longrightarrow> length r < length s"
proof (induction t0 s rule: readQuotedTsvField.induct)
  case (2 t0 c rest)
  then show ?case by (cases rest) (auto simp: less_Suc_eq split: if_splits)
qed simp

function tsv_loop :: "jsstring list list \<Rightarrow> jsstring list \<Rightarrow> jsstring \<Rightarrow> jsstring \<Rightarrow> jsstring list list" where
  "tsv_loop rows cells current [] = rows @ [cells @ [trim current]]"
| "tsv_loop rows cells current (ch # rest) =
     (case (if ch = DQ \<and> current = [] then readQuotedTsvField [] rest else None) of
        Some (txt, rst') \<Rightarrow> tsv_loop rows cells txt rst'
      | None \<Rightarrow>
          (if ch = TAB then tsv_loop rows (cells @ [trim current]) [] rest
           else if ch = NL \<or> ch = CR then
             tsv_loop (rows @ [cells @ [trim current]]) [] []
               (if ch = CR \<and> next_is NL rest then tl rest else rest)
           else tsv_loop rows cells (current @ [ch]) rest))"
  by pat_completeness auto
termination
  by (relation "measure (\<lambda>(rows, cells, current, s). length s)")
     (auto split: if_splits dest!: readQuotedTsvField_shorter)

definition parseTsv :: "jsstring \<Rightarrow> jsstring list list" where
  "parseTsv txt = tsv_loop [] [] [] (trim txt)"

section \<open>Column names and rows\<close>

definition strip_underscores :: "jsstring \<Rightarrow> jsstring" where
  "strip_underscores s = rev (dropWhile (\<lambda>c. c = CHR ''_'') (rev (dropWhile (\<lambda>c. c = CHR ''_'') s)))"

fun collapse_underscores :: "jsstring \<Rightarrow> jsstring" where
  "collapse_underscores [] = []"
| "collapse_underscores (c # cs) =
     (if c = CHR ''_'' \<and> next_is (CHR ''_'') cs then collapse_underscores cs else c # collapse_underscores cs)"

definition sanitizeColumnName :: "jsstring \<Rightarrow> nat \<Rightarrow> jsstring" where
  "sanitizeColumnName name index =
     (let sanitized = lower (collapse_underscores (strip_underscores
            (map (\<lambda>c. if is_ident_char c then c else CHR ''_'') (trim name))))
      in if sanitized = [] then ''col_'' @ nat_str (index + 1) else sanitized)"

text \<open>\<open>seen\<close> is the code's map from names to counts, as the list of the names so far.\<close>

fun dedupe_loop :: "jsstring list \<Rightarrow> jsstring list \<Rightarrow> jsstring list" where
  "dedupe_loop seen [] = []"
| "dedupe_loop seen (name # names) =
     (let count = count_list seen name
      in (if count = 0 then name else name @ ''_'' @ nat_str count) # dedupe_loop (name # seen) names)"

definition deduplicateNames :: "jsstring list \<Rightarrow> jsstring list" where
  "deduplicateNames names = dedupe_loop [] names"

definition normalizeRows :: "jsstring list list \<Rightarrow> jsstring list list" where
  "normalizeRows rows =
     (if rows = [] then rows
      else (let maxCols = foldl (\<lambda>m row. max m (length row)) 0 rows
            in map (\<lambda>r. r @ replicate (maxCols - length r) []) rows))"

end
