(* ===== verification/ClipboardFacts.thy ===== *)
theory ClipboardFacts
  imports ClipboardText
begin

text \<open>
  What is copied as delimited text is read back: one contract for a reader of fields, met by the CSV loop
  for both separators and by the TSV loop, and the round trips that follow. Then the column names made from
  a pasted header.
\<close>

section \<open>Readers of delimited fields\<close>

text \<open>\<open>read rows cells s\<close> reads the rest \<open>s\<close> of the text at the start of a field, after the finished \<open>rows\<close> and
  the finished \<open>cells\<close> of the current row. The laws say how a printed field ends: at a separator, at a line
  break, at the end.\<close>

locale field_reader =
  fixes read :: "jsstring list list \<Rightarrow> jsstring list \<Rightarrow> jsstring \<Rightarrow> jsstring list list"
    and field :: "jsstring \<Rightarrow> jsstring" and d :: char
  assumes ends_at_separator: "read rows cells (field t @ d # rest) = read rows (cells @ [trim t]) rest"
    and ends_at_line: "read rows cells (field t @ NL # rest) = read (rows @ [cells @ [trim t]]) [] rest"
    and ends_at_end: "read rows cells (field t) = rows @ [cells @ [trim t]]"
begin

lemma read_row:
  "row \<noteq> [] \<Longrightarrow> read rows cells (join_with [d] (map field row)) = rows @ [cells @ map trim row]"
  "row \<noteq> [] \<Longrightarrow> read rows cells (join_with [d] (map field row) @ NL # rest) = read (rows @ [cells @ map trim row]) [] rest"
  by (induction row arbitrary: cells rule: induct_list012)
    (simp_all add: ends_at_separator ends_at_line ends_at_end)

lemma read_rows:
  "rs \<noteq> [] \<Longrightarrow> \<forall>r \<in> set rs. r \<noteq> [] \<Longrightarrow>
   read rows [] (join_with [NL] (map (\<lambda>r. join_with [d] (map field r)) rs)) = rows @ map (map trim) rs"
  by (induction rs arbitrary: rows rule: induct_list012) (simp_all add: read_row)

end

lemma next_is_simps [simp]: "next_is d [] = False" "next_is d (c # s) = (c = d)"
  by (simp_all add: next_is_def)

lemma sublist_single: "sublist [d] t \<longleftrightarrow> d \<in> set t"
  by (simp add: sublist_def in_set_conv_decomp)

lemma csv_quoted_char: "csv_quoted t [d] \<longleftrightarrow> (\<exists>c \<in> set t. c = d \<or> c = DQ \<or> c = CR \<or> c = NL)"
  unfolding csv_quoted_def sublist_single list_ex_iff by blast

lemma double_quotes_simps [simp]:
  "double_quotes [] = []" "double_quotes (c # t) = (if c = DQ then [DQ, DQ] else [c]) @ double_quotes t"
  by (simp_all add: double_quotes_def)

lemma csv_plain:
  "\<forall>c \<in> set t. c \<noteq> d \<and> c \<noteq> DQ \<and> c \<noteq> CR \<and> c \<noteq> NL \<Longrightarrow>
   csv_loop d rows cells cur False (t @ rest) = csv_loop d rows cells (cur @ t) False rest"
  by (induction t arbitrary: cur) auto

lemma csv_quoted_body:
  "\<not> next_is DQ rest \<Longrightarrow>
   csv_loop d rows cells cur True (double_quotes t @ DQ # rest) = csv_loop d rows cells (cur @ t) False rest"
  by (induction t arbitrary: cur) auto

lemma csv_field:
  "\<not> next_is DQ rest \<Longrightarrow>
   csv_loop d rows cells [] False (csvField t [d] @ rest) = csv_loop d rows cells t False rest"
  using csv_plain [of t d rows cells "[]" rest] csv_quoted_body [of rest d rows cells "[]" t]
  by (auto simp: csvField_def csv_quoted_char)

interpretation csv_comma: field_reader "\<lambda>rows cells. csv_loop (CHR '','') rows cells [] False" "\<lambda>t. csvField t '',''" "CHR '',''"
  by unfold_locales (use csv_field [where rest = "[]"] in \<open>simp_all add: csv_field\<close>)

interpretation csv_semicolon: field_reader "\<lambda>rows cells. csv_loop (CHR '';'') rows cells [] False" "\<lambda>t. csvField t '';''" "CHR '';''"
  by unfold_locales (use csv_field [where rest = "[]"] in \<open>simp_all add: csv_field\<close>)

lemma tsv_plain:
  "\<forall>c \<in> set t. c \<noteq> TAB \<and> c \<noteq> DQ \<and> c \<noteq> CR \<and> c \<noteq> NL \<Longrightarrow>
   tsv_loop rows cells cur (t @ rest) = tsv_loop rows cells (cur @ t) rest"
  by (induction t arbitrary: cur) auto

lemma tsv_quoted_body:
  "rest = [] \<or> next_is TAB rest \<or> next_is NL rest \<or> next_is CR rest \<Longrightarrow>
   readQuotedTsvField t0 (double_quotes t @ DQ # rest) = Some (t0 @ t, rest)"
proof (induction t arbitrary: t0)
  case Nil
  then show ?case by (cases rest) auto
qed auto

lemma tsv_field:
  "rest = [] \<or> next_is TAB rest \<or> next_is NL rest \<Longrightarrow>
   tsv_loop rows cells [] (csvField t [TAB] @ rest) = tsv_loop rows cells t rest"
  using tsv_plain [of t rows cells "[]" rest] tsv_quoted_body [of rest "[]" t]
  by (auto simp: csvField_def csv_quoted_char)

interpretation tsv: field_reader "\<lambda>rows cells. tsv_loop rows cells []" "\<lambda>t. csvField t [TAB]" TAB
  by unfold_locales (use tsv_field [where rest = "[]"] in \<open>simp_all add: tsv_field\<close>)

section \<open>The edges of the printed text\<close>

lemma csvField_edges:
  assumes "trim t = t" "csvField t d \<noteq> []"
  shows "\<not> is_space (hd (csvField t d)) \<and> \<not> is_space (last (csvField t d))"
proof -
  have "\<not> is_space DQ" by (simp add: is_space_def code_of_def)
  with trimmed_edges [OF assms(1)] assms(2) show ?thesis by (auto simp: csvField_def split: if_splits)
qed

lemma row_last:
  "row \<noteq> [] \<Longrightarrow> \<forall>t \<in> set row. trim t = t \<Longrightarrow> \<not> is_space d \<Longrightarrow>
   \<not> is_space (last (d # join_with [d] (map (\<lambda>t. csvField t [d]) row)))"
proof (induction row rule: induct_list012)
  case (2 x)
  then show ?case using csvField_edges [of x "[d]"] by auto
next
  case (3 x y ys)
  then have "\<not> is_space (last (d # join_with [d] (map (\<lambda>t. csvField t [d]) (y # ys))))" by auto
  then show ?case by simp
qed simp

lemma row_edges:
  assumes "2 \<le> length row" "\<forall>t \<in> set row. trim t = t" "\<not> is_space d"
  defines "s \<equiv> join_with [d] (map (\<lambda>t. csvField t [d]) row)"
  shows "s \<noteq> [] \<and> \<not> is_space (hd s) \<and> \<not> is_space (last s)"
proof -
  obtain x y ys where r: "row = x # y # ys" 
  proof -
    from assms(1) obtain x r' where "row = x # r'" by (cases row) auto
    with assms(1) that show ?thesis by (cases r') auto
  qed
  have s: "s = csvField x [d] @ d # join_with [d] (map (\<lambda>t. csvField t [d]) (y # ys))" by (simp add: s_def r)
  have "\<not> is_space (last s)" unfolding s using row_last [of "y # ys" d] assms(2,3) by (simp add: r)
  moreover have "\<not> is_space (hd s)"
    using csvField_edges [of x "[d]"] assms(2,3) unfolding s by (cases "csvField x [d]") (auto simp: r)
  ultimately show ?thesis by (simp add: s)
qed

lemma rows_edges:
  assumes "rs \<noteq> []" "\<forall>r \<in> set rs. r \<noteq> [] \<and> \<not> is_space (hd r) \<and> \<not> is_space (last r)"
  defines "s \<equiv> join_with [NL] rs"
  shows "s \<noteq> [] \<and> \<not> is_space (hd s) \<and> \<not> is_space (last s)"
  using assms(1,2) unfolding s_def by (induction rs rule: induct_list012) auto

section \<open>The separator of the first record\<close>

definition other :: "char \<Rightarrow> char" where
  "other d = (if d = CHR '','' then CHR '';'' else CHR '','')"

text \<open>Separators of the other kind that a printed record leaves outside quotes.\<close>

definition stray :: "char \<Rightarrow> jsstring list \<Rightarrow> nat" where
  "stray d row = sum_list (map (\<lambda>t. if csv_quoted t [d] then 0 else count_list t (other d)) row)"

lemma count_quoted_body:
  "\<not> next_is DQ rest \<Longrightarrow> count_separators True c s (double_quotes t @ DQ # rest) = count_separators False c s rest"
  by (induction t) auto

lemma count_plain:
  "\<forall>x \<in> set t. x \<noteq> DQ \<and> x \<noteq> CR \<and> x \<noteq> NL \<Longrightarrow>
   count_separators False c s (t @ rest)
     = count_separators False (c + count_list t (CHR '','')) (s + count_list t (CHR '';'')) rest"
  by (induction t arbitrary: c s) auto

lemma count_field:
  assumes "\<not> next_is DQ rest" "d = CHR '','' \<or> d = CHR '';''"
  shows "count_separators False c s (csvField t [d] @ rest)
    = (if d = CHR '','' then count_separators False c (s + stray d [t]) rest
       else count_separators False (c + stray d [t]) s rest)"
proof (cases "csv_quoted t [d]")
  case True
  with assms(1) count_quoted_body [of rest c s t] show ?thesis by (auto simp: csvField_def stray_def)
next
  case False
  then have "\<forall>x \<in> set t. x \<noteq> d \<and> x \<noteq> DQ \<and> x \<noteq> CR \<and> x \<noteq> NL" by (auto simp: csv_quoted_char)
  moreover from this have "d \<notin> set t" by blast
  then have "count_list t d = 0" by (simp add: count_list_0_iff)
  moreover have "csvField t [d] = t" "stray d [t] = count_list t (other d)"
    using False by (simp_all add: csvField_def stray_def)
  ultimately show ?thesis
    using count_plain [of t c s rest] assms(2) by (elim disjE) (simp_all add: other_def)
qed

lemma count_row:
  assumes "row \<noteq> []" "rest = [] \<or> next_is NL rest" "d = CHR '','' \<or> d = CHR '';''"
  shows "count_separators False c s (join_with [d] (map (\<lambda>t. csvField t [d]) row) @ rest)
    = (if d = CHR '','' then (c + (length row - 1), s + stray d row) else (c + stray d row, s + (length row - 1)))"
  using assms(1)
proof (induction row arbitrary: c s rule: induct_list012)
  case (2 x)
  have "\<not> next_is DQ rest" using assms(2) by (cases rest) auto
  moreover have "count_separators False c' s' rest = (c', s')" for c' s'
    using assms(2) by (cases rest) auto
  ultimately show ?case using count_field [of rest d c s x] assms(3) by simp
next
  case (3 x y ys)
  have d: "d \<noteq> DQ" "d \<noteq> CR" "d \<noteq> NL" using assms(3) by auto
  let ?r = "join_with [d] (map (\<lambda>t. csvField t [d]) (y # ys)) @ rest"
  have a: "stray d (x # y # ys) = stray d [x] + stray d (y # ys)" by (simp add: stray_def)
  have "count_separators False c s (join_with [d] (map (\<lambda>t. csvField t [d]) (x # y # ys)) @ rest)
      = count_separators False c s (csvField x [d] @ d # ?r)" by simp
  also have "\<dots> = (if d = CHR '','' then count_separators False c (s + stray d [x]) (d # ?r)
       else count_separators False (c + stray d [x]) s (d # ?r))"
    by (rule count_field) (use d assms(3) in auto)
  finally have e: "count_separators False c s (join_with [d] (map (\<lambda>t. csvField t [d]) (x # y # ys)) @ rest)
      = (if d = CHR '','' then count_separators False c (s + stray d [x]) (d # ?r)
         else count_separators False (c + stray d [x]) s (d # ?r))" .
  have l: "length (x # y # ys) - 1 = Suc (length (y # ys) - 1)" by simp
  show ?case
  proof (cases "d = CHR '',''")
    case True
    have "count_separators False c (s + stray d [x]) (d # ?r) = count_separators False (c + 1) (s + stray d [x]) ?r"
      by (simp add: True)
    then show ?thesis unfolding e l a using "3.IH"(2) [of "c + 1" "s + stray d [x]"] True by simp
  next
    case False
    with assms(3) have k: "d = CHR '';''" by simp
    have "count_separators False (c + stray d [x]) s (d # ?r) = count_separators False (c + stray d [x]) (s + 1) ?r"
      by (simp add: k)
    then show ?thesis unfolding e l a using "3.IH"(2) [of "c + stray d [x]" "s + 1"] False by simp
  qed
qed simp

lemma csv_separator_row:
  assumes "row \<noteq> []" "rest = [] \<or> next_is NL rest" "d = CHR '','' \<or> d = CHR '';''"
    "stray d row + (if d = CHR '';'' then 1 else 0) \<le> length row - 1"
  shows "csv_separator (join_with [d] (map (\<lambda>t. csvField t [d]) row) @ rest) = d"
  using count_row [OF assms(1-3), of 0 0] assms(3,4) by (auto simp: csv_separator_def)

section \<open>Round trips\<close>

definition texts :: "jsstring \<Rightarrow> jsval list list \<Rightarrow> jsstring list list" where
  "texts nullLabel rows = map (map (\<lambda>cell. formatCellValue cell nullLabel)) rows"

lemma rowsToCSV_texts:
  "rowsToCSV rows nullLabel d = join_with [NL] (map (\<lambda>r. join_with d (map (\<lambda>t. csvField t d) r)) (texts nullLabel rows))"
  by (simp add: rowsToCSV_def rowToCSV_def texts_def comp_def)

text \<open>Property (csv_roundtrip): rows of two or more columns copied as CSV with a comma or a semicolon are pasted back
  cell by cell, whatever quotes, separators and line breaks the cells hold, when no cell has blanks at its
  ends and the unquoted cells of the first row do not hold more separators of the other kind than the row
  has of its own.\<close>

theorem csv_roundtrip:
  assumes "d = CHR '','' \<or> d = CHR '';''" "rows \<noteq> []"
    and "\<forall>r \<in> set (texts nullLabel rows). 2 \<le> length r \<and> (\<forall>t \<in> set r. trim t = t)"
    and "stray d (hd (texts nullLabel rows)) + (if d = CHR '';'' then 1 else 0) \<le> length (hd rows) - 1"
  shows "parseCsv (rowsToCSV rows nullLabel [d]) = texts nullLabel rows"
proof -
  let ?ts = "texts nullLabel rows" and ?f = "\<lambda>r. join_with [d] (map (\<lambda>t. csvField t [d]) r)"
  let ?s = "rowsToCSV rows nullLabel [d]"
  have sp: "\<not> is_space d" using assms(1) by (auto simp: is_space_def code_of_def)
  have ne: "?ts \<noteq> []" "\<forall>r \<in> set ?ts. r \<noteq> []" using assms(2,3) by (auto simp: texts_def)
  have s: "?s = join_with [NL] (map ?f ?ts)" by (rule rowsToCSV_texts)
  have "trim ?s = ?s"
    using rows_edges [of "map ?f ?ts"] row_edges [OF _ _ sp] ne assms(3) by (intro trim_id) (auto simp: s)
  moreover have "csv_separator ?s = d"
  proof -
    obtain r rs where ts: "?ts = r # rs" using ne(1) by (cases ?ts) auto
    have l: "length r = length (hd rows)" using ts assms(2) by (cases rows) (auto simp: texts_def)
    define rest where "rest = (if rs = [] then [] else NL # join_with [NL] (map ?f rs))"
    have "?s = ?f r @ rest" unfolding s ts rest_def by (cases rs) simp_all
    moreover have "rest = [] \<or> next_is NL rest" by (simp add: rest_def)
    moreover have "r \<noteq> []" using ne(2) ts by simp
    ultimately show ?thesis using csv_separator_row [of r rest d] assms(1,4) l ts by simp
  qed
  moreover have "csv_loop d [] [] [] False ?s = map (map trim) ?ts"
    using assms(1) csv_comma.read_rows [OF ne, of "[]"] csv_semicolon.read_rows [OF ne, of "[]"] by (auto simp: s)
  moreover have "map (map trim) ?ts = ?ts" using assms(3) by (auto intro!: map_idI)
  ultimately show ?thesis by (simp add: parseCsv_def)
qed

lemma csv_roundtrip_witness:
  "parseCsv (rowsToCSV [[JStr ''a;b'', JNull], [JStr [CHR ''x'', DQ, CHR '',''], JBool True]] ''NULL'' '','')
     = [[''a;b'', ''NULL''], [[CHR ''x'', DQ, CHR '',''], ''true'']]"
proof -
  let ?rows = "[[JStr ''a;b'', JNull], [JStr [CHR ''x'', DQ, CHR '',''], JBool True]]"
  have t: "texts ''NULL'' ?rows = [[''a;b'', ''NULL''], [[CHR ''x'', DQ, CHR '',''], ''true'']]"
    by (simp add: texts_def formatCellValue_def)
  have "parseCsv (rowsToCSV ?rows ''NULL'' [CHR '','']) = texts ''NULL'' ?rows"
  proof (rule csv_roundtrip)
    show "\<forall>r \<in> set (texts ''NULL'' ?rows). 2 \<le> length r \<and> (\<forall>t \<in> set r. trim t = t)"
      unfolding t by (simp add: trim_def is_space_def code_of_def)
    show "stray (CHR '','') (hd (texts ''NULL'' ?rows)) + (if CHR '','' = CHR '';'' then 1 else 0) \<le> length (hd ?rows) - 1"
      unfolding t by (simp add: stray_def csv_quoted_char other_def)
  qed simp_all
  then show ?thesis by (simp add: t)
qed

text \<open>Property (tsv_roundtrip): rows copied with tabs are pasted back cell by cell when no cell has blanks at its
  ends and the first and the last cell are not empty: a spreadsheet's quoting is read as such.\<close>

theorem tsv_roundtrip:
  assumes "rows \<noteq> []" "\<forall>r \<in> set (texts nullLabel rows). r \<noteq> [] \<and> (\<forall>t \<in> set r. trim t = t)"
    and "hd (hd (texts nullLabel rows)) \<noteq> []" "last (last (texts nullLabel rows)) \<noteq> []"
  shows "parseTsv (rowsToCSV rows nullLabel [TAB]) = texts nullLabel rows"
proof -
  let ?ts = "texts nullLabel rows" and ?f = "\<lambda>r. join_with [TAB] (map (\<lambda>t. csvField t [TAB]) r)"
  let ?s = "rowsToCSV rows nullLabel [TAB]"
  have ne: "?ts \<noteq> []" "\<forall>r \<in> set ?ts. r \<noteq> []" using assms(1,2) by (auto simp: texts_def)
  have s: "?s = join_with [NL] (map ?f ?ts)" by (rule rowsToCSV_texts)
  have hd_join: "x \<noteq> [] \<Longrightarrow> join_with k (x # xs) \<noteq> [] \<and> hd (join_with k (x # xs)) = hd x" for k x xs
    by (cases xs) auto
  have last_join: "last xs \<noteq> [] \<Longrightarrow> xs \<noteq> [] \<Longrightarrow> join_with k xs \<noteq> [] \<and> last (join_with k xs) = last (last xs)" for k xs
    by (induction xs rule: induct_list012) (auto split: if_splits)
  have fne: "t \<noteq> [] \<Longrightarrow> csvField t k \<noteq> []" for t k by (simp add: csvField_def)
  obtain t r rs where ts: "?ts = (t # r) # rs" using ne by (cases ?ts; cases "hd ?ts") auto
  have t: "t \<noteq> []" "trim t = t" using assms(2,3) ts by auto
  have "hd ?s = hd (csvField t [TAB])" "?s \<noteq> []"
    using hd_join [where k = "[TAB]" and x = "csvField t [TAB]" and xs = "map (\<lambda>t. csvField t [TAB]) r"]
      hd_join [where x = "?f (t # r)" and k = "[NL]" and xs = "map ?f rs"] fne [OF t(1)] by (simp_all add: s ts)
  then have h: "\<not> is_space (hd ?s)" using csvField_edges [OF t(2) fne [OF t(1)], of "[TAB]"] by simp
  let ?u = "last (last ?ts)"
  have lne: "last ?ts \<noteq> []" using ne by simp
  have u: "trim ?u = ?u" using assms(2) last_in_set [OF ne(1)] last_in_set [OF lne] by blast
  have e: "last (map (\<lambda>t. csvField t [TAB]) (last ?ts)) = csvField ?u [TAB]" using lne by (simp add: last_map)
  have "?f (last ?ts) \<noteq> [] \<and> last (?f (last ?ts)) = last (csvField ?u [TAB])"
    using last_join [where xs = "map (\<lambda>t. csvField t [TAB]) (last ?ts)" and k = "[TAB]"] fne [OF assms(4)] lne by (simp add: e)
  then have "last ?s = last (csvField ?u [TAB])"
    using last_join [where xs = "map ?f ?ts" and k = "[NL]"] ne(1) by (simp add: s last_map)
  then have "\<not> is_space (last ?s)" using csvField_edges [OF u fne [OF assms(4)]] by simp
  with h \<open>?s \<noteq> []\<close> have "trim ?s = ?s" by (intro trim_id)
  moreover have "tsv_loop [] [] [] ?s = map (map trim) ?ts" using tsv.read_rows [OF ne, of "[]"] by (simp add: s)
  moreover have "map (map trim) ?ts = ?ts" using assms(2) by (auto intro!: map_idI)
  ultimately show ?thesis by (simp add: parseTsv_def)
qed

lemma tsv_roundtrip_witness:
  "parseTsv (rowsToCSV [[JStr [CHR ''a'', TAB, CHR ''b'']], [JStr [CHR ''5'', DQ]]] ''NULL'' [TAB])
     = [[[CHR ''a'', TAB, CHR ''b'']], [[CHR ''5'', DQ]]]"
proof -
  let ?rows = "[[JStr [CHR ''a'', TAB, CHR ''b'']], [JStr [CHR ''5'', DQ]]]"
  have t: "texts ''NULL'' ?rows = [[[CHR ''a'', TAB, CHR ''b'']], [[CHR ''5'', DQ]]]"
    by (simp add: texts_def formatCellValue_def)
  have "parseTsv (rowsToCSV ?rows ''NULL'' [TAB]) = texts ''NULL'' ?rows"
    by (rule tsv_roundtrip) (simp_all add: t trim_def is_space_def code_of_def)
  then show ?thesis by (simp add: t)
qed

section \<open>Column names\<close>

lemma length_dedupe_loop [simp]: "length (dedupe_loop seen ns) = length ns"
  by (induction seen ns rule: dedupe_loop.induct) (simp_all add: Let_def)

lemma dedupe_loop_nth:
  "i < length ns \<Longrightarrow> dedupe_loop seen ns ! i =
     (let k = count_list seen (ns ! i) + count_list (take i ns) (ns ! i)
      in if k = 0 then ns ! i else ns ! i @ ''_'' @ nat_str k)"
proof (induction seen ns arbitrary: i rule: dedupe_loop.induct)
  case (2 seen name names)
  show ?case
  proof (cases i)
    case (Suc j)
    with 2 have j: "j < length names" by simp
    from Suc "2.IH" [OF refl j] show ?thesis by (simp add: Let_def)
  qed (simp add: Let_def)
qed simp

text \<open>Property (repeated_names_differ): every column gets a name, the first column of a name keeps it, and no two
  columns that were given the same name end up with the same one.\<close>

theorem repeated_names_differ:
  "length (deduplicateNames names) = length names
   \<and> (\<forall>i < length names. names ! i \<notin> set (take i names) \<longrightarrow> deduplicateNames names ! i = names ! i)
   \<and> (\<forall>i j. i < j \<and> j < length names \<and> names ! i = names ! j \<longrightarrow>
        deduplicateNames names ! i \<noteq> deduplicateNames names ! j)"
proof (intro conjI allI impI)
  fix i assume "i < length names" "names ! i \<notin> set (take i names)"
  then show "deduplicateNames names ! i = names ! i"
    by (simp add: deduplicateNames_def dedupe_loop_nth count_list_0_iff)
next
  fix i j assume a: "i < j \<and> j < length names \<and> names ! i = names ! j"
  let ?c = "\<lambda>k. count_list (take k names) (names ! i)"
  have "take j names = take i names @ names ! i # take (j - Suc i) (drop (Suc i) names)"
    using a by (metis Cons_nth_drop_Suc Suc_diff_Suc add_diff_inverse_nat order.strict_trans not_less_iff_gr_or_eq
        take_Suc_Cons take_add)
  then have "?c i < ?c j" by simp
  then have "?c i \<noteq> ?c j" "?c j \<noteq> 0" by simp_all
  then show "deduplicateNames names ! i \<noteq> deduplicateNames names ! j"
    using a by (auto simp: deduplicateNames_def dedupe_loop_nth Let_def dest: nat_str_inj)
qed (simp add: deduplicateNames_def)

text \<open>Property (numbered_names_collide): two columns of different names can end up with the same one: the number
  added to a repeated name is not checked against the other names.\<close>

theorem numbered_names_collide:
  "deduplicateNames (map (\<lambda>(i, n). sanitizeColumnName n i) (enumerate 0 [''a'', ''a_1'', ''a'']))
     = [''a'', ''a_1'', ''a_1'']"
  by code_simp

end
