(* ===== verification/Identifiers.thy ===== *)
theory Identifiers
  imports SqlLiteral
begin

text \<open>
  Quoting of SQL identifiers (\<open>utils/identifiers.ts\<close>). A driver argument is the one of \<open>SqlLiteral\<close>: nothing, an
  id, a manifest with its id and capabilities, or bare capabilities.
\<close>

fun capabilitiesOf :: "DriverArg \<Rightarrow> DriverCapabilities option" where
  "capabilitiesOf ArgNone = None"
| "capabilitiesOf (ArgId _) = None"
| "capabilitiesOf (ArgManifest _ caps) = caps"
| "capabilitiesOf (ArgCaps caps) = Some caps"

fun driver_id :: "DriverArg \<Rightarrow> jsstring option" where
  "driver_id (ArgId i) = Some i"
| "driver_id (ArgManifest i _) = i"
| "driver_id _ = None"

definition getQuoteChar :: "DriverArg \<Rightarrow> jsstring" where
  "getQuoteChar driver =
     (case Option.bind (capabilitiesOf driver) identifier_quote of
        Some (c # cs) \<Rightarrow> c # cs
      | _ \<Rightarrow> (if driver_id driver = Some ''mysql'' \<or> driver_id driver = Some ''mariadb'' then [BTICK] else [DQ]))"

definition isPostgresDialect :: "DriverArg \<Rightarrow> bool" where
  "isPostgresDialect driver =
     (case capabilitiesOf driver of
        Some caps \<Rightarrow> or_else (sql_dialect caps) ''postgres'' = ''postgres''
      | None \<Rightarrow> driver = ArgId ''postgres'' \<or> driver = ArgId ''postgresql'')"

definition shouldQuoteIdentifiers :: "DriverArg \<Rightarrow> bool" where
  "shouldQuoteIdentifiers driver = isPostgresDialect driver"

definition isMysqlDialect :: "DriverArg \<Rightarrow> bool" where
  "isMysqlDialect driver =
     (case capabilitiesOf driver of
        Some caps \<Rightarrow> sql_dialect caps = Some ''mysql''
      | None \<Rightarrow> driver = ArgId ''mysql'')"

section \<open>Quoting\<close>

definition closing_quote :: "jsstring \<Rightarrow> jsstring" where
  "closing_quote quote = (if quote = ''['' then '']'' else quote)"

text \<open>\<open>replaceAll(close, close + close)\<close>; the callers never pass an empty quote.\<close>

definition quoteIdentifierWith :: "jsstring \<Rightarrow> jsstring \<Rightarrow> jsstring" where
  "quoteIdentifierWith identifier quote =
     (let close = closing_quote quote;
          escaped = replace_all (\<lambda>s. if prefix close s then Some (length close) else None) (close @ close) identifier
      in quote @ escaped @ close)"

definition quoteIdentifier :: "jsstring \<Rightarrow> DriverArg \<Rightarrow> jsstring" where
  "quoteIdentifier identifier driver = quoteIdentifierWith identifier (getQuoteChar driver)"

text \<open>The three regular expressions of names that need no quotes.\<close>

definition is_lower :: "char \<Rightarrow> bool" where
  "is_lower c \<longleftrightarrow> 97 \<le> code_of c \<and> code_of c \<le> 122"

definition is_upper :: "char \<Rightarrow> bool" where
  "is_upper c \<longleftrightarrow> 65 \<le> code_of c \<and> code_of c \<le> 90"

definition name_matches :: "(char \<Rightarrow> bool) \<Rightarrow> (char \<Rightarrow> bool) \<Rightarrow> jsstring \<Rightarrow> bool" where
  "name_matches first other s = (case s of [] \<Rightarrow> False | c # cs \<Rightarrow> first c \<and> list_all other cs)"

definition PG_SAFE_IDENTIFIER :: "jsstring \<Rightarrow> bool" where
  "PG_SAFE_IDENTIFIER = name_matches (\<lambda>c. is_lower c \<or> c = CHR ''_'')
     (\<lambda>c. is_lower c \<or> is_digit c \<or> c = CHR ''_'' \<or> c = CHR ''$'')"

definition PLAIN_SAFE_IDENTIFIER :: "jsstring \<Rightarrow> bool" where
  "PLAIN_SAFE_IDENTIFIER = name_matches is_ident_start is_ident_char"

definition ORACLE_SAFE_IDENTIFIER :: "jsstring \<Rightarrow> bool" where
  "ORACLE_SAFE_IDENTIFIER = name_matches is_upper
     (\<lambda>c. is_upper c \<or> is_digit c \<or> c = CHR ''_'' \<or> c = CHR ''$'' \<or> c = CHR ''#'')"

definition PG_RESERVED :: "jsstring list" where
  "PG_RESERVED = [''select'', ''from'', ''where'', ''table'', ''user'', ''order'', ''group'', ''join'', ''and'', ''or'', ''as'', ''in'', ''on'', ''by'', ''null'', ''true'', ''false'', ''default'', ''check'', ''column'', ''limit'', ''offset'']"

definition formatSqlIdentifier :: "jsstring \<Rightarrow> DriverArg \<Rightarrow> jsstring" where
  "formatSqlIdentifier identifier driver =
     (if \<not> shouldQuoteIdentifiers driver then identifier
      else if PG_SAFE_IDENTIFIER identifier \<and> identifier \<notin> set PG_RESERVED then identifier
      else quoteIdentifier identifier driver)"

section \<open>Reserved words\<close>

text \<open>\<open>list.trim().split(/\s+/)\<close>; a line break between two lines of the source's template is a blank here.\<close>

definition words :: "jsstring \<Rightarrow> jsstring list" where
  "words txt = filter (\<lambda>w. w \<noteq> []) (split_on SP txt)"

definition RESERVED_IN_POSTGRES :: "jsstring list" where
  "RESERVED_IN_POSTGRES = words (''all analyse analyze and any array as asc asymmetric authorization binary both case cast'' @ '' '' @
     ''check collate collation column concurrently constraint create cross current_catalog'' @ '' '' @
     ''current_date current_role current_schema current_time current_timestamp current_user'' @ '' '' @
     ''default deferrable desc distinct do else end except false fetch for foreign freeze from'' @ '' '' @
     ''full grant group having ilike in initially inner intersect into is isnull join lateral'' @ '' '' @
     ''leading left like limit localtime localtimestamp natural not notnull null offset on only'' @ '' '' @
     ''or order outer overlaps placing primary references returning right select session_user'' @ '' '' @
     ''similar some symmetric system_user table tablesample then to trailing true union unique'' @ '' '' @
     ''user using variadic verbose when where window with'')"

definition RESERVED_IN_SQLITE :: "jsstring list" where
  "RESERVED_IN_SQLITE = words (''add all alter and as autoincrement between case cast check collate commit constraint'' @ '' '' @
     ''create default deferrable delete distinct drop else escape except exists foreign from'' @ '' '' @
     ''group having if in index insert intersect into is isnull join limit not nothing notnull'' @ '' '' @
     ''null on or order primary raise references returning select set table then to transaction'' @ '' '' @
     ''union unique update using values when where'')"

definition RESERVED_IN_ORACLE :: "jsstring list" where
  "RESERVED_IN_ORACLE = words (''access add all alter and any as asc audit between by char check cluster column comment'' @ '' '' @
     ''compress connect create current date decimal default delete desc distinct drop else'' @ '' '' @
     ''exclusive exists file float for from grant group having identified immediate in'' @ '' '' @
     ''increment index initial insert integer intersect into is level like lock long maxextents'' @ '' '' @
     ''minus mlslabel mode modify noaudit nocompress not nowait null number of offline on'' @ '' '' @
     ''online option or order pctfree prior public raw rename resource revoke row rowid rownum'' @ '' '' @
     ''rows select session set share size smallint start successful synonym sysdate table then'' @ '' '' @
     ''to trigger uid union unique update user validate values varchar varchar2 view whenever'' @ '' '' @
     ''where with'')"

definition RESERVED_IN_MYSQL :: "jsstring list" where
  "RESERVED_IN_MYSQL = words (''accessible before call cascade change character condition cube cume_dist cursor database'' @ '' '' @
     ''databases delayed dense_rank describe div dual each empty exit explain first_value force'' @ '' '' @
     ''fulltext function generated get grouping groups ignore interval key keys kill lag'' @ '' '' @
     ''last_value lead leave linear lines load loop match mod nth_value ntile out over'' @ '' '' @
     ''partition percent_rank precision procedure purge range rank read reads recursive regexp'' @ '' '' @
     ''release repeat replace require restrict return rlike row_number schema sensitive'' @ '' '' @
     ''separator show signal spatial specific sql ssl starting stored system undo unlock usage'' @ '' '' @
     ''use virtual while write'')"

definition RESERVED_IN_MSSQL :: "jsstring list" where
  "RESERVED_IN_MSSQL = words (''backup begin break browse bulk checkpoint close clustered compute contains continue'' @ '' '' @
     ''cursor deny disk distributed dump exec execute exit external identity kill lineno load'' @ '' '' @
     ''merge national off open percent pivot plan print proc procedure replication restore'' @ '' '' @
     ''revert rollback rowcount rule save statistics top tran transaction truncate unpivot view'' @ '' '' @
     ''waitfor'')"

definition RESERVED_IDENTIFIERS :: "jsstring set" where
  "RESERVED_IDENTIFIERS = set (RESERVED_IN_POSTGRES @ RESERVED_IN_SQLITE @ RESERVED_IN_ORACLE
     @ RESERVED_IN_MYSQL @ RESERVED_IN_MSSQL)"

definition identifierNeedsQuoting :: "jsstring \<Rightarrow> DriverArg \<Rightarrow> bool" where
  "identifierNeedsQuoting identifier driver =
     (if identifier = [] then False
      else if lower identifier \<in> RESERVED_IDENTIFIERS then True
      else if isPostgresDialect driver then \<not> PG_SAFE_IDENTIFIER identifier
      else if Option.bind (capabilitiesOf driver) sql_dialect = Some ''oracle'' then \<not> ORACLE_SAFE_IDENTIFIER identifier
      else \<not> PLAIN_SAFE_IDENTIFIER identifier)"

definition quoteIdentifierIfNeeded :: "jsstring \<Rightarrow> DriverArg \<Rightarrow> jsstring" where
  "quoteIdentifierIfNeeded identifier driver =
     (if identifierNeedsQuoting identifier driver then quoteIdentifier identifier driver else identifier)"

definition quoteTableRef :: "jsstring \<Rightarrow> DriverArg \<Rightarrow> jsstring option \<Rightarrow> jsstring" where
  "quoteTableRef table driver schema =
     (case schema of
        Some (c # cs) \<Rightarrow> quoteIdentifier (c # cs) driver @ ''.'' @ quoteIdentifier table driver
      | _ \<Rightarrow> quoteIdentifier table driver)"

section \<open>Reading a name back\<close>

text \<open>How a server reads a quoted name whose opening quote is gone: up to the first closing quote that is not
  doubled. The rest of the text follows.\<close>

fun read_quoted :: "char \<Rightarrow> jsstring \<Rightarrow> (jsstring \<times> jsstring) option" where
  "read_quoted k [] = None"
| "read_quoted k [c] = (if c = k then Some ([], []) else None)"
| "read_quoted k (c # d # ds) =
     (if c \<noteq> k then map_option (\<lambda>(n, r). (c # n, r)) (read_quoted k (d # ds))
      else if d = k then map_option (\<lambda>(n, r). (k # n, r)) (read_quoted k ds)
      else Some ([], d # ds))"

text \<open>The case a server folds unquoted names to.\<close>

definition server_fold :: "DriverArg \<Rightarrow> jsstring \<Rightarrow> jsstring" where
  "server_fold driver =
     (if isPostgresDialect driver then lower
      else if Option.bind (capabilitiesOf driver) sql_dialect = Some ''oracle'' then upper
      else (\<lambda>n. n))"

definition read_name :: "DriverArg \<Rightarrow> jsstring \<Rightarrow> jsstring option" where
  "read_name driver txt =
     (case txt of
        [] \<Rightarrow> None
      | c # cs \<Rightarrow>
          (if [c] = getQuoteChar driver then
             (case read_quoted (hd (closing_quote [c])) cs of Some (n, []) \<Rightarrow> Some n | _ \<Rightarrow> None)
           else Some (server_fold driver txt)))"

definition double_char :: "char \<Rightarrow> jsstring \<Rightarrow> jsstring" where
  "double_char k s = concat (map (\<lambda>c. if c = k then [k, k] else [c]) s)"

lemma replace_all_single: "replace_all (\<lambda>s. if prefix [k] s then Some (length [k]) else None) [k, k] s = double_char k s"
  by (induction s) (simp_all add: double_char_def)

lemma closing_single: "\<exists>k. closing_quote [q] = [k]"
  by (simp add: closing_quote_def)

lemma quoteIdentifierWith_single:
  "closing_quote [q] = [k] \<Longrightarrow> quoteIdentifierWith name [q] = q # double_char k name @ [k]"
  using replace_all_single [of k name] by (simp add: quoteIdentifierWith_def Let_def)

lemma read_quoted_double:
  assumes "\<not> prefix [k] rest"
  shows "read_quoted k (double_char k name @ k # rest) = Some (name, rest)"
proof (induction name)
  case Nil
  then show ?case using assms by (cases rest) (auto simp: double_char_def)
next
  case (Cons c name)
  have "double_char k name @ k # rest \<noteq> []" by simp
  then obtain d ds where d: "double_char k name @ k # rest = d # ds" by (meson list.exhaust)
  show ?case
  proof (cases "c = k")
    case True
    with Cons show ?thesis by (simp add: double_char_def)
  next
    case False
    then have "double_char k (c # name) @ k # rest = c # d # ds" using d by (simp add: double_char_def)
    with False Cons d show ?thesis by simp
  qed
qed

text \<open>Property (quoted_name_reads_back): a name of any content, quoted, is read by a server as exactly that name,
  and nothing of it leaks into the text behind it.\<close>

theorem quoted_name_reads_back:
  assumes "getQuoteChar driver = [q]" "\<not> prefix (closing_quote [q]) rest"
  shows "\<exists>s. quoteIdentifier name driver @ rest = q # s
    \<and> read_quoted (hd (closing_quote [q])) s = Some (name, rest)"
proof -
  obtain k where k: "closing_quote [q] = [k]" using closing_single by blast
  have "quoteIdentifier name driver @ rest = q # (double_char k name @ k # rest)"
    by (simp add: quoteIdentifier_def assms(1) quoteIdentifierWith_single [OF k])
  with assms(2) k show ?thesis by (auto simp: read_quoted_double)
qed

lemma quoted_name_reads_back_witness:
  "\<exists>s. quoteIdentifier [CHR ''a'', BTICK, CHR '';''] (ArgId ''mysql'') @ '' x'' = BTICK # s
     \<and> read_quoted (hd (closing_quote [BTICK])) s = Some ([CHR ''a'', BTICK, CHR '';''], '' x'')"
  by (rule quoted_name_reads_back) (simp_all add: getQuoteChar_def closing_quote_def)

lemma lower_id: "(\<And>c. c \<in> set s \<Longrightarrow> \<not> is_upper c \<and> code_of c < 192) \<Longrightarrow> lower s = s"
  by (fastforce simp: lower_def lower_char_def Let_def is_upper_def intro!: map_idI)

lemma upper_id: "(\<And>c. c \<in> set s \<Longrightarrow> \<not> is_lower c) \<Longrightarrow> upper s = s"
  by (auto simp: upper_def upper_char_def is_lower_def intro!: map_idI)

lemma name_matches_set:
  "name_matches first oth s \<Longrightarrow> s \<noteq> [] \<and> first (hd s) \<and> (\<forall>c \<in> set s. first c \<or> oth c)"
  by (cases s) (auto simp: name_matches_def list_all_iff)

lemma unquoted_folds_to_itself:
  assumes "name \<noteq> []" "\<not> identifierNeedsQuoting name driver"
  shows "server_fold driver name = name \<and> is_ident_start (hd name) \<and> lower name \<notin> RESERVED_IDENTIFIERS"
proof -
  have r: "lower name \<notin> RESERVED_IDENTIFIERS" using assms by (auto simp: identifierNeedsQuoting_def split: if_splits)
  show ?thesis
  proof (cases "isPostgresDialect driver")
    case True
    with assms r have "PG_SAFE_IDENTIFIER name" by (simp add: identifierNeedsQuoting_def)
    from name_matches_set [OF this [unfolded PG_SAFE_IDENTIFIER_def]]
    have "is_ident_start (hd name)" "\<And>c. c \<in> set name \<Longrightarrow> \<not> is_upper c \<and> code_of c < 192"
      by (auto simp: is_ident_start_def is_alpha_def is_lower_def is_upper_def is_digit_def code_of_def)
    with r True show ?thesis by (simp add: server_fold_def lower_id)
  next
    case np: False
    show ?thesis
    proof (cases "Option.bind (capabilitiesOf driver) sql_dialect = Some ''oracle''")
      case True
      with np assms r have "ORACLE_SAFE_IDENTIFIER name" by (simp add: identifierNeedsQuoting_def)
      from name_matches_set [OF this [unfolded ORACLE_SAFE_IDENTIFIER_def]]
      have "is_ident_start (hd name)" "\<And>c. c \<in> set name \<Longrightarrow> \<not> is_lower c"
        by (auto simp: is_ident_start_def is_alpha_def is_lower_def is_upper_def is_digit_def code_of_def)
      with r np True show ?thesis by (simp add: server_fold_def upper_id)
    next
      case False
      with np assms r have "PLAIN_SAFE_IDENTIFIER name" by (simp add: identifierNeedsQuoting_def)
      from name_matches_set [OF this [unfolded PLAIN_SAFE_IDENTIFIER_def]] r np False
      show ?thesis by (simp add: server_fold_def)
    qed
  qed
qed



section \<open>The tokenizer reads a quoted name as one token\<close>

lemma scanQuoted_name:
  assumes "q_open r = [q]" "q_close r = [k]" "q_doubleClose r" "q_escape r = None" "\<not> prefix [k] rest"
  shows "scanQuoted (pre @ q # double_char k name @ k # rest) (length pre) r
     = Some (mkToken StringTok (length name + count_list name k + 2))"
proof -
  let ?us = "map (\<lambda>c. if c = k then [k, k] else [c]) name"
  have us: "list_all (body_unit k r) ?us" using assms(3,4) by (auto simp: list_all_iff body_unit_def)
  have l: "length (concat ?us) = length name + count_list name k" by (induction name) auto
  have d: "double_char k name = concat ?us" by (simp add: double_char_def)
  have s: "pre @ q # double_char k name @ k # rest = (pre @ [q]) @ concat ?us @ k # rest" by (simp add: d)
  have p: "length pre + length (q_open r) = length (pre @ [q])" using assms(1) by simp
  show ?thesis
    unfolding scanQuoted_def s p
    by (subst scanQuoted_loop_body [OF assms(2) _ us]) (use assms(4,5) l in simp_all)
qed

lemma preset_strings:
  "tripleQuotedStrings (options (presetSyntax dial)) = False" "stringPrefixes (options (presetSyntax dial)) = []"
proof -
  have "\<not> tripleQuotedStrings (options (presetSyntax dial)) \<and> stringPrefixes (options (presetSyntax dial)) = []"
  proof (cases "isDialect dial")
    case None
    then show ?thesis by (cases dial) (simp_all add: presetSyntax_def Let_def normalizeDialect_def option_defs)
  next
    case (Some d)
    then obtain n where "dial = Some n" by (cases dial) auto
    with Some show ?thesis
      by (cases d) (simp_all add: presetSyntax_def Let_def normalizeDialect_def option_defs)
  qed
  then show "tripleQuotedStrings (options (presetSyntax dial)) = False"
    "stringPrefixes (options (presetSyntax dial)) = []" by simp_all
qed

text \<open>Property (quoted_name_is_one_token): on every built-in dialect and in any script, a name quoted with a quote character
  that the dialect reads with doubled closing quotes is scanned as one token that ends where the quoted name
  ends.\<close>

theorem quoted_name_is_one_token:
  assumes "q \<in> {DQ, BTICK, CHR ''[''}" "find (\<lambda>r. q_open r = [q]) (quotes (options (presetSyntax dial))) = Some r"
    and "q_close r = closing_quote [q]" "q_doubleClose r" "q_escape r = None"
    and "\<not> prefix (closing_quote [q]) rest" "\<not> prefix [q] (delimiter state)"
  shows "scanToken (pre @ quoteIdentifierWith name [q] @ rest) (length pre) (options (presetSyntax dial)) state
    = Some (Some (mkToken StringTok (length (quoteIdentifierWith name [q]))))"
proof -
  let ?o = "options (presetSyntax dial)"
  obtain k where k: "closing_quote [q] = [k]" using closing_single by blast
  let ?s = "pre @ q # double_char k name @ k # rest"
  have e: "quoteIdentifierWith name [q] = q # double_char k name @ [k]" by (rule quoteIdentifierWith_single [OF k])
  have s: "pre @ quoteIdentifierWith name [q] @ rest = ?s" by (simp add: e)
  have l: "length (quoteIdentifierWith name [q]) = length name + count_list name k + 2"
    by (simp add: e double_char_def) (induction name, auto)
  have o: "q_open r = [q]" using assms(2) by (auto simp: find_Some_iff)
  have lo: "list_all (\<lambda>r. length (q_open r) = 1) (quotes ?o)"
    using presets_readable [of dial] by (simp add: literals_readable_def)
  have f: "find (\<lambda>rule. starts_at ?s (q_open rule) (length pre)) (quotes ?o) = Some r"
    unfolding assms(2) [symmetric] by (rule find_open_quote [OF lo])
  have d: "\<not> (length (delimiter state) > 0 \<and> starts_at ?s (delimiter state) (length pre))"
    using assms(7) by (cases "delimiter state") (auto simp: starts_at_def)
  have c: "?s ! length pre = q" "\<not> length ?s \<le> length pre" by simp_all
  have cm: "scanComment ?s (length pre) ?o = None" using assms(1) by (auto simp: scanComment_def char_at_def)
  have sq: "scanQuoted ?s (length pre) r = Some (mkToken StringTok (length name + count_list name k + 2))"
    by (rule scanQuoted_name [OF o _ assms(4,5)]) (use assms(3,6) k in simp_all)
  show ?thesis
    unfolding s l scanToken_def Let_def c(1) cm f if_not_P [OF d] if_not_P [OF c(2)]
    using assms(1) sq by (auto simp: preset_strings)
qed

lemma quoted_name_is_one_token_witness:
  "scanToken (''SELECT '' @ quoteIdentifierWith [CHR ''a'', BTICK, CHR '';''] [BTICK] @ '';'') (length ''SELECT '')
     (options (presetSyntax (Some ''mysql''))) \<lparr>delimiter = '';'', lineLeading = False\<rparr>
   = Some (Some (mkToken StringTok (length (quoteIdentifierWith [CHR ''a'', BTICK, CHR '';''] [BTICK]))))"
proof (rule quoted_name_is_one_token)
  let ?r = "\<lparr>q_open = [BTICK], q_close = [BTICK], q_escape = None, q_doubleClose = True, q_kind = QIdentifier\<rparr>"
  show "find (\<lambda>r. q_open r = [BTICK]) (quotes (options (presetSyntax (Some ''mysql'')))) = Some ?r" by code_simp
qed (simp_all add: closing_quote_def)

end
