(* ===== verification/SqlCopy.thy ===== *)
theory SqlCopy
  imports Identifiers ClipboardText GridCells Splitter
begin

text \<open>
  Copying rows as SQL, JSON, HTML and Markdown (\<open>utils/clipboard.ts\<close>, the rest of the file without the
  clipboard call itself, and \<open>utils/escape.ts\<close>). \<open>ArgNone\<close> is the missing driver. A cell past the end of its row is \<open>undefined\<close>.
\<close>

section \<open>Objects built by assignment\<close>

text \<open>Keys that are array indices are enumerated first, in ascending order.\<close>

definition digits_value :: "jsstring \<Rightarrow> nat" where
  "digits_value s = foldl (\<lambda>n c. 10 * n + (code_of c - 48)) 0 s"

definition is_index_key :: "jsstring \<Rightarrow> bool" where
  "is_index_key k \<longleftrightarrow> k \<noteq> [] \<and> list_all is_digit k \<and> (length k > 1 \<longrightarrow> hd k \<noteq> CHR ''0'') \<and> digits_value k < 4294967295"

definition js_object :: "(jsstring \<times> jsval) list \<Rightarrow> jsval" where
  "js_object assignments =
     (let kvs = foldl set_prop [] assignments
      in JObj (sort_key (digits_value \<circ> fst) (filter (is_index_key \<circ> fst) kvs) @ filter (\<lambda>kv. \<not> is_index_key (fst kv)) kvs))"

definition nth_cell :: "jsval list \<Rightarrow> nat \<Rightarrow> jsval" where
  "nth_cell row i = (if i < length row then row ! i else JUndefined)"

section \<open>JSON and Markdown\<close>

definition row_object :: "jsval list \<Rightarrow> jsstring list \<Rightarrow> jsval" where
  "row_object row columns =
     js_object (map (\<lambda>(i, col). (col, if nth_cell row i = JUndefined then JNull else nth_cell row i)) (enumerate 0 columns))"

definition to_json :: "jsval \<Rightarrow> jsstring" where
  "to_json v = (case stringify v of Some t \<Rightarrow> t | None \<Rightarrow> [])"

definition rowToJSON :: "jsval list \<Rightarrow> jsstring list \<Rightarrow> jsstring" where
  "rowToJSON row columns = to_json (row_object row columns)"

definition rowsToJSON :: "jsval list list \<Rightarrow> jsstring list \<Rightarrow> jsstring" where
  "rowsToJSON rows columns = to_json (JArr (map (\<lambda>row. row_object row columns) rows))"

definition columnNamesAsLines :: "jsstring list \<Rightarrow> jsstring" where
  "columnNamesAsLines columns = join_with [NL] columns"

definition columnNamesAsJson :: "jsstring list \<Rightarrow> jsstring" where
  "columnNamesAsJson columns = to_json (JArr (map JStr columns))"

definition line_break :: "jsstring \<Rightarrow> nat option" where
  "line_break s = (if prefix [CR, NL] s then Some 2 else if prefix [NL] s then Some 1 else None)"

definition markdownCell :: "jsval \<Rightarrow> jsstring \<Rightarrow> jsstring" where
  "markdownCell cell nullLabel =
     replace_all line_break ''<br>''
       (concat (map (\<lambda>c. if c = CHR ''|'' then [BSL, CHR ''|''] else [c]) (formatCellValue cell nullLabel)))"

definition rowsToMarkdown :: "jsval list list \<Rightarrow> jsstring list \<Rightarrow> jsstring \<Rightarrow> bool \<Rightarrow> jsstring" where
  "rowsToMarkdown rows columns nullLabel includeHeaders =
     (let body = map (\<lambda>row. ''| '' @ join_with '' | '' (map (\<lambda>cell. markdownCell cell nullLabel) row) @ '' |'') rows;
          header = ''| '' @ join_with '' | '' (map (\<lambda>c. markdownCell (JStr c) ''null'') columns) @ '' |'';
          sep = ''| '' @ join_with '' | '' (map (\<lambda>_. ''---'') columns) @ '' |''
      in if \<not> includeHeaders then join_with [NL] body else join_with [NL] (header # sep # body))"

section \<open>HTML\<close>

definition escapeHtml :: "jsstring \<Rightarrow> jsstring" where
  "escapeHtml v =
     replace_char SQ ''&#39;'' (replace_char DQ ''&quot;'' (replace_char (CHR ''>'') ''&gt;''
       (replace_char (CHR ''<'') ''&lt;'' (replace_char (CHR ''&'') ''&amp;'' v))))"

definition escapeRegExp :: "jsstring \<Rightarrow> jsstring" where
  "escapeRegExp v = concat (map (\<lambda>c. if c \<in> set (''.*+?^${}()|[]'' @ [BSL]) then [BSL, c] else [c]) v)"

definition htmlCell :: "jsval \<Rightarrow> jsstring \<Rightarrow> jsstring" where
  "htmlCell cell nullLabel = replace_all line_break ''<br>'' (escapeHtml (formatCellValue cell nullLabel))"

definition rowsToHtmlTable :: "jsval list list \<Rightarrow> jsstring list \<Rightarrow> jsstring \<Rightarrow> jsstring" where
  "rowsToHtmlTable rows columns nullLabel =
     (let header = concat (map (\<lambda>c. ''<th>'' @ escapeHtml c @ ''</th>'') columns);
          body = concat (map (\<lambda>row. ''<tr>'' @ concat (map (\<lambda>cell. ''<td>'' @ htmlCell cell nullLabel @ ''</td>'') row) @ ''</tr>'') rows)
      in ''<table><thead><tr>'' @ header @ ''</tr></thead><tbody>'' @ body @ ''</tbody></table>'')"

section \<open>SQL values and statements\<close>

definition sqlValue :: "(nat \<Rightarrow> SqlSyntaxDescriptor) \<Rightarrow> jsval \<Rightarrow> DriverArg \<Rightarrow> jsstring" where
  "sqlValue objs cell driver =
     (case cell of
        JNull \<Rightarrow> ''NULL''
      | JUndefined \<Rightarrow> ''NULL''
      | JBool b \<Rightarrow> sqlBooleanLiteral objs b driver
      | JNum m d \<Rightarrow> num_str m d
      | _ \<Rightarrow>
          (let str = (case cell of JStr s \<Rightarrow> s | _ \<Rightarrow> to_json cell) in
           if stringEscapeStyle objs driver None = SE_backslash then quoteSqlString objs str driver
           else [SQ] @ replace_char SQ [SQ, SQ] str @ [SQ]))"

definition driver_given :: "DriverArg \<Rightarrow> bool" where
  "driver_given driver \<longleftrightarrow> driver \<noteq> ArgNone \<and> driver \<noteq> ArgId []"

definition quoteName :: "jsstring \<Rightarrow> DriverArg \<Rightarrow> jsstring" where
  "quoteName name driver = (if driver_given driver then quoteIdentifier name driver else [BTICK] @ name @ [BTICK])"

definition rowToSqlInsert ::
  "(nat \<Rightarrow> SqlSyntaxDescriptor) \<Rightarrow> jsval list \<Rightarrow> jsstring list \<Rightarrow> jsstring \<Rightarrow> DriverArg \<Rightarrow> jsstring" where
  "rowToSqlInsert objs row columns tableName driver =
     (let cols = join_with '', '' (map (\<lambda>c. quoteName c driver) columns);
          vals = join_with '', '' (map (\<lambda>cell. sqlValue objs cell driver) row)
      in ''INSERT INTO '' @ quoteName tableName driver @ '' ('' @ cols @ '') VALUES ('' @ vals @ '');'')"

definition rowsToSqlInsert ::
  "(nat \<Rightarrow> SqlSyntaxDescriptor) \<Rightarrow> jsval list list \<Rightarrow> jsstring list \<Rightarrow> jsstring \<Rightarrow> DriverArg \<Rightarrow> jsstring" where
  "rowsToSqlInsert objs rows columns tableName driver =
     join_with [NL] (map (\<lambda>row. rowToSqlInsert objs row columns tableName driver) rows)"

text \<open>\<open>columns.indexOf(pk)\<close> for a key column; the model reads an absent one as \<open>undefined\<close>.\<close>

definition value_of :: "jsval list \<Rightarrow> jsstring list \<Rightarrow> jsstring \<Rightarrow> jsval" where
  "value_of row columns pk = (case find_pos (\<lambda>c. c = pk) columns of Some i \<Rightarrow> nth_cell row i | None \<Rightarrow> JUndefined)"

definition set_columns :: "jsval list \<Rightarrow> jsstring list \<Rightarrow> jsstring list \<Rightarrow> (jsstring \<times> jsval) list" where
  "set_columns row columns pkColumns =
     filter (\<lambda>(column, v). column \<notin> set pkColumns) (map (\<lambda>(i, column). (column, nth_cell row i)) (enumerate 0 columns))"

definition rowToSqlUpdate ::
  "(nat \<Rightarrow> SqlSyntaxDescriptor) \<Rightarrow> jsval list \<Rightarrow> jsstring list \<Rightarrow> jsstring \<Rightarrow> jsstring list \<Rightarrow> DriverArg \<Rightarrow> jsstring" where
  "rowToSqlUpdate objs row columns tableName pkColumns driver =
     (let assignments = map (\<lambda>(column, v). quoteName column driver @ '' = '' @ sqlValue objs v driver) (set_columns row columns pkColumns);
          conditions = map (\<lambda>pk. quoteName pk driver @ '' = '' @ sqlValue objs (value_of row columns pk) driver) pkColumns
      in ''UPDATE '' @ quoteName tableName driver @ '' SET '' @ join_with '', '' assignments
         @ '' WHERE '' @ join_with '' AND '' conditions @ '';'')"

definition rowsToSqlUpdate ::
  "(nat \<Rightarrow> SqlSyntaxDescriptor) \<Rightarrow> jsval list list \<Rightarrow> jsstring list \<Rightarrow> jsstring \<Rightarrow> jsstring list \<Rightarrow> DriverArg \<Rightarrow> jsstring" where
  "rowsToSqlUpdate objs rows columns tableName pkColumns driver =
     join_with [NL] (map (\<lambda>row. rowToSqlUpdate objs row columns tableName pkColumns driver) rows)"

datatype SqlUpdateBlocker = NoKey | KeyNotInResult | OnlyKeyColumns | RowWithoutKeyValue

fun is_nullish :: "jsval \<Rightarrow> bool" where
  "is_nullish JNull = True"
| "is_nullish JUndefined = True"
| "is_nullish _ = False"

definition sqlUpdateBlocker ::
  "jsstring list \<Rightarrow> jsstring list option \<Rightarrow> jsval list list option \<Rightarrow> SqlUpdateBlocker option" where
  "sqlUpdateBlocker columns pkColumns rows =
     (case pkColumns of
        None \<Rightarrow> Some NoKey
      | Some pks \<Rightarrow>
          (if length pks = 0 then Some NoKey
           else if \<not> list_all (\<lambda>pk. pk \<in> set columns) pks then Some KeyNotInResult
           else if list_all (\<lambda>column. column \<in> set pks) columns then Some OnlyKeyColumns
           else if (case rows of None \<Rightarrow> False
                    | Some rs \<Rightarrow> list_ex (\<lambda>row. list_ex (\<lambda>pk. is_nullish (value_of row columns pk)) pks) rs)
                then Some RowWithoutKeyValue
           else None))"

section \<open>The copy formats\<close>

datatype CopyFormat = CFcsv | CFjson | CFinsert | CFupdate | CFmarkdown

record CopyOptions =
  withHeaders :: bool
  csvIncludeHeaders :: bool
  csvDelimiter :: jsstring
  tableName :: "jsstring option"
  copy_driver :: DriverArg
  nullLabel :: jsstring
  pkColumns :: "jsstring list option"

definition formatRowsForCopy ::
  "(nat \<Rightarrow> SqlSyntaxDescriptor) \<Rightarrow> jsval list list \<Rightarrow> jsstring list \<Rightarrow> CopyFormat \<Rightarrow> CopyOptions \<Rightarrow> jsstring" where
  "formatRowsForCopy objs rows columns copyFormat opts =
     (let table = (case tableName opts of Some t \<Rightarrow> t | None \<Rightarrow> ''table'') in
      if copyFormat = CFjson then rowsToJSON rows columns
      else if copyFormat = CFupdate \<and> pkColumns opts \<noteq> None \<and> sqlUpdateBlocker columns (pkColumns opts) (Some rows) = None
        then rowsToSqlUpdate objs rows columns table (the (pkColumns opts)) (copy_driver opts)
      else if copyFormat = CFinsert \<or> copyFormat = CFupdate then rowsToSqlInsert objs rows columns table (copy_driver opts)
      else if copyFormat = CFmarkdown then rowsToMarkdown rows columns (nullLabel opts) (withHeaders opts \<and> csvIncludeHeaders opts)
      else if withHeaders opts \<and> csvIncludeHeaders opts
        then rowsToCSVWithHeaders rows columns (nullLabel opts) (csvDelimiter opts)
      else rowsToCSV rows (nullLabel opts) (csvDelimiter opts))"

text \<open>An \<open>includeHeader\<close> left out takes the default of the format: headers in Markdown, none in CSV.\<close>

definition columnValuesForCopy ::
  "(nat \<Rightarrow> SqlSyntaxDescriptor) \<Rightarrow> jsval list list \<Rightarrow> jsstring list \<Rightarrow> nat \<Rightarrow> CopyFormat \<Rightarrow> jsstring \<Rightarrow> bool option \<Rightarrow> jsstring option
   \<Rightarrow> DriverArg \<Rightarrow> jsstring \<Rightarrow> jsstring" where
  "columnValuesForCopy objs rows columns colIdx format delim includeHeader table driver nullLab =
     (if colIdx \<ge> length columns then []
      else
        (let projectedRows = map (\<lambda>row. [nth_cell row colIdx]) rows; projectedColumns = [columns ! colIdx] in
         if format = CFjson then rowsToJSON projectedRows projectedColumns
         else if format = CFinsert \<or> format = CFupdate then
           rowsToSqlInsert objs projectedRows projectedColumns (case table of Some t \<Rightarrow> t | None \<Rightarrow> ''table'') driver
         else if format = CFmarkdown then rowsToMarkdown projectedRows projectedColumns nullLab (includeHeader \<noteq> Some False)
         else if includeHeader = Some True then rowsToCSVWithHeaders projectedRows projectedColumns nullLab delim
         else rowsToCSV projectedRows nullLab delim))"

definition columnValuesToInClause ::
  "(nat \<Rightarrow> SqlSyntaxDescriptor) \<Rightarrow> jsval list list \<Rightarrow> nat \<Rightarrow> DriverArg \<Rightarrow> jsstring" where
  "columnValuesToInClause objs rows colIdx driver =
     join_with '', '' (map (\<lambda>row. sqlValue objs (nth_cell row colIdx) driver) rows)"

definition getSelectedRows :: "'a list \<Rightarrow> nat set \<Rightarrow> 'a option list" where
  "getSelectedRows rows selectedIndices =
     map (\<lambda>i. if i < length rows then Some (rows ! i) else None) (sorted_list_of_set selectedIndices)"

section \<open>What the copied SQL means\<close>

lemma sqlValue_string:
  assumes "stringEscapeStyle objs driver None \<noteq> SE_mysql"
  shows "sqlValue objs (JStr s) driver = quoteSqlStringWithStyle s (stringEscapeStyle objs driver None)"
  using assms by (cases "stringEscapeStyle objs driver None")
    (auto simp: sqlValue_def quoteSqlString_def quoteSqlStringWithStyle_def)

text \<open>Property (copied_text_is_one_literal): a text cell copied as SQL for a plugin driver whose syntax is declared
  consistently and does not escape in the MySQL way is scanned back, in any script, as exactly one string
  literal.\<close>

theorem copied_text_is_one_literal:
  assumes "capsDeclared (Some caps)" "stringEscape (syntaxOf objs (Caps caps)) \<noteq> SE_mysql"
    and "literals_declared (syntaxOf objs (Caps caps))"
    and "\<not> prefix [SQ] rest" "\<not> prefix [SQ] (delimiter state)"
  shows "scanToken (pre @ sqlValue objs (JStr s) (ArgCaps caps) @ rest) (length pre)
       (options (syntaxOf objs (Caps caps))) state
     = Some (Some (mkToken StringTok (length (sqlValue objs (JStr s) (ArgCaps caps)))))"
proof -
  have e: "stringEscapeStyle objs (ArgCaps caps) None = stringEscape (syntaxOf objs (Caps caps))"
    using assms(1) by (simp add: stringEscapeStyle_def)
  have v: "sqlValue objs (JStr s) (ArgCaps caps) = quoteSqlStringWithStyle s (stringEscape (syntaxOf objs (Caps caps)))"
    using sqlValue_string [of objs "ArgCaps caps" s] assms(2) e by simp
  have "literals_readable (options (syntaxOf objs (Caps caps))) (stringEscape (syntaxOf objs (Caps caps)))"
    using assms(3) lexable_syntaxOf [of objs "Caps caps"]
    by (simp add: literals_declared_def literals_readable_def lexable_def)
  from scanToken_literal [OF this assms(4,5)] show ?thesis by (simp add: v)
qed

lemma copied_text_is_one_literal_witness:
  "let c = \<lparr>sql_dialect = None, sql_syntax = SynObject 0, identifier_quote = None\<rparr> in
   scanToken (''VALUES ('' @ sqlValue (\<lambda>_. googlesql) (JStr [SQ, BSL]) (ArgCaps c) @ '');'') (length ''VALUES ('')
     (options (syntaxOf (\<lambda>_. googlesql) (Caps c))) \<lparr>delimiter = '';'', lineLeading = False\<rparr>
   = Some (Some (mkToken StringTok (length (sqlValue (\<lambda>_. googlesql) (JStr [SQ, BSL]) (ArgCaps c)))))"
  unfolding Let_def
proof (rule copied_text_is_one_literal)
  let ?c = "\<lparr>sql_dialect = None, sql_syntax = SynObject 0, identifier_quote = None\<rparr>"
  show "capsDeclared (Some ?c)" by (simp add: capsDeclared_def)
  show "literals_declared (syntaxOf (\<lambda>_. googlesql) (Caps ?c))" by code_simp
  show "stringEscape (syntaxOf (\<lambda>_. googlesql) (Caps ?c)) \<noteq> SE_mysql" by code_simp
qed simp_all

text \<open>Property (mysql_copy_is_not_one_literal): on MySQL a copied text that ends in a backslash swallows its closing
  quote, so the next cell of the row is read as SQL: the copied INSERT is three statements for the editor's own
  splitter, one of them written by the cell.\<close>

theorem mysql_copy_is_not_one_literal:
  "map_option (map stmt_text)
     (splitStatements (rowToSqlInsert (\<lambda>_. googlesql) [JStr [BSL], JStr '');drop table u;select ''] [''a'', ''b''] ''t'' (ArgId ''mysql''))
        (DialectName ''mysql''))
   = Some [''INSERT INTO '' @ [BTICK, CHR ''t'', BTICK] @ '' ('' @ [BTICK, CHR ''a'', BTICK] @ '', '' @ [BTICK, CHR ''b'', BTICK]
             @ '') VALUES ('' @ [SQ, BSL, SQ] @ '', '' @ [SQ] @ '')'',
           ''drop table u'', ''select '' @ [SQ] @ '');'']"
  by code_simp

section \<open>Updates and HTML\<close>

definition html_entity :: "char \<Rightarrow> jsstring" where
  "html_entity c =
     (if c = CHR ''&'' then ''&amp;'' else if c = CHR ''<'' then ''&lt;'' else if c = CHR ''>'' then ''&gt;''
      else if c = DQ then ''&quot;'' else if c = SQ then ''&#39;'' else [c])"

lemma replace_char_append: "replace_char c r (xs @ ys) = replace_char c r xs @ replace_char c r ys"
  by (simp add: replace_char_def)

lemma escapeHtml_append: "escapeHtml (xs @ ys) = escapeHtml xs @ escapeHtml ys"
  by (simp add: escapeHtml_def replace_char_append)

lemma escapeHtml_char: "escapeHtml [c] = html_entity c"
  by (simp add: escapeHtml_def html_entity_def replace_char_def)

lemma html_entity_inert: "CHR ''<'' \<notin> set (html_entity c) \<and> CHR ''>'' \<notin> set (html_entity c) \<and> DQ \<notin> set (html_entity c) \<and> SQ \<notin> set (html_entity c)"
  by (simp add: html_entity_def)

text \<open>Property (escapeHtml_single_pass): the five replacements one after another are the same as replacing every
  character once, so no replacement is escaped again, and no character that opens or closes a tag or an attribute
  value is left.\<close>

theorem escapeHtml_single_pass:
  "escapeHtml v = concat (map html_entity v)
   \<and> set (escapeHtml v) \<inter> {CHR ''<'', CHR ''>'', DQ, SQ} = {}"
proof -
  have e: "escapeHtml v = concat (map html_entity v)"
  proof (induction v)
    case Nil then show ?case by (simp add: escapeHtml_def replace_char_def)
  next
    case (Cons c v) then show ?case using escapeHtml_append [of "[c]" v] by (simp add: escapeHtml_char)
  qed
  show ?thesis unfolding e using html_entity_inert by auto
qed

lemma value_of_key:
  assumes "pk \<in> set columns"
  shows "list_ex (\<lambda>i. columns ! i = pk \<and> value_of row columns pk = nth_cell row i) [0..<length columns]"
proof (cases "find_pos (\<lambda>c. c = pk) columns")
  case None
  with assms show ?thesis by (auto simp: find_pos_None list_all_iff)
next
  case (Some i)
  with find_pos_Some [OF Some] show ?thesis by (auto simp: list_ex_iff value_of_def intro!: bexI [of _ i])
qed

lemma set_columns_names: "fst ` set (set_columns row columns pks) = set columns - set pks"
proof -
  have s: "map fst (set_columns row columns pks) = filter (\<lambda>c. c \<notin> set pks) (map snd (enumerate 0 columns))"
    by (simp only: set_columns_def filter_map map_map comp_def case_prod_unfold fst_conv)
  have "fst ` set (set_columns row columns pks) = set (map fst (set_columns row columns pks))" by simp
  then show ?thesis unfolding s by auto
qed

text \<open>Property (unblocked_update_is_keyed): when nothing blocks copying rows as UPDATE statements, each row's WHERE
  clause compares every key column with the row's own value of it, which is neither NULL nor missing, and the SET
  list is not empty and holds exactly the columns outside the key.\<close>

theorem unblocked_update_is_keyed:
  assumes "sqlUpdateBlocker columns (Some pks) (Some rows) = None" "row \<in> set rows"
  shows "pks \<noteq> [] \<and> set_columns row columns pks \<noteq> [] \<and> fst ` set (set_columns row columns pks) = set columns - set pks
    \<and> list_all (\<lambda>pk. \<not> is_nullish (value_of row columns pk)
         \<and> list_ex (\<lambda>i. columns ! i = pk \<and> value_of row columns pk = nth_cell row i) [0..<length columns]) pks"
proof -
  have k: "pks \<noteq> []" "set pks \<subseteq> set columns" "\<not> set columns \<subseteq> set pks"
    "list_all (\<lambda>pk. \<not> is_nullish (value_of row columns pk)) pks"
    using assms by (auto simp: sqlUpdateBlocker_def list_all_iff list_ex_iff split: if_splits)
  then have "set_columns row columns pks \<noteq> []"
    using set_columns_names [of row columns pks] by auto
  with k show ?thesis by (auto simp: set_columns_names list_all_iff value_of_key)
qed

lemma unblocked_update_is_keyed_witness:
  "let row = [JNum 7 0, JStr ''x'', JNull] in
   [''id''] \<noteq> [] \<and> set_columns row [''id'', ''a'', ''b''] [''id''] \<noteq> []
    \<and> fst ` set (set_columns row [''id'', ''a'', ''b''] [''id'']) = set [''id'', ''a'', ''b''] - set [''id'']
    \<and> list_all (\<lambda>pk. \<not> is_nullish (value_of row [''id'', ''a'', ''b''] pk)
         \<and> list_ex (\<lambda>i. [''id'', ''a'', ''b''] ! i = pk \<and> value_of row [''id'', ''a'', ''b''] pk = nth_cell row i)
             [0..<length [''id'', ''a'', ''b'']]) [''id'']"
  unfolding Let_def
  by (rule unblocked_update_is_keyed [where rows = "[[JNum 7 0, JStr ''x'', JNull]]"]) (code_simp, simp)

end
