(* ===== verification/ColumnTypes.thy ===== *)
theory ColumnTypes
  imports JsValue
begin

text \<open>
  What the code reads off a column's declared type: the type predicates of \<open>utils/blob.ts\<close>, \<open>utils/geometry.ts\<close>,
  \<open>utils/json.ts\<close>, \<open>utils/text.ts\<close>, \<open>utils/dateInput.ts\<close>, \<open>utils/foreignKeys.ts\<close> and
  \<open>utils/rowIdentity.ts\<close>. \<open>s.includes(t)\<close> is \<open>sublist t s\<close>.
\<close>

record TableColumn =
  tc_name :: jsstring
  data_type :: jsstring
  is_pk :: bool
  is_nullable :: bool
  is_auto_increment :: bool
  is_generated :: bool
  default_value :: "jsstring option"
  character_maximum_length :: "int option"

section \<open>Binary, geometric, JSON and text types\<close>

definition BLOB_TEXT_LENGTH_THRESHOLD :: int where
  "BLOB_TEXT_LENGTH_THRESHOLD = 65535"

definition isBlobType :: "jsstring \<Rightarrow> bool" where
  "isBlobType dataType \<longleftrightarrow> dataType \<noteq> []
     \<and> list_ex (\<lambda>t. sublist t (upper dataType))
         [''BLOB'', ''TINYBLOB'', ''MEDIUMBLOB'', ''LONGBLOB'', ''BINARY'', ''VARBINARY'', ''BYTEA'']"

definition isBlobColumn :: "jsstring \<Rightarrow> int option \<Rightarrow> bool" where
  "isBlobColumn dataType maxLength \<longleftrightarrow>
     isBlobType dataType
     \<and> \<not> ((sublist ''VARBINARY'' (upper dataType) \<or> upper dataType = ''BINARY'')
          \<and> (case maxLength of None \<Rightarrow> False | Some n \<Rightarrow> n \<le> BLOB_TEXT_LENGTH_THRESHOLD))"

definition isGeometricType :: "jsstring \<Rightarrow> bool" where
  "isGeometricType dataType \<longleftrightarrow> dataType \<noteq> []
     \<and> list_ex (\<lambda>t. sublist t (upper dataType))
         [''GEOMETRY'', ''POINT'', ''LINESTRING'', ''POLYGON'', ''MULTIPOINT'', ''MULTILINESTRING'', ''MULTIPOLYGON'',
          ''GEOMETRYCOLLECTION'', ''GEOGRAPHY'']"

definition isJsonColumn :: "jsstring \<Rightarrow> bool" where
  "isJsonColumn dataType \<longleftrightarrow> dataType \<noteq> [] \<and> upper dataType \<in> {''JSON'', ''JSONB''}"

definition isHstoreColumn :: "jsstring \<Rightarrow> bool" where
  "isHstoreColumn dataType \<longleftrightarrow> lower dataType = ''hstore''"

definition TEXT_TYPES :: "jsstring list" where
  "TEXT_TYPES =
     [''TEXT'', ''TINYTEXT'', ''MEDIUMTEXT'', ''LONGTEXT'', ''NTEXT'', ''CLOB'', ''CHARACTER VARYING'', ''VARCHAR'',
      ''NVARCHAR'', ''CHARACTER'', ''CHAR'', ''NCHAR'', ''STRING'']"

definition isTextColumn :: "jsstring option \<Rightarrow> bool" where
  "isTextColumn dataType =
     (case dataType of None \<Rightarrow> False
      | Some t \<Rightarrow> t \<noteq> [] \<and> list_ex (\<lambda>ty. sublist ty (upper t)) TEXT_TYPES)"

definition supportsEmptyString :: "jsstring option \<Rightarrow> bool" where
  "supportsEmptyString dataType =
     (case dataType of None \<Rightarrow> True | Some t \<Rightarrow> t = [] \<or> isTextColumn dataType)"

definition VECTOR_TYPES :: "jsstring list" where
  "VECTOR_TYPES = [''VECTOR'', ''HALFVEC'', ''SPARSEVEC'']"

definition isVectorColumn :: "jsstring option \<Rightarrow> bool" where
  "isVectorColumn dataType =
     (case dataType of None \<Rightarrow> False
      | Some t \<Rightarrow> t \<noteq> [] \<and> list_ex (\<lambda>ty. sublist ty (upper t)) VECTOR_TYPES)"

section \<open>Numbers and dates\<close>

definition NUMERIC_TYPE_KEYWORDS :: "jsstring list" where
  "NUMERIC_TYPE_KEYWORDS =
     [''int'', ''decimal'', ''numeric'', ''real'', ''double'', ''float'', ''serial'', ''number'', ''money'', ''bit'']"

definition isNumericColumnType :: "jsstring option \<Rightarrow> bool" where
  "isNumericColumnType ty =
     (case ty of None \<Rightarrow> False
      | Some t \<Rightarrow> t \<noteq> [] \<and> list_ex (\<lambda>kw. sublist kw (lower t)) NUMERIC_TYPE_KEYWORDS)"

datatype DateInputMode = DMdate | DMdatetime | DMtime

definition DATE_TYPES :: "jsstring list" where
  "DATE_TYPES =
     [''date'', ''datetime'', ''timestamp'', ''timestamptz'', ''timestamp with time zone'',
      ''timestamp without time zone'', ''timestamp with local time zone'']"

definition TIME_TYPES :: "jsstring list" where
  "TIME_TYPES = [''time'', ''timetz'', ''time with time zone'']"

definition getDateInputMode :: "jsstring \<Rightarrow> DateInputMode option" where
  "getDateInputMode dataType =
     (let low = trim (lower dataType)
      in if low \<in> set DATE_TYPES then (if low \<noteq> ''date'' then Some DMdatetime else Some DMdate)
         else if low \<in> set TIME_TYPES then Some DMtime else None)"

section \<open>Columns that compare with \<open>=\<close>\<close>

definition APPROXIMATE_NUMERIC_TYPES :: "jsstring list" where
  "APPROXIMATE_NUMERIC_TYPES =
     [''float'', ''float4'', ''float8'', ''double'', ''double precision'', ''real'', ''float32'', ''float64'',
      ''binary_float'', ''binary_double'']"

text \<open>\<open>replace(/\(.*$/, '')\<close> (the dot stops at a line end) and \<open>replace(/\s+unsigned$/, '')\<close>.\<close>

fun cut_paren :: "jsstring \<Rightarrow> jsstring" where
  "cut_paren [] = []"
| "cut_paren (c # cs) = (if c = CHR ''('' \<and> NL \<notin> set cs \<and> CR \<notin> set cs then [] else c # cut_paren cs)"

definition trim_end :: "jsstring \<Rightarrow> jsstring" where
  "trim_end s = rev (dropWhile is_space (rev s))"

definition cut_unsigned :: "jsstring \<Rightarrow> jsstring" where
  "cut_unsigned s =
     (let p = take (length s - length ''unsigned'') s
      in if suffix ''unsigned'' s \<and> p \<noteq> [] \<and> is_space (last p) then trim_end p else s)"

definition isApproximateNumericType :: "jsstring \<Rightarrow> bool" where
  "isApproximateNumericType dataType \<longleftrightarrow>
     trim (cut_unsigned (cut_paren (lower dataType))) \<in> set APPROXIMATE_NUMERIC_TYPES"

definition word_at_start :: "jsstring \<Rightarrow> jsstring \<Rightarrow> bool" where
  "word_at_start w s \<longleftrightarrow>
     prefix w s \<and> (case drop (length w) s of [] \<Rightarrow> True | c # _ \<Rightarrow> \<not> is_ident_char c)"

definition STRUCTURED_TYPE_PREFIX :: "jsstring \<Rightarrow> bool" where
  "STRUCTURED_TYPE_PREFIX s \<longleftrightarrow>
     list_ex (\<lambda>w. word_at_start w s) [''struct'', ''record'', ''repeated'', ''map'', ''tuple'', ''nested'']"

definition opens_with :: "jsstring \<Rightarrow> char \<Rightarrow> jsstring \<Rightarrow> bool" where
  "opens_with w c s \<longleftrightarrow>
     prefix w s \<and> (case dropWhile is_space (drop (length w) s) of [] \<Rightarrow> False | d # _ \<Rightarrow> d = c)"

definition PARAMETERIZED_STRUCTURED_TYPE :: "jsstring \<Rightarrow> bool" where
  "PARAMETERIZED_STRUCTURED_TYPE s \<longleftrightarrow>
     opens_with ''array'' (CHR ''<'') s \<or> opens_with ''range'' (CHR ''<'') s \<or> opens_with ''row'' (CHR ''('') s"

definition isStructuredType :: "jsstring \<Rightarrow> bool" where
  "isStructuredType dataType \<longleftrightarrow>
     (let normalized = trim (lower dataType)
      in STRUCTURED_TYPE_PREFIX normalized \<or> PARAMETERIZED_STRUCTURED_TYPE normalized
         \<or> normalized \<in> {''variant'', ''object'', ''super''})"

definition isComparableColumn :: "TableColumn \<Rightarrow> bool" where
  "isComparableColumn column \<longleftrightarrow>
     \<not> isBlobColumn (data_type column) (character_maximum_length column)
     \<and> \<not> isGeometricType (data_type column) \<and> \<not> isJsonColumn (data_type column)
     \<and> \<not> isHstoreColumn (data_type column) \<and> \<not> isStructuredType (data_type column)
     \<and> \<not> isApproximateNumericType (data_type column)"

end
