(* ===== verification/RowIdentity.thy ===== *)
theory RowIdentity
  imports ColumnTypes
begin

text \<open>
  How the grid addresses a row in UPDATE and DELETE (\<open>utils/rowIdentity.ts\<close>): by its primary key, or, without
  one, by the values of all its comparable columns. An object is its list of properties. The second half runs
  the planned statements on a table.
\<close>

record RowIdentity =
  id_columns :: "jsstring list"
  isKeyless :: bool

definition resolveRowIdentity ::
  "jsstring list option \<Rightarrow> TableColumn list option \<Rightarrow> jsstring list option \<Rightarrow> RowIdentity option" where
  "resolveRowIdentity pkColumns columnMetadata resultColumns =
     (case pkColumns of
        Some (pk # pks) \<Rightarrow> Some \<lparr>id_columns = pk # pks, isKeyless = False\<rparr>
      | _ \<Rightarrow>
          (case (columnMetadata, resultColumns) of
             (Some (c # cs), Some (r # rs)) \<Rightarrow>
               (let resultSet = set (map lower (r # rs));
                    comparable = map tc_name (filter isComparableColumn (c # cs))
                in if \<not> list_all (\<lambda>col. lower (tc_name col) \<in> resultSet) (c # cs) then None
                   else if comparable = [] then None
                   else Some \<lparr>id_columns = comparable, isKeyless = True\<rparr>)
           | _ \<Rightarrow> None))"

section \<open>The plan of a keyless row\<close>

definition USE_DEFAULT_SENTINEL :: jsval where
  "USE_DEFAULT_SENTINEL = JStr ''__USE_DEFAULT__''"

type_synonym jsobject = "(jsstring \<times> jsval) list"

record KeylessUpdateStep =
  colName :: jsstring
  newVal :: jsval
  pkMap :: jsobject

definition isOpaque :: "jsval \<Rightarrow> bool" where
  "isOpaque v \<longleftrightarrow> v = USE_DEFAULT_SENTINEL"

text \<open>The \<open>map\<close> over the entries with its variable \<open>current\<close>.\<close>

fun plan_loop :: "jsobject \<Rightarrow> jsobject \<Rightarrow> KeylessUpdateStep list" where
  "plan_loop current [] = []"
| "plan_loop current ((col, v) # entries) =
     \<lparr>colName = col, newVal = v, pkMap = current\<rparr> #
     plan_loop
       (if col \<in> fst ` set current then (if isOpaque v then delete_prop current col else set_prop current (col, v))
        else current)
       entries"

definition buildKeylessUpdatePlan :: "jsobject \<Rightarrow> jsobject \<Rightarrow> KeylessUpdateStep list" where
  "buildKeylessUpdatePlan identityMap changes =
     plan_loop identityMap (sort_key (\<lambda>(col, v). if isOpaque v then 1 else (0::nat)) changes)"

section \<open>Running the plan\<close>

text \<open>A table is its rows, a row the value of every column. A step updates every row its map matches; the
  server writes \<open>server col\<close> for the default of a column.\<close>

type_synonym row = "jsstring \<Rightarrow> jsval"

definition row_matches :: "jsobject \<Rightarrow> row \<Rightarrow> bool" where
  "row_matches m r \<longleftrightarrow> list_all (\<lambda>(k, v). r k = v) m"

definition stored :: "row \<Rightarrow> KeylessUpdateStep \<Rightarrow> jsval" where
  "stored server st = (if isOpaque (newVal st) then server (colName st) else newVal st)"

definition run_step :: "row \<Rightarrow> KeylessUpdateStep \<Rightarrow> row list \<Rightarrow> row list" where
  "run_step server st rows =
     map (\<lambda>r. if row_matches (pkMap st) r then r(colName st := stored server st) else r) rows"

definition run_plan :: "row \<Rightarrow> KeylessUpdateStep list \<Rightarrow> row list \<Rightarrow> row list" where
  "run_plan server steps rows = fold (run_step server) steps rows"

text \<open>What the user asked for: the row with the changes in place.\<close>

definition edited :: "row \<Rightarrow> jsobject \<Rightarrow> row \<Rightarrow> row" where
  "edited server changes r =
     (\<lambda>c. case map_of changes c of None \<Rightarrow> r c | Some v \<Rightarrow> if isOpaque v then server c else v)"

lemma row_matches_iff:
  "distinct (map fst m) \<Longrightarrow> row_matches m r \<longleftrightarrow> (\<forall>k v. map_of m k = Some v \<longrightarrow> r k = v)"
  by (auto simp: row_matches_def list_all_iff map_of_eq_Some_iff)

text \<open>The map a step leaves behind still matches the row it has just changed.\<close>

definition next_map :: "jsobject \<Rightarrow> jsstring \<times> jsval \<Rightarrow> jsobject" where
  "next_map current e =
     (if fst e \<in> fst ` set current
      then (if isOpaque (snd e) then delete_prop current (fst e) else set_prop current e) else current)"

lemma plan_loop_Cons:
  "plan_loop current (e # entries) = \<lparr>colName = fst e, newVal = snd e, pkMap = current\<rparr> # plan_loop (next_map current e) entries"
  by (cases e) (simp add: next_map_def)

lemma map_of_next_map:
  "map_of (next_map current e) = (if fst e \<in> fst ` set current
     then (map_of current)(fst e := (if isOpaque (snd e) then None else Some (snd e))) else map_of current)"
  by (cases e) (simp add: next_map_def)

lemma distinct_next_map: "distinct (map fst current) \<Longrightarrow> distinct (map fst (next_map current e))"
  by (cases e) (auto simp: next_map_def)

lemma next_map_matches:
  assumes "distinct (map fst current)" "row_matches current r"
  shows "row_matches (next_map current e) (r(fst e := (if isOpaque (snd e) then server (fst e) else snd e)))"
  using assms distinct_next_map [OF assms(1)]
  by (auto simp: row_matches_iff map_of_next_map image_iff split: if_splits dest: map_of_SomeD)

lemma edited_Cons:
  "edited server (e # es) r = edited server es (r(fst e := (if isOpaque (snd e) then server (fst e) else snd e)))"
  if "fst e \<notin> fst ` set es"
proof -
  have "map_of es (fst e) = None" using that by (simp add: map_of_eq_None_iff)
  then show ?thesis by (cases e) (simp add: edited_def fun_eq_iff split: option.split)
qed

lemma edited_cong: "map_of es = map_of fs \<Longrightarrow> edited server es = edited server fs"
  by (intro ext) (simp add: edited_def)

lemma length_run_plan [simp]: "length (run_plan server steps rows) = length rows"
  by (induction steps arbitrary: rows) (simp_all add: run_plan_def run_step_def)

lemma run_plan_loop:
  assumes "distinct (map fst current)" "distinct (map fst entries)" "i < length rows" "row_matches current (rows ! i)"
  shows "run_plan server (plan_loop current entries) rows ! i = edited server entries (rows ! i)"
  using assms
proof (induction entries arbitrary: current rows)
  case Nil
  then show ?case by (simp add: run_plan_def edited_def)
next
  case (Cons e entries)
  let ?v = "if isOpaque (snd e) then server (fst e) else snd e"
  let ?rows = "run_step server \<lparr>colName = fst e, newVal = snd e, pkMap = current\<rparr> rows"
  have r: "?rows ! i = (rows ! i)(fst e := ?v)" "length ?rows = length rows"
    using Cons.prems by (simp_all add: run_step_def stored_def)
  have "run_plan server (plan_loop (next_map current e) entries) ?rows ! i = edited server entries (?rows ! i)"
  proof (rule Cons.IH)
    show "row_matches (next_map current e) (?rows ! i)"
      unfolding r(1) by (rule next_map_matches) (use Cons.prems in simp_all)
  qed (use Cons.prems r distinct_next_map in simp_all)
  moreover have "edited server (e # entries) (rows ! i) = edited server entries (?rows ! i)"
    unfolding r(1) by (rule edited_Cons) (use Cons.prems(2) in simp)
  ultimately show ?case by (simp only: plan_loop_Cons run_plan_def fold_simps)
qed

lemma plan_order:
  fixes changes :: jsobject
  assumes "distinct (map fst changes)"
  defines "es \<equiv> sort_key (\<lambda>(col, v). if isOpaque v then 1 else (0::nat)) changes"
  shows "distinct (map fst es)" "map_of es = map_of changes" "fst ` set es = fst ` set changes"
proof -
  have m: "mset es = mset changes" by (simp add: es_def)
  have "mset (map fst es) = mset (map fst changes)" using m by (metis mset_map)
  with assms(1) show d: "distinct (map fst es)" by (metis mset_eq_imp_distinct_iff)
  have "set es = set changes" using m by (metis set_mset_mset)
  then show "map_of es = map_of changes" "fst ` set es = fst ` set changes"
    using d assms(1) by (simp_all add: map_of_inject_set)
qed

text \<open>C5 (keyless_plan_edits_row): a row without a primary key that holds the values the grid shows ends up with
  exactly the pending changes in place, whatever the order of the changes and the defaults the server fills in:
  every statement of the plan still finds the row that the ones before it have changed.\<close>

theorem keyless_plan_edits_row:
  assumes "distinct (map fst identityMap)" "distinct (map fst changes)"
    and "i < length rows" "row_matches identityMap (rows ! i)"
  shows "run_plan server (buildKeylessUpdatePlan identityMap changes) rows ! i = edited server changes (rows ! i)"
  using run_plan_loop [OF assms(1) plan_order(1) [OF assms(2)] assms(3,4)] edited_cong [OF plan_order(2) [OF assms(2)]]
  by (simp add: buildKeylessUpdatePlan_def)

lemma keyless_plan_edits_row_witness:
  "let r = (\<lambda>_. JNull)(''a'' := JNum 1 0, ''b'' := JStr ''x'');
       plan = buildKeylessUpdatePlan [(''a'', JNum 1 0), (''b'', JStr ''x'')] [(''a'', USE_DEFAULT_SENTINEL), (''b'', JStr ''y'')]
   in run_plan (\<lambda>_. JNum 9 0) plan [r] ! 0
      = edited (\<lambda>_. JNum 9 0) [(''a'', USE_DEFAULT_SENTINEL), (''b'', JStr ''y'')] ([r] ! 0)"
  unfolding Let_def by (rule keyless_plan_edits_row) (simp_all add: row_matches_def)

lemma plan_spares:
  assumes "map_of current k = Some v" "k \<notin> fst ` set entries" "distinct (map fst current)"
    and "i < length rows" "(rows ! i) k \<noteq> v"
  shows "run_plan server (plan_loop current entries) rows ! i = rows ! i"
  using assms
proof (induction entries arbitrary: current rows)
  case Nil
  then show ?case by (simp add: run_plan_def)
next
  case (Cons e entries)
  let ?rows = "run_step server \<lparr>colName = fst e, newVal = snd e, pkMap = current\<rparr> rows"
  have "\<not> row_matches current (rows ! i)" using Cons.prems by (auto simp: row_matches_iff)
  then have r: "?rows ! i = rows ! i" "length ?rows = length rows" using Cons.prems by (simp_all add: run_step_def)
  have "run_plan server (plan_loop (next_map current e) entries) ?rows ! i = ?rows ! i"
    by (rule Cons.IH) (use Cons.prems r distinct_next_map in \<open>auto simp: map_of_next_map\<close>)
  then show ?case using r(1) by (simp only: plan_loop_Cons run_plan_def fold_simps)
qed

text \<open>Property (keyless_plan_spares_rows): a row that differs from the edited one in an identity column that is not being
  changed is left alone by every statement of the plan.\<close>

theorem keyless_plan_spares_rows:
  assumes "distinct (map fst identityMap)" "distinct (map fst changes)"
    and "map_of identityMap k = Some v" "k \<notin> fst ` set changes" "i < length rows" "(rows ! i) k \<noteq> v"
  shows "run_plan server (buildKeylessUpdatePlan identityMap changes) rows ! i = rows ! i"
  using plan_spares [OF assms(3) _ assms(1,5,6)] assms(4) plan_order(3) [OF assms(2)]
  by (simp add: buildKeylessUpdatePlan_def)

lemma keyless_plan_spares_rows_witness:
  "let r = (\<lambda>_. JNull)(''a'' := JNum 2 0, ''b'' := JStr ''x'');
       plan = buildKeylessUpdatePlan [(''a'', JNum 1 0), (''b'', JStr ''x'')] [(''b'', JStr ''y'')]
   in run_plan (\<lambda>_. JNum 9 0) plan [r] ! 0 = [r] ! 0"
  unfolding Let_def by (rule keyless_plan_spares_rows [where k = "''a''" and v = "JNum 1 0"]) simp_all

text \<open>Property (keyless_plan_rewrites_neighbours): two changes of one row are two statements, and the row may equal
  another one in between: then the second statement changes both. A column set to its default is dropped from
  the later WHERE maps, so the statement after it also changes every row that differs in that column only.\<close>

definition sample_row :: "int \<Rightarrow> jsstring \<Rightarrow> row" where
  "sample_row a b = (\<lambda>_. JNull)(''a'' := JNum a 0, ''b'' := JStr b)"

theorem keyless_plan_rewrites_neighbours:
  "run_plan server (buildKeylessUpdatePlan [(''a'', JNum 1 0), (''b'', JStr ''x'')] [(''a'', JNum 2 0), (''b'', JStr ''y'')])
     [sample_row 1 ''x'', sample_row 2 ''x''] = [sample_row 2 ''y'', sample_row 2 ''y''] \<and>
   run_plan (\<lambda>_. JNull) (buildKeylessUpdatePlan [(''a'', JNum 1 0), (''b'', JStr ''x'')]
       [(''a'', USE_DEFAULT_SENTINEL), (''b'', USE_DEFAULT_SENTINEL)])
     [sample_row 1 ''x'', sample_row 7 ''x''] = [(\<lambda>_. JNull), (sample_row 7 ''x'')(''b'' := JNull)]"
  by (auto simp: sample_row_def buildKeylessUpdatePlan_def isOpaque_def USE_DEFAULT_SENTINEL_def delete_prop_def
      run_plan_def run_step_def row_matches_def stored_def fun_eq_iff)

section \<open>Which rows can be edited\<close>

text \<open>Property (keyless_identity_is_complete): without a primary key editing is offered only when the result shows
  every column of the table, ignoring case, and the identity is then all comparable columns, at least one.\<close>

theorem keyless_identity_is_complete:
  assumes "pkColumns = None \<or> pkColumns = Some []"
  shows "resolveRowIdentity pkColumns (Some cols) (Some res) = Some ident \<longleftrightarrow>
     res \<noteq> [] \<and> lower ` tc_name ` set cols \<subseteq> lower ` set res \<and> isKeyless ident \<and> id_columns ident \<noteq> []
     \<and> id_columns ident = map tc_name (filter isComparableColumn cols)"
proof -
  let ?c = "map tc_name (filter isComparableColumn cols)"
  have k: "resolveRowIdentity pkColumns (Some cols) (Some res) =
    (if cols = [] \<or> res = [] \<or> \<not> lower ` tc_name ` set cols \<subseteq> lower ` set res \<or> ?c = [] then None
     else Some \<lparr>id_columns = ?c, isKeyless = True\<rparr>)"
  proof -
    have "lower ` tc_name ` set cols \<subseteq> lower ` set res
        \<longleftrightarrow> list_all (\<lambda>col. lower (tc_name col) \<in> set (map lower res)) cols"
      by (auto simp: list_all_iff)
    then show ?thesis using assms by (cases cols; cases res) (auto simp: resolveRowIdentity_def Let_def)
  qed
  show ?thesis unfolding k by (cases ident) auto
qed

lemma keyless_identity_is_complete_witness:
  "let c = \<lparr>tc_name = ''Id'', data_type = ''int'', is_pk = False, is_nullable = False, is_auto_increment = False,
       is_generated = False, default_value = None, character_maximum_length = None\<rparr>;
     i = \<lparr>id_columns = [''Id''], isKeyless = True\<rparr>
   in (resolveRowIdentity (Some []) (Some [c]) (Some [''ID'']) = Some i) =
     ([''ID''] \<noteq> [] \<and> lower ` tc_name ` set [c] \<subseteq> lower ` set [''ID''] \<and> isKeyless i \<and> id_columns i \<noteq> []
      \<and> id_columns i = map tc_name (filter isComparableColumn [c]))"
  unfolding Let_def by (rule keyless_identity_is_complete) simp

end
