(* ===== verification/ForeignKeys.thy ===== *)
theory ForeignKeys
  imports ColumnTypes Identifiers
begin

text \<open>
  Foreign keys in the grid and the literals that compare a column with a value (\<open>utils/foreignKeys.ts\<close>). The
  parameter \<open>fround\<close> is \<open>String(Math.fround(x))\<close> for the number printed as its argument, \<open>None\<close> when that is
  not finite. A \<open>Map\<close> is the list of its entries in insertion order.
\<close>

record ForeignKey =
  fk_name :: jsstring
  column_name :: jsstring
  ref_table :: jsstring
  ref_column :: jsstring

section \<open>Which key a column follows\<close>

definition group_by_name :: "ForeignKey list \<Rightarrow> (jsstring \<times> ForeignKey list) list" where
  "group_by_name fks =
     foldl (\<lambda>byConstraint fk. set_prop byConstraint
         (fk_name fk, (case map_of byConstraint (fk_name fk) of None \<Rightarrow> [] | Some l \<Rightarrow> l) @ [fk])) [] fks"

definition pick_step ::
  "(jsstring \<times> ForeignKey) list \<Rightarrow> jsstring \<times> ForeignKey list \<Rightarrow> (jsstring \<times> ForeignKey) list" where
  "pick_step result entry =
     (case snd entry of
        [fk] \<Rightarrow> if map_of result (column_name fk) = None then result @ [(column_name fk, fk)] else result
      | _ \<Rightarrow> result)"

definition pickPrimaryForeignKeyByColumn :: "ForeignKey list option \<Rightarrow> (jsstring \<times> ForeignKey) list" where
  "pickPrimaryForeignKeyByColumn fks =
     (case fks of None \<Rightarrow> [] | Some l \<Rightarrow> if length l = 0 then [] else foldl pick_step [] (group_by_name l))"

definition isForeignKeyValueNavigable :: "jsval \<Rightarrow> bool" where
  "isForeignKeyValueNavigable v \<longleftrightarrow> v \<noteq> JNull \<and> v \<noteq> JUndefined \<and> v \<noteq> JStr []"

definition getForeignKeyForPreview ::
  "jsstring \<Rightarrow> jsval \<Rightarrow> (jsstring \<times> ForeignKey) list \<Rightarrow> bool \<Rightarrow> bool \<Rightarrow> ForeignKey option" where
  "getForeignKeyForPreview columnName v fksByColumn isPendingDelete isInsertion =
     (if isPendingDelete \<or> isInsertion then None
      else (case map_of fksByColumn columnName of
              None \<Rightarrow> None
            | Some fk \<Rightarrow> if \<not> isForeignKeyValueNavigable v then None else Some fk))"

section \<open>Literals of a comparison\<close>

text \<open>\<open>/^-?\d+(\.\d+)?$/\<close>.\<close>

definition digits1 :: "jsstring \<Rightarrow> bool" where
  "digits1 s \<longleftrightarrow> s \<noteq> [] \<and> list_all is_digit s"

definition unsigned_number :: "jsstring \<Rightarrow> bool" where
  "unsigned_number s \<longleftrightarrow>
     (case dropWhile is_digit s of
        [] \<Rightarrow> s \<noteq> []
      | c # fraction \<Rightarrow> c = CHR ''.'' \<and> digits1 (takeWhile is_digit s) \<and> digits1 fraction)"

definition number_text :: "jsstring \<Rightarrow> bool" where
  "number_text s \<longleftrightarrow> (case s of c # r \<Rightarrow> if c = CHR ''-'' then unsigned_number r else unsigned_number s | [] \<Rightarrow> False)"

text \<open>\<open>String(v)\<close>.\<close>

fun js_String :: "jsval \<Rightarrow> jsstring" and array_item :: "jsval \<Rightarrow> jsstring" and array_items :: "jsval list \<Rightarrow> jsstring list" where
  "js_String JUndefined = ''undefined''"
| "js_String JNull = ''null''"
| "js_String (JBool b) = (if b then ''true'' else ''false'')"
| "js_String (JNum m d) = num_str m d"
| "js_String (JStr s) = s"
| "js_String (JArr xs) = comma_join (array_items xs)"
| "js_String (JObj _) = ''[object Object]''"
| "array_item JUndefined = []"
| "array_item JNull = []"
| "array_item (JBool b) = (if b then ''true'' else ''false'')"
| "array_item (JNum m d) = num_str m d"
| "array_item (JStr s) = s"
| "array_item (JArr xs) = comma_join (array_items xs)"
| "array_item (JObj _) = ''[object Object]''"
| "array_items [] = []"
| "array_items (x # xs) = array_item x # array_items xs"

definition formatSqlValueForFilter ::
  "(nat \<Rightarrow> SqlSyntaxDescriptor) \<Rightarrow> jsval \<Rightarrow> jsstring option \<Rightarrow> DriverArg \<Rightarrow> jsstring" where
  "formatSqlValueForFilter objs v columnType driver =
     (case v of
        JNum m d \<Rightarrow> num_str m d
      | JBool b \<Rightarrow> sqlBooleanLiteral objs b driver
      | _ \<Rightarrow>
          (let str = js_String v in
           if isNumericColumnType columnType \<and> number_text str then str
           else if stringEscapeStyle objs driver None = SE_backslash then quoteSqlString objs str driver
           else [SQ] @ replace_char SQ [SQ, SQ] str @ [SQ]))"

text \<open>\<open>/^float(?:\s+unsigned)?$/i\<close> and \<open>/^(real|float4)$/i\<close> on the trimmed type.\<close>

definition float_type :: "jsstring \<Rightarrow> bool" where
  "float_type t \<longleftrightarrow>
     (let s = lower (trim t); rest = drop (length ''float'') s
      in prefix ''float'' s \<and> (rest = [] \<or> (is_space (hd rest) \<and> dropWhile is_space rest = ''unsigned'')))"

definition isMysqlFloatColumn :: "DriverArg \<Rightarrow> jsstring option \<Rightarrow> bool" where
  "isMysqlFloatColumn driver columnType \<longleftrightarrow>
     isMysqlDialect driver \<and> float_type (case columnType of Some t \<Rightarrow> t | None \<Rightarrow> [])"

definition formatSqlValueForColumnComparison ::
  "(nat \<Rightarrow> SqlSyntaxDescriptor) \<Rightarrow> (jsstring \<Rightarrow> jsstring option) \<Rightarrow> jsval \<Rightarrow> DriverArg \<Rightarrow> jsstring option \<Rightarrow> jsstring" where
  "formatSqlValueForColumnComparison objs fround v driver columnType =
     (let literal = formatSqlValueForFilter objs v columnType driver;
          isPostgresReal = (isPostgresDialect driver
            \<and> lower (trim (case columnType of Some t \<Rightarrow> t | None \<Rightarrow> [])) \<in> {''real'', ''float4''});
          result = (if isPostgresReal then ''CAST('' @ literal @ '' AS real)'' else literal)
      in (case v of
            JNum m d \<Rightarrow>
              (if isMysqlFloatColumn driver columnType
               then (case fround (num_str m d) of Some widened \<Rightarrow> widened | None \<Rightarrow> result)
               else result)
          | _ \<Rightarrow> result))"

definition buildForeignKeyFilterClause ::
  "(nat \<Rightarrow> SqlSyntaxDescriptor) \<Rightarrow> (jsstring \<Rightarrow> jsstring option) \<Rightarrow> ForeignKey \<Rightarrow> jsval \<Rightarrow> DriverArg \<Rightarrow> jsstring option
   \<Rightarrow> jsstring" where
  "buildForeignKeyFilterClause objs fround fk v driver sourceColumnType =
     quoteIdentifier (ref_column fk) driver @ '' = ''
       @ formatSqlValueForColumnComparison objs fround v driver sourceColumnType"

section \<open>The map of keys\<close>

lemma map_of_group_by_name:
  "map_of (group_by_name fks) n = (if filter (\<lambda>fk. fk_name fk = n) fks = [] then None
     else Some (filter (\<lambda>fk. fk_name fk = n) fks))"
  by (induction fks rule: rev_induct) (auto simp: group_by_name_def)

lemma distinct_group_by_name: "distinct (map fst (group_by_name fks))"
  by (induction fks rule: rev_induct) (auto simp: group_by_name_def)

lemma pick_fold:
  "map_of (foldl pick_step acc es) c = (case map_of acc c of Some fk \<Rightarrow> Some fk
     | None \<Rightarrow> map_option hd (find (\<lambda>g. length g = 1 \<and> column_name (hd g) = c) (map snd es)))"
proof (induction es arbitrary: acc)
  case (Cons e es)
  show ?case
    unfolding foldl_Cons Cons.IH
    by (cases "snd e" rule: list.exhaust; cases "tl (snd e)"; cases "map_of acc (column_name (hd (snd e)))"; cases "map_of acc c")
       (auto simp: pick_step_def map_add_def split: list.splits option.splits)
qed (simp split: option.splits)

lemma map_fst_set_prop: "map fst (set_prop m (k, v)) = (if k \<in> fst ` set m then map fst m else map fst m @ [k])"
  by (induction m) force+

lemma uniq_aux_snoc: "uniq_aux seen (xs @ [x]) = (if x \<in> seen \<union> set xs then uniq_aux seen xs else uniq_aux seen xs @ [x])"
  by (induction seen xs rule: uniq_aux.induct) auto

lemma keys_group_by_name: "map fst (group_by_name fks) = uniq (map fk_name fks)"
proof (induction fks rule: rev_induct)
  case (snoc fk fks)
  have "fst ` set (group_by_name fks) = fk_name ` set fks" using snoc by (metis set_map set_uniq)
  moreover obtain l where "group_by_name (fks @ [fk]) = set_prop (group_by_name fks) (fk_name fk, l)"
    by (simp add: group_by_name_def)
  ultimately show ?case using snoc by (simp add: map_fst_set_prop uniq_def uniq_aux_snoc)
qed (simp add: group_by_name_def uniq_def)

definition named :: "ForeignKey list \<Rightarrow> jsstring \<Rightarrow> ForeignKey list" where
  "named fks n = filter (\<lambda>k. fk_name k = n) fks"

lemma groups: "map snd (group_by_name fks) = map (named fks) (uniq (map fk_name fks))"
proof -
  have "snd e = named fks (fst e)" if "e \<in> set (group_by_name fks)" for e
    using that map_of_group_by_name [of fks "fst e"] map_of_is_SomeI [OF distinct_group_by_name [of fks], of "fst e" "snd e"]
    by (auto simp: named_def split: if_splits)
  then show ?thesis unfolding keys_group_by_name [symmetric] by simp
qed

lemma find_single_group:
  assumes "fks = pre @ xs"
  shows "map_option hd (find (\<lambda>g. length g = 1 \<and> column_name (hd g) = c)
       (map (named fks) (uniq_aux (fk_name ` set pre) (map fk_name xs))))
     = find (\<lambda>fk. column_name fk = c \<and> named fks (fk_name fk) = [fk]) xs"
  using assms
proof (induction xs arbitrary: pre)
  case (Cons x xs)
  have ih: "map_option hd (find (\<lambda>g. length g = 1 \<and> column_name (hd g) = c)
       (map (named fks) (uniq_aux (insert (fk_name x) (fk_name ` set pre)) (map fk_name xs))))
     = find (\<lambda>fk. column_name fk = c \<and> named fks (fk_name fk) = [fk]) xs"
    using Cons.IH [of "pre @ [x]"] Cons.prems by simp
  show ?case
  proof (cases "fk_name x \<in> fk_name ` set pre")
    case True
    then have "filter (\<lambda>k. fk_name k = fk_name x) pre \<noteq> []" by (force simp: filter_empty_conv)
    then have "named fks (fk_name x) \<noteq> [x]" unfolding Cons.prems named_def by (cases "filter (\<lambda>k. fk_name k = fk_name x) pre") auto
    with True ih show ?thesis by (simp add: insert_absorb)
  next
    case False
    then have "named fks (fk_name x) = x # filter (\<lambda>k. fk_name k = fk_name x) xs"
      unfolding Cons.prems named_def by (auto simp: filter_empty_conv image_iff)
    with False ih show ?thesis by simp
  qed
qed simp

text \<open>Property (followed_key_is_simple): the key a column follows is the first of the table's keys on that column that is
  alone under its constraint name; keys of several columns are never followed.\<close>

theorem followed_key_is_simple:
  "map_of (pickPrimaryForeignKeyByColumn (Some fks)) c
     = find (\<lambda>fk. column_name fk = c \<and> filter (\<lambda>k. fk_name k = fk_name fk) fks = [fk]) fks"
proof (cases "fks = []")
  case False
  then show ?thesis
    using find_single_group [of fks "[]" fks c]
    by (simp add: pickPrimaryForeignKeyByColumn_def pick_fold groups uniq_def named_def)
qed (simp add: pickPrimaryForeignKeyByColumn_def)

end
