(* ===== verification/FilterBar.thy ===== *)
theory FilterBar
  imports ForeignKeys ClipboardText
begin

text \<open>
  The filter bar (\<open>utils/filterBar.ts\<close>): the operators of a column, the WHERE clause of a list of filters, and the
  value picker. The ids of new filters (clock and random number) are an argument. \<open>fround\<close> is the parameter of
  \<open>ForeignKeys\<close>, the descriptor table \<open>objs\<close> the one of \<open>SqlSyntax\<close>.
\<close>

section \<open>Operators and filters\<close>

datatype FilterOperator =
    OpEq | OpNe | OpGt | OpLt | OpGe | OpLe | OpLike | OpNotLike | OpContains | OpStartsWith | OpEndsWith
  | OpIsEmpty | OpIsNotEmpty | OpIsNull | OpIsNotNull | OpIn | OpNotIn | OpBetween

fun operator_text :: "FilterOperator \<Rightarrow> jsstring" where
  "operator_text OpEq = ''=''"
| "operator_text OpNe = ''!=''"
| "operator_text OpGt = ''>''"
| "operator_text OpLt = ''<''"
| "operator_text OpGe = ''>=''"
| "operator_text OpLe = ''<=''"
| "operator_text OpLike = ''LIKE''"
| "operator_text OpNotLike = ''NOT LIKE''"
| "operator_text OpContains = ''contains''"
| "operator_text OpStartsWith = ''starts with''"
| "operator_text OpEndsWith = ''ends with''"
| "operator_text OpIsEmpty = ''is empty''"
| "operator_text OpIsNotEmpty = ''is not empty''"
| "operator_text OpIsNull = ''IS NULL''"
| "operator_text OpIsNotNull = ''IS NOT NULL''"
| "operator_text OpIn = ''IN''"
| "operator_text OpNotIn = ''NOT IN''"
| "operator_text OpBetween = ''BETWEEN''"

datatype FilterMode = FMsql | FMstructured
datatype FilterCombinator = FCand | FCor
datatype FilterQuoteMode = QMauto | QMalways
datatype LikeMatchMode = LMcontains | LMstartsWith | LMendsWith

record StructuredFilter =
  f_id :: jsstring
  f_column :: jsstring
  f_operator :: FilterOperator
  f_value :: jsstring
  f_value2 :: "jsstring option"
  f_enabled :: "bool option"
  f_matchCase :: "bool option"

definition NUMERIC_TYPES :: "jsstring list" where
  "NUMERIC_TYPES =
     [''int'', ''integer'', ''bigint'', ''smallint'', ''tinyint'', ''mediumint'', ''float'', ''double'', ''decimal'',
      ''numeric'', ''real'', ''number'', ''serial'', ''bigserial'']"

definition STRING_TYPES :: "jsstring list" where
  "STRING_TYPES =
     [''char'', ''varchar'', ''text'', ''tinytext'', ''mediumtext'', ''longtext'', ''nchar'', ''nvarchar'', ''clob'', ''string'']"

definition MAX_AUTOCOMPLETE_SUGGESTIONS :: nat where
  "MAX_AUTOCOMPLETE_SUGGESTIONS = 10"

definition filterColumnSuggestions :: "TableColumn list \<Rightarrow> jsstring \<Rightarrow> TableColumn list" where
  "filterColumnSuggestions columns pre =
     (let lowerPrefix = lower pre
      in take MAX_AUTOCOMPLETE_SUGGESTIONS
           (if lowerPrefix \<noteq> [] then filter (\<lambda>c. prefix lowerPrefix (lower (tc_name c))) columns else columns))"

text \<open>\<open>/[a-zA-Z0-9_]+$/\<close> on the text before the cursor, \<open>/^[a-zA-Z0-9_]*/\<close> on the text after it.\<close>

definition getCurrentWordPrefix :: "jsstring \<Rightarrow> nat \<Rightarrow> jsstring" where
  "getCurrentWordPrefix input cursorPos = rev (takeWhile is_ident_char (rev (take cursorPos input)))"

definition replaceCurrentWord :: "jsstring \<Rightarrow> nat \<Rightarrow> jsstring \<Rightarrow> jsstring" where
  "replaceCurrentWord input cursorPos replacement =
     (let after = drop cursorPos input;
          wordStart = cursorPos - length (getCurrentWordPrefix input cursorPos);
          wordEnd = cursorPos + length (takeWhile is_ident_char after)
      in take wordStart input @ replacement @ drop wordEnd input)"

definition getOperatorsForType :: "jsstring \<Rightarrow> FilterOperator list" where
  "getOperatorsForType dataType =
     (let low = lower dataType;
          isNumeric = list_ex (\<lambda>t. sublist t low) NUMERIC_TYPES;
          isString = list_ex (\<lambda>t. sublist t low) STRING_TYPES;
          base = [OpEq, OpNe, OpIsNull, OpIsNotNull]
      in if isNumeric then base @ [OpGt, OpLt, OpGe, OpLe, OpBetween, OpIn, OpNotIn]
         else if isString then base @ [OpLike, OpNotLike, OpContains, OpStartsWith, OpEndsWith, OpIsEmpty, OpIsNotEmpty,
                OpIn, OpNotIn]
         else [OpEq, OpNe, OpGt, OpLt, OpGe, OpLe, OpLike, OpNotLike, OpIsNull, OpIsNotNull, OpIn, OpNotIn, OpBetween])"

section \<open>LIKE clauses\<close>

definition LIKE_ESCAPE :: char where
  "LIKE_ESCAPE = CHR ''!''"

definition escapeLikePattern :: "jsstring \<Rightarrow> jsstring" where
  "escapeLikePattern v =
     replace_char (CHR ''_'') ''!_'' (replace_char (CHR ''%'') ''!%'' (replace_char (CHR ''!'') ''!!'' v))"

definition usesBackslashStringEscapes :: "(nat \<Rightarrow> SqlSyntaxDescriptor) \<Rightarrow> DriverArg \<Rightarrow> bool" where
  "usesBackslashStringEscapes objs driver \<longleftrightarrow> stringEscapeStyle objs driver None = SE_mysql"

definition quoteLiteral :: "(nat \<Rightarrow> SqlSyntaxDescriptor) \<Rightarrow> jsstring \<Rightarrow> DriverArg \<Rightarrow> jsstring" where
  "quoteLiteral objs v driver =
     (if stringEscapeStyle objs driver None = SE_backslash then quoteSqlString objs v driver
      else [SQ] @ replace_char SQ [SQ, SQ] v @ [SQ])"

definition supportsMatchCaseToggle :: "DriverArg \<Rightarrow> bool" where
  "supportsMatchCaseToggle driver = isPostgresDialect driver"

definition like_operator :: "DriverArg \<Rightarrow> bool option \<Rightarrow> bool \<Rightarrow> jsstring" where
  "like_operator driver matchCase negate =
     (let caseOp = (if matchCase = Some False \<and> supportsMatchCaseToggle driver then ''ILIKE'' else ''LIKE'')
      in if negate then ''NOT '' @ caseOp else caseOp)"

definition like_pattern :: "(nat \<Rightarrow> SqlSyntaxDescriptor) \<Rightarrow> jsstring \<Rightarrow> LikeMatchMode \<Rightarrow> DriverArg \<Rightarrow> jsstring" where
  "like_pattern objs v mode driver =
     (let escaped = (if \<not> supportsLikeEscape objs driver
            then concat (map (\<lambda>c. if c = BSL \<or> c = CHR ''%'' \<or> c = CHR ''_'' then [BSL, c] else [c]) v)
            else escapeLikePattern v)
      in case mode of
           LMcontains \<Rightarrow> ''%'' @ escaped @ ''%''
         | LMstartsWith \<Rightarrow> escaped @ ''%''
         | LMendsWith \<Rightarrow> ''%'' @ escaped)"

definition buildLiteralLikeClause ::
  "(nat \<Rightarrow> SqlSyntaxDescriptor) \<Rightarrow> jsstring \<Rightarrow> jsstring \<Rightarrow> LikeMatchMode \<Rightarrow> DriverArg \<Rightarrow> bool option \<Rightarrow> bool \<Rightarrow> jsstring" where
  "buildLiteralLikeClause objs col v mode driver matchCase negate =
     (let likeOp = like_operator driver matchCase negate; pattern = like_pattern objs v mode driver
      in if \<not> supportsLikeEscape objs driver then col @ '' '' @ likeOp @ '' '' @ quoteSqlString objs pattern driver
         else (let literal = (if usesBackslashStringEscapes objs driver then replace_char BSL [BSL, BSL] pattern else pattern)
               in col @ '' '' @ likeOp @ '' '' @ quoteLiteral objs literal driver @ '' ESCAPE '' @ [SQ, LIKE_ESCAPE, SQ]))"

section \<open>Values\<close>

text \<open>\<open>replace(/''/g, "'")\<close> for a quote character.\<close>

fun undouble :: "char \<Rightarrow> jsstring \<Rightarrow> jsstring" where
  "undouble q [] = []"
| "undouble q (c # cs) = (if c = q \<and> next_is q cs then q # undouble q (tl cs) else c # undouble q cs)"

definition inner :: "jsstring \<Rightarrow> jsstring" where
  "inner v = butlast (tl v)"

definition wrapped_in :: "char \<Rightarrow> jsstring \<Rightarrow> bool" where
  "wrapped_in q v \<longleftrightarrow> v \<noteq> [] \<and> hd v = q \<and> last v = q"

definition declaredBooleanFilterLiteral ::
  "(nat \<Rightarrow> SqlSyntaxDescriptor) \<Rightarrow> jsstring \<Rightarrow> jsstring option \<Rightarrow> DriverArg \<Rightarrow> jsstring option" where
  "declaredBooleanFilterLiteral objs v columnType driver =
     (case columnType of None \<Rightarrow> None
      | Some t \<Rightarrow>
          (if t = [] \<or> lower (trim t) \<notin> {''bool'', ''boolean''} then None
           else (case declaredBooleanLiterals objs driver of None \<Rightarrow> None
                 | Some style \<Rightarrow>
                     (let s = trim v;
                          key = lower (if length s \<ge> 2 \<and> wrapped_in SQ s \<and> NL \<notin> set s \<and> CR \<notin> set s then inner s else s)
                      in if key = ''true'' \<or> key = ''1'' then Some (booleanLiteralWithStyle True style)
                         else if key = ''false'' \<or> key = ''0'' then Some (booleanLiteralWithStyle False style)
                         else None))))"

definition quoteIfNeeded :: "(nat \<Rightarrow> SqlSyntaxDescriptor) \<Rightarrow> jsstring \<Rightarrow> DriverArg \<Rightarrow> bool \<Rightarrow> jsstring" where
  "quoteIfNeeded objs v driver doubleQuotedValue =
     (if v = [] then [SQ, SQ]
      else if number_text v then v
      else if wrapped_in SQ v then
        (if stringEscapeStyle objs driver None = SE_backslash \<and> length v \<ge> 2 then quoteLiteral objs (undouble SQ (inner v)) driver
         else v)
      else if doubleQuotedValue \<and> wrapped_in DQ v then quoteLiteral objs (undouble DQ (inner v)) driver
      else if wrapped_in DQ v then v
      else quoteLiteral objs v driver)"

text \<open>\<open>Number(v)\<close> for a text that \<open>number_text\<close> accepts, as the decimal it is.\<close>

definition parse_digits :: "jsstring \<Rightarrow> nat" where
  "parse_digits s = foldl (\<lambda>n c. 10 * n + (code_of c - 48)) 0 s"

definition js_Number :: "jsstring \<Rightarrow> jsval" where
  "js_Number v =
     (let body = (if prefix ''-'' v then tl v else v);
          whole = takeWhile is_digit body; fraction = tl (dropWhile is_digit body);
          m = int (parse_digits (whole @ fraction))
      in JNum (if prefix ''-'' v then - m else m) (length fraction))"

definition quoteValue ::
  "(nat \<Rightarrow> SqlSyntaxDescriptor) \<Rightarrow> (jsstring \<Rightarrow> jsstring option) \<Rightarrow> DriverArg \<Rightarrow> jsstring option \<Rightarrow> jsstring \<Rightarrow> bool \<Rightarrow> jsstring" where
  "quoteValue objs fround driver columnType v doubleQuotedValue =
     (if isMysqlFloatColumn driver columnType \<and> number_text v
      then formatSqlValueForColumnComparison objs fround (js_Number v) driver columnType
      else (case declaredBooleanFilterLiteral objs v columnType driver of
              Some literal \<Rightarrow> literal
            | None \<Rightarrow>
                quoteIfNeeded objs (if usesBackslashStringEscapes objs driver then replace_char BSL [BSL, BSL] v else v)
                  driver doubleQuotedValue))"

text \<open>The list of IN, split at commas outside quoted literals: the state is \<open>start\<close>, \<open>i\<close> and the open quote.\<close>

function split_values_loop :: "jsstring \<Rightarrow> nat \<Rightarrow> nat \<Rightarrow> char option \<Rightarrow> jsstring list" where
  "split_values_loop input start i qt =
     (if i < length input then
        (let c = input ! i in
         case qt of
           Some q \<Rightarrow>
             (if c = q then
                (if char_at input (Suc i) = Some q then split_values_loop input start (i + 2) qt
                 else split_values_loop input start (Suc i) None)
              else split_values_loop input start (Suc i) qt)
         | None \<Rightarrow>
             (if c = SQ \<or> c = DQ then
                split_values_loop input start (Suc i) (if trim (slice input start i) = [] then Some c else None)
              else if c = CHR '','' then trim (slice input start i) # split_values_loop input (Suc i) (Suc i) None
              else split_values_loop input start (Suc i) None))
      else [trim (slice input start (length input))])"
  by pat_completeness auto
termination
  by (relation "measure (\<lambda>(input, start, i, qt). length input - i)") auto

declare split_values_loop.simps [simp del]

definition splitFilterValues :: "jsstring \<Rightarrow> jsstring list" where
  "splitFilterValues input = split_values_loop input 0 0 None"

definition like_mode :: "FilterOperator \<Rightarrow> LikeMatchMode option" where
  "like_mode op =
     (if op = OpContains then Some LMcontains else if op = OpStartsWith then Some LMstartsWith
      else if op = OpEndsWith then Some LMendsWith else None)"

definition buildSingleFilterClause ::
  "(nat \<Rightarrow> SqlSyntaxDescriptor) \<Rightarrow> (jsstring \<Rightarrow> jsstring option) \<Rightarrow> StructuredFilter \<Rightarrow> DriverArg \<Rightarrow> FilterQuoteMode
   \<Rightarrow> jsstring option \<Rightarrow> jsstring" where
  "buildSingleFilterClause objs fround f driver quoteMode columnType =
     (let col = (if quoteMode = QMalways then quoteIdentifier (f_column f) driver else formatSqlIdentifier (f_column f) driver);
          op = f_operator f
      in if op = OpIsNull then col @ '' IS NULL''
         else if op = OpIsNotNull then col @ '' IS NOT NULL''
         else if op = OpIsEmpty then ''('' @ col @ '' IS NULL OR '' @ col @ '' = '' @ [SQ, SQ] @ '')''
         else if op = OpIsNotEmpty then ''NOT ('' @ col @ '' IS NULL OR '' @ col @ '' = '' @ [SQ, SQ] @ '')''
         else (case like_mode op of
             Some mode \<Rightarrow> buildLiteralLikeClause objs col (f_value f) mode driver (Some (f_matchCase f \<noteq> Some False)) False
           | None \<Rightarrow>
               (if op = OpBetween then
                  col @ '' BETWEEN '' @ quoteValue objs fround driver columnType (f_value f) False @ '' AND ''
                    @ quoteValue objs fround driver columnType (case f_value2 f of Some v2 \<Rightarrow> v2 | None \<Rightarrow> []) False
                else if op = OpIn \<or> op = OpNotIn then
                  col @ '' '' @ operator_text op @ '' (''
                    @ join_with '', '' (map (\<lambda>v. quoteValue objs fround driver columnType v True)
                        (filter (\<lambda>v. v \<noteq> []) (splitFilterValues (f_value f)))) @ '')''
                else col @ '' '' @ operator_text op @ '' '' @ quoteValue objs fround driver columnType (f_value f) False)))"

section \<open>All filters\<close>

definition NO_VALUE_OPS :: "FilterOperator list" where
  "NO_VALUE_OPS = [OpIsNull, OpIsNotNull, OpIsEmpty, OpIsNotEmpty]"

definition isFilterComplete :: "StructuredFilter \<Rightarrow> bool" where
  "isFilterComplete f =
     (if f_operator f \<in> set NO_VALUE_OPS then True
      else (case f_operator f of
          OpBetween \<Rightarrow> trim (f_value f) \<noteq> [] \<and> trim (case f_value2 f of Some v2 \<Rightarrow> v2 | None \<Rightarrow> []) \<noteq> []
        | OpIn \<Rightarrow> list_ex (\<lambda>v. v \<noteq> []) (splitFilterValues (f_value f))
        | OpNotIn \<Rightarrow> list_ex (\<lambda>v. v \<noteq> []) (splitFilterValues (f_value f))
        | _ \<Rightarrow> trim (f_value f) \<noteq> []))"

definition active_filter :: "StructuredFilter \<Rightarrow> bool" where
  "active_filter f \<longleftrightarrow> f_column f \<noteq> [] \<and> f_enabled f \<noteq> Some False \<and> isFilterComplete f"

definition buildStructuredFilterClause ::
  "(nat \<Rightarrow> SqlSyntaxDescriptor) \<Rightarrow> (jsstring \<Rightarrow> jsstring option) \<Rightarrow> StructuredFilter list \<Rightarrow> DriverArg \<Rightarrow> FilterCombinator
   \<Rightarrow> FilterQuoteMode \<Rightarrow> TableColumn list \<Rightarrow> jsstring" where
  "buildStructuredFilterClause objs fround filters driver combinator quoteMode columns =
     (let clauses = map (\<lambda>f. buildSingleFilterClause objs fround f driver quoteMode
              (map_option data_type (find (\<lambda>c. tc_name c = f_column f) columns))) (filter active_filter filters);
          joined = join_with (case combinator of FCand \<Rightarrow> '' AND '' | FCor \<Rightarrow> '' OR '') clauses
      in if combinator = FCor \<and> length clauses > 1 then ''('' @ joined @ '')'' else joined)"

definition createEmptyFilter :: "jsstring \<Rightarrow> TableColumn list \<Rightarrow> StructuredFilter" where
  "createEmptyFilter newId columns =
     (let firstColumn = (case columns of c # _ \<Rightarrow> tc_name c | [] \<Rightarrow> []);
          firstType = (case columns of c # _ \<Rightarrow> data_type c | [] \<Rightarrow> [])
      in \<lparr>f_id = newId, f_column = firstColumn, f_operator = hd (getOperatorsForType firstType), f_value = [],
          f_value2 = None, f_enabled = Some True, f_matchCase = None\<rparr>)"

section \<open>The value picker\<close>

text \<open>The picker's own split of the list, with the characters of the item collected in \<open>current\<close>.\<close>

fun split_list_loop :: "jsstring \<Rightarrow> char option \<Rightarrow> jsstring \<Rightarrow> jsstring list" where
  "split_list_loop current qt [] = [current]"
| "split_list_loop current qt (ch # rest) =
     (case qt of
        Some q \<Rightarrow>
          (if ch = q then
             (if next_is q rest then split_list_loop (current @ [ch, q]) qt (tl rest)
              else split_list_loop (current @ [ch]) None rest)
           else split_list_loop (current @ [ch]) qt rest)
      | None \<Rightarrow>
          (if (ch = SQ \<or> ch = DQ) \<and> trim current = [] then split_list_loop (current @ [ch]) (Some ch) rest
           else if ch = CHR '','' then current # split_list_loop [] None rest
           else split_list_loop (current @ [ch]) None rest))"

definition splitInList :: "jsstring \<Rightarrow> jsstring list" where
  "splitInList v = filter (\<lambda>t. t \<noteq> []) (map trim (split_list_loop [] None v))"

definition VALUE_PICKER_LIMIT :: nat where
  "VALUE_PICKER_LIMIT = 100"

record DistinctValue =
  dv_value :: jsstring
  dv_count :: jsval

definition NON_PICKABLE_TYPES :: "jsstring list" where
  "NON_PICKABLE_TYPES = [''blob'', ''bytea'', ''binary'', ''json'', ''image'']"

fun has_word_at :: "bool \<Rightarrow> jsstring \<Rightarrow> jsstring \<Rightarrow> bool" where
  "has_word_at boundary w [] = False"
| "has_word_at boundary w (c # cs) \<longleftrightarrow>
     (boundary \<and> word_at_start w (c # cs)) \<or> has_word_at (\<not> is_ident_char c) w cs"

definition isNestedColumnType :: "jsstring option \<Rightarrow> bool" where
  "isNestedColumnType dataType \<longleftrightarrow>
     (let t = lower (case dataType of Some d \<Rightarrow> d | None \<Rightarrow> []); s = trim_start t
      in list_ex (\<lambda>w. opens_with w (CHR ''<'') s) [''array'', ''struct'', ''map'']
         \<or> trim t \<in> {''struct'', ''record''} \<or> has_word_at True ''repeated'' t)"

definition isValuePickerSupported :: "jsstring \<Rightarrow> bool" where
  "isValuePickerSupported dataType \<longleftrightarrow>
     \<not> isNestedColumnType (Some dataType) \<and> \<not> list_ex (\<lambda>t. sublist t (lower dataType)) NON_PICKABLE_TYPES"

definition buildDistinctValuesQuery ::
  "jsstring \<Rightarrow> jsstring option \<Rightarrow> jsstring \<Rightarrow> DriverArg \<Rightarrow> jsstring option \<Rightarrow> nat \<Rightarrow> jsstring" where
  "buildDistinctValuesQuery table schema column driver whereClause limit =
     (let col = quoteIdentifier column driver;
          conditions = (col @ '' IS NOT NULL'') #
            (case whereClause of None \<Rightarrow> [] | Some w \<Rightarrow> if trim w = [] then [] else [''('' @ trim w @ '')''])
      in ''SELECT '' @ col @ '', COUNT(*) FROM '' @ quoteTableRef table driver schema @ '' WHERE ''
         @ join_with '' AND '' conditions @ '' GROUP BY '' @ col @ '' ORDER BY 2 DESC, 1 LIMIT '' @ nat_str limit)"

definition buildValuePickerWhere ::
  "(nat \<Rightarrow> SqlSyntaxDescriptor) \<Rightarrow> (jsstring \<Rightarrow> jsstring option) \<Rightarrow> StructuredFilter list \<Rightarrow> jsstring \<Rightarrow> DriverArg
   \<Rightarrow> FilterCombinator \<Rightarrow> TableColumn list \<Rightarrow> jsstring" where
  "buildValuePickerWhere objs fround filters excludeId driver combinator columns =
     (if combinator = FCor then []
      else buildStructuredFilterClause objs fround (filter (\<lambda>f. f_id f \<noteq> excludeId) filters) driver FCand QMalways columns)"

definition stringifyCell :: "jsval \<Rightarrow> jsstring" where
  "stringifyCell v =
     (case v of
        JStr s \<Rightarrow> s
      | JArr _ \<Rightarrow> (case stringify v of Some t \<Rightarrow> t | None \<Rightarrow> [])
      | JObj _ \<Rightarrow> (case stringify v of Some t \<Rightarrow> t | None \<Rightarrow> [])
      | JNull \<Rightarrow> ''null''
      | _ \<Rightarrow> js_String v)"

definition filterDistinctValues :: "DistinctValue list \<Rightarrow> jsstring \<Rightarrow> DistinctValue list" where
  "filterDistinctValues values search =
     (let needle = lower (trim search)
      in if needle = [] then values else filter (\<lambda>v. sublist needle (lower (dv_value v))) values)"

definition formatPickedValue :: "jsstring \<Rightarrow> jsstring \<Rightarrow> jsstring" where
  "formatPickedValue v dataType =
     (let isString = list_ex (\<lambda>t. sublist t (lower dataType)) STRING_TYPES;
          needsQuotes = (v = [] \<or> v \<noteq> trim v \<or> CHR '','' \<in> set v \<or> list_ex (\<lambda>c. c = SQ \<or> c = DQ) v
            \<or> (isString \<and> number_text v))
      in if needsQuotes then [SQ] @ replace_char SQ [SQ, SQ] v @ [SQ] else v)"

definition applyPickedValues :: "StructuredFilter \<Rightarrow> jsstring list \<Rightarrow> jsstring \<Rightarrow> StructuredFilter" where
  "applyPickedValues f values dataType =
     (if length values = 0 then f
      else (let negated = (f_operator f = OpNe \<or> f_operator f = OpNotIn); single = (length values = 1);
                operator = (if single then (if negated then OpNe else OpEq) else if negated then OpNotIn else OpIn)
            in f\<lparr>f_operator := operator, f_value := join_with '', '' (map (\<lambda>v. formatPickedValue v dataType) values)\<rparr>))"

definition unquote :: "jsstring \<Rightarrow> jsstring" where
  "unquote item =
     (if length item \<ge> 2 \<and> (hd item = SQ \<or> hd item = DQ) \<and> last item = hd item
      then undouble (hd item) (inner item) else item)"

definition getPickedValues :: "StructuredFilter \<Rightarrow> jsstring list" where
  "getPickedValues f =
     (if f_value f = [] then []
      else if f_operator f = OpEq \<or> f_operator f = OpNe then [unquote (f_value f)]
      else if f_operator f = OpIn \<or> f_operator f = OpNotIn then map unquote (splitInList (f_value f))
      else [])"

end
