(* ===== verification/FilterFacts.thy ===== *)
theory FilterFacts
  imports FilterBar
begin

text \<open>
  What the filter bar's SQL means: how a server reads a string literal back and what LIKE matches are written
  down first; the generated clauses are then shown to say what the user picked or typed.
\<close>

section \<open>Reading a string literal\<close>

text \<open>The value of the character after a backslash. MySQL keeps the backslash of \<open>\%\<close> and \<open>\_\<close>.\<close>

fun unescape :: "StringEscapeStyle \<Rightarrow> char \<Rightarrow> jsstring" where
  "unescape style d =
     (if d = CHR ''0'' then [NUL] else if d = CHR ''n'' then [NL] else if d = CHR ''r'' then [CR]
      else if d = CHR ''t'' then [TAB]
      else if style = SE_mysql \<and> (d = CHR ''%'' \<or> d = CHR ''_'') then [BSL, d] else [d])"

fun read_body :: "StringEscapeStyle \<Rightarrow> jsstring \<Rightarrow> jsstring option" where
  "read_body style [] = None"
| "read_body style (c # cs) =
     (if c = SQ then
        (if style \<noteq> SE_backslash \<and> next_is SQ cs then map_option (Cons SQ) (read_body style (tl cs))
         else if cs = [] then Some [] else None)
      else if c = BSL \<and> style \<noteq> SE_standard then
        (case cs of [] \<Rightarrow> None | d # ds \<Rightarrow> map_option ((@) (unescape style d)) (read_body style ds))
      else map_option (Cons c) (read_body style cs))"

fun read_literal :: "StringEscapeStyle \<Rightarrow> jsstring \<Rightarrow> jsstring option" where
  "read_literal style [] = None"
| "read_literal style (c # cs) = (if c = SQ then read_body style cs else None)"

lemma append_single [simp]: "(@) [c] = (#) c"
  by (rule ext) simp

lemma read_body_escape1: "read_body style (escape1 style c @ rest) = map_option (Cons c) (read_body style rest)"
  by (cases style) (auto simp: next_is_def split: list.split)

lemma read_body_code: "read_body style (concat (map (escape1 style) v) @ [SQ]) = Some v"
  by (induction v) (simp_all add: read_body_escape1 next_is_def)

lemma read_quoted_literal: "read_literal style (quoteSqlStringWithStyle v style) = Some v"
  by (simp add: quoteSqlStringWithStyle_def escapeString_code read_body_code)

text \<open>The filter bar writes NUL as it is and doubles backslashes by itself where the style is the MySQL one.\<close>

fun plain1 :: "StringEscapeStyle \<Rightarrow> char \<Rightarrow> jsstring" where
  "plain1 style c = (if c = SQ then [SQ, SQ] else if c = BSL \<and> style = SE_mysql then [BSL, BSL] else [c])"

lemma read_body_plain1:
  "style \<noteq> SE_backslash \<Longrightarrow> read_body style (plain1 style c @ rest) = map_option (Cons c) (read_body style rest)"
  by (cases style) (auto simp: next_is_def split: list.split)

lemma read_body_plain: "style \<noteq> SE_backslash \<Longrightarrow> read_body style (concat (map (plain1 style) v) @ [SQ]) = Some v"
proof (induction v)
  case (Cons c v)
  then show ?case by (simp del: plain1.simps read_body.simps add: read_body_plain1)
qed (simp add: next_is_def)

definition doubled :: "(nat \<Rightarrow> SqlSyntaxDescriptor) \<Rightarrow> DriverArg \<Rightarrow> jsstring \<Rightarrow> jsstring" where
  "doubled objs driver v = (if usesBackslashStringEscapes objs driver then replace_char BSL [BSL, BSL] v else v)"

lemma replace_two: "replace_char SQ [SQ, SQ] (replace_char BSL [BSL, BSL] v) = concat (map (plain1 SE_mysql) v)"
  by (induction v) (auto simp: replace_char_def)

lemma replace_one: "style \<noteq> SE_mysql \<Longrightarrow> replace_char SQ [SQ, SQ] v = concat (map (plain1 style) v)"
  by (induction v) (auto simp: replace_char_def)

lemma quoteLiteral_doubled_shape:
  "quoteLiteral objs (doubled objs driver v) driver =
     (if stringEscapeStyle objs driver None = SE_backslash then quoteSqlStringWithStyle v SE_backslash
      else [SQ] @ concat (map (plain1 (stringEscapeStyle objs driver None)) v) @ [SQ])"
  by (cases "stringEscapeStyle objs driver None")
     (simp_all add: quoteLiteral_def doubled_def usesBackslashStringEscapes_def quoteSqlString_def replace_two replace_one
        del: plain1.simps)

lemma quoteLiteral_reads_back:
  "read_literal (stringEscapeStyle objs driver None) (quoteLiteral objs (doubled objs driver v) driver) = Some v"
  unfolding quoteLiteral_doubled_shape using read_quoted_literal [of SE_backslash v]
  by (simp add: read_body_plain del: plain1.simps read_body.simps)

section \<open>LIKE\<close>

text \<open>\<open>s LIKE p ESCAPE e\<close>.\<close>

function like_matches :: "char \<Rightarrow> jsstring \<Rightarrow> jsstring \<Rightarrow> bool" where
  "like_matches e [] s \<longleftrightarrow> s = []"
| "like_matches e (c # p) s \<longleftrightarrow>
     (if c = e then (case (p, s) of (d # p', x # s') \<Rightarrow> x = d \<and> like_matches e p' s' | _ \<Rightarrow> False)
      else if c = CHR ''%'' then like_matches e p s \<or> (case s of [] \<Rightarrow> False | x # s' \<Rightarrow> like_matches e (c # p) s')
      else (case s of [] \<Rightarrow> False | x # s' \<Rightarrow> (c = CHR ''_'' \<or> x = c) \<and> like_matches e p s'))"
  by pat_completeness auto
termination
  by (relation "measure (\<lambda>(e, p, s). length p + length s)") auto

declare like_matches.simps(2) [simp del]

fun like1 :: "char \<Rightarrow> char \<Rightarrow> jsstring" where
  "like1 e c = (if c = e \<or> c = CHR ''%'' \<or> c = CHR ''_'' then [e, c] else [c])"

lemma like_char:
  "like_matches e (like1 e c @ p) s \<longleftrightarrow> (case s of [] \<Rightarrow> False | x # s' \<Rightarrow> x = c \<and> like_matches e p s')"
  by (auto simp: like_matches.simps(2) split: list.splits)

lemma like_literal:
  "like_matches e (concat (map (like1 e) v) @ p) s \<longleftrightarrow> prefix v s \<and> like_matches e p (drop (length v) s)"
proof (induction v arbitrary: s)
  case (Cons c v)
  then show ?case by (cases s) (auto simp: like_char simp del: like1.simps)
qed simp

lemma list_ex_upt_Suc: "list_ex P [0..<Suc n] \<longleftrightarrow> P 0 \<or> list_ex (\<lambda>k. P (Suc k)) [0..<n]"
  by (auto simp: list_ex_iff less_Suc_eq_0_disj simp del: upt_Suc)

lemma suffix_iff_drop: "suffix v s \<longleftrightarrow> (\<exists>k \<le> length s. drop k s = v)"
proof
  assume "suffix v s"
  then obtain zs where "s = zs @ v" by (auto simp: suffix_def)
  then show "\<exists>k \<le> length s. drop k s = v" by (intro exI [of _ "length zs"]) simp
next
  assume "\<exists>k \<le> length s. drop k s = v"
  then show "suffix v s" by (auto simp: suffix_drop)
qed

lemma like_percent:
  assumes "e \<noteq> CHR ''%''"
  shows "like_matches e (CHR ''%'' # p) s \<longleftrightarrow> list_ex (\<lambda>k. like_matches e p (drop k s)) [0..<Suc (length s)]"
proof (induction s)
  case Nil
  then show ?case using assms by (simp add: like_matches.simps(2))
next
  case (Cons x s)
  have "list_ex (\<lambda>k. like_matches e p (drop k (x # s))) [0..<Suc (length (x # s))]
      \<longleftrightarrow> like_matches e p (x # s) \<or> list_ex (\<lambda>k. like_matches e p (drop k s)) [0..<Suc (length s)]"
    unfolding list_ex_upt_Suc [of _ "length (x # s)"] by (simp del: upt_Suc)
  with Cons assms show ?case by (subst like_matches.simps(2)) (simp del: upt_Suc)
qed

lemma like_all: "e \<noteq> CHR ''%'' \<Longrightarrow> like_matches e ''%'' s = True"
  by (auto simp: like_percent list_ex_iff intro!: bexI [of _ "length s"])

fun mode_matches :: "LikeMatchMode \<Rightarrow> jsstring \<Rightarrow> jsstring \<Rightarrow> bool" where
  "mode_matches LMcontains v s \<longleftrightarrow> sublist v s"
| "mode_matches LMstartsWith v s \<longleftrightarrow> prefix v s"
| "mode_matches LMendsWith v s \<longleftrightarrow> suffix v s"

fun mode_pattern :: "LikeMatchMode \<Rightarrow> jsstring \<Rightarrow> jsstring" where
  "mode_pattern LMcontains t = ''%'' @ t @ ''%''"
| "mode_pattern LMstartsWith t = t @ ''%''"
| "mode_pattern LMendsWith t = ''%'' @ t"

lemma like_mode_pattern:
  assumes "e \<noteq> CHR ''%''"
  shows "like_matches e (mode_pattern mode (concat (map (like1 e) v))) s \<longleftrightarrow> mode_matches mode v s"
proof (cases mode)
  case LMcontains
  have "like_matches e (mode_pattern mode (concat (map (like1 e) v))) s
      \<longleftrightarrow> (\<exists>k \<le> length s. prefix v (drop k s))"
  proof -
    have "like_matches e (concat (map (like1 e) v) @ ''%'') t \<longleftrightarrow> prefix v t" for t
      using assms by (simp only: like_literal like_all [OF assms] simp_thms)
    then show ?thesis using assms
      by (simp add: LMcontains like_percent [OF assms, of "concat (map (like1 e) v) @ ''%''"] list_ex_iff del: like1.simps upt_Suc)
         (simp add: Bex_def less_Suc_eq_le)
  qed
  also have "\<dots> \<longleftrightarrow> sublist v s"
  proof
    assume "\<exists>k \<le> length s. prefix v (drop k s)"
    then obtain k t where "drop k s = v @ t" by (auto elim: prefixE)
    then have "s = take k s @ v @ t" by (metis append_take_drop_id)
    then show "sublist v s" by (auto simp: sublist_def)
  next
    assume "sublist v s"
    then obtain a b where "s = a @ v @ b" by (auto simp: sublist_def)
    then show "\<exists>k \<le> length s. prefix v (drop k s)" by (intro exI [of _ "length a"]) simp
  qed
  finally show ?thesis by (simp add: LMcontains)
next
  case LMstartsWith
  then show ?thesis using assms by (simp add: like_literal like_all del: like1.simps)
next
  case LMendsWith
  have "like_matches e (mode_pattern mode (concat (map (like1 e) v))) s
      \<longleftrightarrow> (\<exists>k \<le> length s. drop k s = v)"
  proof -
    have "like_matches e (concat (map (like1 e) v)) t \<longleftrightarrow> t = v" for t
      using like_literal [of e v "[]" t] by (auto simp del: like1.simps elim!: prefixE)
    then show ?thesis using assms
      by (simp add: LMendsWith like_percent list_ex_iff del: like1.simps upt_Suc) (simp add: Bex_def less_Suc_eq_le)
  qed
  then show ?thesis by (simp add: LMendsWith suffix_iff_drop)
qed

lemma escapeLikePattern_code: "escapeLikePattern v = concat (map (like1 LIKE_ESCAPE) v)"
  by (induction v) (auto simp: escapeLikePattern_def replace_char_def LIKE_ESCAPE_def)

definition like_escape_char :: "(nat \<Rightarrow> SqlSyntaxDescriptor) \<Rightarrow> DriverArg \<Rightarrow> char" where
  "like_escape_char objs driver = (if supportsLikeEscape objs driver then LIKE_ESCAPE else BSL)"

lemma like_pattern_code:
  "like_pattern objs v mode driver = mode_pattern mode (concat (map (like1 (like_escape_char objs driver)) v))"
proof -
  have "concat (map (\<lambda>c. if c = BSL \<or> c = CHR ''%'' \<or> c = CHR ''_'' then [BSL, c] else [c]) v)
      = concat (map (like1 BSL) v)" by (induction v) simp_all
  then show ?thesis
    by (cases mode) (simp_all add: like_pattern_def like_escape_char_def escapeLikePattern_code Let_def del: like1.simps)
qed

lemma like_clause_shape:
  "buildLiteralLikeClause objs col v mode driver matchCase negate =
     (let pattern = like_pattern objs v mode driver in
      col @ '' '' @ like_operator driver matchCase negate @ '' ''
        @ (if supportsLikeEscape objs driver then quoteLiteral objs (doubled objs driver pattern) driver
           else quoteSqlString objs pattern driver)
        @ (if supportsLikeEscape objs driver then '' ESCAPE '' @ [SQ, LIKE_ESCAPE, SQ] else []))"
  by (simp add: buildLiteralLikeClause_def Let_def doubled_def)

text \<open>C6 (like_filter_is_literal): on every driver the clause for contains, starts with and ends with is a LIKE
  whose literal the server reads as a pattern that matches exactly the values containing, starting or ending with
  the text the user typed, wildcards, quotes and backslashes included.\<close>

theorem like_filter_is_literal:
  "\<exists>literal pattern.
     buildLiteralLikeClause objs col v mode driver matchCase negate =
       col @ '' '' @ like_operator driver matchCase negate @ '' '' @ literal
         @ (if supportsLikeEscape objs driver then '' ESCAPE '' @ [SQ, LIKE_ESCAPE, SQ] else [])
     \<and> read_literal (stringEscapeStyle objs driver None) literal = Some pattern
     \<and> (\<forall>s. like_matches (like_escape_char objs driver) pattern s \<longleftrightarrow> mode_matches mode v s)"
proof (intro exI conjI allI)
  let ?p = "like_pattern objs v mode driver"
  let ?l = "if supportsLikeEscape objs driver then quoteLiteral objs (doubled objs driver ?p) driver
    else quoteSqlString objs ?p driver"
  show "buildLiteralLikeClause objs col v mode driver matchCase negate =
       col @ '' '' @ like_operator driver matchCase negate @ '' '' @ ?l
         @ (if supportsLikeEscape objs driver then '' ESCAPE '' @ [SQ, LIKE_ESCAPE, SQ] else [])"
    by (simp add: like_clause_shape Let_def)
  show "read_literal (stringEscapeStyle objs driver None) ?l = Some ?p"
    by (simp add: quoteLiteral_reads_back quoteSqlString_def read_quoted_literal)
  show "like_matches (like_escape_char objs driver) ?p s \<longleftrightarrow> mode_matches mode v s" for s
    unfolding like_pattern_code by (rule like_mode_pattern) (simp add: like_escape_char_def LIKE_ESCAPE_def)
qed

section \<open>Two splitters of one list\<close>

lemma slice_snoc: "a \<le> i \<Longrightarrow> i < length s \<Longrightarrow> slice s a i @ [s ! i] = slice s a (Suc i)"
  by (simp add: slice_def Suc_diff_le take_Suc_conv_app_nth)

lemma next_is_char_at: "next_is q (drop i s) \<longleftrightarrow> char_at s i = Some q"
  by (cases "i < length s") (auto simp: next_is_def char_at_def Cons_nth_drop_Suc [symmetric])

lemma split_loops_agree:
  "start \<le> i \<Longrightarrow> i \<le> length input \<Longrightarrow>
   map trim (split_list_loop (slice input start i) qt (drop i input)) = split_values_loop input start i qt"
proof (induction input start i qt rule: split_values_loop.induct)
  case (1 input start i qt)
  show ?case
  proof (cases "i < length input")
    case True
    then have d: "drop i input = input ! i # drop (Suc i) input" by (simp add: Cons_nth_drop_Suc)
    have s: "slice input start i @ [input ! i] = slice input start (Suc i)" using True "1.prems" by (simp add: slice_snoc)
    have n: "slice input (Suc i) (Suc i) = []" by simp
    show ?thesis
    proof (cases qt)
      case None
      have sx: "slice input start i @ [x] = slice input start (Suc i)" if "input ! i = x" for x using s that by simp
      show ?thesis using None True "1.prems" "1.IH"(1-3) [OF True refl None] n
        by (subst split_values_loop.simps) (auto simp: d Let_def sx)
    next
      case (Some q)
      show ?thesis
      proof (cases "input ! i = q \<and> char_at input (Suc i) = Some q")
        case two: True
        then have l: "Suc i < length input" "input ! Suc i = q" by (simp_all add: char_at_Some)
        have "slice input start i @ [q, q] = slice input start (i + 2)"
          using s two slice_snoc [of start "Suc i" input] "1.prems" l by simp (metis append_Cons append_Nil append_assoc)
        moreover have "drop (i + 2) input = tl (drop (Suc i) input)" by (simp add: drop_Suc tl_drop)
        ultimately show ?thesis using True Some "1.prems" "1.IH"(4) [OF True refl Some] two l
          by (subst split_values_loop.simps) (simp add: d next_is_char_at Let_def)
      next
        case False
        then show ?thesis using True Some "1.prems" "1.IH"(5,6) [OF True refl Some] s
          by (subst split_values_loop.simps) (auto simp: d next_is_char_at Let_def)
      qed
    qed
  next
    case False
    then show ?thesis using "1.prems" by (subst split_values_loop.simps) simp
  qed
qed

text \<open>Property (in_lists_split_alike): the clause builder and the value picker split a list of values at the same
  commas: the picker shows ticked exactly the items the clause compares with.\<close>

theorem in_lists_split_alike:
  "splitInList v = filter (\<lambda>t. t \<noteq> []) (splitFilterValues v)"
  using split_loops_agree [of 0 0 v None] by (simp add: splitInList_def splitFilterValues_def)

section \<open>Picked values\<close>

definition dbl :: "jsstring \<Rightarrow> jsstring" where
  "dbl v = replace_char SQ [SQ, SQ] v"

lemma dbl_simps [simp]: "dbl [] = []" "dbl (c # v) = (if c = SQ then [SQ, SQ] else [c]) @ dbl v"
  by (simp_all add: dbl_def replace_char_def)

lemma undouble_dbl [simp]: "undouble SQ (dbl v) = v"
  by (induction v) (auto simp: next_is_def split: list.split)

definition plain_value :: "jsstring \<Rightarrow> bool" where
  "plain_value v \<longleftrightarrow> v \<noteq> [] \<and> trim v = v \<and> CHR '','' \<notin> set v \<and> SQ \<notin> set v \<and> DQ \<notin> set v"

lemma formatPickedValue_cases:
  "formatPickedValue v ty = [SQ] @ dbl v @ [SQ] \<or> formatPickedValue v ty = v \<and> plain_value v"
  by (auto simp: formatPickedValue_def dbl_def plain_value_def Let_def list_ex_iff)

lemma inner_wrapped [simp]: "inner (q # s @ [q]) = s" "wrapped_in q (q # s @ [q])"
  by (simp_all add: inner_def wrapped_in_def)

lemma unquote_picked: "unquote (formatPickedValue v ty) = v"
proof (rule disjE [OF formatPickedValue_cases [of v ty]])
  assume "formatPickedValue v ty = [SQ] @ dbl v @ [SQ]"
  then show ?thesis using inner_wrapped(1) [of SQ "dbl v"] by (simp add: unquote_def)
next
  assume "formatPickedValue v ty = v \<and> plain_value v"
  then show ?thesis by (cases v) (auto simp: unquote_def plain_value_def)
qed

lemma split_quoted:
  "\<not> next_is SQ rest \<Longrightarrow> split_list_loop cur (Some SQ) (dbl v @ SQ # rest) = split_list_loop (cur @ dbl v @ [SQ]) None rest"
proof (induction v arbitrary: cur)
  case (Cons c v)
  then show ?case by (auto simp: next_is_def)
qed simp

lemma split_plain:
  "CHR '','' \<notin> set v \<Longrightarrow> SQ \<notin> set v \<Longrightarrow> DQ \<notin> set v \<Longrightarrow>
   split_list_loop cur None (v @ rest) = split_list_loop (cur @ v) None rest"
  by (induction v arbitrary: cur) auto

lemma trim_blank: "list_all is_space s \<Longrightarrow> trim s = []"
  by (auto simp: trim_def list_all_iff dropWhile_eq_Nil_conv dest: set_dropWhileD)

lemma split_picked:
  assumes "list_all is_space sp" "rest = [] \<or> hd rest = CHR '',''"
  shows "split_list_loop sp None (formatPickedValue v ty @ rest) = split_list_loop (sp @ formatPickedValue v ty) None rest"
proof (rule disjE [OF formatPickedValue_cases [of v ty]])
  assume "formatPickedValue v ty = [SQ] @ dbl v @ [SQ]"
  moreover have "\<not> next_is SQ rest" using assms(2) by (cases rest) (auto simp: next_is_def)
  ultimately show ?thesis using trim_blank [OF assms(1)] by (simp add: split_quoted)
next
  assume "formatPickedValue v ty = v \<and> plain_value v"
  then show ?thesis by (simp add: plain_value_def split_plain)
qed

lemma trim_picked: "list_all is_space sp \<Longrightarrow> trim (sp @ formatPickedValue v ty) = formatPickedValue v ty"
proof -
  assume sp: "list_all is_space sp"
  have e: "formatPickedValue v ty \<noteq> [] \<and> \<not> is_space (hd (formatPickedValue v ty)) \<and> \<not> is_space (last (formatPickedValue v ty))"
    using formatPickedValue_cases [of v ty] trimmed_edges [of v]
    by (auto simp: plain_value_def is_space_def code_of_def)
  have "dropWhile is_space (sp @ formatPickedValue v ty) = formatPickedValue v ty"
    using sp e by (cases "formatPickedValue v ty") (auto simp: list_all_iff)
  then have "trim (sp @ formatPickedValue v ty) = trim (formatPickedValue v ty)"
    using e by (cases "formatPickedValue v ty") (auto simp: trim_def)
  then show ?thesis using e trim_id by simp
qed

lemma split_join_picked:
  "vals \<noteq> [] \<Longrightarrow> list_all is_space sp \<Longrightarrow>
   map trim (split_list_loop sp None (join_with '', '' (map (\<lambda>v. formatPickedValue v ty) vals)))
     = map (\<lambda>v. formatPickedValue v ty) vals"
proof (induction vals arbitrary: sp)
  case (Cons v vs)
  show ?case
  proof (cases vs)
    case Nil
    then show ?thesis using split_picked [of sp "[]" v ty] Cons.prems trim_picked by simp
  next
    case (Cons w ws)
    let ?j = "join_with '', '' (map (\<lambda>v. formatPickedValue v ty) vs)"
    have "join_with '', '' (map (\<lambda>v. formatPickedValue v ty) (v # vs)) = formatPickedValue v ty @ CHR '','' # SP # ?j"
      using Cons by simp
    moreover have "split_list_loop sp None (formatPickedValue v ty @ CHR '','' # SP # ?j)
        = (sp @ formatPickedValue v ty) # split_list_loop [SP] None ?j"
      using split_picked [of sp "CHR '','' # SP # ?j" v ty] Cons.prems by simp
    moreover have "map trim (split_list_loop [SP] None ?j) = map (\<lambda>v. formatPickedValue v ty) vs"
      by (rule Cons.IH) (use Cons in \<open>simp_all add: is_space_def code_of_def\<close>)
    ultimately show ?thesis using Cons.prems(2) trim_picked by simp
  qed
qed simp

lemma formatPickedValue_not_Nil [simp]: "formatPickedValue v ty \<noteq> []"
  using formatPickedValue_cases [of v ty] by (auto simp: plain_value_def)

lemma splitFilterValues_picked:
  "vals \<noteq> [] \<Longrightarrow> splitFilterValues (join_with '', '' (map (\<lambda>v. formatPickedValue v ty) vals))
     = map (\<lambda>v. formatPickedValue v ty) vals"
  using split_loops_agree [of 0 0 "join_with '', '' (map (\<lambda>v. formatPickedValue v ty) vals)" None]
    split_join_picked [of vals "[]" ty]
  by (simp add: splitFilterValues_def)

text \<open>Property (picked_values_come_back): the values ticked in the picker are the ones it opens with again, in order,
  whatever characters they hold.\<close>

theorem picked_values_come_back:
  assumes "vals \<noteq> []"
  shows "getPickedValues (applyPickedValues f vals ty) = vals"
proof (cases "length vals = 1")
  case True
  then obtain v where "vals = [v]" by (auto simp: length_Suc_conv)
  then show ?thesis by (simp add: applyPickedValues_def getPickedValues_def unquote_picked)
next
  case False
  let ?j = "join_with '', '' (map (\<lambda>v. formatPickedValue v ty) vals)"
  from assms False obtain v w vs where "vals = v # w # vs" by (cases vals; cases "tl vals") auto
  then have "?j \<noteq> []" by simp
  moreover have "splitInList ?j = map (\<lambda>v. formatPickedValue v ty) vals"
    unfolding in_lists_split_alike splitFilterValues_picked [OF assms] by (simp add: filter_id_conv)
  ultimately show ?thesis using assms False
    by (simp add: applyPickedValues_def getPickedValues_def Let_def comp_def unquote_picked)
qed

lemma picked_values_come_back_witness:
  "let f = \<lparr>f_id = ''1'', f_column = ''city'', f_operator = OpNotIn, f_value = [], f_value2 = None, f_enabled = None,
       f_matchCase = None\<rparr>
   in getPickedValues (applyPickedValues f [''Paris, TX'', [SQ], '' x'', ''12''] ''text'') = [''Paris, TX'', [SQ], '' x'', ''12'']"
  unfolding Let_def by (rule picked_values_come_back) simp

section \<open>Picked values in the clause\<close>

lemma number_text_chars: "number_text s \<Longrightarrow> BSL \<notin> set s \<and> SQ \<notin> set s \<and> DQ \<notin> set s"
proof -
  have d: "\<not> is_digit c" if "c \<in> {BSL, SQ, DQ}" for c using that by (auto simp: is_digit_def code_of_def)
  have u: "c \<notin> set s" if "unsigned_number s" "c \<in> {BSL, SQ, DQ}" for s c
  proof -
    have "c \<notin> set (takeWhile is_digit s)" using d [OF that(2)] by (auto dest: set_takeWhileD)
    moreover have "c \<notin> set (dropWhile is_digit s)"
      using that d [OF that(2)] by (auto simp: unsigned_number_def digits1_def list_all_iff split: list.splits dest: set_dropWhileD)
    ultimately show ?thesis by (metis UnE set_append takeWhile_dropWhile_id)
  qed
  assume "number_text s"
  then show ?thesis using u [of s] u [of "tl s"] by (cases s) (auto simp: number_text_def split: if_splits)
qed

definition denotes :: "StringEscapeStyle \<Rightarrow> jsstring \<Rightarrow> jsstring \<Rightarrow> bool" where
  "denotes style literal v \<longleftrightarrow> read_literal style literal = Some v \<or> (literal = v \<and> number_text v)"

lemma doubled_id: "BSL \<notin> set v \<Longrightarrow> doubled objs driver v = v"
  by (induction v) (auto simp: doubled_def replace_char_def)

lemma set_doubled: "set (doubled objs driver v) = set v"
  by (induction v) (auto simp: doubled_def replace_char_def)

lemma doubled_Nil [simp]: "doubled objs driver v = [] \<longleftrightarrow> v = []"
  using set_doubled [of objs driver v] by (metis set_empty)

lemma doubled_dbl:
  "stringEscapeStyle objs driver None \<noteq> SE_backslash \<Longrightarrow>
   doubled objs driver (dbl v) = concat (map (plain1 (stringEscapeStyle objs driver None)) v)"
  by (induction v) (auto simp: doubled_def replace_char_def usesBackslashStringEscapes_def dbl_def split: if_splits)

lemma doubled_backslash: "stringEscapeStyle objs driver None = SE_backslash \<Longrightarrow> doubled objs driver v = v"
  by (simp add: doubled_def usesBackslashStringEscapes_def)

lemma doubled_quoted: "doubled objs driver ([SQ] @ s @ [SQ]) = [SQ] @ doubled objs driver s @ [SQ]"
  by (simp add: doubled_def replace_char_def)

lemma quoteIfNeeded_picked:
  "denotes (stringEscapeStyle objs driver None)
     (quoteIfNeeded objs (doubled objs driver (formatPickedValue v ty)) driver dq) v"
proof (rule disjE [OF formatPickedValue_cases [of v ty]])
  assume f: "formatPickedValue v ty = [SQ] @ dbl v @ [SQ]"
  let ?d = "doubled objs driver (dbl v)"
  have w: "\<not> number_text ([SQ] @ ?d @ [SQ])" using number_text_chars [of "[SQ] @ ?d @ [SQ]"] by auto
  show ?thesis
  proof (cases "stringEscapeStyle objs driver None = SE_backslash")
    case True
    have "quoteIfNeeded objs ([SQ] @ ?d @ [SQ]) driver dq = quoteLiteral objs v driver"
      using True w inner_wrapped [of SQ "dbl v"] by (simp add: quoteIfNeeded_def doubled_backslash)
    then show ?thesis
      using quoteLiteral_reads_back [of objs driver v] True by (simp add: denotes_def f doubled_quoted [simplified] doubled_backslash)
  next
    case False
    have "quoteIfNeeded objs ([SQ] @ ?d @ [SQ]) driver dq = [SQ] @ ?d @ [SQ]"
      using False w inner_wrapped [of SQ ?d] by (simp add: quoteIfNeeded_def)
    then show ?thesis
      using False read_body_plain [OF False, of v]
      by (simp add: denotes_def f doubled_quoted [simplified] doubled_dbl del: plain1.simps read_body.simps)
  qed
next
  assume f: "formatPickedValue v ty = v \<and> plain_value v"
  show ?thesis
  proof (cases "number_text v")
    case True
    then have "doubled objs driver v = v" using number_text_chars by (simp add: doubled_id)
    with True f show ?thesis by (simp add: denotes_def quoteIfNeeded_def plain_value_def)
  next
    case False
    let ?d = "doubled objs driver v"
    have s: "SQ \<notin> set ?d" "DQ \<notin> set ?d" "?d \<noteq> []" using f by (auto simp: set_doubled plain_value_def)
    have "\<not> number_text ?d"
      using False number_text_chars [of ?d] doubled_id [of v objs driver] by (auto simp: set_doubled)
    moreover have "\<not> wrapped_in SQ ?d" "\<not> wrapped_in DQ ?d"
      unfolding wrapped_in_def using s hd_in_set [OF s(3)] by metis+
    ultimately have "quoteIfNeeded objs ?d driver dq = quoteLiteral objs ?d driver"
      using s(3) by (simp add: quoteIfNeeded_def)
    then show ?thesis using f quoteLiteral_reads_back [of objs driver v] by (simp add: denotes_def)
  qed
qed

lemma quoteValue_picked:
  assumes "\<not> isMysqlFloatColumn driver columnType" "declaredBooleanLiterals objs driver = None"
  shows "denotes (stringEscapeStyle objs driver None)
     (quoteValue objs fround driver columnType (formatPickedValue v ty) dq) v"
proof -
  have "declaredBooleanFilterLiteral objs w columnType driver = None" for w
    using assms(2) by (simp add: declaredBooleanFilterLiteral_def split: option.split)
  with assms(1) quoteIfNeeded_picked [of objs driver v ty dq] show ?thesis
    by (simp add: quoteValue_def doubled_def)
qed

definition filter_column :: "StructuredFilter \<Rightarrow> DriverArg \<Rightarrow> FilterQuoteMode \<Rightarrow> jsstring" where
  "filter_column f driver quoteMode =
     (if quoteMode = QMalways then quoteIdentifier (f_column f) driver else formatSqlIdentifier (f_column f) driver)"



text \<open>Property (lone_quote_stays_open): a value that is one quote counts as a quoted literal, so the filter is complete but
  its clause ends in a literal that never closes.\<close>

theorem lone_quote_stays_open:
  "let f = \<lparr>f_id = ''1'', f_column = ''name'', f_operator = OpEq, f_value = [SQ], f_value2 = None, f_enabled = None,
       f_matchCase = None\<rparr>
   in active_filter f
    \<and> buildSingleFilterClause objs fround f (ArgId ''sqlite'') QMalways (Some ''text'') = [DQ] @ ''name'' @ [DQ] @ '' = '' @ [SQ]
    \<and> read_literal (stringEscapeStyle objs (ArgId ''sqlite'') None) [SQ] = None"
proof -
  have s: "stringEscapeStyle objs (ArgId ''sqlite'') None = SE_standard"
    by (simp add: stringEscapeStyle_def escapeById_def MYSQL_ESCAPE_DRIVER_IDS_def)
  have q: "quoteIdentifier ''name'' (ArgId ''sqlite'') = [DQ] @ ''name'' @ [DQ]" by code_simp
  have n: "\<not> number_text [SQ]" "\<not> isMysqlFloatColumn (ArgId ''sqlite'') (Some ''text'')" "trim [SQ] \<noteq> []" by code_simp+
  show ?thesis
    by (simp add: buildSingleFilterClause_def q s n quoteValue_def quoteIfNeeded_def like_mode_def wrapped_in_def
        declaredBooleanFilterLiteral_def declaredBooleanLiterals_def usesBackslashStringEscapes_def
        active_filter_def isFilterComplete_def NO_VALUE_OPS_def split: option.split)
qed

end
