(* ===== verification/CellFilter.thy ===== *)
theory CellFilter
  imports FilterFacts
begin

text \<open>
  Filters made from a cell of the grid (\<open>utils/cellValueFilter.ts\<close>) and what the comparison literals of
  \<open>utils/foreignKeys.ts\<close> mean to the server.
\<close>

datatype CellValueFilterOperator =
    CvEq | CvNe | CvGt | CvGe | CvLt | CvLe | CvContains | CvNotContains | CvStartsWith | CvEndsWith | CvIsNull | CvIsNotNull

fun cell_operator_text :: "CellValueFilterOperator \<Rightarrow> jsstring" where
  "cell_operator_text CvEq = ''=''"
| "cell_operator_text CvNe = ''<>''"
| "cell_operator_text CvGt = ''>''"
| "cell_operator_text CvGe = ''>=''"
| "cell_operator_text CvLt = ''<''"
| "cell_operator_text CvLe = ''<=''"
| "cell_operator_text CvContains = ''contains''"
| "cell_operator_text CvNotContains = ''not contains''"
| "cell_operator_text CvStartsWith = ''starts with''"
| "cell_operator_text CvEndsWith = ''ends with''"
| "cell_operator_text CvIsNull = ''IS NULL''"
| "cell_operator_text CvIsNotNull = ''IS NOT NULL''"

definition buildCellValueFilterClause ::
  "(nat \<Rightarrow> SqlSyntaxDescriptor) \<Rightarrow> (jsstring \<Rightarrow> jsstring option) \<Rightarrow> jsstring \<Rightarrow> CellValueFilterOperator \<Rightarrow> jsval \<Rightarrow> DriverArg
   \<Rightarrow> jsstring option \<Rightarrow> jsstring" where
  "buildCellValueFilterClause objs fround column operator v driver columnType =
     (let col = quoteIdentifier column driver in
      case operator of
        CvIsNull \<Rightarrow> col @ '' IS NULL''
      | CvIsNotNull \<Rightarrow> col @ '' IS NOT NULL''
      | CvContains \<Rightarrow> buildLiteralLikeClause objs col (js_String v) LMcontains driver None False
      | CvStartsWith \<Rightarrow> buildLiteralLikeClause objs col (js_String v) LMstartsWith driver None False
      | CvEndsWith \<Rightarrow> buildLiteralLikeClause objs col (js_String v) LMendsWith driver None False
      | CvNotContains \<Rightarrow> buildLiteralLikeClause objs col (js_String v) LMcontains driver None True
      | _ \<Rightarrow> col @ '' '' @ cell_operator_text operator @ '' ''
               @ formatSqlValueForColumnComparison objs fround v driver columnType)"

definition combineFilterClauses :: "jsstring option \<Rightarrow> jsstring \<Rightarrow> jsstring" where
  "combineFilterClauses existing added =
     (case existing of
        None \<Rightarrow> added
      | Some e \<Rightarrow> if trim e = [] then added else ''('' @ trim e @ '') AND '' @ added)"

text \<open>\<open>replace(/\([^)]*\)/g, '')\<close> and \<open>replace(/\s+/g, ' ')\<close>.\<close>

definition paren_group :: "jsstring \<Rightarrow> nat option" where
  "paren_group s =
     (if prefix ''('' s \<and> CHR '')'' \<in> set (tl s) then Some (length (takeWhile (\<lambda>c. c \<noteq> CHR '')'') (tl s)) + 2) else None)"

definition space_run :: "jsstring \<Rightarrow> nat option" where
  "space_run s = (if s \<noteq> [] \<and> is_space (hd s) then Some (length (takeWhile is_space s)) else None)"

definition isComparableColumnType :: "jsstring \<Rightarrow> bool" where
  "isComparableColumnType columnType \<longleftrightarrow>
     columnType \<noteq> [] \<and> \<not> isGeometricType columnType
     \<and> (isNumericColumnType (Some columnType)
        \<or> getDateInputMode (replace_all space_run '' '' (replace_all paren_group [] columnType)) \<noteq> None)"

definition getCellValueFilterOperators :: "jsval \<Rightarrow> bool \<Rightarrow> jsstring \<Rightarrow> CellValueFilterOperator list" where
  "getCellValueFilterOperators v masked columnType =
     (if masked \<or> v = JNull \<or> v = JUndefined then [CvIsNull, CvIsNotNull]
      else if isComparableColumnType columnType then [CvEq, CvNe, CvGt, CvGe, CvLt, CvLe]
      else if isTextColumn (Some columnType) \<and> js_String v \<noteq> [] then
        [CvEq, CvNe, CvContains, CvNotContains, CvStartsWith, CvEndsWith]
      else [CvEq, CvNe])"

section \<open>What the literals mean\<close>

lemma comparison_literal:
  assumes "stringEscapeStyle objs driver None \<noteq> SE_mysql \<or> BSL \<notin> set s"
  shows "denotes (stringEscapeStyle objs driver None) (formatSqlValueForFilter objs (JStr s) columnType driver) s"
proof (cases "isNumericColumnType columnType \<and> number_text s")
  case True
  then show ?thesis by (simp add: formatSqlValueForFilter_def denotes_def)
next
  case False
  have "doubled objs driver s = s" using assms by (auto simp: doubled_id) (simp add: doubled_def usesBackslashStringEscapes_def)
  then have "formatSqlValueForFilter objs (JStr s) columnType driver = quoteLiteral objs (doubled objs driver s) driver"
    using False by (auto simp: formatSqlValueForFilter_def quoteLiteral_def)
  then show ?thesis by (simp add: denotes_def quoteLiteral_reads_back)
qed

text \<open>Property (cell_filter_compares_the_cell): filtering by a text cell, or following its foreign key, compares the column
  with a literal that the server reads as the cell's text, on every driver that does not escape the MySQL way and
  on those too when the text has no backslash.\<close>

theorem cell_filter_compares_the_cell:
  assumes "stringEscapeStyle objs driver None \<noteq> SE_mysql \<or> BSL \<notin> set s"
    and "\<not> (isPostgresDialect driver \<and> lower (trim (case columnType of Some t \<Rightarrow> t | None \<Rightarrow> [])) \<in> {''real'', ''float4''})"
  shows "\<exists>literal. buildCellValueFilterClause objs fround column CvEq (JStr s) driver columnType
         = quoteIdentifier column driver @ '' = '' @ literal
      \<and> buildForeignKeyFilterClause objs fround (fk\<lparr>ref_column := column\<rparr>) (JStr s) driver columnType
         = quoteIdentifier column driver @ '' = '' @ literal
      \<and> denotes (stringEscapeStyle objs driver None) literal s"
  by (rule exI [of _ "formatSqlValueForFilter objs (JStr s) columnType driver"])
     (use assms(2) comparison_literal [OF assms(1)] in
       \<open>auto simp: buildCellValueFilterClause_def buildForeignKeyFilterClause_def formatSqlValueForColumnComparison_def Let_def\<close>)

lemma cell_filter_compares_the_cell_witness:
  "\<exists>literal. buildCellValueFilterClause (\<lambda>_. googlesql) (\<lambda>_. None) ''path'' CvEq (JStr [SQ, BSL]) (ArgId ''postgres'') (Some ''text'')
         = quoteIdentifier ''path'' (ArgId ''postgres'') @ '' = '' @ literal
      \<and> buildForeignKeyFilterClause (\<lambda>_. googlesql) (\<lambda>_. None)
          (\<lparr>fk_name = [], column_name = [], ref_table = [], ref_column = []\<rparr>\<lparr>ref_column := ''path''\<rparr>) (JStr [SQ, BSL])
          (ArgId ''postgres'') (Some ''text'')
         = quoteIdentifier ''path'' (ArgId ''postgres'') @ '' = '' @ literal
      \<and> denotes (stringEscapeStyle (\<lambda>_. googlesql) (ArgId ''postgres'') None) literal [SQ, BSL]"
  by (rule cell_filter_compares_the_cell) code_simp+

text \<open>Property (mysql_cell_filter_misreads): on MySQL the comparison literal keeps the backslashes of the value, while the
  filter bar doubles them: the server reads another text (\<open>C:\new\<close> becomes two lines), and a value that ends in a
  backslash leaves its literal open.\<close>

theorem mysql_cell_filter_misreads:
  "read_literal SE_mysql (formatSqlValueForFilter (\<lambda>_. googlesql) (JStr (''C:'' @ [BSL] @ ''new'')) (Some ''text'') (ArgId ''mysql''))
     = Some (''C:'' @ [NL] @ ''ew'')
   \<and> read_literal SE_mysql (formatSqlValueForFilter (\<lambda>_. googlesql) (JStr (''C:'' @ [BSL])) (Some ''text'') (ArgId ''mysql'')) = None
   \<and> read_literal SE_mysql (quoteValue (\<lambda>_. googlesql) (\<lambda>_. None) (ArgId ''mysql'') (Some ''text'') (''C:'' @ [BSL] @ ''new'') False)
     = Some (''C:'' @ [BSL] @ ''new'')"
proof (intro conjI)
qed code_simp+

end
