(* ===== verification/UiState.thy ===== *)
theory UiState
  imports JsValue
begin

text \<open>
  UI state shared by all hosts (\<open>utils/uiStateStore.ts\<close>): a synchronous copy of values that live in the backend.
  The object's fields are a record. A debounce timer is its key and the value its callback writes. Every call of the
  client is appended to \<open>calls\<close>. An \<open>async\<close> function is cut at its \<open>await\<close>s: \<open>load\<close> is started by \<open>attach\<close>, goes
  on with the answer to \<open>get_ui_state\<close> and then with the answer to each migrating \<open>set_ui_state\<close>. The host's
  storage is the parsed first-paint cache and the raw items of older versions; a failing storage is \<open>None\<close>. The
  listeners and the log messages are left out.
\<close>

section \<open>Keys\<close>

record UiStateKeyDefinition =
  def_key :: jsstring
  parseLegacy :: "jsstring \<Rightarrow> jsval option"
  firstPaintCache :: bool

text \<open>\<open>Number.parseInt(raw, 10)\<close>: blanks, a sign and the longest run of digits.\<close>

definition digits_nat :: "jsstring \<Rightarrow> nat" where
  "digits_nat s = foldl (\<lambda>n c. 10 * n + (code_of c - 48)) 0 s"

definition parseWidth :: "jsstring \<Rightarrow> jsval option" where
  "parseWidth raw =
     (let s = trim_start raw;
          digits = takeWhile is_digit (if prefix ''-'' s \<or> prefix ''+'' s then tl s else s);
          n = int (digits_nat digits)
      in if digits = [] then None else Some (JNum (if prefix ''-'' s then - n else n) 0))"

definition parseTrue :: "jsstring \<Rightarrow> jsval option" where
  "parseTrue raw = (if raw = ''true'' then Some (JBool True) else None)"

definition UI_STATE_KEYS :: "UiStateKeyDefinition list" where
  "UI_STATE_KEYS =
     [\<lparr>def_key = ''tabularis_sidebar_width'', parseLegacy = parseWidth, firstPaintCache = True\<rparr>,
      \<lparr>def_key = ''tabularis_row_editor_sidebar_width'', parseLegacy = parseWidth, firstPaintCache = True\<rparr>,
      \<lparr>def_key = ''tabularis_last_seen_version'', parseLegacy = (\<lambda>raw. if raw = [] then None else Some (JStr raw)),
        firstPaintCache = False\<rparr>,
      \<lparr>def_key = ''tabularis_support_prompt_dismissed'', parseLegacy = parseTrue, firstPaintCache = False\<rparr>,
      \<lparr>def_key = ''tabularis:discord-callout-v2-dismissed'', parseLegacy = parseTrue, firstPaintCache = False\<rparr>,
      \<lparr>def_key = ''tabularis:explorer-pins'', parseLegacy = (\<lambda>_. None), firstPaintCache = False\<rparr>,
      \<lparr>def_key = ''tabularis:explain-table-columns'', parseLegacy = (\<lambda>_. None), firstPaintCache = False\<rparr>]"

section \<open>The store\<close>

record HostStorage =
  cache_item :: "(jsstring \<times> jsval) list"
  legacy_items :: "(jsstring \<times> jsstring) list"

datatype ClientCall = GetUiState nat "jsstring list" | SetUiState nat jsstring jsval | DeleteUiState nat jsstring

record UiStore =
  store_values :: "jsstring \<Rightarrow> jsval option"
  timers :: "(jsstring \<times> jsval) list"
  pending :: "jsstring \<Rightarrow> jsval option"
  dirty :: "jsstring set"
  client :: "nat option"
  ready :: bool
  generation :: nat
  storage :: "HostStorage option"
  calls :: "ClientCall list"

fun nullish :: "jsval \<Rightarrow> bool" where
  "nullish JUndefined = True"
| "nullish JNull = True"
| "nullish _ = False"

definition present :: "jsval \<Rightarrow> jsval option" where
  "present v = (if nullish v then None else Some v)"

definition readLegacy :: "HostStorage option \<Rightarrow> UiStateKeyDefinition \<Rightarrow> jsval option" where
  "readLegacy st d =
     (case st of None \<Rightarrow> None
      | Some h \<Rightarrow> (case map_of (legacy_items h) (def_key d) of None \<Rightarrow> None | Some raw \<Rightarrow> parseLegacy d raw))"

definition removeLegacy :: "jsstring \<Rightarrow> UiStore \<Rightarrow> UiStore" where
  "removeLegacy key s =
     s\<lparr>storage := map_option (\<lambda>h. h\<lparr>legacy_items := delete_prop (legacy_items h) key\<rparr>) (storage s)\<rparr>"

definition writeFirstPaintCache :: "UiStateKeyDefinition list \<Rightarrow> UiStore \<Rightarrow> UiStore" where
  "writeFirstPaintCache defs s =
     s\<lparr>storage := map_option (\<lambda>h. h\<lparr>cache_item :=
         foldl (\<lambda>cached d. case store_values s (def_key d) of
              Some v \<Rightarrow> if firstPaintCache d then set_prop cached (def_key d, v) else cached
            | None \<Rightarrow> cached) [] defs\<rparr>) (storage s)\<rparr>"

definition readFirstPaintCache :: "UiStateKeyDefinition list \<Rightarrow> UiStore \<Rightarrow> UiStore" where
  "readFirstPaintCache defs s =
     (case storage s of None \<Rightarrow> s
      | Some h \<Rightarrow>
          foldl (\<lambda>s d.
              if \<not> firstPaintCache d then s
              else (case (case present (get_prop (cache_item h) (def_key d)) of
                            Some v \<Rightarrow> Some v | None \<Rightarrow> readLegacy (Some h) d) of
                      Some v \<Rightarrow> s\<lparr>store_values := (store_values s)(def_key d \<mapsto> v)\<rparr>
                    | None \<Rightarrow> s)) s defs)"

definition applyLocal :: "UiStateKeyDefinition list \<Rightarrow> jsstring \<Rightarrow> jsval \<Rightarrow> UiStore \<Rightarrow> UiStore" where
  "applyLocal defs key v s =
     writeFirstPaintCache defs (s\<lparr>store_values := (store_values s)(key := present v)\<rparr>)"

definition write_value :: "jsstring \<Rightarrow> jsval \<Rightarrow> UiStore \<Rightarrow> UiStore" where
  "write_value key v s =
     (case client s of
        None \<Rightarrow> s
      | Some c \<Rightarrow> s\<lparr>calls := calls s @ [if nullish v then DeleteUiState c key else SetUiState c key v]\<rparr>)"

definition get_value :: "UiStore \<Rightarrow> jsstring \<Rightarrow> jsval \<Rightarrow> jsval" where
  "get_value s key fallback = (case store_values s key of Some v \<Rightarrow> v | None \<Rightarrow> fallback)"

text \<open>\<open>Object.is\<close>: two objects with equal contents may be different objects, which \<open>same_ref\<close> says.\<close>

definition object_is :: "bool \<Rightarrow> jsval \<Rightarrow> jsval \<Rightarrow> bool" where
  "object_is same_ref v w \<longleftrightarrow> v = w \<and> (is_object v \<longrightarrow> same_ref)"

definition set_value :: "UiStateKeyDefinition list \<Rightarrow> bool \<Rightarrow> jsstring \<Rightarrow> jsval \<Rightarrow> nat option \<Rightarrow> UiStore \<Rightarrow> UiStore" where
  "set_value defs same_ref key v debounceMs s =
     (if object_is same_ref (get_value s key JUndefined) v then s
      else
        (let s1 = applyLocal defs key v (s\<lparr>dirty := insert key (dirty s)\<rparr>);
             s2 = s1\<lparr>timers := delete_prop (timers s1) key\<rparr>
         in if (case debounceMs of None \<Rightarrow> False | Some ms \<Rightarrow> ms > 0)
            then s2\<lparr>pending := (pending s2)(key \<mapsto> v), timers := timers s2 @ [(key, v)]\<rparr>
            else write_value key v (s2\<lparr>pending := (pending s2)(key := None)\<rparr>)))"

definition timer_fires :: "jsstring \<Rightarrow> UiStore \<Rightarrow> UiStore" where
  "timer_fires key s =
     (case map_of (timers s) key of
        None \<Rightarrow> s
      | Some v \<Rightarrow> write_value key v
          (s\<lparr>timers := delete_prop (timers s) key, pending := (pending s)(key := None)\<rparr>))"

text \<open>\<open>commit\<close> in two parts: the write, and what follows when the backend has accepted it.\<close>

definition commit_write :: "jsstring \<Rightarrow> jsval \<Rightarrow> UiStore \<Rightarrow> UiStore" where
  "commit_write key v s = write_value key v s"

definition commit_done :: "UiStateKeyDefinition list \<Rightarrow> jsstring \<Rightarrow> jsval \<Rightarrow> UiStore \<Rightarrow> UiStore" where
  "commit_done defs key v s = applyLocal defs key v (s\<lparr>dirty := insert key (dirty s)\<rparr>)"

definition reset_store :: "UiStateKeyDefinition list \<Rightarrow> UiStore \<Rightarrow> UiStore" where
  "reset_store defs s =
     readFirstPaintCache defs
       (s\<lparr>timers := [], pending := (\<lambda>_. None), dirty := {}, store_values := (\<lambda>_. None), client := None, ready := False,
          generation := generation s + 1\<rparr>)"

definition flush_one :: "jsstring \<times> jsval \<Rightarrow> UiStore \<Rightarrow> UiStore" where
  "flush_one t s =
     write_value (fst t) (case pending s (fst t) of Some v \<Rightarrow> v | None \<Rightarrow> JUndefined)
       (s\<lparr>pending := (pending s)(fst t := None)\<rparr>)"

definition flush :: "UiStore \<Rightarrow> UiStore" where
  "flush s = (fold flush_one (timers s) s)\<lparr>timers := []\<rparr>"

section \<open>Attaching a client\<close>

definition attach :: "UiStateKeyDefinition list \<Rightarrow> nat \<Rightarrow> UiStore \<Rightarrow> UiStore" where
  "attach defs c s =
     s\<lparr>generation := generation s + 1, client := Some c, dirty := {},
       calls := calls s @ [GetUiState c (map def_key defs)]\<rparr>"

definition changed_elsewhere :: "UiStateKeyDefinition list \<Rightarrow> nat \<Rightarrow> jsstring \<Rightarrow> jsval \<Rightarrow> UiStore \<Rightarrow> UiStore" where
  "changed_elsewhere defs gen key v s =
     (if gen \<noteq> generation s then s
      else if map_of (timers s) key \<noteq> None then s
      else applyLocal defs key v s)"

text \<open>Where a load stands after a step: finished, or waiting for the answer to the migration of a key, with the
  definitions still to do.\<close>

datatype LoadState = LoadDone | AwaitMigration jsstring "UiStateKeyDefinition list"

fun load_loop ::
  "UiStateKeyDefinition list \<Rightarrow> nat \<Rightarrow> (jsstring \<Rightarrow> jsval option) option \<Rightarrow> UiStateKeyDefinition list \<Rightarrow> UiStore
   \<Rightarrow> UiStore \<times> LoadState" where
  "load_loop defs c remote [] s = (s\<lparr>ready := True\<rparr>, LoadDone)"
| "load_loop defs c remote (d # ds) s =
     (if def_key d \<in> dirty s then load_loop defs c remote ds s
      else (case remote of
          None \<Rightarrow> load_loop defs c remote ds s
        | Some r \<Rightarrow>
            (case Option.bind (r (def_key d)) present of
               Some v \<Rightarrow> load_loop defs c remote ds (removeLegacy (def_key d) (applyLocal defs (def_key d) v s))
             | None \<Rightarrow>
                 (case (case readLegacy (storage s) d of Some l \<Rightarrow> Some l | None \<Rightarrow> store_values s (def_key d)) of
                    None \<Rightarrow> load_loop defs c remote ds s
                  | Some l \<Rightarrow>
                      (let s1 = applyLocal defs (def_key d) l s
                       in (s1\<lparr>calls := calls s1 @ [SetUiState c (def_key d) l]\<rparr>, AwaitMigration (def_key d) ds))))))"

definition load_answer ::
  "UiStateKeyDefinition list \<Rightarrow> nat \<Rightarrow> nat \<Rightarrow> (jsstring \<Rightarrow> jsval option) option \<Rightarrow> UiStore \<Rightarrow> UiStore \<times> LoadState" where
  "load_answer defs c gen remote s =
     (if gen \<noteq> generation s then (s, LoadDone) else load_loop defs c remote defs s)"

definition migration_answer ::
  "UiStateKeyDefinition list \<Rightarrow> nat \<Rightarrow> (jsstring \<Rightarrow> jsval option) option \<Rightarrow> bool \<Rightarrow> LoadState \<Rightarrow> UiStore
   \<Rightarrow> UiStore \<times> LoadState" where
  "migration_answer defs c remote ok load s =
     (case load of
        LoadDone \<Rightarrow> (s, LoadDone)
      | AwaitMigration key ds \<Rightarrow> load_loop defs c remote ds (if ok then removeLegacy key s else s))"

definition detach :: "nat \<Rightarrow> UiStore \<Rightarrow> UiStore" where
  "detach gen s = (let s1 = flush s in if gen = generation s1 then s1\<lparr>client := None\<rparr> else s1)"

end
