(* ===== verification/UiStateFacts.thy ===== *)
theory UiStateFacts
  imports UiState
begin

text \<open>
  The UI state store against its backend. A session runs from one \<open>attach\<close> on: local writes with and without
  debouncing, timers, flushes, the load and its migrations, and changes made by other hosts. The backend applies
  each call when it is made. The lemmas end in the agreement of store and backend.
\<close>

type_synonym backend = "jsstring \<Rightarrow> jsval option"

fun backend_call :: "ClientCall \<Rightarrow> backend \<Rightarrow> backend" where
  "backend_call (GetUiState _ _) b = b"
| "backend_call (SetUiState _ k v) b = b(k := present v)"
| "backend_call (DeleteUiState _ k) b = b(k := None)"

definition backend_after :: "UiStore \<Rightarrow> UiStore \<Rightarrow> backend \<Rightarrow> backend" where
  "backend_after s s' b = fold backend_call (drop (length (calls s)) (calls s')) b"

datatype LoadPhase = AskedRemote | Migrating backend jsstring "UiStateKeyDefinition list" | Loaded

definition phase_of :: "backend \<Rightarrow> LoadState \<Rightarrow> LoadPhase" where
  "phase_of r l = (case l of LoadDone \<Rightarrow> Loaded | AwaitMigration k ds \<Rightarrow> Migrating r k ds)"

text \<open>A change made elsewhere arrives before the load has read the backend or after the load is over. In between
  it can be lost, see \<open>change_during_load_is_lost\<close>.\<close>

inductive session :: "UiStateKeyDefinition list \<Rightarrow> nat \<Rightarrow> UiStore \<Rightarrow> LoadPhase \<Rightarrow> backend \<Rightarrow> bool"
  for defs c where
  start: "timers s = [] \<Longrightarrow> pending s = (\<lambda>_. None) \<Longrightarrow> (\<And>k v. b k = Some v \<Longrightarrow> \<not> nullish v) \<Longrightarrow>
    session defs c (attach defs c s) AskedRemote b"
| local_set: "session defs c s p b \<Longrightarrow> s' = set_value defs r k v ms s \<Longrightarrow> session defs c s' p (backend_after s s' b)"
| timer: "session defs c s p b \<Longrightarrow> s' = timer_fires k s \<Longrightarrow> session defs c s' p (backend_after s s' b)"
| flushed: "session defs c s p b \<Longrightarrow> s' = flush s \<Longrightarrow> session defs c s' p (backend_after s s' b)"
| remote: "session defs c s p b \<Longrightarrow> p = AskedRemote \<or> p = Loaded \<Longrightarrow>
    session defs c (changed_elsewhere defs (generation s) k v s) p (b(k := present v))"
| answer: "session defs c s AskedRemote b \<Longrightarrow> load_answer defs c (generation s) (Some b) s = (s', l) \<Longrightarrow>
    session defs c s' (phase_of b l) (backend_after s s' b)"
| migrated: "session defs c s (Migrating r k ds) b \<Longrightarrow>
    migration_answer defs c (Some r) True (AwaitMigration k ds) s = (s', l) \<Longrightarrow>
    session defs c s' (phase_of r l) (backend_after s s' b)"

section \<open>Fields the operations leave alone\<close>

named_theorems ui_simps \<open>fields of the store after its helpers\<close>

lemma applyLocal_fields [ui_simps]:
  "store_values (applyLocal defs k v s) = (store_values s)(k := present v)"
  "timers (applyLocal defs k v s) = timers s" "pending (applyLocal defs k v s) = pending s"
  "dirty (applyLocal defs k v s) = dirty s" "client (applyLocal defs k v s) = client s"
  "calls (applyLocal defs k v s) = calls s" "generation (applyLocal defs k v s) = generation s"
  by (simp_all add: applyLocal_def writeFirstPaintCache_def)

lemma removeLegacy_fields [ui_simps]:
  "store_values (removeLegacy k s) = store_values s"
  "timers (removeLegacy k s) = timers s" "pending (removeLegacy k s) = pending s"
  "dirty (removeLegacy k s) = dirty s" "client (removeLegacy k s) = client s"
  "calls (removeLegacy k s) = calls s" "generation (removeLegacy k s) = generation s"
  by (simp_all add: removeLegacy_def)

lemma write_value_fields [ui_simps]:
  "store_values (write_value k v s) = store_values s"
  "timers (write_value k v s) = timers s" "pending (write_value k v s) = pending s"
  "dirty (write_value k v s) = dirty s" "client (write_value k v s) = client s"
  "generation (write_value k v s) = generation s"
  by (simp_all add: write_value_def split: option.split)

lemma backend_after_same [simp]: "calls s' = calls s \<Longrightarrow> backend_after s s' b = b"
  by (simp add: backend_after_def)

lemma backend_after_write:
  "client s' = Some c \<Longrightarrow> calls s' = calls s \<Longrightarrow> backend_after s (write_value k v s') b = b(k := present v)"
  by (simp add: backend_after_def write_value_def present_def)

section \<open>The invariant\<close>

definition keys_of :: "UiStateKeyDefinition list \<Rightarrow> jsstring set" where
  "keys_of ds = def_key ` set ds"

fun remaining :: "UiStateKeyDefinition list \<Rightarrow> LoadPhase \<Rightarrow> UiStateKeyDefinition list" where
  "remaining defs AskedRemote = defs"
| "remaining defs (Migrating _ _ ds) = ds"
| "remaining defs Loaded = []"

fun snapshot_ok :: "UiStore \<Rightarrow> backend \<Rightarrow> LoadPhase \<Rightarrow> bool" where
  "snapshot_ok s b (Migrating r _ ds) \<longleftrightarrow> (\<forall>k \<in> keys_of ds. k \<notin> dirty s \<longrightarrow> r k = b k)"
| "snapshot_ok s b _ \<longleftrightarrow> True"

definition timers_wf :: "UiStore \<Rightarrow> bool" where
  "timers_wf s \<longleftrightarrow> distinct (map fst (timers s)) \<and> pending s = map_of (timers s)"

text \<open>\<open>synced K\<close>: outside the debounced keys the backend holds what the store shows, for the keys of \<open>K\<close>.\<close>

definition synced :: "UiStore \<Rightarrow> backend \<Rightarrow> jsstring set \<Rightarrow> bool" where
  "synced s b K \<longleftrightarrow>
     (\<forall>k v. pending s k = Some v \<longrightarrow> k \<in> dirty s \<and> store_values s k = present v)
     \<and> (\<forall>k \<in> K. pending s k = None \<longrightarrow> b k = store_values s k)"

definition session_inv :: "UiStateKeyDefinition list \<Rightarrow> nat \<Rightarrow> UiStore \<Rightarrow> LoadPhase \<Rightarrow> backend \<Rightarrow> bool" where
  "session_inv defs c s p b \<longleftrightarrow>
     timers_wf s \<and> client s = Some c \<and> suffix (remaining defs p) defs
     \<and> synced s b (dirty s \<union> (keys_of defs - keys_of (remaining defs p)))
     \<and> snapshot_ok s b p \<and> (\<forall>k v. b k = Some v \<longrightarrow> \<not> nullish v)"

lemma present_Some [simp]: "present v = Some w \<longleftrightarrow> w = v \<and> \<not> nullish v"
  by (auto simp: present_def)

lemma timers_wf_write: "timers_wf s \<Longrightarrow> timers_wf (write_value k v s)"
  by (simp add: timers_wf_def ui_simps)

lemma snapshot_ok_upd:
  "snapshot_ok s b p \<Longrightarrow> dirty s \<subseteq> dirty s' \<Longrightarrow> (\<And>k. k \<notin> dirty s' \<Longrightarrow> b' k = b k) \<Longrightarrow> snapshot_ok s' b' p"
  by (cases p) auto

lemma set_value_cases:
  assumes "client s = Some c" "timers_wf s"
  obtains (unchanged) "set_value defs r k v ms s = s"
  | (debounced) s' where "set_value defs r k v ms s = s'" "calls s' = calls s" "timers_wf s'" "client s' = Some c"
      "store_values s' = (store_values s)(k := present v)" "dirty s' = insert k (dirty s)" "pending s' = (pending s)(k \<mapsto> v)"
  | (immediate) s' where "set_value defs r k v ms s = s'" "\<And>b. backend_after s s' b = b(k := present v)" "timers_wf s'"
      "client s' = Some c" "store_values s' = (store_values s)(k := present v)" "dirty s' = insert k (dirty s)"
      "pending s' = (pending s)(k := None)"
proof -
  let ?s1 = "applyLocal defs k v (s\<lparr>dirty := insert k (dirty s)\<rparr>)"
  let ?s2 = "?s1\<lparr>timers := delete_prop (timers ?s1) k\<rparr>"
  have t: "distinct (map fst (delete_prop (timers s) k))" "pending s = map_of (timers s)"
    using assms(2) by (auto simp: timers_wf_def)
  consider "object_is r (get_value s k JUndefined) v"
    | "\<not> object_is r (get_value s k JUndefined) v" "case ms of None \<Rightarrow> False | Some n \<Rightarrow> n > 0"
    | "\<not> object_is r (get_value s k JUndefined) v" "\<not> (case ms of None \<Rightarrow> False | Some n \<Rightarrow> n > 0)" by blast
  then show thesis
  proof cases
    case 1
    then show ?thesis using that(1) by (simp add: set_value_def)
  next
    case 2
    let ?s = "?s2\<lparr>pending := (pending ?s2)(k \<mapsto> v), timers := timers ?s2 @ [(k, v)]\<rparr>"
    have "k \<notin> fst ` set (delete_prop (timers s) k)" by (auto simp: delete_prop_def)
    moreover have "map_of (delete_prop (timers s) k @ [(k, v)]) = (map_of (timers s))(k \<mapsto> v)"
      by (auto simp: map_add_def fun_eq_iff split: option.split)
    ultimately have "timers_wf ?s" using t by (simp add: timers_wf_def ui_simps)
    with 2 assms(1) show ?thesis by (intro that(2) [of ?s]) (simp_all add: set_value_def Let_def ui_simps)
  next
    case 3
    let ?s3 = "?s2\<lparr>pending := (pending ?s2)(k := None)\<rparr>"
    have "timers_wf ?s3" using t by (simp add: timers_wf_def ui_simps)
    with 3 assms(1) show ?thesis
      by (intro that(3) [of "write_value k v ?s3"])
         (simp_all add: set_value_def Let_def ui_simps timers_wf_write backend_after_write [of _ c])
  qed
qed

lemma inv_set:
  assumes "session_inv defs c s p b"
  shows "session_inv defs c (set_value defs r k v ms s) p (backend_after s (set_value defs r k v ms s) b)"
proof -
  have w: "client s = Some c" "timers_wf s" using assms by (simp_all add: session_inv_def)
  show ?thesis
    using w
  proof (cases rule: set_value_cases [where defs = defs and r = r and k = k and v = v and ms = ms])
    case unchanged
    then show ?thesis using assms by simp
  next
    case (debounced s')
    then have "snapshot_ok s' b p" using assms snapshot_ok_upd [of s b p s' b] by (auto simp: session_inv_def)
    with debounced assms show ?thesis by (auto simp: session_inv_def synced_def)
  next
    case (immediate s')
    then have "snapshot_ok s' (b(k := present v)) p"
      using assms snapshot_ok_upd [of s b p s' "b(k := present v)"] by (auto simp: session_inv_def)
    with immediate assms show ?thesis by (auto simp: session_inv_def synced_def)
  qed
qed

lemma inv_timer:
  assumes "session_inv defs c s p b"
  shows "session_inv defs c (timer_fires k s) p (backend_after s (timer_fires k s) b)"
proof (cases "map_of (timers s) k")
  case None
  then show ?thesis using assms by (simp add: timer_fires_def)
next
  case (Some v)
  let ?s = "s\<lparr>timers := delete_prop (timers s) k, pending := (pending s)(k := None)\<rparr>"
  have f: "timer_fires k s = write_value k v ?s" using Some by (simp add: timer_fires_def)
  have w: "timers_wf s" "client s = Some c" using assms by (simp_all add: session_inv_def)
  then have "timers_wf ?s" by (auto simp: timers_wf_def)
  then have wf: "timers_wf (write_value k v ?s)" by (rule timers_wf_write)
  have b: "backend_after s (write_value k v ?s) b = b(k := present v)"
    by (rule backend_after_write [of _ c]) (simp_all add: w)
  have k: "k \<in> dirty s" "store_values s k = present v"
    using assms Some w(1) by (auto simp: session_inv_def synced_def timers_wf_def)
  have "snapshot_ok (write_value k v ?s) (b(k := present v)) p"
    by (rule snapshot_ok_upd [of s b]) (use assms k in \<open>auto simp: session_inv_def ui_simps\<close>)
  with assms wf k show ?thesis unfolding f b by (auto simp: session_inv_def synced_def ui_simps)
qed

lemma calls_write: "\<exists>new. calls (write_value k v s) = calls s @ new"
  by (simp add: write_value_def split: option.split)

lemma backend_after_append: "calls s' = calls s @ new \<Longrightarrow> backend_after s s' b = fold backend_call new b"
  by (simp add: backend_after_def)

lemma flush_fold:
  assumes "distinct (map fst ts)" "client s = Some c" "\<And>k v. map_of ts k = Some v \<Longrightarrow> pending s k = Some v"
  shows "store_values (fold flush_one ts s) = store_values s \<and> dirty (fold flush_one ts s) = dirty s
    \<and> client (fold flush_one ts s) = Some c \<and> generation (fold flush_one ts s) = generation s
    \<and> pending (fold flush_one ts s) = (\<lambda>k. if k \<in> fst ` set ts then None else pending s k)
    \<and> (\<exists>new. calls (fold flush_one ts s) = calls s @ new
         \<and> (\<forall>b. fold backend_call new b = (\<lambda>k. case map_of ts k of Some v \<Rightarrow> present v | None \<Rightarrow> b k)))"
  using assms
proof (induction ts arbitrary: s)
  case (Cons t ts)
  obtain k v where t: "t = (k, v)" by (cases t)
  let ?s = "flush_one t s"
  have p: "pending s k = Some v" using Cons.prems(3) by (simp add: t)
  have s: "store_values ?s = store_values s" "dirty ?s = dirty s" "client ?s = Some c" "generation ?s = generation s"
    "pending ?s = (pending s)(k := None)" "calls ?s = calls s @ [if nullish v then DeleteUiState c k else SetUiState c k v]"
    using Cons.prems(2) by (simp_all add: flush_one_def t p ui_simps) (simp_all add: write_value_def)
  have k: "k \<notin> fst ` set ts" using Cons.prems(1) by (simp add: t)
  have m: "pending ?s j = Some w" if "map_of ts j = Some w" for j w
  proof -
    from that k have "j \<noteq> k" by (auto dest!: map_of_SomeD intro: rev_image_eqI)
    with that Cons.prems(3) [of j w] show ?thesis by (simp add: s(5)) (simp add: t)
  qed
  have "distinct (map fst ts)" using Cons.prems(1) by simp
  from Cons.IH [OF this s(3) m] obtain new where n: "calls (fold flush_one ts ?s) = calls ?s @ new"
    "\<And>b. fold backend_call new b = (\<lambda>k. case map_of ts k of Some v \<Rightarrow> present v | None \<Rightarrow> b k)"
    and f: "store_values (fold flush_one ts ?s) = store_values s" "dirty (fold flush_one ts ?s) = dirty s"
    "client (fold flush_one ts ?s) = Some c" "generation (fold flush_one ts ?s) = generation s"
    "pending (fold flush_one ts ?s) = (\<lambda>j. if j \<in> fst ` set ts then None else pending ?s j)"
    using s by auto
  let ?call = "if nullish v then DeleteUiState c k else SetUiState c k v"
  have e: "backend_call ?call b = b(k := present v)" for b by (simp add: present_def)
  have "fold backend_call (?call # new) b = (\<lambda>j. case map_of (t # ts) j of Some v \<Rightarrow> present v | None \<Rightarrow> b j)" for b
  proof -
    have "map_of ts k = None" using k by (simp add: map_of_eq_None_iff)
    then show ?thesis by (simp add: n(2) e t fun_eq_iff del: backend_call.simps split: option.split)
  qed
  then have "\<exists>new. calls (fold flush_one ts ?s) = calls s @ new
      \<and> (\<forall>b. fold backend_call new b = (\<lambda>j. case map_of (t # ts) j of Some v \<Rightarrow> present v | None \<Rightarrow> b j))"
    using n(1) s(6) by (intro exI [of _ "?call # new"]) simp
  moreover have "pending (fold flush_one ts ?s) = (\<lambda>j. if j \<in> fst ` set (t # ts) then None else pending s j)"
    unfolding f(5) s(5) by (auto simp: t)
  ultimately show ?case using f(1-4) by simp
qed simp

lemma inv_flush:
  assumes "session_inv defs c s p b"
  shows "session_inv defs c (flush s) p (backend_after s (flush s) b) \<and> pending (flush s) = (\<lambda>_. None)"
proof -
  let ?f = "fold flush_one (timers s) s"
  have w: "distinct (map fst (timers s))" "client s = Some c" "pending s = map_of (timers s)"
    using assms by (simp_all add: session_inv_def timers_wf_def)
  from flush_fold [OF w(1,2)] w(3) obtain new where n: "calls ?f = calls s @ new"
    "\<And>b. fold backend_call new b = (\<lambda>k. case pending s k of Some v \<Rightarrow> present v | None \<Rightarrow> b k)"
    and f: "store_values ?f = store_values s" "dirty ?f = dirty s" "client ?f = Some c"
    "pending ?f = (\<lambda>k. if k \<in> fst ` set (timers s) then None else pending s k)" by auto
  have pn: "pending ?f = (\<lambda>_. None)" by (rule ext) (simp add: f(4) w(3) map_of_eq_None_iff)
  have b: "backend_after s (flush s) b = (\<lambda>k. case pending s k of Some v \<Rightarrow> present v | None \<Rightarrow> b k)"
    using n by (simp add: flush_def backend_after_def)
  have ff: "store_values (flush s) = store_values s" "dirty (flush s) = dirty s" "client (flush s) = Some c"
    "pending (flush s) = (\<lambda>_. None)" "timers_wf (flush s)"
    using f(1-3) pn by (simp_all add: flush_def timers_wf_def)
  have "snapshot_ok (flush s) (backend_after s (flush s) b) p"
    by (rule snapshot_ok_upd [of s b])
       (use assms in \<open>auto simp: session_inv_def synced_def ff b split: option.split\<close>)
  then show ?thesis using assms
    by (auto simp: session_inv_def synced_def ff b split: option.splits)
qed

lemma inv_remote:
  assumes "session_inv defs c s p b" "p = AskedRemote \<or> p = Loaded"
  shows "session_inv defs c (changed_elsewhere defs (generation s) k v s) p (b(k := present v))"
proof (cases "map_of (timers s) k")
  case None
  then have "pending s k = None" using assms(1) by (simp add: session_inv_def timers_wf_def)
  with None assms show ?thesis
    by (auto simp: changed_elsewhere_def session_inv_def synced_def timers_wf_def ui_simps)
next
  case (Some w)
  then have "pending s k = Some w" using assms(1) by (simp add: session_inv_def timers_wf_def)
  with Some assms show ?thesis
    by (auto simp: changed_elsewhere_def session_inv_def synced_def timers_wf_def)
qed

lemma synced_mono: "synced s b K \<Longrightarrow> K' \<subseteq> K \<Longrightarrow> synced s b K'"
  by (auto simp: synced_def)

lemma load_loop_inv:
  assumes "load_loop defs c (Some r) ds s = (s', l)" "distinct (map def_key defs)" "suffix ds defs"
    and "timers_wf s" "client s = Some c" "synced s b (dirty s \<union> (keys_of defs - keys_of ds))"
    and "\<forall>k \<in> keys_of ds. k \<notin> dirty s \<longrightarrow> r k = b k" "\<forall>k v. b k = Some v \<longrightarrow> \<not> nullish v"
  shows "session_inv defs c s' (phase_of r l) (backend_after s s' b)"
  using assms
proof (induction ds arbitrary: s)
  case Nil
  then show ?case by (auto simp: phase_of_def session_inv_def synced_def timers_wf_def keys_of_def)
next
  case (Cons d ds)
  let ?k = "def_key d"
  have sx: "suffix ds defs" using Cons.prems(3) by (auto dest: suffix_ConsD)
  have dk: "?k \<notin> keys_of ds"
  proof -
    from Cons.prems(3) obtain zs where "defs = zs @ d # ds" by (auto simp: suffix_def)
    with Cons.prems(2) show ?thesis by (auto simp: keys_of_def)
  qed
  show ?case
  proof (cases "?k \<in> dirty s")
    case True
    then have l: "load_loop defs c (Some r) ds s = (s', l)" using Cons.prems(1) by simp
    have "synced s b (dirty s \<union> (keys_of defs - keys_of ds))"
      by (rule synced_mono [OF Cons.prems(6)]) (use True in \<open>auto simp: keys_of_def\<close>)
    from Cons.IH [OF l Cons.prems(2) sx Cons.prems(4,5) this _ Cons.prems(8)] Cons.prems(7)
    show ?thesis by (simp add: keys_of_def)
  next
    case False
    then have pn: "pending s ?k = None" using Cons.prems(6) by (cases "pending s ?k") (auto simp: synced_def)
    have rb: "r ?k = b ?k" using Cons.prems(7) False by (simp add: keys_of_def)
    show ?thesis
    proof (cases "Option.bind (r ?k) present")
      case (Some v)
      then obtain w where "r ?k = Some w" "present w = Some v" by (auto simp: bind_eq_Some_conv)
      then have v: "b ?k = Some v" "\<not> nullish v" using rb by auto
      let ?s = "removeLegacy ?k (applyLocal defs ?k v s)"
      have l: "load_loop defs c (Some r) ds ?s = (s', l)" using Cons.prems(1) False Some by simp
      have "synced ?s b (dirty ?s \<union> (keys_of defs - keys_of ds))"
        using Cons.prems(6) False v pn by (auto simp: synced_def ui_simps keys_of_def present_def)
      from Cons.IH [OF l Cons.prems(2) sx _ _ this _ Cons.prems(8)] Cons.prems(4,5,7)
      have "session_inv defs c s' (phase_of r l) (backend_after ?s s' b)"
        by (simp add: ui_simps timers_wf_def keys_of_def)
      then show ?thesis by (simp add: backend_after_def ui_simps)
    next
      case None
      then have bn: "b ?k = None" using rb Cons.prems(8) by (cases "b ?k") (auto simp: present_def split: if_splits)
      let ?local = "case readLegacy (storage s) d of Some l \<Rightarrow> Some l | None \<Rightarrow> store_values s ?k"
      show ?thesis
      proof (cases ?local)
        case local: None
        then have l: "load_loop defs c (Some r) ds s = (s', l)" "store_values s ?k = None"
          using Cons.prems(1) False None by (auto split: option.splits)
        have "synced s b (dirty s \<union> (keys_of defs - keys_of ds))"
        proof (rule synced_mono)
          show "synced s b (insert ?k (dirty s \<union> (keys_of defs - keys_of (d # ds))))"
            using Cons.prems(6) l(2) bn by (auto simp: synced_def)
        qed (auto simp: keys_of_def)
        from Cons.IH [OF l(1) Cons.prems(2) sx Cons.prems(4,5) this _ Cons.prems(8)] Cons.prems(7)
        show ?thesis by (simp add: keys_of_def)
      next
        case local: (Some w)
        let ?s1 = "applyLocal defs ?k w s"
        have e: "s' = ?s1\<lparr>calls := calls ?s1 @ [SetUiState c ?k w]\<rparr>" "l = AwaitMigration ?k ds"
          using Cons.prems(1) False None local by (simp_all add: Let_def)
        define b' where "b' = b(?k := present w)"
        have b: "backend_after s s' b = b'" by (simp add: e backend_after_def ui_simps b'_def)
        have "synced s' b' (dirty s' \<union> (keys_of defs - keys_of ds))"
          using Cons.prems(6) False pn by (auto simp: e synced_def ui_simps keys_of_def b'_def)
        moreover have "\<forall>k \<in> keys_of ds. k \<notin> dirty s \<longrightarrow> r k = b' k"
          using Cons.prems(7) dk by (auto simp: b'_def) (auto simp: keys_of_def)
        moreover have "\<forall>k v. b' k = Some v \<longrightarrow> \<not> nullish v" using Cons.prems(8) by (auto simp: b'_def)
        ultimately show ?thesis
          unfolding b using Cons.prems(4,5) sx by (simp add: session_inv_def e phase_of_def timers_wf_def ui_simps)
      qed
    qed
  qed
qed

lemma session_invariant:
  assumes "session defs c s p b" "distinct (map def_key defs)"
  shows "session_inv defs c s p b"
  using assms(1)
proof (induction rule: session.induct)
  case (start s b)
  then show ?case by (auto simp: session_inv_def attach_def timers_wf_def synced_def)
next
  case (answer s b s' l)
  then have "load_loop defs c (Some b) defs s = (s', l)" by (simp add: load_answer_def)
  from load_loop_inv [OF this assms(2), of b] answer.IH show ?case by (simp add: session_inv_def)
next
  case (migrated s r k ds b s' l)
  then have "load_loop defs c (Some r) ds (removeLegacy k s) = (s', l)" by (simp add: migration_answer_def)
  from load_loop_inv [OF this assms(2), of b] migrated.IH
  have "session_inv defs c s' (phase_of r l) (backend_after (removeLegacy k s) s' b)"
    by (simp add: session_inv_def ui_simps timers_wf_def synced_def)
  then show ?case by (simp add: backend_after_def ui_simps)
next
  case (local_set s p b s' r k v ms)
  then show ?case by (simp add: inv_set)
next
  case (timer s p b s' k)
  then show ?case by (simp add: inv_timer)
next
  case (flushed s p b s')
  then show ?case by (simp add: inv_flush)
next
  case (remote s p b k v)
  show ?case by (rule inv_remote [OF remote.IH remote.hyps(2)])
qed



text \<open>Property (load_keeps_local_changes): nothing a load or its migrations bring in replaces a value set locally since the
  client was attached, and a read superseded by a later \<open>attach\<close> or \<open>reset\<close> is dropped.\<close>

lemma load_loop_dirty: "k \<in> dirty s \<Longrightarrow> store_values (fst (load_loop defs c remote ds s)) k = store_values s k"
  by (induction defs c remote ds s rule: load_loop.induct)
     (auto simp: ui_simps Let_def split: option.split)

theorem load_keeps_local_changes:
  "(k \<in> dirty s \<longrightarrow>
      store_values (fst (load_answer defs c gen remote s)) k = store_values s k \<and>
      store_values (fst (migration_answer defs c remote ok load s)) k = store_values s k)
   \<and> (gen \<noteq> generation s \<longrightarrow> load_answer defs c gen remote s = (s, LoadDone))"
  by (auto simp: load_answer_def migration_answer_def load_loop_dirty ui_simps split: LoadState.split)

lemma load_keeps_local_changes_witness:
  "let s = set_value UI_STATE_KEYS False ''k'' (JNum 1 0) None (attach UI_STATE_KEYS 1
       \<lparr>store_values = (\<lambda>_. None), timers = [], pending = (\<lambda>_. None), dirty = {}, client = None, ready = False,
        generation = 0, storage = None, calls = []\<rparr>)
   in store_values (fst (load_answer UI_STATE_KEYS 1 1 (Some (\<lambda>_. Some JNull)) s)) ''k'' = store_values s ''k''"
  unfolding Let_def
  using load_keeps_local_changes
    [where k = "''k''" and defs = UI_STATE_KEYS and c = 1 and gen = 1 and remote = "Some (\<lambda>_. Some JNull)" and load = LoadDone
      and s = "set_value UI_STATE_KEYS False ''k'' (JNum 1 0) None (attach UI_STATE_KEYS 1
       \<lparr>store_values = (\<lambda>_. None), timers = [], pending = (\<lambda>_. None), dirty = {}, client = None, ready = False,
        generation = 0, storage = None, calls = []\<rparr>)"]
  by (simp add: set_value_def get_value_def attach_def object_is_def ui_simps Let_def)

section \<open>What a load in flight can do\<close>

text \<open>Property (late_load_writes_stale_values): the load checks that it is still wanted only once. After it has waited for a
  migration it goes on with what it read before: it replaces a change another host has made in between by the older
  value it read, and after a \<open>reset\<close> it fills the emptied store with the values of the old backend and reports it
  ready.\<close>

definition migrating_store :: UiStore where
  "migrating_store =
     \<lparr>store_values = (\<lambda>_. None), timers = [], pending = (\<lambda>_. None), dirty = {}, client = None, ready = False, generation = 0,
      storage = Some \<lparr>cache_item = [], legacy_items = [(''tabularis_sidebar_width'', ''300'')]\<rparr>, calls = []\<rparr>"

definition old_snapshot :: backend where
  "old_snapshot = (\<lambda>_. None)(''tabularis_last_seen_version'' := Some (JStr ''1.0''))"

theorem late_load_writes_stale_values:
  "let a = attach UI_STATE_KEYS 1 migrating_store;
       (s, load) = load_answer UI_STATE_KEYS 1 1 (Some old_snapshot) a;
       key = ''tabularis_last_seen_version'';
       newer = fst (migration_answer UI_STATE_KEYS 1 (Some old_snapshot) True load (changed_elsewhere UI_STATE_KEYS 1 key (JStr ''2.0'') s));
       afresh = fst (migration_answer UI_STATE_KEYS 1 (Some old_snapshot) True load (reset_store UI_STATE_KEYS s))
   in store_values newer key = Some (JStr ''1.0'') \<and> store_values (reset_store UI_STATE_KEYS s) key = None
      \<and> store_values afresh key = Some (JStr ''1.0'') \<and> ready afresh \<and> client afresh = None"
  by code_simp

end
