(* ===== verification/MultiResult.thy ===== *)
theory MultiResult
  imports JsValue
begin

text \<open>
  The result entries of an editor tab (\<open>utils/multiResult.ts\<close>): one per statement of a run or per result set of a
  statement, with the tab bar's closing operations. A query result is a value of any type, since the functions only
  pass it on.
\<close>

record 'r QueryResultEntry =
  e_id :: jsstring
  queryIndex :: nat
  e_query :: jsstring
  label :: "jsstring option"
  e_result :: "'r option"
  e_error :: jsstring
  executionTime :: "int option"
  isLoading :: bool
  page :: nat
  activeTable :: "jsstring option"
  pkColumns :: "jsstring list option"
  snapshot :: "'r option"

section \<open>Labels\<close>

text \<open>\<open>replace(/\s+/g, ' ')\<close>.\<close>

fun collapse_spaces :: "jsstring \<Rightarrow> jsstring" where
  "collapse_spaces [] = []"
| "collapse_spaces (c # cs) =
     (if is_space c then (case cs of d # _ \<Rightarrow> if is_space d then collapse_spaces cs else SP # collapse_spaces cs | [] \<Rightarrow> [SP])
      else c # collapse_spaces cs)"

definition leading_comment :: "jsstring \<Rightarrow> jsstring option" where
  "leading_comment s =
     (if prefix ''--'' s then Some (takeWhile (\<lambda>c. c \<noteq> CR \<and> c \<noteq> NL) (drop 2 s))
      else if prefix ''/*'' s then map_option (\<lambda>k. take k (drop 2 s)) (index_of (drop 2 s) ''*/'')
      else None)"

definition extractResultLabel :: "jsstring \<Rightarrow> jsstring option" where
  "extractResultLabel query =
     (case leading_comment (trim_start query) of
        None \<Rightarrow> None
      | Some body \<Rightarrow>
          (let lab = trim (collapse_spaces body) in if lab = [] then None else Some (take 80 lab)))"

definition resultEntryIdPrefix :: "jsstring \<Rightarrow> jsstring" where
  "resultEntryIdPrefix tabId = tabId @ ''-result-''"

section \<open>Creating and updating entries\<close>

definition createResultEntries :: "jsstring \<Rightarrow> jsstring list \<Rightarrow> 'r QueryResultEntry list" where
  "createResultEntries tabId queries =
     map (\<lambda>(index, query).
       \<lparr>e_id = resultEntryIdPrefix tabId @ nat_str index, queryIndex = index, e_query = query,
        label = extractResultLabel query, e_result = None, e_error = [], executionTime = None, isLoading = True,
        page = 1, activeTable = None, pkColumns = None, snapshot = None\<rparr>) (enumerate 0 queries)"

definition createEntriesFromResultSets ::
  "jsstring \<Rightarrow> jsstring \<Rightarrow> 'r \<Rightarrow> 'r list option \<Rightarrow> int option \<Rightarrow> jsstring \<Rightarrow> 'r QueryResultEntry list" where
  "createEntriesFromResultSets tabId query primary additional_results time labelPrefix =
     map (\<lambda>(index, res).
       \<lparr>e_id = resultEntryIdPrefix tabId @ nat_str index, queryIndex = index, e_query = query,
        label = Some (labelPrefix @ '' '' @ nat_str (index + 1)), e_result = Some res, e_error = [],
        executionTime = (if index = 0 then time else None), isLoading = False, page = 1, activeTable = None,
        pkColumns = None, snapshot = None\<rparr>)
       (enumerate 0 (primary # (case additional_results of None \<Rightarrow> [] | Some rs \<Rightarrow> rs)))"

definition updateResultEntry ::
  "'r QueryResultEntry list \<Rightarrow> jsstring \<Rightarrow> ('r QueryResultEntry \<Rightarrow> 'r QueryResultEntry) \<Rightarrow> 'r QueryResultEntry list" where
  "updateResultEntry results entryId partial = map (\<lambda>r. if e_id r = entryId then partial r else r) results"

definition findActiveEntry :: "'r QueryResultEntry list \<Rightarrow> jsstring option \<Rightarrow> 'r QueryResultEntry option" where
  "findActiveEntry results activeResultId =
     (case results of
        [] \<Rightarrow> None
      | first # _ \<Rightarrow> (case find (\<lambda>r. Some (e_id r) = activeResultId) results of Some r \<Rightarrow> Some r | None \<Rightarrow> Some first))"

definition countSucceeded :: "'r QueryResultEntry list \<Rightarrow> nat" where
  "countSucceeded results = length (filter (\<lambda>r. \<not> isLoading r \<and> e_error r = [] \<and> e_result r \<noteq> None) results)"

definition countFailed :: "'r QueryResultEntry list \<Rightarrow> nat" where
  "countFailed results = length (filter (\<lambda>r. \<not> isLoading r \<and> e_error r \<noteq> []) results)"

definition totalExecutionTime :: "'r QueryResultEntry list \<Rightarrow> int" where
  "totalExecutionTime results =
     foldl (\<lambda>sum r. sum + (case executionTime r of Some t \<Rightarrow> t | None \<Rightarrow> 0)) 0 results"

definition getStackedGridHeight :: "nat \<Rightarrow> nat \<Rightarrow> nat" where
  "getStackedGridHeight rowCount maxHeight = min (35 + rowCount * 35) maxHeight"

definition getEntryDisplayLabel :: "'r QueryResultEntry \<Rightarrow> jsstring \<Rightarrow> jsstring" where
  "getEntryDisplayLabel entry fallbackPrefix =
     (case label entry of
        Some (c # cs) \<Rightarrow> c # cs
      | _ \<Rightarrow> fallbackPrefix @ '' '' @ nat_str (queryIndex entry + 1))"

definition clearEntryScrollTops :: "(jsstring \<times> nat) list \<Rightarrow> jsstring \<Rightarrow> (jsstring \<times> nat) list" where
  "clearEntryScrollTops offsets tabId = filter (\<lambda>(key, top). \<not> prefix (tabId @ '':'') key) offsets"

section \<open>Closing entries\<close>

definition removeResultEntry ::
  "'r QueryResultEntry list \<Rightarrow> jsstring \<Rightarrow> jsstring option \<Rightarrow> 'r QueryResultEntry list \<times> jsstring option" where
  "removeResultEntry results entryId activeResultId =
     (case find_index (\<lambda>r. e_id r = entryId) results of
        None \<Rightarrow> (results, activeResultId)
      | Some idx \<Rightarrow>
          (let filtered = filter (\<lambda>r. e_id r \<noteq> entryId) results in
           if filtered = [] then (filtered, None)
           else (filtered, if activeResultId = Some entryId then Some (e_id (filtered ! min idx (length filtered - 1)))
                           else activeResultId)))"

definition removeOtherEntries ::
  "'r QueryResultEntry list \<Rightarrow> jsstring \<Rightarrow> 'r QueryResultEntry list \<times> jsstring option" where
  "removeOtherEntries results keepId = (filter (\<lambda>r. e_id r = keepId) results, Some keepId)"

definition keep_active :: "'r QueryResultEntry list \<Rightarrow> jsstring \<Rightarrow> jsstring option \<Rightarrow> jsstring option" where
  "keep_active kept entryId activeResultId =
     (if list_ex (\<lambda>r. Some (e_id r) = activeResultId) kept then activeResultId else Some entryId)"

definition removeEntriesToRight ::
  "'r QueryResultEntry list \<Rightarrow> jsstring \<Rightarrow> jsstring option \<Rightarrow> 'r QueryResultEntry list \<times> jsstring option" where
  "removeEntriesToRight results entryId activeResultId =
     (case find_index (\<lambda>r. e_id r = entryId) results of
        None \<Rightarrow> (results, activeResultId)
      | Some idx \<Rightarrow>
          (let kept = take (idx + 1) results in (kept, keep_active kept entryId activeResultId)))"

definition removeEntriesToLeft ::
  "'r QueryResultEntry list \<Rightarrow> jsstring \<Rightarrow> jsstring option \<Rightarrow> 'r QueryResultEntry list \<times> jsstring option" where
  "removeEntriesToLeft results entryId activeResultId =
     (case find_index (\<lambda>r. e_id r = entryId) results of
        None \<Rightarrow> (results, activeResultId)
      | Some idx \<Rightarrow>
          (let kept = drop idx results in (kept, keep_active kept entryId activeResultId)))"

section \<open>The tab bar as a state machine\<close>

datatype BarAction = CloseOne jsstring | CloseOthers jsstring | CloseRight jsstring | CloseLeft jsstring | Activate jsstring

text \<open>The bar offers its actions on entries it shows.\<close>

inductive bar_step ::
  "'r QueryResultEntry list \<times> jsstring option \<Rightarrow> BarAction \<Rightarrow> 'r QueryResultEntry list \<times> jsstring option \<Rightarrow> bool" where
  "i \<in> e_id ` set rs \<Longrightarrow> bar_step (rs, a) (CloseOne i) (removeResultEntry rs i a)"
| "i \<in> e_id ` set rs \<Longrightarrow> bar_step (rs, a) (CloseOthers i) (removeOtherEntries rs i)"
| "i \<in> e_id ` set rs \<Longrightarrow> bar_step (rs, a) (CloseRight i) (removeEntriesToRight rs i a)"
| "i \<in> e_id ` set rs \<Longrightarrow> bar_step (rs, a) (CloseLeft i) (removeEntriesToLeft rs i a)"
| "i \<in> e_id ` set rs \<Longrightarrow> bar_step (rs, a) (Activate i) (rs, Some i)"

inductive bar_run ::
  "'r QueryResultEntry list \<times> jsstring option \<Rightarrow> BarAction list \<Rightarrow> 'r QueryResultEntry list \<times> jsstring option \<Rightarrow> bool" where
  "bar_run s [] s"
| "bar_step s act s' \<Longrightarrow> bar_run s' acts s'' \<Longrightarrow> bar_run s (act # acts) s''"

definition bar_ok :: "'r QueryResultEntry list \<Rightarrow> jsstring option \<Rightarrow> bool" where
  "bar_ok rs a \<longleftrightarrow> distinct (map e_id rs) \<and> (case a of None \<Rightarrow> rs = [] | Some i \<Rightarrow> i \<in> e_id ` set rs)"

lemma find_index_member: "x \<in> set xs \<Longrightarrow> P x \<Longrightarrow> find_index P xs \<noteq> None"
  by (induction xs) auto

lemma find_index_of_entry:
  assumes "i \<in> e_id ` set rs"
  obtains k where "find_index (\<lambda>r. e_id r = i) rs = Some k" "k < length rs" "e_id (rs ! k) = i"
proof -
  from assms obtain r where "r \<in> set rs" "e_id r = i" by auto
  then have "find_index (\<lambda>r. e_id r = i) rs \<noteq> None" using find_index_member [of r rs "\<lambda>r. e_id r = i"] by simp
  then obtain k where "find_index (\<lambda>r. e_id r = i) rs = Some k" by blast
  with find_index_Some [OF this] that show ?thesis by blast
qed

lemma keep_active_ok:
  assumes "sublist kept rs" "distinct (map e_id rs)" "i \<in> e_id ` set kept"
  shows "bar_ok kept (keep_active kept i a)"
proof -
  have "distinct (map e_id kept)" using assms(1,2) by (auto simp: sublist_def)
  then show ?thesis using assms(3) by (auto simp: bar_ok_def keep_active_def list_ex_iff image_iff)
qed

lemma bar_step_ok:
  assumes "bar_step s act s'" "bar_ok (fst s) (snd s)"
  shows "bar_ok (fst s') (snd s') \<and> subseq (fst s') (fst s)"
  using assms
proof (induction rule: bar_step.induct)
  case (1 i rs a)
  from find_index_of_entry [OF 1(1)] obtain k where k: "find_index (\<lambda>r. e_id r = i) rs = Some k" by blast
  let ?f = "filter (\<lambda>r. e_id r \<noteq> i) rs"
  have "?f ! min k (length ?f - 1) \<in> set ?f" if "?f \<noteq> []"
  proof -
    have "0 < length ?f" using that by (simp only: length_greater_0_conv) simp
    then show ?thesis by (intro nth_mem) linarith
  qed
  then show ?case using 1 k
    by (auto simp: removeResultEntry_def bar_ok_def Let_def distinct_map_filter split: option.splits)
next
  case (3 i rs a)
  from find_index_of_entry [OF 3(1)] obtain k
    where k: "find_index (\<lambda>r. e_id r = i) rs = Some k" "k < length rs" "e_id (rs ! k) = i" .
  have "rs ! k \<in> set (take (Suc k) rs)" using k by (simp add: take_Suc_conv_app_nth)
  then have "bar_ok (take (Suc k) rs) (keep_active (take (Suc k) rs) i a)"
    using 3(2) k by (intro keep_active_ok [of _ rs]) (auto simp: bar_ok_def)
  then show ?case by (simp add: removeEntriesToRight_def k(1) Let_def sublist_imp_subseq)
next
  case (4 i rs a)
  from find_index_of_entry [OF 4(1)] obtain k
    where k: "find_index (\<lambda>r. e_id r = i) rs = Some k" "k < length rs" "e_id (rs ! k) = i" .
  have "rs ! k \<in> set (drop k rs)" using k by (simp add: Cons_nth_drop_Suc [symmetric])
  then have "bar_ok (drop k rs) (keep_active (drop k rs) i a)"
    using 4(2) k by (intro keep_active_ok [of _ rs]) (auto simp: bar_ok_def)
  then show ?case by (simp add: removeEntriesToLeft_def k(1) Let_def sublist_imp_subseq)
qed (auto simp: removeOtherEntries_def bar_ok_def distinct_map_filter)

text \<open>Property (result_bar_keeps_a_selection): however entries are closed one by one, all but one, or to one side, the
  entries left keep their order and, as long as there is one, the active entry is one of them.\<close>

theorem result_bar_keeps_a_selection:
  assumes "bar_run (rs, a) acts (rs', a')" "bar_ok rs a"
  shows "bar_ok rs' a' \<and> subseq rs' rs \<and> (rs' \<noteq> [] \<longrightarrow> map_option e_id (findActiveEntry rs' a') = a')"
proof -
  have r: "bar_ok (fst s') (snd s') \<and> subseq (fst s') (fst s)"
    if "bar_run s acts s'" "bar_ok (fst s) (snd s)" for s s' :: "'a QueryResultEntry list \<times> jsstring option"
    using that
  proof (induction rule: bar_run.induct)
    case (2 s act s' acts s'')
    then show ?case using bar_step_ok [of s act s'] subseq_order.order_trans by blast
  qed simp
  have f: "map_option e_id (findActiveEntry rs' a') = a'" if ok: "bar_ok rs' a'" and ne: "rs' \<noteq> []"
  proof -
    obtain i where i: "a' = Some i" "i \<in> e_id ` set rs'" using ok ne by (cases a') (auto simp: bar_ok_def)
    have "find (\<lambda>r. Some (e_id r) = a') rs' \<noteq> None" using i by (auto simp: find_None_iff)
    then obtain r where "find (\<lambda>r. Some (e_id r) = a') rs' = Some r" by blast
    with ne i show ?thesis by (cases rs') (auto simp: findActiveEntry_def find_Some_iff split: if_splits)
  qed
  from r [OF assms(1)] assms(2) f show ?thesis by auto
qed

lemma result_bar_keeps_a_selection_witness:
  "let rs = createResultEntries ''t'' [''select 1'', ''select 2'', ''select 3''] :: nat QueryResultEntry list;
       (rs', a') = removeResultEntry rs ''t-result-2'' (Some ''t-result-2'')
   in bar_ok rs' a' \<and> subseq rs' rs \<and> map_option e_id (findActiveEntry rs' a') = Some ''t-result-1''"
proof -
  let ?rs = "createResultEntries ''t'' [''select 1'', ''select 2'', ''select 3''] :: nat QueryResultEntry list"
  let ?r = "removeResultEntry ?rs ''t-result-2'' (Some ''t-result-2'')"
  have i: "''t-result-2'' \<in> e_id ` set ?rs" by code_simp
  have a: "snd ?r = Some ''t-result-1''" "fst ?r \<noteq> []" by code_simp+
  have ok: "bar_ok ?rs (Some ''t-result-2'')" by code_simp
  have "bar_run (?rs, Some ''t-result-2'') [CloseOne ''t-result-2''] (fst ?r, snd ?r)"
    by (rule bar_run.intros(2) [OF bar_step.intros(1) [OF i]]) (simp add: bar_run.intros(1))
  from result_bar_keeps_a_selection [OF this ok] a show ?thesis by (simp add: Let_def case_prod_beta)
qed

text \<open>Property (result_label_is_one_line): a label taken from a comment is one line of at most 80 characters, not empty, with
  single spaces as its only blanks.\<close>

lemma collapse_spaces_set: "c \<in> set (collapse_spaces s) \<Longrightarrow> is_space c \<Longrightarrow> c = SP"
  by (induction s rule: collapse_spaces.induct) (auto split: if_splits list.splits)

lemma set_trim: "c \<in> set (trim s) \<Longrightarrow> c \<in> set s"
  by (auto simp: trim_def dest!: set_dropWhileD)

theorem result_label_is_one_line:
  "case extractResultLabel query of
     None \<Rightarrow> True
   | Some lab \<Rightarrow> 0 < length lab \<and> length lab \<le> 80 \<and> list_all (\<lambda>c. is_space c = (c = SP)) lab"
proof -
  have sp: "is_space SP" by (simp add: is_space_def code_of_def)
  have "is_space c = (c = SP)" if "c \<in> set (take 80 (trim (collapse_spaces body)))" for c body
    using that collapse_spaces_set [of c body] set_trim [of c "collapse_spaces body"] sp by (auto dest: in_set_takeD)
  then show ?thesis by (auto simp: extractResultLabel_def Let_def list_all_iff split: option.split)
qed

end
