(* ===== verification/AutoRefresh.thy ===== *)
theory AutoRefresh
  imports Tabs
begin

text \<open>
  The refresh schedule of a table tab (\<open>utils/autoRefresh.ts\<close>, \<open>createAutoRefreshSchedule\<close>). Times are integers and
  \<open>Date.now()\<close> is an argument. The chain of promises \<open>tail\<close> is the list of operations that have been accepted and not
  settled: its head is the one that runs, the rest wait for it in order. Listeners are left out.
\<close>

text \<open>The interval check of \<open>Tabs\<close> on a number.\<close>

definition normal_interval :: "nat \<Rightarrow> nat" where
  "normal_interval v = (case normalizeAutoRefreshInterval (Some v) of Some ms \<Rightarrow> ms | None \<Rightarrow> 0)"

text \<open>The pending changes, insertions and deletions of a tab, as the lists of their entries.\<close>

definition hasPendingTableEdits :: "'a list option \<Rightarrow> 'a list option \<Rightarrow> 'a list option \<Rightarrow> bool" where
  "hasPendingTableEdits changes insertions deletions =
     list_ex (\<lambda>pend. case pend of None \<Rightarrow> False | Some l \<Rightarrow> length l > 0) [changes, insertions, deletions]"

record AutoRefreshSnapshot =
  intervalMs :: nat
  lastCompletedAt :: "int option"
  nextDueAt :: "int option"
  busy :: bool
  editing :: bool
  revision :: nat

record AutoRefreshSchedule =
  snapshot :: AutoRefreshSnapshot
  tail :: "nat list"
  pending :: nat

definition createAutoRefreshSchedule :: AutoRefreshSchedule where
  "createAutoRefreshSchedule =
     \<lparr>snapshot = \<lparr>intervalMs = 0, lastCompletedAt = None, nextDueAt = None, busy = False, editing = False, revision = 0\<rparr>,
      tail = [], pending = 0\<rparr>"

definition configure :: "int \<Rightarrow> nat \<Rightarrow> AutoRefreshSchedule \<Rightarrow> AutoRefreshSchedule" where
  "configure now v s =
     (let ms = normal_interval v in
      if ms = intervalMs (snapshot s) then s
      else s\<lparr>snapshot := (snapshot s)\<lparr>intervalMs := ms,
             nextDueAt := (if ms \<noteq> 0
               then Some ((case lastCompletedAt (snapshot s) of Some t \<Rightarrow> t | None \<Rightarrow> now) + int ms) else None)\<rparr>\<rparr>)"

definition complete :: "int \<Rightarrow> AutoRefreshSchedule \<Rightarrow> AutoRefreshSchedule" where
  "complete now s =
     s\<lparr>snapshot := (snapshot s)\<lparr>lastCompletedAt := Some now,
         nextDueAt := (if intervalMs (snapshot s) \<noteq> 0 then Some (now + int (intervalMs (snapshot s))) else None)\<rparr>\<rparr>"

definition setEditing :: "bool \<Rightarrow> AutoRefreshSchedule \<Rightarrow> AutoRefreshSchedule" where
  "setEditing e s =
     (if editing (snapshot s) \<noteq> e
      then s\<lparr>snapshot := (snapshot s)\<lparr>editing := e, revision := revision (snapshot s) + 1\<rparr>\<rparr> else s)"

definition invalidate :: "AutoRefreshSchedule \<Rightarrow> AutoRefreshSchedule" where
  "invalidate s = s\<lparr>snapshot := (snapshot s)\<lparr>revision := revision (snapshot s) + 1\<rparr>\<rparr>"

text \<open>\<open>run\<close>: an automatic operation is dropped while another is pending. The operation is chained to \<open>tail\<close>, which
  starts it once everything before has settled.\<close>

definition run_operation :: "nat \<Rightarrow> bool \<Rightarrow> AutoRefreshSchedule \<Rightarrow> AutoRefreshSchedule" where
  "run_operation op automatic s =
     (if automatic \<and> pending s > 0 then s
      else s\<lparr>pending := pending s + 1, snapshot := (snapshot s)\<lparr>busy := True\<rparr>, tail := tail s @ [op]\<rparr>)"

text \<open>The \<open>finally\<close> of the running operation, after a result or a failure.\<close>

definition operation_settles :: "AutoRefreshSchedule \<Rightarrow> AutoRefreshSchedule" where
  "operation_settles s =
     (case tail s of
        [] \<Rightarrow> s
      | _ # rest \<Rightarrow> s\<lparr>pending := pending s - 1, snapshot := (snapshot s)\<lparr>busy := pending s - 1 > 0\<rparr>, tail := rest\<rparr>)"

section \<open>The schedule as a state machine\<close>

datatype ScheduleEvent =
    Configure int nat | Complete int | SetEditing bool | Invalidate | RunOp nat bool | Settle

fun schedule_step :: "ScheduleEvent \<Rightarrow> AutoRefreshSchedule \<Rightarrow> AutoRefreshSchedule" where
  "schedule_step (Configure now v) s = configure now v s"
| "schedule_step (Complete now) s = complete now s"
| "schedule_step (SetEditing e) s = setEditing e s"
| "schedule_step Invalidate s = invalidate s"
| "schedule_step (RunOp op automatic) s = run_operation op automatic s"
| "schedule_step Settle s = operation_settles s"

definition schedule_run :: "ScheduleEvent list \<Rightarrow> AutoRefreshSchedule" where
  "schedule_run events = fold schedule_step events createAutoRefreshSchedule"

definition schedule_ok :: "AutoRefreshSchedule \<Rightarrow> bool" where
  "schedule_ok s \<longleftrightarrow>
     pending s = length (tail s) \<and> busy (snapshot s) = (tail s \<noteq> [])
     \<and> intervalMs (snapshot s) \<in> set AUTO_REFRESH_INTERVALS
     \<and> (nextDueAt (snapshot s) = None) = (intervalMs (snapshot s) = 0)
     \<and> (case (nextDueAt (snapshot s), lastCompletedAt (snapshot s)) of
          (Some due, Some done_at) \<Rightarrow> due = done_at + int (intervalMs (snapshot s)) | _ \<Rightarrow> True)"

lemma normalize_in: "normal_interval v \<in> set AUTO_REFRESH_INTERVALS"
  by (simp add: normal_interval_def normalizeAutoRefreshInterval_def AUTO_REFRESH_INTERVALS_def)

lemma schedule_step_ok: "schedule_ok s \<Longrightarrow> schedule_ok (schedule_step e s)"
  using normalize_in
  by (cases e)
     (auto simp: schedule_ok_def configure_def complete_def setEditing_def invalidate_def run_operation_def
        operation_settles_def Let_def split: list.splits option.splits)

lemma schedule_run_snoc: "schedule_run (es @ [e]) = schedule_step e (schedule_run es)"
  by (simp add: schedule_run_def)

lemma schedule_run_ok: "schedule_ok (schedule_run events)"
proof (induction events rule: rev_induct)
  case Nil
  then show ?case
    by (simp add: schedule_run_def createAutoRefreshSchedule_def schedule_ok_def AUTO_REFRESH_INTERVALS_def)
next
  case (snoc e es)
  then show ?case by (simp add: schedule_run_snoc schedule_step_ok)
qed

text \<open>Which operations have been accepted, and which have settled, in order.\<close>

fun accepted :: "ScheduleEvent list \<Rightarrow> nat list" where
  "accepted [] = []"
| "accepted (RunOp op automatic # es) = op # accepted es"
| "accepted (_ # es) = accepted es"

definition settled_ops :: "ScheduleEvent list \<Rightarrow> nat list" where
  "settled_ops events =
     fst (fold (\<lambda>e (ops, s). ((if e = Settle \<and> tail s \<noteq> [] then ops @ [hd (tail s)] else ops), schedule_step e s)) events
       ([], createAutoRefreshSchedule))"

definition trace_step :: "ScheduleEvent \<Rightarrow> nat list \<times> AutoRefreshSchedule \<Rightarrow> nat list \<times> AutoRefreshSchedule" where
  "trace_step e p = ((if e = Settle \<and> tail (snd p) \<noteq> [] then fst p @ [hd (tail (snd p))] else fst p), schedule_step e (snd p))"

lemma trace: "fold (\<lambda>e (ops, s). ((if e = Settle \<and> tail s \<noteq> [] then ops @ [hd (tail s)] else ops), schedule_step e s)) events p
    = fold trace_step events p"
  by (rule fold_cong) (auto simp: trace_step_def fun_eq_iff)

lemma snd_trace: "snd (fold trace_step events (ops, s)) = fold schedule_step events s"
  by (induction events arbitrary: ops s) (simp_all add: trace_step_def)

lemma trace_fifo: "subseq (fst (fold trace_step events (ops, s)) @ tail (snd (fold trace_step events (ops, s))))
    (ops @ tail s @ accepted events)"
proof (induction events arbitrary: ops s)
  case (Cons e es)
  let ?p = "trace_step e (ops, s)"
  have ih: "subseq (fst (fold trace_step es ?p) @ tail (snd (fold trace_step es ?p))) (fst ?p @ tail (snd ?p) @ accepted es)"
    using Cons.IH [of "fst ?p" "snd ?p"] by simp
  have "subseq (fst ?p @ tail (snd ?p) @ accepted es) (ops @ tail s @ accepted (e # es))"
    by (cases e)
       (auto simp: trace_step_def configure_def complete_def setEditing_def invalidate_def run_operation_def
          operation_settles_def Let_def simp: subseq_append' split: list.split)
  from subseq_order.order_trans [OF ih this] show ?case by simp
qed simp

text \<open>C31 (refreshes_run_one_at_a_time): in every reachable state of the schedule it is busy exactly while an accepted
  operation has not settled; operations settle in the order they were asked for, none twice; an automatic
  refresh never joins a waiting line; and the next refresh is due one interval after the last completed one,
  if refreshing is on at all.\<close>

theorem refreshes_run_one_at_a_time:
  "schedule_ok (schedule_run events)
   \<and> subseq (settled_ops events @ tail (schedule_run events)) (accepted events)
   \<and> tail (run_operation op True (schedule_run events))
       = (if busy (snapshot (schedule_run events)) then tail (schedule_run events) else [op])"
proof -
  have "subseq (settled_ops events @ tail (schedule_run events)) (accepted events)"
    using trace_fifo [of events "[]" createAutoRefreshSchedule] snd_trace [of events "[]" createAutoRefreshSchedule]
    by (simp add: settled_ops_def trace schedule_run_def) (simp add: createAutoRefreshSchedule_def)
  moreover have "tail (run_operation op True (schedule_run events))
       = (if busy (snapshot (schedule_run events)) then tail (schedule_run events) else [op])"
    using schedule_run_ok [of events] by (auto simp: schedule_ok_def run_operation_def)
  ultimately show ?thesis using schedule_run_ok by simp
qed

end
