(* ===== verification/Insertions.thy ===== *)
theory Insertions
  imports ColumnTypes
begin

text \<open>
  Rows waiting to be inserted (\<open>utils/pendingInsertions.ts\<close>). Row data is an object, a list of properties; the
  generated ids (clock and random number) are left out.
\<close>

record PendingInsertion =
  tempId :: jsstring
  ins_data :: "(jsstring \<times> jsval) list"
  displayIndex :: nat

definition initialize_value :: "TableColumn \<Rightarrow> jsval" where
  "initialize_value col =
     (if is_generated col then JNull else if is_auto_increment col then JNull
      else if is_nullable col then JNull else JStr [])"

definition initializeNewRow :: "TableColumn list \<Rightarrow> (jsstring \<times> jsval) list" where
  "initializeNewRow columns = foldl (\<lambda>row col. set_prop row (tc_name col, initialize_value col)) [] columns"

definition missing_value :: "jsval \<Rightarrow> bool" where
  "missing_value v \<longleftrightarrow> v = JNull \<or> v = JUndefined \<or> v = JStr []"

definition has_default :: "TableColumn \<Rightarrow> bool" where
  "has_default col = (case default_value col of None \<Rightarrow> False | Some d \<Rightarrow> d \<noteq> [])"

definition required_column :: "TableColumn \<Rightarrow> bool" where
  "required_column col \<longleftrightarrow>
     \<not> (is_auto_increment col \<or> is_generated col) \<and> \<not> has_default col \<and> \<not> is_nullable col"

definition validatePendingInsertion :: "PendingInsertion \<Rightarrow> TableColumn list \<Rightarrow> (jsstring \<times> jsstring) list" where
  "validatePendingInsertion insertion columns =
     foldl (\<lambda>errors col.
         if required_column col \<and> missing_value (get_prop (ins_data insertion) (tc_name col))
         then set_prop errors (tc_name col, ''Required field'') else errors) [] columns"

definition sent_column :: "PendingInsertion \<Rightarrow> TableColumn \<Rightarrow> bool" where
  "sent_column insertion col =
     (let v = get_prop (ins_data insertion) (tc_name col) in
      if is_generated col then False
      else if is_auto_increment col \<and> missing_value v then False
      else if has_default col \<and> missing_value v then False
      else True)"

definition insertionToBackendData :: "PendingInsertion \<Rightarrow> TableColumn list \<Rightarrow> (jsstring \<times> jsval) list" where
  "insertionToBackendData insertion columns =
     foldl (\<lambda>row col. if sent_column insertion col
         then set_prop row (tc_name col, get_prop (ins_data insertion) (tc_name col)) else row) [] columns"

definition filterInsertionsBySelection :: "(jsstring \<times> PendingInsertion) list \<Rightarrow> nat set \<Rightarrow> PendingInsertion list" where
  "filterInsertionsBySelection pendingInsertions selectedDisplayIndices =
     filter (\<lambda>insertion. displayIndex insertion \<in> selectedDisplayIndices) (map snd pendingInsertions)"

section \<open>What is sent\<close>

lemma map_of_fold_props:
  "map_of (foldl (\<lambda>row col. if P col then set_prop row (tc_name col, f (tc_name col)) else row) acc columns) k
     = (if list_ex (\<lambda>col. P col \<and> tc_name col = k) columns then Some (f k) else map_of acc k)"
  by (induction columns arbitrary: acc) auto

lemma backend_value:
  "map_of (insertionToBackendData ins columns) k =
     (if list_ex (\<lambda>col. sent_column ins col \<and> tc_name col = k) columns then Some (get_prop (ins_data ins) k) else None)"
  using map_of_fold_props [of "sent_column ins" "get_prop (ins_data ins)" "[]" columns k]
  by (simp add: insertionToBackendData_def)

lemma error_value:
  "map_of (validatePendingInsertion ins columns) k =
     (if list_ex (\<lambda>col. (required_column col \<and> missing_value (get_prop (ins_data ins) (tc_name col))) \<and> tc_name col = k) columns
      then Some ''Required field'' else None)"
  using map_of_fold_props [of "\<lambda>col. required_column col \<and> missing_value (get_prop (ins_data ins) (tc_name col))"
      "\<lambda>_. ''Required field''" "[]" columns k]
  by (simp add: validatePendingInsertion_def)

text \<open>Property (valid_insert_is_complete): the data sent for a row that validates never names a generated column, has a
  value that is not NULL, missing or empty for every required column, and carries for every other column it names
  exactly the value the user entered.\<close>

theorem valid_insert_is_complete:
  assumes "validatePendingInsertion ins columns = []" "distinct (map tc_name columns)"
  shows "list_all (\<lambda>col.
      (is_generated col \<longrightarrow> map_of (insertionToBackendData ins columns) (tc_name col) = None)
      \<and> (required_column col \<longrightarrow> (\<exists>v. map_of (insertionToBackendData ins columns) (tc_name col) = Some v \<and> \<not> missing_value v))
      \<and> map_of (insertionToBackendData ins columns) (tc_name col)
          \<in> {None, Some (get_prop (ins_data ins) (tc_name col))}) columns"
proof -
  have u: "c = col" if "c \<in> set columns" "col \<in> set columns" "tc_name c = tc_name col" for c col
    using assms(2) that by (auto simp: distinct_map dest: inj_onD)
  have e: "\<not> missing_value (get_prop (ins_data ins) (tc_name col))" if "col \<in> set columns" "required_column col" for col
    using error_value [of ins columns "tc_name col"] that assms(1) by (auto simp: list_ex_iff split: if_splits)
  have s: "sent_column ins col" if "required_column col" for col
    using that by (auto simp: sent_column_def required_column_def Let_def)
  have g: "\<not> sent_column ins col" if "is_generated col" for col using that by (simp add: sent_column_def Let_def)
  have b: "map_of (insertionToBackendData ins columns) (tc_name col)
      = (if sent_column ins col then Some (get_prop (ins_data ins) (tc_name col)) else None)" if "col \<in> set columns" for col
    unfolding backend_value using u [OF _ that] that by (auto simp: list_ex_iff)
  show ?thesis unfolding list_all_iff using e s g by (auto simp: b)
qed

lemma valid_insert_is_complete_witness:
  "let c = \<lparr>tc_name = ''id'', data_type = ''int'', is_pk = True, is_nullable = False, is_auto_increment = True,
       is_generated = False, default_value = None, character_maximum_length = None\<rparr>;
     n = c\<lparr>tc_name := ''name'', is_auto_increment := False\<rparr>;
     ins = \<lparr>tempId = ''t'', ins_data = [(''id'', JNull), (''name'', JStr ''x'')], displayIndex = 0\<rparr>
   in map_of (insertionToBackendData ins [c, n]) ''name'' = Some (JStr ''x'')
      \<and> (\<exists>v. map_of (insertionToBackendData ins [c, n]) ''name'' = Some v \<and> \<not> missing_value v)"
proof -
  let ?c = "\<lparr>tc_name = ''id'', data_type = ''int'', is_pk = True, is_nullable = False, is_auto_increment = True,
       is_generated = False, default_value = None, character_maximum_length = None\<rparr>"
  let ?n = "?c\<lparr>tc_name := ''name'', is_auto_increment := False\<rparr>"
  let ?i = "\<lparr>tempId = ''t'', ins_data = [(''id'', JNull), (''name'', JStr ''x'')], displayIndex = 0\<rparr>"
  have v: "validatePendingInsertion ?i [?c, ?n] = []" "distinct (map tc_name [?c, ?n])" "required_column ?n"
    "map_of (insertionToBackendData ?i [?c, ?n]) ''name'' = Some (JStr ''x'')"
    by (simp_all add: validatePendingInsertion_def required_column_def has_default_def missing_value_def get_prop_def
        insertionToBackendData_def sent_column_def)
  from valid_insert_is_complete [OF v(1,2)] v(3,4) show ?thesis by simp
qed

end
