(* ===== verification/ExplorerPins.thy ===== *)
theory ExplorerPins
  imports JsValue
begin

text \<open>
  Pinned tables and views of the explorer (\<open>utils/explorerPins.ts\<close>): per connection and scope a list of objects. An
  object is the list of its properties. \<open>pins_json\<close> is the value the UI state store keeps.
\<close>

datatype PinnedObjectKind = PinTable | PinView

record PinnedObject =
  pin_kind :: PinnedObjectKind
  pin_name :: jsstring

type_synonym ExplorerPins = "(jsstring \<times> (jsstring \<times> PinnedObject list) list) list"

definition MAX_PINS_PER_SCOPE :: nat where
  "MAX_PINS_PER_SCOPE = 50"

definition pinScope :: "jsstring option \<Rightarrow> jsstring option \<Rightarrow> jsstring" where
  "pinScope database schema =
     (let v = (\<lambda>s. case s of None \<Rightarrow> JNull | Some t \<Rightarrow> JStr t)
      in case stringify (JArr [v database, v schema]) of Some t \<Rightarrow> t | None \<Rightarrow> [])"

definition scopes_of :: "ExplorerPins \<Rightarrow> jsstring \<Rightarrow> (jsstring \<times> PinnedObject list) list" where
  "scopes_of pins connectionId = (case map_of pins connectionId of Some scopes \<Rightarrow> scopes | None \<Rightarrow> [])"

definition pinsInScope :: "ExplorerPins \<Rightarrow> jsstring \<Rightarrow> jsstring \<Rightarrow> PinnedObject list" where
  "pinsInScope pins connectionId scope =
     (case map_of (scopes_of pins connectionId) scope of Some l \<Rightarrow> l | None \<Rightarrow> [])"

definition isPinned :: "ExplorerPins \<Rightarrow> jsstring \<Rightarrow> jsstring \<Rightarrow> PinnedObject \<Rightarrow> bool" where
  "isPinned pins connectionId scope obj \<longleftrightarrow>
     list_ex (\<lambda>pin. pin_kind pin = pin_kind obj \<and> pin_name pin = pin_name obj) (pinsInScope pins connectionId scope)"

definition slice_last :: "nat \<Rightarrow> 'a list \<Rightarrow> 'a list" where
  "slice_last n xs = drop (length xs - n) xs"

definition setPinned :: "ExplorerPins \<Rightarrow> jsstring \<Rightarrow> jsstring \<Rightarrow> PinnedObject \<Rightarrow> bool \<Rightarrow> ExplorerPins" where
  "setPinned pins connectionId scope obj pinned =
     (let others = filter (\<lambda>pin. \<not> (pin_kind pin = pin_kind obj \<and> pin_name pin = pin_name obj))
              (pinsInScope pins connectionId scope);
          next = (if pinned then slice_last MAX_PINS_PER_SCOPE (others @ [\<lparr>pin_kind = pin_kind obj, pin_name = pin_name obj\<rparr>])
                  else others);
          scopes = filter (\<lambda>(_, l). length l > 0) (set_prop (scopes_of pins connectionId) (scope, next))
      in filter (\<lambda>(_, connectionScopes). length connectionScopes > 0) (set_prop pins (connectionId, scopes)))"

text \<open>\<open>new Map(available.map(...))\<close> keeps the last item of each name.\<close>

definition resolvePins :: "PinnedObject list \<Rightarrow> PinnedObjectKind \<Rightarrow> 'a list \<Rightarrow> ('a \<Rightarrow> jsstring) \<Rightarrow> 'a list" where
  "resolvePins pinned kind available getName =
     List.map_filter (\<lambda>pin. map_of (rev (map (\<lambda>item. (getName item, item)) available)) (pin_name pin))
       (filter (\<lambda>pin. pin_kind pin = kind) pinned)"

section \<open>Reading the stored value\<close>

definition read_pin :: "jsval \<Rightarrow> PinnedObject option" where
  "read_pin v =
     (case v of
        JObj kvs \<Rightarrow>
          (case (get_prop kvs ''kind'', get_prop kvs ''name'') of
             (JStr k, JStr n) \<Rightarrow>
               (if k = ''table'' then Some \<lparr>pin_kind = PinTable, pin_name = n\<rparr>
                else if k = ''view'' then Some \<lparr>pin_kind = PinView, pin_name = n\<rparr> else None)
           | _ \<Rightarrow> None)
      | _ \<Rightarrow> None)"

definition read_scope ::
  "jsstring \<Rightarrow> ExplorerPins \<Rightarrow> jsstring \<times> jsval \<Rightarrow> ExplorerPins" where
  "read_scope connectionId pins entry =
     (case snd entry of
        JArr l \<Rightarrow>
          (let objects = List.map_filter read_pin l in
           if length objects = 0 then pins
           else set_prop pins (connectionId, set_prop (scopes_of pins connectionId) (fst entry, objects)))
      | _ \<Rightarrow> pins)"

definition read_connection :: "ExplorerPins \<Rightarrow> jsstring \<times> jsval \<Rightarrow> ExplorerPins" where
  "read_connection pins entry =
     (case snd entry of JObj scopes \<Rightarrow> foldl (read_scope (fst entry)) pins scopes | _ \<Rightarrow> pins)"

definition sanitizeExplorerPins :: "jsval \<Rightarrow> ExplorerPins" where
  "sanitizeExplorerPins v = (case v of JObj entries \<Rightarrow> foldl read_connection [] entries | _ \<Rightarrow> [])"

definition kind_text :: "PinnedObjectKind \<Rightarrow> jsstring" where
  "kind_text k = (case k of PinTable \<Rightarrow> ''table'' | PinView \<Rightarrow> ''view'')"

definition pin_json :: "PinnedObject \<Rightarrow> jsval" where
  "pin_json p = JObj [(''kind'', JStr (kind_text (pin_kind p))), (''name'', JStr (pin_name p))]"

definition scopes_json :: "(jsstring \<times> PinnedObject list) list \<Rightarrow> jsval" where
  "scopes_json scopes = JObj (map (\<lambda>(s, l). (s, JArr (map pin_json l))) scopes)"

definition pins_json :: "ExplorerPins \<Rightarrow> jsval" where
  "pins_json pins = JObj (map (\<lambda>(c, scopes). (c, scopes_json scopes)) pins)"

section \<open>Well-formed pins\<close>

definition scope_ok :: "PinnedObject list \<Rightarrow> bool" where
  "scope_ok l \<longleftrightarrow> l \<noteq> [] \<and> distinct l \<and> length l \<le> MAX_PINS_PER_SCOPE"

definition scopes_ok :: "(jsstring \<times> PinnedObject list) list \<Rightarrow> bool" where
  "scopes_ok scopes \<longleftrightarrow> distinct (map fst scopes) \<and> list_all (scope_ok \<circ> snd) scopes"

definition pins_ok :: "ExplorerPins \<Rightarrow> bool" where
  "pins_ok pins \<longleftrightarrow> distinct (map fst pins) \<and> list_all (\<lambda>(_, scopes). scopes \<noteq> [] \<and> scopes_ok scopes) pins"

lemma pin_same: "pin_kind p = pin_kind q \<and> pin_name p = pin_name q \<longleftrightarrow> p = q"
  for p q :: PinnedObject
  by (cases p; cases q) auto

lemma pin_eta: "\<lparr>pin_kind = pin_kind p, pin_name = pin_name p\<rparr> = p"
  by (cases p) simp

lemma in_set_prop: "e \<in> set (set_prop m (k, v)) \<Longrightarrow> e = (k, v) \<or> e \<in> set m"
  by (induction m) (auto split: if_splits)

lemma map_of_filter_values: "map_of (filter (\<lambda>(_, v). P v) m) k = (case map_of m k of Some v \<Rightarrow> if P v then Some v else None | None \<Rightarrow> None)"
  if "distinct (map fst m)"
  using that by (induction m) (auto simp: map_of_eq_None_iff split: option.splits dest: map_of_SomeD intro: rev_image_eqI)

lemma scopes_of_ok: "pins_ok pins \<Longrightarrow> scopes_ok (scopes_of pins c)"
proof (cases "map_of pins c")
  case None
  then show ?thesis by (simp add: scopes_of_def scopes_ok_def)
next
  case (Some scopes)
  assume "pins_ok pins"
  with map_of_SomeD [OF Some] show ?thesis by (auto simp: Some scopes_of_def pins_ok_def list_all_iff)
qed

lemma pinsInScope_ok: "pins_ok pins \<Longrightarrow> distinct (pinsInScope pins c s) \<and> length (pinsInScope pins c s) \<le> MAX_PINS_PER_SCOPE"
  using scopes_of_ok [of pins c]
  by (auto simp: pinsInScope_def scopes_ok_def scope_ok_def list_all_iff split: option.split dest!: map_of_SomeD)

definition next_pins :: "ExplorerPins \<Rightarrow> jsstring \<Rightarrow> jsstring \<Rightarrow> PinnedObject \<Rightarrow> bool \<Rightarrow> PinnedObject list" where
  "next_pins pins c s obj pinned =
     (let others = removeAll obj (pinsInScope pins c s)
      in if pinned then slice_last MAX_PINS_PER_SCOPE (others @ [obj]) else others)"

lemma setPinned_next:
  "setPinned pins c s obj pinned =
     filter (\<lambda>(_, l). length l > 0) (set_prop pins
       (c, filter (\<lambda>(_, l). length l > 0) (set_prop (scopes_of pins c) (s, next_pins pins c s obj pinned))))"
  by (simp add: setPinned_def next_pins_def Let_def pin_same pin_eta removeAll_filter_not_eq eq_commute)

lemma slice_last_ok: "distinct xs \<Longrightarrow> distinct (slice_last n xs)" "length (slice_last n xs) \<le> n"
  by (simp_all add: slice_last_def distinct_drop)

lemma next_pins_ok:
  assumes "pins_ok pins"
  shows "distinct (next_pins pins c s obj pinned) \<and> length (next_pins pins c s obj pinned) \<le> MAX_PINS_PER_SCOPE"
proof -
  have "distinct (removeAll obj (pinsInScope pins c s))" "length (removeAll obj (pinsInScope pins c s)) \<le> MAX_PINS_PER_SCOPE"
    using pinsInScope_ok [OF assms, of c s]
      order.trans [OF length_filter_le pinsInScope_ok [OF assms, of c s, THEN conjunct2], of "\<lambda>p. obj \<noteq> p"]
    by (simp_all add: distinct_removeAll removeAll_filter_not_eq)
  moreover from this(1) have "distinct (removeAll obj (pinsInScope pins c s) @ [obj])" by simp
  ultimately show ?thesis using slice_last_ok by (auto simp: next_pins_def Let_def)
qed

lemma setPinned_ok:
  assumes "pins_ok pins"
  shows "pins_ok (setPinned pins c s obj pinned)"
proof -
  let ?sc = "set_prop (scopes_of pins c) (s, next_pins pins c s obj pinned)"
  let ?f = "filter (\<lambda>(_, l). length l > 0) ?sc"
  have so: "scopes_ok (scopes_of pins c)" by (rule scopes_of_ok [OF assms])
  then have d: "distinct (map fst (scopes_of pins c))" by (simp add: scopes_ok_def)
  have "distinct (map fst ?sc)" using d by (rule distinct_set_prop)
  moreover have "scope_ok (snd e)" if "e \<in> set ?f" for e
  proof -
    have "e \<in> set ?sc" "snd e \<noteq> []" using that by auto
    from in_set_prop [OF this(1)] this(2) so next_pins_ok [OF assms, of c s obj pinned] show ?thesis
      by (auto simp: scopes_ok_def list_all_iff scope_ok_def)
  qed
  ultimately have f: "scopes_ok ?f" by (auto simp: scopes_ok_def list_all_iff distinct_map_filter)
  have dp: "distinct (map fst pins)" using assms by (simp add: pins_ok_def)
  have "distinct (map fst (set_prop pins (c, ?f)))" using dp by (rule distinct_set_prop)
  moreover have "scopes_ok (snd e)" if "e \<in> set (set_prop pins (c, ?f))" for e
    using in_set_prop [OF that] f assms by (auto simp: pins_ok_def list_all_iff)
  ultimately show ?thesis
    unfolding setPinned_next by (auto simp: pins_ok_def list_all_iff distinct_map_filter)
qed

lemma pinsInScope_setPinned:
  assumes "pins_ok pins"
  shows "pinsInScope (setPinned pins c s obj pinned) c' s' =
     (if c' = c \<and> s' = s then next_pins pins c s obj pinned else pinsInScope pins c' s')"
proof -
  let ?sc = "set_prop (scopes_of pins c) (s, next_pins pins c s obj pinned)"
  let ?f = "filter (\<lambda>(_, l). length l > 0) ?sc"
  have so: "scopes_ok (scopes_of pins c)" by (rule scopes_of_ok [OF assms])
  have ds: "distinct (map fst ?sc)" using so by (auto simp: scopes_ok_def)
  have dp: "distinct (map fst (set_prop pins (c, ?f)))" using assms by (auto simp: pins_ok_def)
  have ne: "scopes \<noteq> []" if "map_of pins k = Some scopes" for k scopes
    using that assms by (auto simp: pins_ok_def list_all_iff dest!: map_of_SomeD)
  have nl: "l \<noteq> []" if "map_of (scopes_of pins c) k = Some l" for k l
    using that so by (auto simp: scopes_ok_def scope_ok_def list_all_iff dest!: map_of_SomeD)
  have sc: "scopes_of (setPinned pins c s obj pinned) c' = (if c' = c then ?f else scopes_of pins c')"
    using map_of_filter_values [OF dp, of "\<lambda>l. length l > 0" c'] ne
    by (auto simp: setPinned_next scopes_of_def split: option.split)
  have "(case map_of ?f k of Some l \<Rightarrow> l | None \<Rightarrow> []) =
      (if k = s then next_pins pins c s obj pinned else pinsInScope pins c k)" for k
    using map_of_filter_values [OF ds, of "\<lambda>l. length l > 0" k] nl
    by (auto simp: pinsInScope_def split: option.split)
  then show ?thesis by (auto simp: pinsInScope_def [of "setPinned pins c s obj pinned"] sc) (simp add: pinsInScope_def)
qed

text \<open>Property (pinning_is_local): pinning puts the object last in its scope and unpinning takes it out, everything else keeps
  its order and every other scope its pins; a full scope loses its oldest pin; and the stored structure stays
  well-formed: no empty scope, no duplicate, never more than the limit.\<close>

theorem pinning_is_local:
  assumes "pins_ok pins"
  shows "pins_ok (setPinned pins c s obj pinned)
    \<and> isPinned (setPinned pins c s obj pinned) c s obj = pinned
    \<and> pinsInScope (setPinned pins c s obj pinned) c' s' =
       (if (c', s') \<noteq> (c, s) then pinsInScope pins c' s'
        else if pinned then slice_last MAX_PINS_PER_SCOPE (removeAll obj (pinsInScope pins c s) @ [obj])
        else removeAll obj (pinsInScope pins c s))"
proof -
  have "isPinned (setPinned pins c s obj pinned) c s obj \<longleftrightarrow> obj \<in> set (next_pins pins c s obj pinned)"
    by (auto simp: isPinned_def pinsInScope_setPinned [OF assms] list_ex_iff pin_same)
  moreover have "obj \<in> set (slice_last MAX_PINS_PER_SCOPE (xs @ [obj]))" for xs
    by (simp add: slice_last_def MAX_PINS_PER_SCOPE_def)
  ultimately show ?thesis
    using setPinned_ok [OF assms] pinsInScope_setPinned [OF assms]
    by (auto simp: next_pins_def Let_def)
qed

lemma pinning_is_local_witness:
  "let t = \<lparr>pin_kind = PinTable, pin_name = ''users''\<rparr>; s = pinScope (Some ''db'') None
   in pins_ok (setPinned [] ''c1'' s t True) \<and> isPinned (setPinned [] ''c1'' s t True) ''c1'' s t"
  using pinning_is_local [of "[]" "''c1''" "pinScope (Some ''db'') None" "\<lparr>pin_kind = PinTable, pin_name = ''users''\<rparr>" True]
  by (simp add: pins_ok_def)

section \<open>Storing and reading back\<close>

lemma read_pin_json [simp]: "read_pin (pin_json p) = Some p"
  by (cases p) (auto simp: read_pin_def pin_json_def get_prop_def kind_text_def split: PinnedObjectKind.splits)

lemma read_pins_json: "List.map_filter read_pin (map pin_json l) = l"
  by (induction l) (simp_all add: List.map_filter_def)

lemma set_prop_new: "k \<notin> fst ` set m \<Longrightarrow> set_prop m (k, v) = m @ [(k, v)]"
  by (induction m) auto

lemma set_prop_last: "k \<notin> fst ` set m \<Longrightarrow> set_prop (m @ [(k, v)]) (k, w) = m @ [(k, w)]"
  by (induction m) auto

lemma read_scopes:
  assumes "c \<notin> fst ` set pins" "distinct (map fst (done @ scopes))" "list_all (\<lambda>(_, l). l \<noteq> []) scopes" "done \<noteq> []"
  shows "foldl (read_scope c) (pins @ [(c, done)]) (map (\<lambda>(s, l). (s, JArr (map pin_json l))) scopes)
       = pins @ [(c, done @ scopes)]"
  using assms(2-)
proof (induction scopes arbitrary: "done")
  case (Cons e scopes)
  obtain s l where e: "e = (s, l)" by (cases e)
  have so: "scopes_of (pins @ [(c, done)]) c = done"
    using map_of_eq_None_iff [THEN iffD2, OF assms(1)] by (simp add: scopes_of_def map_add_def)
  have "read_scope c (pins @ [(c, done)]) (s, JArr (map pin_json l)) = pins @ [(c, done @ [(s, l)])]"
    using Cons.prems(1,2) set_prop_last [OF assms(1)]
    by (auto simp: e read_scope_def read_pins_json so set_prop_new)
  moreover have "foldl (read_scope c) (pins @ [(c, done @ [(s, l)])]) (map (\<lambda>(s, l). (s, JArr (map pin_json l))) scopes)
       = pins @ [(c, (done @ [(s, l)]) @ scopes)]"
    by (rule Cons.IH) (use Cons.prems in \<open>simp_all add: e\<close>)
  ultimately show ?case by (simp add: e)
qed simp

lemma read_connection_json:
  assumes "c \<notin> fst ` set pins" "scopes \<noteq> []" "scopes_ok scopes"
  shows "read_connection pins (c, scopes_json scopes) = pins @ [(c, scopes)]"
proof -
  obtain s l rest where sc: "scopes = (s, l) # rest" using assms(2) by (cases scopes) auto
  have so: "scopes_of pins c = []" using assms(1) by (simp add: scopes_of_def map_of_eq_None_iff [THEN iffD2])
  have l: "l \<noteq> []" "list_all (\<lambda>(_, l). l \<noteq> []) rest" "distinct (map fst ([(s, l)] @ rest))"
    using assms(3) by (auto simp: sc scopes_ok_def scope_ok_def list_all_iff)
  have "read_scope c pins (s, JArr (map pin_json l)) = pins @ [(c, [(s, l)])]"
    using l(1) set_prop_new [OF assms(1)] by (simp add: read_scope_def read_pins_json so)
  then show ?thesis
    using read_scopes [OF assms(1) l(3,2)] by (simp add: read_connection_def scopes_json_def sc)
qed

text \<open>Property (stored_pins_come_back): well-formed pins written to the UI state are read back unchanged.\<close>

theorem stored_pins_come_back:
  assumes "pins_ok pins"
  shows "sanitizeExplorerPins (pins_json pins) = pins"
proof -
  have "foldl read_connection acc (map (\<lambda>(c, scopes). (c, scopes_json scopes)) ps) = acc @ ps"
    if "distinct (map fst (acc @ ps))" "list_all (\<lambda>(_, scopes). scopes \<noteq> [] \<and> scopes_ok scopes) ps" for acc ps
    using that
  proof (induction ps arbitrary: acc)
    case (Cons e ps)
    obtain c scopes where e: "e = (c, scopes)" by (cases e)
    have "read_connection acc (c, scopes_json scopes) = acc @ [(c, scopes)]"
      by (rule read_connection_json) (use Cons.prems in \<open>auto simp: e\<close>)
    then show ?case using Cons.IH [of "acc @ [e]"] Cons.prems by (simp add: e)
  qed simp
  from this [of "[]" pins] assms show ?thesis by (simp add: sanitizeExplorerPins_def pins_json_def pins_ok_def)
qed

lemma stored_pins_come_back_witness:
  "sanitizeExplorerPins (pins_json (setPinned [] ''c1'' ''[]'' \<lparr>pin_kind = PinView, pin_name = ''v''\<rparr> True))
     = setPinned [] ''c1'' ''[]'' \<lparr>pin_kind = PinView, pin_name = ''v''\<rparr> True"
  by (rule stored_pins_come_back) (rule setPinned_ok, simp add: pins_ok_def)

end
