(* ===== verification/PlanNode.thy ===== *)
theory PlanNode
  imports Complex_Main JsValue
begin

text \<open>
  Plan nodes (\<open>packages/explain/src/types.ts\<close>, \<open>parsers/node.ts\<close>): a node is its scalar fields and its
  children. JavaScript numbers are exact rationals here: every finite double is one, and the rounding of
  a sum, a product or a decimal read from text to a double is not modelled. \<open>Number(text)\<close> is read
  with all its literal forms; what is not finite is \<open>None\<close>, as all callers test \<open>Number.isFinite\<close>.
\<close>

section \<open>Numbers\<close>

type_synonym jsnumber = rat

definition decimal_value :: "int \<Rightarrow> nat \<Rightarrow> jsnumber" where
  "decimal_value m d = of_int m / 10 ^ d"

definition digit_value :: "char \<Rightarrow> nat" where
  "digit_value c =
     (let n = code_of c in
      if 48 \<le> n \<and> n \<le> 57 then n - 48
      else if 97 \<le> n \<and> n \<le> 122 then n - 87
      else if 65 \<le> n \<and> n \<le> 90 then n - 55
      else 36)"

definition radix_value :: "nat \<Rightarrow> jsstring \<Rightarrow> nat" where
  "radix_value b s = foldl (\<lambda>n c. b * n + digit_value c) 0 s"

definition radix_literal :: "nat \<Rightarrow> jsstring \<Rightarrow> jsnumber option" where
  "radix_literal b s =
     (if s \<noteq> [] \<and> list_all (\<lambda>c. digit_value c < b) s then Some (of_nat (radix_value b s)) else None)"

text \<open>The part after \<open>e\<close> or \<open>E\<close>: an optional sign and at least one digit.\<close>

definition exponent :: "jsstring \<Rightarrow> int option" where
  "exponent s =
     (let neg = prefix ''-'' s; ds = (if neg \<or> prefix ''+'' s then tl s else s) in
      if ds \<noteq> [] \<and> list_all is_digit ds
      then Some (if neg then - int (radix_value 10 ds) else int (radix_value 10 ds)) else None)"

definition scale10 :: "jsnumber \<Rightarrow> int \<Rightarrow> jsnumber" where
  "scale10 x k = (if k < 0 then x / 10 ^ nat (- k) else x * 10 ^ nat k)"

definition decimal_literal :: "jsstring \<Rightarrow> jsnumber option" where
  "decimal_literal s =
     (let whole = takeWhile is_digit s; rest = dropWhile is_digit s;
          point = prefix ''.'' rest;
          fraction = (if point then takeWhile is_digit (tl rest) else []);
          tail = (if point then dropWhile is_digit (tl rest) else rest);
          x = of_nat (radix_value 10 (whole @ fraction)) / 10 ^ length fraction
      in if whole @ fraction = [] then None
         else (case tail of
                 [] \<Rightarrow> Some x
               | e # es \<Rightarrow>
                   (if e = CHR ''e'' \<or> e = CHR ''E'' then map_option (scale10 x) (exponent es) else None)))"

text \<open>\<open>Number(text)\<close> where it is finite: blanks around are ignored, the empty text is 0, a magnitude
  that rounds up to \<open>2^1024\<close> is infinite.\<close>

definition finite_double :: "jsnumber \<Rightarrow> bool" where
  "finite_double x \<longleftrightarrow> \<bar>x\<bar> < 2 ^ 1024 - 2 ^ 970"

definition number_of_text :: "jsstring \<Rightarrow> jsnumber option" where
  "number_of_text raw =
     (let s = trim raw; p = lower (take 2 s);
          r = (if s = [] then Some 0
               else if p = ''0x'' then radix_literal 16 (drop 2 s)
               else if p = ''0o'' then radix_literal 8 (drop 2 s)
               else if p = ''0b'' then radix_literal 2 (drop 2 s)
               else if prefix ''-'' s then map_option uminus (decimal_literal (tl s))
               else if prefix ''+'' s then decimal_literal (tl s)
               else decimal_literal s)
      in (case r of Some x \<Rightarrow> if finite_double x then Some x else None | None \<Rightarrow> None))"

definition trunc :: "jsnumber \<Rightarrow> jsnumber" where
  "trunc x = (if 0 \<le> x then of_int \<lfloor>x\<rfloor> else of_int \<lceil>x\<rceil>)"

section \<open>Nodes\<close>

record NodeFields =
  node_type :: jsstring
  relation :: "jsstring option"
  startup_cost :: "jsnumber option"
  total_cost :: "jsnumber option"
  plan_rows :: "jsnumber option"
  actual_rows :: "jsnumber option"
  actual_time_ms :: "jsnumber option"
  actual_loops :: "jsnumber option"
  buffers_hit :: "jsnumber option"
  buffers_read :: "jsnumber option"
  filter_text :: "jsstring option"
  index_condition :: "jsstring option"
  join_type :: "jsstring option"
  hash_condition :: "jsstring option"
  extra :: "(jsstring \<times> jsval) list"

datatype ExplainNode =
  ExplainNode (node_id: jsstring) (scalars: NodeFields) (children: "ExplainNode list")

record ExplainPlan =
  plan_root :: ExplainNode
  planning_time_ms :: "jsnumber option"
  execution_time_ms :: "jsnumber option"
  original_query :: jsstring
  plan_driver :: jsstring
  has_analyze_data :: bool
  raw_output :: "jsstring option"

text \<open>The allocator's state is its counter.\<close>

definition node_name :: "nat \<Rightarrow> jsstring" where
  "node_name n = ''node_'' @ nat_str n"

definition next_id :: "nat \<Rightarrow> jsstring \<times> nat" where
  "next_id counter = (node_name counter, counter + 1)"

definition default_fields :: NodeFields where
  "default_fields = \<lparr>node_type = ''Unknown'', relation = None, startup_cost = None, total_cost = None,
     plan_rows = None, actual_rows = None, actual_time_ms = None, actual_loops = None, buffers_hit = None,
     buffers_read = None, filter_text = None, index_condition = None, join_type = None,
     hash_condition = None, extra = []\<rparr>"

text \<open>The overrides are a record update; \<open>children\<close> is always given.\<close>

definition createExplainNode :: "jsstring \<Rightarrow> (NodeFields \<Rightarrow> NodeFields) \<Rightarrow> ExplainNode list \<Rightarrow> ExplainNode" where
  "createExplainNode i overrides cs = ExplainNode i (overrides default_fields) cs"

definition measured :: "NodeFields \<Rightarrow> bool" where
  "measured f \<longleftrightarrow> actual_rows f \<noteq> None \<or> actual_time_ms f \<noteq> None"

fun hasAnalyzeDataRecursive :: "ExplainNode \<Rightarrow> bool" where
  "hasAnalyzeDataRecursive (ExplainNode i f cs) = (measured f \<or> list_ex hasAnalyzeDataRecursive cs)"

fun asObject :: "jsval \<Rightarrow> (jsstring \<times> jsval) list option" where
  "asObject (JObj kvs) = Some kvs"
| "asObject _ = None"

fun asArray :: "jsval \<Rightarrow> jsval list option" where
  "asArray (JArr xs) = Some xs"
| "asArray _ = None"

fun asString :: "jsval \<Rightarrow> jsstring option" where
  "asString (JStr s) = Some s"
| "asString _ = None"

fun asNumber :: "jsval \<Rightarrow> jsnumber option" where
  "asNumber (JNum m d) = Some (decimal_value m d)"
| "asNumber _ = None"

definition asLooseNumber :: "jsval \<Rightarrow> jsnumber option" where
  "asLooseNumber v =
     (case asNumber v of
        Some x \<Rightarrow> Some x
      | None \<Rightarrow>
          (case asString v of
             None \<Rightarrow> None
           | Some t \<Rightarrow> if trim t = [] then None else number_of_text t))"

definition asLoopCount :: "jsval \<Rightarrow> jsnumber option" where
  "asLoopCount v = map_option trunc (asNumber v)"

text \<open>\<open>asObject(value) ?? {}\<close> and \<open>a ?? b\<close>.\<close>

definition object_of :: "jsval \<Rightarrow> (jsstring \<times> jsval) list" where
  "object_of v = (case asObject v of Some kvs \<Rightarrow> kvs | None \<Rightarrow> [])"

definition or_null :: "'a option \<Rightarrow> 'a option \<Rightarrow> 'a option" where
  "or_null a b = (case a of Some x \<Rightarrow> Some x | None \<Rightarrow> b)"

section \<open>Numbered trees\<close>

fun flattenExplainNodes :: "ExplainNode \<Rightarrow> ExplainNode list" where
  "flattenExplainNodes (ExplainNode i f cs) = ExplainNode i f cs # concat (map flattenExplainNodes cs)"

definition flatten_forest :: "ExplainNode list \<Rightarrow> ExplainNode list" where
  "flatten_forest ts = concat (map flattenExplainNodes ts)"

lemma flatten_forest_simps [simp]:
  "flatten_forest [] = []"
  "flatten_forest (t # ts) = flattenExplainNodes t @ flatten_forest ts"
  "flatten_forest (ts @ us) = flatten_forest ts @ flatten_forest us"
  by (simp_all add: flatten_forest_def)

lemma flatten_node [simp]:
  "flattenExplainNodes (ExplainNode i f cs) = ExplainNode i f cs # flatten_forest cs"
  by (simp add: flatten_forest_def)

declare flattenExplainNodes.simps [simp del]

lemma flatten_create [simp]:
  "flattenExplainNodes (createExplainNode i g cs) = createExplainNode i g cs # flatten_forest cs"
  "node_id (createExplainNode i g cs) = i" "children (createExplainNode i g cs) = cs"
  "scalars (createExplainNode i g cs) = g default_fields"
  by (simp_all add: createExplainNode_def)

text \<open>A run of the allocator from \<open>n\<close> to \<open>n'\<close> named the nodes in depth-first order.\<close>

definition numbered :: "nat \<Rightarrow> ExplainNode list \<Rightarrow> nat \<Rightarrow> bool" where
  "numbered n ts n' \<longleftrightarrow> n \<le> n' \<and> map node_id (flatten_forest ts) = map node_name [n..<n']"

lemma numbered_Nil [simp]: "numbered n [] n"
  by (simp add: numbered_def)

lemma numbered_append: "numbered n ts m \<Longrightarrow> numbered m us k \<Longrightarrow> numbered n (ts @ us) k"
  using upt_add_eq_append [of n m "k - m"] by (simp add: numbered_def)

lemma numbered_Cons: "numbered n [t] m \<Longrightarrow> numbered m ts k \<Longrightarrow> numbered n (t # ts) k"
  using numbered_append [of n "[t]" m ts k] by simp

lemma numbered_node: "numbered (Suc n) cs m \<Longrightarrow> numbered n [createExplainNode (node_name n) g cs] m"
  by (simp add: numbered_def upt_conv_Cons)

lemma node_name_inj [simp]: "node_name m = node_name n \<longleftrightarrow> m = n"
  by (auto simp: node_name_def dest: nat_str_inj)

lemma node_name_nonempty [simp]: "node_name n \<noteq> []" "[] \<noteq> node_name n"
  by (simp_all add: node_name_def)

lemma numbered_distinct: "numbered n ts n' \<Longrightarrow> distinct (map node_id (flatten_forest ts))"
  by (auto simp: numbered_def distinct_map inj_on_def)

lemma numbered_length: "numbered n ts n' \<Longrightarrow> length (flatten_forest ts) = n' - n"
  by (metis numbered_def length_map length_upt)

text \<open>\<open>items.map((item) => parse(item, ids))\<close> and a loop that pushes one node per item: the allocator is
  threaded through. The second form is for a parser that may not return.\<close>

fun map_ids :: "('a \<Rightarrow> nat \<Rightarrow> 'b \<times> nat) \<Rightarrow> 'a list \<Rightarrow> nat \<Rightarrow> 'b list \<times> nat" where
  "map_ids parse [] n = ([], n)"
| "map_ids parse (x # xs) n =
     (case parse x n of (t, n1) \<Rightarrow> case map_ids parse xs n1 of (ts, n2) \<Rightarrow> (t # ts, n2))"

lemma map_ids_cong [fundef_cong]:
  assumes "xs = ys" "n = m" "\<And>x k. x \<in> set ys \<Longrightarrow> f x k = g x k"
  shows "map_ids f xs n = map_ids g ys m"
proof -
  have "map_ids f ys k = map_ids g ys k" for k
    using assms(3) by (induction ys arbitrary: k) (auto split: prod.split)
  with assms(1,2) show ?thesis by simp
qed

lemma map_ids_numbered:
  "map_ids parse xs n = (ts, n') \<Longrightarrow>
   (\<And>x k t k'. x \<in> set xs \<Longrightarrow> parse x k = (t, k') \<Longrightarrow> numbered k [t] k') \<Longrightarrow> numbered n ts n'"
proof (induction xs arbitrary: n ts n')
  case (Cons x xs)
  obtain t n1 where t: "parse x n = (t, n1)" by (cases "parse x n")
  obtain us n2 where u: "map_ids parse xs n1 = (us, n2)" by (cases "map_ids parse xs n1")
  have "numbered n [t] n1" using Cons.prems(2) [OF _ t] by simp
  moreover have "numbered n1 us n2"
    by (rule Cons.IH [OF u]) (rule Cons.prems(2), simp_all)
  ultimately show ?case using Cons.prems(1) t u by (auto intro: numbered_Cons)
qed simp

fun map_ids_opt :: "('a \<Rightarrow> nat \<Rightarrow> ('b \<times> nat) option) \<Rightarrow> 'a list \<Rightarrow> nat \<Rightarrow> ('b list \<times> nat) option" where
  "map_ids_opt parse [] n = Some ([], n)"
| "map_ids_opt parse (x # xs) n =
     (case parse x n of
        None \<Rightarrow> None
      | Some (t, n1) \<Rightarrow>
          (case map_ids_opt parse xs n1 of None \<Rightarrow> None | Some (ts, n2) \<Rightarrow> Some (t # ts, n2)))"

lemma map_ids_opt_cong [fundef_cong]:
  assumes "xs = ys" "n = m" "\<And>x k. x \<in> set ys \<Longrightarrow> f x k = g x k"
  shows "map_ids_opt f xs n = map_ids_opt g ys m"
proof -
  have "map_ids_opt f ys k = map_ids_opt g ys k" for k
    using assms(3) by (induction ys arbitrary: k) (auto split: prod.split option.split)
  with assms(1,2) show ?thesis by simp
qed

text \<open>What holds of every item's node holds of the nodes: \<open>P k x t k'\<close> is kept along the list.\<close>

lemma map_ids_opt_spec:
  assumes "\<And>x k. x \<in> set xs \<Longrightarrow> \<exists>t k'. parse x k = Some (t, k') \<and> numbered k [t] k' \<and> P x t"
  shows "\<exists>ts n'. map_ids_opt parse xs n = Some (ts, n') \<and> numbered n ts n' \<and> list_all2 P xs ts"
  using assms
proof (induction xs arbitrary: n)
  case (Cons x xs)
  obtain t n1 where t: "parse x n = Some (t, n1)" "numbered n [t] n1" "P x t"
    using Cons.prems [of x n] by auto
  obtain ts n2 where ts: "map_ids_opt parse xs n1 = Some (ts, n2)" "numbered n1 ts n2" "list_all2 P xs ts"
    using Cons.IH [of n1] Cons.prems by auto
  show ?case using t ts by (auto intro: numbered_Cons)
qed simp

section \<open>Looking up a node\<close>

text \<open>\<open>findExplainNode\<close> stops at the first child whose subtree has the node.\<close>

fun findExplainNode :: "ExplainNode \<Rightarrow> jsstring option \<Rightarrow> ExplainNode option"
  and find_in_children :: "ExplainNode list \<Rightarrow> jsstring option \<Rightarrow> ExplainNode option" where
  "findExplainNode (ExplainNode i f cs) nodeId =
     (if nodeId = None \<or> nodeId = Some [] then None
      else if nodeId = Some i then Some (ExplainNode i f cs)
      else find_in_children cs nodeId)"
| "find_in_children [] nodeId = None"
| "find_in_children (c # cs) nodeId =
     (case findExplainNode c nodeId of Some t \<Rightarrow> Some t | None \<Rightarrow> find_in_children cs nodeId)"

lemma find_append: "List.find P (xs @ ys) = (case List.find P xs of Some x \<Rightarrow> Some x | None \<Rightarrow> List.find P ys)"
  by (induction xs) auto

lemma findExplainNode_find:
  "nodeId \<noteq> [] \<Longrightarrow> findExplainNode t (Some nodeId) = List.find (\<lambda>x. node_id x = nodeId) (flattenExplainNodes t)"
  "nodeId \<noteq> [] \<Longrightarrow> find_in_children ts (Some nodeId) = List.find (\<lambda>x. node_id x = nodeId) (flatten_forest ts)"
  by (induction t "Some nodeId" and ts "Some nodeId" rule: findExplainNode_find_in_children.induct)
     (auto simp: find_append split: option.split)

lemma find_by_key:
  "distinct (map key xs) \<Longrightarrow> x \<in> set xs \<Longrightarrow> List.find (\<lambda>y. key y = key x) xs = Some x"
  by (induction xs) (auto simp: image_iff)

end
