(* ===== verification/PlanMetrics.thy ===== *)
theory PlanMetrics
  imports PlanNode
begin

text \<open>
  Metrics of a plan (\<open>packages/explain/src/metrics.ts\<close>): what each node took itself, its children's share
  taken off. The walk fills one record per node in depth-first order; the code's \<open>byId\<close> map holds the same
  objects as its \<open>order\<close> list, so here it is the list looked up by id, the last entry of an id first.
  The locale at the end is what the views rely on: a parser that gives every node an id of its own.
\<close>

record ExplainNodeMetrics =
  nm_nodeId :: jsstring
  nm_index :: nat
  nm_depth :: nat
  inclusiveTimeMs :: "jsnumber option"
  exclusiveTimeMs :: "jsnumber option"
  nm_totalCost :: "jsnumber option"
  exclusiveCost :: "jsnumber option"
  nm_totalRows :: "jsnumber option"
  inclusiveBuffers :: "jsnumber option"
  exclusiveBuffers :: "jsnumber option"
  timeShare :: "jsnumber option"
  neverExecuted :: bool

record ExplainMetrics =
  order :: "ExplainNodeMetrics list"
  maxExclusiveTimeMs :: jsnumber
  maxExclusiveCost :: jsnumber
  maxTotalRows :: jsnumber
  maxExclusiveBuffers :: jsnumber
  totalExclusiveTimeMs :: jsnumber

datatype ExplainMetricKind = TimeMetric | RowsMetric | CostMetric | BuffersMetric

definition EXPLAIN_METRIC_KINDS :: "ExplainMetricKind list" where
  "EXPLAIN_METRIC_KINDS = [TimeMetric, RowsMetric, CostMetric, BuffersMetric]"

definition or_zero :: "jsnumber option \<Rightarrow> jsnumber" where
  "or_zero x = (case x of Some v \<Rightarrow> v | None \<Rightarrow> 0)"

definition loopCount :: "NodeFields \<Rightarrow> jsnumber" where
  "loopCount f = (case actual_loops f of Some l \<Rightarrow> if 0 < l then l else 1 | None \<Rightarrow> 1)"

definition isSubplanChild :: "NodeFields \<Rightarrow> bool" where
  "isSubplanChild f \<longleftrightarrow>
     (let relationship = get_prop (extra f) ''Parent Relationship''
      in relationship = JStr ''InitPlan'' \<or> relationship = JStr ''SubPlan'')"

definition bufferCount :: "NodeFields \<Rightarrow> jsnumber option" where
  "bufferCount f =
     (if buffers_hit f = None \<and> buffers_read f = None then None
      else Some (or_zero (buffers_hit f) + or_zero (buffers_read f)))"

definition selfValue :: "jsnumber option \<Rightarrow> jsnumber \<Rightarrow> jsnumber option" where
  "selfValue whole childSum = map_option (\<lambda>x. max 0 (x - childSum)) whole"

definition times :: "jsnumber option \<Rightarrow> jsnumber \<Rightarrow> jsnumber option" where
  "times x loops = map_option (\<lambda>v. v * loops) x"

text \<open>The inner \<open>walk\<close>: the metrics of a subtree in order, the next index and what the subtree adds to its
  parent (time, cost, buffers). \<open>walk_children\<close> is the loop over the children.\<close>

fun walk :: "ExplainNode \<Rightarrow> nat \<Rightarrow> nat \<Rightarrow> ExplainNodeMetrics list \<times> nat \<times> jsnumber \<times> jsnumber \<times> jsnumber"
  and walk_children :: "ExplainNode list \<Rightarrow> nat \<Rightarrow> nat \<Rightarrow> ExplainNodeMetrics list \<times> nat \<times> jsnumber \<times> jsnumber \<times> jsnumber" where
  "walk (ExplainNode i f cs) depth nextIndex =
     (case walk_children cs (depth + 1) (nextIndex + 1) of
        (ms, n, childTimeMs, childCost, childBuffers) \<Rightarrow>
          (let loops = loopCount f; inclusive = times (actual_time_ms f) loops
           in (\<lparr>nm_nodeId = i, nm_index = nextIndex, nm_depth = depth, inclusiveTimeMs = inclusive,
                exclusiveTimeMs = selfValue inclusive childTimeMs, nm_totalCost = total_cost f,
                exclusiveCost = selfValue (total_cost f) childCost,
                nm_totalRows = times (actual_rows f) loops, inclusiveBuffers = bufferCount f,
                exclusiveBuffers = selfValue (bufferCount f) childBuffers, timeShare = None,
                neverExecuted = (actual_loops f = Some 0)\<rparr> # ms,
               n, or_zero inclusive, or_zero (total_cost f), or_zero (bufferCount f))))"
| "walk_children [] depth nextIndex = ([], nextIndex, 0, 0, 0)"
| "walk_children (c # cs) depth nextIndex =
     (case walk c depth nextIndex of
        (ms, n, timeMs, cost, buffers) \<Rightarrow>
          (case walk_children cs depth n of
             (ms', n', timeMs', cost', buffers') \<Rightarrow>
               (ms @ ms', n', (if isSubplanChild (scalars c) then 0 else timeMs) + timeMs',
                cost + cost', buffers + buffers')))"

definition max_of :: "('a \<Rightarrow> jsnumber option) \<Rightarrow> 'a list \<Rightarrow> jsnumber" where
  "max_of field xs = foldl (\<lambda>m x. max m (or_zero (field x))) 0 xs"

definition computeExplainMetrics :: "ExplainPlan \<Rightarrow> ExplainMetrics" where
  "computeExplainMetrics plan =
     (let ms = fst (walk (plan_root plan) 0 1);
          whole = foldl (\<lambda>s m. s + or_zero (exclusiveTimeMs m)) 0 ms
      in \<lparr>order = (if 0 < whole
                   then map (\<lambda>m. if exclusiveTimeMs m \<noteq> None
                                 then m\<lparr>timeShare := map_option (\<lambda>t. t / whole) (exclusiveTimeMs m)\<rparr> else m) ms
                   else ms),
          maxExclusiveTimeMs = max_of exclusiveTimeMs ms, maxExclusiveCost = max_of exclusiveCost ms,
          maxTotalRows = max_of nm_totalRows ms, maxExclusiveBuffers = max_of exclusiveBuffers ms,
          totalExclusiveTimeMs = whole\<rparr>)"

definition byId :: "ExplainMetrics \<Rightarrow> jsstring \<Rightarrow> ExplainNodeMetrics option" where
  "byId metrics i = List.find (\<lambda>m. nm_nodeId m = i) (rev (order metrics))"

definition getNodeMetrics :: "ExplainMetrics \<Rightarrow> jsstring option \<Rightarrow> ExplainNodeMetrics option" where
  "getNodeMetrics metrics nodeId =
     (case nodeId of None \<Rightarrow> None | Some i \<Rightarrow> if i = [] then None else byId metrics i)"

fun getMetricValue :: "ExplainNodeMetrics \<Rightarrow> ExplainMetricKind \<Rightarrow> jsnumber option" where
  "getMetricValue m TimeMetric = exclusiveTimeMs m"
| "getMetricValue m RowsMetric = nm_totalRows m"
| "getMetricValue m CostMetric = exclusiveCost m"
| "getMetricValue m BuffersMetric = exclusiveBuffers m"

fun getMetricMax :: "ExplainMetrics \<Rightarrow> ExplainMetricKind \<Rightarrow> jsnumber" where
  "getMetricMax m TimeMetric = maxExclusiveTimeMs m"
| "getMetricMax m RowsMetric = maxTotalRows m"
| "getMetricMax m CostMetric = maxExclusiveCost m"
| "getMetricMax m BuffersMetric = maxExclusiveBuffers m"

definition isMetricAvailable :: "ExplainMetrics \<Rightarrow> ExplainMetricKind \<Rightarrow> bool" where
  "isMetricAvailable metrics knd = list_ex (\<lambda>m. getMetricValue m knd \<noteq> None) (order metrics)"

definition getAvailableMetricKinds :: "ExplainMetrics \<Rightarrow> ExplainMetricKind list" where
  "getAvailableMetricKinds metrics = filter (isMetricAvailable metrics) EXPLAIN_METRIC_KINDS"

definition getDefaultMetricKind :: "ExplainMetrics \<Rightarrow> ExplainMetricKind option" where
  "getDefaultMetricKind metrics =
     (if 0 < maxExclusiveTimeMs metrics then Some TimeMetric
      else
        (let available = getAvailableMetricKinds metrics in
         if CostMetric \<in> set available then Some CostMetric
         else (case available of [] \<Rightarrow> None | k # _ \<Rightarrow> Some k)))"

section \<open>The walk\<close>

lemma walk_ids:
  "map nm_nodeId (fst (walk t d n)) = map node_id (flattenExplainNodes t)"
  "map nm_nodeId (fst (walk_children ts d n)) = map node_id (flatten_forest ts)"
  by (induction t d n and ts d n rule: walk_walk_children.induct) (auto split: prod.splits simp: Let_def)

lemma walk_index:
  "fst (snd (walk t d n)) = n + length (fst (walk t d n))
    \<and> map nm_index (fst (walk t d n)) = [n..<n + length (fst (walk t d n))]"
  "fst (snd (walk_children ts d n)) = n + length (fst (walk_children ts d n))
    \<and> map nm_index (fst (walk_children ts d n)) = [n..<n + length (fst (walk_children ts d n))]"
proof (induction t d n and ts d n rule: walk_walk_children.induct)
  case (1 i f cs depth nextIndex)
  then show ?case by (auto split: prod.splits simp: Let_def upt_conv_Cons simp del: upt_Suc)
next
  case (3 c cs d n)
  obtain ms n' t1 k1 b1 where w: "walk c d n = (ms, n', t1, k1, b1)" by (cases "walk c d n") auto
  obtain ms2 n2 t2 k2 b2 where w2: "walk_children cs d n' = (ms2, n2, t2, k2, b2)"
    by (cases "walk_children cs d n'") auto
  have "n' = n + length ms" "map nm_index ms = [n..<n']" using 3(1) w by auto
  moreover have "n2 = n' + length ms2" "map nm_index ms2 = [n'..<n2]"
    using 3(2) [OF w [symmetric] refl refl refl] w w2 by auto
  ultimately show ?case
    using w w2 upt_add_eq_append [of n n' "length ms2"] by (auto split: prod.splits simp: add.assoc simp del: upt_Suc)
qed simp

text \<open>\<open>measure_of\<close> collects what \<open>timeShare\<close> does not touch.\<close>

lemma order_fields:
  assumes "\<And>m x. field (m\<lparr>timeShare := x\<rparr>) = field m"
  shows "map field (order (computeExplainMetrics plan)) = map field (fst (walk (plan_root plan) 0 1))"
  using assms by (simp add: computeExplainMetrics_def Let_def comp_def)

lemma order_ids:
  "map nm_nodeId (order (computeExplainMetrics plan)) = map node_id (flattenExplainNodes (plan_root plan))"
  by (subst order_fields) (simp_all add: walk_ids)

lemma order_index:
  "map nm_index (order (computeExplainMetrics plan)) = [1..<Suc (length (order (computeExplainMetrics plan)))]"
proof -
  have "length (order (computeExplainMetrics plan)) = length (fst (walk (plan_root plan) 0 1))"
    using arg_cong [OF order_fields [of nm_index plan], of length] by simp
  then show ?thesis using walk_index(1) [of "plan_root plan" 0 1] by (subst order_fields) (simp_all del: upt_Suc)
qed

text \<open>Sums and maxima.\<close>

lemma foldl_sum: "foldl (\<lambda>s m. s + g m) (a :: jsnumber) xs = a + sum_list (map g xs)"
  by (induction xs arbitrary: a) (simp_all add: add.assoc)

lemma totalExclusive_sum:
  "totalExclusiveTimeMs (computeExplainMetrics plan)
   = (\<Sum>m \<leftarrow> fst (walk (plan_root plan) 0 1). or_zero (exclusiveTimeMs m))"
  by (simp add: computeExplainMetrics_def Let_def foldl_sum)

lemma max_of_ge: "x \<in> set xs \<Longrightarrow> or_zero (field x) \<le> max_of field xs"
  and max_of_nonneg: "0 \<le> max_of field xs"
proof -
  have "(\<forall>x \<in> set xs. or_zero (field x) \<le> foldl (\<lambda>m x. max m (or_zero (field x))) a xs)
      \<and> a \<le> foldl (\<lambda>m x. max m (or_zero (field x))) a xs" for a
  proof (induction xs arbitrary: a)
    case (Cons x xs)
    show ?case using Cons.IH [of "max a (or_zero (field x))"] by auto
  qed simp
  then show "x \<in> set xs \<Longrightarrow> or_zero (field x) \<le> max_of field xs" "0 \<le> max_of field xs"
    by (auto simp: max_of_def)
qed

lemma selfValue_nonneg [simp]: "0 \<le> or_zero (selfValue x s)"
  by (simp add: or_zero_def selfValue_def split: option.split)

lemma walk_exclusive_nonneg:
  "\<forall>m \<in> set (fst (walk t d n)). 0 \<le> or_zero (exclusiveTimeMs m)"
  "\<forall>m \<in> set (fst (walk_children ts d n)). 0 \<le> or_zero (exclusiveTimeMs m)"
  by (induction t d n and ts d n rule: walk_walk_children.induct)
     (auto split: prod.splits simp: Let_def)

lemma share_of_sum:
  assumes "\<forall>m \<in> set ms. 0 \<le> or_zero (exclusiveTimeMs m)" "0 < (\<Sum>m \<leftarrow> ms. or_zero (exclusiveTimeMs m))" "m \<in> set ms"
  shows "or_zero (exclusiveTimeMs m) / (\<Sum>m \<leftarrow> ms. or_zero (exclusiveTimeMs m)) \<le> 1"
proof -
  have "or_zero (exclusiveTimeMs m) \<le> (\<Sum>m \<leftarrow> ms. or_zero (exclusiveTimeMs m))"
    using assms(1,3) by (intro member_le_sum_list) auto
  with assms(2) show ?thesis by (simp add: divide_le_eq_1)
qed

section \<open>Exclusive times add up\<close>

text \<open>The time a node reports, over all loops; a plan is consistent when every node has a time and no node
  less than its children that are not subplans have together.\<close>

definition reported :: "ExplainNode \<Rightarrow> jsnumber" where
  "reported t = or_zero (times (actual_time_ms (scalars t)) (loopCount (scalars t)))"

fun time_consistent :: "ExplainNode \<Rightarrow> bool" where
  "time_consistent (ExplainNode i f cs) \<longleftrightarrow>
     actual_time_ms f \<noteq> None
     \<and> (\<Sum>c \<leftarrow> cs. if isSubplanChild (scalars c) then 0 else reported c) \<le> reported (ExplainNode i f cs)
     \<and> list_all time_consistent cs"

definition subplan_time :: "ExplainNode list \<Rightarrow> jsnumber" where
  "subplan_time ts = (\<Sum>t \<leftarrow> ts. if isSubplanChild (scalars t) then reported t else 0)"

lemma subplan_time_simps [simp]:
  "subplan_time [] = 0" "subplan_time (t # ts) = (if isSubplanChild (scalars t) then reported t else 0) + subplan_time ts"
  "subplan_time (ts @ us) = subplan_time ts + subplan_time us"
  by (simp_all add: subplan_time_def)

lemma walk_times:
  "fst (snd (snd (walk t d n))) = reported t"
  "fst (snd (snd (walk_children ts d n))) = (\<Sum>c \<leftarrow> ts. if isSubplanChild (scalars c) then 0 else reported c)"
  by (induction t d n and ts d n rule: walk_walk_children.induct)
     (auto split: prod.splits simp: Let_def reported_def)

lemma exclusive_sum:
  "time_consistent t \<Longrightarrow>
     (\<Sum>m \<leftarrow> fst (walk t d n). or_zero (exclusiveTimeMs m)) = reported t + subplan_time (flatten_forest (children t))"
  "list_all time_consistent ts \<Longrightarrow>
     (\<Sum>m \<leftarrow> fst (walk_children ts d n). or_zero (exclusiveTimeMs m))
       = (\<Sum>c \<leftarrow> ts. if isSubplanChild (scalars c) then 0 else reported c) + subplan_time (flatten_forest ts)"
proof (induction t d n and ts d n rule: walk_walk_children.induct)
  case (1 i f cs d n)
  obtain ms n' a b c where w: "walk_children cs (d + 1) (n + 1) = (ms, n', a, b, c)"
    by (cases "walk_children cs (d + 1) (n + 1)") auto
  have a: "a = (\<Sum>c \<leftarrow> cs. if isSubplanChild (scalars c) then 0 else reported c)"
    using walk_times(2) [of cs "d + 1" "n + 1"] w by simp
  have "a \<le> reported (ExplainNode i f cs)" "actual_time_ms f \<noteq> None" using 1 a by simp_all
  moreover have "(\<Sum>m \<leftarrow> ms. or_zero (exclusiveTimeMs m)) = a + subplan_time (flatten_forest cs)"
    using 1 w a by simp
  ultimately show ?case
    using w by (auto simp: Let_def reported_def selfValue_def or_zero_def times_def max_def)
next
  case (3 t ts d n)
  obtain ms n' a b c where w: "walk t d n = (ms, n', a, b, c)" by (cases "walk t d n") auto
  obtain ms2 n2 a2 b2 c2 where w2: "walk_children ts d n' = (ms2, n2, a2, b2, c2)"
    by (cases "walk_children ts d n'") auto
  obtain i f cs where t: "t = ExplainNode i f cs" by (cases t)
  show ?case using 3 w w2 by (simp add: t)
qed simp

lemma walk_no_share:
  "list_all (\<lambda>m. timeShare m = None) (fst (walk t d n))"
  "list_all (\<lambda>m. timeShare m = None) (fst (walk_children ts d n))"
  by (induction t d n and ts d n rule: walk_walk_children.induct) (auto split: prod.splits simp: Let_def)

text \<open>The share of a node in the plan's measured time.\<close>

lemma order_shares:
  "map (\<lambda>m. or_zero (timeShare m)) (order (computeExplainMetrics plan)) =
     (let whole = totalExclusiveTimeMs (computeExplainMetrics plan) in
      map (\<lambda>m. if 0 < whole then or_zero (exclusiveTimeMs m) / whole else 0) (fst (walk (plan_root plan) 0 1)))"
  using walk_no_share(1) [of "plan_root plan" 0 1]
  by (auto simp: computeExplainMetrics_def Let_def or_zero_def list_all_iff split: option.split)

section \<open>Plans whose nodes have ids of their own\<close>

text \<open>The contract of a parser, and what the views get from it: an id selects its node, and the metrics
  looked up by id are those of that node.\<close>

definition own_ids :: "ExplainNode \<Rightarrow> bool" where
  "own_ids t \<longleftrightarrow> distinct (map node_id (flattenExplainNodes t)) \<and> [] \<notin> set (map node_id (flattenExplainNodes t))"

lemma numbered_own_ids: "numbered n [t] n' \<Longrightarrow> own_ids t"
  using numbered_distinct [of n "[t]" n'] by (auto simp: own_ids_def numbered_def node_name_def)

text \<open>The result of a parser that may throw.\<close>

definition success :: "'e + 'a \<Rightarrow> 'a option" where
  "success r = (case r of Inl _ \<Rightarrow> None | Inr x \<Rightarrow> Some x)"

lemma success_simps [simp]: "success (Inl e) = None" "success (Inr x) = Some x"
  by (simp_all add: success_def)

locale plan_source =
  fixes parse :: "'a \<Rightarrow> ExplainPlan option"
  assumes parse_own_ids: "parse x = Some plan \<Longrightarrow> own_ids (plan_root plan)"
begin

lemma node_found:
  assumes "parse x = Some plan" "t \<in> set (flattenExplainNodes (plan_root plan))"
  shows "findExplainNode (plan_root plan) (Some (node_id t)) = Some t"
proof -
  have "node_id t \<noteq> []" using parse_own_ids [OF assms(1)] assms(2) by (force simp: own_ids_def)
  then show ?thesis
    using parse_own_ids [OF assms(1)] assms(2) by (auto simp: findExplainNode_find own_ids_def intro: find_by_key)
qed

lemma metrics_found:
  assumes "parse x = Some plan" "m \<in> set (order (computeExplainMetrics plan))"
  shows "getNodeMetrics (computeExplainMetrics plan) (Some (nm_nodeId m)) = Some m"
proof -
  have ids: "distinct (map nm_nodeId (order (computeExplainMetrics plan)))"
    "[] \<notin> set (map nm_nodeId (order (computeExplainMetrics plan)))"
    using parse_own_ids [OF assms(1)] by (simp_all only: order_ids own_ids_def simp_thms)
  have "nm_nodeId m \<noteq> []" using ids(2) assms(2) by force
  moreover have "List.find (\<lambda>x. nm_nodeId x = nm_nodeId m) (rev (order (computeExplainMetrics plan))) = Some m"
    using ids(1) assms(2) by (intro find_by_key) (simp_all add: rev_map [symmetric])
  ultimately show ?thesis by (simp add: getNodeMetrics_def byId_def)
qed

end

section \<open>Properties\<close>


definition sample_plan :: ExplainPlan where
  "sample_plan = \<lparr>plan_root =
     createExplainNode ''node_0'' (\<lambda>f. f\<lparr>actual_time_ms := Some 10, actual_loops := Some 1\<rparr>)
       [createExplainNode ''node_1'' (\<lambda>f. f\<lparr>actual_time_ms := Some 2, actual_loops := Some 3\<rparr>) []],
     planning_time_ms = None, execution_time_ms = None, original_query = [], plan_driver = ''postgres'',
     has_analyze_data = True, raw_output = None\<rparr>"



end
