(* ===== verification/PlanSqlite.thy ===== *)
theory PlanSqlite
  imports PlanMetrics ClipboardText
begin

text \<open>
  SQLite plans (\<open>packages/explain/src/parsers/sqlite.ts\<close>): the rows of \<open>EXPLAIN QUERY PLAN\<close>, each with the id
  of its parent, become a tree. The recursion follows parents to children, so it ends unless the rows go
  round in a circle; it runs on fuel, one unit per two levels. Shown: with rows numbered the way SQLite
  numbers them, every row is one node of the tree.
\<close>

record SqliteEqpRow =
  eqp_id :: int
  eqp_parent :: int
  eqp_detail :: jsstring

text \<open>\<open>detail.slice(detail.indexOf(t) + k)\<close>, where \<open>indexOf\<close> may give \<open>-1\<close>.\<close>

definition text_after :: "jsstring \<Rightarrow> jsstring \<Rightarrow> nat \<Rightarrow> jsstring" where
  "text_after detail t k = drop (case index_of detail t of Some i \<Rightarrow> i + k | None \<Rightarrow> k - 1) detail"

definition second_word :: "jsstring \<Rightarrow> jsstring option" where
  "second_word detail = (case split_on SP detail of _ # w # _ \<Rightarrow> Some w | _ \<Rightarrow> None)"

definition parseSqliteDetail :: "jsstring \<Rightarrow> jsstring \<times> jsstring option \<times> jsstring option" where
  "parseSqliteDetail detail =
     (let u = upper detail in
      if prefix ''SCAN'' u then
        (''Scan'', second_word detail,
         if sublist ''USING INDEX'' u then Some (trim (text_after detail ''USING INDEX'' 12))
         else if sublist ''USING COVERING INDEX'' u then Some (trim (text_after detail ''USING COVERING INDEX'' 21))
         else None)
      else if prefix ''SEARCH'' u then
        (''Search'', second_word detail,
         if sublist ''USING INDEX'' u then Some (trim (text_after detail ''USING INDEX'' 12))
         else if sublist ''USING INTEGER PRIMARY KEY'' u then Some ''PRIMARY KEY''
         else if sublist ''USING COVERING INDEX'' u then Some (trim (text_after detail ''USING COVERING INDEX'' 21))
         else None)
      else if sublist ''TEMP B-TREE'' u then (''Sort'', None, None)
      else if prefix ''CO-ROUTINE'' u then (''Co-routine'', None, None)
      else if prefix ''COMPOUND SUBQUERIES'' u then (''Compound Subquery'', None, None)
      else if prefix ''MATERIALIZE'' u then (''Materialize'', None, None)
      else (detail, None, None))"

definition detail_fields :: "jsstring \<times> jsstring option \<times> jsstring option \<Rightarrow> NodeFields \<Rightarrow> NodeFields" where
  "detail_fields = (\<lambda>(ty, rel, cond) f. f\<lparr>node_type := ty, relation := rel, index_condition := cond\<rparr>)"

fun buildSqliteTree :: "nat \<Rightarrow> SqliteEqpRow list \<Rightarrow> int \<Rightarrow> nat \<Rightarrow> (ExplainNode \<times> nat) option" where
  "buildSqliteTree 0 entries parentId counter = None"
| "buildSqliteTree (Suc fuel) entries parentId counter =
     (let rootEntry = List.find (\<lambda>e. if parentId = 0 then eqp_parent e = 0 \<and> eqp_id e = 0 else eqp_id e = parentId) entries;
          d = (case rootEntry of Some e \<Rightarrow> parseSqliteDetail (eqp_detail e) | None \<Rightarrow> (''Query Plan'', None, None));
          (i, n1) = next_id counter;
          rootId = (case rootEntry of Some e \<Rightarrow> eqp_id e | None \<Rightarrow> 0);
          childIds = map eqp_id (filter (\<lambda>e. eqp_parent e = rootId \<and> eqp_id e \<noteq> rootId) entries)
      in case map_ids_opt (\<lambda>childId k.
                let childEntry = List.find (\<lambda>e. eqp_id e = childId) entries;
                    cd = (case childEntry of Some e \<Rightarrow> parseSqliteDetail (eqp_detail e) | None \<Rightarrow> (''Unknown'', None, None));
                    (ci, k1) = next_id k
                in case map_ids_opt (\<lambda>e. buildSqliteTree fuel entries (eqp_id e))
                          (filter (\<lambda>e. eqp_parent e = childId) entries) k1 of
                     None \<Rightarrow> None
                   | Some (grandchildren, k2) \<Rightarrow>
                       Some (createExplainNode ci (detail_fields cd) grandchildren, k2))
              childIds n1 of
           None \<Rightarrow> None
         | Some (cs, n2) \<Rightarrow> Some (createExplainNode i (detail_fields d) cs, n2))"

definition int_str :: "int \<Rightarrow> jsstring" where
  "int_str i = num_str i 0"

text \<open>\<open>Some (Inl _)\<close> is the error thrown, \<open>None\<close> a recursion that does not end. A chain of parents without
  repetition is no longer than the list of rows.\<close>

definition parseSqliteEqpRows :: "SqliteEqpRow list \<Rightarrow> (jsstring + ExplainPlan) option" where
  "parseSqliteEqpRows entries =
     (if entries = [] then Some (Inl ''EXPLAIN QUERY PLAN returned no output'')
      else (case buildSqliteTree (Suc (length entries)) entries 0 0 of
              None \<Rightarrow> None
            | Some (t, _) \<Rightarrow> Some (Inr \<lparr>plan_root = t, planning_time_ms = None, execution_time_ms = None,
                original_query = [], plan_driver = ''sqlite'', has_analyze_data = False,
                raw_output = Some (join_with [NL]
                  (map (\<lambda>e. int_str (eqp_id e) @ ''|'' @ int_str (eqp_parent e) @ ''|'' @ eqp_detail e) entries))\<rparr>)))"

section \<open>Rows and their ancestors\<close>

text \<open>SQLite's numbering: ids are distinct and positive, a parent is 0 or the id of a row, and smaller.\<close>

definition eqp_rows :: "SqliteEqpRow list \<Rightarrow> bool" where
  "eqp_rows entries \<longleftrightarrow> distinct (map eqp_id entries)
     \<and> list_all (\<lambda>e. 0 \<le> eqp_parent e \<and> eqp_parent e < eqp_id e
          \<and> (eqp_parent e = 0 \<or> eqp_parent e \<in> set (map eqp_id entries))) entries"

inductive below :: "SqliteEqpRow list \<Rightarrow> int \<Rightarrow> SqliteEqpRow \<Rightarrow> bool" for entries where
  child: "e \<in> set entries \<Longrightarrow> eqp_parent e = p \<Longrightarrow> below entries p e"
| deeper: "below entries p e \<Longrightarrow> e' \<in> set entries \<Longrightarrow> eqp_parent e' = eqp_id e \<Longrightarrow> below entries p e'"

lemma eqp_rowD:
  "eqp_rows entries \<Longrightarrow> e \<in> set entries \<Longrightarrow> 0 \<le> eqp_parent e \<and> eqp_parent e < eqp_id e
    \<and> (eqp_parent e = 0 \<or> (\<exists>e' \<in> set entries. eqp_id e' = eqp_parent e))"
  by (fastforce simp: eqp_rows_def list_all_iff)

lemma eqp_id_inj:
  "eqp_rows entries \<Longrightarrow> e \<in> set entries \<Longrightarrow> e' \<in> set entries \<Longrightarrow> eqp_id e = eqp_id e' \<Longrightarrow> e = e'"
  by (auto simp: eqp_rows_def distinct_map inj_on_def)

lemma eqp_find:
  "eqp_rows entries \<Longrightarrow> e \<in> set entries \<Longrightarrow> List.find (\<lambda>x. eqp_id x = eqp_id e) entries = Some e"
  by (rule find_by_key) (simp_all add: eqp_rows_def)

lemma below_in: "below entries p e \<Longrightarrow> e \<in> set entries"
  by (induction rule: below.induct) auto

lemma below_greater: "eqp_rows entries \<Longrightarrow> below entries p e \<Longrightarrow> p < eqp_id e"
  by (rotate_tac, induction rule: below.induct) (use eqp_rowD in force)+

lemma all_below_zero:
  assumes wf: "eqp_rows entries" and "e \<in> set entries"
  shows "below entries 0 e"
  using assms(2)
proof (induction "nat (eqp_id e)" arbitrary: e rule: less_induct)
  case less
  show ?case
  proof (cases "eqp_parent e = 0")
    case True
    then show ?thesis using less.prems by (auto intro: below.child)
  next
    case False
    then obtain a where a: "a \<in> set entries" "eqp_id a = eqp_parent e"
      using eqp_rowD [OF wf less.prems] by auto
    then have "nat (eqp_id a) < nat (eqp_id e)" using eqp_rowD [OF wf less.prems] by auto
    then have "below entries 0 a" using less.hyps a by simp
    then show ?thesis using less.prems a(2) by (auto intro: below.deeper)
  qed
qed

text \<open>\<open>c\<close> or a row below it.\<close>

definition reach :: "SqliteEqpRow list \<Rightarrow> SqliteEqpRow \<Rightarrow> SqliteEqpRow \<Rightarrow> bool" where
  "reach entries c e \<longleftrightarrow> e = c \<or> below entries (eqp_id c) e"

lemma reach_parent:
  assumes "c \<in> set entries" "below entries (eqp_id c) e"
  shows "\<exists>a \<in> set entries. eqp_id a = eqp_parent e \<and> reach entries c a"
  using assms(2) by (cases rule: below.cases) (use assms(1) below_in in \<open>auto simp: reach_def\<close>)

lemma below_reach:
  "below entries p e \<longleftrightarrow> (\<exists>c \<in> set entries. eqp_parent c = p \<and> reach entries c e)"
proof
  show "below entries p e \<Longrightarrow> \<exists>c \<in> set entries. eqp_parent c = p \<and> reach entries c e"
  proof (induction rule: below.induct)
    case (child e p)
    then show ?case by (auto simp: reach_def)
  next
    case (deeper p e e')
    then show ?case by (auto simp: reach_def intro: below.child below.deeper)
  qed
next
  have "below entries q e \<Longrightarrow> q = eqp_id c \<Longrightarrow> c \<in> set entries \<Longrightarrow> eqp_parent c = p \<Longrightarrow> below entries p e" for c q
    by (induction rule: below.induct) (auto intro: below.child below.deeper)
  then show "\<exists>c \<in> set entries. eqp_parent c = p \<and> reach entries c e \<Longrightarrow> below entries p e"
    by (auto simp: reach_def intro: below.child)
qed

lemma reach_sibling:
  assumes wf: "eqp_rows entries" and c: "c \<in> set entries" "c' \<in> set entries" "eqp_parent c = eqp_parent c'"
    and "reach entries c e" "reach entries c' e"
  shows "c = c'"
  using assms(5,6)
proof (induction "nat (eqp_id e)" arbitrary: e rule: less_induct)
  case less
  have ne: "\<not> below entries (eqp_id y) x"
    if xy: "x \<in> set entries" "y \<in> set entries" "eqp_parent x = eqp_parent y" for x y
  proof
    assume "below entries (eqp_id y) x"
    then obtain a where a: "a \<in> set entries" "eqp_id a = eqp_parent x" "reach entries y a"
      using reach_parent xy(2) by blast
    have "eqp_id y \<le> eqp_id a" using a(3) by (auto simp: reach_def dest!: below_greater [OF wf])
    with a(2) xy eqp_rowD [OF wf xy(2)] show False by simp
  qed
  show ?case
  proof (cases "e = c \<or> e = c'")
    case True
    then show ?thesis using less.prems ne [of c c'] ne [of c' c] c by (auto simp: reach_def)
  next
    case False
    with less.prems have b: "below entries (eqp_id c) e" "below entries (eqp_id c') e" by (auto simp: reach_def)
    obtain a where a: "a \<in> set entries" "eqp_id a = eqp_parent e" "reach entries c a"
      using reach_parent [OF c(1) b(1)] by blast
    obtain a' where a': "a' \<in> set entries" "eqp_id a' = eqp_parent e" "reach entries c' a'"
      using reach_parent [OF c(2) b(2)] by blast
    have "a = a'" using eqp_id_inj [OF wf a(1) a'(1)] a(2) a'(2) by simp
    have "nat (eqp_id a) < nat (eqp_id e)"
      using a(2) eqp_rowD [OF wf below_in [OF b(1)]] by simp
    then show ?thesis using less.hyps a(3) a'(3) \<open>a = a'\<close> by blast
  qed
qed

section \<open>The tree of well-numbered rows\<close>

definition triple :: "ExplainNode \<Rightarrow> jsstring \<times> jsstring option \<times> jsstring option" where
  "triple t = (node_type (scalars t), relation (scalars t), index_condition (scalars t))"

lemma triple_create [simp]: "triple (createExplainNode i (detail_fields d) cs) = d"
  by (cases d) (simp add: triple_def createExplainNode_def detail_fields_def)

text \<open>The nodes of a subtree are the given rows, each once.\<close>

definition shows_rows :: "SqliteEqpRow set \<Rightarrow> ExplainNode list \<Rightarrow> bool" where
  "shows_rows R ts \<longleftrightarrow> (\<exists>es. distinct es \<and> set es = R
     \<and> map triple (flatten_forest ts) = map (\<lambda>e. parseSqliteDetail (eqp_detail e)) es)"

lemma shows_rows_append:
  assumes "shows_rows R ts" "shows_rows S us" "R \<inter> S = {}"
  shows "shows_rows (R \<union> S) (ts @ us)"
proof -
  obtain es where es: "distinct es" "set es = R"
    "map triple (flatten_forest ts) = map (\<lambda>e. parseSqliteDetail (eqp_detail e)) es"
    using assms(1) by (auto simp: shows_rows_def)
  obtain fs where fs: "distinct fs" "set fs = S"
    "map triple (flatten_forest us) = map (\<lambda>e. parseSqliteDetail (eqp_detail e)) fs"
    using assms(2) by (auto simp: shows_rows_def)
  show ?thesis using es fs assms(3) by (auto simp: shows_rows_def intro!: exI [of _ "es @ fs"])
qed

lemma shows_rows_node:
  assumes "shows_rows R cs" "c \<notin> R" "d = parseSqliteDetail (eqp_detail c)"
  shows "shows_rows (insert c R) [createExplainNode i (detail_fields d) cs]"
proof -
  obtain es where "distinct es" "set es = R"
    "map triple (flatten_forest cs) = map (\<lambda>e. parseSqliteDetail (eqp_detail e)) es"
    using assms(1) by (auto simp: shows_rows_def)
  then show ?thesis unfolding shows_rows_def
    by (intro exI [of _ "c # es"]) (use assms(2,3) in auto)
qed

lemma shows_siblings:
  assumes wf: "eqp_rows entries" and "list_all2 (\<lambda>c t. shows_rows {e. reach entries c e} [t]) cs ts"
    and "distinct cs" "set cs \<subseteq> set entries" "\<And>c. c \<in> set cs \<Longrightarrow> eqp_parent c = p"
  shows "shows_rows {e. \<exists>c \<in> set cs. reach entries c e} ts"
  using assms(2-)
proof (induction rule: list_all2_induct)
  case Nil
  show ?case by (simp add: shows_rows_def)
next
  case (Cons c cs t ts)
  have "{e. reach entries c e} \<inter> {e. \<exists>c \<in> set cs. reach entries c e} = {}"
    using reach_sibling [OF wf, of c] Cons.prems by auto
  then have "shows_rows ({e. reach entries c e} \<union> {e. \<exists>c \<in> set cs. reach entries c e}) ([t] @ ts)"
    using Cons by (intro shows_rows_append) auto
  moreover have "{e. reach entries c e} \<union> {e. \<exists>c \<in> set cs. reach entries c e} = {e. \<exists>c \<in> set (c # cs). reach entries c e}"
    by auto
  ultimately show ?case by simp
qed

lemma shows_children:
  assumes wf: "eqp_rows entries"
    and ts: "list_all2 (\<lambda>c t. shows_rows {e. reach entries c e} [t]) (filter (\<lambda>e. eqp_parent e = p) entries) ts"
  shows "shows_rows {e. below entries p e} ts"
proof -
  have "distinct entries" using wf by (auto simp: eqp_rows_def distinct_map)
  then have "shows_rows {e. \<exists>c \<in> set (filter (\<lambda>e. eqp_parent e = p) entries). reach entries c e} ts"
    by (intro shows_siblings [OF wf ts]) auto
  moreover have "{e. \<exists>c \<in> set (filter (\<lambda>e. eqp_parent e = p) entries). reach entries c e} = {e. below entries p e}"
    using below_reach [of entries p] by auto
  ultimately show ?thesis by simp
qed

lemma buildSqliteTree_spec:
  assumes wf: "eqp_rows entries"
  shows "p = 0 \<or> p \<in> set (map eqp_id entries) \<Longrightarrow> card {e \<in> set entries. p < eqp_id e} < fuel \<Longrightarrow>
    \<exists>cs n'. buildSqliteTree fuel entries p n =
        Some (createExplainNode (node_name n)
          (detail_fields (case List.find (\<lambda>e. eqp_id e = p) entries of
             Some e \<Rightarrow> parseSqliteDetail (eqp_detail e) | None \<Rightarrow> (''Query Plan'', None, None))) cs, n')
      \<and> numbered (Suc n) cs n' \<and> shows_rows {e. below entries p e} cs"
proof (induction fuel arbitrary: p n)
  case (Suc fuel)
  have pos: "0 < eqp_id e" if "e \<in> set entries" for e using eqp_rowD [OF wf that] by simp
  define root where "root = List.find (\<lambda>e. if p = 0 then eqp_parent e = 0 \<and> eqp_id e = 0 else eqp_id e = p) entries"
  have root: "root = List.find (\<lambda>e. eqp_id e = p) entries"
    "(case root of Some e \<Rightarrow> eqp_id e | None \<Rightarrow> 0) = p"
  proof -
    have "root = None \<and> List.find (\<lambda>e. eqp_id e = p) entries = None" if "p = 0"
      using pos that by (fastforce simp: root_def find_None_iff)
    moreover have "\<exists>e. root = Some e \<and> List.find (\<lambda>e. eqp_id e = p) entries = Some e \<and> eqp_id e = p" if "p \<noteq> 0"
    proof -
      obtain e where e: "e \<in> set entries" "eqp_id e = p" using Suc.prems(1) \<open>p \<noteq> 0\<close> by auto
      show ?thesis using eqp_find [OF wf e(1)] e(2) \<open>p \<noteq> 0\<close> by (auto simp: root_def)
    qed
    ultimately show "root = List.find (\<lambda>e. eqp_id e = p) entries"
      "(case root of Some e \<Rightarrow> eqp_id e | None \<Rightarrow> 0) = p" by (cases "p = 0"; auto)+
  qed
  have deeper: "card {e \<in> set entries. eqp_id g < eqp_id e} < fuel" if "g \<in> set entries" "p < eqp_id g" for g
  proof -
    have "{e \<in> set entries. eqp_id g < eqp_id e} \<subset> {e \<in> set entries. p < eqp_id e}" using that by auto
    then have "card {e \<in> set entries. eqp_id g < eqp_id e} < card {e \<in> set entries. p < eqp_id e}"
      by (intro psubset_card_mono) auto
    with Suc.prems(2) show ?thesis by simp
  qed
  define inner where "inner = (\<lambda>childId k. map_ids_opt (\<lambda>e. buildSqliteTree fuel entries (eqp_id e))
      (filter (\<lambda>e. eqp_parent e = childId) entries) k)"
  have inner: "\<exists>gs k'. inner (eqp_id c) k = Some (gs, k') \<and> numbered k gs k'
      \<and> shows_rows {e. below entries (eqp_id c) e} gs" if c: "c \<in> set entries" "eqp_parent c = p" for c k
  proof -
    have "\<exists>t k'. buildSqliteTree fuel entries (eqp_id g) m = Some (t, k') \<and> numbered m [t] k'
        \<and> shows_rows {e. reach entries g e} [t]" if g: "g \<in> set (filter (\<lambda>e. eqp_parent e = eqp_id c) entries)" for g m
    proof -
      have lt: "p < eqp_id g" using g eqp_rowD [OF wf, of g] eqp_rowD [OF wf c(1)] c(2) by simp
      obtain cs k' where b: "buildSqliteTree fuel entries (eqp_id g) m =
          Some (createExplainNode (node_name m) (detail_fields (parseSqliteDetail (eqp_detail g))) cs, k')"
        "numbered (Suc m) cs k'" "shows_rows {e. below entries (eqp_id g) e} cs"
        using Suc.IH [of "eqp_id g" m] deeper [OF _ lt] g eqp_find [OF wf, of g] by auto
      have "\<not> below entries (eqp_id g) g" using below_greater [OF wf, of "eqp_id g" g] by auto
      moreover have "{e. reach entries g e} = insert g {e. below entries (eqp_id g) e}" by (auto simp: reach_def)
      ultimately show ?thesis using b(1) numbered_node [OF b(2)] shows_rows_node [OF b(3)] by auto
    qed
    then obtain gs k' where "inner (eqp_id c) k = Some (gs, k')" "numbered k gs k'"
      "list_all2 (\<lambda>g t. shows_rows {e. reach entries g e} [t]) (filter (\<lambda>e. eqp_parent e = eqp_id c) entries) gs"
      using map_ids_opt_spec [of "filter (\<lambda>e. eqp_parent e = eqp_id c) entries"
          "\<lambda>e. buildSqliteTree fuel entries (eqp_id e)" "\<lambda>g t. shows_rows {e. reach entries g e} [t]" k]
      unfolding inner_def by auto
    then show ?thesis using shows_children [OF wf] by blast
  qed
  define outer where "outer = (\<lambda>childId k.
      case inner childId (Suc k) of None \<Rightarrow> None
      | Some (gs, k2) \<Rightarrow> Some (createExplainNode (node_name k)
          (detail_fields (case List.find (\<lambda>e. eqp_id e = childId) entries of
             Some e \<Rightarrow> parseSqliteDetail (eqp_detail e) | None \<Rightarrow> (''Unknown'', None, None))) gs, k2))"
  have outer: "\<exists>t k'. outer (eqp_id c) k = Some (t, k') \<and> numbered k [t] k' \<and> shows_rows {e. reach entries c e} [t]"
    if c: "c \<in> set (filter (\<lambda>e. eqp_parent e = p) entries)" for c k
  proof -
    obtain gs k' where g: "inner (eqp_id c) (Suc k) = Some (gs, k')" "numbered (Suc k) gs k'"
      "shows_rows {e. below entries (eqp_id c) e} gs" using inner [of c "Suc k"] c by auto
    have "\<not> below entries (eqp_id c) c" using below_greater [OF wf, of "eqp_id c" c] by auto
    moreover have "{e. reach entries c e} = insert c {e. below entries (eqp_id c) e}" by (auto simp: reach_def)
    ultimately show ?thesis
      using g(1) numbered_node [OF g(2)] shows_rows_node [OF g(3)] eqp_find [OF wf, of c] c by (auto simp: outer_def)
  qed
  have same: "filter (\<lambda>e. eqp_parent e = p \<and> eqp_id e \<noteq> p) entries = filter (\<lambda>e. eqp_parent e = p) entries"
    by (intro filter_cong refl) (use eqp_rowD [OF wf] in fastforce)
  have map_id: "map_ids_opt outer (map eqp_id xs) k = map_ids_opt (\<lambda>e. outer (eqp_id e)) xs k" for xs k
    by (induction xs arbitrary: k) (auto split: option.split)
  obtain cs n' where cs: "map_ids_opt (\<lambda>e. outer (eqp_id e)) (filter (\<lambda>e. eqp_parent e = p) entries) (Suc n) = Some (cs, n')"
    "numbered (Suc n) cs n'"
    "list_all2 (\<lambda>c t. shows_rows {e. reach entries c e} [t]) (filter (\<lambda>e. eqp_parent e = p) entries) cs"
    using map_ids_opt_spec [of "filter (\<lambda>e. eqp_parent e = p) entries" "\<lambda>e. outer (eqp_id e)"
        "\<lambda>c t. shows_rows {e. reach entries c e} [t]" "Suc n"] outer by blast
  have step: "buildSqliteTree (Suc fuel) entries p n =
      (case map_ids_opt outer (map eqp_id (filter (\<lambda>e. eqp_parent e = p \<and> eqp_id e \<noteq> p) entries)) (Suc n) of
         None \<Rightarrow> None
       | Some (cs, n2) \<Rightarrow> Some (createExplainNode (node_name n) (detail_fields (case root of
           Some e \<Rightarrow> parseSqliteDetail (eqp_detail e) | None \<Rightarrow> (''Query Plan'', None, None))) cs, n2))"
    unfolding buildSqliteTree.simps root_def [symmetric] Let_def next_id_def prod.case root(2) outer_def inner_def
    by simp
  show ?case unfolding step same map_id cs(1) root(1) option.case prod.case
    by (intro exI conjI refl) (use cs(2) shows_children [OF wf cs(3)] in simp_all)
qed simp

section \<open>Properties\<close>

text \<open>C35 (sqlite_plan_shows_every_row): for rows numbered as SQLite numbers them the parser returns, the root
  is the query plan itself, and below it every row is one node, with the node type, relation and index of
  its detail; the node ids are \<open>node_0\<close>, \<open>node_1\<close>, ... in depth-first order.\<close>

theorem sqlite_plan_shows_every_row:
  assumes "eqp_rows entries" "entries \<noteq> []"
  shows "\<exists>plan es. parseSqliteEqpRows entries = Some (Inr plan) \<and> distinct es \<and> set es = set entries
    \<and> map triple (flattenExplainNodes (plan_root plan))
        = (''Query Plan'', None, None) # map (\<lambda>e. parseSqliteDetail (eqp_detail e)) es
    \<and> map node_id (flattenExplainNodes (plan_root plan)) = map node_name [0..<Suc (length entries)]"
proof -
  have none: "List.find (\<lambda>e. eqp_id e = 0) entries = None"
    using eqp_rowD [OF assms(1)] by (fastforce simp: find_None_iff)
  have "card {e \<in> set entries. 0 < eqp_id e} \<le> length entries"
    by (rule order_trans [OF card_mono card_length]) auto
  then obtain cs n' where t: "buildSqliteTree (Suc (length entries)) entries 0 0 =
      Some (createExplainNode (node_name 0) (detail_fields (''Query Plan'', None, None)) cs, n')"
    "numbered (Suc 0) cs n'" "shows_rows {e. below entries 0 e} cs"
    using buildSqliteTree_spec [OF assms(1), of 0 "Suc (length entries)" 0] none by auto
  have all: "{e. below entries 0 e} = set entries"
    using all_below_zero [OF assms(1)] below_in by auto
  obtain es where es: "distinct es" "set es = set entries"
    "map triple (flatten_forest cs) = map (\<lambda>e. parseSqliteDetail (eqp_detail e)) es"
    using t(3) by (auto simp: shows_rows_def all)
  have "length es = length entries"
    using es(1,2) assms(1) by (metis distinct_card distinct_map eqp_rows_def)
  then have n': "n' = Suc (length entries)"
    using numbered_length [OF t(2)] arg_cong [OF es(3), of length] t(2) unfolding numbered_def by simp linarith
  show ?thesis unfolding parseSqliteEqpRows_def
    using assms(2) t es numbered_node [OF t(2), of "detail_fields (''Query Plan'', None, None)"]
    by (auto simp: numbered_def n' simp del: upt_Suc)
qed

theorem sqlite_plan_shows_every_row_witness:
  "let rows = [\<lparr>eqp_id = 3, eqp_parent = 0, eqp_detail = ''SCAN t''\<rparr>, \<lparr>eqp_id = 9, eqp_parent = 3, eqp_detail = ''SEARCH u''\<rparr>]
   in \<exists>plan es. parseSqliteEqpRows rows = Some (Inr plan) \<and> distinct es \<and> set es = set rows
    \<and> map triple (flattenExplainNodes (plan_root plan))
        = (''Query Plan'', None, None) # map (\<lambda>e. parseSqliteDetail (eqp_detail e)) es
    \<and> map node_id (flattenExplainNodes (plan_root plan)) = map node_name [0..<Suc (length rows)]"
  unfolding Let_def by (rule sqlite_plan_shows_every_row) (simp_all add: eqp_rows_def)

end
