(* ===== verification/PlanText.thy ===== *)
theory PlanText
  imports PlanMetrics ColumnTypes
begin

text \<open>
  What the parsers of indented plan texts share (\<open>packages/explain/src/parsers/postgres.ts\<close>, \<open>mysql.ts\<close>): reading
  words and numbers of a line, and the specification of a tree written with indentation: a line's
  children are the lines after it that are indented deeper, up to the first one that is not.
\<close>

text \<open>\<open>text.split(/\s+/)\<close>.\<close>

function split_spaces :: "jsstring \<Rightarrow> jsstring list" where
  "split_spaces s =
     (let w = takeWhile (\<lambda>c. \<not> is_space c) s; rest = dropWhile (\<lambda>c. \<not> is_space c) s
      in if rest = [] then [w] else w # split_spaces (dropWhile is_space rest))"
  by pat_completeness auto
termination
proof (relation "measure length")
  fix s :: jsstring and w rest
  assume "rest = dropWhile (\<lambda>c. \<not> is_space c) s" "rest \<noteq> []"
  then have "length (dropWhile is_space rest) < length rest"
    by (metis dropWhile_eq_Cons_conv dropWhile.simps(2) hd_dropWhile length_dropWhile_le list.collapse
        not_less_eq length_Cons le_imp_less_Suc)
  moreover have "length rest \<le> length s" using \<open>rest = _\<close> by (simp add: length_dropWhile_le)
  ultimately show "(dropWhile is_space rest, s) \<in> measure length" by simp
qed simp

declare split_spaces.simps [simp del]

text \<open>\<open>parseFiniteNumber\<close> and \<open>parseAnalyzeNumber\<close> have the same body.\<close>

definition parseFiniteNumber :: "jsstring \<Rightarrow> jsnumber option" where
  "parseFiniteNumber t = (if trim t = [] then None else number_of_text t)"

definition parseAnalyzeNumber :: "jsstring \<Rightarrow> jsnumber option" where
  "parseAnalyzeNumber t = (if trim t = [] then None else number_of_text t)"

text \<open>\<open>s.lastIndexOf(t)\<close>.\<close>

definition last_index_of :: "jsstring \<Rightarrow> jsstring \<Rightarrow> nat option" where
  "last_index_of s t = map_option (\<lambda>i. length s - i - length t) (index_of (rev s) (rev t))"

section \<open>Trees by indentation\<close>

type_synonym plan_item = "nat \<times> jsstring \<times> NodeFields"

function indent_forest :: "plan_item list \<Rightarrow> ExplainNode list" where
  "indent_forest [] = []"
| "indent_forest ((d, i, f) # xs) =
     ExplainNode i f (indent_forest (takeWhile (\<lambda>x. d < fst x) xs))
       # indent_forest (dropWhile (\<lambda>x. d < fst x) xs)"
  by pat_completeness auto
termination
  by (relation "measure length") (auto simp: length_takeWhile_le length_dropWhile_le le_imp_less_Suc)

lemma indent_forest_preorder:
  "map (\<lambda>t. (node_id t, scalars t)) (flatten_forest (indent_forest xs)) = map snd xs"
proof (induction xs rule: indent_forest.induct)
  case (2 d i f xs)
  have "map snd (takeWhile (\<lambda>x. d < fst x) xs) @ map snd (dropWhile (\<lambda>x. d < fst x) xs) = map snd xs"
    by (metis map_append takeWhile_dropWhile_id)
  with 2 show ?case by simp
qed simp

lemma indent_forest_eq_Nil [simp]: "indent_forest xs = [] \<longleftrightarrow> xs = []"
  by (cases xs rule: indent_forest.cases) auto

lemma indent_forest_numbered:
  assumes "map (fst \<circ> snd) xs = map node_name [n..<n']" "n \<le> n'"
  shows "numbered n (indent_forest xs) n'"
proof -
  have "map node_id (flatten_forest (indent_forest xs)) = map fst (map snd xs)"
    unfolding indent_forest_preorder [symmetric] by (simp add: comp_def)
  with assms show ?thesis by (simp add: numbered_def comp_def)
qed

lemma indent_forest_split:
  "list_all (\<lambda>x. d < fst x) xs \<Longrightarrow> (ys = [] \<or> fst (hd ys) \<le> d) \<Longrightarrow>
   indent_forest ((d, i, f) # xs @ ys) = ExplainNode i f (indent_forest xs) # indent_forest ys"
proof -
  assume "list_all (\<lambda>x. d < fst x) xs" "ys = [] \<or> fst (hd ys) \<le> d"
  then have "takeWhile (\<lambda>x. d < fst x) (xs @ ys) = xs" "dropWhile (\<lambda>x. d < fst x) (xs @ ys) = ys"
    by (cases ys; auto simp: list_all_iff takeWhile_append dropWhile_append)+
  then show ?thesis by simp
qed

end
