(* ===== verification/PlanPostgres.thy ===== *)
theory PlanPostgres
  imports PlanText
begin

text \<open>
  PostgreSQL plans (\<open>packages/explain/src/parsers/postgres.ts\<close>). The JSON form is walked recursively. The text
  form is read line by line with a stack of open nodes: a header line first pops the frames that are not
  shallower, each into the frame below it, and is then pushed; other lines set attributes of the node on
  top. \<open>JSON.parse\<close> is a parameter: \<open>None\<close> is the exception. Nodes are values: a node on the
  stack is in no other place, so the code's mutations of it are updates of the frame.
\<close>

section \<open>JSON\<close>

definition PG_KNOWN_KEYS :: "jsstring list" where
  "PG_KNOWN_KEYS = [''Node Type'', ''Relation Name'', ''Startup Cost'', ''Total Cost'', ''Plan Rows'',
     ''Actual Rows'', ''Actual Total Time'', ''Actual Loops'', ''Shared Hit Blocks'', ''Shared Read Blocks'',
     ''Filter'', ''Index Cond'', ''Join Type'', ''Hash Cond'', ''Plans'']"

definition pg_fields :: "(jsstring \<times> jsval) list \<Rightarrow> NodeFields \<Rightarrow> NodeFields" where
  "pg_fields obj f =
     f\<lparr>node_type := (case asString (get_prop obj ''Node Type'') of Some s \<Rightarrow> s | None \<Rightarrow> ''Unknown''),
       relation := asString (get_prop obj ''Relation Name''),
       startup_cost := asNumber (get_prop obj ''Startup Cost''),
       total_cost := asNumber (get_prop obj ''Total Cost''),
       plan_rows := asNumber (get_prop obj ''Plan Rows''),
       actual_rows := asNumber (get_prop obj ''Actual Rows''),
       actual_time_ms := asNumber (get_prop obj ''Actual Total Time''),
       actual_loops := asLoopCount (get_prop obj ''Actual Loops''),
       buffers_hit := asLoopCount (get_prop obj ''Shared Hit Blocks''),
       buffers_read := asLoopCount (get_prop obj ''Shared Read Blocks''),
       filter_text := asString (get_prop obj ''Filter''),
       index_condition := asString (get_prop obj ''Index Cond''),
       join_type := asString (get_prop obj ''Join Type''),
       hash_condition := asString (get_prop obj ''Hash Cond''),
       extra := filter (\<lambda>kv. fst kv \<notin> set PG_KNOWN_KEYS) obj\<rparr>"

definition array_of :: "jsval \<Rightarrow> jsval list" where
  "array_of v = (case asArray v of Some xs \<Rightarrow> xs | None \<Rightarrow> [])"

lemma size_get_prop: "get_prop kvs k \<noteq> JUndefined \<Longrightarrow> size (get_prop kvs k) < size (JObj kvs)"
  by (induction kvs) (auto simp: get_prop_def)

lemma size_array_of: "x \<in> set (array_of v) \<Longrightarrow> size x < size v"
  by (cases v) (auto simp: array_of_def size_list_estimation' intro: le_imp_less_Suc)

lemma size_array_prop: "x \<in> set (array_of (get_prop (object_of v) k)) \<Longrightarrow> size x < size v"
proof -
  assume x: "x \<in> set (array_of (get_prop (object_of v) k))"
  then have "get_prop (object_of v) k \<noteq> JUndefined" by (auto simp: array_of_def)
  then have "size (get_prop (object_of v) k) < size v"
    using size_get_prop [of "object_of v" k] by (cases v) (auto simp: object_of_def get_prop_def)
  with size_array_of [OF x] show ?thesis by simp
qed

function parsePgPlanNode :: "jsval \<Rightarrow> nat \<Rightarrow> ExplainNode \<times> nat" where
  "parsePgPlanNode node counter =
     (let (i, n1) = next_id counter; obj = object_of node;
          (cs, n2) = map_ids parsePgPlanNode (array_of (get_prop obj ''Plans'')) n1
      in (createExplainNode i (pg_fields obj) cs, n2))"
  by pat_completeness auto
termination
  by (relation "measure (size \<circ> fst)") (auto simp: size_array_prop)

declare parsePgPlanNode.simps [simp del]

definition firstStatement :: "jsval \<Rightarrow> jsstring + (jsstring \<times> jsval) list" where
  "firstStatement v =
     (case asArray v of
        Some xs \<Rightarrow>
          (case asObject (case xs of [] \<Rightarrow> JUndefined | x # _ \<Rightarrow> x) of
             None \<Rightarrow> Inl ''EXPLAIN JSON array is empty''
           | Some kvs \<Rightarrow> Inr kvs)
      | None \<Rightarrow>
          (case asObject v of
             Some kvs \<Rightarrow> Inr kvs
           | None \<Rightarrow> Inl ''EXPLAIN JSON must be an array or object''))"

definition parsePostgresJson :: "(jsstring \<Rightarrow> jsval option) \<Rightarrow> jsstring \<Rightarrow> jsstring + ExplainPlan" where
  "parsePostgresJson json_parse raw =
     (case json_parse raw of
        None \<Rightarrow> Inl ''Failed to parse EXPLAIN JSON''
      | Some v \<Rightarrow>
          (case firstStatement v of
             Inl e \<Rightarrow> Inl e
           | Inr stmt \<Rightarrow>
               (let planObj = get_prop stmt ''Plan'' in
                if planObj = JUndefined then Inl ''EXPLAIN JSON missing 'Plan' key''
                else
                  (let t = fst (parsePgPlanNode planObj 0) in
                   Inr \<lparr>plan_root = t,
                        planning_time_ms = asNumber (get_prop stmt ''Planning Time''),
                        execution_time_ms = asNumber (get_prop stmt ''Execution Time''),
                        original_query = [], plan_driver = ''postgres'',
                        has_analyze_data = measured (scalars t), raw_output = Some raw\<rparr>))))"

section \<open>Text\<close>

definition isTextMetadataLine :: "jsstring \<Rightarrow> bool" where
  "isTextMetadataLine line =
     (let t = trim line in
      upper t = ''QUERY PLAN''
      \<or> (t \<noteq> [] \<and> list_all (\<lambda>c. c = CHR ''-'') t)
      \<or> (prefix ''('' t \<and> (suffix ''rows)'' t \<or> suffix ''row)'' t)))"

definition leadingWidth :: "jsstring \<Rightarrow> nat" where
  "leadingWidth line = length (takeWhile is_space line)"

definition stripMsSuffix :: "jsstring \<Rightarrow> jsstring \<Rightarrow> jsnumber option" where
  "stripMsSuffix line pre =
     (if \<not> prefix pre line then None
      else
        (let r = trim (drop (length pre) line);
             rest = (if suffix ''ms'' r then trim (take (length r - 2) r) else r)
         in if rest = [] then None else number_of_text rest))"

text \<open>The index of the parenthesis that closes the group, for \<open>i\<close> characters read and \<open>depth\<close> open ones.\<close>

fun paren_end :: "jsstring \<Rightarrow> nat \<Rightarrow> nat \<Rightarrow> nat option" where
  "paren_end [] i depth = None"
| "paren_end (c # cs) i depth =
     (if c = CHR ''('' then paren_end cs (Suc i) (Suc depth)
      else if c = CHR '')'' then (if depth = 1 then Some i else paren_end cs (Suc i) (depth - 1))
      else paren_end cs (Suc i) depth)"

definition extractParens :: "jsstring \<Rightarrow> (jsstring \<times> jsstring) option" where
  "extractParens input =
     (if \<not> prefix ''('' input then None
      else (case paren_end input 0 0 of
              None \<Rightarrow> None
            | Some i \<Rightarrow> Some (slice input 1 i, drop (Suc i) input)))"

definition splitNodeTypeAndRelation :: "jsstring \<Rightarrow> jsstring \<times> jsstring option" where
  "splitNodeTypeAndRelation header =
     (case last_index_of header '' on '' of
        None \<Rightarrow> (trim header, None)
      | Some k \<Rightarrow>
          (let ty = trim (take k header); rel = trim (drop (k + 4) header)
           in if rel = [] then (ty, None) else (ty, Some rel)))"

text \<open>\<open>rows\<close> of the last part that starts with \<open>rows=\<close>, and so on.\<close>

definition part_number :: "jsstring \<Rightarrow> jsstring \<Rightarrow> jsnumber option \<Rightarrow> jsnumber option" where
  "part_number key part old = (if prefix key part then parseFiniteNumber (drop (length key) part) else old)"

definition parseCostFields :: "jsstring \<Rightarrow> jsnumber option \<times> jsnumber option \<times> jsnumber option" where
  "parseCostFields inner =
     (if \<not> prefix ''cost='' inner then (None, None, None)
      else
        (let parts = split_spaces (drop 5 inner); costExpr = hd parts;
             rows = foldl (\<lambda>r part. part_number ''rows='' part r) None (tl parts)
         in case index_of costExpr ''..'' of
              None \<Rightarrow> (None, None, rows)
            | Some sep \<Rightarrow> (parseFiniteNumber (take sep costExpr), parseFiniteNumber (drop (sep + 2) costExpr), rows)))"

definition actual_part :: "jsnumber option \<times> jsnumber option \<times> jsnumber option \<Rightarrow> jsstring
    \<Rightarrow> jsnumber option \<times> jsnumber option \<times> jsnumber option" where
  "actual_part st part =
     (case st of (totalTime, rows, loops) \<Rightarrow>
        if prefix ''time='' part then
          (let expr = drop 5 part in
           case index_of expr ''..'' of
             None \<Rightarrow> (totalTime, rows, loops)
           | Some sep \<Rightarrow> (parseFiniteNumber (drop (sep + 2) expr), rows, loops))
        else if prefix ''rows='' part then (totalTime, parseFiniteNumber (drop 5 part), loops)
        else if prefix ''loops='' part then (totalTime, rows, parseFiniteNumber (drop 6 part))
        else (totalTime, rows, loops))"

definition parseActualFields :: "jsstring \<Rightarrow> jsnumber option \<times> jsnumber option \<times> jsnumber option" where
  "parseActualFields inner =
     (let trimmed = trim inner in
      if lower trimmed = ''never executed'' then (None, None, None)
      else
        (let rest = (if prefix ''actual '' trimmed then drop 7 trimmed else trimmed)
         in foldl actual_part (None, None, None) (split_spaces rest)))"

definition parseTextNodeHeader :: "jsstring \<Rightarrow> nat \<Rightarrow> (ExplainNode \<times> nat) option" where
  "parseTextNodeHeader content counter =
     (let body = (if prefix ''->'' content then trim_start (drop 2 content) else content) in
      case index_of body ''(cost='' of
        None \<Rightarrow> None
      | Some costPos \<Rightarrow>
          (let header = trim (take costPos body) in
           case extractParens (drop costPos body) of
             None \<Rightarrow> None
           | Some (inner, rest) \<Rightarrow>
               (let (startupCost, totalCost, planRows) = parseCostFields inner;
                    (actualTimeMs, actualRows, actualLoops) =
                      (case extractParens (trim_start rest) of
                         Some (act, _) \<Rightarrow> parseActualFields act
                       | None \<Rightarrow> (None, None, None));
                    (nodeType, rel) = splitNodeTypeAndRelation header;
                    (i, n) = next_id counter
                in Some (createExplainNode i
                     (\<lambda>f. f\<lparr>node_type := nodeType, relation := rel, startup_cost := startupCost,
                            total_cost := totalCost, plan_rows := planRows, actual_rows := actualRows,
                            actual_time_ms := actualTimeMs, actual_loops := actualLoops\<rparr>) [], n))))"

definition applyTextAttribute :: "NodeFields \<Rightarrow> jsstring \<Rightarrow> NodeFields" where
  "applyTextAttribute f content =
     (if prefix ''Filter:'' content then f\<lparr>filter_text := Some (trim (drop 7 content))\<rparr>
      else if prefix ''Index Cond:'' content then f\<lparr>index_condition := Some (trim (drop 11 content))\<rparr>
      else if prefix ''Hash Cond:'' content then f\<lparr>hash_condition := Some (trim (drop 10 content))\<rparr>
      else if prefix ''Join Type:'' content then f\<lparr>join_type := Some (trim (drop 10 content))\<rparr>
      else
        (case index_of content '':'' of
           None \<Rightarrow> f
         | Some sep \<Rightarrow>
             f\<lparr>extra := set_prop (extra f) (trim (take sep content), JStr (trim (drop (sep + 1) content)))\<rparr>))"

text \<open>The stack, its top first, and the root.\<close>

definition add_child :: "ExplainNode \<Rightarrow> ExplainNode \<Rightarrow> ExplainNode" where
  "add_child p t = (case p of ExplainNode i f cs \<Rightarrow> ExplainNode i f (cs @ [t]))"

type_synonym frames = "(nat \<times> ExplainNode) list"

fun promoteOrAttach :: "ExplainNode \<Rightarrow> frames \<Rightarrow> ExplainNode option \<Rightarrow> frames \<times> ExplainNode option" where
  "promoteOrAttach t ((d, p) # st) r = ((d, add_child p t) # st, r)"
| "promoteOrAttach t [] None = ([], Some t)"
| "promoteOrAttach t [] (Some r) = ([], Some (add_child r t))"

function popUntilShallower :: "nat \<Rightarrow> frames \<Rightarrow> ExplainNode option \<Rightarrow> frames \<times> ExplainNode option" where
  "popUntilShallower cutoff [] r = ([], r)"
| "popUntilShallower cutoff ((d, t) # st) r =
     (if cutoff \<le> d then (case promoteOrAttach t st r of (st', r') \<Rightarrow> popUntilShallower cutoff st' r')
      else ((d, t) # st, r))"
  by pat_completeness auto

lemma promoteOrAttach_length: "promoteOrAttach t st r = (st', r') \<Longrightarrow> length st' = length st"
  by (induction t st r rule: promoteOrAttach.induct) auto

termination popUntilShallower
  by (relation "measure (\<lambda>(c, st, r). length st)")
     (auto split: prod.split dest: promoteOrAttach_length)

record TextState =
  tx_planning :: "jsnumber option"
  tx_execution :: "jsnumber option"
  tx_analyze :: bool
  tx_counter :: nat
  tx_stack :: frames
  tx_root :: "ExplainNode option"

definition text_line :: "TextState \<Rightarrow> jsstring \<Rightarrow> TextState" where
  "text_line s line =
     (let rawLine = trim_end line in
      if trim rawLine = [] \<or> isTextMetadataLine rawLine then s
      else
        (let indent = leadingWidth rawLine; trimmed = trim_start rawLine in
         case stripMsSuffix trimmed ''Planning Time:'' of
           Some x \<Rightarrow> s\<lparr>tx_planning := Some x\<rparr>
         | None \<Rightarrow>
             (case stripMsSuffix trimmed ''Execution Time:'' of
                Some x \<Rightarrow> s\<lparr>tx_execution := Some x\<rparr>
              | None \<Rightarrow>
                  (case parseTextNodeHeader trimmed (tx_counter s) of
                     Some (node, n) \<Rightarrow>
                       (case popUntilShallower indent (tx_stack s) (tx_root s) of
                          (st, r) \<Rightarrow>
                            s\<lparr>tx_analyze := (tx_analyze s \<or> measured (scalars node)), tx_counter := n,
                              tx_stack := (indent, node) # st, tx_root := r\<rparr>)
                   | None \<Rightarrow>
                       (case tx_stack s of
                          [] \<Rightarrow> s
                        | (d, ExplainNode i f cs) # st \<Rightarrow>
                            s\<lparr>tx_stack := (d, ExplainNode i (applyTextAttribute f trimmed) cs) # st\<rparr>)))))"

definition text_start :: TextState where
  "text_start = \<lparr>tx_planning = None, tx_execution = None, tx_analyze = False, tx_counter = 0,
     tx_stack = [], tx_root = None\<rparr>"

definition parsePostgresText :: "jsstring \<Rightarrow> jsstring + ExplainPlan" where
  "parsePostgresText raw =
     (let s = foldl text_line text_start (split_on NL raw);
          (_, r) = popUntilShallower 0 (tx_stack s) (tx_root s)
      in case r of
           None \<Rightarrow> Inl ''No plan nodes found in EXPLAIN text output''
         | Some t \<Rightarrow>
             Inr \<lparr>plan_root = t, planning_time_ms = tx_planning s, execution_time_ms = tx_execution s,
                  original_query = [], plan_driver = ''postgres'', has_analyze_data = tx_analyze s,
                  raw_output = Some raw\<rparr>)"

section \<open>The stack builds the tree of the indentation\<close>

text \<open>What a line is, and the plan items of a dump: one per header line, with the attribute lines up to the
  next header applied to it, numbered in order.\<close>

datatype line_kind =
  SkippedLine | PlanningLine jsnumber | ExecutionLine jsnumber | HeaderLine nat NodeFields | AttributeLine jsstring

definition line_kind :: "jsstring \<Rightarrow> line_kind" where
  "line_kind line =
     (let rawLine = trim_end line; trimmed = trim_start rawLine in
      if trim rawLine = [] \<or> isTextMetadataLine rawLine then SkippedLine
      else case stripMsSuffix trimmed ''Planning Time:'' of
        Some x \<Rightarrow> PlanningLine x
      | None \<Rightarrow>
          (case stripMsSuffix trimmed ''Execution Time:'' of
             Some x \<Rightarrow> ExecutionLine x
           | None \<Rightarrow>
               (case parseTextNodeHeader trimmed 0 of
                  Some (node, _) \<Rightarrow> HeaderLine (leadingWidth rawLine) (scalars node)
                | None \<Rightarrow> AttributeLine trimmed)))"

fun attributes :: "line_kind list \<Rightarrow> jsstring list" where
  "attributes [] = []"
| "attributes (HeaderLine d f # ks) = []"
| "attributes (AttributeLine c # ks) = c # attributes ks"
| "attributes (k # ks) = attributes ks"

fun plan_items :: "line_kind list \<Rightarrow> nat \<Rightarrow> plan_item list" where
  "plan_items [] n = []"
| "plan_items (HeaderLine d f # ks) n =
     (d, node_name n, foldl applyTextAttribute f (attributes ks)) # plan_items ks (Suc n)"
| "plan_items (k # ks) n = plan_items ks n"

lemma plan_items_numbered:
  "map (fst \<circ> snd) (plan_items ks n) = map node_name [n..<n + length (plan_items ks n)]"
proof (induction ks n rule: plan_items.induct)
  case (2 d f ks n)
  then show ?case by (simp add: upt_conv_Cons del: upt_Suc)
qed simp_all

text \<open>The stack machine on items.\<close>

definition pop :: "nat \<Rightarrow> frames \<times> ExplainNode option \<Rightarrow> frames \<times> ExplainNode option" where
  "pop c s = popUntilShallower c (fst s) (snd s)"

definition push_item :: "frames \<times> ExplainNode option \<Rightarrow> plan_item \<Rightarrow> frames \<times> ExplainNode option" where
  "push_item s x =
     (case x of (d, i, f) \<Rightarrow> case pop d s of (st, r) \<Rightarrow> ((d, ExplainNode i f []) # st, r))"

definition promote :: "ExplainNode option \<Rightarrow> ExplainNode \<Rightarrow> ExplainNode option" where
  "promote r t = Some (case r of None \<Rightarrow> t | Some q \<Rightarrow> add_child q t)"

lemma pop_simps [simp]:
  "pop c ([], r) = ([], r)"
  "c \<le> d \<Longrightarrow> pop c ([(d, t)], r) = ([], promote r t)"
  "c \<le> d \<Longrightarrow> pop c ((d, t) # (e, p) # st, r) = pop c ((e, add_child p t) # st, r)"
  "d < c \<Longrightarrow> pop c ((d, t) # st, r) = ((d, t) # st, r)"
  by (cases r; simp add: pop_def promote_def)+

lemma pop_cases [case_names empty one more stop]:
  fixes c :: nat
  assumes "\<And>r. s = ([], r) \<Longrightarrow> P" "\<And>d t r. s = ([(d, t)], r) \<Longrightarrow> c \<le> d \<Longrightarrow> P"
    "\<And>d t e p st r. s = ((d, t) # (e, p) # st, r) \<Longrightarrow> c \<le> d \<Longrightarrow> P"
    "\<And>d t st r. s = ((d, t) # st, r) \<Longrightarrow> d < c \<Longrightarrow> P"
  shows P
proof (cases s)
  case (Pair st r)
  show ?thesis
  proof (cases st)
    case Nil
    then show ?thesis using assms(1) Pair by simp
  next
    case (Cons x st')
    obtain d t where x: "x = (d, t)" by (cases x)
    show ?thesis
    proof (cases "c \<le> d")
      case True
      show ?thesis
      proof (cases st')
        case Nil
        then show ?thesis using assms(2) Pair Cons x True by simp
      next
        case (Cons y st'')
        then show ?thesis using assms(3) Pair \<open>st = x # st'\<close> x True by (cases y) simp
      qed
    next
      case False
      then show ?thesis using assms(4) [of d t st' r] Pair Cons x by simp
    qed
  qed
qed

lemma pop_pop: "c \<le> c' \<Longrightarrow> pop c (pop c' s) = pop c s"
proof (induction "length (fst s)" arbitrary: s rule: less_induct)
  case less
  show ?case
  proof (cases rule: pop_cases [where s = s and c = c'])
    case (more d t e p st r)
    have "pop c (pop c' ((e, add_child p t) # st, r)) = pop c ((e, add_child p t) # st, r)"
      by (rule less.hyps) (simp_all add: more less.prems)
    with more less.prems show ?thesis by simp
  qed (use less.prems in auto)
qed

lemma push_item_pop: "fst x \<le> c \<Longrightarrow> push_item (pop c s) x = push_item s x"
  by (cases x) (simp add: push_item_def pop_pop)

lemma add_children: "foldl add_child (ExplainNode i f cs) ts = ExplainNode i f (cs @ ts)"
  by (induction ts arbitrary: cs) (simp_all add: add_child_def)

text \<open>A frame's descendants end up below it: \<open>xs\<close> are all deeper than the frame on top.\<close>

lemma push_below:
  "list_all (\<lambda>x. i < fst x) xs \<Longrightarrow>
   pop (Suc i) (foldl push_item ((i, t) # st, r) xs) = ((i, foldl add_child t (indent_forest xs)) # st, r)"
proof (induction "length xs" arbitrary: xs i t st r rule: less_induct)
  case less
  show ?case
  proof (cases xs)
    case (Cons x ys)
    obtain j n f where x: "x = (j, n, f)" by (cases x)
    have j: "i < j" using less.prems Cons x by simp
    define A where "A = takeWhile (\<lambda>x. j < fst x) ys"
    define B where "B = dropWhile (\<lambda>x. j < fst x) ys"
    have ys: "ys = A @ B" by (simp add: A_def B_def)
    have A: "list_all (\<lambda>x. j < fst x) A" using set_takeWhileD by (fastforce simp: A_def list_all_iff)
    have Ai: "list_all (\<lambda>x. i < fst x) B" using less.prems Cons ys by (simp add: list_all_iff)
    have forest: "indent_forest xs = ExplainNode n f (indent_forest A) # indent_forest B"
      by (simp add: Cons x A_def B_def)
    define S where "S = foldl push_item ((j, ExplainNode n f []) # (i, t) # st, r) A"
    have S: "pop (Suc j) S = ((j, ExplainNode n f (indent_forest A)) # (i, t) # st, r)"
      unfolding S_def using less.hyps [of A j "ExplainNode n f []" "(i, t) # st" r] A Cons ys
      by (simp add: add_children)
    have run: "foldl push_item ((i, t) # st, r) xs = foldl push_item S B"
      using j by (simp add: Cons x ys S_def push_item_def)
    define u where "u = add_child t (ExplainNode n f (indent_forest A))"
    show ?thesis
    proof (cases B)
      case Nil
      have "pop (Suc i) S = pop (Suc i) (pop (Suc j) S)" using j by (simp add: pop_pop)
      then show ?thesis using j by (simp add: run Nil S forest)
    next
      case (Cons b bs)
      have b: "fst b \<le> j" using Cons by (simp add: B_def dropWhile_eq_Cons_conv)
      have bi: "i < fst b" using Ai by (simp add: Cons)
      have "push_item S b = push_item (pop (Suc j) S) b" using b by (simp add: push_item_pop)
      also have "\<dots> = push_item ((i, u) # st, r) b"
        using b bi j by (cases b) (simp add: S push_item_def u_def)
      finally have "foldl push_item S B = foldl push_item ((i, u) # st, r) B" by (simp add: Cons)
      moreover have "pop (Suc i) (foldl push_item ((i, u) # st, r) B) = ((i, foldl add_child u (indent_forest B)) # st, r)"
        by (rule less.hyps) (use Ai \<open>xs = x # ys\<close> ys in simp_all)
      ultimately show ?thesis by (simp only: run forest foldl_Cons u_def)
    qed
  qed simp
qed

lemma push_all:
  "pop 0 (foldl push_item ([], r) xs) = ([], foldl promote r (indent_forest xs))"
proof (induction "length xs" arbitrary: xs r rule: less_induct)
  case less
  show ?case
  proof (cases xs)
    case (Cons x ys)
    obtain j n f where x: "x = (j, n, f)" by (cases x)
    define A where "A = takeWhile (\<lambda>x. j < fst x) ys"
    define B where "B = dropWhile (\<lambda>x. j < fst x) ys"
    have ys: "ys = A @ B" by (simp add: A_def B_def)
    have A: "list_all (\<lambda>x. j < fst x) A" using set_takeWhileD by (fastforce simp: A_def list_all_iff)
    have forest: "indent_forest xs = ExplainNode n f (indent_forest A) # indent_forest B"
      by (simp add: Cons x A_def B_def)
    define S where "S = foldl push_item ([(j, ExplainNode n f [])], r) A"
    have S: "pop (Suc j) S = ([(j, ExplainNode n f (indent_forest A))], r)"
      unfolding S_def using push_below [OF A, of "ExplainNode n f []" "[]" r] by (simp add: add_children)
    have run: "foldl push_item ([], r) xs = foldl push_item S B"
      by (simp add: Cons x ys S_def push_item_def)
    define q where "q = promote r (ExplainNode n f (indent_forest A))"
    show ?thesis
    proof (cases B)
      case Nil
      have "pop 0 S = pop 0 (pop (Suc j) S)" by (simp add: pop_pop)
      then show ?thesis by (simp add: run Nil S forest)
    next
      case (Cons b bs)
      have b: "fst b \<le> j" using Cons by (simp add: B_def dropWhile_eq_Cons_conv)
      have "push_item S b = push_item (pop (Suc j) S) b" using b by (simp add: push_item_pop)
      also have "\<dots> = push_item ([], q) b" using b by (cases b) (simp add: S push_item_def q_def)
      finally have "foldl push_item S B = foldl push_item ([], q) B" by (simp add: Cons)
      moreover have "pop 0 (foldl push_item ([], q) B) = ([], foldl promote q (indent_forest B))"
        by (rule less.hyps) (simp add: \<open>xs = x # ys\<close> ys)
      ultimately show ?thesis by (simp only: run forest foldl_Cons q_def)
    qed
  qed simp
qed

text \<open>A step of the parser on a line is a step on its kind.\<close>

definition kind_step :: "TextState \<Rightarrow> line_kind \<Rightarrow> TextState" where
  "kind_step s k =
     (case k of
        SkippedLine \<Rightarrow> s
      | PlanningLine x \<Rightarrow> s\<lparr>tx_planning := Some x\<rparr>
      | ExecutionLine x \<Rightarrow> s\<lparr>tx_execution := Some x\<rparr>
      | HeaderLine d f \<Rightarrow>
          (case push_item (tx_stack s, tx_root s) (d, node_name (tx_counter s), f) of
             (st, r) \<Rightarrow> s\<lparr>tx_analyze := (tx_analyze s \<or> measured f), tx_counter := Suc (tx_counter s),
                           tx_stack := st, tx_root := r\<rparr>)
      | AttributeLine c \<Rightarrow>
          (case tx_stack s of
             [] \<Rightarrow> s
           | (d, ExplainNode i f cs) # st \<Rightarrow>
               s\<lparr>tx_stack := (d, ExplainNode i (applyTextAttribute f c) cs) # st\<rparr>))"

lemma header_counter:
  "parseTextNodeHeader content n =
     (case parseTextNodeHeader content 0 of
        None \<Rightarrow> None | Some (t, _) \<Rightarrow> Some (ExplainNode (node_name n) (scalars t) [], Suc n))"
  by (simp add: parseTextNodeHeader_def next_id_def createExplainNode_def Let_def
      split: option.split prod.split)

lemma text_line_kind: "text_line s line = kind_step s (line_kind line)"
  unfolding text_line_def line_kind_def kind_step_def Let_def
  by (subst header_counter) (simp add: push_item_def pop_def split: option.split prod.split)

text \<open>A run over lines is a run over items, the attributes read next being those of the frame on top.\<close>

definition with_attributes :: "frames \<Rightarrow> jsstring list \<Rightarrow> frames" where
  "with_attributes st cs =
     (case st of [] \<Rightarrow> [] | (d, ExplainNode i f ts) # st' \<Rightarrow> (d, ExplainNode i (foldl applyTextAttribute f cs) ts) # st')"

lemma with_attributes_Nil [simp]: "with_attributes st [] = st"
  by (simp add: with_attributes_def split: list.split prod.split ExplainNode.split)

lemma with_attributes_Cons [simp]:
  "with_attributes ((d, ExplainNode i f ts) # st) cs = (d, ExplainNode i (foldl applyTextAttribute f cs) ts) # st"
  by (simp add: with_attributes_def)

lemma run_kinds:
  "(tx_stack (foldl kind_step s ks), tx_root (foldl kind_step s ks)) =
     foldl push_item (with_attributes (tx_stack s) (attributes ks), tx_root s) (plan_items ks (tx_counter s))"
proof (induction ks arbitrary: s)
  case (Cons k ks)
  show ?case
  proof (cases k)
    case (HeaderLine d f)
    obtain st r where p: "pop d (tx_stack s, tx_root s) = (st, r)" by (cases "pop d (tx_stack s, tx_root s)")
    have step: "kind_step s k = s\<lparr>tx_analyze := (tx_analyze s \<or> measured f), tx_counter := Suc (tx_counter s),
        tx_stack := (d, ExplainNode (node_name (tx_counter s)) f []) # st, tx_root := r\<rparr>"
      by (simp add: HeaderLine kind_step_def push_item_def p)
    have push: "push_item (tx_stack s, tx_root s) (d, i, g) = ((d, ExplainNode i g []) # st, r)" for i g
      by (simp add: push_item_def p)
    show ?thesis unfolding foldl_Cons Cons.IH [of "kind_step s k"] unfolding step
      by (simp add: HeaderLine push)
  next
    case (AttributeLine c)
    show ?thesis
    proof (cases "tx_stack s")
      case Nil
      then have step: "kind_step s k = s" by (simp add: AttributeLine kind_step_def)
      show ?thesis unfolding foldl_Cons Cons.IH [of "kind_step s k"] unfolding step
        by (simp add: AttributeLine Nil) (simp add: with_attributes_def)
    next
      case (Cons x st)
      obtain d i f cs where x: "x = (d, ExplainNode i f cs)" by (metis ExplainNode.exhaust surj_pair)
      have step: "kind_step s k = s\<lparr>tx_stack := (d, ExplainNode i (applyTextAttribute f c) cs) # st\<rparr>"
        by (simp add: AttributeLine kind_step_def Cons x)
      show ?thesis unfolding foldl_Cons Cons.IH [of "kind_step s k"] unfolding step
        by (simp add: AttributeLine Cons x)
    qed
  qed (use Cons.IH [of "kind_step s k"] in \<open>simp_all add: kind_step_def\<close>)
qed simp

lemma run_analyze:
  "tx_analyze (foldl kind_step s ks) \<longleftrightarrow> tx_analyze s \<or> (\<exists>d f. HeaderLine d f \<in> set ks \<and> measured f)"
  by (induction ks arbitrary: s)
     (auto simp: kind_step_def split: line_kind.splits list.splits prod.splits ExplainNode.splits)

definition text_items :: "jsstring \<Rightarrow> plan_item list" where
  "text_items raw = plan_items (map line_kind (split_on NL raw)) 0"

lemma parsePostgresText_eq:
  "parsePostgresText raw =
     (let s = foldl text_line text_start (split_on NL raw) in
      case indent_forest (text_items raw) of
        [] \<Rightarrow> Inl ''No plan nodes found in EXPLAIN text output''
      | t # ts \<Rightarrow>
          Inr \<lparr>plan_root = foldl add_child t ts, planning_time_ms = tx_planning s, execution_time_ms = tx_execution s,
               original_query = [], plan_driver = ''postgres'', has_analyze_data = tx_analyze s, raw_output = Some raw\<rparr>)"
proof -
  define s where "s = foldl text_line text_start (split_on NL raw)"
  have s: "s = foldl kind_step text_start (map line_kind (split_on NL raw))"
    by (simp add: s_def foldl_map text_line_kind [abs_def])
  have "(tx_stack s, tx_root s) = foldl push_item ([], None) (text_items raw)"
    using run_kinds [of text_start "map line_kind (split_on NL raw)"]
    by (simp add: s text_items_def text_start_def with_attributes_def)
  then have p: "popUntilShallower 0 (tx_stack s) (tx_root s) = ([], foldl promote None (indent_forest (text_items raw)))"
    by (metis fst_conv snd_conv pop_def push_all)
  have "foldl promote (Some t) ts = Some (foldl add_child t ts)" for t ts
    by (induction ts arbitrary: t) (simp_all add: promote_def)
  then show ?thesis
    by (simp add: parsePostgresText_def s_def [symmetric] p promote_def split: list.split)
qed

section \<open>Ids\<close>

lemma parsePgPlanNode_numbered: "parsePgPlanNode v n = (t, n') \<Longrightarrow> numbered n [t] n'"
proof (induction v n arbitrary: t n' rule: parsePgPlanNode.induct)
  case (1 v n)
  obtain cs n2 where cs: "map_ids parsePgPlanNode (array_of (get_prop (object_of v) ''Plans'')) (n + 1) = (cs, n2)"
    by (cases "map_ids parsePgPlanNode (array_of (get_prop (object_of v) ''Plans'')) (n + 1)")
  have "numbered (n + 1) cs n2"
    by (rule map_ids_numbered [OF cs]) (rule "1.IH" [OF _ refl refl], simp_all add: next_id_def)
  moreover have "t = createExplainNode (node_name n) (pg_fields (object_of v)) cs" "n' = n2"
    using "1.prems" cs by (simp_all add: parsePgPlanNode.simps [of v n] next_id_def Let_def)
  ultimately show ?case by (simp add: numbered_node)
qed

lemma foldl_add_child: "foldl add_child t ts = ExplainNode (node_id t) (scalars t) (children t @ ts)"
  by (cases t) (simp add: add_children)

lemma text_items_numbered: "numbered 0 (indent_forest (text_items raw)) (length (text_items raw))"
  by (rule indent_forest_numbered) (use plan_items_numbered [of _ 0] in \<open>simp_all add: text_items_def\<close>)

interpretation pg_json: plan_source "\<lambda>raw. success (parsePostgresJson json_parse raw)" for json_parse
proof
  fix raw plan
  assume "success (parsePostgresJson json_parse raw) = Some plan"
  then obtain v where "plan_root plan = fst (parsePgPlanNode v 0)"
    by (auto simp: parsePostgresJson_def Let_def split: option.splits sum.splits if_splits)
  then show "own_ids (plan_root plan)"
    using parsePgPlanNode_numbered [of v 0] by (metis numbered_own_ids prod.collapse)
qed

interpretation pg_text: plan_source "\<lambda>raw. success (parsePostgresText raw)"
proof
  fix raw plan
  assume "success (parsePostgresText raw) = Some plan"
  then obtain t ts where t: "indent_forest (text_items raw) = t # ts" "plan_root plan = foldl add_child t ts"
    by (auto simp: parsePostgresText_eq Let_def split: list.splits)
  have "map node_id (flattenExplainNodes (plan_root plan)) = map node_id (flatten_forest (t # ts))"
    by (cases t) (simp add: t(2) foldl_add_child)
  then have "numbered 0 [plan_root plan] (length (text_items raw))"
    using text_items_numbered [of raw] by (simp add: numbered_def t(1))
  then show "own_ids (plan_root plan)" by (rule numbered_own_ids)
qed

section \<open>Properties\<close>

text \<open>C33 (pg_text_follows_indentation): a text dump parses exactly when it has a header line, and the tree is
  the one its indentation spells: a header's children are the headers after it that are indented deeper, up to
  the first that is not; further top-level headers become children of the first. Every header is one node, in
  the order of the lines, with the attribute lines up to the next header applied to it.\<close>

theorem pg_text_follows_indentation:
  "case parsePostgresText raw of
     Inl e \<Rightarrow> text_items raw = []
   | Inr plan \<Rightarrow>
       (\<exists>t ts. indent_forest (text_items raw) = t # ts
          \<and> plan_root plan = ExplainNode (node_id t) (scalars t) (children t @ ts))
       \<and> map (\<lambda>t. (node_id t, scalars t)) (flattenExplainNodes (plan_root plan)) = map snd (text_items raw)"
proof (cases "indent_forest (text_items raw)")
  case (Cons t ts)
  have "map (\<lambda>t. (node_id t, scalars t)) (flattenExplainNodes (foldl add_child t ts)) = map snd (text_items raw)"
    unfolding indent_forest_preorder [symmetric] Cons by (cases t) (simp add: foldl_add_child)
  then show ?thesis by (simp add: parsePostgresText_eq Let_def Cons foldl_add_child)
qed (simp add: parsePostgresText_eq Let_def)

text \<open>Property (pg_json_ids_are_its_nodes): in a plan read from a JSON document every node is found by its id, and so are
  its metrics.\<close>

theorem pg_json_nodes_found:
  assumes "parsePostgresJson json_parse raw = Inr plan" "t \<in> set (flattenExplainNodes (plan_root plan))"
  shows "findExplainNode (plan_root plan) (Some (node_id t)) = Some t"
  by (rule pg_json.node_found [where json_parse = json_parse and x = raw]) (simp_all add: assms)

end
