(* ===== verification/PlanMysql.thy ===== *)
theory PlanMysql
  imports PlanPostgres
begin

text \<open>
  MySQL and MariaDB plans (\<open>packages/explain/src/parsers/mysql.ts\<close>): JSON documents, the indented text of
  EXPLAIN ANALYZE and tabular rows. The five mutually recursive JSON functions differ in the node they make
  and in the calls they make for its children; here each is a mode, \<open>mode_calls\<close> lists a mode's calls
  in the order of the pushes, and \<open>parse_mode\<close> runs them. A wrapper may hand its own object to
  \<open>parseMysqlQueryBlock\<close>, everything else goes to a smaller value.
\<close>

datatype mysql_mode = QueryBlockMode | FilesortMode | TemporaryTableMode | SubqueryCacheMode | WrapperMode jsstring

definition MYSQL_ACCESS_TYPES :: "(jsstring \<times> jsstring) list" where
  "MYSQL_ACCESS_TYPES =
     [(''ALL'', ''Full Table Scan''), (''index'', ''Index Scan''), (''range'', ''Range Scan''),
      (''ref'', ''Index Lookup''), (''eq_ref'', ''Unique Index Lookup''), (''const'', ''Const Lookup''),
      (''system'', ''Const Lookup''), (''fulltext'', ''Fulltext Search'')]"

definition access_type_name :: "jsstring \<Rightarrow> jsstring" where
  "access_type_name access = (case map_of MYSQL_ACCESS_TYPES access of Some n \<Rightarrow> n | None \<Rightarrow> access)"

section \<open>The calls for the children\<close>

definition has :: "(jsstring \<times> jsval) list \<Rightarrow> jsstring \<Rightarrow> bool" where
  "has obj k \<longleftrightarrow> get_prop obj k \<noteq> JUndefined"

text \<open>\<open>if (obj[k] !== undefined) push(parse(obj[k]))\<close>, the same guarded by \<open>asObject(obj[k]) !== null\<close>, and the
  loop over an array.\<close>

definition one :: "mysql_mode \<Rightarrow> (jsstring \<times> jsval) list \<Rightarrow> jsstring \<Rightarrow> (mysql_mode \<times> jsval) list" where
  "one md obj k = (if has obj k then [(md, get_prop obj k)] else [])"

definition one_object :: "mysql_mode \<Rightarrow> (jsstring \<times> jsval) list \<Rightarrow> jsstring \<Rightarrow> (mysql_mode \<times> jsval) list" where
  "one_object md obj k = (if asObject (get_prop obj k) \<noteq> None then [(md, get_prop obj k)] else [])"

definition each :: "(jsstring \<times> jsval) list \<Rightarrow> jsstring \<Rightarrow> (mysql_mode \<times> jsval) list" where
  "each obj k = map (\<lambda>item. (QueryBlockMode, item)) (array_of (get_prop obj k))"

definition parseMariadbFilesort_calls :: "jsval \<Rightarrow> (mysql_mode \<times> jsval) list" where
  "parseMariadbFilesort_calls v =
     (let filesort = object_of v in
      one TemporaryTableMode filesort ''temporary_table''
      @ each filesort ''nested_loop''
      @ one QueryBlockMode filesort ''ordering_operation''
      @ (if has filesort ''table'' \<and> \<not> has filesort ''nested_loop'' \<and> \<not> has filesort ''temporary_table''
         then [(QueryBlockMode, v)] else []))"

definition parseMariadbTemporaryTable_calls :: "jsval \<Rightarrow> (mysql_mode \<times> jsval) list" where
  "parseMariadbTemporaryTable_calls v =
     (let tmpTbl = object_of v in each tmpTbl ''nested_loop'' @ one FilesortMode tmpTbl ''filesort'')"

definition parseMariadbSubqueryCache_calls :: "jsval \<Rightarrow> (mysql_mode \<times> jsval) list" where
  "parseMariadbSubqueryCache_calls v = one QueryBlockMode (object_of v) ''query_block''"

definition parseMariadbWrapper_calls :: "jsval \<Rightarrow> (mysql_mode \<times> jsval) list" where
  "parseMariadbWrapper_calls v =
     (let obj = object_of v in
      (if has obj ''table'' then [(QueryBlockMode, v)] else [])
      @ each obj ''nested_loop''
      @ one_object FilesortMode obj ''filesort''
      @ one TemporaryTableMode obj ''temporary_table''
      @ one QueryBlockMode obj ''query_block''
      @ each obj ''query_specifications''
      @ one QueryBlockMode obj ''ordering_operation''
      @ one QueryBlockMode obj ''grouping_operation''
      @ each obj ''attached_subqueries'')"

text \<open>An item of a block's \<open>nested_loop\<close> and an entry of its \<open>subqueries\<close>.\<close>

definition nested_loop_calls :: "jsval \<Rightarrow> (mysql_mode \<times> jsval) list" where
  "nested_loop_calls rawItem =
     (let item = object_of rawItem in
      if has item ''table'' then [(QueryBlockMode, rawItem)]
      else if has item ''read_sorted_file'' then [(WrapperMode ''Read Sorted File'', get_prop item ''read_sorted_file'')]
      else if asObject (get_prop item ''filesort'') \<noteq> None then [(FilesortMode, get_prop item ''filesort'')]
      else if has item ''temporary_table'' then [(TemporaryTableMode, get_prop item ''temporary_table'')]
      else if has item ''materialized'' then [(WrapperMode ''Materialized Subquery'', get_prop item ''materialized'')]
      else if has item ''buffer_result'' then [(WrapperMode ''Buffer Result'', get_prop item ''buffer_result'')]
      else [])"

definition subquery_calls :: "jsval \<Rightarrow> (mysql_mode \<times> jsval) list" where
  "subquery_calls rawSq =
     (let sq = object_of rawSq in
      if has sq ''subquery_cache'' then [(SubqueryCacheMode, get_prop sq ''subquery_cache'')]
      else if has sq ''query_block'' \<or> has sq ''table'' then [(QueryBlockMode, rawSq)]
      else [])"

definition parseMysqlQueryBlock_calls :: "jsval \<Rightarrow> (mysql_mode \<times> jsval) list" where
  "parseMysqlQueryBlock_calls v =
     (let block = object_of v in
      concat (map nested_loop_calls (array_of (get_prop block ''nested_loop'')))
      @ one QueryBlockMode block ''ordering_operation''
      @ one QueryBlockMode block ''grouping_operation''
      @ one QueryBlockMode block ''duplicates_removal''
      @ each block ''optimized_away_subqueries''
      @ each block ''attached_subqueries''
      @ concat (map subquery_calls (array_of (get_prop block ''subqueries'')))
      @ one_object FilesortMode block ''filesort''
      @ one TemporaryTableMode block ''temporary_table''
      @ one (WrapperMode ''Materialized Subquery'') block ''materialized''
      @ one (WrapperMode ''Union Result'') block ''union_result''
      @ one (WrapperMode ''Buffer Result'') block ''buffer_result''
      @ one (WrapperMode ''Window Functions'') block ''window_functions_computation''
      @ one (WrapperMode ''Expression Cache'') block ''expression_cache''
      @ one (WrapperMode ''Read Sorted File'') block ''read_sorted_file''
      @ each block ''query_specifications'')"

fun mode_calls :: "mysql_mode \<Rightarrow> jsval \<Rightarrow> (mysql_mode \<times> jsval) list" where
  "mode_calls QueryBlockMode v = parseMysqlQueryBlock_calls v"
| "mode_calls FilesortMode v = parseMariadbFilesort_calls v"
| "mode_calls TemporaryTableMode v = parseMariadbTemporaryTable_calls v"
| "mode_calls SubqueryCacheMode v = parseMariadbSubqueryCache_calls v"
| "mode_calls (WrapperMode label) v = parseMariadbWrapper_calls v"

section \<open>The nodes\<close>

definition parseMariadbFilesort_fields :: "jsval \<Rightarrow> NodeFields \<Rightarrow> NodeFields" where
  "parseMariadbFilesort_fields v f =
     (let filesort = object_of v in
      f\<lparr>node_type := ''Filesort'', actual_rows := asNumber (get_prop filesort ''r_output_rows''),
        actual_time_ms := asNumber (get_prop filesort ''r_total_time_ms''),
        actual_loops := asLoopCount (get_prop filesort ''r_loops''),
        extra := map (\<lambda>k. (k, get_prop filesort k))
          (filter (has filesort) [''sort_key'', ''r_sort_mode'', ''r_buffer_size'', ''r_limit'', ''r_used_priority_queue''])\<rparr>)"

definition parseMariadbSubqueryCache_fields :: "jsval \<Rightarrow> NodeFields \<Rightarrow> NodeFields" where
  "parseMariadbSubqueryCache_fields v f =
     (let cache = object_of v in
      f\<lparr>node_type := ''Subquery Cache'', actual_loops := asLoopCount (get_prop cache ''r_loops''),
        extra := map (\<lambda>k. (k, get_prop cache k)) (filter (has cache) [''r_hit_ratio''])\<rparr>)"

definition parseMariadbWrapper_fields :: "jsstring \<Rightarrow> jsval \<Rightarrow> NodeFields \<Rightarrow> NodeFields" where
  "parseMariadbWrapper_fields label v f =
     (let obj = object_of v in
      f\<lparr>node_type := label, total_cost := asLooseNumber (get_prop obj ''cost''),
        actual_rows := or_null (asNumber (get_prop obj ''r_rows'')) (asNumber (get_prop obj ''r_output_rows'')),
        actual_time_ms := asNumber (get_prop obj ''r_total_time_ms''),
        actual_loops := asLoopCount (get_prop obj ''r_loops'')\<rparr>)"

text \<open>\<open>obj?.[k]\<close> and \<open>a ?? b\<close> on raw values.\<close>

definition opt_prop :: "(jsstring \<times> jsval) list option \<Rightarrow> jsstring \<Rightarrow> jsval" where
  "opt_prop obj k = (case obj of Some kvs \<Rightarrow> get_prop kvs k | None \<Rightarrow> JUndefined)"

definition js_coalesce :: "jsval \<Rightarrow> jsval \<Rightarrow> jsval" where
  "js_coalesce a b = (if a = JUndefined \<or> a = JNull then b else a)"

definition block_node_type :: "(jsstring \<times> jsval) list \<Rightarrow> jsstring" where
  "block_node_type block =
     (if get_prop block ''using_filesort'' = JBool True then ''Filesort''
      else if has block ''grouping_operation'' then ''Group''
      else if has block ''duplicates_removal'' then ''Duplicate Removal''
      else if has block ''having_condition'' then ''Having Filter''
      else if has block ''window_functions_computation'' then ''Window Functions''
      else ''Query Block'')"

definition block_known_keys :: "jsstring list" where
  "block_known_keys = [''access_type'', ''table_name'', ''rows_examined_per_scan'', ''rows'', ''cost_info'',
     ''attached_condition'', ''key'', ''possible_keys'', ''used_key_parts'']"

definition block_extra :: "(jsstring \<times> jsval) list option \<Rightarrow> (jsstring \<times> jsval) list" where
  "block_extra tbl =
     (case tbl of
        None \<Rightarrow> []
      | Some table \<Rightarrow>
          (let ex = filter (\<lambda>kv. fst kv \<notin> set block_known_keys) table in
           case asString (get_prop table ''key'') of Some k \<Rightarrow> set_prop ex (''key'', JStr k) | None \<Rightarrow> ex))"

definition block_time :: "(jsstring \<times> jsval) list option \<Rightarrow> (jsstring \<times> jsval) list \<Rightarrow> jsnumber option" where
  "block_time tbl block =
     (let fromTable =
        (case tbl of
           None \<Rightarrow> None
         | Some table \<Rightarrow>
             (case asNumber (get_prop table ''r_total_time_ms'') of
                Some x \<Rightarrow> Some x
              | None \<Rightarrow>
                  (case asNumber (get_prop table ''r_table_time_ms'') of
                     None \<Rightarrow> None
                   | Some tableMs \<Rightarrow>
                       (case asNumber (get_prop table ''r_other_time_ms'') of
                          Some otherMs \<Rightarrow> Some (tableMs + otherMs)
                        | None \<Rightarrow> Some tableMs))))
      in or_null fromTable (asNumber (get_prop block ''r_total_time_ms'')))"

definition parseMysqlQueryBlock_fields :: "jsval \<Rightarrow> NodeFields \<Rightarrow> NodeFields" where
  "parseMysqlQueryBlock_fields v f =
     (let block = object_of v; tbl = asObject (get_prop block ''table'');
          common = f\<lparr>extra := block_extra tbl,
            index_condition := asString (opt_prop tbl ''key''),
            actual_time_ms := block_time tbl block,
            actual_rows := or_null (asNumber (opt_prop tbl ''r_rows'')) (asNumber (get_prop block ''r_rows'')),
            actual_loops := or_null (asLoopCount (opt_prop tbl ''r_loops'')) (asLoopCount (get_prop block ''r_loops''))\<rparr>
      in case tbl of
           Some table \<Rightarrow>
             (let access = (case asString (get_prop table ''access_type'') of Some a \<Rightarrow> a | None \<Rightarrow> ''ALL'');
                  costInfo = asObject (get_prop table ''cost_info'');
                  startupCost = asLooseNumber (opt_prop costInfo ''read_cost'')
              in common\<lparr>node_type := access_type_name access,
                   relation := asString (get_prop table ''table_name''),
                   plan_rows := or_null (asNumber (get_prop table ''rows_examined_per_scan''))
                     (asNumber (get_prop table ''rows'')),
                   startup_cost := startupCost,
                   total_cost := or_null (asLooseNumber (opt_prop costInfo ''prefix_cost''))
                     (or_null startupCost (asLooseNumber (get_prop table ''cost''))),
                   filter_text := asString (get_prop table ''attached_condition'')\<rparr>)
         | None \<Rightarrow>
             (let costInfo = asObject (get_prop block ''cost_info'')
              in common\<lparr>node_type := block_node_type block,
                   total_cost := or_null
                     (asLooseNumber (js_coalesce (opt_prop costInfo ''query_cost'')
                        (js_coalesce (opt_prop costInfo ''sort_cost'') (opt_prop costInfo ''prefix_cost''))))
                     (asLooseNumber (get_prop block ''cost'')),
                   filter_text := asString (get_prop block ''having_condition'')\<rparr>))"

fun mode_fields :: "mysql_mode \<Rightarrow> jsval \<Rightarrow> NodeFields \<Rightarrow> NodeFields" where
  "mode_fields QueryBlockMode v = parseMysqlQueryBlock_fields v"
| "mode_fields FilesortMode v = parseMariadbFilesort_fields v"
| "mode_fields TemporaryTableMode v = (\<lambda>f. f\<lparr>node_type := ''Temporary Table''\<rparr>)"
| "mode_fields SubqueryCacheMode v = parseMariadbSubqueryCache_fields v"
| "mode_fields (WrapperMode label) v = parseMariadbWrapper_fields label v"

text \<open>Every call goes to a smaller value, or from another mode to the block mode on the same value.\<close>

definition mode_rank :: "mysql_mode \<Rightarrow> nat" where
  "mode_rank md = (if md = QueryBlockMode then 0 else 1)"

definition smaller_call :: "mysql_mode \<Rightarrow> jsval \<Rightarrow> mysql_mode \<times> jsval \<Rightarrow> bool" where
  "smaller_call md v c \<longleftrightarrow>
     size (snd c) < size v \<or> (size (snd c) = size v \<and> mode_rank (fst c) < mode_rank md)"

lemma size_prop: "get_prop (object_of v) k \<noteq> JUndefined \<Longrightarrow> size (get_prop (object_of v) k) < size v"
  using size_get_prop [of "object_of v" k] by (cases v) (auto simp: object_of_def get_prop_def)

lemma smaller_one: "c \<in> set (one md (object_of v) k) \<Longrightarrow> size (snd c) < size v"
  by (auto simp: one_def has_def size_prop split: if_splits)

lemma smaller_one_object: "c \<in> set (one_object md (object_of v) k) \<Longrightarrow> size (snd c) < size v"
  by (auto simp: one_object_def intro!: size_prop split: if_splits)

lemma smaller_each: "c \<in> set (each (object_of v) k) \<Longrightarrow> size (snd c) < size v"
  by (auto simp: each_def size_array_prop)

lemma smaller_nested:
  "c \<in> set (nested_loop_calls item) \<Longrightarrow> size (snd c) \<le> size item"
  "c \<in> set (subquery_calls item) \<Longrightarrow> size (snd c) \<le> size item"
  by (auto simp: nested_loop_calls_def subquery_calls_def Let_def has_def less_imp_le [OF size_prop]
      split: if_splits intro!: less_imp_le [OF size_prop])

lemma smaller_nested_in:
  "c \<in> set (concat (map nested_loop_calls (array_of (get_prop (object_of v) k)))) \<Longrightarrow> size (snd c) < size v"
  "c \<in> set (concat (map subquery_calls (array_of (get_prop (object_of v) k)))) \<Longrightarrow> size (snd c) < size v"
  by (auto dest!: smaller_nested size_array_prop)

lemma mode_calls_smaller: "c \<in> set (mode_calls md v) \<Longrightarrow> smaller_call md v c"
proof (cases md)
  case QueryBlockMode
  assume "c \<in> set (mode_calls md v)"
  then have "size (snd c) < size v"
    unfolding QueryBlockMode mode_calls.simps parseMysqlQueryBlock_calls_def Let_def set_append Un_iff
    using smaller_one smaller_one_object smaller_each smaller_nested_in by blast
  then show ?thesis by (simp add: smaller_call_def)
qed (auto simp: parseMariadbFilesort_calls_def parseMariadbTemporaryTable_calls_def parseMariadbSubqueryCache_calls_def
      parseMariadbWrapper_calls_def smaller_call_def mode_rank_def Let_def split: if_splits
      dest: smaller_one smaller_one_object smaller_each)

function parse_mode :: "mysql_mode \<times> jsval \<Rightarrow> nat \<Rightarrow> ExplainNode \<times> nat" where
  "parse_mode (md, v) counter =
     (let (i, n1) = next_id counter; (cs, n2) = map_ids parse_mode (mode_calls md v) n1
      in (createExplainNode i (mode_fields md v) cs, n2))"
  by pat_completeness auto
termination
  by (relation "measures [\<lambda>(c, n). size (snd c), \<lambda>(c, n). mode_rank (fst c)]")
     (auto dest: mode_calls_smaller simp: smaller_call_def)

declare parse_mode.simps [simp del]

definition parseMysqlQueryBlock :: "jsval \<Rightarrow> nat \<Rightarrow> ExplainNode \<times> nat" where
  "parseMysqlQueryBlock v counter = parse_mode (QueryBlockMode, v) counter"

definition parseMysqlJson :: "(jsstring \<Rightarrow> jsval option) \<Rightarrow> jsstring \<Rightarrow> jsstring + ExplainPlan" where
  "parseMysqlJson json_parse raw =
     (case json_parse raw of
        None \<Rightarrow> Inl ''Failed to parse EXPLAIN JSON''
      | Some v \<Rightarrow>
          (let doc = asObject v; queryBlock = opt_prop doc ''query_block'' in
           if queryBlock = JUndefined then Inl ''EXPLAIN JSON missing 'query_block' key''
           else
             (let t = fst (parseMysqlQueryBlock queryBlock 0) in
              Inr \<lparr>plan_root = t,
                planning_time_ms = asNumber (opt_prop (asObject (opt_prop doc ''query_optimization'')) ''r_total_time_ms''),
                execution_time_ms = None, original_query = [], plan_driver = ''mysql'',
                has_analyze_data = hasAnalyzeDataRecursive t, raw_output = Some raw\<rparr>)))"

section \<open>Ids\<close>

lemma parse_mode_numbered: "parse_mode c n = (t, n') \<Longrightarrow> numbered n [t] n'"
proof (induction c n arbitrary: t n' rule: parse_mode.induct)
  case (1 md v n)
  obtain cs n2 where cs: "map_ids parse_mode (mode_calls md v) (n + 1) = (cs, n2)"
    by (cases "map_ids parse_mode (mode_calls md v) (n + 1)")
  have "numbered (n + 1) cs n2"
    by (rule map_ids_numbered [OF cs]) (rule "1.IH" [OF _ refl], simp_all add: next_id_def)
  moreover have "t = createExplainNode (node_name n) (mode_fields md v) cs" "n' = n2"
    using "1.prems" cs by (simp_all add: parse_mode.simps [of md v n] next_id_def)
  ultimately show ?case by (simp add: numbered_node)
qed

lemma parseMysqlJson_own_ids: "parseMysqlJson json_parse raw = Inr plan \<Longrightarrow> own_ids (plan_root plan)"
proof -
  assume "parseMysqlJson json_parse raw = Inr plan"
  then obtain v where "plan_root plan = fst (parse_mode (QueryBlockMode, v) 0)"
    by (auto simp: parseMysqlJson_def Let_def parseMysqlQueryBlock_def split: option.splits if_splits)
  then show ?thesis
    using parse_mode_numbered [of "(QueryBlockMode, v)" 0] by (metis numbered_own_ids prod.collapse)
qed

interpretation mysql_json: plan_source "\<lambda>raw. success (parseMysqlJson json_parse raw)" for json_parse
  by unfold_locales (auto simp: success_def intro: parseMysqlJson_own_ids split: sum.splits)

section \<open>Subqueries shown twice, and not at all\<close>

text \<open>Property (query_block_entries_are_empty): an entry of \<open>query_specifications\<close>, \<open>attached_subqueries\<close> or
  \<open>subqueries\<close> that is an object with a \<open>query_block\<close> is handed to \<open>parseMysqlQueryBlock\<close> as it is, which reads
  no such key: whatever the block holds, the entry becomes one childless \<open>Query Block\<close> node.\<close>

theorem query_block_entries_are_empty:
  "flattenExplainNodes (fst (parseMysqlQueryBlock (JObj [(''query_block'', v)]) n))
   = [createExplainNode (node_name n) (\<lambda>f. f\<lparr>node_type := ''Query Block''\<rparr>) []]"
  by (simp add: parseMysqlQueryBlock_def parse_mode.simps parseMysqlQueryBlock_calls_def object_of_def get_prop_def
      array_of_def one_def one_object_def each_def has_def next_id_def createExplainNode_def default_fields_def
      parseMysqlQueryBlock_fields_def block_extra_def opt_prop_def js_coalesce_def block_time_def block_node_type_def
      or_null_def asLooseNumber_def asLoopCount_def)

text \<open>Property (materialized_subquery_shown_twice): a materialised subquery that holds a table and an attached
  subquery. \<open>parseMariadbWrapper\<close> hands the object to \<open>parseMysqlQueryBlock\<close> because of the table, which reads
  the attached subqueries, and then reads them again itself: the one inner table scan is two nodes.\<close>

definition materialized_sample :: jsval where
  "materialized_sample = JObj [(''materialized'', JObj
     [(''table'', JObj [(''table_name'', JStr ''outer_t''), (''access_type'', JStr ''ALL'')]),
      (''attached_subqueries'', JArr [JObj [(''table'', JObj [(''table_name'', JStr ''inner_t'')])]])])]"

theorem materialized_subquery_shown_twice:
  "map (\<lambda>t. (node_type (scalars t), relation (scalars t)))
     (flattenExplainNodes (fst (parseMysqlQueryBlock materialized_sample 0)))
   = [(''Query Block'', None), (''Materialized Subquery'', None),
      (''Full Table Scan'', Some ''outer_t''), (''Full Table Scan'', Some ''inner_t''),
      (''Full Table Scan'', Some ''inner_t'')]"
  by code_simp

end
