(* ===== verification/PlanMysqlText.thy ===== *)
theory PlanMysqlText
  imports PlanMysql ClipboardText
begin

text \<open>
  The text form of MySQL plans and the tabular rows (\<open>packages/explain/src/parsers/mysql.ts\<close>). The lines of
  EXPLAIN ANALYZE are parsed first, then \<open>buildAnalyzeTree\<close> nests them by depth; it is shown to build the same
  tree as the indentation specification that the PostgreSQL parser meets.
\<close>

record AnalyzeParsedLine =
  al_depth :: nat
  al_node_type :: jsstring
  al_relation :: "jsstring option"
  al_filter :: "jsstring option"
  al_index_condition :: "jsstring option"
  al_join_type :: "jsstring option"
  est_cost :: "jsnumber option"
  est_rows :: "jsnumber option"
  al_time_ms :: "jsnumber option"
  al_rows :: "jsnumber option"
  al_loops :: "jsnumber option"

section \<open>One line\<close>

text \<open>The text from \<open>open\<close> on, without its first character, up to the next closing parenthesis.\<close>

definition section_of :: "jsstring \<Rightarrow> jsstring \<Rightarrow> jsstring option" where
  "section_of s opening =
     (case index_of s opening of
        None \<Rightarrow> None
      | Some idx \<Rightarrow>
          (let sec = drop idx s in
           case index_of sec '')'' of None \<Rightarrow> None | Some e \<Rightarrow> Some (slice sec 1 e)))"

definition estimated_part :: "jsnumber option \<times> jsnumber option \<Rightarrow> jsstring \<Rightarrow> jsnumber option \<times> jsnumber option" where
  "estimated_part st part =
     (if prefix ''cost='' part then (parseAnalyzeNumber (drop 5 part), snd st)
      else if prefix ''rows='' part then (fst st, parseAnalyzeNumber (drop 5 part))
      else st)"

definition parseAnalyzeEstimated :: "jsstring \<Rightarrow> jsnumber option \<times> jsnumber option" where
  "parseAnalyzeEstimated s =
     (case section_of s ''(cost='' of
        None \<Rightarrow> (None, None)
      | Some inn \<Rightarrow> foldl estimated_part (None, None) (split_spaces inn))"

definition analyze_part :: "jsnumber option \<times> jsnumber option \<times> jsnumber option \<Rightarrow> jsstring
    \<Rightarrow> jsnumber option \<times> jsnumber option \<times> jsnumber option" where
  "analyze_part st part =
     (case st of (perLoop, rows, loops) \<Rightarrow>
        if prefix ''time='' part then
          (let val = drop 5 part in
           (parseAnalyzeNumber (case index_of val ''..'' of None \<Rightarrow> val | Some p \<Rightarrow> drop (p + 2) val), rows, loops))
        else if prefix ''rows='' part then (perLoop, parseAnalyzeNumber (drop 5 part), loops)
        else if prefix ''loops='' part then (perLoop, rows, parseAnalyzeNumber (drop 6 part))
        else st)"

definition parseAnalyzeActual :: "jsstring \<Rightarrow> jsnumber option \<times> jsnumber option \<times> jsnumber option" where
  "parseAnalyzeActual s =
     (case section_of s ''(actual time='' of
        None \<Rightarrow> (None, None, None)
      | Some inn \<Rightarrow>
          (case foldl analyze_part (None, None, None) (split_spaces inn) of
             (perLoop, rows, loops) \<Rightarrow>
               ((case (perLoop, loops) of (Some t, Some l) \<Rightarrow> Some (t * l) | _ \<Rightarrow> perLoop), rows, loops)))"

text \<open>The name after a word: up to a space or an opening parenthesis, nothing when it is empty.\<close>

definition name_at :: "jsstring \<Rightarrow> jsstring option" where
  "name_at after =
     (let name = trim (takeWhile (\<lambda>c. c \<noteq> SP \<and> c \<noteq> CHR ''('') after) in if name = [] then None else Some name)"

definition extractOnRelation :: "jsstring \<Rightarrow> jsstring option" where
  "extractOnRelation desc =
     (case index_of desc '' on '' of None \<Rightarrow> None | Some p \<Rightarrow> name_at (drop (p + 4) desc))"

definition extractUsingIndex :: "jsstring \<Rightarrow> jsstring option" where
  "extractUsingIndex desc =
     (case index_of (lower desc) '' using '' of None \<Rightarrow> None | Some p \<Rightarrow> name_at (drop (p + 7) desc))"

text \<open>Node type, filter and join type of a description.\<close>

definition description_type :: "jsstring \<Rightarrow> jsstring \<times> jsstring option \<times> jsstring option" where
  "description_type desc =
     (let l = lower desc in
      if prefix ''table scan'' l then (''Full Table Scan'', None, None)
      else if prefix ''covering index scan'' l then (''Index Only Scan'', None, None)
      else if prefix ''index range scan'' l \<or> prefix ''range scan'' l then (''Range Scan'', None, None)
      else if prefix ''index scan'' l then (''Index Scan'', None, None)
      else if prefix ''single-row index lookup'' l then (''Unique Index Lookup'', None, None)
      else if prefix ''index lookup'' l \<or> prefix ''multi-range index lookup'' l then (''Index Lookup'', None, None)
      else if prefix ''constant row'' l then (''Const Lookup'', None, None)
      else if prefix ''nested loop'' l then
        (''Nested Loop'', None,
         if sublist ''inner'' l then Some ''Inner''
         else if sublist ''left'' l then Some ''Left''
         else if sublist ''semijoin'' l then Some ''Semi''
         else if sublist ''antijoin'' l \<or> sublist ''anti'' l then Some ''Anti''
         else None)
      else if sublist ''hash join'' l then
        (''Hash Join'', None, Some (if sublist ''left'' l then ''Left'' else ''Inner''))
      else if prefix ''filter:'' l then
        (let filt = trim (drop 7 desc) in (''Filter'', if filt = [] then None else Some filt, None))
      else if prefix ''sort:'' l \<or> prefix ''sort row'' l then (''Sort'', None, None)
      else if prefix ''limit:'' l \<or> prefix ''limit '' l then (''Limit'', None, None)
      else if prefix ''group aggregate'' l \<or> prefix ''aggregate'' l then (''Aggregate'', None, None)
      else if prefix ''temporary table'' l \<or> prefix ''materialize'' l then (''Materialize'', None, None)
      else if prefix ''stream results'' l \<or> prefix ''stream'' l then (''Stream'', None, None)
      else if prefix ''window aggregate'' l \<or> prefix ''window'' l then (''Window'', None, None)
      else (desc, None, None))"

definition mapAnalyzeDescription ::
  "jsstring \<Rightarrow> jsstring \<times> jsstring option \<times> jsstring option \<times> jsstring option \<times> jsstring option" where
  "mapAnalyzeDescription desc =
     (case description_type desc of
        (nodeType, filt, joinType) \<Rightarrow>
          (nodeType, extractOnRelation desc, filt, extractUsingIndex desc, joinType))"

definition analyze_line :: "jsstring \<Rightarrow> AnalyzeParsedLine option" where
  "analyze_line line =
     (let trimmed = trim_end line; content = trim_start trimmed in
      if trimmed = [] \<or> \<not> prefix ''-> '' content then None
      else
        (let depth = (length trimmed - length content) div 4;
             descRest = drop 3 content;
             (description, metrics) =
               (case index_of descRest ''  ('' of
                  None \<Rightarrow> (descRest, []) | Some e \<Rightarrow> (take e descRest, drop e descRest));
             (estCost, estRows) = parseAnalyzeEstimated metrics;
             (actualTimeMs, actualRows, actualLoops) = parseAnalyzeActual metrics;
             (nodeType, rel, filt, indexCondition, joinType) = mapAnalyzeDescription description
         in Some \<lparr>al_depth = depth, al_node_type = nodeType, al_relation = rel, al_filter = filt,
                  al_index_condition = indexCondition, al_join_type = joinType, est_cost = estCost,
                  est_rows = estRows, al_time_ms = actualTimeMs, al_rows = actualRows, al_loops = actualLoops\<rparr>))"

section \<open>The tree\<close>

definition line_fields :: "AnalyzeParsedLine \<Rightarrow> NodeFields \<Rightarrow> NodeFields" where
  "line_fields l f =
     f\<lparr>node_type := al_node_type l, relation := al_relation l, total_cost := est_cost l, plan_rows := est_rows l,
       actual_rows := al_rows l, actual_time_ms := al_time_ms l, actual_loops := al_loops l,
       filter_text := al_filter l, index_condition := al_index_condition l, join_type := al_join_type l\<rparr>"

text \<open>\<open>start\<close> and the index returned are the lines from there on.\<close>

function buildAnalyzeTree ::
  "AnalyzeParsedLine list \<Rightarrow> int \<Rightarrow> nat \<Rightarrow> ExplainNode list \<times> AnalyzeParsedLine list \<times> nat" where
  "buildAnalyzeTree [] parentDepth counter = ([], [], counter)"
| "buildAnalyzeTree (l # ls) parentDepth counter =
     (if int (al_depth l) \<le> parentDepth then ([], l # ls, counter)
      else
        (let (i, n1) = next_id counter;
             (grandchildren, rest, n2) = buildAnalyzeTree ls (int (al_depth l)) n1;
             (siblings, rest', n3) = buildAnalyzeTree rest parentDepth n2
         in (createExplainNode i (line_fields l) grandchildren # siblings, rest', n3)))"
  by pat_completeness auto

lemma buildAnalyzeTree_shorter:
  "buildAnalyzeTree_dom (ls, pd, n) \<Longrightarrow> length (fst (snd (buildAnalyzeTree ls pd n))) \<le> length ls"
  by (induction ls pd n rule: buildAnalyzeTree.pinduct)
     (auto simp: buildAnalyzeTree.psimps next_id_def Let_def split: prod.splits, metis le_SucI le_trans)

termination buildAnalyzeTree
  by (relation "measure (\<lambda>(ls, pd, n). length ls)")
     (auto dest: buildAnalyzeTree_shorter, metis buildAnalyzeTree_shorter fst_conv snd_conv le_imp_less_Suc)

definition parseMysqlAnalyzeText :: "jsstring \<Rightarrow> nat \<Rightarrow> ExplainNode" where
  "parseMysqlAnalyzeText raw counter =
     (let parsedLines = List.map_filter analyze_line (split_on NL raw) in
      if parsedLines = [] then createExplainNode (fst (next_id counter)) (\<lambda>f. f\<lparr>node_type := ''Query''\<rparr>) []
      else
        (case buildAnalyzeTree parsedLines (- 1) counter of
           (roots, _, n) \<Rightarrow>
             (case roots of
                [t] \<Rightarrow> t
              | _ \<Rightarrow> createExplainNode (fst (next_id n)) (\<lambda>f. f\<lparr>node_type := ''Query''\<rparr>) roots)))"

definition parseMysqlText :: "jsstring \<Rightarrow> jsstring + ExplainPlan" where
  "parseMysqlText raw =
     (if trim raw = [] then Inl ''EXPLAIN ANALYZE returned no output''
      else
        (let t = parseMysqlAnalyzeText raw 0 in
         Inr \<lparr>plan_root = t, planning_time_ms = None, execution_time_ms = None, original_query = [],
           plan_driver = ''mysql'', has_analyze_data = hasAnalyzeDataRecursive t, raw_output = Some raw\<rparr>))"

section \<open>Tabular rows\<close>

record MysqlTabularRow =
  row_select_type :: jsstring
  row_table :: "jsstring option"
  row_access_type :: "jsstring option"
  row_possible_keys :: "jsstring option"
  row_key :: "jsstring option"
  row_rows :: "(int \<times> nat) option" \<comment> \<open>a decimal\<close>
  row_filtered :: "(int \<times> nat) option"
  row_extra :: "jsstring option"

definition or_text :: "jsstring option \<Rightarrow> jsstring \<Rightarrow> jsstring" where
  "or_text a b = (case a of Some t \<Rightarrow> t | None \<Rightarrow> b)"

definition row_line :: "MysqlTabularRow \<Rightarrow> jsstring" where
  "row_line row = join_with [TAB]
     [row_select_type row, or_text (row_table row) [], or_text (row_access_type row) [], or_text (row_key row) ''-'',
      (case row_rows row of Some (m, d) \<Rightarrow> num_str m d | None \<Rightarrow> ''0''), or_text (row_extra row) []]"

definition row_fields :: "MysqlTabularRow \<Rightarrow> NodeFields \<Rightarrow> NodeFields" where
  "row_fields row f =
     (let accessType = or_text (row_access_type row) [] in
      f\<lparr>node_type := (if accessType = [] then ''Unknown'' else access_type_name accessType),
        relation := (if row_table row = Some [] then None else row_table row),
        plan_rows := map_option (\<lambda>(m, d). decimal_value m d) (row_rows row),
        filter_text := row_extra row, index_condition := row_key row,
        extra := [(''select_type'', JStr (row_select_type row))]
          @ (case row_possible_keys row of Some k \<Rightarrow> [(''possible_keys'', JStr k)] | None \<Rightarrow> [])
          @ (case row_filtered row of Some (m, d) \<Rightarrow> [(''filtered'', JNum m d)] | None \<Rightarrow> [])
          @ (case row_extra row of Some e \<Rightarrow> [(''extra'', JStr e)] | None \<Rightarrow> [])\<rparr>)"

definition parseMysqlTabularRows :: "MysqlTabularRow list \<Rightarrow> ExplainPlan" where
  "parseMysqlTabularRows rows =
     (let (rootId, n1) = next_id 0;
          (cs, _) = map_ids (\<lambda>row n. case next_id n of (i, n') \<Rightarrow> (createExplainNode i (row_fields row) [], n')) rows n1
      in \<lparr>plan_root = createExplainNode rootId (\<lambda>f. f\<lparr>node_type := ''Query''\<rparr>) cs,
          planning_time_ms = None, execution_time_ms = None, original_query = [], plan_driver = ''mysql'',
          has_analyze_data = False, raw_output = Some (join_with [NL] (map row_line rows))\<rparr>)"

section \<open>The lines nest by depth\<close>

fun line_items :: "AnalyzeParsedLine list \<Rightarrow> nat \<Rightarrow> plan_item list" where
  "line_items [] n = []"
| "line_items (l # ls) n = (al_depth l, node_name n, line_fields l default_fields) # line_items ls (Suc n)"

lemma line_items_append: "line_items (ls @ ms) n = line_items ls n @ line_items ms (n + length ls)"
  by (induction ls arbitrary: n) simp_all

lemma line_items_all: "list_all (\<lambda>x. P (fst x)) (line_items ls n) = list_all (\<lambda>l. P (al_depth l)) ls"
  by (induction ls arbitrary: n) simp_all

lemma line_items_Nil [simp]: "line_items ls n = [] \<longleftrightarrow> ls = []"
  by (cases ls) simp_all

lemma length_line_items [simp]: "length (line_items ls n) = length ls"
  by (induction ls arbitrary: n) simp_all

lemma line_items_numbered: "map (fst \<circ> snd) (line_items ls n) = map node_name [n..<n + length ls]"
  by (induction ls arbitrary: n) (simp_all add: upt_conv_Cons del: upt_Suc)

lemma line_items_takeWhile: "takeWhile (\<lambda>x. P (fst x)) (line_items ls n) = line_items (takeWhile (\<lambda>l. P (al_depth l)) ls) n"
  by (induction ls arbitrary: n) simp_all

lemma buildAnalyzeTree_forest:
  "buildAnalyzeTree ls pd n =
     (indent_forest (line_items (takeWhile (\<lambda>l. pd < int (al_depth l)) ls) n),
      dropWhile (\<lambda>l. pd < int (al_depth l)) ls,
      n + length (takeWhile (\<lambda>l. pd < int (al_depth l)) ls))"
proof (induction "length ls" arbitrary: ls pd n rule: less_induct)
  case less
  show ?case
  proof (cases ls)
    case (Cons l ms)
    show ?thesis
    proof (cases "int (al_depth l) \<le> pd")
    case False
    define d where "d = al_depth l"
    define A where "A = takeWhile (\<lambda>l'. d < al_depth l') ms"
    define B where "B = dropWhile (\<lambda>l'. d < al_depth l') ms"
    define C where "C = takeWhile (\<lambda>l. pd < int (al_depth l)) B"
    have ms: "ms = A @ B" by (simp add: A_def B_def)
    have A: "list_all (\<lambda>l'. d < al_depth l') A" using set_takeWhileD by (fastforce simp: A_def list_all_iff)
    have "pd < int (al_depth l')" if "l' \<in> set A" for l'
      using A that False unfolding d_def list_all_iff by fastforce
    then have AC: "takeWhile (\<lambda>l. pd < int (al_depth l)) ms = A @ C"
        "dropWhile (\<lambda>l. pd < int (al_depth l)) ms = dropWhile (\<lambda>l. pd < int (al_depth l)) B"
      unfolding ms C_def by (rule takeWhile_append2 dropWhile_append2, simp)+
    have one: "buildAnalyzeTree ms (int d) (Suc n) = (indent_forest (line_items A (Suc n)), B, Suc n + length A)"
      using less.hyps [of ms "int d" "Suc n"] Cons by (simp add: A_def B_def)
    have two: "buildAnalyzeTree B pd (Suc n + length A) =
        (indent_forest (line_items C (Suc n + length A)), dropWhile (\<lambda>l. pd < int (al_depth l)) B,
         Suc n + length A + length C)"
      using less.hyps [of B pd "Suc n + length A"] Cons ms by (simp add: C_def)
    have "B = [] \<or> al_depth (hd B) \<le> d"
      using hd_dropWhile [of "\<lambda>l'. d < al_depth l'" ms] by (fastforce simp: B_def)
    then have "line_items C (Suc n + length A) = [] \<or> fst (hd (line_items C (Suc n + length A))) \<le> d"
      by (cases B) (auto simp: C_def)
    then have "indent_forest ((d, node_name n, line_fields l default_fields) # line_items A (Suc n) @ line_items C (Suc n + length A)) =
        ExplainNode (node_name n) (line_fields l default_fields) (indent_forest (line_items A (Suc n)))
          # indent_forest (line_items C (Suc n + length A))"
      using A by (intro indent_forest_split) (simp_all add: line_items_all)
    moreover have "buildAnalyzeTree (l # ms) pd n =
        (createExplainNode (node_name n) (line_fields l) (indent_forest (line_items A (Suc n)))
           # indent_forest (line_items C (Suc n + length A)),
         dropWhile (\<lambda>l. pd < int (al_depth l)) B, Suc n + length A + length C)"
      using False by (simp add: next_id_def one [unfolded d_def] two [simplified])
    moreover have "takeWhile (\<lambda>l. pd < int (al_depth l)) (l # ms) = l # A @ C"
      "dropWhile (\<lambda>l. pd < int (al_depth l)) (l # ms) = dropWhile (\<lambda>l. pd < int (al_depth l)) B"
      using False AC by simp_all
    ultimately show ?thesis unfolding Cons by (simp add: line_items_append createExplainNode_def d_def)
    qed (simp add: Cons)
  qed simp
qed

definition analyze_items :: "jsstring \<Rightarrow> plan_item list" where
  "analyze_items raw = line_items (List.map_filter analyze_line (split_on NL raw)) 0"

definition query_fields :: NodeFields where
  "query_fields = default_fields\<lparr>node_type := ''Query''\<rparr>"

lemma parseMysqlAnalyzeText_eq:
  "parseMysqlAnalyzeText raw 0 =
     (case indent_forest (analyze_items raw) of
        [t] \<Rightarrow> t
      | ts \<Rightarrow> ExplainNode (node_name (length (analyze_items raw))) query_fields ts)"
proof -
  define ls where "ls = List.map_filter analyze_line (split_on NL raw)"
  have all: "takeWhile (\<lambda>l. True) ls = ls" by (simp add: takeWhile_eq_all_conv)
  show ?thesis
    by (cases "ls = []")
       (auto simp: parseMysqlAnalyzeText_def analyze_items_def ls_def [symmetric] buildAnalyzeTree_forest all next_id_def
          query_fields_def createExplainNode_def split: list.split)
qed

lemma parseMysqlAnalyzeText_own_ids: "own_ids (parseMysqlAnalyzeText raw 0)"
proof -
  define ts where "ts = indent_forest (analyze_items raw)"
  have n: "numbered 0 ts (length (analyze_items raw))"
    unfolding ts_def by (rule indent_forest_numbered) (simp_all add: analyze_items_def line_items_numbered)
  have "own_ids (ExplainNode (node_name (length (analyze_items raw))) query_fields ts)"
    using n numbered_distinct [OF n] by (auto simp: own_ids_def numbered_def)
  moreover have "own_ids t" if "ts = [t]" for t using n that numbered_own_ids by auto
  ultimately show ?thesis
    unfolding parseMysqlAnalyzeText_eq ts_def [symmetric] by (cases ts rule: remdups_adj.cases) auto
qed

interpretation mysql_text: plan_source "\<lambda>raw. success (parseMysqlText raw)"
  by unfold_locales (auto simp: parseMysqlText_def Let_def parseMysqlAnalyzeText_own_ids split: if_splits)

lemma parseMysqlTabularRows_own_ids: "own_ids (plan_root (parseMysqlTabularRows rows))"
proof -
  define leaf where "leaf = (\<lambda>row n. case next_id n of (i, n') \<Rightarrow> (createExplainNode i (row_fields row) [], n'))"
  obtain cs n' where cs: "map_ids leaf rows 1 = (cs, n')" by (cases "map_ids leaf rows 1")
  have "numbered 1 cs n'"
    by (rule map_ids_numbered [OF cs]) (auto simp: leaf_def next_id_def intro: numbered_node)
  then have "numbered 0 [createExplainNode (node_name 0) (\<lambda>f. f\<lparr>node_type := ''Query''\<rparr>) cs] n'"
    by (simp add: numbered_node)
  moreover have "plan_root (parseMysqlTabularRows rows) = createExplainNode (node_name 0) (\<lambda>f. f\<lparr>node_type := ''Query''\<rparr>) cs"
    using cs by (simp add: parseMysqlTabularRows_def next_id_def leaf_def)
  ultimately show ?thesis by (metis numbered_own_ids)
qed

interpretation mysql_rows: plan_source "\<lambda>rows. Some (parseMysqlTabularRows rows)"
  by unfold_locales (auto simp: parseMysqlTabularRows_own_ids)

section \<open>Properties\<close>

text \<open>C34 (mysql_text_follows_indentation): the tree of a MySQL text plan is the one its indentation spells, by the
  same specification as PostgreSQL's; a plan with one top-level line is rooted there, otherwise the top-level
  lines are children of a \<open>Query\<close> node.\<close>

theorem mysql_text_follows_indentation:
  "case parseMysqlText raw of
     Inl e \<Rightarrow> trim raw = []
   | Inr plan \<Rightarrow>
       plan_root plan =
         (case indent_forest (analyze_items raw) of
            [t] \<Rightarrow> t
          | ts \<Rightarrow> ExplainNode (node_name (length (analyze_items raw))) query_fields ts)"
  by (simp add: parseMysqlText_def Let_def parseMysqlAnalyzeText_eq)

section \<open>Loops counted twice\<close>

definition loops_sample :: jsstring where
  "loops_sample = ''-> Table scan on t  (cost=1 rows=3) (actual time=0.1..0.2 rows=3 loops=100)''"

lemmas number_eval = number_of_text_def trim_def lower_def lower_char_def code_of_def is_space_def decimal_literal_def
  is_digit_def radix_value_def digit_value_def finite_double_def

lemma loops_numbers:
  "parseAnalyzeNumber ''0.2'' = Some (1/5)" "parseAnalyzeNumber ''3'' = Some 3"
  "parseAnalyzeNumber ''100'' = Some 100" "parseAnalyzeNumber ''1'' = Some 1"
  by (simp_all add: parseAnalyzeNumber_def number_eval)

definition loops_metrics :: jsstring where
  "loops_metrics = ''  (cost=1 rows=3) (actual time=0.1..0.2 rows=3 loops=100)''"

lemma loops_words:
  "section_of loops_metrics ''(actual time='' = Some ''actual time=0.1..0.2 rows=3 loops=100''"
  "section_of loops_metrics ''(cost='' = Some ''cost=1 rows=3''"
  "split_spaces ''actual time=0.1..0.2 rows=3 loops=100'' = [''actual'', ''time=0.1..0.2'', ''rows=3'', ''loops=100'']"
  "split_spaces ''cost=1 rows=3'' = [''cost=1'', ''rows=3'']"
  by code_simp+

lemma loops_line:
  "trim_end loops_sample = loops_sample" "trim_start loops_sample = loops_sample"
  "drop 3 loops_sample = ''Table scan on t'' @ loops_metrics"
  "index_of (''Table scan on t'' @ loops_metrics) ''  ('' = Some 15"
  "mapAnalyzeDescription ''Table scan on t'' = (''Full Table Scan'', Some ''t'', None, None, None)"
  "split_on NL loops_sample = [loops_sample]"
  "prefix ''-> '' loops_sample" "loops_sample \<noteq> []" "trim loops_sample \<noteq> []"
  by code_simp+

lemma loops_parsed: "parseAnalyzeActual loops_metrics = (Some 20, Some 3, Some 100)"
  "parseAnalyzeEstimated loops_metrics = (Some 1, Some 3)"
  by (simp_all add: parseAnalyzeActual_def parseAnalyzeEstimated_def loops_words analyze_part_def estimated_part_def loops_numbers)

text \<open>Property (mysql_loops_counted_twice): the time of a line is per loop; \<open>parseAnalyzeActual\<close> already multiplies it
  with the loops, and \<open>computeExplainMetrics\<close>, which expects PostgreSQL's per-loop times, multiplies again: 0.2 ms
  over 100 loops are 20 ms, and the views show 2000 ms.\<close>

theorem mysql_loops_counted_twice:
  "case parseMysqlText loops_sample of
     Inl e \<Rightarrow> False
   | Inr plan \<Rightarrow>
       actual_time_ms (scalars (plan_root plan)) = Some 20
       \<and> actual_loops (scalars (plan_root plan)) = Some 100
       \<and> map inclusiveTimeMs (order (computeExplainMetrics plan)) = [Some 2000]"
proof -
  define l where "l = \<lparr>al_depth = 0, al_node_type = ''Full Table Scan'', al_relation = Some ''t'', al_filter = None,
    al_index_condition = None, al_join_type = None, est_cost = Some 1, est_rows = Some (3 :: jsnumber),
    al_time_ms = Some (20 :: jsnumber), al_rows = Some (3 :: jsnumber), al_loops = Some (100 :: jsnumber)\<rparr>"
  have "analyze_line loops_sample = Some l"
    by (simp add: analyze_line_def loops_line loops_parsed Let_def l_def) (simp add: loops_metrics_def loops_parsed [unfolded loops_metrics_def] loops_line(5))
  then have items: "analyze_items loops_sample = [(0, node_name 0, line_fields l default_fields)]"
    by (simp add: analyze_items_def loops_line l_def)
  show ?thesis
    by (simp add: parseMysqlText_def loops_line parseMysqlAnalyzeText_eq items Let_def line_fields_def l_def
        computeExplainMetrics_def times_def loopCount_def)
qed

end
