(* ===== verification/PlanRegistry.thy ===== *)
theory PlanRegistry
  imports PlanSqlite PlanMysqlText
begin

text \<open>
  Which parser reads a plan (\<open>packages/explain/src/registry.ts\<close>, \<open>raw.ts\<close>, \<open>parsers/builtins.ts\<close>,
  \<open>parsers/source.ts\<close>). The registry is a map of overlays and the order of custom formats over a fixed list of
  built-in parsers. A parser's result is \<open>None\<close> when it does not return (a SQLite plan whose rows go round in
  a circle) or when a row is not what the host sends; a sniffer's \<open>None\<close> is an exception.
\<close>

type_synonym parse_result = "(jsstring + ExplainPlan) option"

record ExplainParser =
  pr_engine :: jsstring
  pr_format :: jsstring
  pr_parse :: "jsstring \<Rightarrow> parse_result"
  pr_sniff :: "(jsstring \<Rightarrow> bool option) option"

section \<open>Built-in parsers\<close>

definition parseJsonRows :: "(jsstring \<Rightarrow> jsval option) \<Rightarrow> jsstring \<Rightarrow> jsstring \<Rightarrow> jsstring + jsval list" where
  "parseJsonRows json_parse payload fmt =
     (case json_parse payload of
        None \<Rightarrow> Inl ''Failed to parse EXPLAIN rows''
      | Some v \<Rightarrow>
          (case asArray v of
             None \<Rightarrow> Inl (''EXPLAIN rows payload for '' @ [SQ] @ fmt @ [SQ] @ '' must be a JSON array'')
           | Some xs \<Rightarrow> Inr xs))"

text \<open>The rows as the host serialises them.\<close>

definition int_of :: "jsval \<Rightarrow> int option" where
  "int_of v = (case v of JNum m d \<Rightarrow> if m mod 10 ^ d = 0 then Some (m div 10 ^ d) else None | _ \<Rightarrow> None)"

definition nullable_text :: "jsval \<Rightarrow> jsstring option option" where
  "nullable_text v = (case v of JNull \<Rightarrow> Some None | JStr s \<Rightarrow> Some (Some s) | _ \<Rightarrow> None)"

definition nullable_number :: "jsval \<Rightarrow> (int \<times> nat) option option" where
  "nullable_number v = (case v of JNull \<Rightarrow> Some None | JNum m d \<Rightarrow> Some (Some (m, d)) | _ \<Rightarrow> None)"

definition eqp_row :: "jsval \<Rightarrow> SqliteEqpRow option" where
  "eqp_row v =
     (let obj = object_of v in
      case (int_of (get_prop obj ''id''), int_of (get_prop obj ''parent''), asString (get_prop obj ''detail'')) of
        (Some i, Some p, Some d) \<Rightarrow> Some \<lparr>eqp_id = i, eqp_parent = p, eqp_detail = d\<rparr>
      | _ \<Rightarrow> None)"

definition tabular_row :: "jsval \<Rightarrow> MysqlTabularRow option" where
  "tabular_row v =
     (let obj = object_of v in
      case (asString (get_prop obj ''select_type''), nullable_text (get_prop obj ''table''),
            nullable_text (get_prop obj ''access_type''), nullable_text (get_prop obj ''possible_keys''),
            nullable_text (get_prop obj ''key''), nullable_number (get_prop obj ''rows''),
            nullable_number (get_prop obj ''filtered''), nullable_text (get_prop obj ''extra'')) of
        (Some st, Some t, Some a, Some pk, Some k, Some r, Some f, Some e) \<Rightarrow>
          Some \<lparr>row_select_type = st, row_table = t, row_access_type = a, row_possible_keys = pk, row_key = k,
            row_rows = r, row_filtered = f, row_extra = e\<rparr>
      | _ \<Rightarrow> None)"

fun all_rows :: "(jsval \<Rightarrow> 'a option) \<Rightarrow> jsval list \<Rightarrow> 'a list option" where
  "all_rows row [] = Some []"
| "all_rows row (v # vs) =
     (case (row v, all_rows row vs) of (Some r, Some rs) \<Rightarrow> Some (r # rs) | _ \<Rightarrow> None)"

definition parse_tabular_payload :: "(jsstring \<Rightarrow> jsval option) \<Rightarrow> jsstring \<Rightarrow> parse_result" where
  "parse_tabular_payload json_parse payload =
     (case parseJsonRows json_parse payload ''mysql-tabular-rows'' of
        Inl e \<Rightarrow> Some (Inl e)
      | Inr vs \<Rightarrow> map_option (\<lambda>rows. Inr (parseMysqlTabularRows rows)) (all_rows tabular_row vs))"

definition parse_eqp_payload :: "(jsstring \<Rightarrow> jsval option) \<Rightarrow> jsstring \<Rightarrow> parse_result" where
  "parse_eqp_payload json_parse payload =
     (case parseJsonRows json_parse payload ''sqlite-eqp-rows'' of
        Inl e \<Rightarrow> Some (Inl e)
      | Inr vs \<Rightarrow> (case all_rows eqp_row vs of None \<Rightarrow> None | Some rows \<Rightarrow> parseSqliteEqpRows rows))"

definition builtin_parser :: "jsstring \<Rightarrow> jsstring \<Rightarrow> (jsstring \<Rightarrow> parse_result) \<Rightarrow> ExplainParser" where
  "builtin_parser engine fmt parse = \<lparr>pr_engine = engine, pr_format = fmt, pr_parse = parse, pr_sniff = None\<rparr>"

definition BUILTIN_EXPLAIN_PARSERS :: "(jsstring \<Rightarrow> jsval option) \<Rightarrow> ExplainParser list" where
  "BUILTIN_EXPLAIN_PARSERS json_parse =
     [builtin_parser ''postgres'' ''postgres-json'' (\<lambda>raw. Some (parsePostgresJson json_parse raw)),
      builtin_parser ''postgres'' ''postgres-text'' (\<lambda>raw. Some (parsePostgresText raw)),
      builtin_parser ''mysql'' ''mysql-json'' (\<lambda>raw. Some (parseMysqlJson json_parse raw)),
      builtin_parser ''mysql'' ''mysql-text'' (\<lambda>raw. Some (parseMysqlText raw)),
      builtin_parser ''mysql'' ''mysql-analyze-text'' (\<lambda>raw. Some (parseMysqlText raw)),
      builtin_parser ''mysql'' ''mysql-tabular-rows'' (parse_tabular_payload json_parse),
      builtin_parser ''sqlite'' ''sqlite-eqp-rows'' (parse_eqp_payload json_parse)]"

section \<open>The registry\<close>

record ParserRegistry =
  builtins :: "ExplainParser list"
  parserOverlays :: "jsstring \<Rightarrow> ExplainParser option"
  customFormatOrder :: "jsstring list"

definition new_registry :: "(jsstring \<Rightarrow> jsval option) \<Rightarrow> ParserRegistry" where
  "new_registry json_parse =
     \<lparr>builtins = BUILTIN_EXPLAIN_PARSERS json_parse, parserOverlays = (\<lambda>_. None), customFormatOrder = []\<rparr>"

definition by_format :: "ExplainParser list \<Rightarrow> jsstring \<Rightarrow> ExplainParser option" where
  "by_format ps = map_of (map (\<lambda>p. (pr_format p, p)) ps)"

definition getExplainParser :: "ParserRegistry \<Rightarrow> jsstring \<Rightarrow> ExplainParser option" where
  "getExplainParser r fmt =
     (case parserOverlays r fmt of Some p \<Rightarrow> Some p | None \<Rightarrow> by_format (builtins r) fmt)"

definition registerExplainParser :: "ParserRegistry \<Rightarrow> ExplainParser \<Rightarrow> jsstring + ParserRegistry" where
  "registerExplainParser r p =
     (if trim (pr_engine p) = [] \<or> trim (pr_format p) = []
      then Inl ''EXPLAIN parser registration requires non-empty engine and format strings and a parse function''
      else
        (let replacing = (getExplainParser r (pr_format p) \<noteq> None);
             r' = (if replacing then r else r\<lparr>customFormatOrder := customFormatOrder r @ [pr_format p]\<rparr>)
         in Inr (r'\<lparr>parserOverlays := (parserOverlays r')(pr_format p \<mapsto> p)\<rparr>)))"

definition unregisterExplainParser :: "ParserRegistry \<Rightarrow> jsstring \<Rightarrow> ParserRegistry" where
  "unregisterExplainParser r fmt =
     (if parserOverlays r fmt = None then r
      else
        (let r' = r\<lparr>parserOverlays := (parserOverlays r)(fmt := None)\<rparr> in
         if by_format (builtins r) fmt \<noteq> None then r'
         else r'\<lparr>customFormatOrder := remove1 fmt (customFormatOrder r')\<rparr>))"

definition listExplainParsers :: "ParserRegistry \<Rightarrow> ExplainParser list" where
  "listExplainParsers r =
     map (\<lambda>p. case parserOverlays r (pr_format p) of Some q \<Rightarrow> q | None \<Rightarrow> p) (builtins r)
     @ List.map_filter (parserOverlays r) (customFormatOrder r)"

text \<open>A parser's result with the driver and the query of the raw output.\<close>

record RawExplainOutput =
  raw_engine :: jsstring
  raw_format :: jsstring
  raw_payload :: jsstring
  raw_query :: jsstring

definition parseRawExplain :: "ParserRegistry \<Rightarrow> RawExplainOutput \<Rightarrow> parse_result" where
  "parseRawExplain r raw =
     (case getExplainParser r (raw_format raw) of
        None \<Rightarrow> Some (Inl (''No EXPLAIN parser registered for format '' @ raw_format raw))
      | Some p \<Rightarrow>
          map_option (\<lambda>res. case res of
              Inl e \<Rightarrow> Inl e
            | Inr plan \<Rightarrow> Inr (plan\<lparr>plan_driver := raw_engine raw, original_query := raw_query raw\<rparr>))
            (pr_parse p (raw_payload raw)))"

datatype ExplainQueryOutput = RawOutput RawExplainOutput | PlanOutput ExplainPlan

fun resolveExplainOutput :: "ParserRegistry \<Rightarrow> ExplainQueryOutput \<Rightarrow> parse_result" where
  "resolveExplainOutput r (PlanOutput plan) = Some (Inr plan)"
| "resolveExplainOutput r (RawOutput raw) = parseRawExplain r raw"

section \<open>Detecting the format\<close>

definition looksLikeJson :: "jsstring \<Rightarrow> bool" where
  "looksLikeJson raw = (let t = trim_start raw in prefix ''['' t \<or> prefix ''{'' t)"

definition looksLikePostgresText :: "jsstring \<Rightarrow> bool" where
  "looksLikePostgresText raw =
     list_ex (\<lambda>line. sublist ''(cost='' line \<and> sublist ''width='' line) (split_on NL raw)"

definition detectPostgresFormatOrNull :: "jsstring \<Rightarrow> jsstring option" where
  "detectPostgresFormatOrNull raw =
     (if looksLikeJson raw then Some ''postgres-json''
      else if looksLikePostgresText raw then Some ''postgres-text''
      else None)"

definition BUILTIN_SOURCE_FORMATS :: "jsstring list" where
  "BUILTIN_SOURCE_FORMATS = [''postgres-json'', ''postgres-text'', ''mysql-json'', ''mysql-text'']"

definition sniffs :: "jsstring \<Rightarrow> jsstring option \<Rightarrow> ExplainParser \<Rightarrow> bool" where
  "sniffs raw engine p \<longleftrightarrow>
     (case engine of
        None \<Rightarrow> pr_format p \<notin> set BUILTIN_SOURCE_FORMATS
      | Some e \<Rightarrow> lower (trim (pr_engine p)) = lower (trim e))
     \<and> (case pr_sniff p of None \<Rightarrow> False | Some sniff \<Rightarrow> sniff raw = Some True)"

definition sniffRegisteredFormat :: "ParserRegistry \<Rightarrow> jsstring \<Rightarrow> jsstring option \<Rightarrow> jsstring option" where
  "sniffRegisteredFormat r raw engine = map_option pr_format (List.find (sniffs raw engine) (listExplainParsers r))"

definition detectPostgresFormat :: "jsstring \<Rightarrow> jsstring + jsstring" where
  "detectPostgresFormat raw =
     (case detectPostgresFormatOrNull raw of
        Some f \<Rightarrow> Inr f
      | None \<Rightarrow> Inl ''Unsupported EXPLAIN file format: expected Postgres JSON or text output'')"

definition detectFormatFor :: "ParserRegistry \<Rightarrow> jsstring \<Rightarrow> jsstring option \<Rightarrow> jsstring + jsstring" where
  "detectFormatFor r raw engine =
     (if engine = Some ''postgres'' then detectPostgresFormat raw
      else if engine = Some ''mysql'' then
        (if looksLikeJson raw then Inr ''mysql-json''
         else if trim raw = [] then Inl ''Unsupported EXPLAIN file format: input is empty''
         else Inr ''mysql-text'')
      else if engine = Some ''sqlite'' then Inl ''SQLite EXPLAIN QUERY PLAN has no text form here''
      else
        (case engine of
           None \<Rightarrow>
             (case detectPostgresFormatOrNull raw of
                Some f \<Rightarrow> Inr f
              | None \<Rightarrow>
                  (case sniffRegisteredFormat r raw None of
                     Some f \<Rightarrow> Inr f
                   | None \<Rightarrow> Inl ''Unsupported EXPLAIN file format: expected Postgres JSON or text output''))
         | Some e \<Rightarrow>
             (case sniffRegisteredFormat r raw (Some e) of
                Some f \<Rightarrow> Inr f
              | None \<Rightarrow> Inl (''Unsupported EXPLAIN file format for engine '' @ e))))"

definition detectFormat :: "ParserRegistry \<Rightarrow> jsstring \<Rightarrow> jsstring + jsstring" where
  "detectFormat r raw = detectFormatFor r raw None"

definition parseExplainFor :: "ParserRegistry \<Rightarrow> jsstring \<Rightarrow> jsstring option \<Rightarrow> parse_result" where
  "parseExplainFor r raw engine =
     (case detectFormatFor r raw engine of
        Inl e \<Rightarrow> Some (Inl e)
      | Inr fmt \<Rightarrow>
          (case getExplainParser r fmt of
             None \<Rightarrow> Some (Inl (''No parser registered for format '' @ fmt))
           | Some p \<Rightarrow> pr_parse p raw))"

definition parseExplain :: "ParserRegistry \<Rightarrow> jsstring \<Rightarrow> parse_result" where
  "parseExplain r raw = parseExplainFor r raw None"

definition explainEngineFromDriverName :: "ParserRegistry \<Rightarrow> jsstring \<Rightarrow> jsstring option" where
  "explainEngineFromDriverName r name =
     (let n = lower (trim name) in
      if n \<in> {''postgres'', ''postgresql'', ''pg''} then Some ''postgres''
      else if n \<in> {''mysql'', ''mariadb''} then Some ''mysql''
      else if n \<in> {''sqlite'', ''sqlite3''} then Some ''sqlite''
      else map_option pr_engine (List.find (\<lambda>p. lower (trim (pr_engine p)) = n) (listExplainParsers r)))"

definition withSourceLabel :: "ExplainPlan \<Rightarrow> jsstring \<Rightarrow> ExplainPlan" where
  "withSourceLabel plan name =
     (if original_query plan = [] then plan\<lparr>original_query := ''-- loaded from '' @ name\<rparr> else plan)"

section \<open>The registry as a map\<close>

inductive registered :: "(jsstring \<Rightarrow> jsval option) \<Rightarrow> ParserRegistry \<Rightarrow> bool" for json_parse where
  fresh: "registered json_parse (new_registry json_parse)"
| register: "registered json_parse r \<Longrightarrow> registerExplainParser r p = Inr r' \<Longrightarrow> registered json_parse r'"
| unregister: "registered json_parse r \<Longrightarrow> registered json_parse (unregisterExplainParser r fmt)"

definition registry_ok :: "(jsstring \<Rightarrow> jsval option) \<Rightarrow> ParserRegistry \<Rightarrow> bool" where
  "registry_ok json_parse r \<longleftrightarrow>
     builtins r = BUILTIN_EXPLAIN_PARSERS json_parse
     \<and> (\<forall>fmt p. parserOverlays r fmt = Some p \<longrightarrow> pr_format p = fmt)
     \<and> distinct (customFormatOrder r)
     \<and> set (customFormatOrder r) = {fmt. parserOverlays r fmt \<noteq> None \<and> by_format (builtins r) fmt = None}"

lemma builtin_formats_distinct: "distinct (map pr_format (BUILTIN_EXPLAIN_PARSERS json_parse))"
  by (simp add: BUILTIN_EXPLAIN_PARSERS_def builtin_parser_def)

lemma by_format_Some: "by_format ps fmt = Some p \<Longrightarrow> p \<in> set ps \<and> pr_format p = fmt"
  unfolding by_format_def by (drule map_of_SomeD) auto

lemma by_format_None: "by_format ps fmt = None \<longleftrightarrow> fmt \<notin> set (map pr_format ps)"
  by (simp add: by_format_def map_of_eq_None_iff image_image)

lemma by_format_member: "distinct (map pr_format ps) \<Longrightarrow> p \<in> set ps \<Longrightarrow> by_format ps (pr_format p) = Some p"
  by (simp add: by_format_def comp_def)

lemma registered_ok: "registered json_parse r \<Longrightarrow> registry_ok json_parse r"
proof (induction rule: registered.induct)
  case (register r p r')
  then show ?case
    by (auto simp: registerExplainParser_def registry_ok_def Let_def getExplainParser_def
        split: if_splits option.splits)
next
  case (unregister r fmt)
  then show ?case
    by (auto simp: unregisterExplainParser_def registry_ok_def Let_def split: if_splits)
qed (simp add: new_registry_def registry_ok_def)

lemma map_filter_formats:
  "\<forall>f p. ov f = Some p \<longrightarrow> pr_format p = f \<Longrightarrow> \<forall>f \<in> set fs. ov f \<noteq> None \<Longrightarrow>
   map pr_format (List.map_filter ov fs) = fs"
  by (induction fs) auto

lemma in_map_filter: "p \<in> set (List.map_filter ov fs) \<longleftrightarrow> (\<exists>f \<in> set fs. ov f = Some p)"
  by (induction fs) (auto split: option.splits)

lemma listed_formats:
  assumes "registry_ok json_parse r"
  shows "map pr_format (listExplainParsers r) = map pr_format (builtins r) @ customFormatOrder r"
proof -
  have ov: "\<forall>f p. parserOverlays r f = Some p \<longrightarrow> pr_format p = f" using assms by (simp add: registry_ok_def)
  have "map pr_format (map (\<lambda>p. case parserOverlays r (pr_format p) of Some q \<Rightarrow> q | None \<Rightarrow> p) ps) = map pr_format ps" for ps
    by (induction ps) (use ov in \<open>auto split: option.split\<close>)
  moreover have "map pr_format (List.map_filter (parserOverlays r) (customFormatOrder r)) = customFormatOrder r"
    by (rule map_filter_formats) (use assms in \<open>auto simp: registry_ok_def\<close>)
  ultimately show ?thesis by (simp add: listExplainParsers_def)
qed

lemma listed_distinct:
  assumes "registry_ok json_parse r"
  shows "distinct (map pr_format (listExplainParsers r))"
  unfolding listed_formats [OF assms]
  using assms builtin_formats_distinct [of json_parse] by (auto simp: registry_ok_def by_format_None)

lemma listed_effective:
  assumes ok: "registry_ok json_parse r"
  shows "by_format (listExplainParsers r) fmt = getExplainParser r fmt"
proof -
  have mem: "p \<in> set (listExplainParsers r)" if "getExplainParser r fmt = Some p" for p
  proof (cases "parserOverlays r fmt")
    case None
    then have "by_format (builtins r) fmt = Some p" using that by (simp add: getExplainParser_def)
    then show ?thesis using None by (auto simp: listExplainParsers_def image_iff dest!: by_format_Some intro!: bexI [of _ p])
  next
    case (Some q)
    then have q: "q = p" "pr_format p = fmt" using that ok by (auto simp: getExplainParser_def registry_ok_def)
    show ?thesis
    proof (cases "by_format (builtins r) fmt")
      case None
      then have "fmt \<in> set (customFormatOrder r)" using ok Some by (simp add: registry_ok_def)
      then show ?thesis using Some q by (auto simp: listExplainParsers_def in_map_filter)
    next
      case (Some b)
      then show ?thesis using \<open>parserOverlays r fmt = Some q\<close> q
        by (auto simp: listExplainParsers_def image_iff dest!: by_format_Some intro!: bexI [of _ b])
    qed
  qed
  have fmt: "pr_format p = fmt" if "getExplainParser r fmt = Some p" for p
    using that ok by (auto simp: getExplainParser_def registry_ok_def dest: by_format_Some split: option.splits)
  show ?thesis
  proof (cases "getExplainParser r fmt")
    case None
    then have "fmt \<notin> set (map pr_format (builtins r))" "fmt \<notin> set (customFormatOrder r)"
      using ok by (auto simp: getExplainParser_def registry_ok_def by_format_None split: option.splits)
    then have "by_format (listExplainParsers r) fmt = None"
      unfolding by_format_None listed_formats [OF ok] by simp
    with None show ?thesis by simp
  next
    case (Some p)
    then show ?thesis using by_format_member [OF listed_distinct [OF ok] mem [OF Some]] fmt [OF Some] by simp
  qed
qed

section \<open>Every plan has ids of its own\<close>

lemma map_ids_opt_numbered:
  "map_ids_opt parse xs n = Some (ts, n') \<Longrightarrow>
   (\<And>x k t k'. x \<in> set xs \<Longrightarrow> parse x k = Some (t, k') \<Longrightarrow> numbered k [t] k') \<Longrightarrow> numbered n ts n'"
proof (induction xs arbitrary: n ts n')
  case (Cons x xs)
  obtain t n1 us where t: "parse x n = Some (t, n1)" and u: "map_ids_opt parse xs n1 = Some (us, n')" "ts = t # us"
    using Cons.prems(1) by (auto split: option.splits)
  have "numbered n [t] n1" using Cons.prems(2) [OF _ t] by simp
  moreover have "numbered n1 us n'"
    by (rule Cons.IH [OF u(1)]) (rule Cons.prems(2), simp_all)
  ultimately show ?case by (auto simp: u(2) intro: numbered_Cons)
qed simp

lemma buildSqliteTree_numbered: "buildSqliteTree fuel entries p n = Some (t, n') \<Longrightarrow> numbered n [t] n'"
proof (induction fuel arbitrary: p n t n')
  case (Suc fuel)
  define F where "F = (\<lambda>childId k.
      case map_ids_opt (\<lambda>e. buildSqliteTree fuel entries (eqp_id e)) (filter (\<lambda>e. eqp_parent e = childId) entries) (Suc k) of
        None \<Rightarrow> None
      | Some (gs, k2) \<Rightarrow> Some (createExplainNode (node_name k)
          (detail_fields (case List.find (\<lambda>e. eqp_id e = childId) entries of
             Some e \<Rightarrow> parseSqliteDetail (eqp_detail e) | None \<Rightarrow> (''Unknown'', None, None))) gs, k2))"
  have F: "numbered k [u] k'" if "F childId k = Some (u, k')" for childId k u k'
    using that Suc.IH by (auto simp: F_def split: option.splits intro!: numbered_node intro: map_ids_opt_numbered)
  have "\<exists>ids d. (case map_ids_opt F ids (Suc n) of None \<Rightarrow> None
      | Some (cs, n2) \<Rightarrow> Some (createExplainNode (node_name n) (detail_fields d) cs, n2)) = Some (t, n')"
    using Suc.prems unfolding buildSqliteTree.simps Let_def next_id_def prod.case Suc_eq_plus1 [symmetric] F_def
    by - (rule exI, rule exI, assumption)
  then obtain ids d cs where "map_ids_opt F ids (Suc n) = Some (cs, n')"
    "t = createExplainNode (node_name n) (detail_fields d) cs"
    by (auto split: option.splits)
  moreover from this(1) have "numbered (Suc n) cs n'" by (rule map_ids_opt_numbered) (rule F)
  ultimately show ?case by (simp add: numbered_node)
qed simp

definition plan_of :: "parse_result \<Rightarrow> ExplainPlan option" where
  "plan_of res = (case res of Some (Inr plan) \<Rightarrow> Some plan | _ \<Rightarrow> None)"

lemma plan_of_Some [simp]: "plan_of res = Some plan \<longleftrightarrow> res = Some (Inr plan)"
  by (auto simp: plan_of_def split: option.splits sum.splits)

lemma parseSqliteEqpRows_own_ids: "parseSqliteEqpRows rows = Some (Inr plan) \<Longrightarrow> own_ids (plan_root plan)"
  by (auto simp: parseSqliteEqpRows_def split: if_splits option.splits simp del: buildSqliteTree.simps
      dest!: buildSqliteTree_numbered numbered_own_ids)

interpretation sqlite: plan_source "\<lambda>rows. plan_of (parseSqliteEqpRows rows)"
  by unfold_locales (auto intro: parseSqliteEqpRows_own_ids)

lemma builtin_own_ids:
  assumes "p \<in> set (BUILTIN_EXPLAIN_PARSERS json_parse)" "pr_parse p raw = Some (Inr plan)"
  shows "own_ids (plan_root plan)"
proof -
  consider "Inr plan = parsePostgresJson json_parse raw" | "Inr plan = parsePostgresText raw"
    | "Inr plan = parseMysqlJson json_parse raw" | "Inr plan = parseMysqlText raw"
    | "parse_tabular_payload json_parse raw = Some (Inr plan)" | "parse_eqp_payload json_parse raw = Some (Inr plan)"
    using assms by (auto simp: BUILTIN_EXPLAIN_PARSERS_def builtin_parser_def)
  then show ?thesis
  proof cases
    case 1
    then show ?thesis using pg_json.parse_own_ids [of json_parse raw plan] by (metis success_simps(2))
  next
    case 2
    then show ?thesis using pg_text.parse_own_ids [of raw plan] by (metis success_simps(2))
  next
    case 3
    then show ?thesis using parseMysqlJson_own_ids [of json_parse raw plan] by simp
  next
    case 4
    then show ?thesis using mysql_text.parse_own_ids [of raw plan] by (metis success_simps(2))
  next
    case 5
    then show ?thesis by (auto simp: parse_tabular_payload_def parseMysqlTabularRows_own_ids split: sum.splits)
  next
    case 6
    then show ?thesis
      by (auto simp: parse_eqp_payload_def intro: parseSqliteEqpRows_own_ids split: sum.splits option.splits)
  qed
qed

interpretation raw_output: plan_source "\<lambda>raw. plan_of (parseRawExplain (new_registry json_parse) raw)" for json_parse
proof
  fix raw plan
  assume "plan_of (parseRawExplain (new_registry json_parse) raw) = Some plan"
  then obtain p res where p: "by_format (BUILTIN_EXPLAIN_PARSERS json_parse) (raw_format raw) = Some p"
    "pr_parse p (raw_payload raw) = Some res"
    "(case res of Inl e \<Rightarrow> Inl e | Inr q \<Rightarrow> Inr (q\<lparr>plan_driver := raw_engine raw, original_query := raw_query raw\<rparr>)) = Inr plan"
    by (auto simp: parseRawExplain_def getExplainParser_def new_registry_def split: option.splits)
  then obtain q where "res = Inr q" "plan_root plan = plan_root q" by (cases res) auto
  with p show "own_ids (plan_root plan)" using builtin_own_ids by_format_Some by metis
qed

section \<open>Properties\<close>

text \<open>Property (registry_dispatch): however parsers are registered and unregistered, the list of effective parsers has
  one parser per format, the built-in formats first and in their order, then the custom ones in the order of
  their registration, and it holds for each format the parser that is found for it; a format without an overlay
  has its built-in parser again.\<close>

theorem registry_dispatch:
  assumes "registered json_parse r"
  shows "map pr_format (listExplainParsers r) = map pr_format (BUILTIN_EXPLAIN_PARSERS json_parse) @ customFormatOrder r
    \<and> distinct (map pr_format (listExplainParsers r))
    \<and> by_format (listExplainParsers r) fmt = getExplainParser r fmt
    \<and> getExplainParser (unregisterExplainParser r fmt) fmt = by_format (BUILTIN_EXPLAIN_PARSERS json_parse) fmt"
proof -
  have ok: "registry_ok json_parse r" by (rule registered_ok [OF assms])
  then have b: "builtins r = BUILTIN_EXPLAIN_PARSERS json_parse" by (simp add: registry_ok_def)
  then have "getExplainParser (unregisterExplainParser r fmt) fmt = by_format (BUILTIN_EXPLAIN_PARSERS json_parse) fmt"
    by (auto simp: unregisterExplainParser_def getExplainParser_def Let_def split: option.splits)
  then show ?thesis using listed_formats [OF ok] listed_distinct [OF ok] listed_effective [OF ok] b by simp
qed

theorem registry_dispatch_witness:
  "let r = new_registry (\<lambda>_. None) in
   map pr_format (listExplainParsers r) = map pr_format (BUILTIN_EXPLAIN_PARSERS (\<lambda>_. None)) @ customFormatOrder r
    \<and> distinct (map pr_format (listExplainParsers r))
    \<and> by_format (listExplainParsers r) ''mysql-json'' = getExplainParser r ''mysql-json''
    \<and> getExplainParser (unregisterExplainParser r ''mysql-json'') ''mysql-json''
        = by_format (BUILTIN_EXPLAIN_PARSERS (\<lambda>_. None)) ''mysql-json''"
  unfolding Let_def by (rule registry_dispatch [OF registered.fresh])

text \<open>C36 (plan_nodes_are_found): whatever a driver's raw output is, in the plan the built-in parsers make of it every
  node is found by its id, and the metrics of every node are found by the id they carry.\<close>

theorem plan_nodes_are_found:
  assumes "parseRawExplain (new_registry json_parse) raw = Some (Inr plan)"
    and "t \<in> set (flattenExplainNodes (plan_root plan))" "ms \<in> set (order (computeExplainMetrics plan))"
  shows "findExplainNode (plan_root plan) (Some (node_id t)) = Some t
    \<and> getNodeMetrics (computeExplainMetrics plan) (Some (nm_nodeId ms)) = Some ms"
  using raw_output.node_found [of json_parse raw plan t] raw_output.metrics_found [of json_parse raw plan ms] assms
  by simp

definition empty_raw :: RawExplainOutput where
  "empty_raw = \<lparr>raw_engine = ''mysql'', raw_format = ''mysql-tabular-rows'', raw_payload = [], raw_query = ''q''\<rparr>"

definition empty_plan :: ExplainPlan where
  "empty_plan = (parseMysqlTabularRows [])\<lparr>plan_driver := ''mysql'', original_query := ''q''\<rparr>"

lemma empty_plan_parsed: "parseRawExplain (new_registry (\<lambda>_. Some (JArr []))) empty_raw = Some (Inr empty_plan)"
  by (simp add: parseRawExplain_def getExplainParser_def new_registry_def by_format_def BUILTIN_EXPLAIN_PARSERS_def
      builtin_parser_def empty_raw_def empty_plan_def parse_tabular_payload_def parseJsonRows_def)

lemma empty_plan_order: "order (computeExplainMetrics empty_plan) \<noteq> []"
  using order_ids [of empty_plan] by (cases "plan_root empty_plan") force

theorem plan_nodes_are_found_witness:
  "findExplainNode (plan_root empty_plan) (Some (node_id (plan_root empty_plan))) = Some (plan_root empty_plan)
   \<and> getNodeMetrics (computeExplainMetrics empty_plan) (Some (nm_nodeId (hd (order (computeExplainMetrics empty_plan)))))
       = Some (hd (order (computeExplainMetrics empty_plan)))"
  by (rule plan_nodes_are_found [OF empty_plan_parsed])
     (cases "plan_root empty_plan", simp, rule hd_in_set [OF empty_plan_order])

end
