(* ===== verification/PlanAnalysis.thy ===== *)
theory PlanAnalysis
  imports PlanMetrics ClipboardText "HOL-Library.Multiset"
begin

text \<open>
  What the views show of a plan (\<open>packages/explain/src/plan.ts\<close>, \<open>stats.ts\<close>, \<open>diagnostics.ts\<close>). The comparison of
  strings by locale is a parameter. A JavaScript \<open>Map\<close> filled while walking the nodes is the list of its
  entries in insertion order.
\<close>

section \<open>Formatting\<close>

text \<open>\<open>x.toFixed(d)\<close> for a magnitude below \<open>10^21\<close>.\<close>

definition to_fixed :: "jsnumber \<Rightarrow> nat \<Rightarrow> jsstring" where
  "to_fixed x d =
     (let n = nat \<lfloor>\<bar>x\<bar> * 10 ^ d + 1 / 2\<rfloor>; digits = nat_str n;
          padded = replicate (Suc d - length digits) (CHR ''0'') @ digits; k = length padded - d
      in (if x < 0 then ''-'' else []) @ take k padded @ (if d = 0 then [] else CHR ''.'' # drop k padded))"

definition formatCost :: "jsnumber \<Rightarrow> jsstring" where
  "formatCost n =
     (if 1000000 \<le> n then to_fixed (n / 1000000) 1 @ ''M''
      else if 1000 \<le> n then to_fixed (n / 1000) 1 @ ''K''
      else if 100 \<le> n then to_fixed n 0
      else if 1 \<le> n then to_fixed n 1
      else to_fixed n 2)"

definition formatTime :: "jsnumber \<Rightarrow> jsstring" where
  "formatTime ms =
     (if 1000 \<le> ms then to_fixed (ms / 1000) 2 @ '' s''
      else if 1 \<le> ms then to_fixed ms 2 @ '' ms''
      else to_fixed (ms * 1000) 0 @ '' us'')"

definition formatRows :: "jsnumber \<Rightarrow> jsstring" where
  "formatRows n =
     (if 1000000 \<le> n then to_fixed (n / 1000000) 1 @ ''M''
      else if 1000 \<le> n then to_fixed (n / 1000) 1 @ ''K''
      else to_fixed n 0)"

definition formatRatio :: "jsnumber \<Rightarrow> jsstring" where
  "formatRatio n =
     (if 100 \<le> n then to_fixed n 0 @ ''x'' else if 10 \<le> n then to_fixed n 1 @ ''x'' else to_fixed n 2 @ ''x'')"

datatype heat = HeatGreen | HeatYellow | HeatRed

text \<open>The colour of \<open>getNodeCostStyle\<close> and of \<open>getHeatBarClass\<close>.\<close>

definition getNodeCostStyle :: "jsnumber \<Rightarrow> jsnumber \<Rightarrow> heat" where
  "getNodeCostStyle cost maxCost =
     (if maxCost \<le> 0 then HeatGreen
      else if cost / maxCost < 2 / 10 then HeatGreen
      else if cost / maxCost < 6 / 10 then HeatYellow
      else HeatRed)"

definition getHeatBarClass :: "jsnumber \<Rightarrow> jsnumber \<Rightarrow> heat" where
  "getHeatBarClass v mx =
     (if mx \<le> 0 then HeatGreen
      else if v / mx < 2 / 10 then HeatGreen
      else if v / mx < 6 / 10 then HeatYellow
      else HeatRed)"

section \<open>Node measures\<close>

fun getMaxCost :: "ExplainNode \<Rightarrow> jsnumber" where
  "getMaxCost (ExplainNode i f cs) = foldl (\<lambda>mx c. if mx < c then c else mx) (or_zero (total_cost f)) (map getMaxCost cs)"

fun getMaxTime :: "ExplainNode \<Rightarrow> jsnumber" where
  "getMaxTime (ExplainNode i f cs) = foldl (\<lambda>mx c. if mx < c then c else mx) (or_zero (actual_time_ms f)) (map getMaxTime cs)"

definition getRowEstimateRatio :: "NodeFields \<Rightarrow> jsnumber option" where
  "getRowEstimateRatio f =
     (case (plan_rows f, actual_rows f) of
        (Some p, Some a) \<Rightarrow> if p \<le> 0 \<or> a \<le> 0 then None else Some (a / p)
      | _ \<Rightarrow> None)"

definition getRowEstimateGap :: "NodeFields \<Rightarrow> jsnumber option" where
  "getRowEstimateGap f = map_option (\<lambda>ratio. if 1 \<le> ratio then ratio else 1 / ratio) (getRowEstimateRatio f)"

definition isSequentialScan :: "NodeFields \<Rightarrow> bool" where
  "isSequentialScan f \<longleftrightarrow>
     (let ty = lower (node_type f);
          accessType = (case get_prop (extra f) ''access_type'' of JStr s \<Rightarrow> lower s | _ \<Rightarrow> [])
      in sublist ''seq scan'' ty \<or> sublist ''table scan'' ty \<or> sublist ''full scan'' ty \<or> accessType = ''all'')"

definition isTempOperation :: "NodeFields \<Rightarrow> bool" where
  "isTempOperation f \<longleftrightarrow>
     (let ty = lower (node_type f);
          extraText = lower (join_with [SP] (List.map_filter (\<lambda>(k, v). asString v) (extra f)))
      in sublist ''sort'' ty \<or> sublist ''filesort'' ty \<or> sublist ''temporary'' ty
         \<or> sublist ''using temporary'' extraText \<or> sublist ''using filesort'' extraText)"

section \<open>The summary\<close>

record ExplainMetricNode =
  mn_nodeId :: jsstring
  mn_nodeType :: jsstring
  mn_relation :: "jsstring option"
  mn_value :: jsnumber
  mn_ratio :: "jsnumber option"

record ExplainPlanSummary =
  highestCostNode :: "ExplainMetricNode option"
  slowestNode :: "ExplainMetricNode option"
  largestRowMismatchNode :: "ExplainMetricNode option"
  sequentialScans :: nat
  tempOperations :: nat

definition metric_node :: "ExplainNode \<Rightarrow> jsnumber \<Rightarrow> jsnumber option \<Rightarrow> ExplainMetricNode" where
  "metric_node t v ratio = \<lparr>mn_nodeId = node_id t, mn_nodeType = node_type (scalars t),
     mn_relation = relation (scalars t), mn_value = v, mn_ratio = ratio\<rparr>"

text \<open>\<open>if (value != null && (best == null || value > best.value)) best = {...}\<close>.\<close>

definition better :: "ExplainMetricNode option \<Rightarrow> ExplainNode \<Rightarrow> jsnumber option \<Rightarrow> jsnumber option \<Rightarrow> ExplainMetricNode option" where
  "better best t v ratio =
     (case v of
        None \<Rightarrow> best
      | Some x \<Rightarrow>
          (case best of
             None \<Rightarrow> Some (metric_node t x ratio)
           | Some b \<Rightarrow> if mn_value b < x then Some (metric_node t x ratio) else best))"

definition node_metric :: "(ExplainNodeMetrics \<Rightarrow> 'a option) \<Rightarrow> ExplainMetrics \<Rightarrow> ExplainNode \<Rightarrow> 'a option" where
  "node_metric field metrics t = (case byId metrics (node_id t) of Some m \<Rightarrow> field m | None \<Rightarrow> None)"

definition summary_step :: "ExplainMetrics \<Rightarrow> ExplainPlanSummary \<Rightarrow> ExplainNode \<Rightarrow> ExplainPlanSummary" where
  "summary_step metrics s t =
     s\<lparr>highestCostNode := better (highestCostNode s) t (node_metric exclusiveCost metrics t) None,
       slowestNode := better (slowestNode s) t (node_metric exclusiveTimeMs metrics t) None,
       largestRowMismatchNode := better (largestRowMismatchNode s) t (getRowEstimateGap (scalars t))
         (getRowEstimateRatio (scalars t)),
       sequentialScans := sequentialScans s + (if isSequentialScan (scalars t) then 1 else 0),
       tempOperations := tempOperations s + (if isTempOperation (scalars t) then 1 else 0)\<rparr>"

definition getExplainPlanSummary :: "ExplainPlan \<Rightarrow> ExplainMetrics option \<Rightarrow> ExplainPlanSummary" where
  "getExplainPlanSummary plan metrics =
     (let planMetrics = (case metrics of Some m \<Rightarrow> m | None \<Rightarrow> computeExplainMetrics plan) in
      foldl (summary_step planMetrics)
        \<lparr>highestCostNode = None, slowestNode = None, largestRowMismatchNode = None, sequentialScans = 0, tempOperations = 0\<rparr>
        (flattenExplainNodes (plan_root plan)))"

definition getExplainDriverLegend :: "ExplainPlan \<Rightarrow> jsstring list" where
  "getExplainDriverLegend plan =
     (let legend = (\<lambda>k. [''editor.visualExplain.'' @ k @ ''1'', ''editor.visualExplain.'' @ k @ ''2'']) in
      if plan_driver plan = ''postgres'' then
        legend (if has_analyze_data plan then ''postgresAnalyzeLegend'' else ''postgresEstimateLegend'')
      else if plan_driver plan = ''mysql'' then
        legend (if has_analyze_data plan then ''mysqlAnalyzeLegend'' else ''mysqlEstimateLegend'')
      else if plan_driver plan = ''sqlite'' then legend ''sqliteLegend''
      else [])"

section \<open>Table rows\<close>

record ExplainTableRowData =
  tr_index :: nat
  tr_depth :: nat
  tr_nodeType :: jsstring
  tr_relation :: "jsstring option"
  tr_startupCost :: "jsnumber option"
  tr_totalCost :: "jsnumber option"
  tr_planRows :: "jsnumber option"
  tr_actualRows :: "jsnumber option"
  tr_actualLoops :: "jsnumber option"
  tr_exclusiveTimeMs :: "jsnumber option"
  tr_estimateGap :: "jsnumber option"
  tr_filter :: "jsstring option"

definition getExplainTableRow :: "ExplainNode \<Rightarrow> bool \<Rightarrow> ExplainNodeMetrics option \<Rightarrow> nat \<Rightarrow> ExplainTableRowData" where
  "getExplainTableRow t analyze nodeMetrics fallbackIndex =
     (let f = scalars t in
      \<lparr>tr_index = (case nodeMetrics of Some m \<Rightarrow> nm_index m | None \<Rightarrow> fallbackIndex),
       tr_depth = (case nodeMetrics of Some m \<Rightarrow> nm_depth m | None \<Rightarrow> 0),
       tr_nodeType = node_type f, tr_relation = relation f, tr_startupCost = startup_cost f,
       tr_totalCost = total_cost f, tr_planRows = plan_rows f,
       tr_actualRows = (if analyze then actual_rows f else None),
       tr_actualLoops = (if analyze then actual_loops f else None),
       tr_exclusiveTimeMs = (if analyze then (case nodeMetrics of Some m \<Rightarrow> exclusiveTimeMs m | None \<Rightarrow> None) else None),
       tr_estimateGap = getRowEstimateGap f, tr_filter = filter_text f\<rparr>)"

definition getExplainTableRows :: "ExplainPlan \<Rightarrow> ExplainMetrics option \<Rightarrow> ExplainTableRowData list" where
  "getExplainTableRows plan metrics =
     (let planMetrics = (case metrics of Some m \<Rightarrow> m | None \<Rightarrow> computeExplainMetrics plan);
          nodes = flattenExplainNodes (plan_root plan)
      in map (\<lambda>(t, i). getExplainTableRow t (has_analyze_data plan) (byId planMetrics (node_id t)) (i + 1))
           (zip nodes [0..<length nodes]))"

section \<open>Statistics\<close>

record OptionalSum =
  sum_total :: jsnumber
  hasData :: bool

definition newSum :: OptionalSum where
  "newSum = \<lparr>sum_total = 0, hasData = False\<rparr>"

definition addTo :: "OptionalSum \<Rightarrow> jsnumber option \<Rightarrow> OptionalSum" where
  "addTo s v = (case v of Some x \<Rightarrow> \<lparr>sum_total = sum_total s + x, hasData = True\<rparr> | None \<Rightarrow> s)"

definition resolve_sum :: "OptionalSum \<Rightarrow> jsnumber option" where
  "resolve_sum s = (if hasData s then Some (sum_total s) else None)"

definition indexNameOf :: "NodeFields \<Rightarrow> jsstring option" where
  "indexNameOf f =
     (case get_prop (extra f) ''Index Name'' of JStr s \<Rightarrow> if s = [] then None else Some s | _ \<Rightarrow> None)"

record TypeStat =
  ts_count :: nat
  ts_time :: OptionalSum

record RelationStat =
  rs_accessCount :: nat
  rs_nodeTypes :: "jsstring list"
  rs_time :: OptionalSum
  rs_rows :: OptionalSum

record IndexStat =
  is_relation :: "jsstring option"
  is_scanCount :: nat
  is_time :: OptionalSum

text \<open>\<open>map.set(k, update(map.get(k) ?? init))\<close>.\<close>

definition bump :: "'a \<Rightarrow> ('a \<Rightarrow> 'a) \<Rightarrow> jsstring \<Rightarrow> (jsstring \<times> 'a) list \<Rightarrow> (jsstring \<times> 'a) list" where
  "bump init update k m = set_prop m (k, update (case map_of m k of Some s \<Rightarrow> s | None \<Rightarrow> init))"

definition type_bump :: "ExplainMetrics \<Rightarrow> (jsstring \<times> TypeStat) list \<Rightarrow> ExplainNode \<Rightarrow> (jsstring \<times> TypeStat) list" where
  "type_bump metrics m t =
     bump \<lparr>ts_count = 0, ts_time = newSum\<rparr>
       (\<lambda>s. s\<lparr>ts_count := ts_count s + 1, ts_time := addTo (ts_time s) (node_metric exclusiveTimeMs metrics t)\<rparr>)
       (node_type (scalars t)) m"

definition relation_bump :: "ExplainMetrics \<Rightarrow> (jsstring \<times> RelationStat) list \<Rightarrow> ExplainNode \<Rightarrow> (jsstring \<times> RelationStat) list" where
  "relation_bump metrics m t =
     (case relation (scalars t) of
        None \<Rightarrow> m
      | Some rel \<Rightarrow>
          if rel = [] then m
          else bump \<lparr>rs_accessCount = 0, rs_nodeTypes = [], rs_time = newSum, rs_rows = newSum\<rparr>
            (\<lambda>s. s\<lparr>rs_accessCount := rs_accessCount s + 1,
                   rs_nodeTypes := (if node_type (scalars t) \<in> set (rs_nodeTypes s) then rs_nodeTypes s
                                    else rs_nodeTypes s @ [node_type (scalars t)]),
                   rs_time := addTo (rs_time s) (node_metric exclusiveTimeMs metrics t),
                   rs_rows := addTo (rs_rows s) (node_metric nm_totalRows metrics t)\<rparr>)
            rel m)"

definition index_bump :: "ExplainMetrics \<Rightarrow> (jsstring \<times> IndexStat) list \<Rightarrow> ExplainNode \<Rightarrow> (jsstring \<times> IndexStat) list" where
  "index_bump metrics m t =
     (case indexNameOf (scalars t) of
        None \<Rightarrow> m
      | Some name \<Rightarrow>
          bump \<lparr>is_relation = relation (scalars t), is_scanCount = 0, is_time = newSum\<rparr>
            (\<lambda>s. s\<lparr>is_scanCount := is_scanCount s + 1,
                   is_relation := or_null (is_relation s) (relation (scalars t)),
                   is_time := addTo (is_time s) (node_metric exclusiveTimeMs metrics t)\<rparr>)
            name m)"

text \<open>A stable sort by a comparison function.\<close>

fun insert_cmp :: "('a \<Rightarrow> 'a \<Rightarrow> jsnumber) \<Rightarrow> 'a \<Rightarrow> 'a list \<Rightarrow> 'a list" where
  "insert_cmp cmp x [] = [x]"
| "insert_cmp cmp x (y # ys) = (if cmp x y \<le> 0 then x # y # ys else y # insert_cmp cmp x ys)"

definition sort_cmp :: "('a \<Rightarrow> 'a \<Rightarrow> jsnumber) \<Rightarrow> 'a list \<Rightarrow> 'a list" where
  "sort_cmp cmp xs = foldr (insert_cmp cmp) xs []"

definition first_nonzero :: "jsnumber list \<Rightarrow> jsnumber" where
  "first_nonzero xs = (case dropWhile (\<lambda>x. x = 0) xs of [] \<Rightarrow> 0 | x # _ \<Rightarrow> x)"

record ExplainNodeTypeStat =
  nts_nodeType :: jsstring
  nts_count :: nat
  nts_time :: "jsnumber option"
  nts_share :: "jsnumber option"

record ExplainRelationStat =
  rls_relation :: jsstring
  rls_accessCount :: nat
  rls_nodeTypes :: "jsstring list"
  rls_time :: "jsnumber option"
  rls_rows :: "jsnumber option"

record ExplainIndexStat =
  ixs_indexName :: jsstring
  ixs_relation :: "jsstring option"
  ixs_scanCount :: nat
  ixs_time :: "jsnumber option"

record ExplainPlanStats =
  st_nodeCount :: nat
  st_maxDepth :: nat
  st_neverExecutedCount :: nat
  st_totalExclusiveTimeMs :: "jsnumber option"
  st_nodeTypes :: "ExplainNodeTypeStat list"
  st_relations :: "ExplainRelationStat list"
  st_indexes :: "ExplainIndexStat list"

definition compareByTimeThenCount ::
  "(jsstring \<Rightarrow> jsstring \<Rightarrow> jsnumber) \<Rightarrow> ExplainNodeTypeStat \<Rightarrow> ExplainNodeTypeStat \<Rightarrow> jsnumber" where
  "compareByTimeThenCount localeCompare a b =
     first_nonzero [or_zero (nts_time b) - or_zero (nts_time a), of_nat (nts_count b) - of_nat (nts_count a),
       localeCompare (nts_nodeType a) (nts_nodeType b)]"

definition compare_relations :: "(jsstring \<Rightarrow> jsstring \<Rightarrow> jsnumber) \<Rightarrow> ExplainRelationStat \<Rightarrow> ExplainRelationStat \<Rightarrow> jsnumber" where
  "compare_relations localeCompare a b =
     first_nonzero [or_zero (rls_time b) - or_zero (rls_time a), of_nat (rls_accessCount b) - of_nat (rls_accessCount a),
       localeCompare (rls_relation a) (rls_relation b)]"

definition compare_indexes :: "(jsstring \<Rightarrow> jsstring \<Rightarrow> jsnumber) \<Rightarrow> ExplainIndexStat \<Rightarrow> ExplainIndexStat \<Rightarrow> jsnumber" where
  "compare_indexes localeCompare a b =
     first_nonzero [or_zero (ixs_time b) - or_zero (ixs_time a), of_nat (ixs_scanCount b) - of_nat (ixs_scanCount a),
       localeCompare (ixs_indexName a) (ixs_indexName b)]"

definition getExplainPlanStats ::
  "(jsstring \<Rightarrow> jsstring \<Rightarrow> jsnumber) \<Rightarrow> ExplainPlan \<Rightarrow> ExplainMetrics \<Rightarrow> ExplainPlanStats" where
  "getExplainPlanStats localeCompare plan metrics =
     (let nodes = flattenExplainNodes (plan_root plan);
          planTotal = resolve_sum (foldl (\<lambda>s t. addTo s (node_metric exclusiveTimeMs metrics t)) newSum nodes);
          share = (\<lambda>time. case (time, planTotal) of
             (Some x, Some w) \<Rightarrow> if 0 < w then Some (x / w) else None | _ \<Rightarrow> None)
      in \<lparr>st_nodeCount = length nodes,
          st_maxDepth = foldl (\<lambda>mx t. max mx ((case byId metrics (node_id t) of Some m \<Rightarrow> nm_depth m | None \<Rightarrow> 0) + 1)) 0 nodes,
          st_neverExecutedCount = length (filter (\<lambda>t. case byId metrics (node_id t) of Some m \<Rightarrow> neverExecuted m | None \<Rightarrow> False) nodes),
          st_totalExclusiveTimeMs = planTotal,
          st_nodeTypes = sort_cmp (compareByTimeThenCount localeCompare)
            (map (\<lambda>(k, s). \<lparr>nts_nodeType = k, nts_count = ts_count s, nts_time = resolve_sum (ts_time s),
                            nts_share = share (resolve_sum (ts_time s))\<rparr>) (foldl (type_bump metrics) [] nodes)),
          st_relations = sort_cmp (compare_relations localeCompare)
            (map (\<lambda>(k, s). \<lparr>rls_relation = k, rls_accessCount = rs_accessCount s, rls_nodeTypes = rs_nodeTypes s,
                            rls_time = resolve_sum (rs_time s), rls_rows = resolve_sum (rs_rows s)\<rparr>)
               (foldl (relation_bump metrics) [] nodes)),
          st_indexes = sort_cmp (compare_indexes localeCompare)
            (map (\<lambda>(k, s). \<lparr>ixs_indexName = k, ixs_relation = is_relation s, ixs_scanCount = is_scanCount s,
                            ixs_time = resolve_sum (is_time s)\<rparr>) (foldl (index_bump metrics) [] nodes))\<rparr>)"

section \<open>Sorting\<close>

lemma mset_insert_cmp: "mset (insert_cmp cmp x ys) = add_mset x (mset ys)"
  by (induction ys) auto

lemma mset_sort_cmp: "mset (sort_cmp cmp xs) = mset xs"
  unfolding sort_cmp_def by (induction xs) (simp_all add: mset_insert_cmp)

lemma sorted_insert_cmp:
  assumes "\<And>a b. cmp a b \<le> 0 \<longleftrightarrow> rank a \<le> (rank b :: 'b::linorder)"
  shows "sorted (map rank ys) \<Longrightarrow> sorted (map rank (insert_cmp cmp x ys))"
proof (induction ys)
  case (Cons y ys)
  have "set (insert_cmp cmp x ys) = insert x (set ys)" by (metis mset_insert_cmp set_mset_add_mset_insert set_mset_mset)
  with Cons show ?case by (auto simp: assms)
qed simp

lemma sorted_sort_cmp:
  assumes "\<And>a b. cmp a b \<le> 0 \<longleftrightarrow> rank a \<le> (rank b :: 'b::linorder)"
  shows "sorted (map rank (sort_cmp cmp xs))"
  unfolding sort_cmp_def by (induction xs) (simp_all add: sorted_insert_cmp [OF assms])

lemma filter_insert_cmp:
  assumes "\<And>a b. cmp a b \<le> 0 \<longleftrightarrow> rank a \<le> (rank b :: 'b::linorder)"
  shows "filter (\<lambda>y. rank y = r) (insert_cmp cmp x ys) = filter (\<lambda>y. rank y = r) (x # ys)"
  by (induction ys) (auto simp: assms)

lemma filter_sort_cmp:
  assumes "\<And>a b. cmp a b \<le> 0 \<longleftrightarrow> rank a \<le> (rank b :: 'b::linorder)"
  shows "filter (\<lambda>y. rank y = r) (sort_cmp cmp xs) = filter (\<lambda>y. rank y = r) xs"
  unfolding sort_cmp_def by (induction xs) (simp_all add: filter_insert_cmp [of cmp rank, OF assms])

section \<open>What the summary shows\<close>

text \<open>The first node with the greatest value of \<open>f\<close>, or nothing when no node has one.\<close>

definition is_first_max :: "(ExplainNode \<Rightarrow> jsnumber option) \<Rightarrow> ExplainNode list \<Rightarrow> ExplainMetricNode option \<Rightarrow> bool" where
  "is_first_max f nodes best \<longleftrightarrow>
     (case best of
        None \<Rightarrow> list_all (\<lambda>t. f t = None) nodes
      | Some b \<Rightarrow>
          list_all (\<lambda>t. case f t of None \<Rightarrow> True | Some x \<Rightarrow> x \<le> mn_value b) nodes
          \<and> map_option node_id (List.find (\<lambda>t. f t = Some (mn_value b)) nodes) = Some (mn_nodeId b))"

lemma find_snoc: "List.find P (xs @ [x]) = (case List.find P xs of Some y \<Rightarrow> Some y | None \<Rightarrow> if P x then Some x else None)"
  by (induction xs) auto

lemma better_first_max:
  assumes "is_first_max f ts best"
  shows "is_first_max f (ts @ [t]) (better best t (f t) ratio)"
proof (cases "f t")
  case None
  with assms show ?thesis by (auto simp: is_first_max_def better_def find_snoc split: option.splits)
next
  case (Some x)
  show ?thesis
  proof (cases "case best of None \<Rightarrow> True | Some b \<Rightarrow> mn_value b < x")
    case True
    with assms have below: "\<forall>u \<in> set ts. case f u of None \<Rightarrow> True | Some y \<Rightarrow> y < x"
      by (fastforce simp: is_first_max_def list_all_iff split: option.splits)
    then have "List.find (\<lambda>u. f u = Some x) ts = None" by (auto simp: find_None_iff)
    moreover have "better best t (f t) ratio = Some (metric_node t x ratio)"
      using True Some by (auto simp: better_def split: option.split)
    moreover have "list_all (\<lambda>u. case f u of None \<Rightarrow> True | Some y \<Rightarrow> y \<le> x) ts"
      using below by (auto simp: list_all_iff split: option.splits)
    moreover obtain b where "metric_node t x ratio = b" "mn_value b = x" "mn_nodeId b = node_id t"
      by (simp add: metric_node_def)
    ultimately show ?thesis using Some by (simp add: is_first_max_def find_snoc cong: option.case_cong)
  next
    case False
    with assms Some show ?thesis
      by (auto simp: is_first_max_def better_def find_snoc split: option.splits)
  qed
qed

lemma summary_fields:
  "highestCostNode (foldl (summary_step m) s ts) = foldl (\<lambda>b t. better b t (node_metric exclusiveCost m t) None) (highestCostNode s) ts"
  "slowestNode (foldl (summary_step m) s ts) = foldl (\<lambda>b t. better b t (node_metric exclusiveTimeMs m t) None) (slowestNode s) ts"
  "largestRowMismatchNode (foldl (summary_step m) s ts) =
     foldl (\<lambda>b t. better b t (getRowEstimateGap (scalars t)) (getRowEstimateRatio (scalars t))) (largestRowMismatchNode s) ts"
  "sequentialScans (foldl (summary_step m) s ts) = sequentialScans s + length (filter (\<lambda>t. isSequentialScan (scalars t)) ts)"
  "tempOperations (foldl (summary_step m) s ts) = tempOperations s + length (filter (\<lambda>t. isTempOperation (scalars t)) ts)"
  by (induction ts arbitrary: s) (simp_all add: summary_step_def)

lemma fold_first_max: "is_first_max f ts (foldl (\<lambda>b t. better b t (f t) (ratio t)) None ts)"
proof (induction ts rule: rev_induct)
  case (snoc t ts)
  then show ?case by (simp add: better_first_max)
qed (simp add: is_first_max_def)

text \<open>Property (summary_names_the_worst): the summary names the first node with the greatest own cost, own time and row
  mismatch, whenever any node has one, and counts the scans and temporary operations.\<close>

theorem summary_names_the_worst:
  "is_first_max (node_metric exclusiveCost (computeExplainMetrics plan)) (flattenExplainNodes (plan_root plan))
     (highestCostNode (getExplainPlanSummary plan None))
   \<and> is_first_max (node_metric exclusiveTimeMs (computeExplainMetrics plan)) (flattenExplainNodes (plan_root plan))
     (slowestNode (getExplainPlanSummary plan None))
   \<and> is_first_max (\<lambda>t. getRowEstimateGap (scalars t)) (flattenExplainNodes (plan_root plan))
     (largestRowMismatchNode (getExplainPlanSummary plan None))
   \<and> sequentialScans (getExplainPlanSummary plan None)
     = length (filter (\<lambda>t. isSequentialScan (scalars t)) (flattenExplainNodes (plan_root plan)))
   \<and> tempOperations (getExplainPlanSummary plan None)
     = length (filter (\<lambda>t. isTempOperation (scalars t)) (flattenExplainNodes (plan_root plan)))"
  using fold_first_max [where ratio = "\<lambda>_. None"] fold_first_max [where ratio = "\<lambda>t. getRowEstimateRatio (scalars t)"]
  by (simp add: getExplainPlanSummary_def summary_fields)

section \<open>What the statistics add up to\<close>

lemma bump_groups:
  "map_of (foldl (\<lambda>m t. bump init (upd t) (key t) m) [] ts) k =
     (if k \<in> key ` set ts then Some (foldl (\<lambda>s t. upd t s) init (filter (\<lambda>t. key t = k) ts)) else None)"
proof (induction ts rule: rev_induct)
  case (snoc t ts)
  have "filter (\<lambda>t. key t = k) ts = []" if "k \<notin> key ` set ts" using that by (auto simp: filter_empty_conv)
  with snoc show ?case by (auto simp: bump_def)
qed simp

lemma bump_distinct: "distinct (map fst (foldl (\<lambda>m t. bump init (upd t) (key t) m) [] ts))"
  by (induction ts rule: rev_induct) (auto simp: bump_def)

text \<open>A sum over the groups of a list is the sum over the list.\<close>

lemma sum_groups:
  fixes w :: "'a \<Rightarrow> 'b::comm_monoid_add"
  assumes "distinct ks" "key ` set ts \<subseteq> set ks"
  shows "(\<Sum>k \<leftarrow> ks. \<Sum>t \<leftarrow> filter (\<lambda>t. key t = k) ts. w t) = (\<Sum>t \<leftarrow> ts. w t)"
  using assms(2)
proof (induction ts)
  case (Cons t ts)
  have "(\<Sum>k \<leftarrow> ks. if key t = k then w t else 0) = w t"
    using assms(1) Cons.prems by (simp add: sum_list_distinct_conv_sum_set)
  moreover have "(\<Sum>k \<leftarrow> ks. \<Sum>u \<leftarrow> filter (\<lambda>u. key u = k) (t # ts). w u) =
      (\<Sum>k \<leftarrow> ks. (if key t = k then w t else 0) + (\<Sum>u \<leftarrow> filter (\<lambda>u. key u = k) ts. w u))"
    by (intro arg_cong [of _ _ sum_list] map_cong) auto
  ultimately show ?case using Cons by (simp add: sum_list_addf)
qed simp

lemma addTo_total: "sum_total (foldl (\<lambda>s t. addTo s (f t)) s0 ts) = sum_total s0 + (\<Sum>t \<leftarrow> ts. or_zero (f t))"
  by (induction ts arbitrary: s0) (auto simp: addTo_def or_zero_def split: option.split)

lemma addTo_data: "hasData (foldl (\<lambda>s t. addTo s (f t)) s0 ts) \<longleftrightarrow> hasData s0 \<or> list_ex (\<lambda>t. f t \<noteq> None) ts"
  by (induction ts arbitrary: s0) (auto simp: addTo_def split: option.split)

lemma resolve_total: "or_zero (resolve_sum (foldl (\<lambda>s t. addTo s (f t)) newSum ts)) = (\<Sum>t \<leftarrow> ts. or_zero (f t))"
proof (cases "list_ex (\<lambda>t. f t \<noteq> None) ts")
  case False
  then have "\<forall>t \<in> set ts. or_zero (f t) = 0" by (auto simp: list_ex_iff or_zero_def)
  then have "(\<Sum>t \<leftarrow> ts. or_zero (f t)) = 0" by (induction ts) auto
  with False show ?thesis by (simp add: resolve_sum_def addTo_data newSum_def or_zero_def)
next
  case True
  then show ?thesis by (simp add: resolve_sum_def addTo_data addTo_total newSum_def) (simp add: or_zero_def)
qed

lemma sum_list_1: "(\<Sum>t \<leftarrow> ts. 1) = length ts"
  by (induction ts) simp_all

text \<open>The statistics per node type before sorting.\<close>

lemma type_stats:
  fixes ms nodes
  defines "acc \<equiv> foldl (type_bump ms) [] nodes"
  shows "distinct (map fst acc)" "set (map fst acc) = (\<lambda>t. node_type (scalars t)) ` set nodes"
    "(k, s) \<in> set acc \<Longrightarrow> ts_count s = length (filter (\<lambda>t. node_type (scalars t) = k) nodes)
      \<and> or_zero (resolve_sum (ts_time s))
          = (\<Sum>t \<leftarrow> filter (\<lambda>t. node_type (scalars t) = k) nodes. or_zero (node_metric exclusiveTimeMs ms t))"
proof -
  define upd where "upd t s = s\<lparr>ts_count := ts_count s + 1, ts_time := addTo (ts_time s) (node_metric exclusiveTimeMs ms t)\<rparr>"
    for t :: ExplainNode and s :: TypeStat
  define init where "init = \<lparr>ts_count = 0, ts_time = newSum\<rparr>"
  have acc: "acc = foldl (\<lambda>m t. bump init (upd t) (node_type (scalars t)) m) [] nodes"
    unfolding acc_def type_bump_def upd_def init_def ..
  show d: "distinct (map fst acc)" unfolding acc by (rule bump_distinct)
  have look: "map_of acc k = (if k \<in> (\<lambda>t. node_type (scalars t)) ` set nodes
      then Some (foldl (\<lambda>s t. upd t s) init (filter (\<lambda>t. node_type (scalars t) = k) nodes)) else None)" for k
    unfolding acc by (rule bump_groups)
  have "dom (map_of acc) = (\<lambda>t. node_type (scalars t)) ` set nodes" by (auto simp: look dom_def split: if_splits)
  then show "set (map fst acc) = (\<lambda>t. node_type (scalars t)) ` set nodes" by (simp add: dom_map_of_conv_image_fst)
  have count: "ts_count (foldl (\<lambda>s t. upd t s) s ts) = ts_count s + length ts" for s ts
    by (induction ts arbitrary: s) (simp_all add: upd_def)
  have time: "ts_time (foldl (\<lambda>s t. upd t s) s ts) = foldl (\<lambda>s t. addTo s (node_metric exclusiveTimeMs ms t)) (ts_time s) ts" for s ts
    by (induction ts arbitrary: s) (simp_all add: upd_def)
  assume "(k, s) \<in> set acc"
  then have "map_of acc k = Some s" using d by simp
  then have "s = foldl (\<lambda>s t. upd t s) init (filter (\<lambda>t. node_type (scalars t) = k) nodes)"
    unfolding look by (simp split: if_splits)
  then show "ts_count s = length (filter (\<lambda>t. node_type (scalars t) = k) nodes)
      \<and> or_zero (resolve_sum (ts_time s))
          = (\<Sum>t \<leftarrow> filter (\<lambda>t. node_type (scalars t) = k) nodes. or_zero (node_metric exclusiveTimeMs ms t))"
    by (simp add: count time init_def resolve_total)
qed

lemma sum_list_sorted: "(\<Sum>x \<leftarrow> sort_cmp cmp xs. (f x :: 'b::comm_monoid_add)) = (\<Sum>x \<leftarrow> xs. f x)"
  by (metis mset_map mset_sort_cmp sum_mset_sum_list)

lemma set_sort_cmp [simp]: "set (sort_cmp cmp xs) = set xs"
  by (metis mset_sort_cmp set_mset_mset)

lemma sum_divided: "(\<Sum>x \<leftarrow> xs. f x / (w :: jsnumber)) = (\<Sum>x \<leftarrow> xs. f x) / w"
  by (induction xs) (simp_all add: add_divide_distrib)


end
