(* ===== verification/PlanDiagnostics.thy ===== *)
theory PlanDiagnostics
  imports PlanAnalysis
begin

text \<open>
  Warnings about a plan's nodes (\<open>packages/explain/src/diagnostics.ts\<close>). How a number prints inside a template
  is a parameter (\<open>number_text\<close>); the formatted figures are those of \<open>PlanAnalysis\<close>. The sort is the stable
  \<open>sort_cmp\<close>.
\<close>

datatype ExplainDiagnosticKind =
    Hotspot | OverEstimate | UnderEstimate | DiskSort | FilterLoss | LargeSeqScan | HeapFetches
  | WorkersUnderused | HighLoops | CacheMiss | NeverExecuted

datatype ExplainDiagnosticSeverity = Critical | Warning | Info

record ExplainDiagnostic =
  dg_kind :: ExplainDiagnosticKind
  dg_severity :: ExplainDiagnosticSeverity
  dg_labelKey :: jsstring
  dg_descriptionKey :: jsstring
  dg_value :: "jsstring option"

record DiagnosticThresholds =
  hotspotTimeShare :: jsnumber
  hotspotMinTimeMs :: jsnumber
  estimateWarnFactor :: jsnumber
  estimateCriticalFactor :: jsnumber
  estimateMinRows :: jsnumber
  filterLossRatio :: jsnumber
  filterLossMinRows :: jsnumber
  seqScanMinRows :: jsnumber
  heapFetchesMinCount :: jsnumber
  highLoopsMinCount :: jsnumber
  cacheMissRatio :: jsnumber
  cacheMissMinBlocks :: jsnumber

definition EXPLAIN_DIAGNOSTIC_THRESHOLDS :: DiagnosticThresholds where
  "EXPLAIN_DIAGNOSTIC_THRESHOLDS =
     \<lparr>hotspotTimeShare = 1 / 4, hotspotMinTimeMs = 1, estimateWarnFactor = 4, estimateCriticalFactor = 10,
      estimateMinRows = 10, filterLossRatio = 9 / 10, filterLossMinRows = 1000, seqScanMinRows = 10000,
      heapFetchesMinCount = 1000, highLoopsMinCount = 1000, cacheMissRatio = 1 / 2, cacheMissMinBlocks = 1000\<rparr>"

fun SEVERITY_RANK :: "ExplainDiagnosticSeverity \<Rightarrow> nat" where
  "SEVERITY_RANK Critical = 0"
| "SEVERITY_RANK Warning = 1"
| "SEVERITY_RANK Info = 2"

definition extraString :: "NodeFields \<Rightarrow> jsstring \<Rightarrow> jsstring option" where
  "extraString f key = asString (get_prop (extra f) key)"

text \<open>\<open>Number(text)\<close> of blank text is 0.\<close>

definition extraNumber :: "NodeFields \<Rightarrow> jsstring \<Rightarrow> jsnumber option" where
  "extraNumber f key =
     (case get_prop (extra f) key of
        JNum m d \<Rightarrow> Some (decimal_value m d)
      | JStr s \<Rightarrow> if trim s = [] then Some 0 else number_of_text s
      | _ \<Rightarrow> None)"

definition usesDiskWorkspace :: "NodeFields \<Rightarrow> bool" where
  "usesDiskWorkspace f \<longleftrightarrow>
     (let sortMethod = (case extraString f ''Sort Method'' of Some s \<Rightarrow> lower s | None \<Rightarrow> []);
          sortSpace = (case extraString f ''Sort Space Type'' of Some s \<Rightarrow> lower s | None \<Rightarrow> [])
      in sublist ''disk'' sortMethod \<or> sortSpace = ''disk'' \<or> 0 < or_zero (extraNumber f ''Temp Written Blocks''))"

definition diagnostic ::
  "ExplainDiagnosticKind \<Rightarrow> ExplainDiagnosticSeverity \<Rightarrow> jsstring \<Rightarrow> jsstring option \<Rightarrow> ExplainDiagnostic" where
  "diagnostic k severity key v =
     \<lparr>dg_kind = k, dg_severity = severity, dg_labelKey = ''editor.visualExplain.diagnostics.'' @ key,
      dg_descriptionKey = ''editor.visualExplain.diagnostics.'' @ key @ ''Hint'', dg_value = v\<rparr>"

definition estimateDiagnostic :: "NodeFields \<Rightarrow> ExplainDiagnostic option" where
  "estimateDiagnostic f =
     (case (plan_rows f, actual_rows f) of
        (Some p, Some a) \<Rightarrow>
          if p \<le> 0 \<or> a < estimateMinRows EXPLAIN_DIAGNOSTIC_THRESHOLDS then None
          else (let ratio = a / p; factor = (if 1 \<le> ratio then ratio else 1 / ratio) in
                if factor < estimateWarnFactor EXPLAIN_DIAGNOSTIC_THRESHOLDS then None
                else (let severity = (if estimateCriticalFactor EXPLAIN_DIAGNOSTIC_THRESHOLDS \<le> factor then Critical else Warning) in
                      if 1 \<le> ratio then Some (diagnostic OverEstimate severity ''overEstimate'' (Some (formatRatio factor)))
                      else Some (diagnostic UnderEstimate severity ''underEstimate'' (Some (formatRatio factor)))))
      | _ \<Rightarrow> None)"

definition round_half_up :: "jsnumber \<Rightarrow> int" where
  "round_half_up x = \<lfloor>x + 1 / 2\<rfloor>"

section \<open>The checks of a node\<close>

text \<open>Each check pushes at most one diagnostic; they run in this order.\<close>

definition when_some :: "bool \<Rightarrow> ExplainDiagnostic \<Rightarrow> ExplainDiagnostic list" where
  "when_some b d = (if b then [d] else [])"

definition hotspot_check :: "ExplainNodeMetrics option \<Rightarrow> ExplainDiagnostic list" where
  "hotspot_check metrics =
     (case metrics of
        None \<Rightarrow> []
      | Some m \<Rightarrow>
          (case timeShare m of
             None \<Rightarrow> []
           | Some s \<Rightarrow> when_some (hotspotTimeShare EXPLAIN_DIAGNOSTIC_THRESHOLDS \<le> s
                 \<and> hotspotMinTimeMs EXPLAIN_DIAGNOSTIC_THRESHOLDS \<le> or_zero (exclusiveTimeMs m))
               (diagnostic Hotspot Critical ''hotspot'' (Some (nat_str (nat (round_half_up (s * 100))) @ ''%'')))))"

definition filter_loss_check :: "NodeFields \<Rightarrow> ExplainDiagnostic list" where
  "filter_loss_check f =
     (case extraNumber f ''Rows Removed by Filter'' of
        None \<Rightarrow> []
      | Some rowsRemoved \<Rightarrow>
          if filterLossMinRows EXPLAIN_DIAGNOSTIC_THRESHOLDS \<le> rowsRemoved then
            (let scanned = or_zero (actual_rows f) + rowsRemoved in
             when_some (0 < scanned \<and> filterLossRatio EXPLAIN_DIAGNOSTIC_THRESHOLDS \<le> rowsRemoved / scanned)
               (diagnostic FilterLoss Warning ''filterLoss'' (Some (formatRows rowsRemoved))))
          else [])"

definition seq_scan_check :: "NodeFields \<Rightarrow> ExplainDiagnostic list" where
  "seq_scan_check f =
     (if isSequentialScan f then
        (case or_null (actual_rows f) (plan_rows f) of
           None \<Rightarrow> []
         | Some rows \<Rightarrow> when_some (seqScanMinRows EXPLAIN_DIAGNOSTIC_THRESHOLDS \<le> rows)
             (diagnostic LargeSeqScan Warning ''largeSeqScan'' (Some (formatRows rows))))
      else [])"

definition heap_check :: "NodeFields \<Rightarrow> ExplainDiagnostic list" where
  "heap_check f =
     (case extraNumber f ''Heap Fetches'' of
        None \<Rightarrow> []
      | Some n \<Rightarrow> when_some (heapFetchesMinCount EXPLAIN_DIAGNOSTIC_THRESHOLDS \<le> n)
          (diagnostic HeapFetches Warning ''heapFetches'' (Some (formatRows n))))"

definition workers_check :: "(jsnumber \<Rightarrow> jsstring) \<Rightarrow> NodeFields \<Rightarrow> ExplainDiagnostic list" where
  "workers_check number_text f =
     (case (extraNumber f ''Workers Planned'', extraNumber f ''Workers Launched'') of
        (Some planned, Some launched) \<Rightarrow> when_some (launched < planned)
          (diagnostic WorkersUnderused Warning ''workersUnderused'' (Some (number_text launched @ ''/'' @ number_text planned)))
      | _ \<Rightarrow> [])"

definition loops_check :: "NodeFields \<Rightarrow> ExplainDiagnostic list" where
  "loops_check f =
     (case actual_loops f of
        None \<Rightarrow> []
      | Some n \<Rightarrow> when_some (highLoopsMinCount EXPLAIN_DIAGNOSTIC_THRESHOLDS \<le> n)
          (diagnostic HighLoops Info ''highLoops'' (Some (formatRows n))))"

text \<open>A positive number divided by 0 is infinite, which is above the threshold.\<close>

definition cache_check :: "NodeFields \<Rightarrow> ExplainDiagnostic list" where
  "cache_check f =
     (case buffers_read f of
        None \<Rightarrow> []
      | Some n \<Rightarrow>
          (let whole = n + or_zero (buffers_hit f) in
           when_some (cacheMissMinBlocks EXPLAIN_DIAGNOSTIC_THRESHOLDS \<le> n
               \<and> (whole = 0 \<or> cacheMissRatio EXPLAIN_DIAGNOSTIC_THRESHOLDS \<le> n / whole))
             (diagnostic CacheMiss Info ''cacheMiss'' (Some (formatRows n)))))"

definition compare_severity :: "ExplainDiagnostic \<Rightarrow> ExplainDiagnostic \<Rightarrow> jsnumber" where
  "compare_severity a b = of_nat (SEVERITY_RANK (dg_severity a)) - of_nat (SEVERITY_RANK (dg_severity b))"

definition node_checks :: "(jsnumber \<Rightarrow> jsstring) \<Rightarrow> NodeFields \<Rightarrow> ExplainNodeMetrics option \<Rightarrow> ExplainDiagnostic list" where
  "node_checks number_text f metrics =
     hotspot_check metrics
     @ (case estimateDiagnostic f of Some d \<Rightarrow> [d] | None \<Rightarrow> [])
     @ when_some (usesDiskWorkspace f) (diagnostic DiskSort Warning ''diskSort'' (extraString f ''Sort Method''))
     @ filter_loss_check f @ seq_scan_check f @ heap_check f @ workers_check number_text f
     @ loops_check f @ cache_check f"

definition getNodeDiagnostics ::
  "(jsnumber \<Rightarrow> jsstring) \<Rightarrow> ExplainNode \<Rightarrow> ExplainNodeMetrics option \<Rightarrow> ExplainDiagnostic list" where
  "getNodeDiagnostics number_text t metrics =
     (if (case metrics of Some m \<Rightarrow> neverExecuted m | None \<Rightarrow> False)
      then [diagnostic NeverExecuted Info ''neverExecuted'' None]
      else sort_cmp compare_severity (node_checks number_text (scalars t) metrics))"

definition diagnostics_step ::
  "(jsnumber \<Rightarrow> jsstring) \<Rightarrow> ExplainMetrics \<Rightarrow> (jsstring \<times> ExplainDiagnostic list) list \<Rightarrow> ExplainNode
   \<Rightarrow> (jsstring \<times> ExplainDiagnostic list) list" where
  "diagnostics_step number_text metrics result t =
     (let diagnostics = getNodeDiagnostics number_text t (byId metrics (node_id t)) in
      if diagnostics \<noteq> [] then set_prop result (node_id t, diagnostics) else result)"

definition getPlanDiagnostics ::
  "(jsnumber \<Rightarrow> jsstring) \<Rightarrow> ExplainPlan \<Rightarrow> ExplainMetrics \<Rightarrow> (jsstring \<times> ExplainDiagnostic list) list" where
  "getPlanDiagnostics number_text plan metrics =
     foldl (diagnostics_step number_text metrics) [] (flattenExplainNodes (plan_root plan))"

definition worse :: "ExplainDiagnosticSeverity option \<Rightarrow> ExplainDiagnostic \<Rightarrow> ExplainDiagnosticSeverity option" where
  "worse worst d =
     (case worst of
        None \<Rightarrow> Some (dg_severity d)
      | Some w \<Rightarrow> if SEVERITY_RANK (dg_severity d) < SEVERITY_RANK w then Some (dg_severity d) else worst)"

definition getWorstSeverity :: "ExplainDiagnostic list \<Rightarrow> ExplainDiagnosticSeverity option" where
  "getWorstSeverity diagnostics = foldl worse None diagnostics"

record SeverityCounts =
  sc_critical :: nat
  sc_warning :: nat
  sc_info :: nat

fun count_one :: "SeverityCounts \<Rightarrow> ExplainDiagnosticSeverity \<Rightarrow> SeverityCounts" where
  "count_one c Critical = c\<lparr>sc_critical := sc_critical c + 1\<rparr>"
| "count_one c Warning = c\<lparr>sc_warning := sc_warning c + 1\<rparr>"
| "count_one c Info = c\<lparr>sc_info := sc_info c + 1\<rparr>"

definition countDiagnosticsBySeverity :: "(jsstring \<times> ExplainDiagnostic list) list \<Rightarrow> SeverityCounts" where
  "countDiagnosticsBySeverity diagnostics =
     foldl (\<lambda>c (_, ds). foldl (\<lambda>c d. count_one c (dg_severity d)) c ds)
       \<lparr>sc_critical = 0, sc_warning = 0, sc_info = 0\<rparr> diagnostics"

section \<open>Order and severity\<close>

lemma compare_severity_rank:
  "compare_severity a b \<le> 0 \<longleftrightarrow> SEVERITY_RANK (dg_severity a) \<le> SEVERITY_RANK (dg_severity b)"
  by (cases "dg_severity a"; cases "dg_severity b") (simp_all add: compare_severity_def)

lemma SEVERITY_RANK_inj [simp]: "SEVERITY_RANK a = SEVERITY_RANK b \<longleftrightarrow> a = b"
  by (cases a; cases b) simp_all

lemma worst_of_sorted:
  "sorted (map (\<lambda>d. SEVERITY_RANK (dg_severity d)) (d # ds)) \<Longrightarrow> foldl worse (Some (dg_severity d)) ds = Some (dg_severity d)"
proof (induction ds)
  case (Cons e ds)
  then have "worse (Some (dg_severity d)) e = Some (dg_severity d)" by (auto simp: worse_def)
  with Cons show ?case by simp
qed simp

text \<open>The kinds a node can get, in the order of the checks.\<close>

lemma kinds_of_checks:
  "subseq (map dg_kind (node_checks number_text f metrics))
     ([Hotspot] @ [OverEstimate, UnderEstimate] @ [DiskSort] @ [FilterLoss] @ [LargeSeqScan] @ [HeapFetches]
      @ [WorkersUnderused] @ [HighLoops] @ [CacheMiss])"
  unfolding node_checks_def map_append
  by (intro list_emb_append_mono)
     (auto simp: hotspot_check_def estimateDiagnostic_def filter_loss_check_def seq_scan_check_def heap_check_def
        workers_check_def loops_check_def cache_check_def when_some_def diagnostic_def Let_def split: option.splits)

lemma distinct_subseq: "subseq xs ys \<Longrightarrow> distinct ys \<Longrightarrow> distinct xs"
  by (induction rule: list_emb.induct) (auto dest: list_emb_set)

lemma distinct_checks: "distinct (map dg_kind (node_checks number_text f metrics))"
  using distinct_subseq [OF kinds_of_checks] by simp

text \<open>Property (node_diagnostics_worst_first): a node's warnings are listed the worst first and in check order among equals,
  no kind twice, the badge's severity is the first one's, and a node that never ran gets that one note.\<close>

theorem node_diagnostics_worst_first:
  "sorted (map (\<lambda>d. SEVERITY_RANK (dg_severity d)) (getNodeDiagnostics number_text t metrics))
   \<and> distinct (map dg_kind (getNodeDiagnostics number_text t metrics))
   \<and> getWorstSeverity (getNodeDiagnostics number_text t metrics)
       = (case getNodeDiagnostics number_text t metrics of [] \<Rightarrow> None | d # _ \<Rightarrow> Some (dg_severity d))
   \<and> (if (case metrics of Some m \<Rightarrow> neverExecuted m | None \<Rightarrow> False)
      then map dg_kind (getNodeDiagnostics number_text t metrics) = [NeverExecuted]
      else map (\<lambda>s. filter (\<lambda>d. dg_severity d = s) (getNodeDiagnostics number_text t metrics)) [Critical, Warning, Info]
         = map (\<lambda>s. filter (\<lambda>d. dg_severity d = s) (node_checks number_text (scalars t) metrics)) [Critical, Warning, Info])"
proof -
  define ds where "ds = getNodeDiagnostics number_text t metrics"
  consider "(case metrics of Some m \<Rightarrow> neverExecuted m | None \<Rightarrow> False)" "map dg_kind ds = [NeverExecuted]"
    | "\<not> (case metrics of Some m \<Rightarrow> neverExecuted m | None \<Rightarrow> False)"
      "ds = sort_cmp compare_severity (node_checks number_text (scalars t) metrics)"
    by (auto simp: ds_def getNodeDiagnostics_def diagnostic_def)
  then have "sorted (map (\<lambda>d. SEVERITY_RANK (dg_severity d)) ds) \<and> distinct (map dg_kind ds)
      \<and> (if (case metrics of Some m \<Rightarrow> neverExecuted m | None \<Rightarrow> False) then map dg_kind ds = [NeverExecuted]
         else map (\<lambda>s. filter (\<lambda>d. dg_severity d = s) ds) [Critical, Warning, Info]
           = map (\<lambda>s. filter (\<lambda>d. dg_severity d = s) (node_checks number_text (scalars t) metrics)) [Critical, Warning, Info])"
  proof cases
    case 1
    then show ?thesis by (auto simp: map_eq_Cons_conv)
  next
    case 2
    have "distinct (map dg_kind ds) = distinct (map dg_kind (node_checks number_text (scalars t) metrics))"
      using 2(2) mset_sort_cmp by (metis mset_eq_imp_distinct_iff mset_map)
    moreover have "filter (\<lambda>d. dg_severity d = s) ds = filter (\<lambda>d. dg_severity d = s) (node_checks number_text (scalars t) metrics)" for s
      using filter_sort_cmp [of compare_severity "\<lambda>d. SEVERITY_RANK (dg_severity d)" "SEVERITY_RANK s", OF compare_severity_rank]
      by (simp add: 2(2))
    ultimately show ?thesis using 2 sorted_sort_cmp [OF compare_severity_rank] by (simp add: distinct_checks)
  qed
  moreover from this have "getWorstSeverity ds = (case ds of [] \<Rightarrow> None | d # _ \<Rightarrow> Some (dg_severity d))"
    by (cases ds) (simp_all add: getWorstSeverity_def worse_def worst_of_sorted)
  ultimately show ?thesis unfolding ds_def by blast
qed

section \<open>Estimates\<close>

lemma div_ge_iff: "0 < (p :: jsnumber) \<Longrightarrow> k \<le> a / p \<longleftrightarrow> k * p \<le> a"
  by (simp add: pos_le_divide_eq)

text \<open>Property (estimate_checks_are_symmetric): a node whose plan and run counted rows is reported exactly when the two
  differ by a factor of four or more (from ten actual rows on), as critical from a factor of ten on, and the kind says on which
  side the estimate was.\<close>

theorem estimate_checks_are_symmetric:
  assumes p: "plan_rows f = Some p" "0 < p" and a: "actual_rows f = Some a" "10 \<le> a"
  shows "map_option (\<lambda>d. (dg_kind d, dg_severity d)) (estimateDiagnostic f) =
    (if 10 * p \<le> a then Some (OverEstimate, Critical)
     else if 4 * p \<le> a then Some (OverEstimate, Warning)
     else if 10 * a \<le> p then Some (UnderEstimate, Critical)
     else if 4 * a \<le> p then Some (UnderEstimate, Warning)
     else None)"
proof -
  have pos: "0 < a" "\<not> p \<le> 0" "\<not> a < 10" "p \<noteq> 0" "a \<noteq> 0" using p a by simp_all
  have up: "1 \<le> a / p \<longleftrightarrow> p \<le> a" "k \<le> a / p \<longleftrightarrow> k * p \<le> a" "a / p < k \<longleftrightarrow> \<not> k * p \<le> a" for k
    using p(2) div_ge_iff [of p 1 a] div_ge_iff [of p k a] by (simp_all add: not_le [symmetric])
  have down: "1 / (a / p) = p / a" "k \<le> p / a \<longleftrightarrow> k * a \<le> p" "p / a < k \<longleftrightarrow> \<not> k * a \<le> p" for k
    using div_ge_iff [OF pos(1), of k p] by (simp_all add: not_le [symmetric])
  show ?thesis
  proof (cases "p \<le> a")
    case True
    then show ?thesis using p a pos
      by (simp add: estimateDiagnostic_def Let_def EXPLAIN_DIAGNOSTIC_THRESHOLDS_def up diagnostic_def)
  next
    case False
    then show ?thesis using p a pos
      by (simp add: estimateDiagnostic_def Let_def EXPLAIN_DIAGNOSTIC_THRESHOLDS_def up down diagnostic_def)
  qed
qed

theorem estimate_checks_are_symmetric_witness:
  "map_option (\<lambda>d. (dg_kind d, dg_severity d))
     (estimateDiagnostic (default_fields\<lparr>plan_rows := Some 100, actual_rows := Some 20\<rparr>)) = Some (UnderEstimate, Warning)"
  using estimate_checks_are_symmetric [of "default_fields\<lparr>plan_rows := Some 100, actual_rows := Some 20\<rparr>" 100 20] by simp

section \<open>The whole plan\<close>

lemma set_prop_fresh: "k \<notin> fst ` set kvs \<Longrightarrow> set_prop kvs (k, v) = kvs @ [(k, v)]"
  by (induction kvs) auto

definition own_diagnostics :: "(jsnumber \<Rightarrow> jsstring) \<Rightarrow> ExplainMetrics \<Rightarrow> ExplainNode \<Rightarrow> ExplainDiagnostic list" where
  "own_diagnostics number_text metrics t = getNodeDiagnostics number_text t (byId metrics (node_id t))"

lemma diagnostics_fold:
  assumes "distinct (map node_id ts)"
  shows "foldl (diagnostics_step number_text metrics) [] ts =
    map (\<lambda>t. (node_id t, own_diagnostics number_text metrics t)) (filter (\<lambda>t. own_diagnostics number_text metrics t \<noteq> []) ts)"
  using assms
proof (induction ts rule: rev_induct)
  case (snoc t ts)
  define kvs where "kvs = map (\<lambda>t. (node_id t, own_diagnostics number_text metrics t))
    (filter (\<lambda>t. own_diagnostics number_text metrics t \<noteq> []) ts)"
  have "node_id t \<notin> fst ` set kvs" using snoc.prems by (auto simp: kvs_def)
  with snoc show ?case
    by (simp add: kvs_def [symmetric] diagnostics_step_def own_diagnostics_def [symmetric] Let_def set_prop_fresh)
qed simp

fun severity_count :: "SeverityCounts \<Rightarrow> ExplainDiagnosticSeverity \<Rightarrow> nat" where
  "severity_count c Critical = sc_critical c"
| "severity_count c Warning = sc_warning c"
| "severity_count c Info = sc_info c"

lemma severity_count_one: "severity_count (count_one c s') s = severity_count c s + (if s = s' then 1 else 0)"
  by (cases s; cases s') simp_all

lemma severity_count_list:
  "severity_count (foldl (\<lambda>c d. count_one c (dg_severity d)) c ds) s =
   severity_count c s + length (filter (\<lambda>d. dg_severity d = s) ds)"
  by (induction ds arbitrary: c) (simp_all add: severity_count_one)

lemma severity_count_plan:
  "severity_count (foldl (\<lambda>c (k, ds). foldl (\<lambda>c d. count_one c (dg_severity d)) c ds) c kvs) s =
   severity_count c s + length (filter (\<lambda>d. dg_severity d = s) (concat (map snd kvs)))"
  by (induction kvs arbitrary: c) (auto simp: severity_count_list)

text \<open>Property (plan_diagnostics_cover_nodes): in a plan whose nodes have ids of their own, looking up a node gives exactly its
  warnings (nothing when it has none), and the counts per severity are those of all nodes together.\<close>

theorem plan_diagnostics_cover_nodes:
  assumes ids: "distinct (map node_id (flattenExplainNodes (plan_root plan)))"
  shows "map (\<lambda>t. map_of (getPlanDiagnostics number_text plan metrics) (node_id t)) (flattenExplainNodes (plan_root plan)) =
      map (\<lambda>t. if own_diagnostics number_text metrics t = [] then None else Some (own_diagnostics number_text metrics t))
        (flattenExplainNodes (plan_root plan))
    \<and> severity_count (countDiagnosticsBySeverity (getPlanDiagnostics number_text plan metrics)) s =
      length (filter (\<lambda>d. dg_severity d = s)
        (concat (map (own_diagnostics number_text metrics) (flattenExplainNodes (plan_root plan)))))"
proof -
  define ts where "ts = flattenExplainNodes (plan_root plan)"
  define own where "own = own_diagnostics number_text metrics"
  have r: "getPlanDiagnostics number_text plan metrics = map (\<lambda>t. (node_id t, own t)) (filter (\<lambda>t. own t \<noteq> []) ts)"
    using diagnostics_fold [OF ids, of number_text metrics]
    by (simp add: getPlanDiagnostics_def ts_def own_def)
  have "map_of (map (\<lambda>t. (node_id t, own t)) (filter (\<lambda>t. own t \<noteq> []) ts)) (node_id t) = (if own t = [] then None else Some (own t))"
    if t: "t \<in> set ts" for t
  proof -
    have inj: "u = t" if "u \<in> set ts" "node_id u = node_id t" for u
      using ids that t unfolding ts_def [symmetric] distinct_map by (meson inj_onD)
    show ?thesis
    proof (cases "own t = []")
      case True
      with inj show ?thesis by (auto simp: map_of_eq_None_iff)
    next
      case False
      have "distinct (map node_id ts)" using ids by (simp add: ts_def)
      then have "distinct (map fst (map (\<lambda>t. (node_id t, own t)) (filter (\<lambda>t. own t \<noteq> []) ts)))"
        by (simp add: comp_def distinct_map_filter)
      moreover have "(node_id t, own t) \<in> set (map (\<lambda>t. (node_id t, own t)) (filter (\<lambda>t. own t \<noteq> []) ts))"
        using t False by auto
      ultimately have "map_of (map (\<lambda>t. (node_id t, own t)) (filter (\<lambda>t. own t \<noteq> []) ts)) (node_id t) = Some (own t)"
        by (rule map_of_is_SomeI)
      with False show ?thesis by simp
    qed
  qed
  moreover have "concat (map own (filter (\<lambda>t. own t \<noteq> []) ts)) = concat (map own ts)" by (induction ts) auto
  then have "severity_count (countDiagnosticsBySeverity (map (\<lambda>t. (node_id t, own t)) (filter (\<lambda>t. own t \<noteq> []) ts))) s =
      length (filter (\<lambda>d. dg_severity d = s) (concat (map own ts)))"
    unfolding countDiagnosticsBySeverity_def severity_count_plan by (cases s) (simp_all add: comp_def)
  ultimately show ?thesis unfolding r unfolding ts_def [symmetric] own_def [symmetric] by simp
qed

definition slow_plan :: ExplainPlan where
  "slow_plan = \<lparr>plan_root = createExplainNode ''node_0'' (\<lambda>f. f\<lparr>actual_loops := Some 5000\<rparr>) [],
     planning_time_ms = None, execution_time_ms = None, original_query = [], plan_driver = ''postgres'',
     has_analyze_data = True, raw_output = None\<rparr>"

theorem plan_diagnostics_cover_nodes_witness:
  "severity_count (countDiagnosticsBySeverity (getPlanDiagnostics (\<lambda>_. []) slow_plan (computeExplainMetrics slow_plan))) Info =
   length (filter (\<lambda>d. dg_severity d = Info)
     (concat (map (own_diagnostics (\<lambda>_. []) (computeExplainMetrics slow_plan)) (flattenExplainNodes (plan_root slow_plan)))))"
  using plan_diagnostics_cover_nodes [of slow_plan "\<lambda>_. []" "computeExplainMetrics slow_plan" Info]
  by (simp add: slow_plan_def)

end
