(* ===== verification/PlanColumns.thy ===== *)
theory PlanColumns
  imports JsValue "HOL-Library.Multiset"
begin

text \<open>
  Column order of the plan table (\<open>packages/explain/src/tableColumns.ts\<close>). Column ids are their strings.
  A saved order is any JSON value; \<open>indexOf\<close> is \<open>find_index\<close>, with \<open>None\<close> for \<open>-1\<close>.
\<close>

definition EXPLAIN_TABLE_COLUMNS :: "jsstring list" where
  "EXPLAIN_TABLE_COLUMNS =
     [''operation'', ''relation'', ''cost'', ''estRows'', ''actualRows'', ''loops'', ''selfTime'', ''estimateGap'', ''filter'']"

definition EXPLAIN_TABLE_ANALYZE_COLUMNS :: "jsstring list" where
  "EXPLAIN_TABLE_ANALYZE_COLUMNS = [''actualRows'', ''loops'']"

definition isExplainTableColumnId :: "jsval \<Rightarrow> bool" where
  "isExplainTableColumnId v \<longleftrightarrow> (case v of JStr s \<Rightarrow> s \<in> set EXPLAIN_TABLE_COLUMNS | _ \<Rightarrow> False)"

definition position :: "'a list \<Rightarrow> 'a \<Rightarrow> nat option" where
  "position xs x = find_index (\<lambda>y. y = x) xs"

text \<open>The two loops of \<open>normalizeExplainTableColumnOrder\<close>: over the saved value, over the default order.\<close>

definition saved_step :: "jsstring list \<Rightarrow> jsval \<Rightarrow> jsstring list" where
  "saved_step order v =
     (if isExplainTableColumnId v then
        (case v of JStr s \<Rightarrow> if s \<in> set order then order else order @ [s] | _ \<Rightarrow> order)
      else order)"

definition default_step :: "jsstring list \<Rightarrow> nat \<times> jsstring \<Rightarrow> jsstring list" where
  "default_step order p =
     (case p of (defaultIndex, i) \<Rightarrow>
        if i \<in> set order then order
        else (case List.find (\<lambda>c. c \<in> set order) (rev (take defaultIndex EXPLAIN_TABLE_COLUMNS)) of
                None \<Rightarrow> splice_in 0 i order
              | Some anchor \<Rightarrow> splice_in (case position order anchor of Some k \<Rightarrow> k + 1 | None \<Rightarrow> 0) i order))"

definition saved_order :: "jsval \<Rightarrow> jsstring list" where
  "saved_order saved = (case saved of JArr ids \<Rightarrow> foldl saved_step [] ids | _ \<Rightarrow> [])"

definition normalizeExplainTableColumnOrder :: "jsval \<Rightarrow> jsstring list" where
  "normalizeExplainTableColumnOrder saved =
     foldl default_step (saved_order saved) (enumerate 0 EXPLAIN_TABLE_COLUMNS)"

definition moveExplainTableColumn :: "jsstring list \<Rightarrow> jsstring \<Rightarrow> jsstring \<Rightarrow> jsstring list" where
  "moveExplainTableColumn order column target =
     (case (position order column, position order target) of
        (Some from, Some to) \<Rightarrow>
          if from = to then order else splice_in to column (filter (\<lambda>i. i \<noteq> column) order)
      | _ \<Rightarrow> order)"

text \<open>The direction is \<open>-1\<close> or \<open>1\<close>; an index out of range reads \<open>undefined\<close>.\<close>

definition shiftExplainTableColumn :: "jsstring list \<Rightarrow> jsstring \<Rightarrow> int \<Rightarrow> jsstring list \<Rightarrow> jsstring list" where
  "shiftExplainTableColumn order column direction visible =
     (let shown = filter (\<lambda>i. i \<in> set visible) order
      in case position shown column of
           None \<Rightarrow> order
         | Some at \<Rightarrow>
             (let k = int at + direction in
              if 0 \<le> k \<and> nat k < length shown \<and> shown ! nat k \<noteq> []
              then moveExplainTableColumn order column (shown ! nat k) else order))"

definition isDefaultExplainTableColumnOrder :: "jsstring list \<Rightarrow> bool" where
  "isDefaultExplainTableColumnOrder order \<longleftrightarrow>
     length order = length EXPLAIN_TABLE_COLUMNS
     \<and> list_all (\<lambda>(index, i). EXPLAIN_TABLE_COLUMNS ! index = i) (enumerate 0 order)"

section \<open>Completing a saved order\<close>

lemma position_SomeD: "position xs x = Some k \<Longrightarrow> k < length xs \<and> xs ! k = x"
  unfolding position_def by (drule find_index_Some) simp

lemma position_None: "position xs x = None \<longleftrightarrow> x \<notin> set xs"
  by (auto simp: position_def find_index_filter_nth)

lemma position_iff:
  assumes "distinct xs"
  shows "position xs x = Some k \<longleftrightarrow> k < length xs \<and> xs ! k = x"
proof
  assume k: "k < length xs \<and> xs ! k = x"
  then obtain j where j: "position xs x = Some j" using position_None [of xs x] by fastforce
  then have "j = k" using assms k position_SomeD [OF j] by (metis nth_eq_iff_index_eq)
  with j show "position xs x = Some k" by simp
qed (rule position_SomeD)

lemma position_append: "distinct (xs @ x # ys) \<Longrightarrow> position (xs @ x # ys) x = Some (length xs)"
  by (simp only: position_iff) simp

lemma distinct_columns [simp]: "distinct EXPLAIN_TABLE_COLUMNS"
  by (simp add: EXPLAIN_TABLE_COLUMNS_def)

lemma saved_fold:
  "distinct os \<Longrightarrow> set os \<subseteq> set EXPLAIN_TABLE_COLUMNS \<Longrightarrow>
   distinct (foldl saved_step os vs) \<and> set (foldl saved_step os vs) \<subseteq> set EXPLAIN_TABLE_COLUMNS"
  by (induction vs arbitrary: os)
     (auto simp: saved_step_def isExplainTableColumnId_def split: jsval.splits if_splits)

lemma saved_order_columns: "distinct (saved_order v)" "set (saved_order v) \<subseteq> set EXPLAIN_TABLE_COLUMNS"
  using saved_fold [of "[]"] by (auto simp: saved_order_def split: jsval.split)

lemma saved_fold_valid:
  "distinct (os @ xs) \<Longrightarrow> set xs \<subseteq> set EXPLAIN_TABLE_COLUMNS \<Longrightarrow> foldl saved_step os (map JStr xs) = os @ xs"
  by (induction xs arbitrary: os) (auto simp: saved_step_def isExplainTableColumnId_def)

lemma find_rev_take:
  "0 < k \<Longrightarrow> k < length xs \<Longrightarrow> P (xs ! (k - 1)) \<Longrightarrow> List.find P (rev (take k xs)) = Some (xs ! (k - 1))"
  by (cases k) (simp_all add: take_Suc_conv_app_nth)

text \<open>One step of the second loop, when the columns before the step's are all there: the column goes right
  after its predecessor.\<close>

lemma default_step_new:
  assumes k: "k < length EXPLAIN_TABLE_COLUMNS" and new: "EXPLAIN_TABLE_COLUMNS ! k \<notin> set os"
    and d: "distinct os" and before: "set (take k EXPLAIN_TABLE_COLUMNS) \<subseteq> set os"
  shows "\<exists>as bs. os = as @ bs \<and> default_step os (k, EXPLAIN_TABLE_COLUMNS ! k) = as @ EXPLAIN_TABLE_COLUMNS ! k # bs
      \<and> (if k = 0 then as = [] else as \<noteq> [] \<and> last as = EXPLAIN_TABLE_COLUMNS ! (k - 1))"
proof (cases "k = 0")
  case True
  then show ?thesis using new by (simp add: default_step_def splice_in_def)
next
  case False
  define anchor where "anchor = EXPLAIN_TABLE_COLUMNS ! (k - 1)"
  have "anchor \<in> set (take k EXPLAIN_TABLE_COLUMNS)"
    using False k by (auto simp: anchor_def in_set_conv_nth intro: exI [of _ "k - 1"])
  with before have a: "anchor \<in> set os" by blast
  then obtain as bs where os: "os = as @ anchor # bs" by (meson split_list)
  have "List.find (\<lambda>c. c \<in> set os) (rev (take k EXPLAIN_TABLE_COLUMNS)) = Some anchor"
    using find_rev_take [of k EXPLAIN_TABLE_COLUMNS "\<lambda>c. c \<in> set os"] False k a by (simp add: anchor_def)
  moreover have "position os anchor = Some (length as)" unfolding os by (rule position_append) (use d os in simp)
  ultimately have "default_step os (k, EXPLAIN_TABLE_COLUMNS ! k)
      = splice_in (length as + 1) (EXPLAIN_TABLE_COLUMNS ! k) os"
    using new by (simp add: default_step_def)
  also have "\<dots> = (as @ [anchor]) @ EXPLAIN_TABLE_COLUMNS ! k # bs" by (simp add: os splice_in_def)
  finally show ?thesis using os False
    by (intro exI [of _ "as @ [anchor]"] exI [of _ bs]) (simp add: anchor_def)
qed

text \<open>What the second loop keeps: every column before \<open>k\<close> is there, the saved ones in their order, each of
  the others right after its predecessor.\<close>

definition in_default_place :: "jsstring list \<Rightarrow> nat \<Rightarrow> bool" where
  "in_default_place os j \<longleftrightarrow>
     (if j = 0 then prefix [EXPLAIN_TABLE_COLUMNS ! 0] os
      else sublist [EXPLAIN_TABLE_COLUMNS ! (j - 1), EXPLAIN_TABLE_COLUMNS ! j] os)"

definition completes :: "jsstring list \<Rightarrow> nat \<Rightarrow> jsstring list \<Rightarrow> bool" where
  "completes known k os \<longleftrightarrow>
     distinct os \<and> set os = set known \<union> set (take k EXPLAIN_TABLE_COLUMNS)
     \<and> filter (\<lambda>c. c \<in> set known) os = known
     \<and> (\<forall>j < k. EXPLAIN_TABLE_COLUMNS ! j \<notin> set known \<longrightarrow> in_default_place os j)"

lemma sublist_insert:
  assumes "sublist [x, y] (as @ bs)" "as = [] \<or> last as \<noteq> x"
  shows "sublist [x, y] (as @ c # bs)"
proof -
  obtain ps ss where e: "as @ bs = ps @ [x, y] @ ss" using assms(1) by (auto simp: sublist_def)
  consider us where "ps = as @ us" "bs = us @ [x, y] @ ss" | us where "as = ps @ us" "us @ bs = [x, y] @ ss"
    using e by (auto simp: append_eq_append_conv2)
  then show ?thesis
  proof cases
    case 1
    then have "as @ c # bs = (as @ c # us) @ [x, y] @ ss" by simp
    then show ?thesis by (metis sublist_appendI)
  next
    case 2
    show ?thesis
    proof (cases us)
      case Nil
      with 2 have "as @ c # bs = (as @ [c]) @ [x, y] @ ss" by simp
      then show ?thesis by (metis sublist_appendI)
    next
      case (Cons u us')
      with 2 have u: "u = x" "us' @ bs = y # ss" by simp_all
      with Cons 2(1) assms(2) have "us' \<noteq> []" by auto
      with u obtain us'' where "us' = y # us''" by (cases us') auto
      with Cons u 2(1) have "as @ c # bs = ps @ [x, y] @ (us'' @ c # bs)" by simp
      then show ?thesis by (metis sublist_appendI)
    qed
  qed
qed

lemma completes_step:
  assumes c: "completes known k os" and k: "k < length EXPLAIN_TABLE_COLUMNS"
  shows "completes known (Suc k) (default_step os (k, EXPLAIN_TABLE_COLUMNS ! k))"
proof (cases "EXPLAIN_TABLE_COLUMNS ! k \<in> set os")
  case True
  have "EXPLAIN_TABLE_COLUMNS ! k \<notin> set (take k EXPLAIN_TABLE_COLUMNS)"
    using k by (auto simp: in_set_conv_nth nth_eq_iff_index_eq)
  with True c have "EXPLAIN_TABLE_COLUMNS ! k \<in> set known" by (auto simp: completes_def)
  with True c k show ?thesis
    by (auto simp: completes_def default_step_def take_Suc_conv_app_nth less_Suc_eq)
next
  case False
  define i where "i = EXPLAIN_TABLE_COLUMNS ! k"
  have "distinct os" "set (take k EXPLAIN_TABLE_COLUMNS) \<subseteq> set os" using c by (auto simp: completes_def)
  from default_step_new [OF k False this] obtain as bs where
    os: "os = as @ bs" and new: "default_step os (k, EXPLAIN_TABLE_COLUMNS ! k) = as @ i # bs"
    and at: "if k = 0 then as = [] else as \<noteq> [] \<and> last as = EXPLAIN_TABLE_COLUMNS ! (k - 1)"
    unfolding i_def by blast
  have old: "in_default_place (as @ i # bs) j" if "j < k" "in_default_place os j" for j
  proof (cases "j = 0")
    case True
    with that at os show ?thesis by (cases as) (auto simp: in_default_place_def)
  next
    case False
    have "as = [] \<or> last as \<noteq> EXPLAIN_TABLE_COLUMNS ! (j - 1)"
      using at False that(1) k by (auto simp: nth_eq_iff_index_eq)
    with False that(2) os sublist_insert show ?thesis by (simp add: in_default_place_def)
  qed
  have new_place: "in_default_place (as @ i # bs) k"
  proof (cases "k = 0")
    case False
    then have "as @ i # bs = butlast as @ [EXPLAIN_TABLE_COLUMNS ! (k - 1), i] @ bs"
      using at by (cases as rule: rev_cases) auto
    then show ?thesis using False by (metis in_default_place_def i_def sublist_appendI)
  qed (use at in \<open>simp add: in_default_place_def i_def\<close>)
  have follows: "\<forall>j < Suc k. EXPLAIN_TABLE_COLUMNS ! j \<notin> set known \<longrightarrow> in_default_place (as @ i # bs) j"
    using old new_place c by (auto simp: completes_def less_Suc_eq)
  have "i \<notin> set known" using c False by (auto simp: completes_def i_def)
  then have "filter (\<lambda>c. c \<in> set known) (as @ i # bs) = known" using c os by (simp add: completes_def)
  moreover have "distinct (as @ i # bs)" "set (as @ i # bs) = set known \<union> set (take (Suc k) EXPLAIN_TABLE_COLUMNS)"
    using c os False k by (auto simp: completes_def i_def take_Suc_conv_app_nth)
  ultimately show ?thesis unfolding new completes_def using follows by blast
qed

lemma completes_fold:
  "completes known k os \<Longrightarrow> k \<le> length EXPLAIN_TABLE_COLUMNS \<Longrightarrow>
   completes known (length EXPLAIN_TABLE_COLUMNS) (foldl default_step os (enumerate k (drop k EXPLAIN_TABLE_COLUMNS)))"
proof (induction "length EXPLAIN_TABLE_COLUMNS - k" arbitrary: k os)
  case (Suc n)
  then have k: "k < length EXPLAIN_TABLE_COLUMNS" by simp
  then have "drop k EXPLAIN_TABLE_COLUMNS = EXPLAIN_TABLE_COLUMNS ! k # drop (Suc k) EXPLAIN_TABLE_COLUMNS"
    by (simp add: Cons_nth_drop_Suc)
  then show ?case using Suc(1) [OF _ completes_step [OF Suc(3) k]] Suc(2) k by simp
qed simp

lemma normalize_completes:
  "completes (saved_order saved) (length EXPLAIN_TABLE_COLUMNS) (normalizeExplainTableColumnOrder saved)"
proof -
  have "completes (saved_order saved) 0 (saved_order saved)"
    using saved_order_columns(1) [of saved] by (simp add: completes_def)
  from completes_fold [OF this] show ?thesis by (simp add: normalizeExplainTableColumnOrder_def)
qed

text \<open>C40 (normalized_order_is_complete): whatever was saved, the order shown has every column exactly once; the
  known saved columns keep their order, and a column the saved order lacks comes right after the column
  it follows by default (the first one comes first).\<close>

theorem normalized_order_is_complete:
  "mset (normalizeExplainTableColumnOrder saved) = mset EXPLAIN_TABLE_COLUMNS
   \<and> filter (\<lambda>c. c \<in> set (saved_order saved)) (normalizeExplainTableColumnOrder saved) = saved_order saved
   \<and> list_all (\<lambda>j. EXPLAIN_TABLE_COLUMNS ! j \<in> set (saved_order saved)
        \<or> in_default_place (normalizeExplainTableColumnOrder saved) j) [0..<length EXPLAIN_TABLE_COLUMNS]
   \<and> saved_order (JArr (map JStr (normalizeExplainTableColumnOrder saved))) = normalizeExplainTableColumnOrder saved"
proof -
  define o' where "o' = normalizeExplainTableColumnOrder saved"
  have c: "distinct o'" "set o' = set (saved_order saved) \<union> set EXPLAIN_TABLE_COLUMNS"
    "filter (\<lambda>c. c \<in> set (saved_order saved)) o' = saved_order saved"
    "\<forall>j < length EXPLAIN_TABLE_COLUMNS. EXPLAIN_TABLE_COLUMNS ! j \<notin> set (saved_order saved) \<longrightarrow> in_default_place o' j"
    using normalize_completes [of saved] by (simp_all add: completes_def o'_def)
  have s: "set o' = set EXPLAIN_TABLE_COLUMNS"
    using c(2) saved_order_columns(2) [of saved] by blast
  have "saved_order (JArr (map JStr o')) = o'"
    using saved_fold_valid [of "[]" o'] c(1) s by (simp add: saved_order_def)
  moreover have "mset o' = mset EXPLAIN_TABLE_COLUMNS"
    using c(1) s set_eq_iff_mset_eq_distinct distinct_columns by blast
  moreover have "list_all (\<lambda>j. EXPLAIN_TABLE_COLUMNS ! j \<in> set (saved_order saved) \<or> in_default_place o' j)
      [0..<length EXPLAIN_TABLE_COLUMNS]"
    unfolding list_all_iff set_upt using c(4) by auto
  ultimately show ?thesis using c(3) unfolding o'_def by blast
qed

section \<open>Moving a column\<close>

lemma filter_neq_append: "x \<notin> set xs \<Longrightarrow> filter (\<lambda>i. i \<noteq> x) xs = xs"
  by (auto simp: filter_id_conv)

lemma move_right:
  assumes "distinct (A @ c # B @ t # D)"
  shows "moveExplainTableColumn (A @ c # B @ t # D) c t = A @ B @ t # c # D"
proof -
  have "position (A @ c # B @ t # D) c = Some (length A)" using assms by (intro position_append) simp
  moreover have "position (A @ c # B @ t # D) t = Some (length (A @ c # B))"
    using position_append [of "A @ c # B" t D] assms by simp
  moreover have "filter (\<lambda>i. i \<noteq> c) (A @ c # B @ t # D) = A @ B @ t # D"
    using assms by (auto simp: filter_neq_append)
  ultimately show ?thesis by (simp add: moveExplainTableColumn_def splice_in_def)
qed

lemma move_left:
  assumes "distinct (A @ t # B @ c # D)"
  shows "moveExplainTableColumn (A @ t # B @ c # D) c t = A @ c # t # B @ D"
proof -
  have "position (A @ t # B @ c # D) t = Some (length A)" using assms by (intro position_append) simp
  moreover have "position (A @ t # B @ c # D) c = Some (length (A @ t # B))"
    using position_append [of "A @ t # B" c D] assms by simp
  moreover have "filter (\<lambda>i. i \<noteq> c) (A @ t # B @ c # D) = A @ t # B @ D"
    using assms by (auto simp: filter_neq_append)
  ultimately show ?thesis by (simp add: moveExplainTableColumn_def splice_in_def)
qed

lemma two_places:
  assumes "x \<in> set xs" "y \<in> set xs" "x \<noteq> y"
  obtains A B D where "xs = A @ x # B @ y # D" | A B D where "xs = A @ y # B @ x # D"
proof -
  obtain us vs where xs: "xs = us @ x # vs" using assms(1) by (meson split_list)
  with assms(2,3) consider "y \<in> set vs" | "y \<in> set us" by auto
  then show thesis
    using that xs by cases (metis split_list, metis append.assoc append_Cons split_list)
qed

lemma filter_eq_ConsE:
  assumes "filter P xs = y # ys"
  obtains us vs where "xs = us @ y # vs" "filter P us = []" "P y" "filter P vs = ys"
  using filter_eq_ConsD [OF assms] by (auto simp: filter_empty_conv)

lemma filter_eq_appendE:
  assumes "filter P xs = as @ bs"
  obtains us vs where "xs = us @ vs" "filter P us = as" "filter P vs = bs"
  using assms
proof (induction as arbitrary: xs thesis)
  case (Cons a as)
  from Cons.prems(2) obtain us vs where "xs = us @ a # vs" "filter P us = []" "P a" "filter P vs = as @ bs"
    by (auto elim!: filter_eq_ConsE)
  moreover from Cons.IH [OF _ this(4)] obtain us' vs' where "vs = us' @ vs'" "filter P us' = as" "filter P vs' = bs"
    by metis
  ultimately show ?case using Cons.prems(1) [of "us @ a # us'" vs'] by simp
next
  case Nil
  show ?case by (rule Nil(1) [of "[]" xs]) (use Nil(2) in simp_all)
qed

text \<open>Property (moved_column_lands): dragging a column to another takes the other's place, keeps the order of all the
  rest, and dragging it back to where it was restores the order.\<close>

theorem moved_column_lands:
  assumes d: "distinct order" and frm: "position order column = Some from" and to: "position order target = Some to"
  shows "position (moveExplainTableColumn order column target) column = Some to
    \<and> filter (\<lambda>i. i \<noteq> column) (moveExplainTableColumn order column target) = filter (\<lambda>i. i \<noteq> column) order
    \<and> moveExplainTableColumn (moveExplainTableColumn order column target) column
        (moveExplainTableColumn order column target ! from) = order"
proof (cases "from = to")
  case True
  with frm to have "moveExplainTableColumn order column target = order" by (simp add: moveExplainTableColumn_def)
  moreover have "moveExplainTableColumn order column (order ! from) = order"
    using position_SomeD [OF frm] frm by (simp add: moveExplainTableColumn_def)
  ultimately show ?thesis using frm True by simp
next
  case False
  have f: "from < length order" "order ! from = column" and t: "to < length order" "order ! to = target"
    using position_SomeD [OF frm] position_SomeD [OF to] by simp_all
  have "column \<in> set order" "target \<in> set order" "column \<noteq> target"
    using f t False d by (auto simp: nth_eq_iff_index_eq)
  then consider A B D where "order = A @ column # B @ target # D" | A B D where "order = A @ target # B @ column # D"
    by (rule two_places) blast+
  then show ?thesis
  proof cases
    case 1
    note r = move_right [OF d [unfolded 1], folded 1]
    have too: "to = length (A @ B @ [target])" and frm1: "from = length A"
      using frm to position_append [of A column "B @ target # D"] position_append [of "A @ column # B" target D] d 1
      by simp_all
    obtain b B' where b: "B @ [target] = b # B'" by (cases "B @ [target]") auto
    have r': "moveExplainTableColumn order column target = A @ b # B' @ column # D"
      unfolding r using arg_cong [OF b, of "\<lambda>xs. A @ xs @ column # D"] by simp
    then have "moveExplainTableColumn order column target ! from = b" by (simp add: frm1 nth_append)
    moreover have o': "order = A @ column # b # B' @ D"
      using arg_cong [OF b, of "\<lambda>xs. A @ column # xs @ D"] 1 by simp
    moreover have "moveExplainTableColumn (A @ b # B' @ column # D) column b = A @ column # b # B' @ D"
      by (rule move_left) (use d o' in auto)
    moreover have "position (A @ B @ target # column # D) column = Some to"
      unfolding too using position_append [of "A @ B @ [target]" column D] d 1 by auto
    moreover have "filter (\<lambda>i. i \<noteq> column) (A @ B @ target # column # D) = filter (\<lambda>i. i \<noteq> column) order"
      by (simp add: 1)
    ultimately show ?thesis using r r' o' by metis
  next
    case 2
    note r = move_left [OF d [unfolded 2], folded 2]
    have too: "to = length A" and frm2: "from = length (A @ target # B)"
      using frm to position_append [of A target "B @ column # D"] position_append [of "A @ target # B" column D] d 2
      by simp_all
    obtain b B' where b: "target # B = B' @ [b]" by (metis rev_exhaust list.distinct(1))
    have r': "moveExplainTableColumn order column target = A @ column # B' @ b # D"
      unfolding r using arg_cong [OF b, of "\<lambda>xs. A @ column # xs @ D"] by simp
    have "from = length (A @ column # B')" using arg_cong [OF b, of length] frm2 by simp
    then have "moveExplainTableColumn order column target ! from = b" unfolding r' by (simp add: nth_append)
    moreover have o': "order = A @ B' @ b # column # D"
      using arg_cong [OF b, of "\<lambda>xs. A @ xs @ column # D"] 2 by simp
    moreover have "moveExplainTableColumn (A @ column # B' @ b # D) column b = A @ B' @ b # column # D"
      by (rule move_right) (use d o' in auto)
    moreover have "position (A @ column # target # B @ D) column = Some (length A)"
      using d 2 by (intro position_append) auto
    moreover have "filter (\<lambda>i. i \<noteq> column) (A @ column # target # B @ D) = filter (\<lambda>i. i \<noteq> column) order"
      by (simp add: 2)
    ultimately show ?thesis using too r r' o' by metis
  qed
qed

theorem moved_column_lands_witness:
  "position (moveExplainTableColumn EXPLAIN_TABLE_COLUMNS ''cost'' ''loops'') ''cost'' = Some 5"
  using moved_column_lands [of EXPLAIN_TABLE_COLUMNS "''cost''" 2 "''loops''" 5]
  by (simp add: EXPLAIN_TABLE_COLUMNS_def position_def)

text \<open>Property (shift_swaps_shown_neighbours): moving a column one place right, or its right neighbour one place left,
  swaps the two among the columns that are shown; the hidden columns keep their order.\<close>

theorem shift_swaps_shown_neighbours:
  assumes d: "distinct order" and ids: "set order \<subseteq> set EXPLAIN_TABLE_COLUMNS"
    and shown: "filter (\<lambda>i. i \<in> set visible) order = xs @ a # b # ys"
  shows "filter (\<lambda>i. i \<in> set visible) (shiftExplainTableColumn order a 1 visible) = xs @ b # a # ys
    \<and> filter (\<lambda>i. i \<in> set visible) (shiftExplainTableColumn order b (- 1) visible) = xs @ b # a # ys
    \<and> filter (\<lambda>i. i \<notin> set visible) (shiftExplainTableColumn order a 1 visible) = filter (\<lambda>i. i \<notin> set visible) order
    \<and> filter (\<lambda>i. i \<notin> set visible) (shiftExplainTableColumn order b (- 1) visible) = filter (\<lambda>i. i \<notin> set visible) order"
proof -
  obtain us vs where 1: "order = us @ vs" "filter (\<lambda>i. i \<in> set visible) us = xs" "filter (\<lambda>i. i \<in> set visible) vs = a # b # ys"
    using shown by (rule filter_eq_appendE)
  obtain A0 vs' where 2: "vs = A0 @ a # vs'" "filter (\<lambda>i. i \<in> set visible) A0 = []" "a \<in> set visible"
      "filter (\<lambda>i. i \<in> set visible) vs' = b # ys"
    using 1(3) by (rule filter_eq_ConsE)
  obtain B D where 3: "vs' = B @ b # D" "filter (\<lambda>i. i \<in> set visible) B = []" "b \<in> set visible"
      "filter (\<lambda>i. i \<in> set visible) D = ys"
    using 2(4) by (rule filter_eq_ConsE)
  have o': "order = (us @ A0) @ a # B @ b # D" using 1 2 3 by simp
  have sd: "distinct (xs @ a # b # ys)" using d shown by (metis distinct_filter)
  have pos: "position (xs @ a # b # ys) a = Some (length xs)" "position (xs @ a # b # ys) b = Some (length xs + 1)"
    using sd position_append [of "xs @ [a]" b ys] by (auto intro: position_append)
  have "a \<noteq> []" "b \<noteq> []" using ids unfolding o' by (auto simp: EXPLAIN_TABLE_COLUMNS_def)
  with pos have "shiftExplainTableColumn order a 1 visible = moveExplainTableColumn order a b"
    "shiftExplainTableColumn order b (- 1) visible = moveExplainTableColumn order b a"
    by (simp_all add: shiftExplainTableColumn_def shown nth_append nat_add_distrib Let_def)
  moreover have "moveExplainTableColumn order a b = (us @ A0) @ B @ b # a # D" unfolding o'
    by (rule move_right) (use d o' in simp)
  moreover have "moveExplainTableColumn order b a = (us @ A0) @ b # a # B @ D" unfolding o'
    by (rule move_left) (use d o' in simp)
  ultimately show ?thesis using 1 2 3 by (simp add: o')
qed

theorem shift_swaps_shown_neighbours_witness:
  "shiftExplainTableColumn [''cost'', ''loops'', ''filter''] ''cost'' 1 [''cost'', ''filter''] = [''loops'', ''filter'', ''cost'']
   \<and> filter (\<lambda>i. i \<in> set [''cost'', ''filter''])
       (shiftExplainTableColumn [''cost'', ''loops'', ''filter''] ''cost'' 1 [''cost'', ''filter'']) = [''filter'', ''cost'']"
  using shift_swaps_shown_neighbours [of "[''cost'', ''loops'', ''filter'']" "[''cost'', ''filter'']" "[]" "''cost''" "''filter''" "[]"]
  by (simp add: EXPLAIN_TABLE_COLUMNS_def shiftExplainTableColumn_def moveExplainTableColumn_def position_def splice_in_def)

end
