(* ===== verification/NotebookVars.thy ===== *)
theory NotebookVars
  imports SqlCopy ForeignKeys
begin

text \<open>
  References between notebook cells (\<open>utils/notebookVariables.ts\<close>): \<open>{{cell_N}}\<close> becomes the alias of a CTE
  that holds the rows of cell N. Result objects are references into \<open>results\<close>, which does not change (the
  code replaces a result, it never mutates one); the cache of rendered CTEs is explicit state, keyed by
  the reference and the variant key. A \<open>WeakMap\<close> entry that is not there is an empty map.
\<close>

record QueryResult =
  qr_columns :: "jsstring list"
  qr_rows :: "jsval list list"

record VarCell =
  vc_sql :: bool
  vc_result :: "nat option"
  vc_error :: "jsstring option"

section \<open>References\<close>

text \<open>A match of the pattern at the head of the text: its digits. \<open>ref_segs\<close> is the text cut at the matches.\<close>

definition REF_OPEN :: jsstring where
  "REF_OPEN = ''{{cell_''"

definition match_ref :: "jsstring \<Rightarrow> jsstring option" where
  "match_ref s =
     (if prefix REF_OPEN s then
        (let ds = takeWhile is_digit (drop 7 s) in
         if ds \<noteq> [] \<and> prefix ''}}'' (drop (7 + length ds) s) then Some ds else None)
      else None)"

datatype ref_seg = Plain char | Ref jsstring

function ref_segs :: "jsstring \<Rightarrow> ref_seg list" where
  "ref_segs [] = []"
| "ref_segs (c # s) =
     (case match_ref (c # s) of
        Some ds \<Rightarrow> Ref ds # ref_segs (drop (9 + length ds) (c # s))
      | None \<Rightarrow> Plain c # ref_segs s)"
  by pat_completeness auto
termination by (relation "measure length") auto

fun seg_text :: "ref_seg \<Rightarrow> jsstring" where
  "seg_text (Plain c) = [c]"
| "seg_text (Ref ds) = REF_OPEN @ ds @ ''}}''"

record CellReference =
  cr_match :: jsstring
  cr_cellIndex :: int

definition cell_index :: "jsstring \<Rightarrow> int" where
  "cell_index ds = int (digits_value ds) - 1"

definition extractCellReferences :: "jsstring \<Rightarrow> CellReference list" where
  "extractCellReferences sql =
     List.map_filter (\<lambda>g. case g of Ref ds \<Rightarrow> Some \<lparr>cr_match = seg_text g, cr_cellIndex = cell_index ds\<rparr> | Plain _ \<Rightarrow> None)
       (ref_segs sql)"

definition hasCellReferences :: "jsstring \<Rightarrow> bool" where
  "hasCellReferences sql \<longleftrightarrow> list_ex (\<lambda>g. case g of Ref _ \<Rightarrow> True | Plain _ \<Rightarrow> False) (ref_segs sql)"

definition var_cell_at :: "VarCell list \<Rightarrow> int \<Rightarrow> VarCell option" where
  "var_cell_at cells i = (if 0 \<le> i \<and> nat i < length cells then Some (cells ! nat i) else None)"

text \<open>The result a reference stands for: the cell is there, is SQL, has a result and no error.\<close>

definition usable :: "VarCell list \<Rightarrow> int \<Rightarrow> nat option" where
  "usable cells i =
     (case var_cell_at cells i of
        None \<Rightarrow> None
      | Some c \<Rightarrow> if vc_sql c \<and> (vc_error c = None \<or> vc_error c = Some []) then vc_result c else None)"

definition findUnresolvedDependencies :: "jsstring \<Rightarrow> VarCell list \<Rightarrow> int list" where
  "findUnresolvedDependencies sql cells =
     sort (uniq (List.map_filter
       (\<lambda>r. if usable cells (cr_cellIndex r) = None
            then (case var_cell_at cells (cr_cellIndex r) of Some c \<Rightarrow> if vc_sql c then Some (cr_cellIndex r) else None | None \<Rightarrow> None)
            else None)
       (extractCellReferences sql)))"

section \<open>Rendering a result\<close>

definition quoteStringLiteral :: "jsstring \<Rightarrow> bool \<Rightarrow> bool \<Rightarrow> jsstring" where
  "quoteStringLiteral v escapeBackslashes backslashLiterals =
     (if backslashLiterals then quoteSqlStringWithStyle v SE_backslash
      else (let escaped = (if escapeBackslashes then replace_char BSL [BSL, BSL] v else v)
            in [SQ] @ replace_char SQ [SQ, SQ] escaped @ [SQ]))"

record ResolveOptions =
  opt_escapeBackslashes :: bool
  opt_backslashLiterals :: bool
  opt_identifierQuote :: jsstring
  opt_booleanLiterals :: "BooleanLiteralStyle option"

definition variableOptionsForDriver ::
  "(nat \<Rightarrow> SqlSyntaxDescriptor) \<Rightarrow> DriverArg \<Rightarrow> jsstring option \<Rightarrow> ResolveOptions" where
  "variableOptionsForDriver objs driver driverId =
     (let style = stringEscapeStyle objs driver driverId in
      \<lparr>opt_escapeBackslashes = (style \<noteq> SE_standard), opt_backslashLiterals = (style = SE_backslash),
       opt_identifierQuote = getQuoteChar driver, opt_booleanLiterals = declaredBooleanLiterals objs driver\<rparr>)"

definition cte_value :: "ResolveOptions \<Rightarrow> jsval \<Rightarrow> jsstring" where
  "cte_value opts v =
     (case v of
        JNull \<Rightarrow> ''NULL''
      | JUndefined \<Rightarrow> ''NULL''
      | JNum m d \<Rightarrow> js_String v
      | JBool b \<Rightarrow>
          (case opt_booleanLiterals opts of
             Some style \<Rightarrow> booleanLiteralWithStyle b style
           | None \<Rightarrow> quoteStringLiteral (js_String v) (opt_escapeBackslashes opts) (opt_backslashLiterals opts))
      | _ \<Rightarrow> quoteStringLiteral (js_String v) (opt_escapeBackslashes opts) (opt_backslashLiterals opts))"

definition cte_row :: "ResolveOptions \<Rightarrow> jsstring list \<Rightarrow> jsval list \<Rightarrow> jsstring" where
  "cte_row opts columns row =
     ''SELECT '' @ join_with '', '' (map (\<lambda>(i, col). cte_value opts (nth_cell row i) @ '' AS ''
         @ quoteIdentifierWith col (opt_identifierQuote opts)) (enumerate 0 columns))"

definition render_cte :: "QueryResult \<Rightarrow> jsstring \<Rightarrow> ResolveOptions \<Rightarrow> jsstring" where
  "render_cte result alias opts =
     (if qr_rows result = [] then
        alias @ '' AS (SELECT '' @ join_with '', '' (map (\<lambda>col. ''NULL AS '' @ quoteIdentifierWith col (opt_identifierQuote opts))
            (qr_columns result)) @ '' WHERE 1=0)''
      else
        alias @ '' AS ('' @ [NL] @ ''  ''
          @ join_with ([NL] @ ''  UNION ALL'' @ [NL] @ ''  '') (map (cte_row opts (qr_columns result)) (qr_rows result)) @ [NL] @ '')'')"

fun boolean_style_text :: "BooleanLiteralStyle option \<Rightarrow> jsstring" where
  "boolean_style_text None = []"
| "boolean_style_text (Some BL_keywords) = ''keywords''"
| "boolean_style_text (Some BL_numeric) = ''numeric''"

definition variantKey :: "jsstring \<Rightarrow> ResolveOptions \<Rightarrow> jsstring" where
  "variantKey alias opts =
     (if opt_escapeBackslashes opts then ''1'' else ''0'') @ (if opt_backslashLiterals opts then ''1'' else ''0'')
     @ boolean_style_text (opt_booleanLiterals opts) @ '':'' @ opt_identifierQuote opts @ '':'' @ alias"

type_synonym CteCache = "nat \<Rightarrow> jsstring \<Rightarrow> jsstring option"

definition resultToCte ::
  "(nat \<Rightarrow> QueryResult) \<Rightarrow> CteCache \<Rightarrow> nat \<Rightarrow> jsstring \<Rightarrow> ResolveOptions \<Rightarrow> jsstring \<times> CteCache" where
  "resultToCte results cache ref alias opts =
     (let key = variantKey alias opts in
      case cache ref key of
        Some cte \<Rightarrow> (cte, cache)
      | None \<Rightarrow> (let cte = render_cte (results ref) alias opts in (cte, cache(ref := (cache ref)(key \<mapsto> cte)))))"

section \<open>Resolving a query\<close>

record ResolveState =
  rv_text :: jsstring
  rv_unresolved :: "CellReference list"
  rv_ctes :: "jsstring list"
  rv_seen :: "int list"
  rv_cache :: CteCache

definition cell_alias :: "int \<Rightarrow> jsstring" where
  "cell_alias i = ''cell_'' @ nat_str (nat (i + 1))"

text \<open>The replacer of \<open>sql.replace\<close>, on the parts of the text from left to right.\<close>

fun resolve_seg ::
  "(nat \<Rightarrow> QueryResult) \<Rightarrow> VarCell list \<Rightarrow> ResolveOptions \<Rightarrow> ResolveState \<Rightarrow> ref_seg \<Rightarrow> ResolveState" where
  "resolve_seg results cells opts st (Plain c) = st\<lparr>rv_text := rv_text st @ [c]\<rparr>"
| "resolve_seg results cells opts st (Ref ds) =
     (let i = cell_index ds in
      case usable cells i of
        None \<Rightarrow>
          st\<lparr>rv_text := rv_text st @ seg_text (Ref ds),
             rv_unresolved := rv_unresolved st @ [\<lparr>cr_match = seg_text (Ref ds), cr_cellIndex = i\<rparr>]\<rparr>
      | Some ref \<Rightarrow>
          (let alias = cell_alias i;
               st' = (if i \<in> set (rv_seen st) then st
                      else (case resultToCte results (rv_cache st) ref alias opts of
                              (cte, cache) \<Rightarrow> st\<lparr>rv_seen := rv_seen st @ [i], rv_ctes := rv_ctes st @ [cte], rv_cache := cache\<rparr>))
           in st'\<lparr>rv_text := rv_text st' @ alias\<rparr>))"

definition with_ctes :: "jsstring list \<Rightarrow> jsstring \<Rightarrow> jsstring" where
  "with_ctes ctes sql = (if ctes = [] then sql else ''WITH '' @ join_with ('','' @ [NL]) ctes @ [NL] @ sql)"

definition resolveQueryVariables ::
  "(nat \<Rightarrow> QueryResult) \<Rightarrow> CteCache \<Rightarrow> jsstring \<times> VarCell list \<times> ResolveOptions
   \<Rightarrow> (jsstring \<times> CellReference list) \<times> CteCache" where
  "resolveQueryVariables results cache query =
     (case query of (sql, cells, opts) \<Rightarrow>
        if \<not> hasCellReferences sql then ((sql, []), cache)
        else (let opts' = (if opt_identifierQuote opts = [] then opts\<lparr>opt_identifierQuote := [DQ]\<rparr> else opts);
                  st = foldl (resolve_seg results cells opts')
                         \<lparr>rv_text = [], rv_unresolved = [], rv_ctes = [], rv_seen = [], rv_cache = cache\<rparr> (ref_segs sql)
              in ((with_ctes (rv_ctes st) (rv_text st), rv_unresolved st), rv_cache st)))"

section \<open>What a resolved query is\<close>

definition usable_refs :: "VarCell list \<Rightarrow> ref_seg list \<Rightarrow> int list" where
  "usable_refs cells segs =
     List.map_filter (\<lambda>g. case g of Ref ds \<Rightarrow> if usable cells (cell_index ds) = None then None else Some (cell_index ds) | Plain _ \<Rightarrow> None) segs"

definition unresolved_refs :: "VarCell list \<Rightarrow> ref_seg list \<Rightarrow> CellReference list" where
  "unresolved_refs cells segs =
     List.map_filter (\<lambda>g. case g of
         Ref ds \<Rightarrow> if usable cells (cell_index ds) = None then Some \<lparr>cr_match = seg_text g, cr_cellIndex = cell_index ds\<rparr> else None
       | Plain _ \<Rightarrow> None) segs"

definition resolved_text :: "VarCell list \<Rightarrow> ref_seg \<Rightarrow> jsstring" where
  "resolved_text cells g =
     (case g of Ref ds \<Rightarrow> if usable cells (cell_index ds) = None then seg_text g else cell_alias (cell_index ds) | Plain c \<Rightarrow> [c])"

definition ctes_of :: "(nat \<Rightarrow> QueryResult) \<Rightarrow> VarCell list \<Rightarrow> ResolveOptions \<Rightarrow> int list \<Rightarrow> jsstring list" where
  "ctes_of results cells opts is =
     List.map_filter (\<lambda>i. map_option (\<lambda>ref. render_cte (results ref) (cell_alias i) opts) (usable cells i)) is"

definition quote_default :: "ResolveOptions \<Rightarrow> ResolveOptions" where
  "quote_default opts = (if opt_identifierQuote opts = [] then opts\<lparr>opt_identifierQuote := [DQ]\<rparr> else opts)"

text \<open>One CTE per cell that is referred to and has a result, in the order of the first references, in front of
  the text with the aliases in place; the other references stay and are reported.\<close>

definition resolved_query ::
  "(nat \<Rightarrow> QueryResult) \<Rightarrow> jsstring \<times> VarCell list \<times> ResolveOptions \<Rightarrow> jsstring \<times> CellReference list" where
  "resolved_query results query =
     (case query of (sql, cells, opts) \<Rightarrow>
        (with_ctes (ctes_of results cells (quote_default opts) (uniq (usable_refs cells (ref_segs sql))))
           (concat (map (resolved_text cells) (ref_segs sql))),
         unresolved_refs cells (ref_segs sql)))"

section \<open>The cache\<close>

lemma split_at_colon:
  "a @ CHR '':'' # b = a' @ CHR '':'' # b' \<Longrightarrow> CHR '':'' \<notin> set a \<Longrightarrow> CHR '':'' \<notin> set a' \<Longrightarrow> a = a' \<and> b = b'"
  by (induction a arbitrary: a') (auto simp: Cons_eq_append_conv append_eq_Cons_conv)

lemma split_at_last_colon:
  assumes "a @ CHR '':'' # b = a' @ CHR '':'' # b'" "CHR '':'' \<notin> set b" "CHR '':'' \<notin> set b'"
  shows "a = a' \<and> b = b'"
proof -
  have "rev b @ CHR '':'' # rev a = rev b' @ CHR '':'' # rev a'"
    using arg_cong [OF assms(1), of rev] by simp
  then have "rev b = rev b' \<and> rev a = rev a'" by (rule split_at_colon) (use assms in simp_all)
  then show ?thesis by simp
qed

lemma boolean_style_inj: "boolean_style_text x = boolean_style_text y \<Longrightarrow> x = y"
  by (cases x rule: boolean_style_text.cases; cases y rule: boolean_style_text.cases) simp_all

lemma no_colon_style: "CHR '':'' \<notin> set (boolean_style_text x)"
  by (cases x rule: boolean_style_text.cases) simp_all

text \<open>The key tells aliases and options apart: neither the flags nor an alias contains a colon.\<close>

lemma variantKey_inj:
  assumes "variantKey a o1 = variantKey b o2" "CHR '':'' \<notin> set a" "CHR '':'' \<notin> set b"
  shows "a = b \<and> o1 = (o2 :: ResolveOptions)"
proof -
  let ?flags = "\<lambda>opts :: ResolveOptions. (if opt_escapeBackslashes opts then ''1'' else ''0'')
    @ (if opt_backslashLiterals opts then ''1'' else ''0'') @ boolean_style_text (opt_booleanLiterals opts)"
  have flags: "CHR '':'' \<notin> set (?flags opts)" for opts using no_colon_style by simp
  have "?flags o1 @ CHR '':'' # (opt_identifierQuote o1 @ CHR '':'' # a) = ?flags o2 @ CHR '':'' # (opt_identifierQuote o2 @ CHR '':'' # b)"
    using assms(1) by (simp add: variantKey_def)
  from split_at_colon [OF this flags flags]
  have f: "?flags o1 = ?flags o2" "opt_identifierQuote o1 @ CHR '':'' # a = opt_identifierQuote o2 @ CHR '':'' # b"
    by blast+
  from split_at_last_colon [OF f(2) assms(2,3)] have q: "opt_identifierQuote o1 = opt_identifierQuote o2" "a = b" by simp_all
  have e: "opt_escapeBackslashes o1 = opt_escapeBackslashes o2"
    using arg_cong [OF f(1), of "\<lambda>xs. xs ! 0"] by (cases "opt_escapeBackslashes o1"; cases "opt_escapeBackslashes o2") simp_all
  have l: "opt_backslashLiterals o1 = opt_backslashLiterals o2"
    using arg_cong [OF f(1), of "\<lambda>xs. xs ! 1"] e
    by (cases "opt_escapeBackslashes o2"; cases "opt_backslashLiterals o1"; cases "opt_backslashLiterals o2") simp_all
  have "boolean_style_text (opt_booleanLiterals o1) = boolean_style_text (opt_booleanLiterals o2)"
    using f(1) e l by simp
  then have "opt_booleanLiterals o1 = opt_booleanLiterals o2" by (rule boolean_style_inj)
  with e l q show ?thesis by (intro conjI ResolveOptions.equality) simp_all
qed

definition good_ctes :: "(nat \<Rightarrow> QueryResult) \<Rightarrow> CteCache \<Rightarrow> bool" where
  "good_ctes results cache \<longleftrightarrow>
     (\<forall>ref key cte. cache ref key = Some cte \<longrightarrow>
        (\<exists>alias opts. CHR '':'' \<notin> set alias \<and> key = variantKey alias opts \<and> cte = render_cte (results ref) alias opts))"

lemma resultToCte_good:
  assumes g: "good_ctes results cache" and a: "CHR '':'' \<notin> set alias"
  shows "fst (resultToCte results cache ref alias opts) = render_cte (results ref) alias opts
    \<and> good_ctes results (snd (resultToCte results cache ref alias opts))"
proof (cases "cache ref (variantKey alias opts)")
  case (Some cte)
  with g obtain b o2 where "CHR '':'' \<notin> set b" "variantKey alias opts = variantKey b o2" "cte = render_cte (results ref) b o2"
    unfolding good_ctes_def by blast
  with variantKey_inj [of "alias" opts b o2] a Some g show ?thesis by (simp add: resultToCte_def)
next
  case None
  with g a show ?thesis by (auto simp: resultToCte_def good_ctes_def Let_def)
qed

lemma nat_str_no_colon: "CHR '':'' \<notin> set (nat_str n)"
proof (induction n rule: nat_str.induct)
  case (1 n)
  have digit: "CHR '':'' \<noteq> (char_of (48 + k) :: char)" if "k < (10 :: nat)" for k
    using that by (auto dest!: arg_cong [of _ _ "of_char :: char \<Rightarrow> nat"] simp: take_bit_eq_mod)
  show ?case
  proof (cases "n < 10")
    case True
    then show ?thesis by (subst nat_str.simps) (use digit [of n] in auto)
  next
    case False
    then show ?thesis using 1 digit [of "n mod 10"] by (subst nat_str.simps) auto
  qed
qed

lemma alias_no_colon: "CHR '':'' \<notin> set (cell_alias i)"
  using nat_str_no_colon by (simp add: cell_alias_def)

lemma uniq_snoc: "uniq (xs @ [x]) = (if x \<in> set xs then uniq xs else uniq xs @ [x])"
  by (simp add: uniq_def uniq_aux_snoc)

lemma map_filter_snoc: "List.map_filter f (xs @ [x]) = List.map_filter f xs @ (case f x of Some y \<Rightarrow> [y] | None \<Rightarrow> [])"
  by (simp add: List.map_filter_def split: option.split)

lemma resolve_fold:
  fixes cells :: "VarCell list" and opts :: ResolveOptions
  assumes "good_ctes results cache"
  defines "run segs \<equiv> foldl (resolve_seg results cells opts)
      \<lparr>rv_text = [], rv_unresolved = [], rv_ctes = [], rv_seen = [], rv_cache = cache\<rparr> segs"
  shows "rv_text (run segs) = concat (map (resolved_text cells) segs)
    \<and> rv_unresolved (run segs) = unresolved_refs cells segs
    \<and> rv_seen (run segs) = uniq (usable_refs cells segs)
    \<and> rv_ctes (run segs) = ctes_of results cells opts (uniq (usable_refs cells segs))
    \<and> good_ctes results (rv_cache (run segs))"
proof (induction segs rule: rev_induct)
  case Nil
  show ?case using assms(1)
    by (simp add: run_def unresolved_refs_def usable_refs_def ctes_of_def uniq_def map_filter_simps)
next
  case (snoc g segs)
  define st where "st = run segs"
  note IH = snoc [folded st_def]
  have run: "run (segs @ [g]) = resolve_seg results cells opts st g" by (simp add: st_def run_def)
  show ?case
  proof (cases g)
    case (Plain c)
    then show ?thesis using IH unfolding run
      by (simp add: unresolved_refs_def usable_refs_def map_filter_snoc resolved_text_def)
  next
    case (Ref ds)
    define i where "i = cell_index ds"
    show ?thesis
    proof (cases "usable cells i")
      case None
      with Ref show ?thesis using IH unfolding run
        by (simp add: unresolved_refs_def usable_refs_def map_filter_snoc resolved_text_def i_def)
    next
      case (Some ref)
      have u: "usable_refs cells (segs @ [g]) = usable_refs cells segs @ [i]"
        using Ref Some by (simp add: usable_refs_def map_filter_snoc i_def)
      have rest: "unresolved_refs cells (segs @ [g]) = unresolved_refs cells segs"
          "resolved_text cells g = cell_alias i"
        using Ref Some by (simp_all add: unresolved_refs_def map_filter_snoc resolved_text_def i_def)
      obtain cte cache' where c: "resultToCte results (rv_cache st) ref (cell_alias i) opts = (cte, cache')" by fastforce
      then have cte: "cte = render_cte (results ref) (cell_alias i) opts" "good_ctes results cache'"
        using resultToCte_good [OF _ alias_no_colon, of results "rv_cache st" ref i opts] IH by simp_all
      have seen: "i \<in> set (rv_seen st) \<longleftrightarrow> i \<in> set (usable_refs cells segs)" using IH by simp
      show ?thesis
        using IH Some cte unfolding run u rest uniq_snoc
        by (auto simp: Ref seen Let_def i_def [symmetric] c ctes_of_def map_filter_snoc rest [unfolded Ref])
    qed
  qed
qed

lemma no_refs:
  assumes "\<not> hasCellReferences sql"
  shows "resolved_query results (sql, cells, opts) = (concat (map seg_text (ref_segs sql)), [])"
proof -
  have "\<forall>g \<in> set (ref_segs sql). \<exists>c. g = Plain c"
    using assms unfolding hasCellReferences_def list_ex_iff by (metis ref_seg.exhaust ref_seg.simps(6))
  then have "usable_refs cells (ref_segs sql) = []" "unresolved_refs cells (ref_segs sql) = []"
      "map (resolved_text cells) (ref_segs sql) = map seg_text (ref_segs sql)"
    by (auto simp: usable_refs_def unresolved_refs_def List.map_filter_def filter_empty_conv resolved_text_def)
  then show ?thesis
    by (simp add: resolved_query_def ctes_of_def uniq_def with_ctes_def map_filter_simps del: map_eq_conv)
qed

text \<open>Cutting the text loses nothing.\<close>

lemma match_ref_text: "match_ref s = Some ds \<Longrightarrow> s = REF_OPEN @ ds @ ''}}'' @ drop (9 + length ds) s"
proof -
  assume m: "match_ref s = Some ds"
  then obtain r where r: "s = REF_OPEN @ r" by (auto simp: match_ref_def prefix_def split: if_splits)
  have "drop 7 s = r" by (simp add: r REF_OPEN_def)
  then have "drop 7 s = r" "drop (7 + length ds) s = drop (length ds) r" by (simp_all add: add.commute flip: drop_drop)
  with m have ds: "ds = takeWhile is_digit r" "prefix ''}}'' (drop (length ds) r)"
    by (auto simp: match_ref_def Let_def split: if_splits)
  then obtain r' where "drop (length ds) r = ''}}'' @ r'" by (auto simp: prefix_def)
  moreover have "r = ds @ drop (length ds) r" using ds(1) by (simp add: dropWhile_eq_drop [symmetric])
  ultimately have "r = ds @ ''}}'' @ r'" by metis
  then have "s = (REF_OPEN @ ds @ ''}}'') @ r'" using r by simp
  moreover have "length (REF_OPEN @ ds @ ''}}'') = 9 + length ds" by (simp add: REF_OPEN_def)
  ultimately show ?thesis by (metis append.assoc append_eq_conv_conj)
qed

lemma ref_segs_text: "concat (map seg_text (ref_segs sql)) = sql"
proof (induction sql rule: ref_segs.induct)
  case (2 c s)
  show ?case
  proof (cases "match_ref (c # s)")
    case None
    with 2 show ?thesis by simp
  next
    case (Some ds)
    with 2 match_ref_text [OF Some] show ?thesis by simp
  qed
qed simp

lemma resolve_good:
  assumes "good_ctes results cache"
  shows "fst (resolveQueryVariables results cache query) = resolved_query results query
    \<and> good_ctes results (snd (resolveQueryVariables results cache query))"
proof -
  obtain sql cells opts where q: "query = (sql, cells, opts)" by (cases query) auto
  show ?thesis
  proof (cases "hasCellReferences sql")
    case False
    with assms show ?thesis by (simp add: q resolveQueryVariables_def no_refs ref_segs_text)
  next
    case True
    with resolve_fold [OF assms, of cells "quote_default opts" "ref_segs sql"] show ?thesis
      by (simp add: q resolveQueryVariables_def resolved_query_def quote_default_def Let_def)
  qed
qed

interpretation cte_memo: memo "good_ctes results" "resolveQueryVariables results" "resolved_query results" for results
  by unfold_locales (simp_all add: resolve_good)

text \<open>C21 (notebook_queries_resolve): however many queries of the notebook are resolved, with whatever options and in any
  order, each becomes one CTE per cell that is referred to and has a result, rendered from that cell's
  result for its own options, in front of the text with the aliases in place; the cache never hands out
  a CTE rendered for other options, another cell or another result.\<close>

theorem notebook_queries_resolve:
  "memo_all (resolveQueryVariables results) (\<lambda>ref key. None) queries = map (resolved_query results) queries"
  by (rule cte_memo.all_spec) (simp add: good_ctes_def)

section \<open>Literals\<close>

text \<open>Property (notebook_literals_are_the_drivers): with the options read from a driver a text value is written as the very literal the rest of
  the program writes for that driver, except that a NUL character stays as it is in the style of MySQL.\<close>

theorem notebook_literals_are_the_drivers:
  "let opts = variableOptionsForDriver objs driver driverId; style = stringEscapeStyle objs driver driverId;
       literal = quoteStringLiteral v (opt_escapeBackslashes opts) (opt_backslashLiterals opts)
   in (if style = SE_mysql then replace_char NUL [BSL, CHR ''0''] literal else literal) = quoteSqlStringWithStyle v style"
  by (cases "stringEscapeStyle objs driver driverId")
     (simp_all add: variableOptionsForDriver_def quoteStringLiteral_def quoteSqlStringWithStyle_def Let_def replace_char_def)

section \<open>Cells to run first\<close>

lemma set_map_filter: "set (List.map_filter f xs) = {y. \<exists>x \<in> set xs. f x = Some y}"
  by (auto simp: List.map_filter_def image_iff) force

lemma unresolved_refs_filter:
  "unresolved_refs cells segs = filter (\<lambda>r. usable cells (cr_cellIndex r) = None)
     (List.map_filter (\<lambda>g. case g of Ref ds \<Rightarrow> Some \<lparr>cr_match = seg_text g, cr_cellIndex = cell_index ds\<rparr> | Plain _ \<Rightarrow> None) segs)"
  by (induction segs) (simp_all add: unresolved_refs_def map_filter_simps split: ref_seg.split)

text \<open>Property (dependencies_are_what_is_missing): the cells to run before a query are, in ascending order and each once, the SQL cells
  it refers to that have no result to use; when there is none, whatever stays unresolved refers to no SQL cell.\<close>

theorem dependencies_are_what_is_missing:
  "sorted (findUnresolvedDependencies sql cells) \<and> distinct (findUnresolvedDependencies sql cells)
   \<and> set (findUnresolvedDependencies sql cells)
     = {i. \<exists>r \<in> set (snd (resolved_query results (sql, cells, opts))). cr_cellIndex r = i
          \<and> (case var_cell_at cells i of Some c \<Rightarrow> vc_sql c | None \<Rightarrow> False)}"
proof -
  have "snd (resolved_query results (sql, cells, opts))
      = filter (\<lambda>r. usable cells (cr_cellIndex r) = None) (extractCellReferences sql)"
    by (simp add: resolved_query_def unresolved_refs_filter extractCellReferences_def)
  then have "set (snd (resolved_query results (sql, cells, opts)))
      = {r \<in> set (extractCellReferences sql). usable cells (cr_cellIndex r) = None}" by simp
  moreover have "(if usable cells i = None
      then (case var_cell_at cells i of Some c \<Rightarrow> if vc_sql c then Some i else None | None \<Rightarrow> None) else None) = Some j
    \<longleftrightarrow> usable cells i = None \<and> i = j \<and> (case var_cell_at cells i of Some c \<Rightarrow> vc_sql c | None \<Rightarrow> False)" for i j
    by (auto split: option.split)
  ultimately show ?thesis
    unfolding findUnresolvedDependencies_def by (simp add: set_map_filter) blast
qed

text \<open>A query that has a WITH clause of its own gets a second one in front of it, which no dialect accepts.\<close>

theorem second_with_clause:
  "fst (fst (resolveQueryVariables (\<lambda>_. \<lparr>qr_columns = [''n''], qr_rows = [[JNum 1 0]]\<rparr>) (\<lambda>_ _. None)
     (''WITH x AS (SELECT 2) SELECT * FROM x, {{cell_1}}'', [\<lparr>vc_sql = True, vc_result = Some 0, vc_error = None\<rparr>],
      variableOptionsForDriver (\<lambda>_. undefined) (ArgId ''postgres'') None)))
   = ''WITH cell_1 AS ('' @ [NL] @ ''  SELECT 1 AS '' @ [DQ] @ ''n'' @ [DQ, NL] @ '')'' @ [NL]
     @ ''WITH x AS (SELECT 2) SELECT * FROM x, cell_1''"
  by code_simp

end
