(* ===== verification/GridFind.thy ===== *)
theory GridFind
  imports Prelude Complex_Main
begin

text \<open>
  Find in results (\<open>utils/gridFind.ts\<close>), from the index of cell texts on: the search, the current match that
  survives typing and refreshes, stepping through the matches. The binary search is the code's loop; it
  returns because the window shrinks.
\<close>

record GridCellPosition =
  gp_row :: nat
  gp_col :: nat

record GridFindIndex =
  gf_caseSensitive :: bool
  gf_rows :: "jsstring option list list"

definition buildGridFindIndex :: "nat \<Rightarrow> (nat \<Rightarrow> jsstring option list) \<Rightarrow> bool \<Rightarrow> GridFindIndex" where
  "buildGridFindIndex rowCount getRowTexts caseSensitive =
     \<lparr>gf_caseSensitive = caseSensitive,
      gf_rows = map (\<lambda>i. if caseSensitive then getRowTexts i else map (map_option lower) (getRowTexts i)) [0..<rowCount]\<rparr>"

definition matches_in_row :: "jsstring \<Rightarrow> nat \<Rightarrow> jsstring option list \<Rightarrow> GridCellPosition list" where
  "matches_in_row needle r texts =
     List.map_filter (\<lambda>(c, t). case t of
         Some s \<Rightarrow> if sublist needle s then Some \<lparr>gp_row = r, gp_col = c\<rparr> else None | None \<Rightarrow> None)
       (enumerate 0 texts)"

definition searchGridFindIndex :: "GridFindIndex \<Rightarrow> jsstring \<Rightarrow> GridCellPosition list" where
  "searchGridFindIndex index query =
     (if query = [] then []
      else (let needle = (if gf_caseSensitive index then query else lower query) in
            concat (map (\<lambda>(r, texts). matches_in_row needle r texts) (enumerate 0 (gf_rows index)))))"

definition compareCellPositions :: "GridCellPosition \<Rightarrow> GridCellPosition \<Rightarrow> int" where
  "compareCellPositions a b =
     (let d = int (gp_row a) - int (gp_row b) in if d \<noteq> 0 then d else int (gp_col a) - int (gp_col b))"

text \<open>The loop \<open>while (low < high)\<close>.\<close>

function search_loop :: "GridCellPosition list \<Rightarrow> GridCellPosition \<Rightarrow> nat \<Rightarrow> nat \<Rightarrow> nat" where
  "search_loop matches start low high =
     (if low < high then
        (let mid = (low + high) div 2 in
         if compareCellPositions (matches ! mid) start < 0 then search_loop matches start (mid + 1) high
         else search_loop matches start low mid)
      else low)"
  by pat_completeness auto
termination by (relation "measure (\<lambda>(matches, start, low, high). high - low)") auto

declare search_loop.simps [simp del]

definition findMatchIndexFrom :: "GridCellPosition list \<Rightarrow> GridCellPosition option \<Rightarrow> int" where
  "findMatchIndexFrom matches start =
     (if matches = [] then - 1
      else (case start of
              None \<Rightarrow> 0
            | Some p \<Rightarrow> (let low = search_loop matches p 0 (length matches) in if low = length matches then 0 else int low)))"

text \<open>The direction is 1 or \<open>-1\<close>; \<open>%\<close> truncates towards zero.\<close>

definition stepMatchIndex :: "int \<Rightarrow> nat \<Rightarrow> int \<Rightarrow> int" where
  "stepMatchIndex index cnt direction =
     (if cnt = 0 then - 1
      else if index < 0 then (if direction = 1 then 0 else int cnt - 1)
      else (let n = index + direction + int cnt in if n < 0 then - ((- n) mod int cnt) else n mod int cnt))"

text \<open>The map from rows to sets of columns as the list of its entries.\<close>

fun add_match :: "(nat \<times> nat list) list \<Rightarrow> GridCellPosition \<Rightarrow> (nat \<times> nat list) list" where
  "add_match [] p = [(gp_row p, [gp_col p])]"
| "add_match ((r, cs) # m) p =
     (if r = gp_row p then (r, if gp_col p \<in> set cs then cs else cs @ [gp_col p]) # m else (r, cs) # add_match m p)"

definition groupMatchesByRow :: "GridCellPosition list \<Rightarrow> (nat \<times> nat list) list" where
  "groupMatchesByRow matches = foldl add_match [] matches"

datatype FindMatchState = CurrentMatch | OtherMatch

definition getFindMatchState :: "nat \<Rightarrow> nat list option \<Rightarrow> nat option \<Rightarrow> FindMatchState option" where
  "getFindMatchState colIndex matchedColIndices currentColIndex =
     (if currentColIndex = Some colIndex then Some CurrentMatch
      else (case matchedColIndices of Some cs \<Rightarrow> if colIndex \<in> set cs then Some OtherMatch else None | None \<Rightarrow> None))"

definition getRevealScrollDelta :: "rat \<Rightarrow> rat \<Rightarrow> rat \<Rightarrow> rat \<Rightarrow> rat" where
  "getRevealScrollDelta start end' viewStart viewEnd =
     (if viewStart \<le> start \<and> end' \<le> viewEnd then 0
      else if viewEnd - viewStart \<le> end' - start then start - viewStart
      else of_int \<lfloor>(start + end') / 2 - (viewStart + viewEnd) / 2 + 1 / 2\<rfloor>)"

section \<open>The matches\<close>

definition reading_less :: "GridCellPosition \<Rightarrow> GridCellPosition \<Rightarrow> bool" where
  "reading_less a b \<longleftrightarrow> compareCellPositions a b < 0"

lemma reading_less_iff: "reading_less a b \<longleftrightarrow> gp_row a < gp_row b \<or> gp_row a = gp_row b \<and> gp_col a < gp_col b"
  by (auto simp: reading_less_def compareCellPositions_def Let_def)

lemma map_filter_enumerate_set:
  "p \<in> set (List.map_filter f (enumerate 0 xs)) \<longleftrightarrow> (\<exists>i < length xs. f (i, xs ! i) = Some p)"
  by (auto simp: List.map_filter_def in_set_enumerate_eq image_iff)

lemma matches_in_row_set:
  "p \<in> set (matches_in_row needle r texts) \<longleftrightarrow>
     gp_row p = r \<and> gp_col p < length texts
     \<and> (case texts ! gp_col p of Some s \<Rightarrow> sublist needle s | None \<Rightarrow> False)"
  unfolding matches_in_row_def map_filter_enumerate_set by (cases p) (auto split: option.splits)

lemma sorted_map_filter_enumerate:
  assumes "\<And>i x p. f (i, x) = Some p \<Longrightarrow> gp_row p = r \<and> gp_col p = i"
  shows "sorted_wrt reading_less (List.map_filter f (enumerate n xs))"
proof (induction xs arbitrary: n)
  case (Cons x xs)
  have "reading_less p q" if "f (n, x) = Some p" "q \<in> set (List.map_filter f (enumerate (Suc n) xs))" for p q
    using that assms by (fastforce simp: List.map_filter_def in_set_enumerate_eq reading_less_iff)
  with Cons show ?case by (auto simp: map_filter_simps split: option.split)
qed (simp add: map_filter_simps)

lemma matches_in_row_sorted: "sorted_wrt reading_less (matches_in_row needle r texts)"
  unfolding matches_in_row_def by (rule sorted_map_filter_enumerate) (auto split: option.splits if_splits)

lemma sorted_concat_rows:
  "sorted_wrt reading_less (concat (map (\<lambda>(r, texts). matches_in_row needle r texts) (enumerate n rows)))"
proof (induction rows arbitrary: n)
  case (Cons texts rows)
  have "reading_less p q" if "p \<in> set (matches_in_row needle n texts)"
      "q \<in> set (concat (map (\<lambda>(r, texts). matches_in_row needle r texts) (enumerate (Suc n) rows)))" for p q
    using that by (auto simp: matches_in_row_set in_set_enumerate_eq reading_less_iff)
  with Cons show ?case by (auto simp: sorted_wrt_append matches_in_row_sorted)
qed simp

text \<open>The text of a cell of the result, as the index was built from it.\<close>

definition cell_matches :: "(nat \<Rightarrow> jsstring option list) \<Rightarrow> bool \<Rightarrow> jsstring \<Rightarrow> nat \<Rightarrow> nat \<Rightarrow> bool" where
  "cell_matches getRowTexts caseSensitive query r c \<longleftrightarrow>
     c < length (getRowTexts r)
     \<and> (case getRowTexts r ! c of
          None \<Rightarrow> False
        | Some s \<Rightarrow> if caseSensitive then sublist query s else sublist (lower query) (lower s))"

text \<open>Property (search_lists_the_matches): the search lists, in reading order and each once, exactly the cells whose text contains the
  query.\<close>

theorem search_lists_the_matches:
  "sorted_wrt reading_less (searchGridFindIndex (buildGridFindIndex n getRowTexts caseSensitive) query)
   \<and> set (searchGridFindIndex (buildGridFindIndex n getRowTexts caseSensitive) query)
     = {p. query \<noteq> [] \<and> gp_row p < n \<and> cell_matches getRowTexts caseSensitive query (gp_row p) (gp_col p)}"
proof (cases "query = []")
  case False
  define needle where "needle = (if caseSensitive then query else lower query)"
  define rows where "rows = map (\<lambda>i. if caseSensitive then getRowTexts i else map (map_option lower) (getRowTexts i)) [0..<n]"
  have s: "searchGridFindIndex (buildGridFindIndex n getRowTexts caseSensitive) query
      = concat (map (\<lambda>(r, texts). matches_in_row needle r texts) (enumerate 0 rows))"
    using False by (simp add: searchGridFindIndex_def buildGridFindIndex_def needle_def rows_def)
  have cell: "p \<in> set (matches_in_row needle r (rows ! r)) \<longleftrightarrow> gp_row p = r \<and> cell_matches getRowTexts caseSensitive query r (gp_col p)"
    if "r < n" for p r
    using that by (auto simp: matches_in_row_set rows_def needle_def cell_matches_def split: option.splits)
  have members: "p \<in> set (concat (map (\<lambda>(r, texts). matches_in_row needle r texts) (enumerate 0 rows)))
      \<longleftrightarrow> (\<exists>r < n. p \<in> set (matches_in_row needle r (rows ! r)))" for p
  proof -
    have "length rows = n" by (simp add: rows_def)
    then have "(\<exists>x \<in> set (enumerate 0 rows). p \<in> set (matches_in_row needle (fst x) (snd x)))
        \<longleftrightarrow> (\<exists>r < n. p \<in> set (matches_in_row needle r (rows ! r)))"
      unfolding Bex_def in_set_enumerate_eq split_paired_Ex by auto
    then show ?thesis by (simp add: split_beta)
  qed
  have "set (concat (map (\<lambda>(r, texts). matches_in_row needle r texts) (enumerate 0 rows)))
      = {p. gp_row p < n \<and> cell_matches getRowTexts caseSensitive query (gp_row p) (gp_col p)}"
  proof (intro set_eqI iffI)
    fix p :: GridCellPosition
    assume "p \<in> {p. gp_row p < n \<and> cell_matches getRowTexts caseSensitive query (gp_row p) (gp_col p)}"
    then have "gp_row p < n" "p \<in> set (matches_in_row needle (gp_row p) (rows ! gp_row p))" using cell by simp_all
    then show "p \<in> set (concat (map (\<lambda>(r, texts). matches_in_row needle r texts) (enumerate 0 rows)))"
      using members by blast
  next
    fix p :: GridCellPosition
    assume "p \<in> set (concat (map (\<lambda>(r, texts). matches_in_row needle r texts) (enumerate 0 rows)))"
    then obtain r where "r < n" "p \<in> set (matches_in_row needle r (rows ! r))" using members by blast
    with cell [of r p] show "p \<in> {p. gp_row p < n \<and> cell_matches getRowTexts caseSensitive query (gp_row p) (gp_col p)}"
      by auto
  qed
  then show ?thesis unfolding s using sorted_concat_rows [of needle 0 rows] False by simp
qed (simp add: searchGridFindIndex_def)

section \<open>The current match\<close>

lemma reading_trans: "reading_less a b \<Longrightarrow> reading_less b c \<Longrightarrow> reading_less a c"
  by (auto simp: reading_less_iff)

lemma search_loop_spec:
  assumes "sorted_wrt reading_less ms" "low \<le> high" "high \<le> length ms"
    "\<forall>i < low. reading_less (ms ! i) p" "\<forall>i. high \<le> i \<and> i < length ms \<longrightarrow> \<not> reading_less (ms ! i) p"
  shows "search_loop ms p low high \<le> length ms
    \<and> (\<forall>i < search_loop ms p low high. reading_less (ms ! i) p)
    \<and> (\<forall>i. search_loop ms p low high \<le> i \<and> i < length ms \<longrightarrow> \<not> reading_less (ms ! i) p)"
  using assms
proof (induction ms p low high rule: search_loop.induct)
  case (1 ms p low high)
  show ?case
  proof (cases "low < high")
    case False
    then have "search_loop ms p low high = low" by (subst search_loop.simps) simp
    moreover have "low = high" using False 1(4) by simp
    ultimately show ?thesis using 1(5-7) by simp
  next
    case True
    define mid where "mid = (low + high) div 2"
    have mid: "low \<le> mid" "mid < high" using True by (auto simp: mid_def)
    have sorted: "reading_less (ms ! i) (ms ! j)" if "i < j" "j < length ms" for i j
      using 1(3) that by (simp add: sorted_wrt_iff_nth_less)
    show ?thesis
    proof (cases "compareCellPositions (ms ! mid) p < 0")
      case less: True
      then have below: "\<forall>i < mid + 1. reading_less (ms ! i) p"
        using sorted [of _ mid] mid 1(5) reading_trans unfolding reading_less_def [symmetric]
        by (metis Suc_eq_plus1 less_Suc_eq order.strict_trans2)
      have "search_loop ms p low high = search_loop ms p (mid + 1) high"
        using True less by (subst search_loop.simps) (simp add: mid_def Let_def)
      with 1(1) [OF True mid_def less 1(3) _ 1(5) below 1(7)] mid show ?thesis by simp
    next
      case ge: False
      then have above: "\<forall>i. mid \<le> i \<and> i < length ms \<longrightarrow> \<not> reading_less (ms ! i) p"
        using sorted [of mid] reading_trans unfolding reading_less_def [symmetric] by (metis order.order_iff_strict)
      have "search_loop ms p low high = search_loop ms p low mid"
        using True ge by (subst search_loop.simps) (simp add: mid_def Let_def)
      with 1(2) [OF True mid_def ge 1(3) mid(1) _ 1(6) above] mid 1(5) show ?thesis by simp
    qed
  qed
qed

text \<open>Property (find_from_is_first): with matches in reading order the current match is the first one at or after the remembered
  position, or the first of all when every match lies before it; so a match stays current as long as
  its cell still matches.\<close>

theorem find_from_is_first:
  assumes "sorted_wrt reading_less matches"
  shows "findMatchIndexFrom matches (Some p) =
      (if matches = [] then - 1
       else case find_index (\<lambda>m. \<not> reading_less m p) matches of None \<Rightarrow> 0 | Some i \<Rightarrow> int i)
    \<and> (p \<in> set matches \<longrightarrow> matches ! nat (findMatchIndexFrom matches (Some p)) = p)"
proof (cases "matches = []")
  case False
  define k where "k = search_loop matches p 0 (length matches)"
  have "k \<le> length matches \<and> (\<forall>i < k. reading_less (matches ! i) p)
      \<and> (\<forall>i. k \<le> i \<and> i < length matches \<longrightarrow> \<not> reading_less (matches ! i) p)"
    unfolding k_def by (rule search_loop_spec [OF assms]) auto
  then have k: "k \<le> length matches" "\<forall>i < k. reading_less (matches ! i) p" "\<forall>i. k \<le> i \<and> i < length matches \<longrightarrow> \<not> reading_less (matches ! i) p"
    by blast+
  have f: "findMatchIndexFrom matches (Some p) = (if k = length matches then 0 else int k)"
    using False by (simp add: findMatchIndexFrom_def k_def Let_def)
  have first: "find_index (\<lambda>m. \<not> reading_less m p) matches = (if k = length matches then None else Some k)"
  proof (cases "k = length matches")
    case True
    then have "\<forall>m \<in> set matches. reading_less m p" using k(2) by (metis in_set_conv_nth)
    then have "find_index (\<lambda>m. \<not> reading_less m p) matches = None" by (simp add: find_index_filter_nth)
    with True show ?thesis by simp
  next
    case False
    with k have at: "k < length matches" "\<not> reading_less (matches ! k) p" by simp_all
    then have "find_index (\<lambda>m. \<not> reading_less m p) matches \<noteq> None"
      using nth_mem [OF at(1)] unfolding find_index_filter_nth by blast
    then obtain i where i: "find_index (\<lambda>m. \<not> reading_less m p) matches = Some i" by blast
    from find_index_Some [OF i] at k(2) have "i = k" by (metis linorder_neqE_nat)
    with i False show ?thesis by simp
  qed
  have "matches ! nat (findMatchIndexFrom matches (Some p)) = p" if "p \<in> set matches"
  proof -
    from that obtain j where j: "j < length matches" "matches ! j = p" by (auto simp: in_set_conv_nth)
    have irrefl: "\<not> reading_less p p" by (simp add: reading_less_iff)
    have "\<not> j < k" using k(2) j irrefl by metis
    moreover have "\<not> k < j"
    proof
      assume "k < j"
      then have "reading_less (matches ! k) p" using assms j by (metis sorted_wrt_iff_nth_less)
      with k(3) \<open>k < j\<close> j show False by auto
    qed
    ultimately have "j = k" by simp
    with f j show ?thesis by simp
  qed
  with f first False show ?thesis by simp
qed (simp add: findMatchIndexFrom_def)

theorem find_from_is_first_witness:
  "findMatchIndexFrom [\<lparr>gp_row = 0, gp_col = 2\<rparr>, \<lparr>gp_row = 3, gp_col = 1\<rparr>] (Some \<lparr>gp_row = 1, gp_col = 0\<rparr>) = 1"
  using find_from_is_first [of "[\<lparr>gp_row = 0, gp_col = 2\<rparr>, \<lparr>gp_row = 3, gp_col = 1\<rparr>]" "\<lparr>gp_row = 1, gp_col = 0\<rparr>"]
  by (simp add: reading_less_iff)

text \<open>Property (steps_go_round): stepping forward and back returns to the same match, and as many steps as there are matches lead
  round to it; every step lands on a match.\<close>

lemma step_inside:
  assumes "0 \<le> i" "i < int n" "d = 1 \<or> d = - 1"
  shows "stepMatchIndex i n d = (i + d) mod int n"
proof -
  have "0 \<le> i + d + int n" using assms by auto
  moreover have "(i + d + int n) mod int n = (i + d) mod int n" by simp
  ultimately show ?thesis using assms by (simp add: stepMatchIndex_def Let_def)
qed

theorem steps_go_round:
  assumes "i < n" "d = 1 \<or> d = - 1"
  shows "0 \<le> stepMatchIndex (int i) n d \<and> stepMatchIndex (int i) n d < int n
    \<and> stepMatchIndex (stepMatchIndex (int i) n d) n (- d) = int i
    \<and> ((\<lambda>k. stepMatchIndex k n d) ^^ n) (int i) = int i"
proof -
  have inside: "0 \<le> stepMatchIndex k n d \<and> stepMatchIndex k n d < int n" if "0 \<le> k" "k < int n" for k
    using step_inside [OF that assms(2)] assms(1) by simp
  have "((\<lambda>k. stepMatchIndex k n d) ^^ m) (int i) = (int i + int m * d) mod int n" for m
  proof (induction m)
    case (Suc m)
    have "0 \<le> (int i + int m * d) mod int n" "(int i + int m * d) mod int n < int n" using assms(1) by simp_all
    with Suc step_inside [OF this assms(2)] show ?case by (simp add: mod_add_left_eq mod_add_right_eq algebra_simps)
  qed (use assms(1) in simp)
  then have "((\<lambda>k. stepMatchIndex k n d) ^^ n) (int i) = int i" using assms(1) by simp
  moreover have "stepMatchIndex (stepMatchIndex (int i) n d) n (- d) = int i"
    using step_inside [of "stepMatchIndex (int i) n d" n "- d"] inside [of "int i"] step_inside [of "int i" n d] assms
    by (auto simp: mod_diff_left_eq mod_add_left_eq)
  ultimately show ?thesis using inside [of "int i"] assms(1) by simp
qed

end
