(* ===== verification/GridPaste.thy ===== *)
theory GridPaste
  imports ClipboardFacts GridCells ForeignKeys
begin

text \<open>
  Pasting into the grid (\<open>utils/dataGrid.ts\<close>, from \<open>isOriginalCellValue\<close> to \<open>computePasteTargets\<close>): how clipboard
  text becomes a matrix of cells, and where the cells go. Whether a text is JSON (\<open>JSON.parse\<close>) is a
  parameter. The loop of \<open>splitTabLine\<close> is a recursion on the rest of the line.
\<close>

section \<open>Reading the clipboard\<close>

text \<open>\<open>text.replace(/\r\n?/g, '\n').split('\n')\<close> without the empty line a trailing line break leaves.\<close>

definition paste_lines :: "jsstring \<Rightarrow> jsstring list" where
  "paste_lines txt =
     (let normal = replace_all (\<lambda>s. if prefix [CR, NL] s then Some 2 else if prefix [CR] s then Some 1 else None) [NL] txt;
          lines = split_on NL normal
      in if 1 < length lines \<and> last lines = [] then butlast lines else lines)"

fun delimited_loop :: "jsstring \<Rightarrow> jsstring list \<Rightarrow> jsstring \<Rightarrow> bool \<Rightarrow> jsstring \<Rightarrow> jsstring list" where
  "delimited_loop sep cells current inQuotes [] = cells @ [current]"
| "delimited_loop sep cells current inQuotes (ch # rest) =
     (if ch = DQ then
        (if inQuotes \<and> next_is DQ rest then delimited_loop sep cells (current @ [DQ]) inQuotes (tl rest)
         else delimited_loop sep cells current (\<not> inQuotes) rest)
      else if [ch] = sep \<and> \<not> inQuotes then delimited_loop sep (cells @ [current]) [] inQuotes rest
      else delimited_loop sep cells (current @ [ch]) inQuotes rest)"

definition splitDelimitedLine :: "jsstring \<Rightarrow> jsstring \<Rightarrow> jsstring list" where
  "splitDelimitedLine line sep = delimited_loop sep [] [] False line"

definition isCsvQuotedJson :: "(jsstring \<Rightarrow> bool) \<Rightarrow> jsstring \<Rightarrow> jsstring option \<Rightarrow> bool" where
  "isCsvQuotedJson json_valid unquoted sep \<longleftrightarrow>
     (list_ex (\<lambda>c. c = DQ \<or> c = TAB \<or> c = CR \<or> c = NL) unquoted
      \<or> (case sep of Some d \<Rightarrow> d \<noteq> [] \<and> sublist d unquoted | None \<Rightarrow> False))
     \<and> json_valid unquoted"

text \<open>The match of \<open>/^"((?:[^"]|"")*)"(?=\t|$)/\<close> after its opening quote: the unquoted text and the rest.\<close>

fun quoted_cell :: "jsstring \<Rightarrow> jsstring \<Rightarrow> (jsstring \<times> jsstring) option" where
  "quoted_cell txt [] = None"
| "quoted_cell txt (c # rest) =
     (if c \<noteq> DQ then quoted_cell (txt @ [c]) rest
      else if next_is DQ rest then quoted_cell (txt @ [DQ]) (tl rest)
      else if rest = [] \<or> next_is TAB rest then Some (txt, rest)
      else None)"

lemma quoted_cell_shorter: "quoted_cell t0 s = Some (t, r) \<Longrightarrow> length r < length s"
proof (induction t0 s rule: quoted_cell.induct)
  case (2 t0 c rest)
  then show ?case by (cases rest) (auto simp: less_Suc_eq split: if_splits)
qed simp

definition unquoted_cell :: "(nat \<Rightarrow> jsstring \<Rightarrow> bool) \<Rightarrow> nat \<Rightarrow> jsstring \<Rightarrow> (jsstring \<times> jsstring) option" where
  "unquoted_cell keepQuotes col line =
     (if next_is DQ line then
        (case quoted_cell [] (tl line) of
           Some (t, rest) \<Rightarrow> if keepQuotes col t then None else Some (t, rest)
         | None \<Rightarrow> None)
      else None)"

lemma unquoted_cell_shorter: "unquoted_cell keep k s = Some (t, r) \<Longrightarrow> length r < length s"
  by (cases s) (auto simp: unquoted_cell_def dest!: quoted_cell_shorter split: option.splits if_splits)

function tab_loop :: "(nat \<Rightarrow> jsstring \<Rightarrow> bool) \<Rightarrow> jsstring list \<Rightarrow> jsstring \<Rightarrow> jsstring list" where
  "tab_loop keepQuotes cells line =
     (case unquoted_cell keepQuotes (length cells) line of
        Some (t, rest) \<Rightarrow> if rest = [] then cells @ [t] else tab_loop keepQuotes (cells @ [t]) (tl rest)
      | None \<Rightarrow>
          (case find_index (\<lambda>c. c = TAB) line of
             None \<Rightarrow> cells @ [line]
           | Some e \<Rightarrow> tab_loop keepQuotes (cells @ [take e line]) (drop (Suc e) line)))"
  by pat_completeness auto
termination
proof (relation "measure (\<lambda>(keep, cells, line). length line)")
  fix keep :: "nat \<Rightarrow> jsstring \<Rightarrow> bool" and cells :: "jsstring list" and line p t rest
  assume "unquoted_cell keep (length cells) line = Some p" "(t, rest) = p" "rest \<noteq> []"
  then show "((keep, cells @ [t], tl rest), keep, cells, line) \<in> measure (\<lambda>(keep, cells, line). length line)"
    using unquoted_cell_shorter [of keep "length cells" line t rest] by auto
next
  fix keep :: "nat \<Rightarrow> jsstring \<Rightarrow> bool" and cells :: "jsstring list" and line :: jsstring and e
  assume "find_index (\<lambda>c. c = TAB) line = Some e"
  then have "e < length line" using find_index_Some by blast
  then show "((keep, cells @ [take e line], drop (Suc e) line), keep, cells, line)
      \<in> measure (\<lambda>(keep, cells, line). length line)" by simp
qed simp

declare tab_loop.simps [simp del]

definition splitTabLine :: "(nat \<Rightarrow> jsstring \<Rightarrow> bool) \<Rightarrow> jsstring \<Rightarrow> jsstring list" where
  "splitTabLine keepQuotes line = tab_loop keepQuotes [] line"

text \<open>\<open>first.split(d).length - 1\<close>.\<close>

function occurrences :: "jsstring \<Rightarrow> jsstring \<Rightarrow> nat" where
  "occurrences d s =
     (if s = [] \<or> d = [] then 0
      else if prefix d s then Suc (occurrences d (drop (length d) s)) else occurrences d (tl s))"
  by pat_completeness auto
termination by (relation "measure (\<lambda>(d, s). length s)") auto

declare occurrences.simps [simp del]

definition detected_delimiter :: "jsstring \<Rightarrow> jsstring option" where
  "detected_delimiter first =
     snd (foldl (\<lambda>(best, d) candidate. if best < occurrences candidate first then (occurrences candidate first, Some candidate) else (best, d))
       (0, None) ['';'', '','', ''|''])"

definition parsePasteMatrix ::
  "(jsstring \<Rightarrow> bool) \<Rightarrow> jsstring \<Rightarrow> jsstring option \<Rightarrow> (nat \<Rightarrow> bool) option \<Rightarrow> jsstring list list" where
  "parsePasteMatrix json_valid txt delimiterHint jsonColumn =
     (if txt = [] then []
      else
        (let lines = paste_lines txt;
             keepQuotes = (\<lambda>col unquoted. case jsonColumn of
                 None \<Rightarrow> False | Some json \<Rightarrow> json col \<and> \<not> isCsvQuotedJson json_valid unquoted delimiterHint)
         in if list_ex (\<lambda>line. TAB \<in> set line) lines then map (splitTabLine keepQuotes) lines
            else if length lines = 1 then (if hd lines = [] then [] else [splitTabLine keepQuotes (hd lines)])
            else
              (let first = hd lines;
                   sep = (case delimiterHint of
                       Some d \<Rightarrow> if d \<noteq> [] \<and> d \<noteq> [TAB] \<and> 0 < occurrences d first then Some d else detected_delimiter first
                     | None \<Rightarrow> detected_delimiter first)
               in case sep of
                    None \<Rightarrow> map (splitTabLine keepQuotes) lines
                  | Some d \<Rightarrow> map (\<lambda>line. splitDelimitedLine line d) lines)))"

section \<open>Placing the cells\<close>

definition stripHeaderRow :: "jsstring list list \<Rightarrow> jsstring list \<Rightarrow> nat \<Rightarrow> jsstring list list" where
  "stripHeaderRow matrix columnNames anchorCol =
     (if length matrix < 2 then matrix
      else (let first = hd matrix in
            if first \<noteq> [] \<and> list_all (\<lambda>(i, cell). anchorCol + i < length columnNames \<and> columnNames ! (anchorCol + i) = cell)
                 (enumerate 0 first)
            then tl matrix else matrix))"

record PasteTarget =
  pt_rowIndex :: int
  pt_colIndex :: int
  pt_value :: jsstring

definition paste_target :: "int \<Rightarrow> int \<Rightarrow> jsstring \<Rightarrow> PasteTarget" where
  "paste_target r c v = \<lparr>pt_rowIndex = r, pt_colIndex = c, pt_value = v\<rparr>"

text \<open>The two nested \<open>forEach\<close>; a position beyond the grid returns before the push.\<close>

definition paste_matrix :: "jsstring list list \<Rightarrow> int \<Rightarrow> int \<Rightarrow> int \<Rightarrow> int \<Rightarrow> PasteTarget list" where
  "paste_matrix matrix baseRow baseCol totalRows totalCols =
     concat (map (\<lambda>(r, cells).
         if totalRows \<le> baseRow + int r then []
         else List.map_filter (\<lambda>(c, v). if totalCols \<le> baseCol + int c then None
                else Some (paste_target (baseRow + int r) (baseCol + int c) v)) (enumerate 0 cells))
       (enumerate 0 matrix))"

definition computePasteTargets ::
  "jsstring list list \<Rightarrow> CellPosition \<Rightarrow> int \<Rightarrow> int \<Rightarrow> CellRangeRect option \<Rightarrow> PasteTarget list" where
  "computePasteTargets matrix anchor totalRows totalCols rng =
     (if matrix = [] then []
      else (case rng of
         Some r \<Rightarrow>
           (if length matrix = 1 \<and> length (hd matrix) = 1 then
              concat (map (\<lambda>i. map (\<lambda>j. paste_target i j (hd (hd matrix))) [minCol r..min (maxCol r) (totalCols - 1)])
                [minRow r..min (maxRow r) (totalRows - 1)])
            else paste_matrix matrix (minRow r) (minCol r) totalRows totalCols)
       | None \<Rightarrow> paste_matrix matrix (rowIndex anchor) (colIndex anchor) totalRows totalCols))"

text \<open>Whether writing a value puts the cell back; \<open>same_ref\<close> says whether two objects are the same object.\<close>

definition isOriginalCellValue :: "bool \<Rightarrow> jsval \<Rightarrow> jsval \<Rightarrow> bool" where
  "isOriginalCellValue same_ref v original =
     (if v = JNull \<or> is_object v \<or> is_object original
      then (if is_object v \<and> is_object original then same_ref else v = original) \<or> (v = JNull \<and> original = JUndefined)
      else js_String v = js_String original)"

section \<open>The grid's own copies\<close>

lemma csv_plain_chars: "\<not> csv_quoted t [d] \<Longrightarrow> c \<in> set t \<Longrightarrow> c \<noteq> d \<and> c \<noteq> DQ \<and> c \<noteq> CR \<and> c \<noteq> NL"
  by (auto simp: csv_quoted_char)

lemma quoted_cell_body:
  "rest = [] \<or> next_is TAB rest \<Longrightarrow> quoted_cell t0 (double_quotes t @ DQ # rest) = Some (t0 @ t, rest)"
proof (induction t arbitrary: t0)
  case Nil
  then show ?case by (cases rest) auto
qed auto

lemma find_tab:
  "TAB \<notin> set t \<Longrightarrow> find_index (\<lambda>c. c = TAB) t = None"
  "TAB \<notin> set t \<Longrightarrow> find_index (\<lambda>c. c = TAB) (t @ TAB # rest) = Some (length t)"
  by (induction t) auto

text \<open>One printed field at the start of what is left of the line, as a tab-separated line is split.\<close>

lemma unquoted_field:
  assumes "rest = [] \<or> next_is TAB rest" "csv_quoted t [d] \<longrightarrow> \<not> keep k t"
  shows "unquoted_cell keep k (csvField t [d] @ rest) = (if csv_quoted t [d] then Some (t, rest) else None)"
proof (cases "csv_quoted t [d]")
  case True
  with assms quoted_cell_body [OF assms(1), of "[]" t] show ?thesis by (simp add: csvField_def unquoted_cell_def)
next
  case False
  then have "\<not> next_is DQ (t @ rest)" using assms(1) by (cases t; cases rest) (auto simp: csv_quoted_char)
  with False show ?thesis by (simp add: csvField_def unquoted_cell_def)
qed

lemma tab_field:
  assumes "csv_quoted t [d] \<longrightarrow> \<not> keep (length cells) t" "TAB \<notin> set t \<or> d = TAB"
  shows "tab_loop keep cells (csvField t [d]) = cells @ [t]"
    "tab_loop keep cells (csvField t [d] @ TAB # rest) = tab_loop keep (cells @ [t]) rest"
proof -
  have no_tab: "TAB \<notin> set t" if "\<not> csv_quoted t [d]" using that assms(2) by (auto simp: csv_quoted_char)
  show "tab_loop keep cells (csvField t [d]) = cells @ [t]"
    using unquoted_field [of "[]" t d keep "length cells"] assms(1) find_tab(1) [OF no_tab]
    by (subst tab_loop.simps) (simp add: csvField_def)
  show "tab_loop keep cells (csvField t [d] @ TAB # rest) = tab_loop keep (cells @ [t]) rest"
    using unquoted_field [of "TAB # rest" t d keep "length cells"] assms(1) find_tab(2) [OF no_tab, of rest]
    by (subst tab_loop.simps) (simp add: csvField_def)
qed

lemma tab_row:
  assumes "row \<noteq> []" "\<forall>i < length row. csv_quoted (row ! i) [TAB] \<longrightarrow> \<not> keep (length cells + i) (row ! i)"
  shows "tab_loop keep cells (join_with [TAB] (map (\<lambda>t. csvField t [TAB]) row)) = cells @ row"
  using assms
proof (induction row arbitrary: cells rule: induct_list012)
  case (2 x)
  then show ?case using tab_field(1) [of x TAB keep cells] by simp
next
  case (3 x y row)
  have "csv_quoted x [TAB] \<longrightarrow> \<not> keep (length cells) x" using 3(4) [rule_format, of 0] by simp
  moreover have "csv_quoted ((y # row) ! i) [TAB] \<longrightarrow> \<not> keep (length (cells @ [x]) + i) ((y # row) ! i)"
    if "i < length (y # row)" for i
    using 3(4) [rule_format, of "Suc i"] that by simp
  ultimately show ?case using 3(2) [of "cells @ [x]"] tab_field(2) [of x TAB keep cells] by simp
qed simp

lemma delimited_plain:
  "\<forall>c \<in> set t. c \<noteq> d \<and> c \<noteq> DQ \<Longrightarrow> delimited_loop [d] cells cur False (t @ rest) = delimited_loop [d] cells (cur @ t) False rest"
  by (induction t arbitrary: cur) auto

lemma delimited_quoted:
  "\<not> next_is DQ rest \<Longrightarrow>
   delimited_loop d cells cur True (double_quotes t @ DQ # rest) = delimited_loop d cells (cur @ t) False rest"
  by (induction t arbitrary: cur) auto

lemma delimited_field:
  "\<not> next_is DQ rest \<Longrightarrow> d \<noteq> DQ \<Longrightarrow>
   delimited_loop [d] cells [] False (csvField t [d] @ rest) = delimited_loop [d] cells t False rest"
  using delimited_plain [of t d cells "[]" rest] delimited_quoted [of rest "[d]" cells "[]" t] csv_plain_chars [of t d]
  by (auto simp: csvField_def)

lemma delimited_row:
  "row \<noteq> [] \<Longrightarrow> d \<noteq> DQ \<Longrightarrow>
   delimited_loop [d] cells [] False (join_with [d] (map (\<lambda>t. csvField t [d]) row)) = cells @ row"
proof (induction row arbitrary: cells rule: induct_list012)
  case (2 x)
  then show ?case using delimited_field [of "[]" d cells x] by simp
next
  case (3 x y row)
  then show ?case using delimited_field [of "d # join_with [d] (map (\<lambda>t. csvField t [d]) (y # row))" d cells x] by simp
qed simp

section \<open>Lines\<close>

lemma replace_none: "\<forall>c \<in> set s. c \<noteq> CR \<Longrightarrow>
  replace_all (\<lambda>s. if prefix [CR, NL] s then Some 2 else if prefix [CR] s then Some 1 else None) [NL] s = s"
  by (induction s) auto

lemma split_on_plain: "d \<notin> set l \<Longrightarrow> split_on d l = [l]" "d \<notin> set l \<Longrightarrow> split_on d (l @ d # rest) = l # split_on d rest"
  by (induction l) auto

lemma split_on_join:
  "ls \<noteq> [] \<Longrightarrow> \<forall>l \<in> set ls. d \<notin> set l \<Longrightarrow> split_on d (join_with [d] ls) = ls"
  by (induction ls rule: induct_list012) (simp_all add: split_on_plain)

lemma set_join: "set (join_with d ls) \<subseteq> set d \<union> \<Union> (set ` set ls)"
  by (induction ls rule: induct_list012) auto

lemma paste_lines_join:
  assumes "ls \<noteq> []" "\<forall>l \<in> set ls. l \<noteq> [] \<and> CR \<notin> set l \<and> NL \<notin> set l"
  shows "paste_lines (join_with [NL] ls) = ls"
proof -
  have "\<forall>c \<in> set (join_with [NL] ls). c \<noteq> CR" using set_join [of "[NL]" ls] assms(2) by auto
  moreover have "last ls \<noteq> []" using assms last_in_set by blast
  ultimately show ?thesis using assms split_on_join [of ls NL] by (simp add: paste_lines_def replace_none)
qed

lemma set_double_quotes: "set (double_quotes t) = set t"
  by (induction t) auto

lemma set_csvField: "set (csvField t d) \<subseteq> insert DQ (set t)"
  by (auto simp: csvField_def set_double_quotes)

lemma set_row: "set (join_with d (map (\<lambda>t. csvField t d) row)) \<subseteq> set d \<union> insert DQ (\<Union> (set ` set row))"
  using set_join [of d "map (\<lambda>t. csvField t d) row"] set_csvField by fastforce

lemma two_columns: "2 \<le> length row \<Longrightarrow> d \<in> set (join_with [d] (map f row))"
  by (cases row; cases "tl row") auto

lemma occurrences_char: "0 < occurrences [d] s \<longleftrightarrow> d \<in> set s"
proof (induction s)
  case (Cons c s)
  then show ?case by (subst occurrences.simps) auto
qed (simp add: occurrences.simps)

text \<open>The lines of a copied block, header or not: each cell comes back.\<close>

lemma block_pastes_back:
  assumes ts: "ts \<noteq> []" "\<forall>r \<in> set ts. 2 \<le> length r \<and> (\<forall>t \<in> set r. CR \<notin> set t \<and> NL \<notin> set t)"
    and d: "d \<noteq> DQ" "d \<noteq> CR" "d \<noteq> NL" "d = TAB \<or> 2 \<le> length ts \<and> (\<forall>r \<in> set ts. \<forall>t \<in> set r. TAB \<notin> set t)"
    and json: "\<forall>r \<in> set ts. \<forall>i < length r. (case isJson of Some j \<Rightarrow> j i | None \<Rightarrow> False) \<and> csv_quoted (r ! i) [d] \<longrightarrow> json_valid (r ! i)"
  shows "parsePasteMatrix json_valid (join_with [NL] (map (\<lambda>r. join_with [d] (map (\<lambda>t. csvField t [d]) r)) ts)) (Some [d]) isJson = ts"
proof -
  define f where "f r = join_with [d] (map (\<lambda>t. csvField t [d]) r)" for r
  have in_row: "set (f r) \<subseteq> {d, DQ} \<union> \<Union> (set ` set r)" for r using set_row [of "[d]" r] by (auto simp: f_def)
  have has_d: "d \<in> set (f r)" if "r \<in> set ts" for r using two_columns ts(2) that by (auto simp: f_def)
  have "\<forall>l \<in> set (map f ts). l \<noteq> [] \<and> CR \<notin> set l \<and> NL \<notin> set l"
    using ts(2) in_row has_d d(2,3) by fastforce
  then have lines: "paste_lines (join_with [NL] (map f ts)) = map f ts"
    using ts(1) by (intro paste_lines_join) simp_all
  have ne: "join_with [NL] (map f ts) \<noteq> []" using ts(1) has_d by (cases ts; cases "tl ts") fastforce+
  have rows: "r \<noteq> []" if "r \<in> set ts" for r using ts(2) that by auto
  show ?thesis
  proof (cases "d = TAB")
    case True
    define keep where "keep = (\<lambda>col unquoted. case isJson of
        None \<Rightarrow> False | Some json \<Rightarrow> json col \<and> \<not> isCsvQuotedJson json_valid unquoted (Some [d]))"
    have "splitTabLine keep (f r) = r" if r: "r \<in> set ts" for r
    proof -
      have "csv_quoted (r ! i) [TAB] \<longrightarrow> \<not> keep (length ([] :: jsstring list) + i) (r ! i)" if "i < length r" for i
        using json [rule_format, OF r that] True
        by (auto simp: keep_def isCsvQuotedJson_def csv_quoted_char list_ex_iff split: option.splits)
      then show ?thesis using tab_row [OF rows [OF r], of keep "[]"] by (simp add: splitTabLine_def f_def True)
    qed
    then have "map (splitTabLine keep) (map f ts) = ts" by (simp add: map_idI)
    moreover have "list_ex (\<lambda>line. TAB \<in> set line) (map f ts)"
      using has_d ts(1) True by (cases ts) auto
    ultimately show ?thesis
      unfolding parsePasteMatrix_def f_def [symmetric] lines Let_def keep_def using ne by simp
  next
    case False
    with d(4) have two: "2 \<le> length ts" and no_tab: "\<forall>r \<in> set ts. \<forall>t \<in> set r. TAB \<notin> set t" by auto
    have "\<not> list_ex (\<lambda>line. TAB \<in> set line) (map f ts)"
      using in_row no_tab False by (fastforce simp: list_ex_iff)
    moreover have "0 < occurrences [d] (hd (map f ts))" using has_d ts(1) by (cases ts) (auto simp: occurrences_char)
    moreover have "map (\<lambda>line. splitDelimitedLine line [d]) (map f ts) = ts"
      using delimited_row [of _ d "[]"] rows d(1) by (auto simp: splitDelimitedLine_def f_def intro!: map_idI)
    ultimately show ?thesis
      unfolding parsePasteMatrix_def f_def [symmetric] lines Let_def using ne two False by simp
  qed
qed

text \<open>What a copied block needs to be read back: two columns or more, no line breaks in the cells, and with a separator other
  than the tab also two lines or more and no tabs in the cells; a quoted text that lands in a JSON column
  is JSON.\<close>

definition pastable :: "(jsstring \<Rightarrow> bool) \<Rightarrow> char \<Rightarrow> (nat \<Rightarrow> bool) option \<Rightarrow> jsstring list list \<Rightarrow> bool" where
  "pastable json_valid d isJson ts \<longleftrightarrow>
     ts \<noteq> [] \<and> d \<notin> {DQ, CR, NL} \<and> (d = TAB \<or> 2 \<le> length ts)
     \<and> list_all (\<lambda>r. 2 \<le> length r
          \<and> list_all (\<lambda>(i, t). CR \<notin> set t \<and> NL \<notin> set t \<and> (d = TAB \<or> TAB \<notin> set t)
               \<and> ((case isJson of Some j \<Rightarrow> j i | None \<Rightarrow> False) \<and> csv_quoted t [d] \<longrightarrow> json_valid t)) (enumerate 0 r)) ts"

lemma list_all_enumerate: "list_all (\<lambda>(i, t). P i t) (enumerate 0 xs) \<longleftrightarrow> (\<forall>i < length xs. P i (xs ! i))"
  unfolding list_all_iff Ball_def in_set_enumerate_eq split_paired_All by auto

lemma pastable_block:
  assumes "pastable json_valid d isJson ts"
  shows "parsePasteMatrix json_valid (join_with [NL] (map (\<lambda>r. join_with [d] (map (\<lambda>t. csvField t [d]) r)) ts)) (Some [d]) isJson = ts"
proof (rule block_pastes_back)
  note a = assms [unfolded pastable_def list_all_enumerate, unfolded list_all_iff]
  show "ts \<noteq> []" "d \<noteq> DQ" "d \<noteq> CR" "d \<noteq> NL" using a by simp_all
  show "\<forall>r \<in> set ts. 2 \<le> length r \<and> (\<forall>t \<in> set r. CR \<notin> set t \<and> NL \<notin> set t)"
    using a by (metis in_set_conv_nth)
  show "d = TAB \<or> 2 \<le> length ts \<and> (\<forall>r \<in> set ts. \<forall>t \<in> set r. TAB \<notin> set t)"
    using a by (metis in_set_conv_nth)
  show "\<forall>r \<in> set ts. \<forall>i < length r. (case isJson of Some j \<Rightarrow> j i | None \<Rightarrow> False) \<and> csv_quoted (r ! i) [d] \<longrightarrow> json_valid (r ! i)"
    using a by blast
qed

lemma strip_own_header:
  assumes "columns \<noteq> []" "columns = take (length columns) (drop anchorCol columnNames)" "ts \<noteq> []"
  shows "stripHeaderRow (columns # ts) columnNames anchorCol = ts"
proof -
  have l: "length columns \<le> length columnNames - anchorCol" using arg_cong [OF assms(2), of length] by simp
  then have "anchorCol + i < length columnNames \<and> columnNames ! (anchorCol + i) = columns ! i" if "i < length columns" for i
    using that arg_cong [OF assms(2), of "\<lambda>xs. xs ! i"] by simp
  moreover have "2 \<le> length (columns # ts)" using assms(3) by (cases ts) simp_all
  ultimately show ?thesis using assms(1,3) by (simp add: stripHeaderRow_def Let_def list_all_enumerate)
qed



text \<open>The lines are split before the quotes are read, so a copied cell with a line break falls apart, and so does
  one with a tab when the separator is another one.\<close>

theorem line_break_splits_cell:
  "parsePasteMatrix (\<lambda>_. False) (rowsToCSV [[JStr ''c'', JStr [CHR ''a'', NL, CHR ''b'']], [JStr ''d'', JStr ''e'']] ''NULL'' '','') (Some '','') None
     = [[''c'', ''a''], [''b''], [''d'', ''e'']]
   \<and> parsePasteMatrix (\<lambda>_. False) (rowsToCSV [[JStr ''c'', JStr [CHR ''a'', TAB, CHR ''b'']], [JStr ''d'', JStr ''e'']] ''NULL'' '','') (Some '','') None
     = [[''c,a'', ''b''], [''d,e'']]"
  by code_simp

section \<open>Where the cells go\<close>

definition fills :: "jsstring list list \<Rightarrow> CellRangeRect option \<Rightarrow> bool" where
  "fills matrix rng \<longleftrightarrow> rng \<noteq> None \<and> length matrix = 1 \<and> length (hd matrix) = 1"

definition base_cell :: "CellPosition \<Rightarrow> CellRangeRect option \<Rightarrow> int \<times> int" where
  "base_cell anchor rng = (case rng of Some r \<Rightarrow> (minRow r, minCol r) | None \<Rightarrow> (rowIndex anchor, colIndex anchor))"

lemma paste_row_set:
  "p \<in> set (List.map_filter (\<lambda>(c, v). if C \<le> bc + int c then None else Some (paste_target r (bc + int c) v)) (enumerate 0 cells))
   \<longleftrightarrow> (\<exists>j < length cells. bc + int j < C \<and> p = paste_target r (bc + int j) (cells ! j))"
  unfolding List.map_filter_def by (auto simp: in_set_enumerate_eq image_iff not_le)

lemma concat_enumerate_set:
  "p \<in> set (concat (map (\<lambda>(i, x). f i x) (enumerate 0 xs))) \<longleftrightarrow> (\<exists>i < length xs. p \<in> set (f i (xs ! i)))"
  unfolding set_concat set_map UN_iff by (force simp: in_set_enumerate_eq)

lemma paste_matrix_set:
  "set (paste_matrix m br bc R C) =
     {paste_target (br + int i) (bc + int j) (m ! i ! j) | i j.
       i < length m \<and> j < length (m ! i) \<and> br + int i < R \<and> bc + int j < C}"
proof (rule set_eqI)
  fix p
  have "p \<in> set (paste_matrix m br bc R C) \<longleftrightarrow>
      (\<exists>i < length m. br + int i < R \<and> (\<exists>j < length (m ! i). bc + int j < C \<and> p = paste_target (br + int i) (bc + int j) (m ! i ! j)))"
    unfolding paste_matrix_def concat_enumerate_set by (simp add: paste_row_set not_le if_distrib [of set] if_distribR) auto
  then show "p \<in> set (paste_matrix m br bc R C) \<longleftrightarrow> p \<in> {paste_target (br + int i) (bc + int j) (m ! i ! j) | i j.
       i < length m \<and> j < length (m ! i) \<and> br + int i < R \<and> bc + int j < C}" by blast
qed

text \<open>Property (paste_stays_in_the_grid): a single value fills exactly the selected range, a block goes cell by cell to the right and down from its corner,
  both cut at the edges of the grid.\<close>

theorem paste_stays_in_the_grid:
  "set (computePasteTargets matrix anchor totalRows totalCols rng) =
     (if fills matrix rng then
        (case rng of
           Some r \<Rightarrow> {paste_target i j (hd (hd matrix)) | i j.
             minRow r \<le> i \<and> i \<le> maxRow r \<and> i < totalRows \<and> minCol r \<le> j \<and> j \<le> maxCol r \<and> j < totalCols}
         | None \<Rightarrow> {})
      else
        {paste_target (fst (base_cell anchor rng) + int i) (snd (base_cell anchor rng) + int j) (matrix ! i ! j) | i j.
          i < length matrix \<and> j < length (matrix ! i)
          \<and> fst (base_cell anchor rng) + int i < totalRows \<and> snd (base_cell anchor rng) + int j < totalCols})"
proof (cases rng)
  case None
  then show ?thesis
    by (cases "matrix = []") (simp_all add: computePasteTargets_def fills_def base_cell_def paste_matrix_set)
next
  case (Some r)
  show ?thesis
  proof (cases "fills matrix rng")
    case True
    then have "matrix \<noteq> []" by (auto simp: fills_def)
    with True Some show ?thesis by (auto simp: computePasteTargets_def fills_def) blast
  next
    case False
    then have "\<not> (length matrix = 1 \<and> length (hd matrix) = 1)" using Some by (simp add: fills_def)
    with Some False show ?thesis
      by (cases "matrix = []") (simp_all only: computePasteTargets_def base_cell_def paste_matrix_set option.case if_False if_True,
        simp_all)
  qed
qed

end
