(* ===== verification/EditorTabs.thy ===== *)
theory EditorTabs
  imports TabFacts ClipboardText
begin

text \<open>
  Opening, naming, duplicating and closing tabs (\<open>utils/editor.ts\<close>) and the order of recently used tabs
  (\<open>utils/tabScroll.ts\<close>). \<open>Partial<Tab>\<close> is a record of the fields some caller passes; a field that is not
  passed is \<open>None\<close>, or \<open>undefined\<close> where that is the field's value in a new tab anyway. \<open>generateTabId\<close> is
  random and \<open>Date.now\<close> reads the clock: the id and the time are arguments.
\<close>

section \<open>New tabs\<close>

record TabPartial =
  tp_id :: "jsstring option"
  tp_title :: "jsstring option"
  tp_type :: "TabType option"
  tp_query :: "jsstring option"
  tp_activeTable :: "jsstring option"
  tp_connectionId :: "jsstring option"
  tp_isEditorOpen :: "bool option"
  tp_database :: jsval
  tp_schema :: jsval
  tp_filterClause :: jsval
  tp_sortClause :: jsval
  tp_limitClause :: jsval
  tp_queryParams :: jsval
  tp_notebookId :: jsval
  tp_readOnly :: jsval
  tp_sourceFilePath :: jsval
  tp_sourceFileContent :: jsval
  tp_runtime :: "(jsstring \<times> jsval) list"

definition no_partial :: TabPartial where
  "no_partial =
     \<lparr>tp_id = None, tp_title = None, tp_type = None, tp_query = None, tp_activeTable = None, tp_connectionId = None,
      tp_isEditorOpen = None, tp_database = JUndefined, tp_schema = JUndefined, tp_filterClause = JUndefined,
      tp_sortClause = JUndefined, tp_limitClause = JUndefined, tp_queryParams = JUndefined, tp_notebookId = JUndefined,
      tp_readOnly = JUndefined, tp_sourceFilePath = JUndefined, tp_sourceFileContent = JUndefined, tp_runtime = []\<rparr>"

definition given :: "'a option \<Rightarrow> 'a \<Rightarrow> 'a" where
  "given v d = (case v of Some x \<Rightarrow> x | None \<Rightarrow> d)"

definition createInitialTabState :: "jsstring \<Rightarrow> jsstring \<Rightarrow> TabPartial \<Rightarrow> Tab" where
  "createInitialTabState freshId connectionId p =
     \<lparr>t_id = given (tp_id p) freshId, t_title = given (tp_title p) ''Console'', t_type = given (tp_type p) TConsole,
      t_query = given (tp_query p) [], t_page = 1, t_activeTable = tp_activeTable p, t_pkColumns = None,
      t_connectionId = given (tp_connectionId p) connectionId, t_database = tp_database p, t_flowState = JUndefined,
      t_isEditorOpen = JBool (given (tp_isEditorOpen p) (tp_type p \<noteq> Some TTable)),
      t_filterClause = tp_filterClause p, t_sortClause = tp_sortClause p, t_limitClause = tp_limitClause p,
      t_pageSize = JUndefined, t_transposed = JUndefined, t_autoRefreshIntervalMs = None,
      t_queryParams = tp_queryParams p, t_notebookId = tp_notebookId p, t_schema = tp_schema p,
      t_readOnly = tp_readOnly p, t_sourceFilePath = tp_sourceFilePath p, t_sourceFileContent = tp_sourceFileContent p,
      t_sourceFileDirty = JUndefined, t_pinned = False, t_result = JNull, t_error = [], t_executionTime = JNull,
      t_isLoading = False, t_isAutoRefreshing = False, t_autoRefreshError = [], t_pendingChanges = JUndefined,
      t_pendingInsertions = JUndefined, t_pendingDeletions = JUndefined, t_selectedRows = JUndefined,
      t_notebookState = JUndefined, t_runtime = tp_runtime p\<rparr>"

definition tabs_of_type :: "Tab list \<Rightarrow> jsstring \<Rightarrow> TabType \<Rightarrow> nat" where
  "tabs_of_type tabs connectionId ty = length (filter (\<lambda>t. t_connectionId t = connectionId \<and> t_type t = ty) tabs)"

definition numbered_title :: "jsstring \<Rightarrow> nat \<Rightarrow> jsstring" where
  "numbered_title name n = (if n = 0 then name else name @ '' '' @ nat_str (n + 1))"

definition generateTabTitle :: "Tab list \<Rightarrow> jsstring \<Rightarrow> TabPartial \<Rightarrow> jsstring" where
  "generateTabTitle tabs activeConnectionId p =
     (if given (tp_title p) [] \<noteq> [] then given (tp_title p) []
      else if tp_type p = Some TTable \<and> given (tp_activeTable p) [] \<noteq> [] then given (tp_activeTable p) []
      else if tp_type p = Some TQueryBuilder then numbered_title ''Visual Query'' (tabs_of_type tabs activeConnectionId TQueryBuilder)
      else if tp_type p = Some TNotebook then numbered_title ''Notebook'' (tabs_of_type tabs activeConnectionId TNotebook)
      else numbered_title ''Console'' (tabs_of_type tabs activeConnectionId TConsole))"

text \<open>\<open>x || undefined\<close> of an optional text, as the text or nothing.\<close>

definition text_or_none :: "jsval \<Rightarrow> jsstring option" where
  "text_or_none v = (case v of JStr s \<Rightarrow> if s = [] then None else Some s | _ \<Rightarrow> None)"

definition same_table :: "jsstring \<Rightarrow> jsstring \<Rightarrow> jsval \<Rightarrow> jsval \<Rightarrow> Tab \<Rightarrow> bool" where
  "same_table connectionId tableName schema database t \<longleftrightarrow>
     t_connectionId t = connectionId \<and> t_type t = TTable \<and> t_activeTable t = Some tableName
     \<and> text_or_none (t_schema t) = text_or_none schema \<and> text_or_none (t_database t) = text_or_none database"

definition findExistingTableTab :: "Tab list \<Rightarrow> jsstring \<Rightarrow> jsstring option \<Rightarrow> jsval \<Rightarrow> jsval \<Rightarrow> Tab option" where
  "findExistingTableTab tabs connectionId tableName schema database =
     (case tableName of
        None \<Rightarrow> None
      | Some n \<Rightarrow> if n = [] then None else find (same_table connectionId n schema database) tabs)"

definition DUPLICATE_TAB_TITLE_SUFFIX :: jsstring where
  "DUPLICATE_TAB_TITLE_SUFFIX = '' (copy)''"

definition canDuplicateTab :: "TabType \<Rightarrow> bool" where
  "canDuplicateTab ty \<longleftrightarrow> ty = TConsole \<or> ty = TTable"

definition canRenameTab :: "Tab option \<Rightarrow> bool" where
  "canRenameTab tab =
     (case tab of None \<Rightarrow> False | Some t \<Rightarrow> t_type t = TNotebook \<or> t_type t = TConsole \<and> \<not> truthy (t_sourceFilePath t))"

text \<open>\<open>materialized\<close> is one of the fields of \<open>t_runtime\<close>.\<close>

definition buildDuplicatedTab :: "Tab \<Rightarrow> TabPartial option" where
  "buildDuplicatedTab source =
     (if \<not> canDuplicateTab (t_type source) then None
      else Some (no_partial\<lparr>
        tp_type := Some (t_type source), tp_title := Some (t_title source @ DUPLICATE_TAB_TITLE_SUFFIX),
        tp_query := Some (t_query source), tp_activeTable := t_activeTable source,
        tp_queryParams := (if truthy (t_queryParams source) then t_queryParams source else JUndefined),
        tp_schema := t_schema source,
        tp_runtime := (if truthy (get_prop (t_runtime source) ''materialized'') then [(''materialized'', JBool True)] else []),
        tp_readOnly := (if truthy (t_readOnly source) then JBool True else JUndefined)\<rparr>))"

definition insertTabAfter :: "Tab list \<Rightarrow> jsstring \<Rightarrow> Tab \<Rightarrow> Tab list" where
  "insertTabAfter tabs afterTabId tab =
     (case find_index (\<lambda>t. t_id t = afterTabId) tabs of
        None \<Rightarrow> tabs @ [tab] | Some index \<Rightarrow> insert_at (Suc index) tab tabs)"

section \<open>Titles\<close>

definition named_after_table :: "Tab \<Rightarrow> bool" where
  "named_after_table t \<longleftrightarrow> t_activeTable t = Some (t_title t)"

definition getTabDisplayTitle :: "Tab \<Rightarrow> Tab list \<Rightarrow> jsstring" where
  "getTabDisplayTitle tab tabs =
     (if t_type tab \<noteq> TTable \<or> \<not> truthy (t_schema tab) \<or> \<not> named_after_table tab then t_title tab
      else if list_ex (\<lambda>t. t_id t \<noteq> t_id tab \<and> t_connectionId t = t_connectionId tab \<and> t_type t = TTable
                 \<and> named_after_table t \<and> t_activeTable t = t_activeTable tab \<and> t_schema t \<noteq> t_schema tab) tabs
           then given (text_or_none (t_schema tab)) [] @ ''.'' @ t_title tab
      else t_title tab)"

definition getTabFullTitle :: "Tab \<Rightarrow> Tab list \<Rightarrow> jsstring option \<Rightarrow> jsstring" where
  "getTabFullTitle tab tabs consoleDatabase =
     (if t_type tab = TTable \<and> given (t_activeTable tab) [] \<noteq> [] \<and> named_after_table tab then
        join_with ''.'' (List.map_filter text_or_none [t_database tab, t_schema tab, JStr (given (t_activeTable tab) [])])
      else (let title = getTabDisplayTitle tab tabs; db = given consoleDatabase [] in
            if t_type tab = TConsole \<and> db \<noteq> [] then title @ '' ('' @ db @ '')'' else title))"

section \<open>Closing\<close>

definition getConnectionTabs :: "Tab list \<Rightarrow> jsstring option \<Rightarrow> Tab list" where
  "getConnectionTabs tabs connectionId = filterTabsByConnection tabs connectionId"

definition getActiveTab :: "Tab list \<Rightarrow> jsstring option \<Rightarrow> jsstring option \<Rightarrow> Tab option" where
  "getActiveTab tabs connectionId activeTabId = getActiveTabForConnection tabs connectionId activeTabId"

definition tab_at :: "Tab list \<Rightarrow> nat \<Rightarrow> Tab option" where
  "tab_at ts i = (if i < length ts then Some (ts ! i) else None)"

definition id_or_null :: "Tab option \<Rightarrow> jsstring option" where
  "id_or_null t = (case t of None \<Rightarrow> None | Some u \<Rightarrow> if t_id u = [] then None else Some (t_id u))"

text \<open>\<open>Math.max(0, closedIdx - 1)\<close>: a tab that is not found counts like the first one.\<close>

definition closeTabWithState :: "Tab list \<Rightarrow> jsstring \<Rightarrow> jsstring option \<Rightarrow> jsstring \<Rightarrow> Tab list \<times> jsstring option" where
  "closeTabWithState tabs connectionId activeTabId tabIdToClose =
     (let newTabs = filter (\<lambda>t. t_id t \<noteq> tabIdToClose) tabs;
          connTabs = filter (\<lambda>t. t_connectionId t = connectionId) newTabs
      in (newTabs,
          if activeTabId = Some tabIdToClose then
            (let closedIdx = find_index (\<lambda>t. t_id t = tabIdToClose) (filter (\<lambda>t. t_connectionId t = connectionId) tabs)
             in id_or_null (tab_at connTabs (given closedIdx 0 - 1)))
          else activeTabId))"

definition closeAllTabsForConnection :: "Tab list \<Rightarrow> jsstring \<Rightarrow> jsstring option \<Rightarrow> Tab list \<times> jsstring option" where
  "closeAllTabsForConnection tabs connectionId activeTabId =
     (let closedIds = getBulkClosedTabIds (filter (\<lambda>t. t_connectionId t = connectionId) tabs) CloseAll None;
          newTabs = filter (\<lambda>t. t_connectionId t \<noteq> connectionId \<or> t_id t \<notin> set closedIds) tabs;
          keptTabs = filter (\<lambda>t. t_connectionId t = connectionId) newTabs
      in (newTabs,
          if list_ex (\<lambda>t. Some (t_id t) = activeTabId) keptTabs then activeTabId
          else if keptTabs = [] then None else Some (t_id (last keptTabs))))"

definition closeOtherTabsForConnection :: "Tab list \<Rightarrow> jsstring \<Rightarrow> jsstring \<Rightarrow> Tab list" where
  "closeOtherTabsForConnection tabs connectionId keepTabId =
     (let closedIds = getBulkClosedTabIds (filter (\<lambda>t. t_connectionId t = connectionId) tabs) CloseOthers (Some keepTabId)
      in filter (\<lambda>t. t_connectionId t \<noteq> connectionId \<or> t_id t \<notin> set closedIds) tabs)"

text \<open>\<open>closeTabsToLeft\<close> and \<open>closeTabsToRight\<close> differ in the action alone.\<close>

definition close_side ::
  "BulkTabCloseAction \<Rightarrow> Tab list \<Rightarrow> jsstring \<Rightarrow> jsstring \<Rightarrow> jsstring option \<Rightarrow> Tab list \<times> jsstring option" where
  "close_side action tabs connectionId targetTabId activeTabId =
     (let connTabs = filter (\<lambda>t. t_connectionId t = connectionId) tabs in
      if find_index (\<lambda>t. t_id t = targetTabId) connTabs = None then (tabs, activeTabId)
      else (let tabsToClose = getBulkClosedTabIds connTabs action (Some targetTabId);
                otherConnTabs = filter (\<lambda>t. t_connectionId t \<noteq> connectionId) tabs;
                remainingConnTabs = filter (\<lambda>t. t_id t \<notin> set tabsToClose) connTabs;
                activeTabWasClosed = (case activeTabId of None \<Rightarrow> False | Some a \<Rightarrow> a \<noteq> [] \<and> a \<in> set tabsToClose)
            in (otherConnTabs @ remainingConnTabs, if activeTabWasClosed then Some targetTabId else activeTabId)))"

definition closeTabsToLeft :: "Tab list \<Rightarrow> jsstring \<Rightarrow> jsstring \<Rightarrow> jsstring option \<Rightarrow> Tab list \<times> jsstring option" where
  "closeTabsToLeft = close_side CloseLeft"

definition closeTabsToRight :: "Tab list \<Rightarrow> jsstring \<Rightarrow> jsstring \<Rightarrow> jsstring option \<Rightarrow> Tab list \<times> jsstring option" where
  "closeTabsToRight = close_side CloseRight"

definition updateTabInList :: "Tab list \<Rightarrow> jsstring \<Rightarrow> (Tab \<Rightarrow> Tab) \<Rightarrow> Tab list" where
  "updateTabInList tabs tabId apply_partial = map (\<lambda>t. if t_id t = tabId then apply_partial t else t) tabs"

section \<open>The schema cache\<close>

record SchemaCache =
  sc_data :: jsval
  sc_version :: int
  sc_timestamp :: int

definition shouldUseCachedSchema :: "int \<Rightarrow> SchemaCache option \<Rightarrow> int option \<Rightarrow> bool" where
  "shouldUseCachedSchema now cached schemaVersion =
     (case cached of
        None \<Rightarrow> False
      | Some e \<Rightarrow> (case schemaVersion of Some v \<Rightarrow> sc_version e = v | None \<Rightarrow> True) \<and> now - sc_timestamp e < 300000)"

definition createSchemaCacheEntry :: "int \<Rightarrow> jsval \<Rightarrow> int \<Rightarrow> SchemaCache" where
  "createSchemaCacheEntry now data version = \<lparr>sc_data = data, sc_version = version, sc_timestamp = now\<rparr>"

section \<open>Recently used tabs\<close>

definition getRecentTabIds :: "jsstring list \<Rightarrow> jsstring list \<Rightarrow> jsstring list" where
  "getRecentTabIds tabIds history = filter (\<lambda>i. i \<in> set tabIds) (uniq (history @ tabIds))"

definition resolveRecentTabId :: "jsstring list \<Rightarrow> jsstring option \<Rightarrow> bool \<Rightarrow> jsstring option" where
  "resolveRecentTabId order activeTabId backwards =
     (if order = [] then None
      else (case find_index (\<lambda>i. i = given activeTabId []) order of
              None \<Rightarrow> Some (if backwards then last order else hd order)
            | Some index \<Rightarrow>
                Some (order ! ((if backwards then index + length order - 1 else index + 1 + length order) mod length order))))"

definition getAdjacentTabIndex :: "int \<Rightarrow> nat \<Rightarrow> Direction \<Rightarrow> bool \<Rightarrow> int option" where
  "getAdjacentTabIndex currentIndex tabCount direction circular =
     (if tabCount = 0 then None
      else if direction = DLeft then
        (if currentIndex > 0 then Some (currentIndex - 1) else if circular then Some (int tabCount - 1) else None)
      else (if currentIndex < int tabCount - 1 then Some (currentIndex + 1) else if circular then Some 0 else None))"

definition resolveNextTabId :: "jsstring list \<Rightarrow> jsstring option \<Rightarrow> jsstring option" where
  "resolveNextTabId tabIds activeTabId =
     (if tabIds = [] then None
      else (let currentIndex = (case find_index (\<lambda>i. Some i = activeTabId) tabIds of None \<Rightarrow> - 1 | Some k \<Rightarrow> int k) in
            case getAdjacentTabIndex currentIndex (length tabIds) DRight True of
              None \<Rightarrow> None | Some k \<Rightarrow> Some (tabIds ! nat k)))"

text \<open>Property (recent_tabs_are_the_open_ones): the recently used tabs are the open ones, each once, those visited in this session first and
  in the order of the visits.\<close>

theorem recent_tabs_are_the_open_ones:
  "distinct (getRecentTabIds tabIds history) \<and> set (getRecentTabIds tabIds history) = set tabIds
   \<and> prefix (filter (\<lambda>i. i \<in> set tabIds) (uniq history)) (getRecentTabIds tabIds history)"
proof -
  have "uniq_aux seen (xs @ ys) = uniq_aux seen xs @ uniq_aux (seen \<union> set xs) ys" for seen :: "jsstring set" and xs ys
    by (induction seen xs rule: uniq_aux.induct) (auto simp: insert_absorb)
  then have "uniq (history @ tabIds) = uniq history @ uniq_aux (set history) tabIds" by (simp add: uniq_def)
  then show ?thesis by (auto simp: getRecentTabIds_def set_uniq_aux distinct_uniq_aux)
qed

end
