(* ===== verification/EditorSession.thy ===== *)
theory EditorSession
  imports EditorTabs
begin

text \<open>
  The editor's tabs as a state machine (\<open>contexts/EditorProvider.tsx\<close>): one function per callback of the
  context, run on the rendered state, and the two effects that load and save a connection's tabs.
  The active connection \<open>[]\<close> is \<open>null\<close>, as is an active tab id \<open>[]\<close> (the code stores \<open>''\<close> for none). \<open>None\<close>
  as a result is a list with an \<open>undefined\<close> tab in it. Left out: the notebook cache, releasing the closed
  tab's query session, and the history of recently used tabs.
\<close>

record EditorState =
  es_connection :: jsstring
  es_loading :: bool
  es_tabs :: "Tab list"
  es_active :: "jsstring \<Rightarrow> jsstring"
  es_closed :: ClosedTabs

definition initial_editor :: EditorState where
  "initial_editor = \<lparr>es_connection = [], es_loading = True, es_tabs = [], es_active = (\<lambda>_. []), es_closed = (\<lambda>_. None)\<rparr>"

definition active_tab_id :: "EditorState \<Rightarrow> jsstring option" where
  "active_tab_id st =
     (if es_connection st = [] \<or> es_active st (es_connection st) = [] then None
      else Some (es_active st (es_connection st)))"

definition connection_tabs :: "EditorState \<Rightarrow> Tab list" where
  "connection_tabs st = filter (\<lambda>t. t_connectionId t = es_connection st) (es_tabs st)"

section \<open>Callbacks\<close>

definition setActiveTabId :: "jsstring \<Rightarrow> EditorState \<Rightarrow> EditorState" where
  "setActiveTabId i st =
     (if es_connection st \<noteq> [] \<and> i \<noteq> [] then st\<lparr>es_active := (es_active st)(es_connection st := i)\<rparr> else st)"

text \<open>\<open>freshId\<close> is the id \<open>generateTabId\<close> gives; \<open>insertAfterId\<close> and \<open>forceNew\<close> are the options.\<close>

definition addTab :: "jsstring \<Rightarrow> TabPartial \<Rightarrow> bool \<Rightarrow> jsstring option \<Rightarrow> EditorState \<Rightarrow> EditorState option" where
  "addTab freshId p forceNew insertAfterId st =
     (let c = es_connection st in
      if c = [] then Some st
      else (let existing = (if forceNew then None
                            else findExistingTableTab (es_tabs st) c (tp_activeTable p) (tp_schema p) (tp_database p)) in
            case existing of
              Some t \<Rightarrow> Some (setActiveTabId (t_id t) st)
            | None \<Rightarrow>
                (let title = generateTabTitle (es_tabs st) c p;
                     newTab = createInitialTabState freshId c
                       (p\<lparr>tp_id := Some (given (tp_id p) freshId), tp_title := Some (given (tp_title p) title),
                          tp_connectionId := Some (given (tp_connectionId p) c)\<rparr>);
                     inserted = (case insertAfterId of
                                   Some after \<Rightarrow> if after = [] then es_tabs st @ [newTab] else insertTabAfter (es_tabs st) after newTab
                                 | None \<Rightarrow> es_tabs st @ [newTab])
                 in map_option (\<lambda>ts. setActiveTabId freshId (st\<lparr>es_tabs := ts\<rparr>)) (keepPinnedTabsFirst inserted c))))"

definition set_active_entry :: "jsstring option \<Rightarrow> EditorState \<Rightarrow> EditorState" where
  "set_active_entry i st = st\<lparr>es_active := (es_active st)(es_connection st := given i [])\<rparr>"

definition rememberClosedTabs :: "jsstring list \<Rightarrow> EditorState \<Rightarrow> EditorState" where
  "rememberClosedTabs closedIds st = st\<lparr>es_closed := pushClosedTabs (es_closed st) (es_tabs st) closedIds\<rparr>"

definition closeTab :: "jsstring \<Rightarrow> EditorState \<Rightarrow> EditorState" where
  "closeTab i st =
     (case closeTabWithState (es_tabs st) (es_connection st) (active_tab_id st) i of (newTabs, nextActiveId) \<Rightarrow>
        (let st' = (rememberClosedTabs [i] st)\<lparr>es_tabs := newTabs\<rparr>
         in if nextActiveId \<noteq> active_tab_id st then set_active_entry nextActiveId st' else st'))"

definition closeAllTabs :: "EditorState \<Rightarrow> EditorState" where
  "closeAllTabs st =
     (if es_connection st = [] then st
      else (case closeAllTabsForConnection (es_tabs st) (es_connection st) (active_tab_id st) of (newTabs, newActiveTabId) \<Rightarrow>
        set_active_entry newActiveTabId
          ((rememberClosedTabs (getBulkClosedTabIds (connection_tabs st) CloseAll None) st)\<lparr>es_tabs := newTabs\<rparr>)))"

definition closeOtherTabs :: "jsstring \<Rightarrow> EditorState \<Rightarrow> EditorState" where
  "closeOtherTabs i st =
     (if es_connection st = [] then st
      else set_active_entry (Some i)
        ((rememberClosedTabs (getBulkClosedTabIds (connection_tabs st) CloseOthers (Some i)) st)
          \<lparr>es_tabs := closeOtherTabsForConnection (es_tabs st) (es_connection st) i\<rparr>))"

text \<open>\<open>closeTabsToLeftInternal\<close> and \<open>closeTabsToRightInternal\<close>.\<close>

definition close_side_tabs :: "BulkTabCloseAction \<Rightarrow> jsstring \<Rightarrow> EditorState \<Rightarrow> EditorState" where
  "close_side_tabs action i st =
     (if es_connection st = [] then st
      else (case close_side action (es_tabs st) (es_connection st) i (active_tab_id st) of (newTabs, newActiveTabId) \<Rightarrow>
        (let st' = (rememberClosedTabs (getBulkClosedTabIds (connection_tabs st) action (Some i)) st)\<lparr>es_tabs := newTabs\<rparr>
         in if given newActiveTabId [] \<noteq> [] \<and> newActiveTabId \<noteq> active_tab_id st then set_active_entry newActiveTabId st' else st')))"

definition reopenClosedTab :: "jsstring \<Rightarrow> EditorState \<Rightarrow> EditorState option" where
  "reopenClosedTab freshId st =
     (if es_connection st = [] then Some st
      else (case popClosedTab (es_closed st) (es_connection st) of
              (None, stacks) \<Rightarrow> Some st
            | (Some entry, stacks) \<Rightarrow>
                (case insertReopenedTab freshId (es_tabs st) (es_connection st) entry of (newTabs, tab) \<Rightarrow>
                   map_option (\<lambda>ts. setActiveTabId (t_id tab) (st\<lparr>es_closed := stacks, es_tabs := ts\<rparr>))
                     (keepPinnedTabsFirst newTabs (es_connection st)))))"

definition updateTab :: "jsstring \<Rightarrow> (Tab \<Rightarrow> Tab) \<Rightarrow> EditorState \<Rightarrow> EditorState" where
  "updateTab i apply_partial st = st\<lparr>es_tabs := updateTabInList (es_tabs st) i apply_partial\<rparr>"

definition reorderTab :: "jsstring \<Rightarrow> int \<Rightarrow> EditorState \<Rightarrow> EditorState option" where
  "reorderTab fromTabId insertAt st =
     (if es_connection st = [] then Some st
      else map_option (\<lambda>ts. st\<lparr>es_tabs := ts\<rparr>) (moveTab (es_tabs st) (es_connection st) fromTabId insertAt))"

definition pinTab :: "jsstring \<Rightarrow> bool \<Rightarrow> EditorState \<Rightarrow> EditorState option" where
  "pinTab i pin st = map_option (\<lambda>ts. st\<lparr>es_tabs := ts\<rparr>) (setTabPinned (es_tabs st) i pin)"

section \<open>Loading and saving\<close>

datatype EditorCall =
    LoadPreferences jsstring
  | SavePreferences jsstring "CleanedTab list" "jsstring option"

text \<open>The two effects that run when the active connection has changed, both on the state of that rendering: the
  state the first one sets is not seen by the second.\<close>

definition load_effect :: "EditorState \<Rightarrow> EditorState \<times> EditorCall list" where
  "load_effect st =
     (if es_connection st = [] then (st\<lparr>es_tabs := [], es_loading := False\<rparr>, [])
      else if connection_tabs st \<noteq> [] then (st\<lparr>es_loading := False\<rparr>, [])
      else (st\<lparr>es_loading := True\<rparr>, [LoadPreferences (es_connection st)]))"

definition save_effect :: "EditorState \<Rightarrow> EditorCall list" where
  "save_effect st =
     (if es_connection st = [] \<or> es_loading st then []
      else [SavePreferences (es_connection st) (map cleanTabForStorage (connection_tabs st)) (active_tab_id st)])"

definition switch_connection :: "jsstring \<Rightarrow> EditorState \<Rightarrow> EditorState \<times> EditorCall list" where
  "switch_connection c st =
     (let st' = st\<lparr>es_connection := c\<rparr>; (loaded, calls) = load_effect st' in (loaded, calls @ save_effect st'))"

text \<open>What a load does when its answer arrives; a failed load is an empty one.\<close>

definition tabs_loaded ::
  "jsstring \<Rightarrow> jsstring \<Rightarrow> CleanedTab list \<times> jsstring option \<Rightarrow> EditorState \<Rightarrow> EditorState option" where
  "tabs_loaded freshId c prefs st =
     (case prefs of (stored, activeTabId) \<Rightarrow>
        (let loadedTabs = map restoreTabFromStorage stored;
             others = filter (\<lambda>t. t_connectionId t \<noteq> c) (es_tabs st)
         in if loadedTabs \<noteq> [] then
              map_option (\<lambda>ts. st\<lparr>es_tabs := ts, es_loading := False,
                  es_active := (es_active st)(c := (if given activeTabId [] \<noteq> [] then given activeTabId [] else t_id (hd loadedTabs)))\<rparr>)
                (keepPinnedTabsFirst (others @ loadedTabs) c)
            else
              (let initialTab = createInitialTabState freshId c no_partial
               in Some (st\<lparr>es_tabs := others @ [initialTab], es_loading := False,
                    es_active := (es_active st)(c := t_id initialTab)\<rparr>))))"

section \<open>Sessions\<close>

definition tab_ids :: "EditorState \<Rightarrow> jsstring set" where
  "tab_ids st = t_id ` set (es_tabs st)"

text \<open>What the callers see to: ids that \<open>generateTabId\<close> makes are new, a tab is only closed or activated from the tab bar of
  its connection, an update keeps a tab's identity, and what is loaded of a connection are tabs of it
  with ids of their own, the active one among them.\<close>

definition fresh_id :: "jsstring \<Rightarrow> EditorState \<Rightarrow> bool" where
  "fresh_id i st \<longleftrightarrow> i \<noteq> [] \<and> i \<notin> tab_ids st"

definition own_tab :: "jsstring \<Rightarrow> EditorState \<Rightarrow> bool" where
  "own_tab i st \<longleftrightarrow> i \<in> t_id ` set (connection_tabs st)"

definition good_prefs :: "jsstring \<Rightarrow> CleanedTab list \<times> jsstring option \<Rightarrow> EditorState \<Rightarrow> bool" where
  "good_prefs c prefs st \<longleftrightarrow>
     list_all (\<lambda>t. c_connectionId t = c \<and> c_id t \<noteq> []) (fst prefs) \<and> distinct (map c_id (fst prefs))
     \<and> c_id ` set (fst prefs) \<inter> t_id ` set (filter (\<lambda>t. t_connectionId t \<noteq> c) (es_tabs st)) = {}
     \<and> (fst prefs \<noteq> [] \<longrightarrow> given (snd prefs) [] \<in> insert [] (c_id ` set (fst prefs)))"

inductive editor_step :: "EditorState \<Rightarrow> EditorState option \<Rightarrow> bool" where
  add: "fresh_id i st \<Longrightarrow> tp_id p = None \<Longrightarrow> tp_connectionId p \<in> {None, Some (es_connection st)} \<Longrightarrow>
    editor_step st (addTab i p force after st)"
| close: "own_tab i st \<Longrightarrow> editor_step st (Some (closeTab i st))"
| close_all: "editor_step st (Some (closeAllTabs st))"
| close_others: "own_tab i st \<Longrightarrow> editor_step st (Some (closeOtherTabs i st))"
| close_left: "editor_step st (Some (close_side_tabs CloseLeft i st))"
| close_right: "editor_step st (Some (close_side_tabs CloseRight i st))"
| reopen: "fresh_id i st \<Longrightarrow> editor_step st (reopenClosedTab i st)"
| update: "(\<And>t. t_id (f t) = t_id t \<and> t_connectionId (f t) = t_connectionId t \<and> t_pinned (f t) = t_pinned t) \<Longrightarrow>
    editor_step st (Some (updateTab i f st))"
| reorder: "editor_step st (reorderTab i gap st)"
| pin: "editor_step st (pinTab i b st)"
| activate: "own_tab i st \<Longrightarrow> editor_step st (Some (setActiveTabId i st))"
| switch: "editor_step st (Some (fst (switch_connection c st)))"
| loaded: "c \<noteq> [] \<Longrightarrow> fresh_id i st \<Longrightarrow> good_prefs c prefs st \<Longrightarrow> editor_step st (tabs_loaded i c prefs st)"

inductive editor_reach :: "EditorState option \<Rightarrow> bool" where
  start: "editor_reach (Some initial_editor)"
| step: "editor_reach (Some st) \<Longrightarrow> editor_step st r \<Longrightarrow> editor_reach r"

section \<open>The invariant\<close>

definition other_tabs :: "jsstring \<Rightarrow> Tab list \<Rightarrow> Tab list" where
  "other_tabs c tabs = filter (\<lambda>t. t_connectionId t \<noteq> c) tabs"

text \<open>One connection's part: ids of their own, pinned tabs first, and with any tab open the active one is open.\<close>

definition conn_ok :: "jsstring \<Rightarrow> Tab list \<Rightarrow> jsstring \<Rightarrow> jsstring set \<Rightarrow> bool" where
  "conn_ok c ts active others \<longleftrightarrow>
     distinct (map t_id ts) \<and> (\<forall>t \<in> set ts. t_id t \<noteq> [] \<and> t_id t \<notin> others) \<and> pinned_first ts
     \<and> (ts \<noteq> [] \<longrightarrow> c \<noteq> [] \<and> active \<in> t_id ` set ts)"

definition tabs_ok :: "Tab list \<Rightarrow> (jsstring \<Rightarrow> jsstring) \<Rightarrow> bool" where
  "tabs_ok tabs act \<longleftrightarrow> (\<forall>c. conn_ok c (conn_tabs c tabs) (act c) (t_id ` set (other_tabs c tabs)))"

definition closed_ok :: "ClosedTabs \<Rightarrow> bool" where
  "closed_ok stacks \<longleftrightarrow> (\<forall>c s. stacks c = Some s \<longrightarrow> (\<forall>e \<in> set s. c_connectionId (e_tab e) = c \<and> c_id (e_tab e) \<noteq> []))"

definition editor_ok :: "EditorState \<Rightarrow> bool" where
  "editor_ok st \<longleftrightarrow> tabs_ok (es_tabs st) (es_active st) \<and> closed_ok (es_closed st)"

lemma conn_other: "c' \<noteq> c \<Longrightarrow> conn_tabs c' tabs = conn_tabs c' (other_tabs c tabs)"
  unfolding other_tabs_def filter_filter by (rule filter_cong) auto

lemma set_conn_other: "set tabs = set (conn_tabs c tabs) \<union> set (other_tabs c tabs)"
  by (auto simp: other_tabs_def)

text \<open>An operation on one connection: it is enough to look at that connection's tabs.\<close>

lemma tabs_ok_change:
  assumes ok: "tabs_ok tabs act" and others: "other_tabs c r = other_tabs c tabs"
    and act: "\<And>c'. c' \<noteq> c \<Longrightarrow> act' c' = act c'"
    and c: "conn_ok c (conn_tabs c r) (act' c) (t_id ` set (other_tabs c tabs))"
  shows "tabs_ok r act'"
  unfolding tabs_ok_def
proof
  fix c'
  show "conn_ok c' (conn_tabs c' r) (act' c') (t_id ` set (other_tabs c' r))"
  proof (cases "c' = c")
    case True
    with c others show ?thesis by simp
  next
    case False
    have same: "conn_tabs c' r = conn_tabs c' tabs" using conn_other [OF False] others by metis
    have old: "conn_ok c' (conn_tabs c' tabs) (act c') (t_id ` set (other_tabs c' tabs))"
      using ok by (simp add: tabs_ok_def)
    have "t_id t \<notin> t_id ` set (other_tabs c' r)" if t: "t \<in> set (conn_tabs c' tabs)" for t
    proof
      assume "t_id t \<in> t_id ` set (other_tabs c' r)"
      then obtain u where u: "u \<in> set r" "t_connectionId u \<noteq> c'" "t_id u = t_id t" by (auto simp: other_tabs_def)
      show False
      proof (cases "t_connectionId u = c")
        case True
        with u c have "t_id t \<notin> t_id ` set (other_tabs c tabs)" by (auto simp: conn_ok_def)
        moreover have "t \<in> set (other_tabs c tabs)" using t False by (auto simp: other_tabs_def)
        ultimately show False by blast
      next
        case n: False
        with u have "u \<in> set (other_tabs c r)" by (simp add: other_tabs_def)
        then have "u \<in> set (other_tabs c tabs)" using others by simp
        then have "u \<in> set (other_tabs c' tabs)" using u(2) by (auto simp: other_tabs_def)
        then have "t_id t \<in> t_id ` set (other_tabs c' tabs)" using u(3) by (metis imageI)
        moreover have "t_id t \<notin> t_id ` set (other_tabs c' tabs)" using old t unfolding conn_ok_def by blast
        ultimately show False by blast
      qed
    qed
    with old act [OF False] same show ?thesis by (simp add: conn_ok_def)
  qed
qed

lemma tabs_okD: "tabs_ok tabs act \<Longrightarrow> conn_ok c (conn_tabs c tabs) (act c) (t_id ` set (other_tabs c tabs))"
  by (simp add: tabs_ok_def)

lemma tabs_ok_distinct:
  assumes "tabs_ok tabs act"
  shows "distinct (map t_id tabs)"
proof -
  have "t_id ` set (conn_tabs c tabs) \<inter> t_id ` set (other_tabs c tabs) = {}" for c
    using tabs_okD [OF assms, of c] by (auto simp: conn_ok_def)
  moreover have "distinct (map t_id (conn_tabs c tabs))" for c
    using tabs_okD [OF assms, of c] by (simp add: conn_ok_def)
  ultimately show ?thesis
  proof (induction tabs)
    case (Cons t ts)
    have "t_id ` set (conn_tabs c ts) \<inter> t_id ` set (other_tabs c ts) = {}" for c
      using Cons.prems(1) [of c] by (auto simp: other_tabs_def split: if_splits)
    moreover have "distinct (map t_id (conn_tabs c ts))" for c
      using Cons.prems(2) [of c] by (simp split: if_splits)
    ultimately have "distinct (map t_id ts)" by (rule Cons.IH)
    moreover have "t_id t \<notin> t_id ` set ts"
    proof
      assume "t_id t \<in> t_id ` set ts"
      then obtain u where u: "u \<in> set ts" "t_id u = t_id t" by auto
      let ?c = "t_connectionId t"
      show False
      proof (cases "t_connectionId u = ?c")
        case True
        then have "t_id t \<in> t_id ` set (conn_tabs ?c ts)" using u by (auto intro: rev_image_eqI)
        then show False using Cons.prems(2) [of ?c] by simp
      next
        case False
        then have "t_id t \<in> t_id ` set (other_tabs ?c ts)" using u by (auto simp: other_tabs_def intro: rev_image_eqI)
        then show False using Cons.prems(1) [of ?c] by (simp add: other_tabs_def)
      qed
    qed
    ultimately show ?case by simp
  qed simp
qed

lemma pinned_first_filter: "pinned_first ts \<Longrightarrow> pinned_first (filter P ts)"
proof -
  assume "pinned_first ts"
  then have "filter P ts = filter P (filter t_pinned ts) @ filter P (filter (\<lambda>t. \<not> t_pinned t) ts)"
    by (metis filter_append pinned_first_def)
  moreover have "filter t_pinned (filter P ts) = filter P (filter t_pinned ts)"
    "filter (\<lambda>t. \<not> t_pinned t) (filter P ts) = filter P (filter (\<lambda>t. \<not> t_pinned t) ts)"
    by (simp_all add: conj_commute)
  ultimately show ?thesis unfolding pinned_first_def by metis
qed

text \<open>Closing keeps the rest: the tabs left and an active one among them.\<close>

lemma conn_ok_filter:
  assumes "conn_ok c ts a others" "filter P ts \<noteq> [] \<Longrightarrow> a' \<in> t_id ` set (filter P ts)"
  shows "conn_ok c (filter P ts) a' others"
  using assms by (auto simp: conn_ok_def pinned_first_filter distinct_map_filter filter_empty_conv)

lemma bulk_closed_subset: "set (getBulkClosedTabIds ts action target) \<subseteq> t_id ` set ts"
  by (auto simp: getBulkClosedTabIds_def Let_def in_set_enumerate_eq)

text \<open>The stacks of closed tabs.\<close>

lemma pushClosedTab_ok:
  assumes "closed_ok next" "\<forall>t \<in> set tabs. t_id t \<noteq> []"
  shows "closed_ok (pushClosedTab tabs i next)"
proof (cases "find (\<lambda>t. t_id t = i) tabs")
  case None
  with assms show ?thesis by (simp add: pushClosedTab_def)
next
  case (Some tab)
  then have "tab \<in> set tabs" by (auto simp: find_Some_iff)
  then have e: "c_connectionId (cleanTabForStorage tab) = t_connectionId tab" "c_id (cleanTabForStorage tab) \<noteq> []"
    using assms(2) by (simp_all add: cleanTabForStorage_def)
  have sub: "set (keep_last n xs) \<subseteq> set xs" for n and xs :: "ClosedTabEntry list"
    using set_drop_subset by (auto simp: keep_last_def dest: in_set_dropD)
  show ?thesis
    using Some assms(1) e sub unfolding closed_ok_def pushClosedTab_def
    by (fastforce simp: Let_def split: option.splits if_splits)
qed

lemma pushClosedTabs_ok:
  "closed_ok stacks \<Longrightarrow> \<forall>t \<in> set tabs. t_id t \<noteq> [] \<Longrightarrow> closed_ok (pushClosedTabs stacks tabs ids)"
  unfolding pushClosedTabs_def by (induction ids arbitrary: stacks) (simp_all add: pushClosedTab_ok)

lemma editor_ok_ids: "editor_ok st \<Longrightarrow> \<forall>t \<in> set (es_tabs st). t_id t \<noteq> []"
proof
  fix t
  assume "editor_ok st" "t \<in> set (es_tabs st)"
  then have "conn_ok (t_connectionId t) (conn_tabs (t_connectionId t) (es_tabs st)) (es_active st (t_connectionId t))
      (t_id ` set (other_tabs (t_connectionId t) (es_tabs st)))" "t \<in> set (conn_tabs (t_connectionId t) (es_tabs st))"
    by (simp_all add: editor_ok_def tabs_okD)
  then show "t_id t \<noteq> []" unfolding conn_ok_def by blast
qed

lemma remember_ok: "editor_ok st \<Longrightarrow> closed_ok (es_closed (rememberClosedTabs ids st))"
  using editor_ok_ids by (simp add: rememberClosedTabs_def editor_ok_def pushClosedTabs_ok)

section \<open>Each operation keeps it\<close>

lemma editor_conn:
  "editor_ok st \<Longrightarrow> conn_ok (es_connection st) (connection_tabs st) (es_active st (es_connection st))
    (t_id ` set (other_tabs (es_connection st) (es_tabs st)))"
  by (simp add: editor_ok_def tabs_okD connection_tabs_def)

lemma own_tab_conn: "own_tab i st \<Longrightarrow> \<exists>t \<in> set (connection_tabs st). t_id t = i"
  by (auto simp: own_tab_def)

lemma other_tabs_kept:
  assumes "\<And>t. t \<in> set tabs \<Longrightarrow> t_connectionId t \<noteq> c \<Longrightarrow> P t"
  shows "other_tabs c (filter P tabs) = other_tabs c tabs"
  unfolding other_tabs_def filter_filter using assms by (intro filter_cong) auto

text \<open>What the callback leaves of its own connection, with the active tab it sets.\<close>

lemma editor_ok_change:
  assumes "editor_ok st" "closed_ok (es_closed st')"
    and "other_tabs c (es_tabs st') = other_tabs c (es_tabs st)"
    and "\<And>c'. c' \<noteq> c \<Longrightarrow> es_active st' c' = es_active st c'"
    and "conn_ok c (conn_tabs c (es_tabs st')) (es_active st' c) (t_id ` set (other_tabs c (es_tabs st)))"
  shows "editor_ok st'"
  using assms tabs_ok_change [of "es_tabs st" "es_active st" c "es_tabs st'" "es_active st'"] by (simp add: editor_ok_def)

lemma active_is_open:
  assumes "editor_ok st" "connection_tabs st \<noteq> []"
  shows "active_tab_id st = Some (es_active st (es_connection st))"
    and "es_active st (es_connection st) \<in> t_id ` set (connection_tabs st)"
proof -
  note c = editor_conn [OF assms(1)]
  with assms(2) show "es_active st (es_connection st) \<in> t_id ` set (connection_tabs st)" by (simp add: conn_ok_def)
  with c have "es_active st (es_connection st) \<noteq> []" by (auto simp: conn_ok_def)
  moreover have "es_connection st \<noteq> []" using c assms(2) by (simp add: conn_ok_def)
  ultimately show "active_tab_id st = Some (es_active st (es_connection st))" by (simp add: active_tab_id_def)
qed

lemma closeTab_ok:
  assumes ok: "editor_ok st" and own: "own_tab i st"
  shows "editor_ok (closeTab i st)"
proof -
  let ?c = "es_connection st" and ?xs = "connection_tabs st"
  obtain t where t: "t \<in> set ?xs" "t_id t = i" using own_tab_conn [OF own] by blast
  note c = editor_conn [OF ok]
  have ne: "?xs \<noteq> []" using t by auto
  note act = active_is_open [OF ok ne]
  have tabs: "es_tabs (closeTab i st) = filter (\<lambda>t. t_id t \<noteq> i) (es_tabs st)"
    by (simp add: closeTab_def closeTabWithState_def Let_def rememberClosedTabs_def set_active_entry_def)
  have left: "conn_tabs ?c (filter (\<lambda>t. t_id t \<noteq> i) (es_tabs st)) = filter (\<lambda>t. t_id t \<noteq> i) ?xs"
    by (simp add: connection_tabs_def conj_commute)
  have "i \<notin> t_id ` set (other_tabs ?c (es_tabs st))" using c t unfolding conn_ok_def by blast
  then have others: "other_tabs ?c (filter (\<lambda>t. t_id t \<noteq> i) (es_tabs st)) = other_tabs ?c (es_tabs st)"
    by (intro other_tabs_kept) (auto simp: other_tabs_def image_iff)
  have new: "es_active (closeTab i st) ?c \<in> t_id ` set (filter (\<lambda>t. t_id t \<noteq> i) ?xs)"
    if "filter (\<lambda>t. t_id t \<noteq> i) ?xs \<noteq> []"
  proof (cases "es_active st ?c = i")
    case False
    then have "es_active (closeTab i st) ?c = es_active st ?c"
      by (simp add: closeTab_def closeTabWithState_def Let_def act(1) rememberClosedTabs_def)
    with act(2) False show ?thesis by auto
  next
    case True
    let ?left = "filter (\<lambda>t. t_id t \<noteq> i) ?xs"
    obtain k where k: "find_index (\<lambda>t. t_id t = i) ?xs = Some k"
      using t find_index_filter_nth [of "\<lambda>t. t_id t = i" ?xs] by fastforce
    then have "k < length ?xs" "t_id (?xs ! k) = i" using find_index_Some by blast+
    moreover have "distinct (map t_id ?xs)" using c by (simp add: conn_ok_def)
    ultimately have "?left = take k ?xs @ drop (Suc k) ?xs" using filter_remove_id [of ?xs k] by simp
    then have len: "k - 1 < length ?left" using that \<open>k < length ?xs\<close> by auto
    then have mem: "?left ! (k - 1) \<in> set ?left" by (rule nth_mem)
    then have "t_id (?left ! (k - 1)) \<noteq> []" using c by (auto simp: conn_ok_def)
    moreover have "closeTabWithState (es_tabs st) ?c (Some i) i
        = (filter (\<lambda>t. t_id t \<noteq> i) (es_tabs st), id_or_null (tab_at ?left (k - 1)))"
      unfolding closeTabWithState_def Let_def left connection_tabs_def [symmetric] k given_def by simp
    ultimately have "es_active (closeTab i st) ?c = t_id (?left ! (k - 1))"
      using len True mem unfolding closeTab_def act(1)
      by (auto simp: given_def tab_at_def id_or_null_def rememberClosedTabs_def set_active_entry_def)
    with mem show ?thesis by simp
  qed
  show ?thesis
  proof (rule editor_ok_change [OF ok])
    show "closed_ok (es_closed (closeTab i st))"
      using remember_ok [OF ok, of "[i]"]
      by (simp add: closeTab_def closeTabWithState_def Let_def set_active_entry_def rememberClosedTabs_def)
    show "other_tabs ?c (es_tabs (closeTab i st)) = other_tabs ?c (es_tabs st)" using tabs others by simp
    show "es_active (closeTab i st) c' = es_active st c'" if "c' \<noteq> ?c" for c'
      using that by (simp add: closeTab_def closeTabWithState_def Let_def set_active_entry_def rememberClosedTabs_def)
    show "conn_ok ?c (conn_tabs ?c (es_tabs (closeTab i st))) (es_active (closeTab i st) ?c) (t_id ` set (other_tabs ?c (es_tabs st)))"
      unfolding tabs left using conn_ok_filter [OF c] new by blast
  qed
qed

text \<open>The bulk closes keep the other connections' tabs, and of their own what is not in \<open>ids\<close>.\<close>

lemma bulk_close_ok:
  assumes ok: "editor_ok st"
    and sel: "es_tabs st' = ts" "es_closed st' = es_closed (rememberClosedTabs ids st)"
      "es_active st' = (es_active st)(es_connection st := a)"
    and tabs: "other_tabs (es_connection st) ts = other_tabs (es_connection st) (es_tabs st)"
      "conn_tabs (es_connection st) ts = filter P (connection_tabs st)"
    and a: "filter P (connection_tabs st) \<noteq> [] \<Longrightarrow> a \<in> t_id ` set (filter P (connection_tabs st))"
  shows "editor_ok st'"
proof (rule editor_ok_change [OF ok, where c = "es_connection st"])
  show "conn_ok (es_connection st) (conn_tabs (es_connection st) (es_tabs st')) (es_active st' (es_connection st))
      (t_id ` set (other_tabs (es_connection st) (es_tabs st)))"
    unfolding sel tabs fun_upd_same by (rule conn_ok_filter [OF editor_conn [OF ok] a])
qed (use sel tabs(1) remember_ok [OF ok] in simp_all)

lemma closeAllTabs_ok:
  assumes ok: "editor_ok st"
  shows "editor_ok (closeAllTabs st)"
proof (cases "es_connection st = []")
  case True
  with ok show ?thesis by (simp add: closeAllTabs_def)
next
  case False
  let ?c = "es_connection st"
  define ids where "ids = getBulkClosedTabIds (connection_tabs st) CloseAll None"
  define P where "P t \<longleftrightarrow> t_id t \<notin> set ids" for t :: Tab
  let ?tabs = "filter (\<lambda>t. t_connectionId t \<noteq> ?c \<or> t_id t \<notin> set ids) (es_tabs st)"
  have own: "conn_tabs ?c ?tabs = filter P (connection_tabs st)"
    unfolding connection_tabs_def filter_filter P_def by (rule filter_cong) auto
  define a where "a = (if list_ex (\<lambda>t. Some (t_id t) = active_tab_id st) (filter P (connection_tabs st)) then active_tab_id st
      else if filter P (connection_tabs st) = [] then None else Some (t_id (last (filter P (connection_tabs st)))))"
  have st': "closeAllTabs st = set_active_entry a ((rememberClosedTabs ids st)\<lparr>es_tabs := ?tabs\<rparr>)"
    using False unfolding closeAllTabs_def closeAllTabsForConnection_def Let_def ids_def [symmetric] a_def own [symmetric]
    by (simp add: ids_def [symmetric] connection_tabs_def [symmetric] own)
  have a: "given a [] \<in> t_id ` set (filter P (connection_tabs st))" if "filter P (connection_tabs st) \<noteq> []"
  proof (cases "list_ex (\<lambda>t. Some (t_id t) = active_tab_id st) (filter P (connection_tabs st))")
    case True
    then obtain t where t: "t \<in> set (filter P (connection_tabs st))" "active_tab_id st = Some (t_id t)"
      by (auto simp: list_ex_iff)
    then have "given a [] = t_id t" using True by (simp add: a_def given_def)
    with t(1) show ?thesis by (metis imageI)
  next
    case n: False
    then have "given a [] = t_id (last (filter P (connection_tabs st)))" using that by (simp add: a_def given_def)
    with last_in_set [OF that] show ?thesis by (metis imageI)
  qed
  have sel: "es_tabs (closeAllTabs st) = ?tabs" "es_closed (closeAllTabs st) = es_closed (rememberClosedTabs ids st)"
      "es_active (closeAllTabs st) = (es_active st)(?c := given a [])"
    by (simp_all add: st' set_active_entry_def rememberClosedTabs_def)
  have others: "other_tabs ?c ?tabs = other_tabs ?c (es_tabs st)" by (rule other_tabs_kept) simp
  show ?thesis
    by (rule bulk_close_ok [OF ok sel others own a])
qed

lemma spared:
  assumes "editor_ok st" "own_tab i st" "action \<noteq> CloseAll"
  shows "i \<notin> set (getBulkClosedTabIds (connection_tabs st) action (Some i))"
proof -
  obtain t where t: "t \<in> set (connection_tabs st)" "t_id t = i" using own_tab_conn [OF assms(2)] by blast
  have "distinct (map t_id (connection_tabs st))" using editor_conn [OF assms(1)] by (simp add: conn_ok_def)
  from getBulkClosedTabIds_spares [OF this t(1), of action "Some i"] t(2) assms(3) show ?thesis by simp
qed

lemma closeOtherTabs_ok:
  assumes ok: "editor_ok st" and own: "own_tab i st"
  shows "editor_ok (closeOtherTabs i st)"
proof (cases "es_connection st = []")
  case True
  with ok show ?thesis by (simp add: closeOtherTabs_def)
next
  case False
  let ?c = "es_connection st"
  define ids where "ids = getBulkClosedTabIds (connection_tabs st) CloseOthers (Some i)"
  define P where "P t \<longleftrightarrow> t_id t \<notin> set ids" for t :: Tab
  let ?tabs = "filter (\<lambda>t. t_connectionId t \<noteq> ?c \<or> t_id t \<notin> set ids) (es_tabs st)"
  have sel: "es_tabs (closeOtherTabs i st) = ?tabs" "es_closed (closeOtherTabs i st) = es_closed (rememberClosedTabs ids st)"
      "es_active (closeOtherTabs i st) = (es_active st)(?c := i)"
    using False by (simp_all add: closeOtherTabs_def closeOtherTabsForConnection_def Let_def ids_def connection_tabs_def
      set_active_entry_def rememberClosedTabs_def given_def)
  have left: "conn_tabs ?c ?tabs = filter P (connection_tabs st)"
    unfolding connection_tabs_def filter_filter P_def by (rule filter_cong) auto
  have others: "other_tabs ?c ?tabs = other_tabs ?c (es_tabs st)" by (rule other_tabs_kept) simp
  obtain t where "t \<in> set (connection_tabs st)" "t_id t = i" using own_tab_conn [OF own] by blast
  moreover have "i \<notin> set ids" unfolding ids_def by (rule spared [OF ok own]) simp
  ultimately have "i \<in> t_id ` set (filter P (connection_tabs st))" by (auto simp: P_def)
  then show ?thesis by (rule bulk_close_ok [OF ok sel others left])
qed

lemma close_side_tabs_ok:
  assumes ok: "editor_ok st" and action: "action \<in> {CloseLeft, CloseRight}"
  shows "editor_ok (close_side_tabs action i st)"
proof (cases "es_connection st \<noteq> [] \<and> own_tab i st")
  case False
  have none: "find_index (\<lambda>t. t_id t = i) (connection_tabs st) = None" if "\<not> own_tab i st"
    using that by (auto simp: find_index_filter_nth own_tab_def)
  have "set (getBulkClosedTabIds (connection_tabs st) action (Some i)) = {}" if "\<not> own_tab i st"
    using none [OF that] action by (auto simp: getBulkClosedTabIds_def Let_def)
  then have "rememberClosedTabs (getBulkClosedTabIds (connection_tabs st) action (Some i)) st = st" if "\<not> own_tab i st"
    using that by (simp add: rememberClosedTabs_def pushClosedTabs_def)
  then have "close_side_tabs action i st = st"
    using False none unfolding close_side_tabs_def close_side_def Let_def connection_tabs_def [symmetric] by auto
  with ok show ?thesis by simp
next
  case True
  let ?c = "es_connection st"
  define ids where "ids = getBulkClosedTabIds (connection_tabs st) action (Some i)"
  define P where "P t \<longleftrightarrow> t_id t \<notin> set ids" for t :: Tab
  let ?tabs = "other_tabs ?c (es_tabs st) @ filter P (connection_tabs st)"
  obtain t where t: "t \<in> set (connection_tabs st)" "t_id t = i" using own_tab_conn True by blast
  then have ne: "connection_tabs st \<noteq> []" by auto
  note act = active_is_open [OF ok ne]
  have spare: "i \<notin> set ids" unfolding ids_def using spared [OF ok] True action by auto
  have found: "find_index (\<lambda>t. t_id t = i) (connection_tabs st) \<noteq> None"
    using t by (auto simp: find_index_filter_nth)
  let ?a = "es_active st ?c"
  have "?a \<noteq> []" "i \<noteq> []" using act(2) t editor_conn [OF ok] by (auto simp: conn_ok_def)
  then have sel: "es_tabs (close_side_tabs action i st) = ?tabs"
      "es_closed (close_side_tabs action i st) = es_closed (rememberClosedTabs ids st)"
      "es_active (close_side_tabs action i st) = (es_active st)(?c := (if ?a \<in> set ids then i else ?a))"
    using True found act(1)
    unfolding close_side_tabs_def close_side_def Let_def connection_tabs_def [symmetric] ids_def [symmetric]
    by (auto simp: other_tabs_def P_def [abs_def] set_active_entry_def rememberClosedTabs_def given_def)
  have left: "conn_tabs ?c ?tabs = filter P (connection_tabs st)" "other_tabs ?c ?tabs = other_tabs ?c (es_tabs st)"
    by (auto simp: other_tabs_def connection_tabs_def intro!: filter_cong)
  have "(if ?a \<in> set ids then i else ?a) \<in> t_id ` set (filter P (connection_tabs st))"
    using spare t act(2) by (auto simp: P_def)
  then show ?thesis by (rule bulk_close_ok [OF ok sel left(2,1)])
qed

lemma other_tabs_slots:
  assumes "other_slots c r = other_slots c tabs"
  shows "other_tabs c r = other_tabs c tabs"
proof -
  have "other_tabs c ts = List.map_filter id (other_slots c ts)" for ts
    by (induction ts) (simp_all add: other_tabs_def other_slots_def List.map_filter_def)
  then show ?thesis using assms by simp
qed

text \<open>A list with new tabs of one connection, before the pinned ones are put first.\<close>

lemma keepPinned_ok:
  assumes "distinct (map t_id (conn_tabs c ts))" "\<forall>t \<in> set (conn_tabs c ts). t_id t \<noteq> [] \<and> t_id t \<notin> others"
    and "c \<noteq> []" "a \<in> t_id ` set (conn_tabs c ts)"
  shows "\<exists>r. keepPinnedTabsFirst ts c = Some r \<and> other_tabs c r = other_tabs c ts \<and> conn_ok c (conn_tabs c r) a others"
proof -
  obtain r where r: "keepPinnedTabsFirst ts c = Some r" "other_slots c r = other_slots c ts"
      "conn_tabs c r = filter t_pinned (conn_tabs c ts) @ filter (\<lambda>t. \<not> t_pinned t) (conn_tabs c ts)"
    using keepPinnedTabsFirst_correct by blast
  have m: "mset (conn_tabs c r) = mset (conn_tabs c ts)"
    unfolding r(3) mset_append mset_filter by (rule multiset_partition [symmetric])
  then have "distinct (map t_id (conn_tabs c r))"
    using assms(1) by (metis mset_map mset_eq_imp_distinct_iff)
  moreover have "set (conn_tabs c r) = set (conn_tabs c ts)" by (rule mset_eq_setD [OF m])
  moreover have "pinned_first (conn_tabs c r)" unfolding r(3) by (rule pinned_first_append) (simp_all add: list_all_iff)
  ultimately show ?thesis using r(1) other_tabs_slots [OF r(2)] assms(2-4) unfolding conn_ok_def by metis
qed

lemma keepPinned_step:
  assumes ok: "editor_ok st" and others: "other_tabs c ts = other_tabs c (es_tabs st)"
    and new: "distinct (map t_id (conn_tabs c ts))"
      "\<forall>t \<in> set (conn_tabs c ts). t_id t \<noteq> [] \<and> t_id t \<notin> t_id ` set (other_tabs c (es_tabs st))"
      "c \<noteq> []" "a \<in> t_id ` set (conn_tabs c ts)"
    and f: "\<And>r. es_tabs (f r) = r \<and> closed_ok (es_closed (f r)) \<and> es_active (f r) = (es_active st)(c := a)"
  shows "\<exists>st'. map_option f (keepPinnedTabsFirst ts c) = Some st' \<and> editor_ok st'"
proof -
  obtain r where "keepPinnedTabsFirst ts c = Some r" "other_tabs c r = other_tabs c ts"
      "conn_ok c (conn_tabs c r) a (t_id ` set (other_tabs c (es_tabs st)))"
    using keepPinned_ok [OF new] by blast
  moreover from this have "editor_ok (f r)"
    using f [of r] others by (intro editor_ok_change [OF ok, where c = c]) simp_all
  ultimately show ?thesis by simp
qed

lemma setActiveTabId_ok:
  assumes ok: "editor_ok st" and own: "own_tab i st"
  shows "editor_ok (setActiveTabId i st)"
proof (cases "es_connection st \<noteq> [] \<and> i \<noteq> []")
  case True
  have "conn_ok (es_connection st) (connection_tabs st) i (t_id ` set (other_tabs (es_connection st) (es_tabs st)))"
    using editor_conn [OF ok] own unfolding conn_ok_def own_tab_def by blast
  then have "conn_ok (es_connection st) (conn_tabs (es_connection st) (es_tabs (setActiveTabId i st)))
      (es_active (setActiveTabId i st) (es_connection st)) (t_id ` set (other_tabs (es_connection st) (es_tabs st)))"
    using True by (simp add: setActiveTabId_def connection_tabs_def)
  then show ?thesis
    by (rule editor_ok_change [OF ok, rotated 3]) (use True ok in \<open>simp_all add: setActiveTabId_def editor_ok_def\<close>)
qed (use ok in \<open>auto simp: setActiveTabId_def\<close>)

lemma insert_at_mset: "mset (insert_at k x xs) = add_mset x (mset xs)"
  unfolding insert_at_def by (metis add_mset_add_single append_take_drop_id mset.simps(2) mset_append union_mset_add_mset_right)

text \<open>A new tab among the connection's tabs.\<close>

lemma new_tab_ok:
  assumes "editor_ok st" "fresh_id (t_id u) st" "mset (conn_tabs c ts) = add_mset u (mset (conn_tabs c (es_tabs st)))"
  shows "distinct (map t_id (conn_tabs c ts))"
    and "\<forall>t \<in> set (conn_tabs c ts). t_id t \<noteq> [] \<and> t_id t \<notin> t_id ` set (other_tabs c (es_tabs st))"
    and "t_id u \<in> t_id ` set (conn_tabs c ts)"
proof -
  have c: "conn_ok c (conn_tabs c (es_tabs st)) (es_active st c) (t_id ` set (other_tabs c (es_tabs st)))"
    using assms(1) by (simp add: editor_ok_def tabs_okD)
  have u: "t_id u \<noteq> []" "t_id u \<notin> t_id ` set (es_tabs st)" using assms(2) by (simp_all add: fresh_id_def tab_ids_def)
  have s: "set (conn_tabs c ts) = insert u (set (conn_tabs c (es_tabs st)))"
    using arg_cong [OF assms(3), of set_mset] by simp
  have "mset (map t_id (conn_tabs c ts)) = mset (t_id u # map t_id (conn_tabs c (es_tabs st)))"
    using assms(3) by simp
  moreover have "distinct (t_id u # map t_id (conn_tabs c (es_tabs st)))" using c u(2) by (auto simp: conn_ok_def)
  ultimately show "distinct (map t_id (conn_tabs c ts))" using mset_eq_imp_distinct_iff by blast
  show "\<forall>t \<in> set (conn_tabs c ts). t_id t \<noteq> [] \<and> t_id t \<notin> t_id ` set (other_tabs c (es_tabs st))"
    using c u unfolding s conn_ok_def by (auto simp: other_tabs_def)
  show "t_id u \<in> t_id ` set (conn_tabs c ts)" unfolding s by simp
qed

lemma other_tabs_insert:
  assumes "t_connectionId u = c"
  shows "other_tabs c (insert_at k u ts) = other_tabs c ts"
proof -
  have "other_tabs c (take k ts) @ other_tabs c (drop k ts) = other_tabs c ts"
    unfolding other_tabs_def by (metis append_take_drop_id filter_append)
  then show ?thesis using assms by (simp add: insert_at_def other_tabs_def)
qed

lemma addTab_ok:
  assumes ok: "editor_ok st" and new: "fresh_id i st" "tp_id p = None" "tp_connectionId p \<in> {None, Some (es_connection st)}"
  shows "\<exists>st'. addTab i p force after st = Some st' \<and> editor_ok st'"
proof (cases "es_connection st = []")
  case True
  with ok show ?thesis by (simp add: addTab_def)
next
  case False
  let ?c = "es_connection st"
  define existing where "existing = (if force then None
      else findExistingTableTab (es_tabs st) ?c (tp_activeTable p) (tp_schema p) (tp_database p))"
  show ?thesis
  proof (cases existing)
    case (Some t)
    then obtain n where "find (same_table ?c n (tp_schema p) (tp_database p)) (es_tabs st) = Some t"
      by (auto simp: existing_def findExistingTableTab_def split: if_splits option.splits)
    then have "t \<in> set (connection_tabs st)" unfolding find_Some_iff connection_tabs_def same_table_def by auto
    then have "own_tab (t_id t) st" by (simp add: own_tab_def)
    with setActiveTabId_ok [OF ok] Some False show ?thesis by (simp add: addTab_def Let_def existing_def)
  next
    case None
    define u where "u = createInitialTabState i ?c (p\<lparr>tp_id := Some (given (tp_id p) i),
        tp_title := Some (given (tp_title p) (generateTabTitle (es_tabs st) ?c p)), tp_connectionId := Some (given (tp_connectionId p) ?c)\<rparr>)"
    have u: "t_id u = i" "t_connectionId u = ?c"
      using new(2,3) by (auto simp: u_def createInitialTabState_def given_def split: option.split)
    define ts where "ts = (case after of Some a \<Rightarrow> if a = [] then es_tabs st @ [u] else insertTabAfter (es_tabs st) a u
        | None \<Rightarrow> es_tabs st @ [u])"
    have "ts = es_tabs st @ [u] \<or> (\<exists>k. ts = insert_at k u (es_tabs st))"
      by (auto simp: ts_def insertTabAfter_def split: option.split)
    moreover have "es_tabs st @ [u] = insert_at (length (es_tabs st)) u (es_tabs st)" by (simp add: insert_at_def)
    ultimately obtain k where k: "ts = insert_at k u (es_tabs st)" by metis
    have others: "other_tabs ?c ts = other_tabs ?c (es_tabs st)"
      unfolding k by (rule other_tabs_insert [OF u(2)])
    have own: "mset (conn_tabs ?c ts) = add_mset u (mset (conn_tabs ?c (es_tabs st)))"
      using u(2) unfolding k mset_filter insert_at_mset by simp
    note t = new_tab_ok [OF ok, of u ?c ts, unfolded u, OF new(1) own]
    have i: "i \<noteq> []" using new(1) by (simp add: fresh_id_def)
    have "\<exists>st'. map_option (\<lambda>ts. setActiveTabId i (st\<lparr>es_tabs := ts\<rparr>)) (keepPinnedTabsFirst ts ?c) = Some st' \<and> editor_ok st'"
      by (rule keepPinned_step [OF ok others t(1,2) False t(3)])
        (use ok i False in \<open>simp add: setActiveTabId_def editor_ok_def\<close>)
    moreover have "addTab i p force after st
        = map_option (\<lambda>ts. setActiveTabId i (st\<lparr>es_tabs := ts\<rparr>)) (keepPinnedTabsFirst ts ?c)"
      using False None unfolding addTab_def existing_def [symmetric] u_def [symmetric] ts_def Let_def by simp
    ultimately show ?thesis by simp
  qed
qed

lemma conn_tabs_mem: "u \<in> set (conn_tabs c tabs) \<longleftrightarrow> u \<in> set tabs \<and> t_connectionId u = c" by auto

text \<open>Where a reopened tab goes: its id is its old one or a new one, its place is cut to the list's length.\<close>

lemma insertReopenedTab_any:
  assumes "c_connectionId (e_tab entry) = c" "\<forall>t \<in> set tabs. t_id t \<noteq> fresh"
  shows "\<exists>u k. insertReopenedTab fresh tabs c entry = (fst (insertReopenedTab fresh tabs c entry), u)
    \<and> t_connectionId u = c \<and> t_id u \<in> {fresh, c_id (e_tab entry)} \<and> (\<forall>t \<in> set tabs. t_id t \<noteq> t_id u)
    \<and> conn_tabs c (fst (insertReopenedTab fresh tabs c entry)) = insert_at k u (conn_tabs c tabs)
    \<and> other_tabs c (fst (insertReopenedTab fresh tabs c entry)) = other_tabs c tabs"
proof -
  define taken where "taken \<longleftrightarrow> list_ex (\<lambda>t. t_id t = c_id (e_tab entry)) tabs"
  define e where "e = \<lparr>e_tab = (if taken then (e_tab entry)\<lparr>c_id := fresh\<rparr> else e_tab entry),
      e_index = min (e_index entry) (length (conn_tabs c tabs))\<rparr>"
  have free: "list_all (\<lambda>t. t_id t \<noteq> c_id (e_tab e)) tabs"
    using assms(2) by (auto simp: e_def taken_def list_all_iff list_ex_iff)
  have conn: "t_connectionId (restoreTabFromStorage (e_tab e)) = c"
    using assms(1) by (simp add: e_def restoreTabFromStorage_def)
  have same: "insertReopenedTab fresh tabs c entry = insertReopenedTab fresh tabs c e"
  proof -
    have "\<not> list_ex (\<lambda>t. t_id t = c_id (e_tab e)) tabs" using free by (auto simp: list_all_iff list_ex_iff)
    then show ?thesis unfolding insertReopenedTab_def Let_def taken_def [symmetric] by (simp add: e_def)
  qed
  have id: "t_id (restoreTabFromStorage (e_tab e)) = c_id (e_tab e)" by (simp add: restoreTabFromStorage_def)
  have "c_id (e_tab e) \<in> {fresh, c_id (e_tab entry)}" by (simp add: e_def)
  moreover have "e_index e \<le> length (conn_tabs c tabs)" by (simp add: e_def)
  ultimately show ?thesis
    using insertReopenedTab_place [OF conn free, of fresh] conn free id unfolding same other_tabs_def list_all_iff
    by (metis prod.collapse)
qed

lemma popClosedTab_ok:
  assumes "closed_ok stacks" "popClosedTab stacks c = (Some entry, stacks')"
  shows "closed_ok stacks' \<and> c_connectionId (e_tab entry) = c \<and> c_id (e_tab entry) \<noteq> []"
proof -
  obtain s where s: "stacks c = Some s" "s \<noteq> []" "entry = last s" "stacks' = stacks(c \<mapsto> butlast s)"
    using assms(2) by (auto simp: popClosedTab_def split: option.splits if_splits)
  have "\<forall>e \<in> set s. c_connectionId (e_tab e) = c \<and> c_id (e_tab e) \<noteq> []" using assms(1) s(1) unfolding closed_ok_def by blast
  then show ?thesis
    using assms(1) s last_in_set [OF s(2)] unfolding closed_ok_def s(3,4) by (auto dest!: in_set_butlastD)
qed

lemma reopenClosedTab_ok:
  assumes ok: "editor_ok st" and new: "fresh_id i st"
  shows "\<exists>st'. reopenClosedTab i st = Some st' \<and> editor_ok st'"
proof (cases "es_connection st = [] \<or> fst (popClosedTab (es_closed st) (es_connection st)) = None")
  case True
  with ok show ?thesis by (auto simp: reopenClosedTab_def split: prod.split option.split)
next
  case False
  let ?c = "es_connection st"
  obtain entry stacks where pop: "popClosedTab (es_closed st) ?c = (Some entry, stacks)"
    using False by (metis option.exhaust prod.collapse)
  have e: "closed_ok stacks" "c_connectionId (e_tab entry) = ?c" "c_id (e_tab entry) \<noteq> []"
    using popClosedTab_ok [OF _ pop] ok by (simp_all add: editor_ok_def)
  have "\<forall>t \<in> set (es_tabs st). t_id t \<noteq> i" using new by (auto simp: fresh_id_def tab_ids_def)
  from insertReopenedTab_any [OF e(2) this] obtain u k ts where u:
    "insertReopenedTab i (es_tabs st) ?c entry = (ts, u)" "t_connectionId u = ?c" "t_id u \<in> {i, c_id (e_tab entry)}"
    "\<forall>t \<in> set (es_tabs st). t_id t \<noteq> t_id u" "conn_tabs ?c ts = insert_at k u (conn_tabs ?c (es_tabs st))"
    "other_tabs ?c ts = other_tabs ?c (es_tabs st)" by (metis fst_conv)
  have fresh: "fresh_id (t_id u) st" using u(3,4) new e(3) by (auto simp: fresh_id_def tab_ids_def)
  have "mset (conn_tabs ?c ts) = add_mset u (mset (conn_tabs ?c (es_tabs st)))" unfolding u(5) by (rule insert_at_mset)
  note t = new_tab_ok [OF ok fresh this]
  have "\<exists>st'. map_option (\<lambda>ts. setActiveTabId (t_id u) (st\<lparr>es_closed := stacks, es_tabs := ts\<rparr>)) (keepPinnedTabsFirst ts ?c)
      = Some st' \<and> editor_ok st'"
    by (rule keepPinned_step [OF ok u(6) t(1,2) _ t(3)])
      (use e(1) False fresh in \<open>simp_all add: setActiveTabId_def fresh_id_def\<close>)
  then show ?thesis using False pop u(1) by (simp add: reopenClosedTab_def)
qed

lemma permuted_ok:
  assumes ok: "editor_ok st" and m: "mset (map t_id (conn_tabs c r)) = mset (map t_id (conn_tabs c (es_tabs st)))"
    and others: "other_slots c r = other_slots c (es_tabs st)" and p: "pinned_first (conn_tabs c r)"
  shows "editor_ok (st\<lparr>es_tabs := r\<rparr>)"
proof (rule editor_ok_change [OF ok, where c = c])
  have old: "conn_ok c (conn_tabs c (es_tabs st)) (es_active st c) (t_id ` set (other_tabs c (es_tabs st)))"
    using ok by (simp add: editor_ok_def tabs_okD)
  have ids: "t_id ` set (conn_tabs c r) = t_id ` set (conn_tabs c (es_tabs st))"
    using mset_eq_setD [OF m] by simp
  moreover have "distinct (map t_id (conn_tabs c r))"
    using old mset_eq_imp_distinct_iff [OF m] by (simp add: conn_ok_def)
  moreover have "\<forall>t \<in> set (conn_tabs c r). t_id t \<noteq> [] \<and> t_id t \<notin> t_id ` set (other_tabs c (es_tabs st))"
  proof
    fix t
    assume t: "t \<in> set (conn_tabs c r)"
    have "t_id t \<in> t_id ` set (conn_tabs c (es_tabs st))" using imageI [OF t, of t_id] by (simp only: ids)
    then obtain u where "u \<in> set (conn_tabs c (es_tabs st))" "t_id t = t_id u" by (elim imageE)
    moreover from this have "t_id u \<noteq> [] \<and> t_id u \<notin> t_id ` set (other_tabs c (es_tabs st))" using old unfolding conn_ok_def by blast
    ultimately show "t_id t \<noteq> [] \<and> t_id t \<notin> t_id ` set (other_tabs c (es_tabs st))" by simp
  qed
  moreover have "conn_tabs c r = [] \<longleftrightarrow> conn_tabs c (es_tabs st) = []" using ids by (metis image_is_empty set_empty)
  ultimately show "conn_ok c (conn_tabs c (es_tabs (st\<lparr>es_tabs := r\<rparr>))) (es_active (st\<lparr>es_tabs := r\<rparr>) c)
      (t_id ` set (other_tabs c (es_tabs st)))"
    using p old unfolding conn_ok_def by simp
qed (use ok other_tabs_slots [OF others] in \<open>simp_all add: editor_ok_def\<close>)

lemma reorderTab_ok:
  assumes ok: "editor_ok st"
  shows "\<exists>st'. reorderTab i gap st = Some st' \<and> editor_ok st'"
proof -
  let ?c = "es_connection st"
  obtain r where r: "moveTab (es_tabs st) ?c i gap = Some r" "mset r = mset (es_tabs st)"
      "other_slots ?c r = other_slots ?c (es_tabs st)" "pinned_first (conn_tabs ?c (es_tabs st)) \<longrightarrow> pinned_first (conn_tabs ?c r)"
    using moveTab_conn [of "es_tabs st" ?c i gap] by blast
  have "pinned_first (conn_tabs ?c (es_tabs st))" using editor_conn [OF ok] by (simp add: conn_ok_def connection_tabs_def)
  with r permuted_ok [OF ok _ r(3)] ok show ?thesis by (simp add: reorderTab_def)
qed

lemma pinTab_ok:
  assumes ok: "editor_ok st"
  shows "\<exists>st'. pinTab i b st = Some st' \<and> editor_ok st'"
proof (cases "find (\<lambda>t. t_id t = i) (es_tabs st)")
  case None
  with ok show ?thesis by (simp add: pinTab_def setTabPinned_def)
next
  case (Some t)
  show ?thesis
  proof (cases "t_pinned t = b")
    case True
    with Some ok show ?thesis by (simp add: pinTab_def setTabPinned_def)
  next
    case False
    let ?c = "t_connectionId t" and ?tabs = "es_tabs st"
    let ?others = "filter (\<lambda>u. t_connectionId u = ?c \<and> t_id u \<noteq> i) ?tabs"
    let ?new = "filter t_pinned ?others @ [t\<lparr>t_pinned := b\<rparr>] @ filter (\<lambda>t. \<not> t_pinned t) ?others"
    have d: "distinct (map t_id ?tabs)" using ok tabs_ok_distinct unfolding editor_ok_def by blast
    obtain r where r: "setTabPinned ?tabs i b = Some r" "other_slots ?c r = other_slots ?c ?tabs" "conn_tabs ?c r = ?new"
      using setTabPinned_at_boundary [OF d Some False] unfolding Let_def by blast
    have t: "t \<in> set ?tabs" "t_id t = i" using find_distinct [OF Some d] by simp_all
    have ids: "set (map t_id ?new) = insert i (t_id ` set ?others)" using t(2) by auto
    also have "\<dots> = set (map t_id (conn_tabs ?c ?tabs))" using t by (auto simp: image_iff)
    finally have "set (map t_id ?new) = set (map t_id (conn_tabs ?c ?tabs))" .
    moreover have "distinct (map t_id ?new)" using d t(2) by (auto simp: distinct_map_filter distinct_map inj_on_def)
    moreover have "distinct (map t_id (conn_tabs ?c ?tabs))" using d by (simp add: distinct_map_filter)
    ultimately have "mset (map t_id ?new) = mset (map t_id (conn_tabs ?c ?tabs))" by (simp only: set_eq_iff_mset_eq_distinct)
    moreover have "pinned_first ?new"
    proof (cases b)
      case True
      have "pinned_first ((filter t_pinned ?others @ [t\<lparr>t_pinned := b\<rparr>]) @ filter (\<lambda>t. \<not> t_pinned t) ?others)"
        by (rule pinned_first_append) (simp_all add: list_all_iff True)
      then show ?thesis by simp
    next
      case False
      then show ?thesis by (intro pinned_first_append) (simp_all add: list_all_iff)
    qed
    ultimately have "editor_ok (st\<lparr>es_tabs := r\<rparr>)" by (intro permuted_ok [OF ok _ r(2)]) (simp_all only: r(3))
    with r(1) show ?thesis by (simp add: pinTab_def)
  qed
qed

lemma updateTab_ok:
  assumes ok: "editor_ok st" and f: "\<And>t. t_id (f t) = t_id t \<and> t_connectionId (f t) = t_connectionId t \<and> t_pinned (f t) = t_pinned t"
  shows "editor_ok (updateTab i f st)"
proof -
  define g where "g t = (if t_id t = i then f t else t)" for t
  have g: "t_id (g t) = t_id t" "t_connectionId (g t) = t_connectionId t" "t_pinned (g t) = t_pinned t" for t
    using f by (simp_all add: g_def)
  have conn: "filter P (map g ts) = map g (filter P ts)" if "\<And>t. P (g t) = P t" for P ts
    by (induction ts) (simp_all add: that)
  have "pinned_first (map g ts) \<longleftrightarrow> pinned_first ts" if "pinned_first ts" for ts
    using that unfolding pinned_first_def by (simp add: conn g flip: map_append)
  then have "conn_ok c (conn_tabs c (map g (es_tabs st))) (es_active st c) (t_id ` set (other_tabs c (map g (es_tabs st))))" for c
    using ok tabs_okD [of "es_tabs st" "es_active st" c] unfolding conn_ok_def editor_ok_def other_tabs_def
    by (simp add: conn g image_image comp_def)
  then show ?thesis
    using ok by (simp add: editor_ok_def tabs_ok_def updateTab_def updateTabInList_def g_def [abs_def, symmetric])
qed

lemma tabs_ok_empty: "tabs_ok [] act"
  by (simp add: tabs_ok_def conn_ok_def other_tabs_def pinned_first_def)

lemma switch_ok: "editor_ok st \<Longrightarrow> editor_ok (fst (switch_connection c st))"
  by (simp add: switch_connection_def load_effect_def Let_def editor_ok_def tabs_ok_empty)

lemma tabs_loaded_ok:
  assumes ok: "editor_ok st" and c: "c \<noteq> []" and new: "fresh_id i st" "good_prefs c prefs st"
  shows "\<exists>st'. tabs_loaded i c prefs st = Some st' \<and> editor_ok st'"
proof -
  obtain stored a where prefs: "prefs = (stored, a)" by (cases prefs)
  let ?others = "filter (\<lambda>t. t_connectionId t \<noteq> c) (es_tabs st)"
  have kept: "other_tabs c (?others @ ts) = other_tabs c (es_tabs st)" "conn_tabs c (?others @ ts) = ts"
    if "\<forall>t \<in> set ts. t_connectionId t = c" for ts
    using that by (simp_all add: other_tabs_def)
  show ?thesis
  proof (cases "stored = []")
    case True
    define u where "u = createInitialTabState i c no_partial"
    have u: "t_id u = i" "t_connectionId u = c"
      by (simp_all add: u_def createInitialTabState_def no_partial_def given_def)
    have "conn_ok c [u] i (t_id ` set (other_tabs c (es_tabs st)))"
      using new(1) c u by (auto simp: conn_ok_def fresh_id_def tab_ids_def other_tabs_def pinned_first_def)
    then have "editor_ok (st\<lparr>es_tabs := ?others @ [u], es_loading := False, es_active := (es_active st)(c := i)\<rparr>)"
      using ok kept [of "[u]"] u(2) by (intro editor_ok_change [OF ok, where c = c]) (simp_all add: editor_ok_def)
    with True u(1) show ?thesis by (simp add: tabs_loaded_def prefs u_def [symmetric])
  next
    case False
    let ?loaded = "map restoreTabFromStorage stored"
    define a' where "a' = (if given a [] \<noteq> [] then given a [] else t_id (hd ?loaded))"
    have sel: "t_id (restoreTabFromStorage t) = c_id t" "t_connectionId (restoreTabFromStorage t) = c_connectionId t" for t
      by (simp_all add: restoreTabFromStorage_def)
    have conn: "\<forall>t \<in> set ?loaded. t_connectionId t = c" using new(2) by (auto simp: good_prefs_def prefs list_all_iff sel)
    have ids: "map t_id ?loaded = map c_id stored" by (simp add: sel)
    have "a' \<in> t_id ` set ?loaded"
    proof (cases "given a [] = []")
      case True
      then show ?thesis using False by (cases stored) (simp_all add: a'_def)
    next
      case n: False
      then show ?thesis using new(2) False by (simp add: good_prefs_def prefs a'_def image_image sel)
    qed
    moreover have "\<forall>t \<in> set ?loaded. t_id t \<noteq> [] \<and> t_id t \<notin> t_id ` set (other_tabs c (es_tabs st))"
      using new(2) by (auto simp: good_prefs_def prefs list_all_iff sel other_tabs_def)
    moreover have "distinct (map t_id ?loaded)" using new(2) unfolding ids by (simp add: good_prefs_def prefs)
    ultimately have "\<exists>st'. map_option (\<lambda>ts. st\<lparr>es_tabs := ts, es_loading := False, es_active := (es_active st)(c := a')\<rparr>)
        (keepPinnedTabsFirst (?others @ ?loaded) c) = Some st' \<and> editor_ok st'"
      using ok by (intro keepPinned_step [OF ok, where a = a'])
        (simp_all only: kept [OF conn] c, simp_all add: editor_ok_def c)
    with False show ?thesis by (simp add: tabs_loaded_def prefs a'_def Let_def)
  qed
qed

text \<open>C8 (editor_session_invariant): in every session, however tabs are opened, closed, reopened, pinned and moved and connections
  switched and loaded, every operation gives a tab list again, tab ids are distinct, the pinned tabs of every connection come
  first, and as long as a connection has tabs its active tab is one of them.\<close>

theorem editor_session_invariant:
  assumes "editor_reach r"
  shows "\<exists>st. r = Some st \<and> distinct (map t_id (es_tabs st))
    \<and> (\<forall>c. pinned_first (conn_tabs c (es_tabs st)))
    \<and> (case getActiveTab (es_tabs st) (Some (es_connection st)) (active_tab_id st) of
         Some t \<Rightarrow> t \<in> set (connection_tabs st)
       | None \<Rightarrow> connection_tabs st = [])"
proof -
  have "\<exists>st. r = Some st \<and> editor_ok st" using assms
  proof induction
    case start
    show ?case by (simp add: initial_editor_def editor_ok_def tabs_ok_empty closed_ok_def)
  next
    case (step st r)
    then have ok: "editor_ok st" by simp
    from step(2) show ?case
      by cases (use ok in \<open>simp_all add: addTab_ok closeTab_ok closeAllTabs_ok closeOtherTabs_ok close_side_tabs_ok
        reopenClosedTab_ok updateTab_ok reorderTab_ok pinTab_ok setActiveTabId_ok switch_ok tabs_loaded_ok\<close>)
  qed
  then obtain st where st: "r = Some st" "editor_ok st" by blast
  then have d: "distinct (map t_id (es_tabs st))" and p: "\<forall>c. pinned_first (conn_tabs c (es_tabs st))"
    using tabs_ok_distinct tabs_okD unfolding editor_ok_def conn_ok_def by blast+
  have "case getActiveTab (es_tabs st) (Some (es_connection st)) (active_tab_id st) of
         Some t \<Rightarrow> t \<in> set (connection_tabs st) | None \<Rightarrow> connection_tabs st = []"
  proof (cases "connection_tabs st = []")
    case True
    then have "\<forall>t \<in> set (es_tabs st). t_connectionId t \<noteq> es_connection st" by (simp add: connection_tabs_def filter_empty_conv)
    then have "getActiveTab (es_tabs st) (Some (es_connection st)) (active_tab_id st) = None"
      by (auto simp: getActiveTab_def getActiveTabForConnection_def findTabById_def find_Some_iff split: option.split)
    with True show ?thesis by simp
  next
    case False
    note a = active_is_open [OF st(2) False]
    obtain t where t: "t \<in> set (connection_tabs st)" "t_id t = es_active st (es_connection st)" using a(2) by auto
    then have tt: "t \<in> set (es_tabs st)" "t_connectionId t = es_connection st" by (simp_all add: connection_tabs_def)
    have "find (\<lambda>u. t_id u = t_id t) (es_tabs st) \<noteq> None" using tt(1) by (auto simp: find_None_iff)
    then obtain v where v: "find (\<lambda>u. t_id u = t_id t) (es_tabs st) = Some v" by blast
    have "t = v" using find_distinct [OF v d] tt(1) by blast
    with v have "find (\<lambda>u. t_id u = t_id t) (es_tabs st) = Some t" by simp
    moreover have "es_connection st \<noteq> []" "t_id t \<noteq> []" using editor_conn [OF st(2)] False t(1) by (auto simp: conn_ok_def)
    ultimately have "getActiveTab (es_tabs st) (Some (es_connection st)) (active_tab_id st) = Some t"
      using tt(2) by (simp add: getActiveTab_def getActiveTabForConnection_def findTabById_def a(1) t(2) [symmetric])
    with t(1) show ?thesis by simp
  qed
  with st(1) d p show ?thesis by (intro exI [of _ st]) simp
qed

text \<open>A session: a connection is opened, its tab loaded, a second tab opened and the first one closed.\<close>

definition sample_session :: EditorState where
  "sample_session =
     closeTab ''a'' (the (addTab ''b'' no_partial False None
       (the (tabs_loaded ''a'' ''db'' ([], None) (fst (switch_connection ''db'' initial_editor))))))"

theorem editor_session_invariant_witness:
  "\<exists>st. Some sample_session = Some st \<and> distinct (map t_id (es_tabs st))
    \<and> (\<forall>c. pinned_first (conn_tabs c (es_tabs st)))
    \<and> (case getActiveTab (es_tabs st) (Some (es_connection st)) (active_tab_id st) of
         Some t \<Rightarrow> t \<in> set (connection_tabs st)
       | None \<Rightarrow> connection_tabs st = [])"
proof (rule editor_session_invariant)
  let ?s1 = "fst (switch_connection ''db'' initial_editor)"
  let ?s2 = "the (tabs_loaded ''a'' ''db'' ([], None) ?s1)"
  let ?s3 = "the (addTab ''b'' no_partial False None ?s2)"
  have r1: "editor_reach (Some ?s1)" by (rule editor_reach.step [OF editor_reach.start editor_step.switch])
  have "editor_step ?s1 (tabs_loaded ''a'' ''db'' ([], None) ?s1)"
    by (rule editor_step.loaded) (simp_all add: fresh_id_def tab_ids_def good_prefs_def switch_connection_def load_effect_def
      connection_tabs_def initial_editor_def Let_def)
  from editor_reach.step [OF r1 this] have r2: "editor_reach (Some ?s2)" by (simp add: tabs_loaded_def Let_def)
  have t2: "es_tabs ?s2 = [createInitialTabState ''a'' ''db'' no_partial]" "es_connection ?s2 = ''db''"
    by (simp_all add: tabs_loaded_def switch_connection_def load_effect_def connection_tabs_def initial_editor_def Let_def)
  have "editor_step ?s2 (addTab ''b'' no_partial False None ?s2)"
    by (rule editor_step.add) (simp_all add: fresh_id_def tab_ids_def t2 no_partial_def createInitialTabState_def given_def)
  moreover have "\<not> Option.is_none (addTab ''b'' no_partial False None ?s2)" by code_simp
  then have "addTab ''b'' no_partial False None ?s2 = Some ?s3" by (simp add: Option.is_none_def)
  ultimately have r3: "editor_reach (Some ?s3)" using editor_reach.step [OF r2] by metis
  have "own_tab ''a'' ?s3" by code_simp
  from editor_reach.step [OF r3 editor_step.close [OF this]] show "editor_reach (Some sample_session)"
    by (simp add: sample_session_def)
qed

section \<open>Which tab becomes active\<close>

lemma find_index_distinct:
  assumes "distinct (map t_id xs)" "k < length xs"
  shows "find_index (\<lambda>t. t_id t = t_id (xs ! k)) xs = Some k"
proof -
  obtain j where j: "find_index (\<lambda>t. t_id t = t_id (xs ! k)) xs = Some j"
    using assms(2) find_index_filter_nth [of "\<lambda>t. t_id t = t_id (xs ! k)" xs] nth_mem by fastforce
  then have "j < length xs" "map t_id xs ! j = map t_id xs ! k" using find_index_Some [OF j] assms(2) by simp_all
  then have "j = k" using nth_eq_iff_index_eq [OF assms(1), of j k] assms(2) by simp
  with j show ?thesis by simp
qed

text \<open>Property (closing_hands_over_to_the_left): closing the active tab activates its left neighbour, or for the first tab its right one, or none
  if it was alone; closing another tab leaves the active one.\<close>

theorem closing_hands_over_to_the_left:
  assumes "distinct (map t_id (conn_tabs c tabs))" "\<forall>t \<in> set (conn_tabs c tabs). t_id t \<noteq> []" "k < length (conn_tabs c tabs)"
  shows "closeTabWithState tabs c (Some i) (t_id (conn_tabs c tabs ! k))
    = (filter (\<lambda>t. t_id t \<noteq> t_id (conn_tabs c tabs ! k)) tabs,
       if i \<noteq> t_id (conn_tabs c tabs ! k) then Some i
       else if k \<noteq> 0 then Some (t_id (conn_tabs c tabs ! (k - 1)))
       else if length (conn_tabs c tabs) = 1 then None
       else Some (t_id (conn_tabs c tabs ! 1)))"
proof -
  let ?xs = "conn_tabs c tabs" and ?t = "t_id (conn_tabs c tabs ! k)"
  have left: "conn_tabs c (filter (\<lambda>t. t_id t \<noteq> ?t) tabs) = take k ?xs @ drop (Suc k) ?xs"
    using filter_remove_id [OF assms(1,3)] by (simp add: conj_commute)
  have at: "tab_at (take k ?xs @ drop (Suc k) ?xs) (k - 1)
      = (if k \<noteq> 0 then Some (?xs ! (k - 1)) else if length ?xs = 1 then None else Some (?xs ! 1))"
    using assms(3) by (auto simp: tab_at_def nth_append)
  have "t_id (?xs ! j) \<noteq> []" if "j < length ?xs" for j using assms(2) nth_mem [OF that] by blast
  then have "id_or_null (tab_at (take k ?xs @ drop (Suc k) ?xs) (k - 1))
      = (if k \<noteq> 0 then Some (t_id (?xs ! (k - 1))) else if length ?xs = 1 then None else Some (t_id (?xs ! 1)))"
    using assms(3) unfolding at by (auto simp: id_or_null_def)
  then show ?thesis
    unfolding closeTabWithState_def Let_def left find_index_distinct [OF assms(1,3)] given_def by auto
qed

theorem closing_hands_over_to_the_left_witness:
  "let tabs = [sample_tab ''a'' ''x'' False, sample_tab ''b'' ''y'' False, sample_tab ''d'' ''x'' False] in
   closeTabWithState tabs ''x'' (Some ''d'') (t_id (conn_tabs ''x'' tabs ! 1))
    = (filter (\<lambda>t. t_id t \<noteq> t_id (conn_tabs ''x'' tabs ! 1)) tabs, Some ''a'')"
  unfolding Let_def by (subst closing_hands_over_to_the_left) simp_all

section \<open>Where the code falls short\<close>

text \<open>What the backend does with a call: a load is answered with what is stored.\<close>

fun perform ::
  "EditorCall \<Rightarrow> (jsstring \<Rightarrow> CleanedTab list \<times> jsstring option) \<Rightarrow>
   (CleanedTab list \<times> jsstring option) list \<times> (jsstring \<Rightarrow> CleanedTab list \<times> jsstring option)" where
  "perform (LoadPreferences c) store = ([store c], store)"
| "perform (SavePreferences c tabs active) store = ([], store(c := (tabs, active)))"

text \<open>Opening a connection saves its empty tab list while its tabs are being loaded: the effect that saves still sees
  \<open>isLoading\<close> as it was. The store loses the tabs until the next save, and when the backend takes the two calls in
  the other order (they are independent requests) the load is answered with no tabs at all.\<close>

theorem opening_saves_an_empty_list:
  "let st = fst (switch_connection [] initial_editor);
       calls = snd (switch_connection ''db'' st);
       store = (\<lambda>_. ([cleanTabForStorage (sample_tab ''a'' ''db'' False)], Some ''a''))
   in calls = [LoadPreferences ''db'', SavePreferences ''db'' [] None]
    \<and> snd (perform (calls ! 1) store) ''db'' = ([], None)
    \<and> fst (perform (calls ! 0) (snd (perform (calls ! 1) store))) = [([], None)]"
  by (simp add: switch_connection_def load_effect_def save_effect_def connection_tabs_def initial_editor_def active_tab_id_def Let_def)

text \<open>A duplicated tab has its source's schema but not its database, so where one connection reaches several databases the
  copy reads the table of the connection's own database.\<close>

theorem duplicate_loses_database:
  "map_option (\<lambda>p. (tp_schema p, tp_database p))
     (buildDuplicatedTab ((sample_tab ''a'' ''c'' False)\<lparr>t_schema := JStr ''public'', t_database := JStr ''sales''\<rparr>))
   = Some (JStr ''public'', JUndefined)"
  by (simp add: buildDuplicatedTab_def canDuplicateTab_def no_partial_def)

text \<open>The key of the schema cache leaves out what is missing, so a schema and a database of the same name share an
  entry.\<close>

definition schemaCacheKey :: "jsstring \<Rightarrow> jsstring \<Rightarrow> jsstring \<Rightarrow> jsstring" where
  "schemaCacheKey connectionId schema database = join_with '':'' (filter (\<lambda>s. s \<noteq> []) [connectionId, database, schema])"

theorem schema_cache_mixes_schema_and_database:
  "schemaCacheKey ''c'' ''sales'' [] = schemaCacheKey ''c'' [] ''sales''"
  by (simp add: schemaCacheKey_def)

end
