(* ===== verification/ConnectionGroups.thy ===== *)
theory ConnectionGroups
  imports Prelude Complex_Main
begin

text \<open>
  Connection groups and their order (\<open>utils/groupTree.ts\<close>, the ordering part of \<open>utils/connections.ts\<close> and the drop
  handler of \<open>pages/Connections.tsx\<close>). A group names its parent by id; \<open>None\<close> is the top level. The climb to
  the root may go round in a circle, so it is a partial function; the flattening runs on fuel, one unit
  per level, and \<open>None\<close> is a recursion that does not end.
\<close>

record ConnectionGroup =
  cg_id :: jsstring
  cg_name :: jsstring
  cg_parent :: "jsstring option"
  cg_sort :: int
  cg_collapsed :: bool

section \<open>The tree\<close>

text \<open>\<open>byParent.get(parentId)\<close>, sorted; the sort is stable.\<close>

definition children_of :: "ConnectionGroup list \<Rightarrow> jsstring option \<Rightarrow> ConnectionGroup list" where
  "children_of groups parentId = sort_key cg_sort (filter (\<lambda>g. cg_parent g = parentId) groups)"

fun concat_opt :: "'a list option list \<Rightarrow> 'a list option" where
  "concat_opt [] = Some []"
| "concat_opt (x # xs) = (case x of None \<Rightarrow> None | Some a \<Rightarrow> map_option (\<lambda>b. a @ b) (concat_opt xs))"

fun group_walk :: "nat \<Rightarrow> ConnectionGroup list \<Rightarrow> jsstring option \<Rightarrow> nat \<Rightarrow> (ConnectionGroup \<times> nat) list option" where
  "group_walk 0 groups parentId depth = None"
| "group_walk (Suc fuel) groups parentId depth =
     concat_opt (map (\<lambda>g. map_option (Cons (g, depth)) (group_walk fuel groups (Some (cg_id g)) (Suc depth)))
       (children_of groups parentId))"

definition flattenGroupTree :: "ConnectionGroup list \<Rightarrow> (ConnectionGroup \<times> nat) list option" where
  "flattenGroupTree groups = group_walk (Suc (length groups)) groups None 0"

section \<open>Dropping a group\<close>

datatype GroupDropPosition = DropBefore | DropAfter | DropInside

datatype GroupDrop =
    DropNothing
  | DropCycle
  | DropPlan "jsstring option" "(jsstring \<times> int) list"

definition parent_of :: "ConnectionGroup list \<Rightarrow> jsstring \<Rightarrow> jsstring option" where
  "parent_of groups i = (case find (\<lambda>g. cg_id g = i) groups of None \<Rightarrow> None | Some g \<Rightarrow> cg_parent g)"

text \<open>The loop up from the new parent: does it meet the group that is moved?\<close>

partial_function (option) climb_meets :: "ConnectionGroup list \<Rightarrow> jsstring \<Rightarrow> jsstring option \<Rightarrow> bool option" where
  "climb_meets groups sourceId cur =
     (case cur of
        None \<Rightarrow> Some False
      | Some i \<Rightarrow> if i = [] then Some False else if i = sourceId then Some True
                 else climb_meets groups sourceId (parent_of groups i))"

definition numbered_order :: "jsstring list \<Rightarrow> (jsstring \<times> int) list" where
  "numbered_order ids = map (\<lambda>(i, x). (x, int i)) (enumerate 0 ids)"

text \<open>The index is never negative: the target is one of its parent's children and not the source.\<close>

definition drop_index :: "jsstring list \<Rightarrow> jsstring \<Rightarrow> GroupDropPosition \<Rightarrow> nat" where
  "drop_index siblings targetId position =
     (case position of
        DropInside \<Rightarrow> length siblings
      | _ \<Rightarrow> nat ((case find_index (\<lambda>i. i = targetId) siblings of None \<Rightarrow> - 1 | Some k \<Rightarrow> int k)
                  + (if position = DropAfter then 1 else 0)))"

definition planGroupDrop ::
  "ConnectionGroup list \<Rightarrow> jsstring \<Rightarrow> jsstring \<Rightarrow> GroupDropPosition \<Rightarrow> GroupDrop option" where
  "planGroupDrop groups sourceId targetId position =
     (case find (\<lambda>g. cg_id g = targetId) groups of
        None \<Rightarrow> Some DropNothing
      | Some target \<Rightarrow>
          if sourceId = targetId then Some DropNothing
          else (let parentId = (if position = DropInside then Some targetId else cg_parent target) in
                case climb_meets groups sourceId parentId of
                  None \<Rightarrow> None
                | Some True \<Rightarrow> Some DropCycle
                | Some False \<Rightarrow>
                    (let current = map cg_id (children_of groups parentId);
                         siblings = filter (\<lambda>i. i \<noteq> sourceId) current;
                         moved = splice_in (drop_index siblings targetId position) sourceId siblings
                     in if moved = current then Some DropNothing else Some (DropPlan parentId (numbered_order moved)))))"

text \<open>What the two operations do to the list of groups once the backend has answered
  (\<open>contexts/DatabaseProvider.tsx\<close>), and the drop handler, which calls the first only when the parent changes. In
  a map built from a list of pairs the last one wins.\<close>

definition moveGroupToParent :: "jsstring \<Rightarrow> jsstring option \<Rightarrow> ConnectionGroup list \<Rightarrow> ConnectionGroup list" where
  "moveGroupToParent i parentId groups = map (\<lambda>g. if cg_id g = i then g\<lparr>cg_parent := parentId\<rparr> else g) groups"

definition reorderGroups :: "(jsstring \<times> int) list \<Rightarrow> ConnectionGroup list \<Rightarrow> ConnectionGroup list" where
  "reorderGroups groupOrders groups =
     sort_key cg_sort
       (map (\<lambda>g. g\<lparr>cg_sort := (case map_of (rev groupOrders) (cg_id g) of Some n \<Rightarrow> n | None \<Rightarrow> cg_sort g)\<rparr>) groups)"

definition apply_drop :: "ConnectionGroup list \<Rightarrow> jsstring \<Rightarrow> jsstring option \<Rightarrow> (jsstring \<times> int) list \<Rightarrow> ConnectionGroup list" where
  "apply_drop groups sourceId parentId order =
     reorderGroups order
       (if parent_of groups sourceId \<noteq> parentId then moveGroupToParent sourceId parentId groups else groups)"

section \<open>Connections\<close>

datatype ConnectionDropPosition = ConnBefore | ConnAfter

definition connectionOrderAfterMove ::
  "jsstring list \<Rightarrow> jsstring \<Rightarrow> jsstring \<Rightarrow> ConnectionDropPosition \<Rightarrow> (jsstring \<times> int) list option" where
  "connectionOrderAfterMove ids fromId toId position =
     (if fromId = toId then None
      else (let rest = filter (\<lambda>i. i \<noteq> fromId) ids in
            case find_index (\<lambda>i. i = toId) rest of
              None \<Rightarrow> None
            | Some toIdx \<Rightarrow>
                (let moved = splice_in (toIdx + (if position = ConnAfter then 1 else 0)) fromId rest in
                 if moved = ids then None else Some (numbered_order moved))))"

definition connectionDropZone :: "rat \<Rightarrow> rat \<Rightarrow> rat \<Rightarrow> rat \<Rightarrow> rat \<Rightarrow> rat \<Rightarrow> bool \<Rightarrow> ConnectionDropPosition" where
  "connectionDropZone rtop left width height x y axisX =
     (if (if axisX then x < left + width / 2 else y < rtop + height / 2) then ConnBefore else ConnAfter)"

definition groupDropZone :: "rat \<Rightarrow> rat \<Rightarrow> rat \<Rightarrow> bool \<Rightarrow> GroupDropPosition" where
  "groupDropZone rtop height y allowAfter =
     (let edge = height * (3 / 10) in
      if y < rtop + edge then DropBefore
      else if allowAfter \<and> y > rtop + height - edge then DropAfter else DropInside)"

section \<open>Forests\<close>

text \<open>Ids are distinct and not empty, and every parent is a group of a smaller rank: no circles and no parents missing.\<close>

definition forest :: "ConnectionGroup list \<Rightarrow> bool" where
  "forest groups \<longleftrightarrow>
     distinct (map cg_id groups) \<and> [] \<notin> cg_id ` set groups
     \<and> (\<exists>rank :: jsstring \<Rightarrow> nat. \<forall>g \<in> set groups. case cg_parent g of
           None \<Rightarrow> True
         | Some p \<Rightarrow> p \<in> cg_id ` set groups \<and> rank p < rank (cg_id g))"

definition ranked :: "ConnectionGroup list \<Rightarrow> (jsstring \<Rightarrow> nat) \<Rightarrow> bool" where
  "ranked groups rank \<longleftrightarrow>
     distinct (map cg_id groups) \<and> [] \<notin> cg_id ` set groups
     \<and> (\<forall>g \<in> set groups. \<forall>p. cg_parent g = Some p \<longrightarrow> p \<in> cg_id ` set groups \<and> rank p < rank (cg_id g))"

lemma forest_ranked: "forest groups \<longleftrightarrow> (\<exists>rank. ranked groups rank)"
  unfolding forest_def ranked_def by (auto split: option.splits)

text \<open>The groups under a parent, at any depth.\<close>

inductive under :: "ConnectionGroup list \<Rightarrow> jsstring option \<Rightarrow> ConnectionGroup \<Rightarrow> bool" for groups where
  child: "g \<in> set groups \<Longrightarrow> cg_parent g = p \<Longrightarrow> under groups p g"
| deeper: "g \<in> set groups \<Longrightarrow> cg_parent g = Some (cg_id h) \<Longrightarrow> under groups p h \<Longrightarrow> under groups p g"

lemma under_mem: "under groups p g \<Longrightarrow> g \<in> set groups"
  by (cases rule: under.cases) auto

lemma under_rank:
  assumes "ranked groups rank" "under groups (Some i) g"
  shows "rank i < rank (cg_id g)"
  using assms(2) by (induction "Some i" g) (use assms(1) in \<open>force simp: ranked_def\<close>)+

lemma parent_group:
  "ranked groups rank \<Longrightarrow> g \<in> set groups \<Longrightarrow> cg_parent g = Some q \<Longrightarrow>
   \<exists>h \<in> set groups. cg_id h = q \<and> rank q < rank (cg_id g)"
  unfolding ranked_def by (metis imageE)

lemma same_id: "ranked groups rank \<Longrightarrow> g \<in> set groups \<Longrightarrow> h \<in> set groups \<Longrightarrow> cg_id g = cg_id h \<Longrightarrow> g = h"
  by (auto simp: ranked_def distinct_map inj_on_def)

lemma under_first:
  "under groups p g \<longleftrightarrow> (\<exists>c \<in> set groups. cg_parent c = p \<and> (g = c \<or> under groups (Some (cg_id c)) g))"
proof
  assume "under groups p g"
  then show "\<exists>c \<in> set groups. cg_parent c = p \<and> (g = c \<or> under groups (Some (cg_id c)) g)"
    by induction (auto intro: under.intros)
next
  have "under groups p g" if "under groups (Some (cg_id c)) g" "c \<in> set groups" "cg_parent c = p" for c
    using that by (induction "Some (cg_id c)" g) (auto intro: under.intros)
  then show "\<exists>c \<in> set groups. cg_parent c = p \<and> (g = c \<or> under groups (Some (cg_id c)) g) \<Longrightarrow> under groups p g"
    by (auto intro: under.intros)
qed

text \<open>A group lies in the part of one child only.\<close>

lemma under_unique:
  assumes r: "ranked groups rank" and c: "c \<in> set groups" "cg_parent c = p" and d: "d \<in> set groups" "cg_parent d = p"
    and g: "g = c \<or> under groups (Some (cg_id c)) g" "g = d \<or> under groups (Some (cg_id d)) g"
  shows "c = d"
  using g
proof (induction "rank (cg_id g)" arbitrary: g rule: less_induct)
  case less
  have no: False if "under groups (Some (cg_id x)) y" "cg_parent x = p" "cg_parent y = p" "x \<in> set groups" for x y
    using that(1)
  proof cases
    case child
    then show False using that r by (auto simp: ranked_def)
  next
    case (deeper h)
    then have "rank (cg_id x) < rank (cg_id h)" by (intro under_rank [OF r])
    moreover have "cg_parent x = Some (cg_id h)" using deeper that by simp
    ultimately show False using r that(4) by (auto simp: ranked_def dest: less_asym)
  qed
  show ?case
  proof (cases "g = c \<or> g = d")
    case True
    with less.prems no c d show ?thesis by blast
  next
    case False
    then have u: "under groups (Some (cg_id c)) g" "under groups (Some (cg_id d)) g" using less.prems by auto
    obtain q where q: "g \<in> set groups" "cg_parent g = Some q" using u(1) by cases auto
    then obtain h where h: "h \<in> set groups" "cg_id h = q" "rank q < rank (cg_id g)"
      using parent_group [OF r] by blast
    have up: "h = x \<or> under groups (Some (cg_id x)) h" if "under groups (Some (cg_id x)) g" "x \<in> set groups" for x
      using that(1)
    proof cases
      case child
      then show ?thesis using q h same_id [OF r h(1) that(2)] by simp
    next
      case (deeper k)
      then have "cg_id k = cg_id h" using q(2) h(2) by simp
      then have "k = h" by (rule same_id [OF r under_mem [OF deeper(3)] h(1)])
      with deeper(3) show ?thesis by blast
    qed
    show ?thesis by (rule less.hyps [of h]) (use h up u c(1) d(1) in auto)
  qed
qed

lemma under_top:
  assumes "ranked groups rank"
  shows "g \<in> set groups \<Longrightarrow> under groups None g"
proof (induction "rank (cg_id g)" arbitrary: g rule: less_induct)
  case less
  show ?case
  proof (cases "cg_parent g")
    case None
    with less.prems show ?thesis by (rule under.child)
  next
    case (Some q)
    then obtain h where h: "h \<in> set groups" "cg_id h = q" "rank q < rank (cg_id g)"
      using parent_group [OF assms less.prems] by blast
    with less show ?thesis by (intro under.deeper [of g groups h]) (auto simp: Some)
  qed
qed

section \<open>Flattening\<close>

lemma set_children [simp]: "set (children_of groups p) = {g \<in> set groups. cg_parent g = p}"
  by (simp add: children_of_def)

lemma concat_opt_Some:
  "(\<And>x. x \<in> set xs \<Longrightarrow> f x = Some (g x)) \<Longrightarrow> concat_opt (map f xs) = Some (concat (map g xs))"
  by (induction xs) simp_all

text \<open>Enough fuel: one unit more than there are groups of a higher rank than the parent.\<close>

definition above :: "ConnectionGroup list \<Rightarrow> (jsstring \<Rightarrow> nat) \<Rightarrow> jsstring option \<Rightarrow> ConnectionGroup set" where
  "above groups rank p = {g \<in> set groups. case p of None \<Rightarrow> True | Some i \<Rightarrow> rank i < rank (cg_id g)}"

lemma above_child:
  assumes "ranked groups rank" "g \<in> set groups" "cg_parent g = p"
  shows "card (above groups rank (Some (cg_id g))) < card (above groups rank p)"
proof (rule psubset_card_mono)
  show "finite (above groups rank p)" by (simp add: above_def)
  have "g \<in> above groups rank p" using assms by (auto simp: above_def ranked_def split: option.split)
  moreover have "g \<notin> above groups rank (Some (cg_id g))" by (simp add: above_def)
  moreover have "above groups rank (Some (cg_id g)) \<subseteq> above groups rank p"
    using assms by (fastforce simp: above_def ranked_def split: option.split)
  ultimately show "above groups rank (Some (cg_id g)) \<subset> above groups rank p" by blast
qed

text \<open>What the walk returns below a parent: each group under it once, every one after its parent and one level deeper.\<close>

definition walk_ok :: "ConnectionGroup list \<Rightarrow> jsstring option \<Rightarrow> nat \<Rightarrow> (ConnectionGroup \<times> nat) list \<Rightarrow> bool" where
  "walk_ok groups p d es \<longleftrightarrow>
     distinct (map fst es) \<and> set (map fst es) = {g. under groups p g}
     \<and> (\<forall>i < length es. cg_parent (fst (es ! i)) = p \<and> snd (es ! i) = d
          \<or> (\<exists>j < i. cg_parent (fst (es ! i)) = Some (cg_id (fst (es ! j))) \<and> snd (es ! i) = Suc (snd (es ! j))))"

lemma placed_append:
  fixes es :: "(ConnectionGroup \<times> nat) list"
  defines "placed p d xs \<equiv> \<forall>i < length xs. cg_parent (fst (xs ! i)) = p \<and> snd (xs ! i) = d
      \<or> (\<exists>j < i. cg_parent (fst (xs ! i)) = Some (cg_id (fst (xs ! j))) \<and> snd (xs ! i) = Suc (snd (xs ! j)))"
  shows "placed p d es \<Longrightarrow> placed p d fs \<Longrightarrow> placed p d (es @ fs)"
    and "placed (Some (cg_id g)) (Suc d) es \<Longrightarrow> cg_parent g = p \<Longrightarrow> placed p d ((g, d) # es)"
proof -
  assume a: "placed p d es" "placed p d fs"
  show "placed p d (es @ fs)"
    unfolding placed_def
  proof (intro allI impI)
    fix i
    assume i: "i < length (es @ fs)"
    show "cg_parent (fst ((es @ fs) ! i)) = p \<and> snd ((es @ fs) ! i) = d
      \<or> (\<exists>j < i. cg_parent (fst ((es @ fs) ! i)) = Some (cg_id (fst ((es @ fs) ! j))) \<and> snd ((es @ fs) ! i) = Suc (snd ((es @ fs) ! j)))"
    proof (cases "i < length es")
      case True
      have at: "(es @ fs) ! j = es ! j" if "j \<le> i" for j using that True by (simp add: nth_append)
      from a(1) [unfolded placed_def, rule_format, OF True] show ?thesis
        by (elim disjE exE conjE) (use at in \<open>auto intro: less_imp_le\<close>)
    next
      case False
      then have k: "i - length es < length fs" "(es @ fs) ! i = fs ! (i - length es)" using i by (simp_all add: nth_append)
      from a(2) [unfolded placed_def, rule_format, OF k(1)] show ?thesis
      proof (elim disjE exE conjE)
        fix j
        assume j: "j < i - length es" "cg_parent (fst (fs ! (i - length es))) = Some (cg_id (fst (fs ! j)))"
          "snd (fs ! (i - length es)) = Suc (snd (fs ! j))"
        moreover have "(es @ fs) ! (length es + j) = fs ! j" by (simp add: nth_append)
        ultimately show ?thesis unfolding k(2) using False by (intro disjI2 exI [of _ "length es + j"]) simp
      qed (simp add: k(2))
    qed
  qed
next
  assume a: "placed (Some (cg_id g)) (Suc d) es" "cg_parent g = p"
  show "placed p d ((g, d) # es)"
    unfolding placed_def
  proof (intro allI impI)
    fix i
    assume i: "i < length ((g, d) # es)"
    show "cg_parent (fst (((g, d) # es) ! i)) = p \<and> snd (((g, d) # es) ! i) = d
      \<or> (\<exists>j < i. cg_parent (fst (((g, d) # es) ! i)) = Some (cg_id (fst (((g, d) # es) ! j))) \<and> snd (((g, d) # es) ! i) = Suc (snd (((g, d) # es) ! j)))"
    proof (cases i)
      case 0
      with a(2) show ?thesis by simp
    next
      case (Suc k)
      with i have "k < length es" by simp
      from a(1) [unfolded placed_def, rule_format, OF this] show ?thesis
        unfolding Suc by (auto intro: exI [of _ 0] exI [of _ "Suc _"])
    qed
  qed
qed

lemma placed_concat:
  fixes es :: "'a \<Rightarrow> (ConnectionGroup \<times> nat) list"
  assumes "\<And>x i. x \<in> set xs \<Longrightarrow> i < length (es x) \<Longrightarrow> cg_parent (fst (es x ! i)) = p \<and> snd (es x ! i) = d
      \<or> (\<exists>j < i. cg_parent (fst (es x ! i)) = Some (cg_id (fst (es x ! j))) \<and> snd (es x ! i) = Suc (snd (es x ! j)))"
    and "i < length (concat (map es xs))"
  shows "cg_parent (fst (concat (map es xs) ! i)) = p \<and> snd (concat (map es xs) ! i) = d
      \<or> (\<exists>j < i. cg_parent (fst (concat (map es xs) ! i)) = Some (cg_id (fst (concat (map es xs) ! j)))
            \<and> snd (concat (map es xs) ! i) = Suc (snd (concat (map es xs) ! j)))"
proof -
  have "\<forall>i < length (concat (map es xs)). cg_parent (fst (concat (map es xs) ! i)) = p \<and> snd (concat (map es xs) ! i) = d
      \<or> (\<exists>j < i. cg_parent (fst (concat (map es xs) ! i)) = Some (cg_id (fst (concat (map es xs) ! j)))
            \<and> snd (concat (map es xs) ! i) = Suc (snd (concat (map es xs) ! j)))"
    using assms(1)
  proof (induction xs)
    case (Cons x xs)
    have "\<forall>i < length (es x). cg_parent (fst (es x ! i)) = p \<and> snd (es x ! i) = d
      \<or> (\<exists>j < i. cg_parent (fst (es x ! i)) = Some (cg_id (fst (es x ! j))) \<and> snd (es x ! i) = Suc (snd (es x ! j)))"
      using Cons.prems by simp
    from placed_append(1) [OF this Cons.IH] Cons.prems show ?case by simp
  qed simp
  with assms(2) show ?thesis by blast
qed

lemma group_walk_ok:
  assumes r: "ranked groups rank"
  shows "card (above groups rank p) < fuel \<Longrightarrow> \<exists>es. group_walk fuel groups p d = Some es \<and> walk_ok groups p d es"
proof (induction fuel arbitrary: p d)
  case (Suc fuel)
  let ?cs = "children_of groups p"
  have child: "\<exists>es. group_walk fuel groups (Some (cg_id g)) (Suc d) = Some es \<and> walk_ok groups (Some (cg_id g)) (Suc d) es"
    if "g \<in> set ?cs" for g
    using that above_child [OF r, of g p] Suc.prems by (intro Suc.IH) simp
  define sub where "sub g = (g, d) # the (group_walk fuel groups (Some (cg_id g)) (Suc d))" for g
  have sub: "map_option (Cons (g, d)) (group_walk fuel groups (Some (cg_id g)) (Suc d)) = Some (sub g)
      \<and> walk_ok groups (Some (cg_id g)) (Suc d) (tl (sub g))" if "g \<in> set ?cs" for g
    using child [OF that] by (auto simp: sub_def)
  then have walk: "group_walk (Suc fuel) groups p d = Some (concat (map sub ?cs))"
    unfolding group_walk.simps by (intro concat_opt_Some) blast
  have part: "set (map fst (sub g)) = {h. h = g \<or> under groups (Some (cg_id g)) h}" "distinct (map fst (sub g))" if "g \<in> set ?cs" for g
  proof -
    have w: "walk_ok groups (Some (cg_id g)) (Suc d) (tl (sub g))" using sub [OF that] by blast
    have "\<not> under groups (Some (cg_id g)) g" using under_rank [OF r] by blast
    with w show "set (map fst (sub g)) = {h. h = g \<or> under groups (Some (cg_id g)) h}" "distinct (map fst (sub g))"
      by (auto simp: walk_ok_def sub_def)
  qed
  have d: "distinct (map cg_id groups)" using r by (simp add: ranked_def)
  then have cs: "distinct ?cs" by (simp add: children_of_def distinct_map)
  have "distinct (map fst (concat (map sub ?cs)))"
  proof -
    have disj: "set (map fst (sub g)) \<inter> set (map fst (sub h)) = {}" if "g \<in> set ?cs" "h \<in> set ?cs" "g \<noteq> h" for g h
      using under_unique [OF r, of g p h] that unfolding part(1) [OF that(1)] part(1) [OF that(2)] by auto
    have "distinct (concat (map (map fst \<circ> sub) xs))" if "distinct xs" "set xs \<subseteq> set ?cs" for xs
      using that
    proof (induction xs)
      case (Cons x xs)
      have "set (map fst (sub x)) \<inter> set (map fst (sub y)) = {}" if "y \<in> set xs" for y
        using disj [of x y] that Cons.prems by auto
      then have "set (map fst (sub x)) \<inter> set (concat (map (map fst \<circ> sub) xs)) = {}" by fastforce
      moreover have "distinct (map fst (sub x))" by (rule part(2)) (use Cons.prems in auto)
      ultimately show ?case using Cons by simp
    qed simp
    from this [OF cs] show ?thesis by (simp add: map_concat)
  qed
  moreover have "set (map fst (concat (map sub ?cs))) = {g. under groups p g}"
  proof -
    have "set (map fst (concat (map sub ?cs))) = (\<Union>g \<in> set ?cs. set (map fst (sub g)))" by auto
    also have "\<dots> = (\<Union>g \<in> set ?cs. {h. h = g \<or> under groups (Some (cg_id g)) h})" by (rule SUP_cong [OF refl part(1)])
    also have "\<dots> = {g. under groups p g}" by (auto simp: under_first [of groups p])
    finally show ?thesis .
  qed
  moreover have "cg_parent (fst (sub g ! i)) = p \<and> snd (sub g ! i) = d
      \<or> (\<exists>j < i. cg_parent (fst (sub g ! i)) = Some (cg_id (fst (sub g ! j))) \<and> snd (sub g ! i) = Suc (snd (sub g ! j)))"
    if g: "g \<in> set ?cs" and i: "i < length (sub g)" for g i
  proof -
    have "walk_ok groups (Some (cg_id g)) (Suc d) (tl (sub g))" using sub [OF g] by blast
    then have "\<forall>i < length (tl (sub g)). cg_parent (fst (tl (sub g) ! i)) = Some (cg_id g) \<and> snd (tl (sub g) ! i) = Suc d
      \<or> (\<exists>j < i. cg_parent (fst (tl (sub g) ! i)) = Some (cg_id (fst (tl (sub g) ! j))) \<and> snd (tl (sub g) ! i) = Suc (snd (tl (sub g) ! j)))"
      by (simp add: walk_ok_def)
    from placed_append(2) [OF this] g i show ?thesis by (simp add: sub_def)
  qed
  ultimately have "walk_ok groups p d (concat (map sub ?cs))"
    unfolding walk_ok_def using placed_concat [of ?cs sub p d] by blast
  with walk show ?case by blast
qed simp

text \<open>C29 (every_group_is_shown_once): as long as the parents form a forest, flattening returns, shows every group exactly once, and
  shows each group below its parent and one level deeper, the top ones at level 0.\<close>

theorem every_group_is_shown_once:
  assumes "forest groups"
  shows "\<exists>es. flattenGroupTree groups = Some es \<and> mset (map fst es) = mset groups
    \<and> (\<forall>i < length es. cg_parent (fst (es ! i)) = None \<and> snd (es ! i) = 0
        \<or> (\<exists>j < i. cg_parent (fst (es ! i)) = Some (cg_id (fst (es ! j))) \<and> snd (es ! i) = Suc (snd (es ! j))))"
proof -
  obtain rank where r: "ranked groups rank" using assms forest_ranked by blast
  have d: "distinct groups" using r by (simp add: ranked_def distinct_map)
  have "card (above groups rank None) < Suc (length groups)"
    unfolding above_def using card_length [of groups] by simp
  from group_walk_ok [OF r this, of 0] obtain es where es: "flattenGroupTree groups = Some es" "walk_ok groups None 0 es"
    by (auto simp: flattenGroupTree_def)
  then have "set (map fst es) = set groups" using under_top [OF r] under_mem by (auto simp: walk_ok_def)
  moreover have "distinct (map fst es)" using es(2) by (simp add: walk_ok_def)
  ultimately have "mset (map fst es) = mset groups" using d by (simp only: set_eq_iff_mset_eq_distinct)
  with es show ?thesis unfolding walk_ok_def by blast
qed

section \<open>A planned drop\<close>

lemma parent_of_group: "ranked groups rank \<Longrightarrow> g \<in> set groups \<Longrightarrow> parent_of groups (cg_id g) = cg_parent g"
proof -
  assume a: "ranked groups rank" "g \<in> set groups"
  then have "find (\<lambda>h. cg_id h = cg_id g) groups \<noteq> None" by (auto simp: find_None_iff)
  then obtain h where h: "find (\<lambda>h. cg_id h = cg_id g) groups = Some h" by blast
  then have "h \<in> set groups" "cg_id h = cg_id g" by (auto simp: find_Some_iff)
  then have "h = g" by (rule same_id [OF a(1) _ a(2)])
  with h show ?thesis by (simp add: parent_of_def)
qed

text \<open>The climb returns, and tells whether the start is the group that is moved or lies under it.\<close>

lemma climb_meets_group:
  assumes r: "ranked groups rank"
  shows "g \<in> set groups \<Longrightarrow>
    climb_meets groups s (Some (cg_id g)) = Some (cg_id g = s \<or> under groups (Some s) g)"
proof (induction "rank (cg_id g)" arbitrary: g rule: less_induct)
  case less
  have ne: "cg_id g \<noteq> []" using r imageI [OF less.prems, of cg_id] by (auto simp: ranked_def)
  show ?case
  proof (cases "cg_id g = s")
    case True
    with ne show ?thesis by (simp add: climb_meets.simps)
  next
    case False
    have step: "climb_meets groups s (Some (cg_id g)) = climb_meets groups s (cg_parent g)"
      using ne False parent_of_group [OF r less.prems] by (simp add: climb_meets.simps [of groups s "Some (cg_id g)"])
    show ?thesis
    proof (cases "cg_parent g")
      case None
      then have "\<not> under groups (Some s) g" by (auto elim: under.cases)
      with None False step show ?thesis by (simp add: climb_meets.simps)
    next
      case (Some q)
      obtain h where h: "h \<in> set groups" "cg_id h = q" "rank q < rank (cg_id g)"
        using parent_group [OF r less.prems Some] by blast
      have "under groups (Some s) g \<longleftrightarrow> cg_id h = s \<or> under groups (Some s) h"
      proof
        assume "under groups (Some s) g"
        then show "cg_id h = s \<or> under groups (Some s) h"
        proof cases
          case child
          with Some h show ?thesis by simp
        next
          case (deeper k)
          then have "cg_id k = cg_id h" using Some h by simp
          then have "k = h" by (rule same_id [OF r under_mem [OF deeper(3)] h(1)])
          with deeper(3) show ?thesis by blast
        qed
      next
        assume "cg_id h = s \<or> under groups (Some s) h"
        then show "under groups (Some s) g"
          using less.prems Some h under.child [of g groups] under.deeper [of g groups h "Some s"] by auto
      qed
      with less.hyps [OF _ h(1)] h step False Some show ?thesis by simp
    qed
  qed
qed

text \<open>The groups after a drop, before the list is sorted; sorting it changes neither the forest nor the children of a group.\<close>

definition dropped_groups :: "ConnectionGroup list \<Rightarrow> jsstring \<Rightarrow> jsstring option \<Rightarrow> (jsstring \<times> int) list \<Rightarrow> ConnectionGroup list" where
  "dropped_groups groups sourceId parentId order =
     map (\<lambda>g. g\<lparr>cg_parent := (if cg_id g = sourceId then parentId else cg_parent g),
               cg_sort := (case map_of order (cg_id g) of Some n \<Rightarrow> n | None \<Rightarrow> cg_sort g)\<rparr>) groups"

lemma forest_sorted [simp]: "forest (sort_key f groups) \<longleftrightarrow> forest groups"
proof -
  have "mset (map cg_id (sort_key f groups)) = mset (map cg_id groups)" by simp
  then have "distinct (map cg_id (sort_key f groups)) \<longleftrightarrow> distinct (map cg_id groups)" by (rule mset_eq_imp_distinct_iff)
  then show ?thesis by (simp add: forest_def cong: option.case_cong)
qed

lemma children_sorted [simp]: "children_of (sort_key cg_sort groups) p = children_of groups p"
  by (simp add: children_of_def filter_sort sort_key_id_if_sorted)

lemma map_of_rev_distinct: "distinct (map fst xs) \<Longrightarrow> map_of (rev xs) = map_of xs"
proof (induction xs)
  case (Cons x xs)
  have "map_of xs (fst x) = None" using Cons.prems by (simp add: map_of_eq_None_iff)
  moreover have "map_of (rev (x # xs)) = map_of [x] ++ map_of xs" using Cons by simp
  ultimately show ?case by (cases x) (auto simp: map_add_def fun_eq_iff split: option.split)
qed simp

lemma apply_drop_sorts:
  assumes "ranked groups rank" "distinct (map fst order)"
  shows "apply_drop groups s p order = sort_key cg_sort (dropped_groups groups s p order)"
proof -
  have "cg_parent g = parent_of groups s" if "g \<in> set groups" "cg_id g = s" for g
    using parent_of_group [OF assms(1) that(1)] unfolding that(2) by (rule sym)
  then have "map (\<lambda>g. g\<lparr>cg_sort := (case map_of (rev order) (cg_id g) of Some n \<Rightarrow> n | None \<Rightarrow> cg_sort g)\<rparr>)
      (if parent_of groups s \<noteq> p then moveGroupToParent s p groups else groups) = dropped_groups groups s p order"
    by (auto simp: dropped_groups_def moveGroupToParent_def map_of_rev_distinct [OF assms(2)] split: option.split)
  then show ?thesis by (simp add: apply_drop_def reorderGroups_def)
qed

lemma forest_after_move:
  assumes r: "ranked groups rank" and p: "\<And>q. p = Some q \<Longrightarrow> \<exists>h \<in> set groups. cg_id h = q \<and> cg_id h \<noteq> s \<and> \<not> under groups (Some s) h"
  shows "forest (dropped_groups groups s p order)"
proof -
  let ?gs = "dropped_groups groups s p order"
  have ids: "map cg_id ?gs = map cg_id groups" by (simp add: dropped_groups_def)
  have set_ids: "cg_id ` set ?gs = cg_id ` set groups" using arg_cong [OF ids, of set] by simp
  define low where "low i \<longleftrightarrow> i = s \<or> (\<exists>g \<in> set groups. cg_id g = i \<and> under groups (Some s) g)" for i
  have low: "low (cg_id k) \<longleftrightarrow> cg_id k = s \<or> under groups (Some s) k" if "k \<in> set groups" for k
    unfolding low_def using same_id [OF r _ that] that by blast
  define M where "M = (case p of None \<Rightarrow> 0 | Some q \<Rightarrow> Suc (rank q))"
  define rank' where "rank' i = (if low i then rank i + M else rank i)" for i
  have "q \<in> cg_id ` set groups \<and> rank' q < rank' (cg_id g)" if g: "g \<in> set ?gs" and q: "cg_parent g = Some q" for g q
  proof -
    obtain h where h: "h \<in> set groups" "cg_id g = cg_id h" "cg_parent g = (if cg_id h = s then p else cg_parent h)"
      using g by (auto simp: dropped_groups_def)
    show ?thesis
    proof (cases "cg_id h = s")
      case True
      then have pq: "p = Some q" using h(3) q by simp
      then obtain k where k: "k \<in> set groups" "cg_id k = q" "q \<noteq> s" "\<not> under groups (Some s) k" using p [OF pq] by blast
      have "\<not> low q" using low [OF k(1)] k(2-4) by simp
      moreover have "low (cg_id g)" using True h(2) by (simp add: low_def)
      ultimately have "rank' q < rank' (cg_id g)" by (simp add: rank'_def M_def pq)
      with k show ?thesis by blast
    next
      case False
      with h q have hq: "cg_parent h = Some q" by simp
      obtain k where k: "k \<in> set groups" "cg_id k = q" "rank q < rank (cg_id h)"
        using parent_group [OF r h(1) hq] by blast
      have "low (cg_id g)" if "low q"
      proof -
        have "q = s \<or> under groups (Some s) k" using that low [OF k(1)] k(2) by simp
        then have "under groups (Some s) h" using under.child [OF h(1) hq] under.deeper [of h groups k "Some s"] h(1) hq k(2) by auto
        with h show ?thesis using low [OF h(1)] by simp
      qed
      with k h show ?thesis by (auto simp: rank'_def)
    qed
  qed
  moreover have "distinct (map cg_id ?gs)" "[] \<notin> cg_id ` set ?gs" unfolding ids set_ids using r by (simp_all add: ranked_def)
  ultimately have "ranked ?gs rank'" unfolding ranked_def set_ids by blast
  then show ?thesis using forest_ranked by blast
qed

text \<open>Sorting by the position in a list gives that list.\<close>

lemma map_of_numbered: "distinct L \<Longrightarrow> k < length L \<Longrightarrow> map_of (numbered_order L) (L ! k) = Some (int k)"
proof (rule map_of_is_SomeI)
  have "map fst (numbered_order L) = map snd (enumerate 0 L)" by (simp add: numbered_order_def split_beta comp_def)
  then show "distinct L \<Longrightarrow> distinct (map fst (numbered_order L))" by simp
  show "k < length L \<Longrightarrow> (L ! k, int k) \<in> set (numbered_order L)"
    unfolding numbered_order_def set_map by (rule image_eqI [of _ _ "(k, L ! k)"]) (simp_all add: in_set_enumerate_eq)
qed

lemma fst_numbered [simp]: "map fst (numbered_order L) = L"
  by (simp add: numbered_order_def split_beta comp_def)

lemma sort_by_position:
  assumes L: "distinct L" "mset (map f xs) = mset L" and key: "\<And>x k. x \<in> set xs \<Longrightarrow> k < length L \<Longrightarrow> f x = L ! k \<Longrightarrow> key x = int k"
  shows "map f (sort_key key xs) = L"
proof -
  let ?ys = "sort_key key xs"
  have m: "mset (map f ?ys) = mset L" using L(2) by simp
  have fx: "\<exists>k < length L. f x = L ! k" if "x \<in> set xs" for x
    using that mset_eq_setD [OF L(2)] by (metis imageI in_set_conv_nth set_map)
  have pos: "key x = int k \<longleftrightarrow> f x = L ! k" if "x \<in> set xs" "k < length L" for x k
    using fx [OF that(1)] key [OF that(1)] that(2) by auto
  have dist: "distinct (map f ?ys)" using L(1) mset_eq_imp_distinct_iff [OF m] by blast
  have inj: "inj_on key (set ?ys)"
  proof (rule inj_onI)
    fix x y
    assume xy: "x \<in> set ?ys" "y \<in> set ?ys" "key x = key y"
    then obtain k where k: "k < length L" "f x = L ! k" using fx [of x] by auto
    then have "f y = f x" using pos [of x k] pos [of y k] xy by simp
    with dist xy show "x = y" by (auto simp: distinct_map inj_on_def)
  qed
  have "set (map key ?ys) = set (map int [0..<length L])"
  proof (rule set_eqI)
    fix i
    have "i \<in> set (map key ?ys) \<longleftrightarrow> (\<exists>x \<in> set xs. key x = i)" by auto
    also have "\<dots> \<longleftrightarrow> (\<exists>k < length L. i = int k)"
    proof
      assume "\<exists>x \<in> set xs. key x = i"
      then show "\<exists>k < length L. i = int k" using fx key by metis
    next
      assume "\<exists>k < length L. i = int k"
      then obtain k where k: "k < length L" "i = int k" by blast
      then have "L ! k \<in> set (map f xs)" using mset_eq_setD [OF L(2)] by simp
      then show "\<exists>x \<in> set xs. key x = i" using k pos by auto
    qed
    finally show "i \<in> set (map key ?ys) \<longleftrightarrow> i \<in> set (map int [0..<length L])" by auto
  qed
  moreover have "distinct (map key ?ys)" using inj dist by (auto simp: distinct_map)
  moreover have "sorted (map int [0..<length L])" "distinct (map int [0..<length L])"
    by (simp_all add: sorted_map sorted_wrt_upt distinct_map inj_on_def)
  ultimately have keys: "map key ?ys = map int [0..<length L]" by (intro sorted_distinct_set_unique) simp_all
  have "map f ?ys = map (\<lambda>i. L ! nat i) (map key ?ys)"
    unfolding map_map using fx key by (intro map_cong refl) (auto, metis nat_int)
  also have "\<dots> = L" unfolding keys by (simp add: comp_def map_nth)
  finally show ?thesis .
qed

text \<open>The parent a drop asks for, and what the order of the siblings then is to be.\<close>

definition dropped_under :: "ConnectionGroup list \<Rightarrow> jsstring \<Rightarrow> GroupDropPosition \<Rightarrow> jsstring option" where
  "dropped_under groups targetId position = (if position = DropInside then Some targetId else parent_of groups targetId)"

definition placed :: "jsstring \<Rightarrow> jsstring \<Rightarrow> GroupDropPosition \<Rightarrow> jsstring list \<Rightarrow> bool" where
  "placed sourceId targetId position ids \<longleftrightarrow>
     (case position of
        DropInside \<Rightarrow> ids \<noteq> [] \<and> last ids = sourceId
      | DropBefore \<Rightarrow> sublist [sourceId, targetId] ids
      | DropAfter \<Rightarrow> sublist [targetId, sourceId] ids)"

lemma placed_splice:
  assumes "position \<noteq> DropInside \<Longrightarrow> targetId \<in> set siblings"
  shows "placed sourceId targetId position (splice_in (drop_index siblings targetId position) sourceId siblings)"
proof (cases position)
  case DropInside
  then show ?thesis by (simp add: placed_def drop_index_def splice_in_def)
next
  case DropBefore
  then obtain k where k: "find_index (\<lambda>i. i = targetId) siblings = Some k"
    using assms find_index_filter_nth [of "\<lambda>i. i = targetId" siblings] by auto
  then have at: "k < length siblings" "siblings ! k = targetId" using find_index_Some [OF k] by simp_all
  then have "siblings = take k siblings @ targetId # drop (Suc k) siblings" by (metis id_take_nth_drop)
  then have "splice_in k sourceId siblings = take k siblings @ [sourceId, targetId] @ drop (Suc k) siblings"
    using at by (simp add: splice_in_def Cons_nth_drop_Suc [symmetric])
  then show ?thesis unfolding DropBefore placed_def drop_index_def k sublist_def by auto
next
  case DropAfter
  then obtain k where k: "find_index (\<lambda>i. i = targetId) siblings = Some k"
    using assms find_index_filter_nth [of "\<lambda>i. i = targetId" siblings] by auto
  then have at: "k < length siblings" "siblings ! k = targetId" using find_index_Some [OF k] by simp_all
  then have "splice_in (Suc k) sourceId siblings = take k siblings @ [targetId, sourceId] @ drop (Suc k) siblings"
    by (simp add: splice_in_def take_Suc_conv_app_nth)
  moreover have "nat (int k + 1) = Suc k" by simp
  ultimately show ?thesis unfolding DropAfter placed_def drop_index_def k sublist_def by auto
qed

lemma splice_in_mset: "mset (splice_in k x xs) = add_mset x (mset xs)"
  unfolding splice_in_def by (metis add_mset_add_single append_take_drop_id mset.simps(2) mset_append union_mset_add_mset_right)

lemma filter_splice_in: "\<not> P x \<Longrightarrow> filter P (splice_in k x xs) = filter P xs"
proof -
  assume "\<not> P x"
  then have "filter P (splice_in k x xs) = filter P (take k xs) @ filter P (drop k xs)" by (simp add: splice_in_def)
  then show ?thesis by (metis append_take_drop_id filter_append)
qed

lemma applied_order:
  assumes r: "ranked groups rank" and s: "sourceId \<in> cg_id ` set groups"
    and L: "distinct L" "set L = insert sourceId {cg_id g | g. g \<in> set groups \<and> cg_parent g = p \<and> cg_id g \<noteq> sourceId}"
  shows "map cg_id (children_of (dropped_groups groups sourceId p (numbered_order L)) p) = L"
proof -
  let ?gs = "dropped_groups groups sourceId p (numbered_order L)"
  let ?xs = "filter (\<lambda>g. cg_parent g = p) ?gs"
  have "map cg_id ?gs = map cg_id groups" by (simp add: dropped_groups_def)
  then have "distinct (map cg_id ?gs)" using r by (simp add: ranked_def)
  then have d: "distinct (map cg_id ?xs)" by (rule distinct_map_filter)
  let ?P = "\<lambda>g. (if cg_id g = sourceId then p else cg_parent g) = p"
  have ids: "map cg_id ?xs = map cg_id (filter ?P groups)"
    by (simp add: dropped_groups_def filter_map comp_def)
  have "i \<in> cg_id ` set (filter ?P groups) \<longleftrightarrow> i \<in> set L" for i
  proof (cases "i = sourceId")
    case True
    obtain g where g: "g \<in> set groups" "cg_id g = sourceId" using s by auto
    then have "g \<in> set (filter ?P groups)" by simp
    from imageI [OF this, of cg_id] g True show ?thesis unfolding L(2) by simp
  next
    case False
    then show ?thesis unfolding L(2) by auto
  qed
  then have "set (map cg_id ?xs) = set L" unfolding ids set_map by (intro set_eqI)
  then have m: "mset (map cg_id ?xs) = mset L" using d L(1) by (simp only: set_eq_iff_mset_eq_distinct)
  show ?thesis unfolding children_of_def
  proof (rule sort_by_position [OF L(1) m])
    fix g k
    assume g: "g \<in> set ?xs" "k < length L" "cg_id g = L ! k"
    then obtain h where eq: "g = h\<lparr>cg_parent := (if cg_id h = sourceId then p else cg_parent h),
        cg_sort := (case map_of (numbered_order L) (cg_id h) of Some n \<Rightarrow> n | None \<Rightarrow> cg_sort h)\<rparr>"
      unfolding dropped_groups_def by auto
    have h: "cg_sort g = (case map_of (numbered_order L) (cg_id h) of Some n \<Rightarrow> n | None \<Rightarrow> cg_sort h)"
        "cg_id g = cg_id h" unfolding eq by simp_all
    have "cg_id h = L ! k" using g(3) h(2) by simp
    then show "cg_sort g = int k" unfolding h(1) by (simp add: map_of_numbered [OF L(1) g(2)])
  qed
qed

text \<open>The new order of the siblings: the group once among them, the others as they were.\<close>

lemma planned_order:
  fixes groups p sourceId k
  defines "current \<equiv> map cg_id (children_of groups p)"
  defines "moved \<equiv> splice_in k sourceId (filter (\<lambda>i. i \<noteq> sourceId) current)"
  assumes r: "ranked groups rank"
  shows "distinct moved"
    and "set moved = insert sourceId {cg_id g | g. g \<in> set groups \<and> cg_parent g = p \<and> cg_id g \<noteq> sourceId}"
    and "filter (\<lambda>i. i \<noteq> sourceId) moved = filter (\<lambda>i. i \<noteq> sourceId) current"
proof -
  let ?siblings = "filter (\<lambda>i. i \<noteq> sourceId) current"
  have "distinct current" unfolding current_def children_of_def
    using r by (auto simp: ranked_def distinct_map intro: inj_on_subset)
  then have "distinct (sourceId # ?siblings)" by simp
  moreover have m: "mset moved = add_mset sourceId (mset ?siblings)" by (simp add: moved_def splice_in_mset)
  ultimately show "distinct moved" using mset_eq_imp_distinct_iff [of moved "sourceId # ?siblings"] by simp
  have "set moved = insert sourceId (set ?siblings)" using m by (metis set_mset_add_mset_insert set_mset_mset)
  then show "set moved = insert sourceId {cg_id g | g. g \<in> set groups \<and> cg_parent g = p \<and> cg_id g \<noteq> sourceId}"
    by (auto simp: current_def)
  show "filter (\<lambda>i. i \<noteq> sourceId) moved = filter (\<lambda>i. i \<noteq> sourceId) current"
    unfolding moved_def by (subst filter_splice_in) simp_all
qed

text \<open>C9 (group_drop_keeps_forest): planning the drop of a group always returns. A plan, once carried out, gives a forest again, in
  which the group stands where it was dropped among its new siblings, in the planned order, and the others
  keep theirs; a drop is refused as a cycle exactly when it would put the group under itself.\<close>

theorem group_drop_keeps_forest:
  assumes "forest groups" "sourceId \<in> cg_id ` set groups"
  shows "\<exists>plan. planGroupDrop groups sourceId targetId position = Some plan
    \<and> (case plan of
         DropPlan p order \<Rightarrow>
           p = dropped_under groups targetId position \<and> forest (apply_drop groups sourceId p order)
           \<and> map cg_id (children_of (apply_drop groups sourceId p order) p) = map fst order
           \<and> placed sourceId targetId position (map fst order)
           \<and> filter (\<lambda>i. i \<noteq> sourceId) (map fst order) = filter (\<lambda>i. i \<noteq> sourceId) (map cg_id (children_of groups p))
       | DropCycle \<Rightarrow> (\<exists>g \<in> set groups. dropped_under groups targetId position = Some (cg_id g)
                          \<and> (cg_id g = sourceId \<or> under groups (Some sourceId) g))
       | DropNothing \<Rightarrow> sourceId = targetId \<or> targetId \<notin> cg_id ` set groups
           \<or> placed sourceId targetId position (map cg_id (children_of groups (dropped_under groups targetId position))))"
proof -
  obtain rank where r: "ranked groups rank" using assms(1) forest_ranked by blast
  show ?thesis
  proof (cases "find (\<lambda>g. cg_id g = targetId) groups")
    case None
    then have "targetId \<notin> cg_id ` set groups" by (auto simp: find_None_iff)
    with None show ?thesis by (simp add: planGroupDrop_def)
  next
    case (Some target)
    then have t: "target \<in> set groups" "cg_id target = targetId" by (auto simp: find_Some_iff)
    define p where "p = (if position = DropInside then Some targetId else cg_parent target)"
    have du: "dropped_under groups targetId position = p" using parent_of_group [OF r t(1)] t(2) by (simp add: dropped_under_def p_def)
    define current where "current = map cg_id (children_of groups p)"
    define siblings where "siblings = filter (\<lambda>i. i \<noteq> sourceId) current"
    define moved where "moved = splice_in (drop_index siblings targetId position) sourceId siblings"
    have pg: "\<exists>h \<in> set groups. p = Some (cg_id h)" if "p \<noteq> None"
      using that t parent_group [OF r t(1)] by (cases "position = DropInside") (auto simp: p_def)
    have plan: "planGroupDrop groups sourceId targetId position =
        (if sourceId = targetId then Some DropNothing
         else case climb_meets groups sourceId p of None \<Rightarrow> None | Some True \<Rightarrow> Some DropCycle
            | Some False \<Rightarrow> Some (if moved = current then DropNothing else DropPlan p (numbered_order moved)))"
      by (simp add: planGroupDrop_def Some p_def Let_def moved_def siblings_def current_def split: option.split bool.split)
    show ?thesis
    proof (cases "sourceId = targetId")
      case True
      then have "planGroupDrop groups sourceId targetId position = Some DropNothing" using plan by simp
      then show ?thesis by (intro exI [of _ DropNothing]) (use True in simp)
    next
      case ne: False
      show ?thesis
      proof (cases "\<exists>h \<in> set groups. p = Some (cg_id h) \<and> (cg_id h = sourceId \<or> under groups (Some sourceId) h)")
        case True
        then have "climb_meets groups sourceId p = Some True" using climb_meets_group [OF r] by auto
        then show ?thesis using True ne by (simp add: plan du)
      next
        case False
        have climb: "climb_meets groups sourceId p = Some False"
        proof (cases "p = None")
          case True
          then show ?thesis by (simp add: climb_meets.simps)
        next
          case n: False
          then obtain h where "h \<in> set groups" "p = Some (cg_id h)" using pg by blast
          with False climb_meets_group [OF r] show ?thesis by auto
        qed
        have "targetId \<in> set siblings" if "position \<noteq> DropInside"
          using that t ne by (auto simp: siblings_def current_def p_def)
        then have pl: "placed sourceId targetId position moved" unfolding moved_def by (rule placed_splice)
        note moved = planned_order [OF r, where p = p and sourceId = sourceId and k = "drop_index siblings targetId position",
            folded current_def, folded siblings_def, folded moved_def]
        have "forest (dropped_groups groups sourceId p (numbered_order moved))"
          by (rule forest_after_move [OF r]) (use False pg in auto)
        moreover have "apply_drop groups sourceId p (numbered_order moved) = sort_key cg_sort (dropped_groups groups sourceId p (numbered_order moved))"
          by (rule apply_drop_sorts [OF r]) (use moved(1) in simp)
        ultimately show ?thesis using applied_order [OF r assms(2) moved(1,2)] pl moved(3) siblings_def
          using ne by (cases "moved = current") (simp_all add: plan du climb current_def [symmetric])
      qed
    qed
  qed
qed

theorem group_drop_keeps_forest_witness:
  "let g = (\<lambda>i p n. \<lparr>cg_id = i, cg_name = i, cg_parent = p, cg_sort = n, cg_collapsed = False\<rparr>);
       groups = [g ''a'' None 0, g ''b'' None 1, g ''c'' (Some ''b'') 0] in
   planGroupDrop groups ''a'' ''c'' DropAfter = Some (DropPlan (Some ''b'') [(''c'', 0), (''a'', 1)])
   \<and> forest (apply_drop groups ''a'' (Some ''b'') [(''c'', 0), (''a'', 1)])"
proof -
  let ?g = "\<lambda>i p n. \<lparr>cg_id = i, cg_name = i, cg_parent = p, cg_sort = n, cg_collapsed = False\<rparr>"
  let ?groups = "[?g ''a'' None 0, ?g ''b'' None 1, ?g ''c'' (Some ''b'') 0]"
  have f: "forest ?groups"
    unfolding forest_def by (auto intro!: exI [of _ "\<lambda>i. if i = ''c'' then 1 else 0"])
  have p: "planGroupDrop ?groups ''a'' ''c'' DropAfter = Some (DropPlan (Some ''b'') [(''c'', 0), (''a'', 1)])"
    by (simp add: planGroupDrop_def climb_meets.simps parent_of_def children_of_def drop_index_def splice_in_def numbered_order_def)
  from group_drop_keeps_forest [OF f, of "''a''" "''c''" DropAfter] p show ?thesis by simp
qed

theorem every_group_is_shown_once_witness:
  "let g = (\<lambda>i p n. \<lparr>cg_id = i, cg_name = i, cg_parent = p, cg_sort = n, cg_collapsed = False\<rparr>);
       groups = [g ''c'' (Some ''b'') 0, g ''b'' None 1] in
   \<exists>es. flattenGroupTree groups = Some es \<and> mset (map fst es) = mset groups"
proof -
  let ?g = "\<lambda>i p n. \<lparr>cg_id = i, cg_name = i, cg_parent = p, cg_sort = n, cg_collapsed = False\<rparr>"
  have "forest [?g ''c'' (Some ''b'') 0, ?g ''b'' None 1]"
    unfolding forest_def by (auto intro!: exI [of _ "\<lambda>i. if i = ''c'' then 1 else 0"])
  from every_group_is_shown_once [OF this] show ?thesis unfolding Let_def by blast
qed

section \<open>Moving a connection\<close>

text \<open>Property (moved_connection_lands): a move that changes anything puts the connection next to the one it was dropped on, on the side asked for, keeps the
  order of the others and numbers all of them.\<close>

theorem moved_connection_lands:
  "case connectionOrderAfterMove ids fromId toId position of
     None \<Rightarrow> fromId = toId \<or> toId \<notin> set ids
       \<or> placed fromId toId (if position = ConnAfter then DropAfter else DropBefore) ids
   | Some order \<Rightarrow>
       placed fromId toId (if position = ConnAfter then DropAfter else DropBefore) (map fst order)
       \<and> filter (\<lambda>i. i \<noteq> fromId) (map fst order) = filter (\<lambda>i. i \<noteq> fromId) ids
       \<and> map snd order = map int [0..<length order]"
proof (cases "fromId = toId \<or> toId \<notin> set ids")
  case True
  then have "find_index (\<lambda>i. i = toId) (filter (\<lambda>i. i \<noteq> fromId) ids) = None" if "fromId \<noteq> toId"
    using that by (auto simp: find_index_filter_nth)
  then have none: "connectionOrderAfterMove ids fromId toId position = None" by (simp add: connectionOrderAfterMove_def Let_def)
  show ?thesis unfolding none option.case using True by blast
next
  case False
  let ?rest = "filter (\<lambda>i. i \<noteq> fromId) ids"
  let ?pos = "if position = ConnAfter then DropAfter else DropBefore"
  have mem: "toId \<in> set ?rest" using False by auto
  then obtain k where k: "find_index (\<lambda>i. i = toId) ?rest = Some k"
    using find_index_filter_nth [of "\<lambda>i. i = toId" ?rest] by auto
  have at: "k + (if position = ConnAfter then 1 else 0) = drop_index ?rest toId ?pos"
    by (simp add: drop_index_def k nat_add_distrib)
  define moved where "moved = splice_in (drop_index ?rest toId ?pos) fromId ?rest"
  have "placed fromId toId ?pos moved" unfolding moved_def by (rule placed_splice) (use mem in simp)
  moreover have "filter (\<lambda>i. i \<noteq> fromId) moved = ?rest" unfolding moved_def by (subst filter_splice_in) simp_all
  moreover have "map snd (numbered_order moved) = map int [0..<length moved]"
    by (rule nth_equalityI) (simp_all add: numbered_order_def split_beta nth_enumerate_eq)
  moreover have "length (numbered_order moved) = length moved" by (simp add: numbered_order_def)
  moreover have "connectionOrderAfterMove ids fromId toId position = (if moved = ids then None else Some (numbered_order moved))"
    using False k by (simp add: connectionOrderAfterMove_def Let_def moved_def at)
  ultimately show ?thesis by auto
qed

end
