(* ===== verification/TableQuery.thy ===== *)
theory TableQuery
  imports EditorTabs Identifiers MultiResult
begin

text \<open>
  The query of a table tab and the list a column of values is turned into (\<open>utils/editor.ts\<close>, from
  \<open>normalizeSmartQuotes\<close> on). The curly quotes lie outside the 8 bit characters of the model, so which
  characters are curly is a parameter; limits and page numbers are integers.
\<close>

section \<open>The query of a table tab\<close>

definition normalizeSmartQuotes :: "(char \<Rightarrow> bool) \<Rightarrow> (char \<Rightarrow> bool) \<Rightarrow> jsstring \<Rightarrow> jsstring" where
  "normalizeSmartQuotes curly1 curly2 s =
     map (\<lambda>c. if curly2 c then DQ else c) (map (\<lambda>c. if curly1 c then SQ else c) s)"

record ReconstructQueryOptions =
  rq_filter :: "jsstring option option"
  rq_sort :: "jsstring option option"
  rq_limit :: "int option option"
  rq_wrapLimit :: bool

text \<open>A tab's own limit; only numbers occur.\<close>

definition limit_of :: "jsval \<Rightarrow> int option" where
  "limit_of v = (case v of JNum m 0 \<Rightarrow> Some m | _ \<Rightarrow> None)"

definition clause :: "jsstring \<Rightarrow> jsstring option \<Rightarrow> jsstring" where
  "clause keyword body = (case body of None \<Rightarrow> [] | Some b \<Rightarrow> if b = [] then [] else keyword @ b)"

definition reconstructTableQuery ::
  "(char \<Rightarrow> bool) \<Rightarrow> (char \<Rightarrow> bool) \<Rightarrow> Tab \<Rightarrow> DriverArg \<Rightarrow> ReconstructQueryOptions \<Rightarrow> jsstring" where
  "reconstructTableQuery curly1 curly2 tab driver opts =
     (let table = given (t_activeTable tab) [] in
      if table = [] then t_query tab
      else
        (let filterClause = given (rq_filter opts) (text_or_none (t_filterClause tab));
             sortClause = given (rq_sort opts) (text_or_none (t_sortClause tab));
             limitClause = given (rq_limit opts) (limit_of (t_limitClause tab));
             straight = normalizeSmartQuotes curly1 curly2;
             filt = clause ''WHERE '' (map_option straight filterClause);
             srt = clause ''ORDER BY '' (map_option straight sortClause);
             quotedTable = quoteTableRef table driver (text_or_none (t_schema tab));
             baseQuery = trim (''SELECT * FROM '' @ quotedTable @ '' '' @ filt @ '' '' @ srt);
             limited =
               (case limitClause of
                  Some n \<Rightarrow> if n > 0 then
                      (if rq_wrapLimit opts
                       then ''SELECT * FROM ('' @ baseQuery @ '' LIMIT '' @ nat_str (nat n) @ '') AS limited_subset''
                       else baseQuery @ '' LIMIT '' @ nat_str (nat n))
                    else baseQuery
                | None \<Rightarrow> baseQuery)
         in trim (collapse_spaces limited)))"

section \<open>Values of a list\<close>

text \<open>\<open>text.split(/[\r\n\t,]+/)\<close>; \<open>cur\<close> is the piece read so far.\<close>

definition list_separator :: "char \<Rightarrow> bool" where
  "list_separator c \<longleftrightarrow> c = CR \<or> c = NL \<or> c = TAB \<or> c = CHR '',''"

fun split_runs :: "bool \<Rightarrow> jsstring \<Rightarrow> jsstring \<Rightarrow> jsstring list" where
  "split_runs inRun cur [] = [cur]"
| "split_runs inRun cur (c # s) =
     (if list_separator c then (if inRun then split_runs True cur s else cur # split_runs True [] s)
      else split_runs False (cur @ [c]) s)"

definition SQL_LIST_NUMBER :: "jsstring \<Rightarrow> bool" where
  "SQL_LIST_NUMBER v =
     (let s = (case v of c # cs \<Rightarrow> if c = CHR ''-'' then cs else v | [] \<Rightarrow> []);
          whole = takeWhile is_digit s; rest = dropWhile is_digit s
      in whole \<noteq> [] \<and> (hd whole = CHR ''0'' \<longrightarrow> length whole = 1)
         \<and> (case rest of [] \<Rightarrow> True | c # ds \<Rightarrow> c = CHR ''.'' \<and> ds \<noteq> [] \<and> list_all is_digit ds))"

definition list_values :: "jsstring \<Rightarrow> bool \<Rightarrow> jsstring list" where
  "list_values txt dedupe =
     (let vs = filter (\<lambda>v. v \<noteq> []) (map trim (split_runs False [] txt)) in if dedupe then uniq vs else vs)"

definition toSqlList :: "jsstring \<Rightarrow> char \<Rightarrow> jsstring \<Rightarrow> bool \<Rightarrow> jsstring" where
  "toSqlList txt quote separator dedupe =
     (let vs = list_values txt dedupe in
      if vs \<noteq> [] \<and> list_all SQL_LIST_NUMBER vs then join_with separator vs
      else join_with separator (map (\<lambda>v. [quote] @ double_char quote v @ [quote]) vs))"

section \<open>Pages\<close>

definition calculateTotalPages :: "nat option \<Rightarrow> nat \<Rightarrow> nat" where
  "calculateTotalPages totalRows pageSize =
     (case totalRows of None \<Rightarrow> 1 | Some n \<Rightarrow> if n = 0 then 1 else (n + pageSize - 1) div pageSize)"

definition resolveTabPageSize :: "int option \<Rightarrow> int option \<Rightarrow> int option" where
  "resolveTabPageSize tabPageSize globalPageSize =
     (if tabPageSize = Some 0 then None
      else if given tabPageSize 0 > 0 then tabPageSize
      else Some (if given globalPageSize 0 > 0 then given globalPageSize 0 else 100))"

section \<open>What a query is made of\<close>

text \<open>A text that the cleanup at the end leaves alone: no white space but single blanks inside.\<close>

definition tidy :: "jsstring \<Rightarrow> bool" where
  "tidy s \<longleftrightarrow> s \<noteq> [] \<and> \<not> is_space (hd s) \<and> \<not> is_space (last s) \<and> collapse_spaces s = s"

lemma is_space_SP [simp]: "is_space SP"
  by code_simp

lemma collapse_cons: "\<not> is_space c \<Longrightarrow> collapse_spaces (c # s) = c # collapse_spaces s"
  by (cases s) simp_all

lemma collapse_append:
  "s \<noteq> [] \<Longrightarrow> \<not> is_space (last s) \<Longrightarrow> collapse_spaces (s @ t) = collapse_spaces s @ collapse_spaces t"
proof (induction s)
  case (Cons c s)
  then show ?case by (cases s; cases t) auto
qed simp

text \<open>A run of blanks between two tidy texts becomes one blank.\<close>

lemma collapse_blanks: "list_all is_space b \<Longrightarrow> b \<noteq> [] \<Longrightarrow> t \<noteq> [] \<Longrightarrow> \<not> is_space (hd t) \<Longrightarrow>
  collapse_spaces (b @ t) = SP # collapse_spaces t"
proof (induction b)
  case (Cons c b)
  show ?case
  proof (cases b)
    case Nil
    with Cons.prems show ?thesis by (cases t) simp_all
  next
    case (Cons d e)
    with Cons.IH Cons.prems show ?thesis by simp
  qed
qed simp

lemma tidy_join:
  assumes "tidy s" "tidy t" "list_all is_space b" "b \<noteq> []"
  shows "collapse_spaces (s @ b @ t) = s @ SP # t" "tidy (s @ SP # t)"
proof -
  have c: "collapse_spaces (s @ b' @ t) = s @ SP # t" if "list_all is_space b'" "b' \<noteq> []" for b'
    using that assms by (subst collapse_append) (simp_all add: tidy_def collapse_blanks)
  show "collapse_spaces (s @ b @ t) = s @ SP # t" by (rule c [OF assms(3,4)])
  show "tidy (s @ SP # t)" using c [of "[SP]"] assms(1,2) by (simp add: tidy_def)
qed

lemma tidyD: "tidy s \<Longrightarrow> collapse_spaces s = s"
  by (simp add: tidy_def)

lemma trim_tidy: "tidy s \<Longrightarrow> trim s = s"
  by (simp add: tidy_def trim_id)

lemma trim_blanks: "tidy s \<Longrightarrow> list_all is_space b \<Longrightarrow> trim (s @ b) = s"
proof -
  assume s: "tidy s" "list_all is_space b"
  then have "dropWhile is_space (s @ b) = s @ b" by (cases s) (auto simp: tidy_def)
  moreover have "dropWhile is_space (rev (s @ b)) = rev s"
    using s by (cases s rule: rev_cases) (auto simp: tidy_def list_all_iff dropWhile_append)
  ultimately show ?thesis by (simp add: trim_def)
qed

definition clauses :: "jsstring \<Rightarrow> jsstring option \<Rightarrow> jsstring option \<Rightarrow> int option \<Rightarrow> jsstring list" where
  "clauses table filt srt limit =
     [''SELECT * FROM '' @ table]
     @ (case filt of Some f \<Rightarrow> [''WHERE '' @ f] | None \<Rightarrow> [])
     @ (case srt of Some s \<Rightarrow> [''ORDER BY '' @ s] | None \<Rightarrow> [])
     @ (case limit of Some n \<Rightarrow> if n > 0 then [''LIMIT '' @ nat_str (nat n)] else [] | None \<Rightarrow> [])"

definition tidy_opt :: "jsstring option \<Rightarrow> bool" where
  "tidy_opt v = (case v of None \<Rightarrow> True | Some s \<Rightarrow> tidy s)"

lemma nat_str_digits: "nat_str n \<noteq> [] \<and> list_all is_digit (nat_str n)"
proof (induction n rule: nat_str.induct)
  case (1 n)
  have d: "is_digit (char_of (48 + k))" if "k < (10 :: nat)" for k
  proof -
    have "k \<in> {0, 1, 2, 3, 4, 5, 6, 7, 8, 9}" using that by auto
    then show ?thesis by (elim insertE emptyE) (simp_all add: is_digit_def code_of_def)
  qed
  show ?case
  proof (cases "n < 10")
    case True
    then show ?thesis using d [of n] by (simp add: nat_str.simps [of n])
  next
    case False
    then show ?thesis using 1 d [of "n mod 10"] by (simp add: nat_str.simps [of n])
  qed
qed

lemma tidy_plain: "s \<noteq> [] \<Longrightarrow> list_all (\<lambda>c. \<not> is_space c) s \<Longrightarrow> tidy s"
proof -
  assume s: "s \<noteq> []" "list_all (\<lambda>c. \<not> is_space c) s"
  have "collapse_spaces s = s" using s(2) by (induction s) (simp_all split: list.split)
  with s show ?thesis by (cases s) (auto simp: tidy_def list_all_iff)
qed

lemma digit_not_space: "is_digit c \<Longrightarrow> \<not> is_space c"
  by (auto simp: is_digit_def is_space_def)

lemma tidy_limit: "tidy (''LIMIT '' @ nat_str n)"
proof -
  have "tidy (nat_str n)" using nat_str_digits [of n] digit_not_space by (intro tidy_plain) (auto simp: list_all_iff)
  moreover have "tidy ''LIMIT''" by code_simp
  ultimately show ?thesis using tidy_join(2) [of "''LIMIT''" "nat_str n" "[SP]"] by simp
qed

lemma tidy_keyword:
  "tidy t \<Longrightarrow> tidy (''SELECT * FROM '' @ t)" "tidy t \<Longrightarrow> tidy (''WHERE '' @ t)" "tidy t \<Longrightarrow> tidy (''ORDER BY '' @ t)"
proof -
  have k: "tidy ''SELECT * FROM''" "tidy ''WHERE''" "tidy ''ORDER BY''" by code_simp+
  show "tidy t \<Longrightarrow> tidy (''SELECT * FROM '' @ t)" using tidy_join(2) [OF k(1), of t "[SP]"] by simp
  show "tidy t \<Longrightarrow> tidy (''WHERE '' @ t)" using tidy_join(2) [OF k(2), of t "[SP]"] by simp
  show "tidy t \<Longrightarrow> tidy (''ORDER BY '' @ t)" using tidy_join(2) [OF k(3), of t "[SP]"] by simp
qed

text \<open>The text before the limit, and what the final cleanup makes of it with a tidy rest behind it.\<close>

lemma base_query:
  assumes s: "tidy s" and f: "\<And>x. filt = Some x \<Longrightarrow> tidy x" and o: "\<And>x. srt = Some x \<Longrightarrow> tidy x"
  defines "base \<equiv> trim (s @ '' '' @ given filt [] @ '' '' @ given srt [])"
  defines "parts \<equiv> s # (case filt of Some x \<Rightarrow> [x] | None \<Rightarrow> []) @ (case srt of Some x \<Rightarrow> [x] | None \<Rightarrow> [])"
  shows "trim (collapse_spaces base) = join_with '' '' parts"
    and "tidy l \<Longrightarrow> trim (collapse_spaces (base @ '' '' @ l)) = join_with '' '' (parts @ [l])"
proof -
  have two: "list_all is_space ''  ''" "list_all is_space [SP]" by (simp_all)
  have "trim (collapse_spaces base) = join_with '' '' parts \<and> (tidy l \<longrightarrow> trim (collapse_spaces (base @ '' '' @ l)) = join_with '' '' (parts @ [l]))"
  proof (cases srt)
    case None
    show ?thesis
    proof (cases filt)
      case n: None
      have "base = s" unfolding base_def using trim_blanks [OF s two(1)] None n by (simp add: given_def)
      then show ?thesis using None n s tidy_join [OF s, of l "[SP]"] by (simp add: parts_def trim_tidy tidyD)
    next
      case (Some x)
      note t = tidy_join [OF s f [OF Some] two(2)]
      have "base = s @ SP # x" unfolding base_def using trim_blanks [OF t(2) two(2)] None Some by (simp add: given_def)
      then show ?thesis using None Some t(2) tidy_join [OF t(2), of l "[SP]"]
        by (simp add: parts_def trim_tidy tidyD)
    qed
  next
    case y: (Some y)
    note ty = o [OF y]
    show ?thesis
    proof (cases filt)
      case None
      have "last y = last (s @ ''  '' @ y)" "hd (s @ ''  '' @ y) = hd s" using s ty by (auto simp: tidy_def)
      then have "base = s @ ''  '' @ y" unfolding base_def using None y s ty
        by (simp add: given_def, subst trim_id) (auto simp: tidy_def)
      then show ?thesis using None y s ty tidy_join [OF s ty two(1)] tidy_join [OF ty, of l "[SP]"] tidy_join [OF s, of "y @ SP # l" "''  ''"]
        by (simp add: parts_def trim_tidy)
    next
      case (Some x)
      note t = tidy_join [OF s f [OF Some] two(2)]
      note u = tidy_join [OF t(2) ty two(2)]
      have "base = s @ SP # x @ SP # y" unfolding base_def using trim_tidy [OF u(2)] y Some by (simp add: given_def)
      then show ?thesis using y Some u(2) tidy_join [OF u(2), of l "[SP]"]
        by (simp add: parts_def trim_tidy tidyD)
    qed
  qed
  then show "trim (collapse_spaces base) = join_with '' '' parts"
    and "tidy l \<Longrightarrow> trim (collapse_spaces (base @ '' '' @ l)) = join_with '' '' (parts @ [l])" by blast+
qed

text \<open>Property (table_query_is_its_clauses): with a filter and an order that hold no white space but single blanks, the query of a table tab is
  its clauses with one blank between them: the table, the filter if there is one, the order if there is
  one and the limit if it is positive, each exactly as given with the overrides in place of the tab's own.\<close>

theorem table_query_is_its_clauses:
  assumes table: "t_activeTable tab = Some table" "table \<noteq> []"
    and tidy: "tidy (quoteTableRef table driver (text_or_none (t_schema tab)))"
      "tidy_opt (map_option (normalizeSmartQuotes curly1 curly2) (given (rq_filter opts) (text_or_none (t_filterClause tab))))"
      "tidy_opt (map_option (normalizeSmartQuotes curly1 curly2) (given (rq_sort opts) (text_or_none (t_sortClause tab))))"
    and "\<not> rq_wrapLimit opts"
  shows "reconstructTableQuery curly1 curly2 tab driver opts = join_with '' ''
    (clauses (quoteTableRef table driver (text_or_none (t_schema tab)))
      (map_option (normalizeSmartQuotes curly1 curly2) (given (rq_filter opts) (text_or_none (t_filterClause tab))))
      (map_option (normalizeSmartQuotes curly1 curly2) (given (rq_sort opts) (text_or_none (t_sortClause tab))))
      (given (rq_limit opts) (limit_of (t_limitClause tab))))"
proof -
  define f where "f = map_option (normalizeSmartQuotes curly1 curly2) (given (rq_filter opts) (text_or_none (t_filterClause tab)))"
  define o' where "o' = map_option (normalizeSmartQuotes curly1 curly2) (given (rq_sort opts) (text_or_none (t_sortClause tab)))"
  define q where "q = quoteTableRef table driver (text_or_none (t_schema tab))"
  define n where "n = given (rq_limit opts) (limit_of (t_limitClause tab))"
  let ?F = "map_option (\<lambda>x. ''WHERE '' @ x) f" and ?O = "map_option (\<lambda>x. ''ORDER BY '' @ x) o'"
  have c: "clause k v = given (map_option (\<lambda>x. k @ x) v) []" if "tidy_opt v" for k v
    using that by (cases v) (auto simp: clause_def given_def tidy_opt_def tidy_def)
  have s: "tidy (''SELECT * FROM '' @ q)" using tidy(1) tidy_keyword(1) by (simp add: q_def)
  have F: "tidy x" if "?F = Some x" for x using that tidy(2) tidy_keyword(2) by (auto simp: f_def tidy_opt_def)
  have O: "tidy x" if "?O = Some x" for x using that tidy(3) tidy_keyword(3) by (auto simp: o'_def tidy_opt_def)
  have FO: "\<And>x. ?F = Some x \<Longrightarrow> tidy x" "\<And>x. ?O = Some x \<Longrightarrow> tidy x" using F O by blast+
  note base1 = base_query(1) [of _ ?F ?O, OF s FO]
  note base2 = base_query(2) [of _ ?F ?O, OF s FO tidy_limit]
  have q: "reconstructTableQuery curly1 curly2 tab driver opts =
      (let base = trim ((''SELECT * FROM '' @ q) @ '' '' @ given ?F [] @ '' '' @ given ?O []) in
       trim (collapse_spaces (case n of Some k \<Rightarrow> if k > 0 then base @ '' '' @ (''LIMIT '' @ nat_str (nat k)) else base | None \<Rightarrow> base)))"
    using table assms(6) c [OF tidy(2), of "''WHERE ''"] c [OF tidy(3), of "''ORDER BY ''"]
    by (simp add: reconstructTableQuery_def given_def [of "Some table"] Let_def q_def f_def o'_def n_def cong: option.case_cong if_cong)
  have parts: "clauses q f o' n = ((''SELECT * FROM '' @ q) # (case ?F of Some x \<Rightarrow> [x] | None \<Rightarrow> []) @ (case ?O of Some x \<Rightarrow> [x] | None \<Rightarrow> []))
      @ (case n of Some k \<Rightarrow> if k > 0 then [''LIMIT '' @ nat_str (nat k)] else [] | None \<Rightarrow> [])"
    by (cases f; cases o') (simp_all add: clauses_def)
  have "reconstructTableQuery curly1 curly2 tab driver opts = join_with '' '' (clauses q f o' n)"
  proof (cases "\<exists>k > 0. n = Some k")
    case True
    then obtain k where k: "n = Some k" "k > 0" by blast
    show ?thesis unfolding q parts Let_def unfolding k(1) option.case if_P [OF k(2)] by (rule base2)
  next
    case False
    then have "(case n of Some k \<Rightarrow> if k > 0 then [''LIMIT '' @ nat_str (nat k)] else [] | None \<Rightarrow> []) = []"
      "\<And>base. (case n of Some k \<Rightarrow> if k > 0 then base @ '' '' @ (''LIMIT '' @ nat_str (nat k)) else base | None \<Rightarrow> base) = base"
      by (auto split: option.split)
    then show ?thesis unfolding q parts Let_def using base1 by (simp only: append_Nil2)
  qed
  then show ?thesis by (simp only: f_def o'_def q_def n_def)
qed

definition sample_query_tab :: Tab where
  "sample_query_tab = (createInitialTabState ''i'' ''c'' (no_partial\<lparr>tp_type := Some TTable, tp_activeTable := Some ''users'',
     tp_filterClause := JStr ''age > 3'', tp_limitClause := JNum 50 0\<rparr>))"

definition no_override :: ReconstructQueryOptions where
  "no_override = \<lparr>rq_filter = None, rq_sort = None, rq_limit = None, rq_wrapLimit = False\<rparr>"

theorem table_query_is_its_clauses_witness:
  "reconstructTableQuery (\<lambda>_. False) (\<lambda>_. False) sample_query_tab (ArgId ''sqlite'') no_override
   = ''SELECT * FROM '' @ [DQ] @ ''users'' @ [DQ] @ '' WHERE age > 3 LIMIT 50''"
proof -
  have "reconstructTableQuery (\<lambda>_. False) (\<lambda>_. False) sample_query_tab (ArgId ''sqlite'') no_override = join_with '' ''
    (clauses (quoteTableRef ''users'' (ArgId ''sqlite'') (text_or_none (t_schema sample_query_tab)))
      (map_option (normalizeSmartQuotes (\<lambda>_. False) (\<lambda>_. False)) (given (rq_filter no_override) (text_or_none (t_filterClause sample_query_tab))))
      (map_option (normalizeSmartQuotes (\<lambda>_. False) (\<lambda>_. False)) (given (rq_sort no_override) (text_or_none (t_sortClause sample_query_tab))))
      (given (rq_limit no_override) (limit_of (t_limitClause sample_query_tab))))"
    by (rule table_query_is_its_clauses) code_simp+
  also have "\<dots> = ''SELECT * FROM '' @ [DQ] @ ''users'' @ [DQ] @ '' WHERE age > 3 LIMIT 50''" by code_simp
  finally show ?thesis .
qed

text \<open>The cleanup does not know string literals: a filter that compares with a text of two blanks asks for another
  text, and a line comment in the filter swallows what stood on the next line.\<close>

theorem cleanup_changes_literals:
  "reconstructTableQuery (\<lambda>_. False) (\<lambda>_. False) sample_query_tab (ArgId ''sqlite'')
     (no_override\<lparr>rq_filter := Some (Some (''name = '' @ [SQ] @ ''a  b'' @ [SQ])), rq_limit := Some None\<rparr>)
   = ''SELECT * FROM '' @ [DQ] @ ''users'' @ [DQ] @ '' WHERE name = '' @ [SQ] @ ''a b'' @ [SQ]
   \<and> reconstructTableQuery (\<lambda>_. False) (\<lambda>_. False) sample_query_tab (ArgId ''sqlite'')
     (no_override\<lparr>rq_filter := Some (Some (''a = 1 -- x'' @ [NL] @ ''AND b = 2'')), rq_limit := Some None\<rparr>)
   = ''SELECT * FROM '' @ [DQ] @ ''users'' @ [DQ] @ '' WHERE a = 1 -- x AND b = 2''"
  by code_simp

section \<open>Reading a list back\<close>

fun read_list :: "char \<Rightarrow> nat \<Rightarrow> jsstring \<Rightarrow> jsstring list option" where
  "read_list k (Suc n) (c # s) =
     (if c = k then
        (case read_quoted k s of
           Some (v, rest) \<Rightarrow>
             if rest = [] then Some [v]
             else if prefix '', '' rest then map_option (Cons v) (read_list k n (drop 2 rest))
             else None
         | None \<Rightarrow> None)
      else None)"
| "read_list k n s = None"

lemma read_list_join:
  assumes "k \<noteq> CHR '',''"
  shows "vs \<noteq> [] \<Longrightarrow> read_list k (length vs) (join_with '', '' (map (\<lambda>v. [k] @ double_char k v @ [k]) vs)) = Some vs"
proof (induction vs)
  case (Cons v vs)
  show ?case
  proof (cases vs)
    case Nil
    then show ?thesis using read_quoted_double [of k "[]" v] by simp
  next
    case (Cons w us)
    let ?rest = "join_with '', '' (map (\<lambda>v. [k] @ double_char k v @ [k]) vs)"
    have "read_quoted k (double_char k v @ k # '', '' @ ?rest) = Some (v, '', '' @ ?rest)"
      by (rule read_quoted_double) (use assms in simp)
    moreover have "join_with '', '' (map (\<lambda>v. [k] @ double_char k v @ [k]) (v # vs)) = k # double_char k v @ k # '', '' @ ?rest"
      using Cons by simp
    moreover have "read_list k (length vs) ?rest = Some vs" using Cons.IH Cons by blast
    ultimately show ?thesis by simp
  qed
qed simp

text \<open>Property (in_list_reads_back): the list of pasted values, with the default separator, is either the bare numbers or, read
  quote by quote, gives back exactly the values: the nonempty pieces between separators, without their
  surrounding blanks, in their order.\<close>

theorem in_list_reads_back:
  assumes "quote \<noteq> CHR '',''" "list_values txt dedupe \<noteq> []" "\<not> list_all SQL_LIST_NUMBER (list_values txt dedupe)"
  shows "read_list quote (length (list_values txt dedupe)) (toSqlList txt quote '', '' dedupe) = Some (list_values txt dedupe)"
  using read_list_join [OF assms(1,2)] assms(3) by (simp add: toSqlList_def Let_def)

text \<open>Property (pages_cover_rows): the last page is the one that holds the last row.\<close>

theorem pages_cover_rows:
  assumes "0 < pageSize" "0 < n"
  shows "n \<le> calculateTotalPages (Some n) pageSize * pageSize \<and> (calculateTotalPages (Some n) pageSize - 1) * pageSize < n"
proof -
  define k where "k = (n + pageSize - 1) div pageSize"
  have "k * pageSize \<le> n + pageSize - 1" "n + pageSize - 1 < k * pageSize + pageSize"
    using div_mult_mod_eq [of "n + pageSize - 1" pageSize] mod_less_divisor [OF assms(1), of "n + pageSize - 1"]
    unfolding k_def by linarith+
  moreover have "(k - 1) * pageSize = k * pageSize - pageSize" by (simp add: diff_mult_distrib)
  moreover have pages: "calculateTotalPages (Some n) pageSize = k" using assms(2) by (simp add: calculateTotalPages_def k_def)
  ultimately have "n \<le> k * pageSize" "(k - 1) * pageSize < n" using assms by linarith+
  then show ?thesis using pages by simp
qed

end
