(* ===== verification/VisualQuery.thy ===== *)
theory VisualQuery
  imports Identifiers ClipboardText
begin

text \<open>
  The visual query builder (\<open>utils/visualQuery.ts\<close>): a diagram of tables, joins and conditions becomes a
  query. An object is the list of its entries in the order the code enumerates them. The FROM clause is
  built as the list of its parts, each rendered as the code appends it; the loop over the joins ends
  because every round uses one up.
\<close>

datatype AggFunction = AggCount | AggSum | AggAvg | AggMin | AggMax | AggCountDistinct

fun agg_name :: "AggFunction \<Rightarrow> jsstring" where
  "agg_name AggCount = ''COUNT''"
| "agg_name AggSum = ''SUM''"
| "agg_name AggAvg = ''AVG''"
| "agg_name AggMin = ''MIN''"
| "agg_name AggMax = ''MAX''"
| "agg_name AggCountDistinct = ''COUNT_DISTINCT''"

record ColumnAggregation =
  ag_function :: "AggFunction option"
  ag_alias :: "jsstring option"
  ag_order :: "int option"

record ColumnAlias =
  ca_alias :: "jsstring option"
  ca_order :: "int option"

record QueryNode =
  qn_id :: jsstring
  qn_label :: jsstring
  qn_schema :: "jsstring option"
  qn_selected :: "(jsstring \<times> bool) list"
  qn_aggregations :: "(jsstring \<times> ColumnAggregation) list"
  qn_aliases :: "(jsstring \<times> ColumnAlias) list"

datatype JoinType = InnerJoin | LeftJoin | RightJoin | FullOuterJoin | CrossJoin

fun join_name :: "JoinType \<Rightarrow> jsstring" where
  "join_name InnerJoin = ''INNER''"
| "join_name LeftJoin = ''LEFT''"
| "join_name RightJoin = ''RIGHT''"
| "join_name FullOuterJoin = ''FULL OUTER''"
| "join_name CrossJoin = ''CROSS''"

record QueryEdge =
  qe_source :: jsstring
  qe_target :: jsstring
  qe_sourceHandle :: "jsstring option"
  qe_targetHandle :: "jsstring option"
  qe_joinType :: "JoinType option"

record WhereCondition =
  wc_column :: jsstring
  wc_operator :: jsstring
  wc_value :: jsstring
  wc_and :: bool
  wc_isAggregate :: bool

record OrderByClause =
  ob_column :: jsstring
  ob_ascending :: bool

record SelectedColumn =
  sel_expr :: jsstring
  sel_order :: int
  sel_colName :: jsstring

definition text_or :: "jsstring option \<Rightarrow> jsstring" where
  "text_or v = (case v of Some s \<Rightarrow> s | None \<Rightarrow> [])"

section \<open>References\<close>

definition formatTableRef :: "jsstring \<Rightarrow> DriverArg \<Rightarrow> jsstring" where
  "formatTableRef tableName driver =
     join_with ''.'' (map (\<lambda>part. formatSqlIdentifier part driver) (split_on (CHR ''.'') tableName))"

definition formatColumnRef :: "jsstring \<Rightarrow> jsstring \<Rightarrow> DriverArg \<Rightarrow> jsstring" where
  "formatColumnRef tableAlias column driver = tableAlias @ ''.'' @ formatSqlIdentifier column driver"

definition formatGeneratedColumnRef :: "jsstring \<Rightarrow> DriverArg \<Rightarrow> jsstring" where
  "formatGeneratedColumnRef column driver =
     (case split_on (CHR ''.'') column of
        [] \<Rightarrow> formatSqlIdentifier column driver
      | first # nameParts \<Rightarrow>
          if nameParts = [] then formatSqlIdentifier column driver
          else first @ ''.'' @ formatSqlIdentifier (join_with ''.'' nameParts) driver)"

text \<open>The replacement text of \<open>String.replace\<close> with its patterns; there are no groups.\<close>

fun expand_replacement :: "jsstring \<Rightarrow> jsstring \<Rightarrow> jsstring \<Rightarrow> jsstring \<Rightarrow> jsstring" where
  "expand_replacement before matched after [] = []"
| "expand_replacement before matched after [c] = [c]"
| "expand_replacement before matched after (c # d # s) =
     (if c = CHR ''$'' then
        (if d = CHR ''$'' then CHR ''$'' # expand_replacement before matched after s
         else if d = CHR ''&'' then matched @ expand_replacement before matched after s
         else if d = BTICK then before @ expand_replacement before matched after s
         else if d = SQ then after @ expand_replacement before matched after s
         else c # expand_replacement before matched after (d # s))
      else c # expand_replacement before matched after (d # s))"

definition replace_first :: "jsstring \<Rightarrow> jsstring \<Rightarrow> jsstring \<Rightarrow> jsstring" where
  "replace_first s needle replacement =
     (case index_of s needle of
        None \<Rightarrow> s
      | Some k \<Rightarrow> (let before = take k s; after = drop (k + length needle) s
                   in before @ expand_replacement before needle after replacement @ after))"

definition formatAggregateArgument :: "jsstring \<Rightarrow> DriverArg \<Rightarrow> jsstring" where
  "formatAggregateArgument argument driver =
     (let trimmed = trim argument in
      if trimmed = ''*'' \<or> list_ex (\<lambda>c. c = DQ \<or> c = BTICK \<or> c = CHR ''/'' \<or> is_space c \<or> c \<in> set ''(),+-*'') trimmed then argument
      else replace_first argument trimmed (formatGeneratedColumnRef trimmed driver))"

definition no_line_break :: "jsstring \<Rightarrow> bool" where
  "no_line_break s \<longleftrightarrow> list_all (\<lambda>c. c \<noteq> NL \<and> c \<noteq> CR) s"

text \<open>\<open>/^([A-Z_][A-Z0-9_]*)\((.*)\)$/i\<close>: the name and the argument.\<close>

definition match_aggregate :: "jsstring \<Rightarrow> (jsstring \<times> jsstring) option" where
  "match_aggregate column =
     (let name = takeWhile is_ident_char column; rest = dropWhile is_ident_char column in
      if name \<noteq> [] \<and> is_ident_start (hd name) \<and> 2 \<le> length rest \<and> hd rest = CHR ''('' \<and> last rest = CHR '')''
         \<and> no_line_break (butlast (tl rest))
      then Some (name, butlast (tl rest)) else None)"

text \<open>\<open>/^(\s*DISTINCT\s+)(.+)$/i\<close>: when only blanks follow, the last of them is the argument.\<close>

definition match_distinct :: "jsstring \<Rightarrow> (jsstring \<times> jsstring) option" where
  "match_distinct argument =
     (let lead = takeWhile is_space argument; rest = dropWhile is_space argument;
          word = take 8 rest; blanks = takeWhile is_space (drop 8 rest); arg = dropWhile is_space (drop 8 rest)
      in if upper word = ''DISTINCT'' \<and> blanks \<noteq> [] then
           (if arg \<noteq> [] then (if no_line_break arg then Some (lead @ word @ blanks, arg) else None)
            else if 2 \<le> length blanks \<and> no_line_break [last blanks] then Some (lead @ word @ butlast blanks, [last blanks])
            else None)
         else None)"

definition formatHavingColumnRef :: "jsstring \<Rightarrow> DriverArg \<Rightarrow> jsstring" where
  "formatHavingColumnRef column driver =
     (case match_aggregate column of
        None \<Rightarrow> formatGeneratedColumnRef column driver
      | Some (aggregateFunction, argument) \<Rightarrow>
          (case match_distinct argument of
             Some (distinctPrefix, distinctArgument) \<Rightarrow>
               aggregateFunction @ ''('' @ distinctPrefix @ formatAggregateArgument distinctArgument driver @ '')''
           | None \<Rightarrow> aggregateFunction @ ''('' @ formatAggregateArgument argument driver @ '')''))"

definition formatNodeTableRef :: "QueryNode \<Rightarrow> DriverArg \<Rightarrow> jsstring" where
  "formatNodeTableRef node driver =
     (if text_or (qn_schema node) = [] then formatTableRef (qn_label node) driver
      else quoteTableRef (qn_label node) driver (qn_schema node))"

section \<open>Columns\<close>

text \<open>A later node of the same id overwrites the alias of an earlier one.\<close>

definition collectTableAliases :: "QueryNode list \<Rightarrow> jsstring \<Rightarrow> jsstring" where
  "collectTableAliases nodes =
     foldl (\<lambda>aliases (index, node). aliases(qn_id node := ''t'' @ nat_str (index + 1))) (\<lambda>_. ''undefined'') (enumerate 0 nodes)"

definition generateTableList :: "QueryNode list \<Rightarrow> (jsstring \<Rightarrow> jsstring) \<Rightarrow> DriverArg \<Rightarrow> jsstring list" where
  "generateTableList nodes aliases driver = map (\<lambda>node. formatNodeTableRef node driver @ '' '' @ aliases (qn_id node)) nodes"

definition as_alias :: "jsstring option \<Rightarrow> DriverArg \<Rightarrow> jsstring" where
  "as_alias v driver = (if text_or v = [] then [] else '' AS '' @ formatSqlIdentifier (text_or v) driver)"

definition order_or_last :: "int option \<Rightarrow> int" where
  "order_or_last v = (case v of Some n \<Rightarrow> n | None \<Rightarrow> 999)"

text \<open>One checked column: its entry and, when it is not aggregated, its reference.\<close>

definition selected_column :: "QueryNode \<Rightarrow> jsstring \<Rightarrow> jsstring \<Rightarrow> DriverArg \<Rightarrow> SelectedColumn \<times> jsstring option" where
  "selected_column node tableAlias col driver =
     (let agg = map_of (qn_aggregations node) col; colAlias = map_of (qn_aliases node) col;
          columnRef = formatColumnRef tableAlias col driver
      in case Option.bind agg ag_function of
           Some f \<Rightarrow>
             (\<lparr>sel_expr = (if f = AggCountDistinct then ''COUNT(DISTINCT '' @ columnRef @ '')'' else agg_name f @ ''('' @ columnRef @ '')'')
                          @ as_alias (Option.bind agg ag_alias) driver,
               sel_order = order_or_last (Option.bind agg ag_order), sel_colName = col\<rparr>, None)
         | None \<Rightarrow>
             (\<lparr>sel_expr = columnRef @ as_alias (Option.bind colAlias ca_alias) driver,
               sel_order = order_or_last (Option.bind colAlias ca_order), sel_colName = col\<rparr>, Some columnRef))"

definition selected_entries ::
  "QueryNode list \<Rightarrow> (jsstring \<Rightarrow> jsstring) \<Rightarrow> DriverArg \<Rightarrow> (SelectedColumn \<times> jsstring option) list" where
  "selected_entries nodes aliases driver =
     concat (map (\<lambda>node. map (\<lambda>(col, _). selected_column node (aliases (qn_id node)) col driver)
       (filter (\<lambda>(_, isChecked). isChecked) (qn_selected node))) nodes)"

definition collectSelectedColumns ::
  "QueryNode list \<Rightarrow> (jsstring \<Rightarrow> jsstring) \<Rightarrow> DriverArg \<Rightarrow> SelectedColumn list \<times> bool \<times> jsstring list" where
  "collectSelectedColumns nodes aliases driver =
     (let es = selected_entries nodes aliases driver
      in (map fst es, list_ex (\<lambda>e. snd e = None) es, List.map_filter snd es))"

definition sortColumnsByOrder :: "SelectedColumn list \<Rightarrow> SelectedColumn list" where
  "sortColumnsByOrder columns = sort_key sel_order columns"

definition generateSelectClause :: "SelectedColumn list \<Rightarrow> jsstring" where
  "generateSelectClause columns =
     (let colExprs = map sel_expr (sortColumnsByOrder columns)
      in if colExprs \<noteq> [] then ''  '' @ join_with ('','' @ [NL] @ ''  '') colExprs else ''  *'')"

section \<open>Tables\<close>

text \<open>One pass over the edges: the first edge with one end among the tables listed so far and a table at its other
  end is taken; edges before it with both ends listed are dropped, the others stay.\<close>

fun scan_edges ::
  "QueryNode list \<Rightarrow> jsstring set \<Rightarrow> QueryEdge list \<Rightarrow> (QueryEdge \<times> QueryNode) option \<times> QueryEdge list" where
  "scan_edges nodes processed [] = (None, [])"
| "scan_edges nodes processed (e # es) =
     (let isSource = qe_source e \<in> processed; isTarget = qe_target e \<in> processed;
          skip = map_prod (\<lambda>r. r) (Cons e) (scan_edges nodes processed es)
      in if isSource \<and> \<not> isTarget then
           (case find (\<lambda>n. qn_id n = qe_target e) nodes of Some n \<Rightarrow> (Some (e, n), es) | None \<Rightarrow> skip)
         else if \<not> isSource \<and> isTarget then
           (case find (\<lambda>n. qn_id n = qe_source e) nodes of Some n \<Rightarrow> (Some (e, n), es) | None \<Rightarrow> skip)
         else if isSource \<and> isTarget then scan_edges nodes processed es
         else skip)"

lemma scan_edges_shorter: "scan_edges nodes processed es = (Some j, rest) \<Longrightarrow> length rest < length es"
proof (induction es arbitrary: rest)
  case (Cons e es)
  have skip: "length rest < length (e # es)" if "(Some j, rest) = map_prod (\<lambda>r. r) (Cons e) (scan_edges nodes processed es)"
    using that Cons.IH by (cases "scan_edges nodes processed es") auto
  have drop: "length rest < length (e # es)" if "scan_edges nodes processed es = (Some j, rest)"
    using Cons.IH [OF that] by simp
  from Cons.prems skip drop show ?case by (auto simp: Let_def split: if_splits option.splits)
qed simp

text \<open>The \<open>while\<close> loop: the joins in order, and the ids of the tables listed in the end.\<close>

function join_loop ::
  "QueryNode list \<Rightarrow> jsstring set \<Rightarrow> QueryEdge list \<Rightarrow> (QueryEdge \<times> QueryNode) list \<times> jsstring set" where
  "join_loop nodes processed es =
     (case scan_edges nodes processed es of
        (None, _) \<Rightarrow> ([], processed)
      | (Some (e, n), rest) \<Rightarrow> map_prod (Cons (e, n)) (\<lambda>p. p) (join_loop nodes (insert (qn_id n) processed) rest))"
  by pat_completeness auto
termination by (relation "measure (\<lambda>(_, _, es). length es)") (auto dest: scan_edges_shorter [OF sym])

declare join_loop.simps [simp del]

definition table_item :: "(jsstring \<Rightarrow> jsstring) \<Rightarrow> DriverArg \<Rightarrow> QueryNode \<Rightarrow> jsstring" where
  "table_item aliases driver node = formatNodeTableRef node driver @ '' '' @ aliases (qn_id node)"

definition join_clause :: "(jsstring \<Rightarrow> jsstring) \<Rightarrow> DriverArg \<Rightarrow> QueryEdge \<times> QueryNode \<Rightarrow> jsstring" where
  "join_clause aliases driver j =
     (case j of (e, n) \<Rightarrow>
        [NL] @ join_name (case qe_joinType e of Some t \<Rightarrow> t | None \<Rightarrow> InnerJoin) @ '' JOIN '' @ table_item aliases driver n
        @ '' ON '' @ formatColumnRef (aliases (qe_source e)) (text_or (qe_sourceHandle e)) driver
        @ '' = '' @ formatColumnRef (aliases (qe_target e)) (text_or (qe_targetHandle e)) driver)"

definition generateFromClause ::
  "QueryNode list \<Rightarrow> QueryEdge list \<Rightarrow> (jsstring \<Rightarrow> jsstring) \<Rightarrow> DriverArg \<Rightarrow> jsstring" where
  "generateFromClause nodes es aliases driver =
     (case nodes of
        [] \<Rightarrow> []
      | firstNode # _ \<Rightarrow>
          if es = [] then [NL] @ ''FROM'' @ [NL] @ ''  '' @ join_with ('','' @ [NL] @ ''  '') (generateTableList nodes aliases driver)
          else (case join_loop nodes {qn_id firstNode} es of
                  (joins, processed) \<Rightarrow>
                    [NL] @ ''FROM'' @ [NL] @ ''  '' @ table_item aliases driver firstNode
                    @ concat (map (join_clause aliases driver) joins)
                    @ concat (map (\<lambda>node. '','' @ [NL] @ ''  '' @ table_item aliases driver node)
                        (filter (\<lambda>node. qn_id node \<notin> processed) nodes))))"

section \<open>The other clauses\<close>

definition condition_lines :: "(WhereCondition \<Rightarrow> jsstring) \<Rightarrow> WhereCondition list \<Rightarrow> jsstring list" where
  "condition_lines ref conditions =
     map (\<lambda>(idx, c). (if idx = 0 then [] else (if wc_and c then ''AND '' else ''OR '')) @ ref c @ '' '' @ wc_operator c @ '' '' @ wc_value c)
       (enumerate 0 conditions)"

definition generateWhereClause :: "WhereCondition list \<Rightarrow> DriverArg \<Rightarrow> jsstring" where
  "generateWhereClause conditions driver =
     (let normalConditions = filter (\<lambda>c. \<not> wc_isAggregate c \<and> wc_column c \<noteq> [] \<and> wc_value c \<noteq> []) conditions in
      if normalConditions = [] then []
      else [NL] @ ''WHERE'' @ [NL] @ ''  ''
           @ join_with ([NL] @ ''  '') (condition_lines (\<lambda>c. formatGeneratedColumnRef (wc_column c) driver) normalConditions))"

definition group_columns :: "bool \<Rightarrow> jsstring list \<Rightarrow> jsstring list \<Rightarrow> DriverArg \<Rightarrow> jsstring list" where
  "group_columns hasAggregation nonAggregatedCols manualGroupBy driver =
     (let formatted = map (\<lambda>column. formatGeneratedColumnRef column driver) manualGroupBy in
      if hasAggregation \<and> nonAggregatedCols \<noteq> [] then uniq (nonAggregatedCols @ formatted) else formatted)"

definition generateGroupByClause :: "bool \<Rightarrow> jsstring list \<Rightarrow> jsstring list \<Rightarrow> DriverArg \<Rightarrow> jsstring" where
  "generateGroupByClause hasAggregation nonAggregatedCols manualGroupBy driver =
     (let finalGroupBy = group_columns hasAggregation nonAggregatedCols manualGroupBy driver in
      if finalGroupBy = [] then [] else [NL] @ ''GROUP BY'' @ [NL] @ ''  '' @ join_with ('','' @ [NL] @ ''  '') finalGroupBy)"

definition generateHavingClause :: "WhereCondition list \<Rightarrow> DriverArg \<Rightarrow> jsstring" where
  "generateHavingClause conditions driver =
     (let aggregateConditions = filter (\<lambda>c. wc_isAggregate c \<and> wc_column c \<noteq> [] \<and> wc_value c \<noteq> []) conditions in
      if aggregateConditions = [] then []
      else [NL] @ ''HAVING'' @ [NL] @ ''  ''
           @ join_with ([NL] @ ''  '') (condition_lines (\<lambda>c. formatHavingColumnRef (wc_column c) driver) aggregateConditions))"

definition generateOrderByClause :: "OrderByClause list \<Rightarrow> DriverArg \<Rightarrow> jsstring" where
  "generateOrderByClause orderBy driver =
     (if orderBy = [] then []
      else [NL] @ ''ORDER BY'' @ [NL] @ ''  '' @ join_with ('','' @ [NL] @ ''  '')
        (map (\<lambda>c. formatGeneratedColumnRef (ob_column c) driver @ '' '' @ (if ob_ascending c then ''ASC'' else ''DESC'')) orderBy))"

definition generateLimitClause :: "jsstring \<Rightarrow> jsstring" where
  "generateLimitClause limit = (if limit = [] \<or> trim limit = [] then [] else [NL] @ ''LIMIT '' @ trim limit)"

definition generateVisualQuerySQL ::
  "QueryNode list \<Rightarrow> QueryEdge list \<Rightarrow> WhereCondition list \<Rightarrow> OrderByClause list \<Rightarrow> jsstring list \<Rightarrow> jsstring \<Rightarrow> DriverArg \<Rightarrow> jsstring" where
  "generateVisualQuerySQL nodes es whereConditions orderBy groupBy limit driver =
     (if nodes = [] then []
      else (let aliases = collectTableAliases nodes in
            case collectSelectedColumns nodes aliases driver of
              (columns, hasAggregation, nonAggregatedCols) \<Rightarrow>
                ''SELECT'' @ [NL] @ generateSelectClause columns @ generateFromClause nodes es aliases driver
                @ generateWhereClause whereConditions driver
                @ generateGroupByClause hasAggregation nonAggregatedCols groupBy driver
                @ generateHavingClause whereConditions driver @ generateOrderByClause orderBy driver
                @ generateLimitClause limit))"

section \<open>Which tables are joined\<close>

text \<open>An edge links two tables when they are its ends, in either direction.\<close>

definition links :: "QueryEdge \<Rightarrow> jsstring \<Rightarrow> jsstring \<Rightarrow> bool" where
  "links e i j \<longleftrightarrow> (qe_source e = i \<and> qe_target e = j) \<or> (qe_source e = j \<and> qe_target e = i)"

inductive joined_to :: "QueryNode list \<Rightarrow> QueryEdge list \<Rightarrow> jsstring \<Rightarrow> jsstring \<Rightarrow> bool" for nodes es i where
  start: "joined_to nodes es i i"
| link: "joined_to nodes es i j \<Longrightarrow> e \<in> set es \<Longrightarrow> links e j k \<Longrightarrow> k \<in> qn_id ` set nodes \<Longrightarrow> joined_to nodes es i k"

text \<open>Every join brings in a new table, by an edge to a table listed before it.\<close>

fun joins_in_order :: "QueryNode list \<Rightarrow> QueryEdge list \<Rightarrow> jsstring set \<Rightarrow> (QueryEdge \<times> QueryNode) list \<Rightarrow> bool" where
  "joins_in_order nodes es listed [] \<longleftrightarrow> True"
| "joins_in_order nodes es listed ((e, n) # js) \<longleftrightarrow>
     e \<in> set es \<and> n \<in> set nodes \<and> qn_id n \<notin> listed \<and> (\<exists>i \<in> listed. links e i (qn_id n))
     \<and> joins_in_order nodes es (insert (qn_id n) listed) js"

text \<open>An edge that leaves a set of tables for another table.\<close>

definition leaves :: "QueryNode list \<Rightarrow> jsstring set \<Rightarrow> QueryEdge \<Rightarrow> bool" where
  "leaves nodes P e \<longleftrightarrow> (\<exists>i \<in> P. \<exists>j \<in> qn_id ` set nodes - P. links e i j)"

lemma find_id: "find (\<lambda>n. qn_id n = i) nodes = Some n \<Longrightarrow> n \<in> set nodes \<and> qn_id n = i"
  by (auto simp: find_Some_iff)

lemma find_no_id: "find (\<lambda>n. qn_id n = i) nodes = None \<longleftrightarrow> i \<notin> qn_id ` set nodes"
  by (auto simp: find_None_iff)

lemma scan_edges_kept:
  "scan_edges nodes P es = (r, rest) \<Longrightarrow>
   set rest \<subseteq> set es
   \<and> (\<forall>e \<in> set es. e \<in> set rest \<or> (qe_source e \<in> P \<and> qe_target e \<in> P) \<or> (\<exists>n. r = Some (e, n)))"
proof (induction es arbitrary: rest)
  case (Cons e es)
  obtain r' rest' where s: "scan_edges nodes P es = (r', rest')" by (cases "scan_edges nodes P es")
  from Cons.IH [of rest'] s Cons.prems show ?case
    by (auto simp: Let_def split: if_splits option.splits)
qed simp

lemma scan_edges_found:
  "scan_edges nodes P es = (Some (e, n), rest) \<Longrightarrow>
   e \<in> set es \<and> n \<in> set nodes \<and> qn_id n \<notin> P \<and> (\<exists>i \<in> P. links e i (qn_id n))"
proof (induction es arbitrary: rest)
  case (Cons d es)
  obtain r' rest' where s: "scan_edges nodes P es = (r', rest')" by (cases "scan_edges nodes P es")
  have IH: "e \<in> set (d # es) \<and> n \<in> set nodes \<and> qn_id n \<notin> P \<and> (\<exists>i \<in> P. links e i (qn_id n))" if "r' = Some (e, n)"
    using Cons.IH [of rest'] s that by simp
  show ?case
  proof (cases "qe_source d \<in> P \<longleftrightarrow> qe_target d \<in> P")
    case True
    with Cons.prems s have "r' = Some (e, n)" by (auto simp: Let_def split: if_splits)
    then show ?thesis by (rule IH)
  next
    case False
    let ?other = "if qe_source d \<in> P then qe_target d else qe_source d"
    show ?thesis
    proof (cases "find (\<lambda>n. qn_id n = ?other) nodes")
      case None
      with Cons.prems s False have "r' = Some (e, n)" by (auto simp: Let_def split: if_splits)
      then show ?thesis by (rule IH)
    next
      case (Some m)
      with Cons.prems False have "e = d" "n = m" by (auto simp: Let_def split: if_splits)
      moreover have "m \<in> set nodes" "qn_id m = ?other" using find_id [OF Some] by blast+
      ultimately show ?thesis using False by (auto simp: links_def split: if_splits)
    qed
  qed
qed simp

lemma scan_edges_none:
  "scan_edges nodes P es = (None, rest) \<Longrightarrow> \<forall>e \<in> set es. \<not> leaves nodes P e"
proof (induction es arbitrary: rest)
  case (Cons d es)
  obtain r' rest' where s: "scan_edges nodes P es = (r', rest')" by (cases "scan_edges nodes P es")
  have "r' = None" using Cons.prems s by (auto simp: Let_def split: if_splits option.splits)
  then have IH: "\<forall>e \<in> set es. \<not> leaves nodes P e" using Cons.IH s by blast
  have "\<not> leaves nodes P d"
    using Cons.prems find_no_id by (auto simp: Let_def leaves_def links_def split: if_splits option.splits)
  with IH show ?case by simp
qed simp

lemma leaves_both: "qe_source e \<in> P \<Longrightarrow> qe_target e \<in> P \<Longrightarrow> \<not> leaves nodes P e"
  by (auto simp: leaves_def links_def)

lemma joins_in_order_mono: "set es \<subseteq> set es' \<Longrightarrow> joins_in_order nodes es P js \<Longrightarrow> joins_in_order nodes es' P js"
  by (induction nodes es P js rule: joins_in_order.induct) auto

lemma join_loop_spec:
  "join_loop nodes P es = (js, Q) \<Longrightarrow>
   joins_in_order nodes es P js \<and> Q = P \<union> qn_id ` snd ` set js \<and> (\<forall>e \<in> set es. \<not> leaves nodes Q e)"
proof (induction nodes P es arbitrary: js rule: join_loop.induct)
  case (1 nodes P es)
  obtain r rest where s: "scan_edges nodes P es = (r, rest)" by (cases "scan_edges nodes P es")
  show ?case
  proof (cases r)
    case None
    with s 1(2) have "js = []" "Q = P" by (simp_all add: join_loop.simps [of nodes P es])
    with scan_edges_none s None show ?thesis by auto
  next
    case (Some j)
    obtain e n where j: "j = (e, n)" by (cases j)
    obtain js' where js': "join_loop nodes (insert (qn_id n) P) rest = (js', Q)" "js = (e, n) # js'"
      using 1(2) s Some j by (auto simp: join_loop.simps [of nodes P es] map_prod_def split: prod.splits)
    have IH: "joins_in_order nodes rest (insert (qn_id n) P) js'" "Q = insert (qn_id n) P \<union> qn_id ` snd ` set js'"
      "\<forall>e \<in> set rest. \<not> leaves nodes Q e"
      using 1(1) [OF s [symmetric] _ _ js'(1)] Some j by blast+
    have f: "e \<in> set es" "n \<in> set nodes" "qn_id n \<notin> P" "\<exists>i \<in> P. links e i (qn_id n)"
      using scan_edges_found [OF s [unfolded Some j]] by blast+
    have k: "set rest \<subseteq> set es" "\<And>d. d \<in> set es \<Longrightarrow> d \<in> set rest \<or> (qe_source d \<in> P \<and> qe_target d \<in> P) \<or> d = e"
      using scan_edges_kept [OF s] Some j by auto
    have PQ: "P \<subseteq> Q" "qn_id n \<in> Q" using IH(2) by auto
    have both: "qe_source e \<in> Q" "qe_target e \<in> Q" using f(4) PQ by (auto simp: links_def)
    have "\<not> leaves nodes Q d" if "d \<in> set es" for d
      using k(2) [OF that] IH(3) PQ(1) leaves_both [of d Q nodes] leaves_both [OF both, of nodes] by blast
    then have "\<forall>d \<in> set es. \<not> leaves nodes Q d" by blast
    moreover have "joins_in_order nodes es P js" using joins_in_order_mono [OF k(1) IH(1)] f js'(2) by simp
    ultimately show ?thesis using IH(2) js'(2) by auto
  qed
qed

lemma joins_connected:
  "joins_in_order nodes es P js \<Longrightarrow> (\<And>i. i \<in> P \<Longrightarrow> joined_to nodes es a i) \<Longrightarrow> j \<in> snd ` set js \<Longrightarrow> joined_to nodes es a (qn_id j)"
proof (induction nodes es P js rule: joins_in_order.induct)
  case (2 nodes es P e n js)
  then have "joined_to nodes es a (qn_id n)" by (auto intro: joined_to.link)
  with 2 show ?case by auto
qed simp

lemma joins_distinct:
  "joins_in_order nodes es P js \<Longrightarrow> distinct (map (qn_id \<circ> snd) js) \<and> P \<inter> qn_id ` snd ` set js = {} \<and> snd ` set js \<subseteq> set nodes"
  by (induction nodes es P js rule: joins_in_order.induct) auto

lemma closed_connected:
  assumes "\<forall>e \<in> set es. \<not> leaves nodes Q e" "a \<in> Q"
  shows "joined_to nodes es a i \<Longrightarrow> i \<in> Q"
proof (induction rule: joined_to.induct)
  case (link j e k)
  then show ?case using assms(1) unfolding leaves_def by blast
qed (rule assms(2))

text \<open>C28 (from_joins_the_connected_tables): for tables with ids of their own the FROM clause lists every table exactly once. The tables that joins
  connect with the first one are joined, each by a join with a table listed before it; the others follow
  behind commas, in their order.\<close>

theorem from_joins_the_connected_tables:
  assumes "nodes = firstNode # others" "distinct (map qn_id nodes)"
  shows "\<exists>joins. generateFromClause nodes es aliases driver =
      [NL] @ ''FROM'' @ [NL] @ ''  '' @ table_item aliases driver firstNode @ concat (map (join_clause aliases driver) joins)
      @ concat (map (\<lambda>node. '','' @ [NL] @ ''  '' @ table_item aliases driver node)
          (filter (\<lambda>node. \<not> joined_to nodes es (qn_id firstNode) (qn_id node)) nodes))
    \<and> joins_in_order nodes es {qn_id firstNode} joins
    \<and> distinct (firstNode # map snd joins)
    \<and> set (firstNode # map snd joins) = {node \<in> set nodes. joined_to nodes es (qn_id firstNode) (qn_id node)}"
proof -
  let ?a = "qn_id firstNode"
  let ?item = "\<lambda>node. '','' @ [NL] @ ''  '' @ table_item aliases driver node"
  obtain joins Q where loop: "join_loop nodes {?a} es = (joins, Q)" by (cases "join_loop nodes {?a} es")
  have j: "joins_in_order nodes es {?a} joins" "Q = {?a} \<union> qn_id ` snd ` set joins" "\<forall>e \<in> set es. \<not> leaves nodes Q e"
    using join_loop_spec [OF loop] by blast+
  have d: "distinct (map (qn_id \<circ> snd) joins)" "{?a} \<inter> qn_id ` snd ` set joins = {}" "snd ` set joins \<subseteq> set nodes"
    using joins_distinct [OF j(1)] by blast+
  have sub: "joined_to nodes es ?a (qn_id n)" if "n \<in> snd ` set joins" for n
    using joins_connected [OF j(1) _ that] by (blast intro: joined_to.start)
  have Q: "i \<in> Q \<longleftrightarrow> joined_to nodes es ?a i" for i
    using sub closed_connected [OF j(3), of ?a i] j(2) by (auto intro: joined_to.start)
  have inj: "inj_on qn_id (set nodes)" using assms(2) by (simp only: distinct_map)
  have first: "firstNode \<in> set nodes" by (simp add: assms(1))
  have "set (firstNode # map snd joins) = {node \<in> set nodes. qn_id node \<in> Q}"
    using d(3) first inj by (auto simp: j(2) dest: inj_onD)
  moreover have "distinct (map snd joins)" using distinct_map [of qn_id "map snd joins"] d(1) by simp
  moreover have "firstNode \<notin> set (map snd joins)" using d(2) by auto
  moreover have "generateFromClause nodes es aliases driver =
      [NL] @ ''FROM'' @ [NL] @ ''  '' @ table_item aliases driver firstNode @ concat (map (join_clause aliases driver) joins)
      @ concat (map ?item (filter (\<lambda>node. qn_id node \<notin> Q) nodes))"
  proof (cases "es = []")
    case False
    then show ?thesis using loop by (simp add: generateFromClause_def assms(1))
  next
    case True
    then have e: "joins = []" "Q = {?a}" using loop by (simp_all add: join_loop.simps [of nodes "{?a}"])
    have f: "filter (\<lambda>node. qn_id node \<notin> Q) nodes = others" 
    proof -
      have "filter (\<lambda>node. qn_id node \<noteq> ?a) others = others"
        using assms by (intro filter_True) (metis distinct.simps(2) image_eqI list.set_map list.simps(9))
      then show ?thesis using assms(1) by (simp add: e(2))
    qed
    have "join_with ('','' @ [NL] @ ''  '') (map (table_item aliases driver) (x # xs)) =
        table_item aliases driver x @ concat (map ?item xs)" for x xs
      by (induction xs arbitrary: x) simp_all
    then show ?thesis unfolding f e(1) using True assms(1)
      by (simp add: generateFromClause_def generateTableList_def table_item_def [abs_def])
  qed
  ultimately show ?thesis using j(1) by (intro exI [of _ joins]) (simp add: Q)
qed

definition plain_node :: "jsstring \<Rightarrow> QueryNode" where
  "plain_node i = \<lparr>qn_id = i, qn_label = i, qn_schema = None, qn_selected = [(''id'', True)], qn_aggregations = [], qn_aliases = []\<rparr>"

definition plain_edge :: "jsstring \<Rightarrow> jsstring \<Rightarrow> jsstring \<Rightarrow> jsstring \<Rightarrow> JoinType \<Rightarrow> QueryEdge" where
  "plain_edge s sc t tc j =
     \<lparr>qe_source = s, qe_target = t, qe_sourceHandle = Some sc, qe_targetHandle = Some tc, qe_joinType = Some j\<rparr>"

theorem from_joins_the_connected_tables_witness:
  "\<exists>joins :: (QueryEdge \<times> QueryNode) list. set (plain_node ''a'' # map snd joins) =
     {node \<in> set [plain_node ''a'', plain_node ''b'']. joined_to [plain_node ''a'', plain_node ''b'']
       [plain_edge ''b'' ''x'' ''a'' ''y'' LeftJoin] ''a'' (qn_id node)}"
proof -
  have "plain_node ''a'' # [plain_node ''b''] = plain_node ''a'' # [plain_node ''b'']"
    "distinct (map qn_id [plain_node ''a'', plain_node ''b''])" by code_simp+
  note base = from_joins_the_connected_tables [OF this, of "[plain_edge ''b'' ''x'' ''a'' ''y'' LeftJoin]" "\<lambda>_. []" "ArgId []"]
  have i: "qn_id (plain_node ''a'') = ''a''" by (simp add: plain_node_def)
  from base show ?thesis unfolding i by (rule ex_forward) (elim conjE, assumption)
qed

text \<open>Of two joins between the same tables (a key of two columns) only the first is kept; the rows are matched on
  half of the key. And a cross join keeps its condition.\<close>

theorem second_condition_is_dropped:
  "generateFromClause [plain_node ''a'', plain_node ''b'']
     [plain_edge ''a'' ''k1'' ''b'' ''k1'' InnerJoin, plain_edge ''a'' ''k2'' ''b'' ''k2'' InnerJoin]
     (collectTableAliases [plain_node ''a'', plain_node ''b'']) (ArgId ''postgres'')
   = [NL] @ ''FROM'' @ [NL] @ ''  a t1'' @ [NL] @ ''INNER JOIN b t2 ON t1.k1 = t2.k1''"
  by code_simp

theorem unconnected_conditions_are_dropped:
  "generateFromClause [plain_node ''a'', plain_node ''b'', plain_node ''c'']
     [plain_edge ''b'' ''k'' ''c'' ''k'' InnerJoin]
     (collectTableAliases [plain_node ''a'', plain_node ''b'', plain_node ''c'']) (ArgId ''postgres'')
   = [NL] @ ''FROM'' @ [NL] @ ''  a t1,'' @ [NL] @ ''  b t2,'' @ [NL] @ ''  c t3''
   \<and> generateFromClause [plain_node ''a'', plain_node ''b''] [plain_edge ''a'' ''k'' ''b'' ''k'' CrossJoin]
     (collectTableAliases [plain_node ''a'', plain_node ''b'']) (ArgId ''postgres'')
   = [NL] @ ''FROM'' @ [NL] @ ''  a t1'' @ [NL] @ ''CROSS JOIN b t2 ON t1.k = t2.k''"
  by code_simp

text \<open>A left join drawn from a table that is listed later to one listed before keeps the rows of the wrong side.\<close>

theorem left_join_changes_sides:
  "generateFromClause [plain_node ''a'', plain_node ''b''] [plain_edge ''b'' ''k'' ''a'' ''k'' LeftJoin]
     (collectTableAliases [plain_node ''a'', plain_node ''b'']) (ArgId ''postgres'')
   = [NL] @ ''FROM'' @ [NL] @ ''  a t1'' @ [NL] @ ''LEFT JOIN b t2 ON t2.k = t1.k''"
  by code_simp

section \<open>Grouping\<close>

lemma set_of_map_filter: "set (List.map_filter f xs) = {y. \<exists>x \<in> set xs. f x = Some y}"
  by (induction xs) (auto simp: List.map_filter_simps split: option.split)

text \<open>Property (aggregates_group_the_rest): a selected column is either aggregated, and then its expression starts with the function applied to its
  reference, or it stands for itself, and then, if anything is aggregated, its reference is in the
  GROUP BY list, which names nothing twice.\<close>

theorem aggregates_group_the_rest:
  assumes "collectSelectedColumns nodes aliases driver = (columns, hasAggregation, nonAggregated)"
    and "node \<in> set nodes" "(col, True) \<in> set (qn_selected node)"
  shows "\<exists>c \<in> set columns. sel_colName c = col \<and>
    (case Option.bind (map_of (qn_aggregations node) col) ag_function of
       Some f \<Rightarrow> hasAggregation \<and> (\<exists>rest. sel_expr c = (if f = AggCountDistinct then ''COUNT(DISTINCT '' else agg_name f @ ''('')
           @ formatColumnRef (aliases (qn_id node)) col driver @ '')'' @ rest)
     | None \<Rightarrow> prefix (formatColumnRef (aliases (qn_id node)) col driver) (sel_expr c)
         \<and> (if hasAggregation then
              formatColumnRef (aliases (qn_id node)) col driver \<in> set (group_columns hasAggregation nonAggregated manual driver)
              \<and> distinct (group_columns hasAggregation nonAggregated manual driver)
            else True))"
proof -
  let ?r = "formatColumnRef (aliases (qn_id node)) col driver"
  let ?e = "selected_column node (aliases (qn_id node)) col driver"
  have mem: "?e \<in> set (selected_entries nodes aliases driver)"
    using assms(2,3) unfolding selected_entries_def by (fastforce intro: image_eqI [of _ _ "(col, True)"])
  have c: "columns = map fst (selected_entries nodes aliases driver)"
    "hasAggregation \<longleftrightarrow> list_ex (\<lambda>e. snd e = None) (selected_entries nodes aliases driver)"
    "nonAggregated = List.map_filter snd (selected_entries nodes aliases driver)"
    using assms(1) by (simp_all add: collectSelectedColumns_def Let_def)
  have "fst ?e \<in> set columns" "sel_colName (fst ?e) = col"
    using mem by (auto simp: c(1) selected_column_def Let_def split: option.split)
  moreover have "case Option.bind (map_of (qn_aggregations node) col) ag_function of
       Some f \<Rightarrow> hasAggregation \<and> (\<exists>rest. sel_expr (fst ?e) = (if f = AggCountDistinct then ''COUNT(DISTINCT '' else agg_name f @ ''('')
           @ ?r @ '')'' @ rest)
     | None \<Rightarrow> prefix ?r (sel_expr (fst ?e))
         \<and> (if hasAggregation then ?r \<in> set (group_columns hasAggregation nonAggregated manual driver)
              \<and> distinct (group_columns hasAggregation nonAggregated manual driver) else True)"
  proof (cases "Option.bind (map_of (qn_aggregations node) col) ag_function")
    case None
    then have e: "snd ?e = Some ?r" "prefix ?r (sel_expr (fst ?e))" by (simp_all add: selected_column_def Let_def)
    then have "?r \<in> set nonAggregated" using mem unfolding c(3) set_of_map_filter by blast
    then show ?thesis using None e(2) by (auto simp: group_columns_def Let_def)
  next
    case (Some f)
    then have "snd ?e = None" by (simp add: selected_column_def Let_def)
    then have "hasAggregation" using mem unfolding c(2) list_ex_iff by blast
    then show ?thesis using Some by (simp add: selected_column_def Let_def)
  qed
  ultimately show ?thesis by blast
qed

end
