(* ===== verification/NotebookFile.thy ===== *)
theory NotebookFile
  imports UndoHistory ClipboardText
begin

text \<open>
  The notebook file format and the operations on a notebook's cells (\<open>utils/notebookFile.ts\<close>, \<open>utils/notebook.ts\<close>, the
  moves of \<open>utils/notebookDnd.ts\<close> and the list of \<open>utils/notebookParams.ts\<close>). A file is the JSON value that
  \<open>JSON.stringify\<close> and \<open>JSON.parse\<close> carry; a text that does not parse is \<open>None\<close>. Fresh cell ids come from
  the argument \<open>gen\<close>. Properties of a cell that are not checked are read with the types the file declares; one
  of another type counts as missing.
\<close>

section \<open>Writing\<close>

definition cond_prop :: "bool \<Rightarrow> jsstring \<Rightarrow> jsval \<Rightarrow> (jsstring \<times> jsval) list" where
  "cond_prop b k v = (if b then [(k, v)] else [])"

definition opt_text :: "jsstring option \<Rightarrow> jsval" where
  "opt_text v = (case v of Some s \<Rightarrow> JStr s | None \<Rightarrow> JUndefined)"

fun present_value :: "jsval \<Rightarrow> bool" where
  "present_value JUndefined = False"
| "present_value JNull = False"
| "present_value _ = True"

definition serialize_cell :: "NotebookCell \<Rightarrow> jsval" where
  "serialize_cell c = JObj
     ([(''type'', JStr (type_str (cell_type c))), (''content'', JStr (content c))]
      @ cond_prop (truthy (opt_text (cell_name c))) ''name'' (opt_text (cell_name c))
      @ cond_prop (truthy (opt_text (cell_schema c))) ''schema'' (opt_text (cell_schema c))
      @ cond_prop (truthy (chartConfig c)) ''chartConfig'' (chartConfig c)
      @ cond_prop (isParallel c) ''isParallel'' (JBool (isParallel c))
      @ cond_prop (isCollapsed c) ''isCollapsed'' (JBool (isCollapsed c))
      @ cond_prop (isQueryCollapsed c) ''isQueryCollapsed'' (JBool (isQueryCollapsed c))
      @ cond_prop (isResultCollapsed c) ''isResultCollapsed'' (JBool (isResultCollapsed c))
      @ cond_prop (present_value (isChartVisible c)) ''isChartVisible'' (isChartVisible c)
      @ cond_prop (present_value (isQueryPlanVisible c)) ''isQueryPlanVisible'' (isQueryPlanVisible c))"

definition serializeNotebook ::
  "jsstring \<Rightarrow> jsstring \<Rightarrow> NotebookCell list \<Rightarrow> jsval list \<Rightarrow> bool \<Rightarrow> jsstring option \<Rightarrow> jsval" where
  "serializeNotebook createdAt title cs ps stop connectionId = JObj
     ([(''version'', JNum 2 0), (''title'', JStr title), (''createdAt'', JStr createdAt)]
      @ cond_prop (truthy (opt_text connectionId)) ''connectionId'' (opt_text connectionId)
      @ [(''cells'', JArr (map serialize_cell cs))]
      @ cond_prop (ps \<noteq> []) ''params'' (JArr ps)
      @ cond_prop stop ''stopOnError'' (JBool stop))"

section \<open>Reading\<close>

definition validateParamName :: "jsstring \<Rightarrow> bool" where
  "validateParamName name \<longleftrightarrow> name \<noteq> [] \<and> list_all is_ident_char name"

text \<open>A missing property and a value that is no object read as \<open>undefined\<close>.\<close>

definition prop_of :: "jsval \<Rightarrow> jsstring \<Rightarrow> jsval" where
  "prop_of v k = (case v of JObj kvs \<Rightarrow> get_prop kvs k | _ \<Rightarrow> JUndefined)"

definition good_param :: "jsval \<Rightarrow> bool" where
  "good_param p \<longleftrightarrow>
     (case prop_of p ''name'' of JStr name \<Rightarrow> validateParamName name | _ \<Rightarrow> False)
     \<and> (case prop_of p ''value'' of JStr _ \<Rightarrow> True | _ \<Rightarrow> False)"

definition sanitizeParams :: "jsval \<Rightarrow> jsval list" where
  "sanitizeParams raw = (case raw of JArr ps \<Rightarrow> filter good_param ps | _ \<Rightarrow> [])"

definition valid_cell :: "jsval \<Rightarrow> bool" where
  "valid_cell c \<longleftrightarrow>
     (prop_of c ''type'' = JStr ''sql'' \<or> prop_of c ''type'' = JStr ''markdown'')
     \<and> (case prop_of c ''content'' of JStr _ \<Rightarrow> True | _ \<Rightarrow> False)"

definition validateNotebookFile :: "jsval \<Rightarrow> bool" where
  "validateNotebookFile data \<longleftrightarrow>
     (case prop_of data ''version'' of JNum _ _ \<Rightarrow> True | _ \<Rightarrow> False)
     \<and> (case prop_of data ''title'' of JStr _ \<Rightarrow> True | _ \<Rightarrow> False)
     \<and> (case prop_of data ''cells'' of JArr cs \<Rightarrow> list_all valid_cell cs | _ \<Rightarrow> False)"

definition text_of :: "jsval \<Rightarrow> jsstring option" where
  "text_of v = (case v of JStr s \<Rightarrow> Some s | _ \<Rightarrow> None)"

definition deserialize_cell :: "jsstring \<Rightarrow> jsval \<Rightarrow> NotebookCell" where
  "deserialize_cell i c =
     \<lparr>cell_id = i,
      cell_type = (if prop_of c ''type'' = JStr ''markdown'' then Markdown else Sql),
      content = (case text_of (prop_of c ''content'') of Some s \<Rightarrow> s | None \<Rightarrow> []),
      cell_name = text_of (prop_of c ''name''), cell_schema = text_of (prop_of c ''schema''),
      cell_result = JNull, cell_error = None, cell_executionTime = JNull, cell_isLoading = False,
      isPreview = (prop_of c ''type'' = JStr ''markdown''),
      chartConfig = null_if_undefined (prop_of c ''chartConfig''), resultHeight = JUndefined,
      isParallel = truthy (prop_of c ''isParallel''), isCollapsed = truthy (prop_of c ''isCollapsed''),
      isQueryCollapsed = truthy (prop_of c ''isQueryCollapsed''),
      isResultCollapsed = truthy (prop_of c ''isResultCollapsed''),
      isChartVisible = prop_of c ''isChartVisible'', isQueryPlanVisible = prop_of c ''isQueryPlanVisible''\<rparr>"

datatype NotebookError = InvalidJson | InvalidNotebookFormat

definition deserializeNotebook :: "(nat \<Rightarrow> jsstring) \<Rightarrow> jsval option \<Rightarrow> NotebookError + (jsstring \<times> NotebookState)" where
  "deserializeNotebook gen json =
     (case json of
        None \<Rightarrow> Inl InvalidJson
      | Some data \<Rightarrow>
          if \<not> validateNotebookFile data then Inl InvalidNotebookFormat
          else Inr ((case text_of (prop_of data ''title'') of Some s \<Rightarrow> s | None \<Rightarrow> []),
                    \<lparr>cells = (case prop_of data ''cells'' of
                        JArr cs \<Rightarrow> map (\<lambda>(k, c). deserialize_cell (gen k) c) (enumerate 0 cs) | _ \<Rightarrow> []),
                     stopOnError = (prop_of data ''stopOnError'' = JBool True),
                     nb_params = sanitizeParams (prop_of data ''params'')\<rparr>))"

section \<open>Cells\<close>

definition createEmptyCell :: "jsstring \<Rightarrow> CellType \<Rightarrow> NotebookCell" where
  "createEmptyCell i t =
     \<lparr>cell_id = i, cell_type = t, content = [], cell_name = None, cell_schema = None, cell_result = JNull,
      cell_error = None, cell_executionTime = JNull, cell_isLoading = False, isPreview = False,
      chartConfig = JUndefined, resultHeight = JUndefined, isParallel = False, isCollapsed = False,
      isQueryCollapsed = False, isResultCollapsed = False, isChartVisible = JUndefined,
      isQueryPlanVisible = JUndefined\<rparr>"

definition createDefaultNotebookState :: "jsstring \<Rightarrow> NotebookState" where
  "createDefaultNotebookState i = \<lparr>cells = [createEmptyCell i Sql], stopOnError = False, nb_params = []\<rparr>"

definition updateCellInCells :: "NotebookCell list \<Rightarrow> jsstring \<Rightarrow> (NotebookCell \<Rightarrow> NotebookCell) \<Rightarrow> NotebookCell list" where
  "updateCellInCells cs cellId partial = map (\<lambda>c. if cell_id c = cellId then partial c else c) cs"

text \<open>The callers pass an index of a cell, or -1 for a new first one.\<close>

definition addCellToCells :: "NotebookCell list \<Rightarrow> jsstring \<Rightarrow> CellType \<Rightarrow> int option \<Rightarrow> NotebookCell list" where
  "addCellToCells cs i t afterIndex =
     splice_in (case afterIndex of Some k \<Rightarrow> nat (k + 1) | None \<Rightarrow> length cs) (createEmptyCell i t) cs"

definition removeCellFromCells :: "NotebookCell list \<Rightarrow> jsstring \<Rightarrow> NotebookCell list" where
  "removeCellFromCells cs cellId = filter (\<lambda>c. cell_id c \<noteq> cellId) cs"

definition moveCellInCells :: "NotebookCell list \<Rightarrow> jsstring \<Rightarrow> int \<Rightarrow> NotebookCell list" where
  "moveCellInCells cs cellId direction =
     (case find_index (\<lambda>c. cell_id c = cellId) cs of
        None \<Rightarrow> cs
      | Some idx \<Rightarrow>
          (let newIdx = int idx + direction in
           if newIdx < 0 \<or> newIdx \<ge> int (length cs) then cs
           else cs[idx := cs ! nat newIdx, nat newIdx := cs ! idx]))"

definition extractSqlFromCells :: "NotebookCell list \<Rightarrow> jsstring" where
  "extractSqlFromCells cs =
     join_with [NL, NL] (map (\<lambda>c. trim (content c)) (filter (\<lambda>c. cell_type c = Sql \<and> trim (content c) \<noteq> []) cs))"

definition reorderCells :: "'a list \<Rightarrow> int \<Rightarrow> int \<Rightarrow> 'a list" where
  "reorderCells cs fromIndex toIndex =
     (if fromIndex = toIndex then cs
      else if fromIndex < 0 \<or> fromIndex \<ge> int (length cs) then cs
      else if toIndex < 0 \<or> toIndex \<ge> int (length cs) then cs
      else splice_in (nat toIndex) (cs ! nat fromIndex) (take (nat fromIndex) cs @ drop (Suc (nat fromIndex)) cs))"

definition moveCell :: "'a list \<Rightarrow> int \<Rightarrow> int \<Rightarrow> 'a list" where
  "moveCell cs fromIndex insertAt =
     (if fromIndex < 0 \<or> fromIndex \<ge> int (length cs) then cs
      else if insertAt < 0 \<or> insertAt > int (length cs) then cs
      else if insertAt = fromIndex \<or> insertAt = fromIndex + 1 then cs
      else splice_in (nat (if insertAt > fromIndex then insertAt - 1 else insertAt)) (cs ! nat fromIndex)
             (take (nat fromIndex) cs @ drop (Suc (nat fromIndex)) cs))"

section \<open>A file read back\<close>

text \<open>What a cell is after saving and loading: everything that is written comes back, empty names are dropped, results
  and other things of the running session are gone.\<close>

definition filled :: "jsstring option \<Rightarrow> jsstring option" where
  "filled v = (if v = Some [] then None else v)"

definition reloaded :: "jsstring \<Rightarrow> NotebookCell \<Rightarrow> NotebookCell" where
  "reloaded i c = c\<lparr>cell_id := i, cell_name := filled (cell_name c), cell_schema := filled (cell_schema c),
     cell_result := JNull, cell_error := None, cell_executionTime := JNull, cell_isLoading := False,
     isPreview := (cell_type c = Markdown),
     chartConfig := (if truthy (chartConfig c) then chartConfig c else JNull), resultHeight := JUndefined,
     isChartVisible := (if present_value (isChartVisible c) then isChartVisible c else JUndefined),
     isQueryPlanVisible := (if present_value (isQueryPlanVisible c) then isQueryPlanVisible c else JUndefined)\<rparr>"

lemma get_prop_append:
  "get_prop (xs @ ys) k = (case map_of xs k of Some v \<Rightarrow> v | None \<Rightarrow> get_prop ys k)"
  by (simp add: get_prop_def map_add_def split: option.split)

lemma map_of_cond_prop: "map_of (cond_prop b k v) k' = (if b \<and> k' = k then Some v else None)"
  by (simp add: cond_prop_def)

lemma get_prop_cond_prop: "get_prop (cond_prop b k v) k' = (if b \<and> k' = k then v else JUndefined)"
  by (simp add: cond_prop_def get_prop_def)

lemma get_prop_cases: "get_prop ((k', v) # kvs) k = (if k = k' then v else get_prop kvs k)" "get_prop [] k = JUndefined"
  by (simp_all add: get_prop_def)

lemmas prop_simps = get_prop_append map_of_cond_prop get_prop_cond_prop get_prop_cases

lemma cell_props:
  "prop_of (serialize_cell c) ''type'' = JStr (type_str (cell_type c))"
  "prop_of (serialize_cell c) ''content'' = JStr (content c)"
  "prop_of (serialize_cell c) ''name'' = (if truthy (opt_text (cell_name c)) then opt_text (cell_name c) else JUndefined)"
  "prop_of (serialize_cell c) ''schema'' = (if truthy (opt_text (cell_schema c)) then opt_text (cell_schema c) else JUndefined)"
  "prop_of (serialize_cell c) ''chartConfig'' = (if truthy (chartConfig c) then chartConfig c else JUndefined)"
  "prop_of (serialize_cell c) ''isParallel'' = (if isParallel c then JBool True else JUndefined)"
  "prop_of (serialize_cell c) ''isCollapsed'' = (if isCollapsed c then JBool True else JUndefined)"
  "prop_of (serialize_cell c) ''isQueryCollapsed'' = (if isQueryCollapsed c then JBool True else JUndefined)"
  "prop_of (serialize_cell c) ''isResultCollapsed'' = (if isResultCollapsed c then JBool True else JUndefined)"
  "prop_of (serialize_cell c) ''isChartVisible'' = (if present_value (isChartVisible c) then isChartVisible c else JUndefined)"
  "prop_of (serialize_cell c) ''isQueryPlanVisible'' = (if present_value (isQueryPlanVisible c) then isQueryPlanVisible c else JUndefined)"
  unfolding serialize_cell_def prop_of_def jsval.case by (simp_all add: prop_simps)

lemma filled_text: "text_of (if truthy (opt_text v) then opt_text v else JUndefined) = filled v"
  by (cases v) (auto simp: opt_text_def text_of_def filled_def)

lemma type_str_markdown: "JStr (type_str t) = JStr ''markdown'' \<longleftrightarrow> t = Markdown"
  by (cases t) simp_all

lemma deserialize_serialize_cell: "deserialize_cell i (serialize_cell c) = reloaded i c"
proof -
  have t: "(if cell_type c = Markdown then Markdown else Sql) = cell_type c" by (cases "cell_type c") simp_all
  have n: "null_if_undefined (if truthy v then v else JUndefined) = (if truthy v then v else JNull)" for v
    by (cases v) (simp_all add: null_if_undefined_def)
  have b: "truthy (if d then JBool True else JUndefined) = d" for d by simp
  have content: "(case text_of (JStr (content c)) of Some s \<Rightarrow> s | None \<Rightarrow> []) = content c" by (simp add: text_of_def)
  show ?thesis
    unfolding deserialize_cell_def cell_props type_str_markdown filled_text n b t content by (simp add: reloaded_def)
qed

lemma valid_serialized_cell: "valid_cell (serialize_cell c)"
  unfolding valid_cell_def cell_props by (cases "cell_type c") simp_all

lemma file_props:
  fixes createdAt title :: jsstring and cs :: "NotebookCell list" and ps :: "jsval list" and stop :: bool and connectionId :: "jsstring option"
  defines "file \<equiv> serializeNotebook createdAt title cs ps stop connectionId"
  shows "prop_of file ''version'' = JNum 2 0" "prop_of file ''title'' = JStr title"
    "prop_of file ''cells'' = JArr (map serialize_cell cs)"
    "prop_of file ''params'' = (if ps \<noteq> [] then JArr ps else JUndefined)"
    "prop_of file ''stopOnError'' = (if stop then JBool True else JUndefined)"
  unfolding file_def serializeNotebook_def prop_of_def jsval.case by (simp_all add: prop_simps)

text \<open>C27 (notebook_file_reads_back): a saved notebook always loads again, with its title, every cell in order with everything that is
  saved of it, the setting for errors and the parameters with proper names.\<close>

theorem notebook_file_reads_back:
  "deserializeNotebook gen (Some (serializeNotebook createdAt title cs ps stop connectionId)) =
     Inr (title, \<lparr>cells = map (\<lambda>(k, c). reloaded (gen k) c) (enumerate 0 cs), stopOnError = stop,
                  nb_params = filter good_param ps\<rparr>)"
proof -
  let ?file = "serializeNotebook createdAt title cs ps stop connectionId"
  have "validateNotebookFile ?file"
    unfolding validateNotebookFile_def file_props by (simp add: list_all_iff valid_serialized_cell)
  moreover have "map (\<lambda>(k, c). deserialize_cell (gen k) c) (enumerate 0 (map serialize_cell cs)) =
      map (\<lambda>(k, c). reloaded (gen k) c) (enumerate 0 cs)"
    by (rule nth_equalityI) (simp_all add: nth_enumerate_eq deserialize_serialize_cell)
  moreover have "sanitizeParams (if ps \<noteq> [] then JArr ps else JUndefined) = filter good_param ps"
    by (simp add: sanitizeParams_def)
  ultimately show ?thesis
    unfolding deserializeNotebook_def option.case file_props by (simp add: text_of_def)
qed

text \<open>Loading twice changes nothing more.\<close>

lemma reloaded_again: "reloaded i (reloaded j c) = reloaded i c"
  by (auto simp: reloaded_def filled_def)

section \<open>Moving cells\<close>

lemma moveCell_up:
  assumes "0 \<le> fromIndex" "fromIndex < int (length cs)" "0 \<le> insertAt" "insertAt \<le> fromIndex"
  shows "moveCell cs fromIndex insertAt =
    take (nat insertAt) cs @ cs ! nat fromIndex # drop (nat insertAt) (take (nat fromIndex) cs) @ drop (Suc (nat fromIndex)) cs"
proof -
  obtain i k where ik: "fromIndex = int i" "insertAt = int k" "k \<le> i" "i < length cs"
    using assms by (metis nat_0_le nat_le_eq_zle nat_less_iff)
  have id: "take i cs @ cs ! i # drop (Suc i) cs = cs" using ik(4) by (rule id_take_nth_drop [symmetric])
  show ?thesis
  proof (cases "k = i")
    case True
    then show ?thesis using id by (simp add: moveCell_def ik)
  next
    case False
    then show ?thesis using ik by (simp add: moveCell_def splice_in_def)
  qed
qed

lemma moveCell_down:
  assumes "0 \<le> fromIndex" "fromIndex < int (length cs)" "fromIndex < insertAt" "insertAt \<le> int (length cs)"
  shows "moveCell cs fromIndex insertAt =
    take (nat fromIndex) cs @ drop (Suc (nat fromIndex)) (take (nat insertAt) cs) @ cs ! nat fromIndex # drop (nat insertAt) cs"
proof -
  obtain i k where ik: "fromIndex = int i" "insertAt = int k" "i < k" "k \<le> length cs"
    using assms by (metis less_imp_le nat_0_le nat_le_iff of_nat_less_iff order_trans)
  have id: "take i cs @ cs ! i # drop (Suc i) cs = cs" using ik(3,4) by (intro id_take_nth_drop [symmetric]) simp
  show ?thesis
  proof (cases "k = Suc i")
    case True
    then show ?thesis using id ik by (simp add: moveCell_def nat_add_distrib)
  next
    case False
    then have "nat (int k - 1) = k - 1" "Suc i \<le> k - 1 + 1" using ik by simp_all
    moreover have "take (k - 1) (take i cs @ drop (Suc i) cs) = take i cs @ drop (Suc i) (take k cs)"
      using ik False by (simp add: take_drop)
    moreover have "drop (k - 1) (take i cs @ drop (Suc i) cs) = drop k cs" using ik False by simp
    ultimately show ?thesis using ik False by (simp add: moveCell_def splice_in_def)
  qed
qed

text \<open>Property (reorderCells_is_moveCell): for indices of cells the two ways of moving a cell agree: to move it to an index is to move it to the gap
  in front of that index, or behind it when moving down.\<close>

theorem reorderCells_is_moveCell:
  assumes "0 \<le> fromIndex" "fromIndex < int (length cs)" "0 \<le> toIndex" "toIndex < int (length cs)"
  shows "reorderCells cs fromIndex toIndex = moveCell cs fromIndex (if toIndex > fromIndex then toIndex + 1 else toIndex)"
  using assms by (auto simp: reorderCells_def moveCell_def)

end
