(* ===== verification/NotebookStore.thy ===== *)
theory NotebookStore
  imports NotebookFile
begin

text \<open>
  The store of open notebooks (\<open>utils/notebookStore.ts\<close>). The five module maps are the fields of a record, a pending
  debounce timer is an id in \<open>nb_timers\<close>. An \<open>async\<close> function is cut at its \<open>await\<close>s, one definition per piece.
  Every call of the client is appended to \<open>nb_calls\<close>; the client is a number, the time that goes into a file
  and new ids are arguments. The event that tells the sidebar to refresh and log messages are left out.
\<close>

datatype NotebookCall =
    SaveNotebook nat jsstring jsstring jsval
  | CreateNotebook nat jsstring jsstring jsval
  | LoadNotebook nat jsstring jsstring
  | RenameNotebook nat jsstring jsstring jsstring
  | DeleteNotebook nat jsstring jsstring

record NbStore =
  nb_cache :: "jsstring \<Rightarrow> NotebookState option"
  nb_titles :: "jsstring \<Rightarrow> jsstring option"
  nb_connections :: "jsstring \<Rightarrow> jsstring option"
  nb_clients :: "jsstring \<Rightarrow> nat option"
  nb_timers :: "jsstring list"
  nb_calls :: "NotebookCall list"

definition empty_store :: NbStore where
  "empty_store = \<lparr>nb_cache = (\<lambda>_. None), nb_titles = (\<lambda>_. None), nb_connections = (\<lambda>_. None),
     nb_clients = (\<lambda>_. None), nb_timers = [], nb_calls = []\<rparr>"

definition call :: "NotebookCall \<Rightarrow> NbStore \<Rightarrow> NbStore" where
  "call c s = s\<lparr>nb_calls := nb_calls s @ [c]\<rparr>"

definition clear_timer :: "jsstring \<Rightarrow> NbStore \<Rightarrow> NbStore" where
  "clear_timer i s = s\<lparr>nb_timers := filter (\<lambda>j. j \<noteq> i) (nb_timers s)\<rparr>"

section \<open>Saving\<close>

definition serializeForDisk :: "jsstring \<Rightarrow> jsstring \<Rightarrow> NotebookState \<Rightarrow> NbStore \<Rightarrow> jsval" where
  "serializeForDisk now i st s =
     serializeNotebook now (case nb_titles s i of Some t \<Rightarrow> t | None \<Rightarrow> ''Notebook'')
       (cells st) (nb_params st) (stopOnError st) (nb_connections s i)"

text \<open>\<open>persist\<close> asks for the save; without a connection (or with an empty one) or a client it does nothing.\<close>

definition persist :: "jsstring \<Rightarrow> jsval \<Rightarrow> NbStore \<Rightarrow> NbStore" where
  "persist i file s =
     (case (nb_connections s i, nb_clients s i) of
        (Some conn, Some c) \<Rightarrow> if conn = [] then s else call (SaveNotebook c conn i file) s
      | _ \<Rightarrow> s)"

definition save_cached :: "jsstring \<Rightarrow> jsstring \<Rightarrow> NbStore \<Rightarrow> NbStore" where
  "save_cached now i s =
     (case nb_cache s i of None \<Rightarrow> s | Some st \<Rightarrow> persist i (serializeForDisk now i st s) s)"

definition flushSave :: "jsstring \<Rightarrow> jsstring \<Rightarrow> NbStore \<Rightarrow> NbStore" where
  "flushSave now i s = save_cached now i (clear_timer i s)"

text \<open>A timer that is set again keeps its place in the map.\<close>

definition scheduleSave :: "jsstring \<Rightarrow> NbStore \<Rightarrow> NbStore" where
  "scheduleSave i s =
     s\<lparr>nb_timers := (if i \<in> set (nb_timers s) then nb_timers s else nb_timers s @ [i])\<rparr>"

definition timer_runs :: "jsstring \<Rightarrow> jsstring \<Rightarrow> NbStore \<Rightarrow> NbStore" where
  "timer_runs now i s = save_cached now i (clear_timer i s)"

section \<open>Operations\<close>

definition getNotebookState :: "NbStore \<Rightarrow> jsstring \<Rightarrow> NotebookState option" where
  "getNotebookState s i = nb_cache s i"

definition getNotebookTitle :: "NbStore \<Rightarrow> jsstring \<Rightarrow> jsstring option" where
  "getNotebookTitle s i = nb_titles s i"

definition setNotebookState :: "jsstring \<Rightarrow> NotebookState \<Rightarrow> NbStore \<Rightarrow> NbStore" where
  "setNotebookState i st s = scheduleSave i (s\<lparr>nb_cache := (nb_cache s)(i \<mapsto> st)\<rparr>)"

definition setNotebookTitle :: "jsstring \<Rightarrow> jsstring \<Rightarrow> NbStore \<Rightarrow> NbStore" where
  "setNotebookTitle i title s = scheduleSave i (s\<lparr>nb_titles := (nb_titles s)(i \<mapsto> title)\<rparr>)"

text \<open>\<open>loadNotebook\<close>: up to its call, which is left out when the notebook is cached, and from the answer on. \<open>None\<close> is
  a file that does not exist; a file that cannot be read rejects the promise and changes nothing.\<close>

definition loadNotebook :: "jsstring \<Rightarrow> jsstring \<Rightarrow> nat \<Rightarrow> NbStore \<Rightarrow> NbStore" where
  "loadNotebook i conn c s =
     (let s = s\<lparr>nb_connections := (nb_connections s)(i \<mapsto> conn), nb_clients := (nb_clients s)(i \<mapsto> c)\<rparr> in
      if nb_cache s i \<noteq> None then s else call (LoadNotebook c conn i) s)"

definition notebook_loaded :: "(nat \<Rightarrow> jsstring) \<Rightarrow> jsstring \<Rightarrow> jsval option option \<Rightarrow> NbStore \<Rightarrow> NbStore" where
  "notebook_loaded gen i answer s =
     (case answer of
        None \<Rightarrow> s\<lparr>nb_cache := (nb_cache s)(i \<mapsto> createDefaultNotebookState (gen 0)),
                  nb_titles := (nb_titles s)(i \<mapsto> ''Notebook'')\<rparr>
      | Some json \<Rightarrow>
          (case deserializeNotebook gen json of
             Inl _ \<Rightarrow> s
           | Inr (title, st) \<Rightarrow> s\<lparr>nb_cache := (nb_cache s)(i \<mapsto> st), nb_titles := (nb_titles s)(i \<mapsto> title)\<rparr>))"

definition createNotebookFromState ::
  "jsstring \<Rightarrow> jsstring \<Rightarrow> jsstring \<Rightarrow> NotebookState \<Rightarrow> jsstring \<Rightarrow> nat \<Rightarrow> NbStore \<Rightarrow> NbStore" where
  "createNotebookFromState now i title st conn c s =
     (let s = s\<lparr>nb_titles := (nb_titles s)(i \<mapsto> title), nb_connections := (nb_connections s)(i \<mapsto> conn),
                 nb_clients := (nb_clients s)(i \<mapsto> c), nb_cache := (nb_cache s)(i \<mapsto> st)\<rparr>
      in call (CreateNotebook c conn i (serializeForDisk now i st s)) s)"

definition createNotebook :: "jsstring \<Rightarrow> jsstring \<Rightarrow> jsstring \<Rightarrow> jsstring \<Rightarrow> jsstring \<Rightarrow> nat \<Rightarrow> NbStore \<Rightarrow> NbStore" where
  "createNotebook now cellId i title conn c s =
     createNotebookFromState now i title (createDefaultNotebookState cellId) conn c s"

definition forget :: "jsstring \<Rightarrow> NbStore \<Rightarrow> NbStore" where
  "forget i s =
     s\<lparr>nb_cache := (nb_cache s)(i := None), nb_titles := (nb_titles s)(i := None),
       nb_connections := (nb_connections s)(i := None), nb_clients := (nb_clients s)(i := None)\<rparr>"

definition deleteNotebook :: "jsstring \<Rightarrow> jsstring \<Rightarrow> nat \<Rightarrow> NbStore \<Rightarrow> NbStore" where
  "deleteNotebook i conn c s = call (DeleteNotebook c conn i) (forget i (clear_timer i s))"

definition renameNotebook :: "jsstring \<Rightarrow> jsstring \<Rightarrow> jsstring \<Rightarrow> jsstring \<Rightarrow> nat \<Rightarrow> NbStore \<Rightarrow> NbStore" where
  "renameNotebook now i title conn c s =
     (let s = s\<lparr>nb_connections := (nb_connections s)(i \<mapsto> conn), nb_clients := (nb_clients s)(i \<mapsto> c)\<rparr> in
      if nb_cache s i \<noteq> None then flushSave now i (s\<lparr>nb_titles := (nb_titles s)(i \<mapsto> title)\<rparr>)
      else call (RenameNotebook c conn i title) s)"

text \<open>\<open>evictFromCache\<close>: the flush, and what follows when the save has been accepted.\<close>

definition evictFromCache :: "jsstring \<Rightarrow> jsstring \<Rightarrow> NbStore \<Rightarrow> NbStore" where
  "evictFromCache now i s = flushSave now i s"

definition evict_done :: "jsstring \<Rightarrow> NbStore \<Rightarrow> NbStore" where
  "evict_done i s = forget i s"

definition flushAllPendingSaves :: "jsstring \<Rightarrow> NbStore \<Rightarrow> NbStore" where
  "flushAllPendingSaves now s = foldl (\<lambda>s i. flushSave now i s) s (nb_timers s)"

section \<open>Sessions\<close>

text \<open>What the interface does with one notebook, one phase after the other: it is loaded, changed while its tab is open, and
  evicted when the tab is closed. Every notebook belongs to one connection, \<open>owner\<close>. \<open>ns_loaded\<close> remembers what
  the last load gave until the notebook changes. Reopening while the eviction still waits is excluded, and so is
  a second load while one is on its way; below are the sessions that show why.\<close>

datatype NotebookPhase = NotOpen | Loading | Opened | Evicting

record NotebookSession =
  ns_store :: NbStore
  ns_phase :: "jsstring \<Rightarrow> NotebookPhase"
  ns_loaded :: "jsstring \<Rightarrow> (jsstring \<times> NotebookState) option"

abbreviation in_phase :: "NotebookSession \<Rightarrow> NotebookPhase \<Rightarrow> jsstring \<Rightarrow> bool" where
  "in_phase r p i \<equiv> ns_phase r i = p"

definition on_store :: "NbStore \<Rightarrow> NotebookSession \<Rightarrow> NotebookSession" where
  "on_store s r = r\<lparr>ns_store := s\<rparr>"

definition enter :: "jsstring \<Rightarrow> NotebookPhase \<Rightarrow> NotebookSession \<Rightarrow> NotebookSession" where
  "enter i p r = r\<lparr>ns_phase := (ns_phase r)(i := p)\<rparr>"

definition remember :: "jsstring \<Rightarrow> (jsstring \<times> NotebookState) option \<Rightarrow> NotebookSession \<Rightarrow> NotebookSession" where
  "remember i v r = r\<lparr>ns_loaded := (ns_loaded r)(i := v)\<rparr>"

definition cached_pair :: "NbStore \<Rightarrow> jsstring \<Rightarrow> (jsstring \<times> NotebookState) option" where
  "cached_pair s i = (case (nb_titles s i, nb_cache s i) of (Some t, Some st) \<Rightarrow> Some (t, st) | _ \<Rightarrow> None)"

inductive notebook_session :: "(jsstring \<Rightarrow> jsstring) \<Rightarrow> NotebookSession \<Rightarrow> bool" for owner where
  start: "notebook_session owner \<lparr>ns_store = empty_store, ns_phase = (\<lambda>_. NotOpen), ns_loaded = (\<lambda>_. None)\<rparr>"
| load: "notebook_session owner r \<Longrightarrow> in_phase r NotOpen i \<Longrightarrow>
    notebook_session owner (enter i Loading (on_store (loadNotebook i (owner i) c (ns_store r)) r))"
| load_again: "notebook_session owner r \<Longrightarrow> in_phase r Opened i \<Longrightarrow>
    notebook_session owner (on_store (loadNotebook i (owner i) c (ns_store r)) r)"
| loaded: "notebook_session owner r \<Longrightarrow> in_phase r Loading i \<Longrightarrow> s = notebook_loaded gen i answer (ns_store r) \<Longrightarrow>
    notebook_session owner (enter i (if nb_cache s i = None then NotOpen else Opened) (remember i (cached_pair s i) (on_store s r)))"
| create: "notebook_session owner r \<Longrightarrow> in_phase r NotOpen i \<Longrightarrow>
    notebook_session owner
      (enter i Opened (remember i None (on_store (createNotebookFromState now i title st (owner i) c (ns_store r)) r)))"
| change: "notebook_session owner r \<Longrightarrow> in_phase r Opened i \<Longrightarrow>
    notebook_session owner (remember i None (on_store (setNotebookState i st (ns_store r)) r))"
| retitle: "notebook_session owner r \<Longrightarrow> in_phase r Opened i \<or> in_phase r Loading i \<Longrightarrow>
    notebook_session owner (remember i None (on_store (setNotebookTitle i title (ns_store r)) r))"
| rename: "notebook_session owner r \<Longrightarrow> in_phase r Opened i \<or> in_phase r NotOpen i \<Longrightarrow>
    notebook_session owner (on_store (renameNotebook now i title (owner i) c (ns_store r)) r)"
| timer: "notebook_session owner r \<Longrightarrow> i \<in> set (nb_timers (ns_store r)) \<Longrightarrow>
    notebook_session owner (on_store (timer_runs now i (ns_store r)) r)"
| flush_all: "notebook_session owner r \<Longrightarrow>
    notebook_session owner (on_store (flushAllPendingSaves now (ns_store r)) r)"
| evict: "notebook_session owner r \<Longrightarrow> in_phase r Opened i \<Longrightarrow>
    notebook_session owner (enter i Evicting (on_store (evictFromCache now i (ns_store r)) r))"
| evicted: "notebook_session owner r \<Longrightarrow> in_phase r Evicting i \<Longrightarrow>
    notebook_session owner (enter i NotOpen (on_store (evict_done i (ns_store r)) r))"
| evict_fails: "notebook_session owner r \<Longrightarrow> in_phase r Evicting i \<Longrightarrow> notebook_session owner (enter i Opened r)"
| delete: "notebook_session owner r \<Longrightarrow> in_phase r Opened i \<or> in_phase r NotOpen i \<Longrightarrow>
    notebook_session owner (enter i NotOpen (on_store (deleteNotebook i (owner i) c (ns_store r)) r))"

section \<open>What has been sent\<close>

fun file_sent :: "jsstring \<Rightarrow> NotebookCall \<Rightarrow> jsval option" where
  "file_sent i (SaveNotebook c conn j file) = (if j = i then Some file else None)"
| "file_sent i (CreateNotebook c conn j file) = (if j = i then Some file else None)"
| "file_sent i _ = None"

text \<open>The last file sent for a notebook.\<close>

definition last_file :: "jsstring \<Rightarrow> NotebookCall list \<Rightarrow> jsval option" where
  "last_file i cs = foldl (\<lambda>f c. case file_sent i c of Some g \<Rightarrow> Some g | None \<Rightarrow> f) None cs"

lemma last_file_snoc: "last_file i (cs @ [c]) = (case file_sent i c of Some g \<Rightarrow> Some g | None \<Rightarrow> last_file i cs)"
  by (simp add: last_file_def split: option.split)

text \<open>The backend has what the cache shows: it is unchanged since it was loaded, or the last file sent says the same.\<close>

definition up_to_date :: "(jsstring \<Rightarrow> jsstring) \<Rightarrow> NotebookSession \<Rightarrow> jsstring \<Rightarrow> bool" where
  "up_to_date owner r i \<longleftrightarrow>
     (case cached_pair (ns_store r) i of
        None \<Rightarrow> False
      | Some (t, st) \<Rightarrow> ns_loaded r i = Some (t, st)
          \<or> (\<exists>now. last_file i (nb_calls (ns_store r)) =
                Some (serializeNotebook now t (cells st) (nb_params st) (stopOnError st) (Some (owner i)))))"

text \<open>The invariant of one notebook.\<close>

definition notebook_ok :: "(jsstring \<Rightarrow> jsstring) \<Rightarrow> NotebookSession \<Rightarrow> jsstring \<Rightarrow> bool" where
  "notebook_ok owner r i \<longleftrightarrow>
     (if in_phase r Opened i \<or> in_phase r Evicting i
      then cached_pair (ns_store r) i \<noteq> None \<and> nb_connections (ns_store r) i = Some (owner i)
        \<and> nb_clients (ns_store r) i \<noteq> None
        \<and> (in_phase r Opened i \<and> i \<in> set (nb_timers (ns_store r)) \<or> i \<notin> set (nb_timers (ns_store r)) \<and> up_to_date owner r i)
      else nb_cache (ns_store r) i = None
        \<and> (in_phase r Loading i \<longrightarrow> nb_connections (ns_store r) i = Some (owner i) \<and> nb_clients (ns_store r) i \<noteq> None))"

text \<open>Only what the invariant of a notebook reads of the store.\<close>

definition same_for :: "jsstring \<Rightarrow> NotebookSession \<Rightarrow> NotebookSession \<Rightarrow> bool" where
  "same_for i r r' \<longleftrightarrow>
     nb_cache (ns_store r') i = nb_cache (ns_store r) i \<and> nb_titles (ns_store r') i = nb_titles (ns_store r) i
     \<and> nb_connections (ns_store r') i = nb_connections (ns_store r) i
     \<and> (nb_clients (ns_store r') i = None \<longleftrightarrow> nb_clients (ns_store r) i = None)
     \<and> (i \<in> set (nb_timers (ns_store r')) \<longleftrightarrow> i \<in> set (nb_timers (ns_store r)))
     \<and> last_file i (nb_calls (ns_store r')) = last_file i (nb_calls (ns_store r))
     \<and> ns_phase r' i = ns_phase r i \<and> ns_loaded r' i = ns_loaded r i"

lemma same_for_ok: "same_for i r r' \<Longrightarrow> notebook_ok owner r i \<Longrightarrow> notebook_ok owner r' i"
proof -
  assume s: "same_for i r r'"
  then have c: "cached_pair (ns_store r') i = cached_pair (ns_store r) i" by (simp add: same_for_def cached_pair_def)
  have l: "ns_loaded r' i = ns_loaded r i" "last_file i (nb_calls (ns_store r')) = last_file i (nb_calls (ns_store r))"
    using s by (simp_all add: same_for_def)
  have "up_to_date owner r' i = up_to_date owner r i" unfolding up_to_date_def c l by (rule refl)
  with s c show "notebook_ok owner r i \<Longrightarrow> notebook_ok owner r' i" unfolding notebook_ok_def same_for_def by simp
qed

lemma session_simps [simp]:
  "ns_store (on_store s r) = s" "ns_phase (on_store s r) = ns_phase r" "ns_loaded (on_store s r) = ns_loaded r"
  "ns_store (enter i p r) = ns_store r" "ns_phase (enter i p r) = (ns_phase r)(i := p)" "ns_loaded (enter i p r) = ns_loaded r"
  "ns_store (remember i v r) = ns_store r" "ns_phase (remember i v r) = ns_phase r"
  "ns_loaded (remember i v r) = (ns_loaded r)(i := v)" "on_store (ns_store r) r = r"
  by (simp_all add: on_store_def enter_def remember_def)

lemma save_cached_fields [simp]:
  "nb_cache (save_cached now i s) = nb_cache s" "nb_titles (save_cached now i s) = nb_titles s"
  "nb_connections (save_cached now i s) = nb_connections s" "nb_clients (save_cached now i s) = nb_clients s"
  "nb_timers (save_cached now i s) = nb_timers s"
  by (simp_all add: save_cached_def persist_def call_def split: option.split)

lemma clear_timer_fields [simp]:
  "nb_cache (clear_timer i s) = nb_cache s" "nb_titles (clear_timer i s) = nb_titles s"
  "nb_connections (clear_timer i s) = nb_connections s" "nb_clients (clear_timer i s) = nb_clients s"
  "nb_calls (clear_timer i s) = nb_calls s" "set (nb_timers (clear_timer i s)) = set (nb_timers s) - {i}"
  by (auto simp: clear_timer_def)

lemma last_file_save:
  "last_file j (nb_calls (save_cached now i s)) =
     (if j = i then
        (case (nb_cache s i, nb_connections s i, nb_clients s i) of
           (Some st, Some conn, Some c) \<Rightarrow> if conn = [] then last_file i (nb_calls s) else Some (serializeForDisk now i st s)
         | _ \<Rightarrow> last_file i (nb_calls s))
      else last_file j (nb_calls s))"
  by (simp add: save_cached_def persist_def call_def last_file_snoc split: option.split)

lemma flush_other: "j \<noteq> i \<Longrightarrow> same_for j r (on_store (flushSave now i (ns_store r)) r)"
  by (simp add: same_for_def flushSave_def last_file_save)

text \<open>A flush of an open notebook makes it up to date, in whatever phase it is.\<close>

lemma flush_sends:
  assumes "owner i \<noteq> []" "cached_pair (ns_store r) i \<noteq> None" "nb_connections (ns_store r) i = Some (owner i)"
    "nb_clients (ns_store r) i \<noteq> None" "ns_store r' = flushSave now i (ns_store r)"
  shows "i \<notin> set (nb_timers (ns_store r'))" "up_to_date owner r' i" "cached_pair (ns_store r') i \<noteq> None"
proof -
  obtain t st c where "nb_titles (ns_store r) i = Some t" "nb_cache (ns_store r) i = Some st" "nb_clients (ns_store r) i = Some c"
    using assms(2,4) by (auto simp: cached_pair_def split: option.splits)
  then show "i \<notin> set (nb_timers (ns_store r'))" "up_to_date owner r' i" "cached_pair (ns_store r') i \<noteq> None"
    using assms(1,3,5) by (auto simp: flushSave_def up_to_date_def cached_pair_def last_file_save serializeForDisk_def)
qed

lemma flush_ok:
  assumes "owner i \<noteq> []" "notebook_ok owner r i"
  shows "notebook_ok owner (on_store (flushSave now i (ns_store r)) r) i"
proof (cases "in_phase r Opened i \<or> in_phase r Evicting i")
  case True
  then have o: "cached_pair (ns_store r) i \<noteq> None" "nb_connections (ns_store r) i = Some (owner i)" "nb_clients (ns_store r) i \<noteq> None"
    using assms(2) by (simp_all add: notebook_ok_def)
  let ?r' = "on_store (flushSave now i (ns_store r)) r"
  have f: "i \<notin> set (nb_timers (ns_store ?r'))" "up_to_date owner ?r' i" "cached_pair (ns_store ?r') i \<noteq> None"
    using flush_sends [of owner i r ?r' now] assms(1) o by simp_all
  have "nb_connections (ns_store ?r') i = Some (owner i)" "nb_clients (ns_store ?r') i \<noteq> None"
    using o by (simp_all add: flushSave_def)
  with f show ?thesis using True unfolding notebook_ok_def by simp
next
  case False
  with assms(2) show ?thesis by (simp add: notebook_ok_def flushSave_def)
qed

lemma flush_all_ok:
  assumes "\<And>i. owner i \<noteq> []"
  shows "(\<And>i. notebook_ok owner r i) \<Longrightarrow> notebook_ok owner (on_store (foldl (\<lambda>s i. flushSave now i s) (ns_store r) ids) r) j"
proof (induction ids arbitrary: r)
  case Nil
  then show ?case by simp
next
  case (Cons i ids)
  let ?r = "on_store (flushSave now i (ns_store r)) r"
  have "notebook_ok owner ?r k" for k
    using flush_ok [OF assms Cons.prems] same_for_ok [OF flush_other Cons.prems] by (cases "k = i") blast+
  from Cons.IH [OF this] show ?case by (simp add: on_store_def)
qed

lemma flush_all_timers: "set (nb_timers (foldl (\<lambda>s i. flushSave now i s) s ids)) = set (nb_timers s) - set ids"
  by (induction ids arbitrary: s) (auto simp: flushSave_def)

lemma step_ok:
  "(\<And>j. notebook_ok owner r j) \<Longrightarrow> (\<And>j. j \<noteq> i \<Longrightarrow> same_for j r r') \<Longrightarrow> notebook_ok owner r' i \<Longrightarrow> notebook_ok owner r' j"
  using same_for_ok by (cases "j = i") blast+

lemmas op_defs = loadNotebook_def notebook_loaded_def createNotebookFromState_def setNotebookState_def setNotebookTitle_def
  scheduleSave_def deleteNotebook_def forget_def evict_done_def call_def

lemma renamed_ok:
  assumes "owner i \<noteq> []" "notebook_ok owner r i" "in_phase r Opened i \<or> in_phase r NotOpen i"
  shows "notebook_ok owner (on_store (renameNotebook now i title (owner i) c (ns_store r)) r) i"
proof (cases "in_phase r Opened i")
  case True
  let ?s = "(ns_store r)\<lparr>nb_connections := (nb_connections (ns_store r))(i \<mapsto> owner i),
    nb_clients := (nb_clients (ns_store r))(i \<mapsto> c), nb_titles := (nb_titles (ns_store r))(i \<mapsto> title)\<rparr>"
  have cached: "nb_cache (ns_store r) i \<noteq> None"
    using True assms(2) by (auto simp: notebook_ok_def cached_pair_def split: option.splits)
  then have e: "renameNotebook now i title (owner i) c (ns_store r) = flushSave now i ?s" by (simp add: renameNotebook_def Let_def)
  have o: "cached_pair (ns_store (on_store ?s r)) i \<noteq> None" using cached by (auto simp: cached_pair_def)
  let ?r' = "on_store (flushSave now i ?s) r"
  have f: "i \<notin> set (nb_timers (ns_store ?r'))" "up_to_date owner ?r' i" "cached_pair (ns_store ?r') i \<noteq> None"
    using flush_sends [of owner i "on_store ?s r" ?r' now] assms(1) o by simp_all
  have "nb_connections (ns_store ?r') i = Some (owner i)" "nb_clients (ns_store ?r') i \<noteq> None" by (simp_all add: flushSave_def)
  with f show ?thesis using True unfolding e notebook_ok_def by simp
next
  case False
  with assms(2,3) show ?thesis by (auto simp: notebook_ok_def renameNotebook_def call_def)
qed

lemma renamed_other: "j \<noteq> i \<Longrightarrow> same_for j r (on_store (renameNotebook now i title conn c (ns_store r)) r)"
  by (simp add: same_for_def renameNotebook_def Let_def flushSave_def last_file_save call_def last_file_snoc)

lemma session_ok:
  assumes "\<And>i. owner i \<noteq> []"
  shows "notebook_session owner r \<Longrightarrow> notebook_ok owner r j"
proof (induction arbitrary: j rule: notebook_session.induct)
  case start
  show ?case by (simp add: notebook_ok_def empty_store_def)
next
  case (load r i c)
  note r = load.IH
  have "nb_cache (ns_store r) i = None" using r [of i] load.hyps(2) by (simp add: notebook_ok_def)
  then show ?case
    by - (rule step_ok [OF r, of i], (simp_all add: same_for_def notebook_ok_def op_defs last_file_snoc Let_def))
next
  case (load_again r i c)
  note r = load_again.IH
  have c: "nb_cache (ns_store r) i \<noteq> None" "nb_connections (ns_store r) i = Some (owner i)" "nb_clients (ns_store r) i \<noteq> None"
    using r [of i] load_again.hyps(2) by (auto simp: notebook_ok_def cached_pair_def split: option.splits)
  then have "same_for k r (on_store (loadNotebook i (owner i) c (ns_store r)) r)" for k
    by (auto simp: same_for_def op_defs Let_def)
  then show ?case using same_for_ok r by blast
next
  case (loaded r i s gen answer)
  note r = loaded.IH
  have c: "nb_cache (ns_store r) i = None" "nb_connections (ns_store r) i = Some (owner i)" "nb_clients (ns_store r) i \<noteq> None"
    using r [of i] loaded.hyps(2) by (auto simp: notebook_ok_def)
  have s: "nb_connections s i = Some (owner i)" "nb_clients s i \<noteq> None" "nb_cache s i \<noteq> None \<Longrightarrow> cached_pair s i \<noteq> None"
    using c unfolding loaded.hyps(3) by (auto simp: op_defs cached_pair_def split: option.splits sum.splits)
  show ?case
  proof (rule step_ok [OF r, of i])
    show "k \<noteq> i \<Longrightarrow> same_for k r (enter i (if nb_cache s i = None then NotOpen else Opened) (remember i (cached_pair s i) (on_store s r)))" for k
      unfolding loaded.hyps(3) by (auto simp: same_for_def op_defs split: option.splits sum.splits)
    show "notebook_ok owner (enter i (if nb_cache s i = None then NotOpen else Opened) (remember i (cached_pair s i) (on_store s r))) i"
      using s by (auto simp: notebook_ok_def up_to_date_def split: option.splits)
  qed
next
  case (create r i now title st c)
  note r = create.IH
  show ?case
  proof (rule step_ok [OF r, of i])
    show "k \<noteq> i \<Longrightarrow> same_for k r (enter i Opened (remember i None (on_store (createNotebookFromState now i title st (owner i) c (ns_store r)) r)))" for k
      by (simp add: same_for_def op_defs Let_def last_file_snoc)
    show "notebook_ok owner (enter i Opened (remember i None (on_store (createNotebookFromState now i title st (owner i) c (ns_store r)) r))) i"
      by (auto simp: notebook_ok_def up_to_date_def cached_pair_def op_defs Let_def last_file_snoc serializeForDisk_def)
  qed
next
  case (change r i st)
  note r = change.IH
  have "cached_pair (ns_store r) i \<noteq> None" "nb_connections (ns_store r) i = Some (owner i)" "nb_clients (ns_store r) i \<noteq> None"
    using r [of i] change.hyps(2) by (auto simp: notebook_ok_def)
  then have "notebook_ok owner (remember i None (on_store (setNotebookState i st (ns_store r)) r)) i"
    using change.hyps(2) by (auto simp: notebook_ok_def op_defs cached_pair_def split: option.splits)
  then show ?case by - (rule step_ok [OF r, of i], (simp_all add: same_for_def op_defs))
next
  case (retitle r i title)
  note r = retitle.IH
  have "in_phase r Opened i \<Longrightarrow> cached_pair (ns_store r) i \<noteq> None" "nb_connections (ns_store r) i = Some (owner i)" "nb_clients (ns_store r) i \<noteq> None"
    "in_phase r Loading i \<Longrightarrow> nb_cache (ns_store r) i = None"
    using r [of i] retitle.hyps(2) by (auto simp: notebook_ok_def)
  then have "notebook_ok owner (remember i None (on_store (setNotebookTitle i title (ns_store r)) r)) i"
    using retitle.hyps(2) by (auto simp: notebook_ok_def op_defs cached_pair_def split: option.splits)
  then show ?case by - (rule step_ok [OF r, of i], (simp_all add: same_for_def op_defs))
next
  case (rename r i now title c)
  note r = rename.IH
  show ?case by (rule step_ok [OF r renamed_other renamed_ok [OF assms r rename.hyps(2)]])
next
  case (timer r i now)
  note r = timer.IH
  have "timer_runs now i (ns_store r) = flushSave now i (ns_store r)" by (simp add: timer_runs_def flushSave_def)
  then show ?case using step_ok [OF r flush_other flush_ok [OF assms r]] by simp
next
  case (flush_all r now)
  show ?case unfolding flushAllPendingSaves_def by (rule flush_all_ok [OF assms flush_all.IH])
next
  case (evict r i now)
  note r = evict.IH
  have o: "cached_pair (ns_store r) i \<noteq> None" "nb_connections (ns_store r) i = Some (owner i)" "nb_clients (ns_store r) i \<noteq> None"
    using r [of i] evict.hyps(2) by (auto simp: notebook_ok_def)
  let ?r' = "enter i Evicting (on_store (evictFromCache now i (ns_store r)) r)"
  have f: "i \<notin> set (nb_timers (ns_store ?r'))" "up_to_date owner ?r' i" "cached_pair (ns_store ?r') i \<noteq> None"
    using flush_sends [of owner i r ?r' now] assms o by (simp_all add: evictFromCache_def)
  show ?case
  proof (rule step_ok [OF r, of i])
    show "k \<noteq> i \<Longrightarrow> same_for k r ?r'" for k
      using flush_other [of k i r now] by (simp add: same_for_def evictFromCache_def)
    show "notebook_ok owner ?r' i" using f o by (simp add: notebook_ok_def evictFromCache_def flushSave_def)
  qed
next
  case (evicted r i)
  note r = evicted.IH
  show ?case by (rule step_ok [OF r, of i]) (simp_all add: same_for_def notebook_ok_def op_defs)
next
  case (evict_fails r i)
  note r = evict_fails.IH
  have "notebook_ok owner r i" by (rule r)
  then have "notebook_ok owner (enter i Opened r) i"
    using evict_fails.hyps(2) by (auto simp: notebook_ok_def up_to_date_def)
  then show ?case by - (rule step_ok [OF r, of i], (simp_all add: same_for_def))
next
  case (delete r i c)
  note r = delete.IH
  show ?case by (rule step_ok [OF r, of i]) (simp_all add: same_for_def notebook_ok_def op_defs last_file_snoc)
qed

section \<open>Nothing is lost\<close>


definition text_notebook :: "jsstring \<Rightarrow> NotebookState" where
  "text_notebook t = \<lparr>cells = [(createEmptyCell ''x'' Sql)\<lparr>content := t\<rparr>], stopOnError = False, nb_params = []\<rparr>"

definition opened_sample :: NotebookSession where
  "opened_sample =
     enter ''n'' Opened (remember ''n'' None (on_store
       (createNotebookFromState ''now'' ''n'' ''N'' (text_notebook ''a'') ''c'' 0 empty_store)
       \<lparr>ns_store = empty_store, ns_phase = (\<lambda>_. NotOpen), ns_loaded = (\<lambda>_. None)\<rparr>))"


section \<open>What goes wrong outside these sessions\<close>

definition file_of :: "jsstring \<Rightarrow> jsstring \<Rightarrow> jsval" where
  "file_of now t = serializeNotebook now ''N'' (cells (text_notebook t)) [] False (Some ''c'')"

text \<open>A tab that is opened again while the eviction waits for its save finds the notebook cached; then the eviction
  removes it, and what is typed afterwards is shown but never saved.\<close>

theorem reopened_notebook_is_never_saved:
  "let s1 = createNotebookFromState ''t0'' ''n'' ''N'' (text_notebook ''a'') ''c'' 0 empty_store;
       s2 = evictFromCache ''t1'' ''n'' s1;
       s3 = evict_done ''n'' s2;
       s4 = timer_runs ''t2'' ''n'' (setNotebookState ''n'' (text_notebook ''b'') s3)
   in getNotebookState s2 ''n'' = Some (text_notebook ''a'') \<and> getNotebookState s4 ''n'' = Some (text_notebook ''b'')
      \<and> nb_timers s4 = [] \<and> last_file ''n'' (nb_calls s4) = Some (file_of ''t1'' ''a'')"
  unfolding Let_def
  by (simp add: evictFromCache_def flushSave_def timer_runs_def save_cached_def persist_def clear_timer_def op_defs Let_def
      getNotebookState_def empty_store_def serializeForDisk_def file_of_def last_file_def text_notebook_def)

text \<open>A second load that is answered late (the export in the sidebar loads the notebook too) puts the file back into
  the cache: the edit is lost, and the pending save writes the old text.\<close>

theorem second_load_overwrites_edits:
  "let s1 = loadNotebook ''n'' ''c'' 0 (loadNotebook ''n'' ''c'' 0 empty_store);
       s2 = notebook_loaded (\<lambda>_. ''x'') ''n'' (Some (Some (file_of ''t0'' ''a''))) s1;
       s3 = setNotebookState ''n'' (text_notebook ''b'') s2;
       s4 = notebook_loaded (\<lambda>_. ''x'') ''n'' (Some (Some (file_of ''t0'' ''a''))) s3;
       s5 = timer_runs ''t1'' ''n'' s4
   in map_option (\<lambda>st. map content (cells st)) (getNotebookState s3 ''n'') = Some [''b'']
      \<and> map_option (\<lambda>st. map content (cells st)) (getNotebookState s5 ''n'') = Some [''a'']
      \<and> last_file ''n'' (nb_calls s5) = Some (file_of ''t1'' ''a'')"
  by code_simp

end
