(* ===== verification/ConnectionStrings.thy ===== *)
theory ConnectionStrings
  imports JsValue "HOL-Library.List_Lexorder" "HOL-Library.Char_ord"
begin

text \<open>
  Reading connection strings (\<open>utils/connectionStringParser.ts\<close>, \<open>utils/fsPath.ts\<close>). The URL parser and the percent decoder
  of the platform are the two functions of a record, \<open>None\<close> where they throw. The protocol registry is
  the list of the map's entries in insertion order. The tables of TLS modes are
  read as maps of their own entries (\<open>constructor\<close> as a mode finds an inherited property in the code). Of the invisible and the curly characters only those of
  Latin-1 exist in the model.
\<close>

section \<open>Drivers and URLs\<close>

record UriCapabilities =
  uc_file_based :: bool
  uc_folder_based :: bool
  uc_connection_string :: "bool option"
  uc_connectionString :: "bool option"
  uc_connection_uri :: "bool option"
  uc_connectionUri :: "bool option"
  uc_uri_schemes :: "jsstring list option"
  uc_uriSchemes :: "jsstring list option"
  uc_example :: "jsstring option"
  uc_exampleCamel :: "jsstring option"

record ConnectionStringDriver =
  csd_id :: jsstring
  csd_capabilities :: "UriCapabilities option"

record Url =
  url_protocol :: jsstring
  url_hostname :: jsstring
  url_port :: jsstring
  url_username :: jsstring
  url_password :: jsstring
  url_pathname :: jsstring
  url_params :: "(jsstring \<times> jsstring) list"

record UrlApi =
  new_URL :: "jsstring \<Rightarrow> Url option"
  decodeURIComponent :: "jsstring \<Rightarrow> jsstring option"

record ResolvedDriver =
  rd_id :: jsstring
  rd_local :: bool
  rd_passthrough :: bool
  rd_opaque :: bool

definition isLocalDriver :: "UriCapabilities option \<Rightarrow> bool" where
  "isLocalDriver caps = (case caps of None \<Rightarrow> False | Some c \<Rightarrow> uc_file_based c \<or> uc_folder_based c)"

definition first_of :: "'a option \<Rightarrow> 'a option \<Rightarrow> 'a \<Rightarrow> 'a" where
  "first_of a b c = (case a of Some x \<Rightarrow> x | None \<Rightarrow> (case b of Some x \<Rightarrow> x | None \<Rightarrow> c))"

definition connectionStringImportEnabled :: "UriCapabilities option \<Rightarrow> bool" where
  "connectionStringImportEnabled caps =
     (case caps of None \<Rightarrow> True | Some c \<Rightarrow> first_of (uc_connection_string c) (uc_connectionString c) True)"

definition uriPassthroughEnabled :: "UriCapabilities option \<Rightarrow> bool" where
  "uriPassthroughEnabled caps =
     (case caps of None \<Rightarrow> False | Some c \<Rightarrow> first_of (uc_connection_uri c) (uc_connectionUri c) False)"

section \<open>Protocols\<close>

definition decodeUriPart :: "UrlApi \<Rightarrow> jsstring \<Rightarrow> jsstring" where
  "decodeUriPart api v = (case decodeURIComponent api v of Some s \<Rightarrow> s | None \<Rightarrow> v)"

definition PROTOCOL_ALIAS_GROUPS :: "jsstring list list" where
  "PROTOCOL_ALIAS_GROUPS =
     [[''postgres'', ''postgresql''], [''mysql'', ''mariadb''], [''sqlite'', ''sqlite3'']]"

definition getProtocolAliases :: "jsstring \<Rightarrow> jsstring list" where
  "getProtocolAliases protocol =
     (case find (\<lambda>g. protocol \<in> set g) PROTOCOL_ALIAS_GROUPS of
        None \<Rightarrow> []
      | Some g \<Rightarrow> filter (\<lambda>a. a \<noteq> protocol) g)"

definition normalizeProtocol :: "jsstring \<Rightarrow> jsstring" where
  "normalizeProtocol protocol =
     lower (trim (if protocol \<noteq> [] \<and> last protocol = CHR '':'' then butlast protocol else protocol))"

text \<open>\<open>/^([a-z][a-z\d+.-]*):/i\<close>: the scheme in front of the first colon.\<close>

definition scheme_char :: "char \<Rightarrow> bool" where
  "scheme_char c \<longleftrightarrow> is_alpha c \<or> is_digit c \<or> c = CHR ''+'' \<or> c = CHR ''.'' \<or> c = CHR ''-''"

definition scheme_of :: "jsstring \<Rightarrow> (jsstring \<times> jsstring) option" where
  "scheme_of s =
     (let name = takeWhile scheme_char s; rest = dropWhile scheme_char s in
      if name \<noteq> [] \<and> is_alpha (hd name) \<and> rest \<noteq> [] \<and> hd rest = CHR '':'' then Some (name, tl rest) else None)"

definition getProtocolFromConnectionString :: "jsstring \<Rightarrow> jsstring option" where
  "getProtocolFromConnectionString v = map_option (\<lambda>(name, _). normalizeProtocol name) (scheme_of v)"

definition normalizeJdbcConnectionString :: "jsstring \<Rightarrow> jsstring" where
  "normalizeJdbcConnectionString v =
     (let s = lower v in
      if list_ex (\<lambda>p. prefix (''jdbc:'' @ p @ ''://'') s) [''postgres'', ''postgresql'', ''mysql'', ''mariadb'']
      then drop 5 v else v)"

definition getParam :: "(jsstring \<times> jsstring) list \<Rightarrow> jsstring \<Rightarrow> jsstring option" where
  "getParam ps name = map_option snd (find (\<lambda>(k, _). lower k = name) ps)"

definition mysqlModes :: "(jsstring \<times> jsstring) list" where
  "mysqlModes =
     [(''disable'', ''disabled''), (''disabled'', ''disabled''), (''prefer'', ''preferred''), (''preferred'', ''preferred''),
      (''require'', ''required''), (''required'', ''required''), (''verify-ca'', ''verify_ca''), (''verify_ca'', ''verify_ca''),
      (''verify-full'', ''verify_identity''), (''verify-identity'', ''verify_identity''), (''verify_identity'', ''verify_identity'')]"

definition pgModes :: "(jsstring \<times> jsstring) list" where
  "pgModes = map (\<lambda>m. (m, m)) [''disable'', ''allow'', ''prefer'', ''require'', ''verify-ca'', ''verify-full'']"

definition getSslModeFromUrl :: "Url \<Rightarrow> jsstring \<Rightarrow> jsstring option" where
  "getSslModeFromUrl url protocol =
     (let get = getParam (url_params url);
          mode = map_option (\<lambda>m. lower (trim m))
            (case get ''sslmode'' of Some m \<Rightarrow> Some m
             | None \<Rightarrow> (case get ''ssl-mode'' of Some m \<Rightarrow> Some m | None \<Rightarrow> get ''ssl_mode''))
      in case mode of
           None \<Rightarrow> None
         | Some m \<Rightarrow>
             if m = [] then None
             else if protocol = ''mysql'' \<or> protocol = ''mariadb'' then map_of mysqlModes m
             else if protocol = ''postgres'' \<or> protocol = ''postgresql'' then map_of pgModes m
             else None)"

text \<open>The URL shown for a driver that takes the string as it is: only the first host of a list. \<open>slash_split\<close> cuts the
  authority off at the first of the three characters.\<close>

definition ends_authority :: "char \<Rightarrow> bool" where
  "ends_authority c \<longleftrightarrow> c = CHR ''/'' \<or> c = CHR ''?'' \<or> c = CHR ''#''"

definition after_last_at :: "jsstring \<Rightarrow> jsstring" where
  "after_last_at s = rev (takeWhile (\<lambda>c. c \<noteq> CHR ''@'') (rev s))"

definition getPassthroughDisplayUrl :: "UrlApi \<Rightarrow> jsstring \<Rightarrow> bool \<Rightarrow> Url option" where
  "getPassthroughDisplayUrl api v allowOpaque =
     (let schemeEnd = (case index_of v '':'' of Some k \<Rightarrow> k + 1 | None \<Rightarrow> 0) in
      if \<not> prefix ''//'' (drop schemeEnd v) then (if allowOpaque then new_URL api v else None)
      else (let authorityStart = schemeEnd + 2;
                authority = takeWhile (\<lambda>c. \<not> ends_authority c) (drop authorityStart v);
                suffix = dropWhile (\<lambda>c. \<not> ends_authority c) (drop authorityStart v);
                hosts = after_last_at authority;
                credentials = take (length authority - length hosts) authority;
                firstHost = takeWhile (\<lambda>c. c \<noteq> CHR '','') hosts
            in if firstHost = [] then None
               else new_URL api (take authorityStart v @ credentials @ firstHost @ suffix)))"

definition getProtocolFromExample :: "UrlApi \<Rightarrow> jsstring option \<Rightarrow> jsstring option" where
  "getProtocolFromExample api example =
     (case example of
        None \<Rightarrow> None
      | Some e \<Rightarrow> if trim e = [] then None else map_option (\<lambda>u. normalizeProtocol (url_protocol u)) (new_URL api (trim e)))"

definition example_of :: "ConnectionStringDriver \<Rightarrow> jsstring option" where
  "example_of d =
     (case csd_capabilities d of
        None \<Rightarrow> None
      | Some c \<Rightarrow> (case uc_example c of Some e \<Rightarrow> Some e | None \<Rightarrow> uc_exampleCamel c))"

definition getExtraProtocols :: "UriCapabilities option \<Rightarrow> jsstring list" where
  "getExtraProtocols caps =
     filter (\<lambda>s. s \<noteq> []) (map normalizeProtocol
       (case caps of None \<Rightarrow> [] | Some c \<Rightarrow> first_of (uc_uri_schemes c) (uc_uriSchemes c) []))"

section \<open>The registry\<close>

definition BUILTIN_DRIVER_IDS :: "jsstring list" where
  "BUILTIN_DRIVER_IDS = [''postgres'', ''mysql'', ''sqlite'']"

definition resolveDrivers :: "ConnectionStringDriver list \<Rightarrow> ConnectionStringDriver list" where
  "resolveDrivers drivers =
     (if drivers \<noteq> [] then drivers else map (\<lambda>i. \<lparr>csd_id = i, csd_capabilities = None\<rparr>) BUILTIN_DRIVER_IDS)"

definition opaque_example :: "jsstring \<Rightarrow> bool" where
  "opaque_example s = (case scheme_of s of None \<Rightarrow> False | Some (_, rest) \<Rightarrow> \<not> prefix ''//'' rest)"

definition resolved_driver :: "ConnectionStringDriver \<Rightarrow> ResolvedDriver" where
  "resolved_driver d =
     \<lparr>rd_id = csd_id d, rd_local = isLocalDriver (csd_capabilities d),
      rd_passthrough = uriPassthroughEnabled (csd_capabilities d),
      rd_opaque = opaque_example (trim (case example_of d of Some e \<Rightarrow> e | None \<Rightarrow> []))\<rparr>"

definition can_import :: "ConnectionStringDriver \<Rightarrow> bool" where
  "can_import d \<longleftrightarrow> isLocalDriver (csd_capabilities d) \<or> connectionStringImportEnabled (csd_capabilities d)"

definition set_if_absent :: "(jsstring \<times> 'a) list \<Rightarrow> jsstring \<times> 'a \<Rightarrow> (jsstring \<times> 'a) list" where
  "set_if_absent reg e = (if map_of reg (fst e) = None then set_prop reg e else reg)"

definition register_driver ::
  "UrlApi \<Rightarrow> (jsstring \<times> ResolvedDriver) list \<Rightarrow> ConnectionStringDriver \<Rightarrow> (jsstring \<times> ResolvedDriver) list" where
  "register_driver api reg d =
     (if \<not> can_import d then reg
      else (let resolved = resolved_driver d;
                idProtocol = normalizeProtocol (csd_id d);
                reg1 = (if idProtocol \<noteq> [] then set_prop reg (idProtocol, resolved) else reg);
                reg2 = (case getProtocolFromExample api (example_of d) of
                          Some p \<Rightarrow> if p \<noteq> [] then set_prop reg1 (p, resolved) else reg1
                        | None \<Rightarrow> reg1)
            in foldl (\<lambda>r p. set_if_absent r (p, resolved)) reg2 (getExtraProtocols (csd_capabilities d))))"

definition add_aliases :: "(jsstring \<times> ResolvedDriver) list \<Rightarrow> (jsstring \<times> ResolvedDriver) list" where
  "add_aliases reg =
     foldl (\<lambda>r (protocol, resolved). foldl (\<lambda>r a. set_if_absent r (a, resolved)) r (getProtocolAliases protocol)) reg reg"

definition buildProtocolRegistry :: "UrlApi \<Rightarrow> ConnectionStringDriver list \<Rightarrow> (jsstring \<times> ResolvedDriver) list" where
  "buildProtocolRegistry api drivers = add_aliases (foldl (register_driver api) [] (resolveDrivers drivers))"

definition getSupportedConnectionStringProtocols :: "UrlApi \<Rightarrow> ConnectionStringDriver list \<Rightarrow> jsstring list" where
  "getSupportedConnectionStringProtocols api drivers = sort (map fst (buildProtocolRegistry api drivers))"

section \<open>Paths\<close>

definition SHY :: char where "SHY = CHR 0xAD"

definition isInvisiblePathNoise :: "char \<Rightarrow> bool" where
  "isInvisiblePathNoise c \<longleftrightarrow> c = SHY"

definition matchingQuoteClose :: "char \<Rightarrow> char option" where
  "matchingQuoteClose c =
     (if c = DQ \<or> c = SQ \<or> c = BTICK then Some c else if c = CHR 0xAB then Some (CHR 0xBB) else None)"

text \<open>The quotes are peeled from a trimmed text; what is inside is trimmed again.\<close>

lemma trim_shorter: "length (trim s) \<le> length s"
proof -
  have "length (dropWhile P xs) \<le> length xs" for P and xs :: jsstring by (induction xs) auto
  from this [of is_space "rev (dropWhile is_space s)"] this [of is_space s] show ?thesis
    by (simp add: trim_def)
qed

function peel :: "jsstring \<Rightarrow> jsstring" where
  "peel current =
     (if length current \<ge> 2 \<and> matchingQuoteClose (hd current) = Some (last current)
      then peel (trim (butlast (tl current))) else current)"
  by pat_completeness auto
termination
proof (relation "measure length")
  fix current :: jsstring
  assume "length current \<ge> 2 \<and> matchingQuoteClose (hd current) = Some (last current)"
  then show "(trim (butlast (tl current)), current) \<in> measure length"
    using trim_shorter [of "butlast (tl current)"] by auto
qed simp

declare peel.simps [simp del]

definition peelOuterQuotes :: "jsstring \<Rightarrow> jsstring" where
  "peelOuterQuotes raw = peel (trim raw)"

definition drive_path :: "jsstring \<Rightarrow> jsstring option" where
  "drive_path path =
     (case path of
        c # d # e # rest \<Rightarrow>
          if c = CHR ''/'' \<and> is_alpha d \<and> (e = CHR '':'' \<or> e = CHR ''|'') \<and> list_all (\<lambda>x. x \<noteq> NL \<and> x \<noteq> CR) rest
          then Some (d # CHR '':'' # rest) else None
      | _ \<Rightarrow> None)"

definition fileUriToPath :: "UrlApi \<Rightarrow> jsstring \<Rightarrow> jsstring option" where
  "fileUriToPath api v =
     (if \<not> prefix ''file:'' (lower v) then None
      else (case new_URL api v of
              None \<Rightarrow> None
            | Some url \<Rightarrow>
                (let path = decodeUriPart api (url_pathname url) in
                 case drive_path path of
                   Some p \<Rightarrow> Some p
                 | None \<Rightarrow> Some (if url_hostname url \<noteq> [] then ''//'' @ url_hostname url @ path else path))))"

definition sanitizeLocalFilePath :: "UrlApi \<Rightarrow> jsstring \<Rightarrow> jsstring" where
  "sanitizeLocalFilePath api raw =
     (let unquoted = peelOuterQuotes (filter (\<lambda>c. \<not> isInvisiblePathNoise c) raw) in
      case fileUriToPath api unquoted of None \<Rightarrow> unquoted | Some p \<Rightarrow> peelOuterQuotes p)"

section \<open>Parsing\<close>

record ParsedConnectionString =
  pc_driver :: jsstring
  pc_host :: "jsstring option"
  pc_port :: "nat option"
  pc_username :: "jsstring option"
  pc_password :: "jsstring option"
  pc_ssl_mode :: "jsstring option"
  pc_database :: jsstring
  pc_connection_uri :: "jsstring option"

datatype ConnectionStringError =
    EmptyConnectionString
  | InvalidConnectionString
  | UnsupportedDriver jsstring "jsstring list"
  | MissingDatabasePath
  | MissingDatabaseName

definition text_opt :: "jsstring \<Rightarrow> jsstring option" where
  "text_opt s = (if s = [] then None else Some s)"

definition port_value :: "jsstring \<Rightarrow> nat" where
  "port_value s = foldl (\<lambda>n c. 10 * n + (code_of c - 48)) 0 s"

text \<open>The port of a URL is empty or made of digits.\<close>

definition port_of :: "Url \<Rightarrow> nat option" where
  "port_of url = map_option port_value (text_opt (url_port url))"

definition strip_slash :: "jsstring \<Rightarrow> jsstring" where
  "strip_slash path = (if prefix ''/'' path then tl path else path)"

text \<open>The string with a JDBC wrapper taken off where no driver owns it, its protocol and that protocol's driver.\<close>

definition unwrapped :: "(jsstring \<times> ResolvedDriver) list \<Rightarrow> jsstring \<Rightarrow> jsstring" where
  "unwrapped reg raw =
     (case map_of reg (case getProtocolFromConnectionString raw of Some p \<Rightarrow> p | None \<Rightarrow> []) of
        Some d \<Rightarrow> if rd_passthrough d then raw else normalizeJdbcConnectionString raw
      | None \<Rightarrow> normalizeJdbcConnectionString raw)"

definition declared_driver :: "(jsstring \<times> ResolvedDriver) list \<Rightarrow> jsstring \<Rightarrow> ResolvedDriver option" where
  "declared_driver reg s = Option.bind (getProtocolFromConnectionString s) (map_of reg)"

definition parse_local :: "UrlApi \<Rightarrow> ResolvedDriver \<Rightarrow> Url \<Rightarrow> ConnectionStringError + ParsedConnectionString" where
  "parse_local api d url =
     (if url_pathname url = [] then Inl MissingDatabasePath
      else (let database = sanitizeLocalFilePath api (decodeUriPart api (strip_slash (url_pathname url))) in
            if database = [] then Inl MissingDatabasePath
            else Inr \<lparr>pc_driver = rd_id d, pc_host = None, pc_port = None, pc_username = None, pc_password = None,
                      pc_ssl_mode = None, pc_database = database, pc_connection_uri = None\<rparr>))"

definition get_first :: "(jsstring \<times> jsstring) list \<Rightarrow> jsstring \<Rightarrow> jsstring option" where
  "get_first ps name = (case map_of ps name of Some v \<Rightarrow> text_opt v | None \<Rightarrow> None)"

definition parse_remote :: "UrlApi \<Rightarrow> ResolvedDriver \<Rightarrow> jsstring \<Rightarrow> Url \<Rightarrow> ConnectionStringError + ParsedConnectionString" where
  "parse_remote api d protocol url =
     (let hasAuthorityCredentials = url_username url \<noteq> [] \<or> url_password url \<noteq> [];
          username = (if hasAuthorityCredentials then map_option (decodeUriPart api) (text_opt (url_username url))
                      else (case get_first (url_params url) ''user'' of Some u \<Rightarrow> Some u
                            | None \<Rightarrow> get_first (url_params url) ''username''));
          password = (if hasAuthorityCredentials then map_option (decodeUriPart api) (text_opt (url_password url))
                      else get_first (url_params url) ''password'');
          database = decodeUriPart api (strip_slash (url_pathname url))
      in if database = [] then Inl MissingDatabaseName
         else Inr \<lparr>pc_driver = rd_id d, pc_host = text_opt (url_hostname url), pc_port = port_of url,
                   pc_username = username, pc_password = password, pc_ssl_mode = getSslModeFromUrl url protocol,
                   pc_database = database, pc_connection_uri = None\<rparr>)"

definition parse_url ::
  "UrlApi \<Rightarrow> (jsstring \<times> ResolvedDriver) list \<Rightarrow> ConnectionStringDriver list \<Rightarrow> jsstring
   \<Rightarrow> ConnectionStringError + ParsedConnectionString" where
  "parse_url api reg drivers trimmed =
     (case new_URL api trimmed of
        None \<Rightarrow> Inl InvalidConnectionString
      | Some url \<Rightarrow>
          (let protocol = normalizeProtocol (url_protocol url) in
           case map_of reg protocol of
             None \<Rightarrow> Inl (UnsupportedDriver protocol (getSupportedConnectionStringProtocols api drivers))
           | Some d \<Rightarrow> if rd_local d then parse_local api d url else parse_remote api d protocol url))"

definition parseConnectionString ::
  "UrlApi \<Rightarrow> jsstring \<Rightarrow> ConnectionStringDriver list \<Rightarrow> ConnectionStringError + ParsedConnectionString" where
  "parseConnectionString api s drivers =
     (if trim s = [] then Inl EmptyConnectionString
      else (let reg = buildProtocolRegistry api drivers; trimmed = unwrapped reg (trim s) in
            case declared_driver reg trimmed of
              Some d \<Rightarrow>
                if rd_passthrough d then
                  (case getPassthroughDisplayUrl api trimmed (rd_opaque d) of
                     None \<Rightarrow> Inl InvalidConnectionString
                   | Some url \<Rightarrow>
                       Inr \<lparr>pc_driver = rd_id d, pc_host = text_opt (url_hostname url), pc_port = port_of url,
                            pc_username = map_option (decodeUriPart api) (text_opt (url_username url)), pc_password = None,
                            pc_ssl_mode = None, pc_database = decodeUriPart api (strip_slash (url_pathname url)),
                            pc_connection_uri = Some trimmed\<rparr>)
                else parse_url api reg drivers trimmed
            | None \<Rightarrow> parse_url api reg drivers trimmed))"

definition looksLikeConnectionString :: "UrlApi \<Rightarrow> jsstring \<Rightarrow> ConnectionStringDriver list \<Rightarrow> bool" where
  "looksLikeConnectionString api s drivers =
     (if trim s = [] then False
      else (let reg = buildProtocolRegistry api drivers; trimmed = unwrapped reg (trim s);
                as_url = (case new_URL api trimmed of
                            None \<Rightarrow> False
                          | Some url \<Rightarrow> map_of reg (normalizeProtocol (url_protocol url)) \<noteq> None)
            in case declared_driver reg trimmed of
                 Some d \<Rightarrow> if rd_passthrough d then getPassthroughDisplayUrl api trimmed (rd_opaque d) \<noteq> None else as_url
               | None \<Rightarrow> as_url))"

section \<open>Who owns a protocol\<close>

text \<open>A driver claims a protocol by its id or by the example of a connection string, or declares it as one of its schemes.\<close>

definition claims :: "UrlApi \<Rightarrow> jsstring \<Rightarrow> ConnectionStringDriver \<Rightarrow> bool" where
  "claims api p d \<longleftrightarrow>
     can_import d \<and> p \<noteq> [] \<and> (normalizeProtocol (csd_id d) = p \<or> getProtocolFromExample api (example_of d) = Some p)"

definition declares :: "jsstring \<Rightarrow> ConnectionStringDriver \<Rightarrow> bool" where
  "declares p d \<longleftrightarrow> can_import d \<and> p \<in> set (getExtraProtocols (csd_capabilities d))"

definition owner_of :: "UrlApi \<Rightarrow> ConnectionStringDriver list \<Rightarrow> jsstring \<Rightarrow> ConnectionStringDriver option" where
  "owner_of api ds p =
     (if filter (claims api p) ds \<noteq> [] then Some (last (filter (claims api p) ds)) else find (declares p) ds)"

definition alias_of :: "jsstring \<Rightarrow> jsstring option" where
  "alias_of p = (case getProtocolAliases p of [q] \<Rightarrow> Some q | _ \<Rightarrow> None)"

lemma map_of_set_if_absent:
  "map_of (set_if_absent reg e) q = (if map_of reg q = None \<and> q = fst e then Some (snd e) else map_of reg q)"
  by (cases e) (auto simp: set_if_absent_def)

lemma map_of_set_all_absent:
  "map_of (foldl (\<lambda>r p. set_if_absent r (p, v)) reg ps) q =
     (if map_of reg q = None \<and> q \<in> set ps then Some v else map_of reg q)"
  by (induction ps arbitrary: reg) (auto simp: map_of_set_if_absent)

lemma map_of_register:
  "map_of (register_driver api reg d) p =
     (if claims api p d then Some (resolved_driver d)
      else if map_of reg p = None \<and> declares p d then Some (resolved_driver d) else map_of reg p)"
proof (cases "can_import d")
  case False
  then show ?thesis by (simp add: register_driver_def claims_def declares_def)
next
  case True
  let ?id = "normalizeProtocol (csd_id d)" and ?ex = "getProtocolFromExample api (example_of d)"
  let ?reg1 = "if ?id \<noteq> [] then set_prop reg (?id, resolved_driver d) else reg"
  let ?reg2 = "case ?ex of Some p \<Rightarrow> if p \<noteq> [] then set_prop ?reg1 (p, resolved_driver d) else ?reg1 | None \<Rightarrow> ?reg1"
  have one: "map_of ?reg1 p = (if p \<noteq> [] \<and> ?id = p then Some (resolved_driver d) else map_of reg p)" by auto
  have two: "map_of ?reg2 p = (if claims api p d then Some (resolved_driver d) else map_of reg p)"
  proof (cases ?ex)
    case None
    then show ?thesis using True one by (simp add: claims_def)
  next
    case (Some e)
    show ?thesis unfolding Some option.case claims_def using True one by (cases "e = []"; cases "p = e") simp_all
  qed
  have "register_driver api reg d = foldl (\<lambda>r p. set_if_absent r (p, resolved_driver d)) ?reg2 (getExtraProtocols (csd_capabilities d))"
    using True by (simp only: register_driver_def Let_def if_False not_True_eq_False)
  then show ?thesis using True by (simp add: map_of_set_all_absent two declares_def)
qed

lemma find_one_more: "find P (xs @ [x]) = (case find P xs of Some y \<Rightarrow> Some y | None \<Rightarrow> if P x then Some x else None)"
  by (induction xs) simp_all

lemma owner_of_snoc:
  "owner_of api (ds @ [d]) p =
     (if claims api p d then Some d else if owner_of api ds p = None \<and> declares p d then Some d else owner_of api ds p)"
  by (auto simp: owner_of_def find_one_more split: option.split)

lemma map_of_registered: "map_of (foldl (register_driver api) [] ds) p = map_option resolved_driver (owner_of api ds p)"
proof (induction ds rule: rev_induct)
  case Nil
  show ?case by (simp add: owner_of_def)
next
  case (snoc d ds)
  show ?case by (simp add: map_of_register owner_of_snoc snoc)
qed

lemma alias_iff: "p \<in> set (getProtocolAliases q) \<longleftrightarrow> alias_of p = Some q"
  by (auto simp: alias_of_def getProtocolAliases_def PROTOCOL_ALIAS_GROUPS_def)

lemma map_of_add_aliases:
  "map_of (add_aliases reg) p = (if map_of reg p = None then Option.bind (alias_of p) (map_of reg) else map_of reg p)"
proof -
  have all: "map_of (foldl (\<lambda>r (protocol, resolved). foldl (\<lambda>r a. set_if_absent r (a, resolved)) r (getProtocolAliases protocol)) r es) p =
      (if map_of r p = None then Option.bind (alias_of p) (map_of es) else map_of r p)" for r es
  proof (induction es arbitrary: r)
    case Nil
    show ?case by (cases "alias_of p") simp_all
  next
    case (Cons e es)
    obtain q v where e: "e = (q, v)" by (cases e)
    show ?case unfolding e by (cases "alias_of p") (auto simp: Cons.IH map_of_set_all_absent alias_iff)
  qed
  show ?thesis unfolding add_aliases_def by (rule all)
qed

lemma registry_lookup:
  "map_of (buildProtocolRegistry api drivers) p =
     map_option resolved_driver
       (case owner_of api (resolveDrivers drivers) p of
          Some d \<Rightarrow> Some d
        | None \<Rightarrow> Option.bind (alias_of p) (owner_of api (resolveDrivers drivers)))"
  unfolding buildProtocolRegistry_def map_of_add_aliases map_of_registered
  by (cases "owner_of api (resolveDrivers drivers) p"; cases "alias_of p") simp_all

text \<open>C11 (protocol_owner): a protocol belongs to the last driver that claims it by its id or its example, whatever schemes other drivers
  declare; only one that nobody claims goes to the first driver that declares it, and one that nobody
  registers to the owner of its alias.\<close>

theorem protocol_owner:
  "map_of (buildProtocolRegistry api drivers) p =
     map_option resolved_driver
       (case owner_of api (resolveDrivers drivers) p of
          Some d \<Rightarrow> Some d
        | None \<Rightarrow> Option.bind (alias_of p) (owner_of api (resolveDrivers drivers)))"
  by (rule registry_lookup)

lemma owner_of_mem: "owner_of api ds p = Some d \<Longrightarrow> d \<in> set ds \<and> can_import d"
proof -
  assume o: "owner_of api ds p = Some d"
  show ?thesis
  proof (cases "filter (claims api p) ds = []")
    case True
    with o show ?thesis by (auto simp: owner_of_def find_Some_iff declares_def)
  next
    case False
    then have "last (filter (claims api p) ds) \<in> set (filter (claims api p) ds)" by (rule last_in_set)
    with o False show ?thesis by (auto simp: owner_of_def claims_def)
  qed
qed

lemma registry_mem:
  "map_of (buildProtocolRegistry api drivers) p = Some r \<Longrightarrow>
   \<exists>d \<in> set (resolveDrivers drivers). can_import d \<and> r = resolved_driver d"
proof -
  let ?o = "owner_of api (resolveDrivers drivers)"
  assume "map_of (buildProtocolRegistry api drivers) p = Some r"
  then have "map_option resolved_driver (case ?o p of Some d \<Rightarrow> Some d | None \<Rightarrow> Option.bind (alias_of p) ?o) = Some r"
    unfolding registry_lookup .
  then obtain d q where "?o q = Some d" "r = resolved_driver d"
    by (cases "?o p"; cases "alias_of p") auto
  with owner_of_mem show ?thesis by blast
qed

section \<open>Results\<close>

lemma parse_local_error: "parse_local api d url = Inl e \<Longrightarrow> e = MissingDatabasePath"
  by (auto simp: parse_local_def Let_def split: if_splits)

lemma parse_remote_error: "parse_remote api d protocol url = Inl e \<Longrightarrow> e = MissingDatabaseName"
  by (auto simp: parse_remote_def Let_def split: if_splits)

text \<open>Property (looks_like_iff_only_name_missing): a text looks like a connection string exactly when parsing it succeeds or fails only because it names no
  database.\<close>

theorem looks_like_iff_only_name_missing:
  "looksLikeConnectionString api s drivers \<longleftrightarrow>
     (case parseConnectionString api s drivers of
        Inr _ \<Rightarrow> True
      | Inl e \<Rightarrow> e = MissingDatabasePath \<or> e = MissingDatabaseName)"
proof -
  have u: "(case parse_url api reg drivers t of Inr _ \<Rightarrow> True | Inl e \<Rightarrow> e = MissingDatabasePath \<or> e = MissingDatabaseName) \<longleftrightarrow>
      (case new_URL api t of None \<Rightarrow> False | Some url \<Rightarrow> map_of reg (normalizeProtocol (url_protocol url)) \<noteq> None)" for reg t
    using parse_local_error parse_remote_error
    by (auto simp: parse_url_def Let_def split: option.split sum.split)
  show ?thesis
    by (simp add: looksLikeConnectionString_def parseConnectionString_def Let_def u split: option.split)
qed

text \<open>Property (parsed_string_has_an_owner): what is parsed is given to a driver that may import connection strings; only a driver that asks for it
  gets the string itself, and then the password is not taken out of it.\<close>

theorem parsed_string_has_an_owner:
  assumes "parseConnectionString api s drivers = Inr r"
  shows "\<exists>d \<in> set (resolveDrivers drivers). can_import d \<and> pc_driver r = csd_id d
    \<and> (case pc_connection_uri r of
         Some u \<Rightarrow> uriPassthroughEnabled (csd_capabilities d) \<and> pc_password r = None
           \<and> u = unwrapped (buildProtocolRegistry api drivers) (trim s)
       | None \<Rightarrow> True)"
proof -
  define reg where "reg = buildProtocolRegistry api drivers"
  define t where "t = unwrapped reg (trim s)"
  have from_reg: "\<exists>d \<in> set (resolveDrivers drivers). can_import d \<and> v = resolved_driver d" if "map_of reg p = Some v" for p v
    using registry_mem that by (simp add: reg_def)
  have rest: "\<exists>d \<in> set (resolveDrivers drivers). can_import d \<and> pc_driver r = csd_id d" "pc_connection_uri r = None"
    if "parse_url api reg drivers t = Inr r"
  proof -
    from that obtain url v where u: "map_of reg (normalizeProtocol (url_protocol url)) = Some v"
        "(if rd_local v then parse_local api v url else parse_remote api v (normalizeProtocol (url_protocol url)) url) = Inr r"
      by (auto simp: parse_url_def Let_def split: option.splits)
    then have "pc_driver r = rd_id v" and n: "pc_connection_uri r = None"
      by (auto simp: parse_local_def parse_remote_def Let_def split: if_splits)
    with from_reg [OF u(1)] show "\<exists>d \<in> set (resolveDrivers drivers). can_import d \<and> pc_driver r = csd_id d"
      by (auto simp: resolved_driver_def)
    show "pc_connection_uri r = None" by (rule n)
  qed
  show ?thesis
  proof (cases "\<exists>v. declared_driver reg t = Some v \<and> rd_passthrough v")
    case False
    then have "parse_url api reg drivers t = Inr r"
      using assms by (auto simp: parseConnectionString_def Let_def reg_def t_def split: if_splits option.splits)
    from rest [OF this] show ?thesis by auto
  next
    case True
    then obtain v where v: "declared_driver reg t = Some v" "rd_passthrough v" by blast
    then obtain p where p: "map_of reg p = Some v" by (auto simp: declared_driver_def bind_eq_Some_conv)
    have "pc_driver r = rd_id v" "pc_connection_uri r = Some t" "pc_password r = None"
      using assms v by (auto simp: parseConnectionString_def Let_def reg_def t_def split: if_splits option.splits)
    with from_reg [OF p] v(2) show ?thesis by (auto simp: resolved_driver_def t_def reg_def)
  qed
qed

lemma peel_done: "\<not> (length (peel s) \<ge> 2 \<and> matchingQuoteClose (hd (peel s)) = Some (last (peel s)))"
proof (induction s rule: peel.induct)
  case (1 s)
  show ?case
  proof (cases "length s \<ge> 2 \<and> matchingQuoteClose (hd s) = Some (last s)")
    case True
    then show ?thesis using 1 by (simp add: peel.simps [of s])
  next
    case False
    then have "peel s = s" by (subst peel.simps) (rule if_not_P)
    with False show ?thesis by simp
  qed
qed

section \<open>A claimed scheme\<close>

text \<open>A small URL parser to run the functions with: scheme, user and password, host, path.\<close>

definition sample_url :: "jsstring \<Rightarrow> Url option" where
  "sample_url s =
     (case scheme_of s of
        None \<Rightarrow> None
      | Some (name, rest) \<Rightarrow>
          (let body = drop 2 rest; authority = takeWhile (\<lambda>c. c \<noteq> CHR ''/'') body; hosts = after_last_at authority;
               creds = take (length authority - length hosts - 1) authority
           in Some \<lparr>url_protocol = lower name @ '':'', url_hostname = hosts, url_port = [],
                    url_username = takeWhile (\<lambda>c. c \<noteq> CHR '':'') creds, url_password = drop 1 (dropWhile (\<lambda>c. c \<noteq> CHR '':'') creds),
                    url_pathname = dropWhile (\<lambda>c. c \<noteq> CHR ''/'') body, url_params = []\<rparr>))"

definition sample_driver :: "jsstring \<Rightarrow> jsstring \<Rightarrow> jsstring list \<Rightarrow> ConnectionStringDriver" where
  "sample_driver i example schemes =
     \<lparr>csd_id = i, csd_capabilities = Some
       \<lparr>uc_file_based = False, uc_folder_based = False, uc_connection_string = None, uc_connectionString = None,
        uc_connection_uri = None, uc_connectionUri = None, uc_uri_schemes = Some schemes, uc_uriSchemes = None,
        uc_example = Some example, uc_exampleCamel = None\<rparr>\<rparr>"

definition sample_api :: UrlApi where
  "sample_api = \<lparr>new_URL = sample_url, decodeURIComponent = Some\<rparr>"

lemma parse_plain:
  assumes "trim s \<noteq> []" "buildProtocolRegistry api drivers = reg" "unwrapped reg (trim s) = t"
    "map_option rd_passthrough (declared_driver reg t) = Some False"
    "new_URL api t = Some url" "map_of reg (normalizeProtocol (url_protocol url)) = Some v" "\<not> rd_local v"
  shows "parseConnectionString api s drivers = parse_remote api v (normalizeProtocol (url_protocol url)) url"
  using assms by (auto simp: parseConnectionString_def parse_url_def Let_def)

text \<open>A plugin that declares the scheme of a built-in driver gets nothing, but one whose example starts with it and that
  is listed later gets the string with its password.\<close>

theorem example_captures_builtin:
  "map_sum id (\<lambda>r. (pc_driver r, pc_password r)) (parseConnectionString sample_api ''postgres://me:secret@db/app''
      [sample_driver ''postgres'' ''postgres://u@h/db'' [], sample_driver ''zz'' [] [''postgres'']])
    = Inr (''postgres'', Some ''secret'')
   \<and> map_sum id (\<lambda>r. (pc_driver r, pc_password r)) (parseConnectionString sample_api ''postgres://me:secret@db/app''
      [sample_driver ''postgres'' ''postgres://u@h/db'' [], sample_driver ''zz'' ''postgres://x'' []])
    = Inr (''zz'', Some ''secret'')"
proof -
  let ?s = "''postgres://me:secret@db/app''" and ?b = "sample_driver ''postgres'' ''postgres://u@h/db'' []"
  let ?own = "\<lambda>i e. resolved_driver (sample_driver i e [])"
  let ?url = "the (sample_url ?s)"
  have one: "parseConnectionString sample_api ?s [?b, sample_driver ''zz'' [] [''postgres'']] =
      parse_remote sample_api (?own ''postgres'' []) (normalizeProtocol (url_protocol ?url)) ?url"
    by (rule parse_plain [where reg = "[(''postgres'', ?own ''postgres'' []), (''zz'', ?own ''zz'' []), (''postgresql'', ?own ''postgres'' [])]" and t = ?s])
      code_simp+
  have two: "parseConnectionString sample_api ?s [?b, sample_driver ''zz'' ''postgres://x'' []] =
      parse_remote sample_api (?own ''zz'' []) (normalizeProtocol (url_protocol ?url)) ?url"
    by (rule parse_plain [where reg = "[(''postgres'', ?own ''zz'' []), (''zz'', ?own ''zz'' []), (''postgresql'', ?own ''zz'' [])]" and t = ?s])
      code_simp+
  show ?thesis unfolding one two by code_simp
qed

end
