(* ===== verification/ApprovalWindow.thy ===== *)
theory ApprovalWindow
  imports Prelude
begin

text \<open>
  The window that asks for an approval (\<open>utils/mcpApprovalAttention.ts\<close>, without notification and sound): it is brought to the front and
  later put back as it was. The module's variables are a record, with the window itself as the platform
  keeps it; a call of the window takes effect when it is made and says whether it worked. The two \<open>async\<close>
  functions are cut at their \<open>await\<close>s: a task is what is still awaited and what the function knows.
  Asking for the user's attention and for the focus changes nothing of the window that is restored.
\<close>

section \<open>State\<close>

record AppWindow =
  win_onTop :: bool
  win_visible :: bool
  win_minimized :: bool

record WindowAttentionSnapshot =
  sn_alwaysOnTop :: "bool option"
  sn_visible :: "bool option"
  sn_minimized :: "bool option"

text \<open>\<open>windowAttentionSnapshot\<close> is \<open>None\<close> while undefined and \<open>Some None\<close> when it is \<open>null\<close>.\<close>

record Attention =
  approvalAttentionOwnerId :: "jsstring option"
  approvalAttentionVersion :: nat
  windowAttentionSnapshot :: "WindowAttentionSnapshot option option"
  windowAttentionSnapshotApprovalId :: "jsstring option"
  app_window :: AppWindow

definition hasWindowAttentionSnapshot :: "WindowAttentionSnapshot option option \<Rightarrow> WindowAttentionSnapshot option" where
  "hasWindowAttentionSnapshot v =
     (case v of
        Some (Some s) \<Rightarrow> if sn_alwaysOnTop s \<noteq> None \<or> sn_visible s \<noteq> None \<or> sn_minimized s \<noteq> None then Some s else None
      | _ \<Rightarrow> None)"

text \<open>The three answers; a call that fails leaves its part out.\<close>

definition captureWindowAttentionSnapshot :: "bool \<Rightarrow> bool \<Rightarrow> bool \<Rightarrow> AppWindow \<Rightarrow> WindowAttentionSnapshot option" where
  "captureWindowAttentionSnapshot ok1 ok2 ok3 w =
     hasWindowAttentionSnapshot (Some (Some
       \<lparr>sn_alwaysOnTop = (if ok1 then Some (win_onTop w) else None), sn_visible = (if ok2 then Some (win_visible w) else None),
        sn_minimized = (if ok3 then Some (win_minimized w) else None)\<rparr>))"

definition isCurrentApprovalAttention :: "jsstring \<Rightarrow> nat \<Rightarrow> Attention \<Rightarrow> bool" where
  "isCurrentApprovalAttention i v s \<longleftrightarrow> approvalAttentionOwnerId s = Some i \<and> approvalAttentionVersion s = v"

section \<open>Bringing the window to the front\<close>

datatype FocusTask =
    AwaitCapture jsstring nat "WindowAttentionSnapshot option"
  | AwaitAttention jsstring nat
  | AwaitShow jsstring nat
  | AwaitUnminimize jsstring nat
  | AwaitOnTop jsstring nat
  | AwaitFocus jsstring nat
  | AwaitLast

text \<open>What follows the snapshot: with none the window is only asked to draw attention.\<close>

definition focus_after_snapshot :: "bool \<Rightarrow> jsstring \<Rightarrow> nat \<Rightarrow> Attention \<Rightarrow> Attention \<times> FocusTask option" where
  "focus_after_snapshot ok i v s =
     (case hasWindowAttentionSnapshot (windowAttentionSnapshot s) of
        None \<Rightarrow> (s, Some (AwaitAttention i v))
      | Some _ \<Rightarrow> ((if ok then s\<lparr>app_window := (app_window s)\<lparr>win_visible := True\<rparr>\<rparr> else s), Some (AwaitShow i v)))"

definition focusWindowForApproval :: "bool \<Rightarrow> WindowAttentionSnapshot option \<Rightarrow> jsstring \<Rightarrow> Attention \<Rightarrow> Attention \<times> FocusTask option" where
  "focusWindowForApproval ok captured i s =
     (let v = approvalAttentionVersion s + 1;
          s = s\<lparr>approvalAttentionOwnerId := Some i, approvalAttentionVersion := v\<rparr>
      in if windowAttentionSnapshot s = None \<or> windowAttentionSnapshotApprovalId s \<noteq> Some i
         then (s, Some (AwaitCapture i v captured))
         else focus_after_snapshot ok i v s)"

fun focus_resumes :: "bool \<Rightarrow> FocusTask \<Rightarrow> Attention \<Rightarrow> Attention \<times> FocusTask option" where
  "focus_resumes ok (AwaitCapture i v captured) s =
     (let s = s\<lparr>windowAttentionSnapshot := Some captured, windowAttentionSnapshotApprovalId := Some i\<rparr>
      in if isCurrentApprovalAttention i v s then focus_after_snapshot ok i v s else (s, None))"
| "focus_resumes ok (AwaitAttention i v) s =
     (if isCurrentApprovalAttention i v s then (s, Some AwaitLast) else (s, None))"
| "focus_resumes ok (AwaitShow i v) s =
     (if isCurrentApprovalAttention i v s
      then ((if ok then s\<lparr>app_window := (app_window s)\<lparr>win_minimized := False\<rparr>\<rparr> else s), Some (AwaitUnminimize i v))
      else (s, None))"
| "focus_resumes ok (AwaitUnminimize i v) s =
     (if isCurrentApprovalAttention i v s
      then (case hasWindowAttentionSnapshot (windowAttentionSnapshot s) of
              Some sn \<Rightarrow>
                if sn_alwaysOnTop sn \<noteq> None
                then ((if ok then s\<lparr>app_window := (app_window s)\<lparr>win_onTop := True\<rparr>\<rparr> else s), Some (AwaitOnTop i v))
                else (s, Some (AwaitFocus i v))
            | None \<Rightarrow> (s, Some (AwaitFocus i v)))
      else (s, None))"
| "focus_resumes ok (AwaitOnTop i v) s = (if isCurrentApprovalAttention i v s then (s, Some (AwaitFocus i v)) else (s, None))"
| "focus_resumes ok (AwaitFocus i v) s = (if isCurrentApprovalAttention i v s then (s, Some AwaitLast) else (s, None))"
| "focus_resumes ok AwaitLast s = (s, None)"

section \<open>Putting the window back\<close>

datatype RestoreCall = SetOnTop bool | MinimizeWindow | HideWindow

definition restore_calls :: "WindowAttentionSnapshot \<Rightarrow> RestoreCall list" where
  "restore_calls sn =
     (case sn_alwaysOnTop sn of Some b \<Rightarrow> [SetOnTop b] | None \<Rightarrow> [])
     @ (if sn_minimized sn = Some True then [MinimizeWindow] else [])
     @ (if sn_visible sn = Some False then [HideWindow] else [])"

fun window_call :: "RestoreCall \<Rightarrow> AppWindow \<Rightarrow> AppWindow" where
  "window_call (SetOnTop b) w = w\<lparr>win_onTop := b\<rparr>"
| "window_call MinimizeWindow w = w\<lparr>win_minimized := True\<rparr>"
| "window_call HideWindow w = w\<lparr>win_visible := False\<rparr>"

text \<open>What is kept for another try when a call fails.\<close>

fun keep_for_later :: "RestoreCall \<Rightarrow> WindowAttentionSnapshot \<Rightarrow> WindowAttentionSnapshot" where
  "keep_for_later (SetOnTop b) sn = sn\<lparr>sn_alwaysOnTop := Some b\<rparr>"
| "keep_for_later MinimizeWindow sn = sn\<lparr>sn_minimized := Some True\<rparr>"
| "keep_for_later HideWindow sn = sn\<lparr>sn_visible := Some False\<rparr>"

record RestoreTask =
  rt_approval :: jsstring
  rt_todo :: "RestoreCall list"
  rt_remaining :: WindowAttentionSnapshot

text \<open>The next call, or the end: the module forgets the snapshot or keeps what could not be restored.\<close>

definition restore_resumes :: "bool \<Rightarrow> RestoreTask \<Rightarrow> Attention \<Rightarrow> Attention \<times> RestoreTask option" where
  "restore_resumes ok t s =
     (case rt_todo t of
        c # cs \<Rightarrow>
          ((if ok then s\<lparr>app_window := window_call c (app_window s)\<rparr> else s),
           Some (t\<lparr>rt_todo := cs, rt_remaining := (if ok then rt_remaining t else keep_for_later c (rt_remaining t))\<rparr>))
      | [] \<Rightarrow>
          (case hasWindowAttentionSnapshot (Some (Some (rt_remaining t))) of
             Some sn \<Rightarrow> (s\<lparr>windowAttentionSnapshot := Some (Some sn), windowAttentionSnapshotApprovalId := Some (rt_approval t)\<rparr>, None)
           | None \<Rightarrow> (s\<lparr>windowAttentionSnapshot := None, windowAttentionSnapshotApprovalId := None\<rparr>, None)))"

definition restoreWindowAlwaysOnTop :: "bool \<Rightarrow> jsstring option \<Rightarrow> Attention \<Rightarrow> Attention \<times> RestoreTask option" where
  "restoreWindowAlwaysOnTop ok approvalId s =
     (case approvalId of
        None \<Rightarrow> (s, None)
      | Some i \<Rightarrow>
          if i = [] \<or> (approvalAttentionOwnerId s \<noteq> Some i \<and> windowAttentionSnapshotApprovalId s \<noteq> Some i) then (s, None)
          else (let s = (if approvalAttentionOwnerId s = Some i
                         then s\<lparr>approvalAttentionOwnerId := None, approvalAttentionVersion := approvalAttentionVersion s + 1\<rparr> else s)
                in case hasWindowAttentionSnapshot (windowAttentionSnapshot s) of
                     None \<Rightarrow> (s\<lparr>windowAttentionSnapshot := None, windowAttentionSnapshotApprovalId := None\<rparr>, None)
                   | Some sn \<Rightarrow>
                       restore_resumes ok
                         \<lparr>rt_approval = i, rt_todo = restore_calls sn,
                          rt_remaining = \<lparr>sn_alwaysOnTop = None, sn_visible = None, sn_minimized = None\<rparr>\<rparr> s))"

section \<open>One approval\<close>

text \<open>The window is brought to the front for one approval and put back at any time after, also before the first function
  has finished; all calls work. The stages say how far the two functions are.\<close>

datatype 'a Stage = NotStarted | Awaiting 'a | Finished

fun stage :: "'a option \<Rightarrow> 'a Stage" where
  "stage None = Finished"
| "stage (Some t) = Awaiting t"

definition untouched :: "AppWindow \<Rightarrow> nat \<Rightarrow> Attention" where
  "untouched w v = \<lparr>approvalAttentionOwnerId = None, approvalAttentionVersion = v, windowAttentionSnapshot = None,
     windowAttentionSnapshotApprovalId = None, app_window = w\<rparr>"

inductive approval_session ::
  "jsstring \<Rightarrow> AppWindow \<Rightarrow> nat \<Rightarrow> Attention \<Rightarrow> FocusTask Stage \<Rightarrow> RestoreTask Stage \<Rightarrow> bool" for i w v where
  start: "approval_session i w v (untouched w v) NotStarted NotStarted"
| focus: "approval_session i w v s NotStarted NotStarted \<Longrightarrow>
    focusWindowForApproval True (captureWindowAttentionSnapshot True True True (app_window s)) i s = (s', f) \<Longrightarrow>
    approval_session i w v s' (stage f) NotStarted"
| focus_goes_on: "approval_session i w v s (Awaiting t) r \<Longrightarrow> focus_resumes True t s = (s', f) \<Longrightarrow>
    approval_session i w v s' (stage f) r"
| restore: "approval_session i w v s f NotStarted \<Longrightarrow> f \<noteq> NotStarted \<Longrightarrow>
    restoreWindowAlwaysOnTop True (Some i) s = (s', r) \<Longrightarrow> approval_session i w v s' f (stage r)"
| restore_goes_on: "approval_session i w v s f (Awaiting t) \<Longrightarrow> restore_resumes True t s = (s', r) \<Longrightarrow>
    approval_session i w v s' f (stage r)"

definition full_snapshot :: "AppWindow \<Rightarrow> WindowAttentionSnapshot" where
  "full_snapshot w = \<lparr>sn_alwaysOnTop = Some (win_onTop w), sn_visible = Some (win_visible w), sn_minimized = Some (win_minimized w)\<rparr>"

lemma capture_full: "captureWindowAttentionSnapshot True True True w = Some (full_snapshot w)"
  by (simp add: captureWindowAttentionSnapshot_def hasWindowAttentionSnapshot_def full_snapshot_def)

lemma has_full [simp]: "hasWindowAttentionSnapshot (Some (Some (full_snapshot w))) = Some (full_snapshot w)"
  by (simp add: hasWindowAttentionSnapshot_def full_snapshot_def)

lemma has_none [simp]: "hasWindowAttentionSnapshot None = None" "hasWindowAttentionSnapshot (Some None) = None"
  "hasWindowAttentionSnapshot (Some (Some \<lparr>sn_alwaysOnTop = None, sn_visible = None, sn_minimized = None\<rparr>)) = None"
  by (simp_all add: hasWindowAttentionSnapshot_def)

text \<open>Doing the calls of the snapshot on a window that differs from the old one only where the front was asked for.\<close>

definition fronted :: "AppWindow \<Rightarrow> AppWindow \<Rightarrow> bool" where
  "fronted w x \<longleftrightarrow> (win_onTop x = win_onTop w \<or> win_onTop x) \<and> (win_visible x = win_visible w \<or> win_visible x)
     \<and> (win_minimized x = win_minimized w \<or> \<not> win_minimized x)"

lemma restore_calls_undo: "fronted w x \<Longrightarrow> foldl (\<lambda>y c. window_call c y) x (restore_calls (full_snapshot w)) = w"
  by (cases w; cases x) (auto simp: fronted_def restore_calls_def full_snapshot_def)

text \<open>The version a waiting \<open>focusWindowForApproval\<close> runs under, and that it belongs to the approval.\<close>

fun task_of :: "jsstring \<Rightarrow> nat \<Rightarrow> FocusTask \<Rightarrow> bool" where
  "task_of i v (AwaitCapture j u c) \<longleftrightarrow> j = i \<and> u = v"
| "task_of i v (AwaitAttention j u) \<longleftrightarrow> j = i \<and> u = v"
| "task_of i v (AwaitShow j u) \<longleftrightarrow> j = i \<and> u = v"
| "task_of i v (AwaitUnminimize j u) \<longleftrightarrow> j = i \<and> u = v"
| "task_of i v (AwaitOnTop j u) \<longleftrightarrow> j = i \<and> u = v"
| "task_of i v (AwaitFocus j u) \<longleftrightarrow> j = i \<and> u = v"
| "task_of i v AwaitLast \<longleftrightarrow> True"

text \<open>While the window has not been asked back: either the snapshot is on its way, or it is there.\<close>

definition in_front :: "jsstring \<Rightarrow> AppWindow \<Rightarrow> nat \<Rightarrow> Attention \<Rightarrow> FocusTask Stage \<Rightarrow> bool" where
  "in_front i w v s f \<longleftrightarrow>
     isCurrentApprovalAttention i (v + 1) s
     \<and> (f = Awaiting (AwaitCapture i (v + 1) (Some (full_snapshot w))) \<and> windowAttentionSnapshot s = None \<and> app_window s = w
        \<or> (\<forall>c. f \<noteq> Awaiting (AwaitCapture i (v + 1) c)) \<and> windowAttentionSnapshot s = Some (Some (full_snapshot w)) \<and> fronted w (app_window s))"

definition given_back :: "AppWindow \<Rightarrow> nat \<Rightarrow> Attention \<Rightarrow> RestoreTask Stage \<Rightarrow> bool" where
  "given_back w v s r \<longleftrightarrow>
     approvalAttentionVersion s = v + 2
     \<and> (case r of
          Finished \<Rightarrow> app_window s = w
        | Awaiting t \<Rightarrow> foldl (\<lambda>y c. window_call c y) (app_window s) (rt_todo t) = w
            \<and> hasWindowAttentionSnapshot (Some (Some (rt_remaining t))) = None
        | NotStarted \<Rightarrow> False)"

definition session_ok :: "jsstring \<Rightarrow> AppWindow \<Rightarrow> nat \<Rightarrow> Attention \<Rightarrow> FocusTask Stage \<Rightarrow> RestoreTask Stage \<Rightarrow> bool" where
  "session_ok i w v s f r \<longleftrightarrow>
     (case f of NotStarted \<Rightarrow> s = untouched w v \<and> r = NotStarted
      | _ \<Rightarrow> (\<forall>t. f = Awaiting t \<longrightarrow> task_of i (v + 1) t)
          \<and> (if r = NotStarted then in_front i w v s f else given_back w v s r))"

lemma restore_step_ok:
  assumes "approvalAttentionVersion s = v + 2" "foldl (\<lambda>y c. window_call c y) (app_window s) (rt_todo t) = w"
    "hasWindowAttentionSnapshot (Some (Some (rt_remaining t))) = None" "restore_resumes True t s = (s', r)"
  shows "given_back w v s' (stage r)"
proof (cases "rt_todo t")
  case Nil
  then show ?thesis using assms by (auto simp: restore_resumes_def given_back_def)
next
  case (Cons c cs)
  then show ?thesis using assms by (auto simp: restore_resumes_def given_back_def)
qed

lemma snapshot_onTop [simp]: "sn_alwaysOnTop (full_snapshot w) = Some (win_onTop w)"
  by (simp add: full_snapshot_def)

lemma focus_after_full:
  "windowAttentionSnapshot s = Some (Some (full_snapshot w)) \<Longrightarrow> focus_after_snapshot True i v s =
     (s\<lparr>app_window := (app_window s)\<lparr>win_visible := True\<rparr>\<rparr>, Some (AwaitShow i v))"
  by (simp add: focus_after_snapshot_def)

text \<open>Away from the capture a task goes on with the same snapshot, and changes the window towards the front only.\<close>

lemma fronted_more: "fronted w x \<Longrightarrow> fronted w (x\<lparr>win_visible := True\<rparr>)" "fronted w x \<Longrightarrow> fronted w (x\<lparr>win_minimized := False\<rparr>)"
  "fronted w x \<Longrightarrow> fronted w (x\<lparr>win_onTop := True\<rparr>)" "fronted w w"
  by (auto simp: fronted_def)

lemma in_front_goes_on:
  assumes "in_front i w v s (Awaiting t)" "task_of i (v + 1) t" "focus_resumes True t s = (s', f)"
  shows "in_front i w v s' (stage f) \<and> (\<forall>t. f = Some t \<longrightarrow> task_of i (v + 1) t)"
proof -
  have cur: "isCurrentApprovalAttention i (v + 1) s" using assms(1) by (simp add: in_front_def)
  have keep: "in_front i w v (s\<lparr>app_window := x\<rparr>) g" if "\<forall>c. g \<noteq> Awaiting (AwaitCapture i (v + 1) c)" "fronted w x"
      "windowAttentionSnapshot s = Some (Some (full_snapshot w))" for x g
    using that cur by (simp add: in_front_def isCurrentApprovalAttention_def)
  have same: "s\<lparr>app_window := app_window s\<rparr> = s" by simp
  show ?thesis
  proof (cases "\<exists>c. t = AwaitCapture i (v + 1) c")
    case True
    then have t: "t = AwaitCapture i (v + 1) (Some (full_snapshot w))" "app_window s = w" using assms(1) by (auto simp: in_front_def)
    let ?s = "s\<lparr>windowAttentionSnapshot := Some (Some (full_snapshot w)), windowAttentionSnapshotApprovalId := Some i\<rparr>"
    have "isCurrentApprovalAttention i (v + 1) ?s" using cur by (simp add: isCurrentApprovalAttention_def)
    then have "s' = ?s\<lparr>app_window := (app_window ?s)\<lparr>win_visible := True\<rparr>\<rparr>" "f = Some (AwaitShow i (v + 1))"
      using assms(3) by (simp_all add: t focus_after_full Let_def)
    then show ?thesis using cur t(2) fronted_more by (simp add: in_front_def isCurrentApprovalAttention_def)
  next
    case False
    then have sn: "windowAttentionSnapshot s = Some (Some (full_snapshot w))" "fronted w (app_window s)"
      using assms(1) by (auto simp: in_front_def)
    have stay: "in_front i w v s g" if "\<forall>c. g \<noteq> Awaiting (AwaitCapture i (v + 1) c)" for g
      using keep [OF that sn(2,1)] unfolding same .
    show ?thesis
    proof (cases t)
      case (AwaitShow j u)
      then have "s' = s\<lparr>app_window := (app_window s)\<lparr>win_minimized := False\<rparr>\<rparr>" "f = Some (AwaitUnminimize i (v + 1))"
        using assms(2,3) cur by simp_all
      then show ?thesis using keep [OF _ fronted_more(2) [OF sn(2)] sn(1)] by simp
    next
      case (AwaitUnminimize j u)
      then have "s' = s\<lparr>app_window := (app_window s)\<lparr>win_onTop := True\<rparr>\<rparr>" "f = Some (AwaitOnTop i (v + 1))"
        using assms(2,3) cur sn(1) by simp_all
      then show ?thesis using keep [OF _ fronted_more(3) [OF sn(2)] sn(1)] by simp
    qed (use False assms(2,3) cur stay in auto)
  qed
qed

lemma approval_invariant:
  assumes "i \<noteq> []"
  shows "approval_session i w v s f r \<Longrightarrow> session_ok i w v s f r"
proof (induction rule: approval_session.induct)
  case start
  show ?case by (simp add: session_ok_def)
next
  case (focus s s' f)
  then have s: "s = untouched w v" by (simp add: session_ok_def)
  show ?case using focus.hyps(2) unfolding s
    by (auto simp: focusWindowForApproval_def untouched_def capture_full session_ok_def in_front_def isCurrentApprovalAttention_def)
next
  case (focus_goes_on s t r s' f)
  have t: "task_of i (v + 1) t" using focus_goes_on.IH by (simp add: session_ok_def)
  show ?case
  proof (cases "r = NotStarted")
    case True
    then have "in_front i w v s (Awaiting t)" using focus_goes_on.IH by (simp add: session_ok_def)
    from in_front_goes_on [OF this t focus_goes_on.hyps(2)] True show ?thesis
      by (cases f) (simp_all add: session_ok_def)
  next
    case False
    then have g: "given_back w v s r" using focus_goes_on.IH by (simp add: session_ok_def)
    then have "\<not> isCurrentApprovalAttention i (v + 1) s" by (simp add: given_back_def isCurrentApprovalAttention_def)
    then have f: "f = None" "app_window s' = app_window s" "approvalAttentionVersion s' = approvalAttentionVersion s"
      using focus_goes_on.hyps(2) t by (cases t; auto simp: Let_def isCurrentApprovalAttention_def)+
    have "given_back w v s' r" using g f(2,3) unfolding given_back_def by (cases r) simp_all
    with False f(1) show ?thesis by (simp add: session_ok_def)
  qed
next
  case (restore s f s' r)
  then have fr: "in_front i w v s f" by (simp add: session_ok_def split: Stage.splits)
  then have o: "approvalAttentionOwnerId s = Some i" "approvalAttentionVersion s = v + 1"
    by (simp_all add: in_front_def isCurrentApprovalAttention_def)
  have "given_back w v s' (stage r)"
  proof (cases "windowAttentionSnapshot s = None")
    case True
    then have "app_window s = w" using fr by (auto simp: in_front_def)
    with True o assms restore.hyps(3) show ?thesis by (auto simp: restoreWindowAlwaysOnTop_def given_back_def)
  next
    case False
    then have s: "windowAttentionSnapshot s = Some (Some (full_snapshot w))" "fronted w (app_window s)"
      using fr by (auto simp: in_front_def)
    let ?s = "s\<lparr>approvalAttentionOwnerId := None, approvalAttentionVersion := v + 2\<rparr>"
    have "restore_resumes True \<lparr>rt_approval = i, rt_todo = restore_calls (full_snapshot w),
        rt_remaining = \<lparr>sn_alwaysOnTop = None, sn_visible = None, sn_minimized = None\<rparr>\<rparr> ?s = (s', r)"
      using restore.hyps(3) o s(1) assms by (simp add: restoreWindowAlwaysOnTop_def)
    then show ?thesis by (rule restore_step_ok [rotated 3]) (simp_all add: restore_calls_undo s(2))
  qed
  moreover have "\<forall>t. f = Awaiting t \<longrightarrow> task_of i (v + 1) t" using restore.IH restore.hyps(2) by (simp add: session_ok_def split: Stage.splits)
  moreover have "stage r \<noteq> NotStarted" by (cases r) simp_all
  ultimately show ?case using restore.hyps(2) by (simp add: session_ok_def split: Stage.split)
next
  case (restore_goes_on s f t s' r)
  then have g: "given_back w v s (Awaiting t)" and f: "f \<noteq> NotStarted" "\<forall>u. f = Awaiting u \<longrightarrow> task_of i (v + 1) u"
    by (auto simp: session_ok_def split: Stage.splits)
  have "given_back w v s' (stage r)"
    by (rule restore_step_ok [OF _ _ _ restore_goes_on.hyps(2)]) (use g in \<open>simp_all add: given_back_def\<close>)
  moreover have "stage r \<noteq> NotStarted" by (cases r) simp_all
  ultimately show ?case using f by (simp add: session_ok_def split: Stage.split)
qed

text \<open>C12 (window_is_given_back): for one approval, whenever the window is asked back, also while it is still being brought to the front, it
  ends up on top, visible and minimized exactly as it was before.\<close>

theorem window_is_given_back:
  assumes "approval_session i w v s f Finished" "i \<noteq> []"
  shows "app_window s = w"
  using approval_invariant [OF assms(2,1)] by (auto simp: session_ok_def given_back_def split: Stage.splits)

text \<open>Every wait is followed by at most six others.\<close>

fun waits_left :: "FocusTask \<Rightarrow> nat" where
  "waits_left (AwaitCapture i v c) = 5"
| "waits_left (AwaitAttention i v) = 1"
| "waits_left (AwaitShow i v) = 4"
| "waits_left (AwaitUnminimize i v) = 3"
| "waits_left (AwaitOnTop i v) = 2"
| "waits_left (AwaitFocus i v) = 1"
| "waits_left AwaitLast = 0"

theorem both_functions_end:
  "(case focus_resumes ok t s of (_, f) \<Rightarrow> case f of Some t' \<Rightarrow> waits_left t' < waits_left t | None \<Rightarrow> True)
   \<and> (case restore_resumes ok u s of (_, r) \<Rightarrow> case r of Some u' \<Rightarrow> length (rt_todo u') < length (rt_todo u) | None \<Rightarrow> True)"
  by (cases t) (auto simp: focus_after_snapshot_def restore_resumes_def Let_def split: option.split list.split)

section \<open>Two approvals in a row\<close>

fun run_focus :: "nat \<Rightarrow> Attention \<times> FocusTask option \<Rightarrow> Attention" where
  "run_focus (Suc n) (s, Some t) = run_focus n (focus_resumes True t s)"
| "run_focus n (s, _) = s"

fun run_restore :: "nat \<Rightarrow> Attention \<times> RestoreTask option \<Rightarrow> Attention" where
  "run_restore (Suc n) (s, Some t) = run_restore n (restore_resumes True t s)"
| "run_restore n (s, _) = s"

definition bring_to_front :: "jsstring \<Rightarrow> Attention \<Rightarrow> Attention" where
  "bring_to_front i s = run_focus 6 (focusWindowForApproval True (captureWindowAttentionSnapshot True True True (app_window s)) i s)"

definition put_back :: "jsstring \<Rightarrow> Attention \<Rightarrow> Attention" where
  "put_back i s = run_restore 5 (restoreWindowAlwaysOnTop True (Some i) s)"

text \<open>The gate shows the next pending approval without putting the window back in between. Its snapshot is then taken
  from the window in front, and in the end the window stays on top.\<close>

theorem second_approval_pins_window:
  "let w = \<lparr>win_onTop = False, win_visible = True, win_minimized = True\<rparr> in
   app_window (put_back ''a'' (bring_to_front ''a'' (untouched w 0))) = w
   \<and> app_window (put_back ''b'' (bring_to_front ''b'' (bring_to_front ''a'' (untouched w 0))))
     = \<lparr>win_onTop = True, win_visible = True, win_minimized = False\<rparr>"
  by code_simp

lemma focus_runs:
  "approval_session i w v s (stage g) NotStarted \<Longrightarrow>
   \<exists>f. approval_session i w v (run_focus n (s, g)) f NotStarted \<and> f \<noteq> NotStarted"
proof (induction n arbitrary: s g)
  case 0
  then show ?case by (cases g) auto
next
  case (Suc n)
  show ?case
  proof (cases g)
    case (Some t)
    obtain s' g' where e: "focus_resumes True t s = (s', g')" by (rule prod.exhaust)
    with Suc.prems Some have "approval_session i w v s' (stage g') NotStarted" by (simp add: approval_session.focus_goes_on)
    from Suc.IH [OF this] show ?thesis by (simp add: Some e)
  qed (use Suc.prems in auto)
qed

lemma restore_runs:
  "approval_session i w v s f (stage g) \<Longrightarrow> (case g of Some t \<Rightarrow> length (rt_todo t) | None \<Rightarrow> 0) < n \<Longrightarrow>
   approval_session i w v (run_restore n (s, g)) f Finished"
proof (induction n arbitrary: s g)
  case (Suc n)
  show ?case
  proof (cases g)
    case (Some t)
    obtain s' g' where e: "restore_resumes True t s = (s', g')" by (rule prod.exhaust)
    with Suc.prems Some have s: "approval_session i w v s' f (stage g')" by (simp add: approval_session.restore_goes_on)
    show ?thesis
    proof (cases "rt_todo t")
      case Nil
      then have "g' = None" using e by (auto simp: restore_resumes_def split: option.splits)
      with s show ?thesis by (cases n) (simp_all add: Some e)
    next
      case (Cons c cs)
      then have "(case g' of Some t \<Rightarrow> length (rt_todo t) | None \<Rightarrow> 0) < n"
        using e Suc.prems(2) Some by (auto simp: restore_resumes_def)
      from Suc.IH [OF s this] show ?thesis by (simp add: Some e)
    qed
  qed (use Suc.prems in auto)
qed simp

theorem window_is_given_back_witness:
  "app_window (put_back ''a'' (bring_to_front ''a'' (untouched \<lparr>win_onTop = False, win_visible = False, win_minimized = True\<rparr> 3)))
    = \<lparr>win_onTop = False, win_visible = False, win_minimized = True\<rparr>"
proof -
  let ?w = "\<lparr>win_onTop = False, win_visible = False, win_minimized = True\<rparr>"
  let ?s0 = "untouched ?w 3"
  obtain s1 g1 where 1: "focusWindowForApproval True (captureWindowAttentionSnapshot True True True (app_window ?s0)) ''a'' ?s0 = (s1, g1)"
    by (rule prod.exhaust)
  obtain f where s2: "approval_session ''a'' ?w 3 (bring_to_front ''a'' ?s0) f NotStarted" "f \<noteq> NotStarted"
    using focus_runs [OF approval_session.focus [OF approval_session.start 1], of 6] by (auto simp: bring_to_front_def 1)
  obtain s3 g3 where 3: "restoreWindowAlwaysOnTop True (Some ''a'') (bring_to_front ''a'' ?s0) = (s3, g3)"
    by (rule prod.exhaust)
  have "(case restoreWindowAlwaysOnTop True (Some ''a'') (bring_to_front ''a'' ?s0) of (_, Some t) \<Rightarrow> length (rt_todo t) | _ \<Rightarrow> 0) < 5"
    by code_simp
  then have "(case g3 of Some t \<Rightarrow> length (rt_todo t) | None \<Rightarrow> 0) < 5" unfolding 3 by simp
  from restore_runs [OF approval_session.restore [OF s2 3] this]
  have "approval_session ''a'' ?w 3 (put_back ''a'' (bring_to_front ''a'' ?s0)) f Finished" by (simp add: put_back_def 3)
  then show ?thesis by (rule window_is_given_back) simp
qed

end
