(* ===== verification/ConnectionSession.thy ===== *)
theory ConnectionSession
  imports Prelude
begin

text \<open>
  Opening and closing connections (\<open>contexts/DatabaseProvider.tsx\<close>: \<open>connect\<close>, \<open>disconnect\<close>, \<open>detachConnection\<close>,
  \<open>switchConnection\<close> and the effects for dead and invalidated connections). Of a connection's data only the flags
  and the error are kept; which metadata is loaded, and by which calls, is left out. The \<open>async\<close> functions are
  cut where their effect on this state lies: what they know then (their closure) is a task. The values of
  state variables a function closes over are those at its call. A symbol is a number that is used once.
\<close>

section \<open>State\<close>

record ConnectionFlags =
  isConnecting :: bool
  isConnected :: bool
  connectionError :: "jsstring option"

record DatabaseState =
  activeConnectionId :: "jsstring option"
  openConnectionIds :: "jsstring list"
  connectionDataMap :: "jsstring \<Rightarrow> ConnectionFlags option"
  connectionAttempts :: "jsstring \<Rightarrow> nat option"
  nextSymbol :: nat

definition no_connections :: DatabaseState where
  "no_connections = \<lparr>activeConnectionId = None, openConnectionIds = [], connectionDataMap = (\<lambda>_. None),
     connectionAttempts = (\<lambda>_. None), nextSymbol = 0\<rparr>"

definition emptyConnectionData :: ConnectionFlags where
  "emptyConnectionData = \<lparr>isConnecting = False, isConnected = False, connectionError = None\<rparr>"

definition without :: "'a \<Rightarrow> 'a list \<Rightarrow> 'a list" where
  "without i xs = filter (\<lambda>j. j \<noteq> i) xs"

section \<open>Connecting\<close>

record ConnectTask =
  ct_id :: jsstring
  ct_attempt :: nat
  ct_activate :: bool
  prevActiveConnectionId :: "jsstring option"

definition connect :: "jsstring \<Rightarrow> bool \<Rightarrow> DatabaseState \<Rightarrow> DatabaseState \<times> ConnectTask" where
  "connect i activate s =
     (s\<lparr>connectionAttempts := (connectionAttempts s)(i \<mapsto> nextSymbol s), nextSymbol := nextSymbol s + 1,
        openConnectionIds := (if i \<in> set (openConnectionIds s) then openConnectionIds s else openConnectionIds s @ [i]),
        connectionDataMap := (connectionDataMap s)(i \<mapsto> emptyConnectionData\<lparr>isConnecting := True\<rparr>),
        activeConnectionId := (if activate then Some i else activeConnectionId s)\<rparr>,
      \<lparr>ct_id = i, ct_attempt = nextSymbol s, ct_activate = activate, prevActiveConnectionId = activeConnectionId s\<rparr>)"

definition isCurrentAttempt :: "ConnectTask \<Rightarrow> DatabaseState \<Rightarrow> bool" where
  "isCurrentAttempt t s \<longleftrightarrow> connectionAttempts s (ct_id t) = Some (ct_attempt t)"

definition updateConnectionData :: "jsstring \<Rightarrow> (ConnectionFlags \<Rightarrow> ConnectionFlags) \<Rightarrow> DatabaseState \<Rightarrow> DatabaseState" where
  "updateConnectionData i f s =
     s\<lparr>connectionDataMap := (connectionDataMap s)
         (i \<mapsto> f (case connectionDataMap s i of Some d \<Rightarrow> d | None \<Rightarrow> emptyConnectionData))\<rparr>"

definition updateCurrentConnection :: "ConnectTask \<Rightarrow> (ConnectionFlags \<Rightarrow> ConnectionFlags) \<Rightarrow> DatabaseState \<Rightarrow> DatabaseState" where
  "updateCurrentConnection t f s = (if isCurrentAttempt t s then updateConnectionData (ct_id t) f s else s)"

text \<open>The metadata has arrived; with an error when the schemas could not be read.\<close>

definition connect_succeeds :: "jsstring option \<Rightarrow> ConnectTask \<Rightarrow> DatabaseState \<Rightarrow> DatabaseState" where
  "connect_succeeds err t s =
     updateCurrentConnection t (\<lambda>d. d\<lparr>isConnecting := False, isConnected := True,
       connectionError := (if err = None then connectionError d else err)\<rparr>) s"

text \<open>The last \<open>catch\<close>, which every exception of the function ends in.\<close>

definition connect_fails :: "ConnectTask \<Rightarrow> DatabaseState \<Rightarrow> DatabaseState" where
  "connect_fails t s =
     (if \<not> isCurrentAttempt t s then s
      else s\<lparr>connectionDataMap := (connectionDataMap s)(ct_id t := None),
             openConnectionIds := without (ct_id t) (openConnectionIds s),
             activeConnectionId :=
               (if ct_activate t \<and> activeConnectionId s = Some (ct_id t) then prevActiveConnectionId t else activeConnectionId s)\<rparr>)"

text \<open>The connection test fails, or the list of databases cannot be read where it is needed.\<close>

definition connect_test_fails :: "jsstring \<Rightarrow> ConnectTask \<Rightarrow> DatabaseState \<Rightarrow> DatabaseState" where
  "connect_test_fails message t s =
     (let s = updateCurrentConnection t (\<lambda>d. d\<lparr>isConnecting := False, isConnected := False, connectionError := Some message\<rparr>) s
      in connect_fails t (s\<lparr>openConnectionIds := without (ct_id t) (openConnectionIds s)\<rparr>))"

section \<open>Disconnecting\<close>

record DisconnectTask =
  dt_target :: jsstring
  dt_open :: "jsstring list"
  dt_active :: "jsstring option"

text \<open>Up to the call of the backend, and what follows its answer, also a bad one.\<close>

definition disconnect :: "jsstring option \<Rightarrow> DatabaseState \<Rightarrow> DatabaseState \<times> DisconnectTask option" where
  "disconnect connectionId s =
     (case (case connectionId of Some i \<Rightarrow> if i = [] then activeConnectionId s else Some i | None \<Rightarrow> activeConnectionId s) of
        None \<Rightarrow> (s, None)
      | Some target \<Rightarrow>
          (s\<lparr>connectionAttempts := (connectionAttempts s)(target := None)\<rparr>,
           Some \<lparr>dt_target = target, dt_open = openConnectionIds s, dt_active = activeConnectionId s\<rparr>))"

definition disconnected :: "DisconnectTask \<Rightarrow> DatabaseState \<Rightarrow> DatabaseState" where
  "disconnected t s =
     (let remainingIds = without (dt_target t) (dt_open t) in
      s\<lparr>openConnectionIds := remainingIds, connectionDataMap := (connectionDataMap s)(dt_target t := None),
        activeConnectionId :=
          (if dt_active t = Some (dt_target t) then (case remainingIds of i # _ \<Rightarrow> Some i | [] \<Rightarrow> None)
           else activeConnectionId s)\<rparr>)"

text \<open>\<open>detachConnection\<close> and the effect that cleans up after a failed health check do the same here.\<close>

definition detachConnection :: "jsstring \<Rightarrow> DatabaseState \<Rightarrow> DatabaseState" where
  "detachConnection i s =
     (let remaining = without i (openConnectionIds s) in
      s\<lparr>connectionAttempts := (connectionAttempts s)(i := None), openConnectionIds := remaining,
        connectionDataMap := (connectionDataMap s)(i := None),
        activeConnectionId :=
          (if activeConnectionId s = Some i then (case remaining of j # _ \<Rightarrow> Some j | [] \<Rightarrow> None) else activeConnectionId s)\<rparr>)"

definition connections_invalidated :: "jsstring list \<Rightarrow> DatabaseState \<Rightarrow> DatabaseState" where
  "connections_invalidated ids s =
     (if ids = [] then s
      else s\<lparr>connectionAttempts := (\<lambda>i. if i \<in> set ids then None else connectionAttempts s i),
             openConnectionIds := filter (\<lambda>i. i \<notin> set ids) (openConnectionIds s),
             connectionDataMap := (\<lambda>i. if i \<in> set ids then None else connectionDataMap s i),
             activeConnectionId :=
               (case activeConnectionId s of
                  Some a \<Rightarrow> if a \<noteq> [] \<and> a \<in> set ids then find (\<lambda>i. i \<notin> set ids) (openConnectionIds s) else Some a
                | None \<Rightarrow> None)\<rparr>)"

definition switchConnection :: "jsstring \<Rightarrow> DatabaseState \<Rightarrow> DatabaseState" where
  "switchConnection i s = (if i \<in> set (openConnectionIds s) then s\<lparr>activeConnectionId := Some i\<rparr> else s)"


section \<open>Sessions\<close>

text \<open>
  The attempts in flight beside the state. Attempts end in any order, also ones that a newer attempt or a
  disconnect made stale. Left out are the orders the counterexamples below are about: a stale attempt whose test
  fails, a disconnect that other operations overtake, and an attempt of the active connection that fails and was
  made in the background, or on top of the connection itself or of one that is closed by then.
\<close>

definition can_go_back :: "ConnectTask \<Rightarrow> DatabaseState \<Rightarrow> bool" where
  "can_go_back t s \<longleftrightarrow>
     activeConnectionId s \<noteq> Some (ct_id t) \<or>
     ct_activate t \<and>
     (case prevActiveConnectionId t of None \<Rightarrow> True
      | Some j \<Rightarrow> j \<noteq> ct_id t \<and> j \<in> set (openConnectionIds s))"

definition ends :: "ConnectTask \<Rightarrow> (DatabaseState \<Rightarrow> DatabaseState) \<Rightarrow> DatabaseState \<times> ConnectTask list \<Rightarrow> DatabaseState \<times> ConnectTask list" where
  "ends t f st = (f (fst st), remove1 t (snd st))"

inductive connection_step :: "DatabaseState \<times> ConnectTask list \<Rightarrow> DatabaseState \<times> ConnectTask list \<Rightarrow> bool" where
  connects: "i \<noteq> [] \<Longrightarrow> connection_step (s, ts) (fst (connect i act s), snd (connect i act s) # ts)"
| succeeds: "t \<in> set ts \<Longrightarrow> connection_step (s, ts) (ends t (connect_succeeds err t) (s, ts))"
| fails: "t \<in> set ts \<Longrightarrow> can_go_back t s \<Longrightarrow> connection_step (s, ts) (ends t (connect_fails t) (s, ts))"
| test_fails: "t \<in> set ts \<Longrightarrow> can_go_back t s \<Longrightarrow> isCurrentAttempt t s \<Longrightarrow>
    connection_step (s, ts) (ends t (connect_test_fails msg t) (s, ts))"
| superseded: "t \<in> set ts \<Longrightarrow> \<not> isCurrentAttempt t s \<Longrightarrow> connection_step (s, ts) (ends t (\<lambda>s. s) (s, ts))"
| disconnects: "disconnect c s = (s', Some d) \<Longrightarrow> connection_step (s, ts) (disconnected d s', ts)"
| detaches: "connection_step (s, ts) (detachConnection i s, ts)"
| invalidated: "connection_step (s, ts) (connections_invalidated is s, ts)"
| switches: "connection_step (s, ts) (switchConnection i s, ts)"

definition waits_for :: "ConnectTask list \<Rightarrow> DatabaseState \<Rightarrow> jsstring \<Rightarrow> bool" where
  "waits_for ts s i \<longleftrightarrow> (\<exists>t \<in> set ts. ct_id t = i \<and> isCurrentAttempt t s)"

definition connections_ok :: "DatabaseState \<times> ConnectTask list \<Rightarrow> bool" where
  "connections_ok st \<longleftrightarrow>
     (let s = fst st; ts = snd st in
      distinct (openConnectionIds s) \<and>
      (\<forall>i. connectionDataMap s i \<noteq> None \<longleftrightarrow> i \<in> set (openConnectionIds s)) \<and>
      (\<forall>i. activeConnectionId s = Some i \<longrightarrow> i \<in> set (openConnectionIds s)) \<and>
      (\<forall>i d. connectionDataMap s i = Some d \<longrightarrow> isConnected d \<and> \<not> isConnecting d \<or> waits_for ts s i) \<and>
      (\<forall>i. waits_for ts s i \<longrightarrow> i \<in> set (openConnectionIds s)) \<and>
      distinct (map ct_attempt ts) \<and> (\<forall>t \<in> set ts. ct_attempt t < nextSymbol s))"

text \<open>The empty string is no identifier: \<open>disconnect('')\<close> means the active connection.\<close>

definition named_connections :: "DatabaseState \<times> ConnectTask list \<Rightarrow> bool" where
  "named_connections st \<longleftrightarrow> [] \<notin> set (openConnectionIds (fst st))"

lemma connections_okI:
  assumes "distinct (openConnectionIds s)"
    "\<And>i. connectionDataMap s i \<noteq> None \<longleftrightarrow> i \<in> set (openConnectionIds s)"
    "\<And>i. activeConnectionId s = Some i \<Longrightarrow> i \<in> set (openConnectionIds s)"
    "\<And>i d. connectionDataMap s i = Some d \<Longrightarrow> isConnected d \<and> \<not> isConnecting d \<or> waits_for ts s i"
    "\<And>i. waits_for ts s i \<Longrightarrow> i \<in> set (openConnectionIds s)"
    "distinct (map ct_attempt ts)" "\<And>t. t \<in> set ts \<Longrightarrow> ct_attempt t < nextSymbol s"
  shows "connections_ok (s, ts)"
  using assms unfolding connections_ok_def Let_def fst_conv snd_conv by blast

lemma connections_okD:
  assumes "connections_ok (s, ts)"
  shows "distinct (openConnectionIds s)"
    "connectionDataMap s i \<noteq> None \<longleftrightarrow> i \<in> set (openConnectionIds s)"
    "activeConnectionId s = Some i \<Longrightarrow> i \<in> set (openConnectionIds s)"
    "connectionDataMap s i = Some d \<Longrightarrow> isConnected d \<and> \<not> isConnecting d \<or> waits_for ts s i"
    "waits_for ts s i \<Longrightarrow> i \<in> set (openConnectionIds s)"
    "distinct (map ct_attempt ts)" "t \<in> set ts \<Longrightarrow> ct_attempt t < nextSymbol s"
  using assms unfolding connections_ok_def Let_def fst_conv snd_conv by blast+

lemma set_without [simp]: "set (without i xs) = set xs - {i}"
  by (auto simp: without_def)

lemma distinct_without [intro]: "distinct xs \<Longrightarrow> distinct (without i xs)"
  by (simp add: without_def)

lemma waits_connect:
  assumes "connections_ok (s, ts)"
  shows "waits_for (snd (connect i act s) # ts) (fst (connect i act s)) j \<longleftrightarrow> j = i \<or> waits_for ts s j"
proof -
  have "ct_attempt t \<noteq> nextSymbol s" if "t \<in> set ts" for t
    using connections_okD(7) [OF assms that] by simp
  thus ?thesis
    by (auto simp: waits_for_def isCurrentAttempt_def connect_def)
qed

lemma connect_ok:
  assumes ok: "connections_ok (s, ts)"
  shows "connections_ok (fst (connect i act s), snd (connect i act s) # ts)"
proof (rule connections_okI, goal_cases)
  case (5 j)
  thus ?case using connections_okD(5) [OF ok, of j] by (auto simp: waits_connect [OF ok], auto simp: connect_def)
next
  case (4 j d)
  thus ?case using connections_okD(4) [OF ok, of j d]
    by (cases "j = i") (auto simp: waits_connect [OF ok], auto simp: connect_def)
next
  case (7 t)
  thus ?case using connections_okD(7) [OF ok, of t] by (auto simp: connect_def)
next
  case 6
  have "nextSymbol s \<notin> ct_attempt ` set ts" using connections_okD(7) [OF ok] by fastforce
  thus ?case using connections_okD(6) [OF ok] by (simp add: connect_def)
next
  case (2 j)
  thus ?case using connections_okD(2) [OF ok, of j] by (auto simp: connect_def)
next
  case (3 j)
  thus ?case using connections_okD(3) [OF ok, of j] by (auto simp: connect_def split: if_splits)
qed (use connections_okD(1) [OF ok] in \<open>simp add: connect_def\<close>)

text \<open>Operations that close connections: nothing of the kept ones changes.\<close>

definition closes :: "jsstring set \<Rightarrow> DatabaseState \<Rightarrow> DatabaseState \<Rightarrow> bool" where
  "closes I s s' \<longleftrightarrow>
     openConnectionIds s' = filter (\<lambda>i. i \<notin> I) (openConnectionIds s) \<and>
     (\<forall>i. connectionDataMap s' i = (if i \<in> I then None else connectionDataMap s i)) \<and>
     (\<forall>i. i \<notin> I \<longrightarrow> connectionAttempts s' i = connectionAttempts s i) \<and> nextSymbol s' = nextSymbol s \<and>
     (\<forall>i. activeConnectionId s' = Some i \<longrightarrow> i \<in> set (openConnectionIds s'))"

lemma closes_ok:
  assumes ok: "connections_ok (s, ts)" and c: "closes I s s'"
    and left: "\<And>i. i \<in> I \<Longrightarrow> \<not> waits_for ts' s' i"
    and kept: "\<And>i. i \<notin> I \<Longrightarrow> waits_for ts' s i \<longleftrightarrow> waits_for ts s i"
    and sub: "set ts' \<subseteq> set ts" "distinct (map ct_attempt ts')"
  shows "connections_ok (s', ts')"
proof -
  have w: "waits_for ts' s' i \<longleftrightarrow> waits_for ts' s i" if "i \<notin> I" for i
    using c that unfolding closes_def waits_for_def isCurrentAttempt_def by auto
  show ?thesis
  proof (rule connections_okI, goal_cases)
    case (4 i d)
    thus ?case using c w [of i] kept [of i] connections_okD(4) [OF ok, of i d] by (auto simp: closes_def split: if_splits)
  next
    case (5 i)
    thus ?case using c w [of i] kept [of i] left [of i] connections_okD(5) [OF ok, of i] by (auto simp: closes_def)
  next
    case (2 i)
    thus ?case using c connections_okD(2) [OF ok, of i] by (auto simp: closes_def)
  next
    case (7 t)
    thus ?case using c sub connections_okD(7) [OF ok, of t] by (auto simp: closes_def)
  qed (use c sub connections_okD(1) [OF ok] in \<open>auto simp: closes_def\<close>)
qed

lemma closes_forgets_ok:
  assumes "connections_ok (s, ts)" "closes I s s'" "\<And>i. i \<in> I \<Longrightarrow> connectionAttempts s' i = None"
  shows "connections_ok (s', ts)"
  by (rule closes_ok [OF assms(1,2)])
     (use assms(3) connections_okD(6) [OF assms(1)] in \<open>auto simp: waits_for_def isCurrentAttempt_def\<close>)

lemma set_ended:
  assumes "connections_ok (s, ts)"
  shows "set (remove1 t ts) = set ts - {t}" "distinct (map ct_attempt (remove1 t ts))"
  using connections_okD(6) [OF assms] by (simp_all add: distinct_map distinct_remove1 inj_on_diff set_remove1_eq)

lemma waits_ended:
  assumes "connections_ok (s, ts)"
  shows "i \<noteq> ct_id t \<or> \<not> isCurrentAttempt t s \<Longrightarrow> waits_for (remove1 t ts) s i \<longleftrightarrow> waits_for ts s i"
  using set_ended(1) [OF assms, of t] by (auto simp: waits_for_def)

lemma waits_current_ended:
  assumes ok: "connections_ok (s, ts)" and t: "t \<in> set ts" "isCurrentAttempt t s"
  shows "\<not> waits_for (remove1 t ts) s (ct_id t)"
proof
  assume "waits_for (remove1 t ts) s (ct_id t)"
  then obtain u where u: "u \<in> set ts" "u \<noteq> t" "ct_id u = ct_id t" "isCurrentAttempt u s"
    using set_ended(1) [OF ok, of t] by (auto simp: waits_for_def)
  hence "ct_attempt u = ct_attempt t" using t by (simp add: isCurrentAttempt_def)
  thus False using u t connections_okD(6) [OF ok] by (auto simp: distinct_map dest: inj_onD)
qed

lemma current_is_open:
  assumes "connections_ok (s, ts)" "t \<in> set ts" "isCurrentAttempt t s"
  shows "ct_id t \<in> set (openConnectionIds s)"
  using connections_okD(5) [OF assms(1), of "ct_id t"] assms by (auto simp: waits_for_def)

lemma superseded_ok:
  assumes ok: "connections_ok (s, ts)" and "\<not> isCurrentAttempt t s"
  shows "connections_ok (ends t (\<lambda>s. s) (s, ts))"
proof -
  have w: "waits_for (remove1 t ts) s i \<longleftrightarrow> waits_for ts s i" for i
    using waits_ended [OF ok] assms(2) by blast
  have "connections_ok (s, remove1 t ts)"
    by (rule connections_okI)
       (use connections_okD [OF ok] set_ended [OF ok, of t] in \<open>simp_all add: w\<close>)
  thus ?thesis by (simp add: ends_def)
qed

lemma succeeds_ok:
  assumes ok: "connections_ok (s, ts)" and t: "t \<in> set ts"
  shows "connections_ok (ends t (connect_succeeds err t) (s, ts))"
proof (cases "isCurrentAttempt t s")
  case False
  thus ?thesis using superseded_ok [OF ok False]
    by (simp add: ends_def connect_succeeds_def updateCurrentConnection_def)
next
  case True
  define s' where "s' = connect_succeeds err t s"
  have s': "openConnectionIds s' = openConnectionIds s" "activeConnectionId s' = activeConnectionId s"
    "nextSymbol s' = nextSymbol s" "connectionAttempts s' = connectionAttempts s"
    "\<And>i. i \<noteq> ct_id t \<Longrightarrow> connectionDataMap s' i = connectionDataMap s i"
    "\<exists>d. connectionDataMap s' (ct_id t) = Some d \<and> isConnected d \<and> \<not> isConnecting d"
    using True by (simp_all add: s'_def connect_succeeds_def updateCurrentConnection_def updateConnectionData_def)
  have w: "waits_for (remove1 t ts) s' i \<longleftrightarrow> waits_for (remove1 t ts) s i" for i
    using s'(4) by (simp add: waits_for_def isCurrentAttempt_def)
  have "connections_ok (s', remove1 t ts)"
  proof (rule connections_okI, goal_cases)
    case (2 i)
    thus ?case using s' connections_okD(2) [OF ok, of i] current_is_open [OF ok t True] by (cases "i = ct_id t") auto
  next
    case (4 i d)
    thus ?case using s' w connections_okD(4) [OF ok, of i d] waits_ended [OF ok, of i t] by (cases "i = ct_id t") auto
  next
    case (5 i)
    thus ?case using s' w connections_okD(5) [OF ok, of i] waits_ended [OF ok, of i t] waits_current_ended [OF ok t True]
      by (cases "i = ct_id t") auto
  qed (use s' connections_okD [OF ok] set_ended [OF ok, of t] in simp_all)
  thus ?thesis by (simp add: ends_def s'_def)
qed

lemma fails_closes:
  assumes "connections_ok (s, ts)" "isCurrentAttempt t s" "can_go_back t s"
  shows "closes {ct_id t} s (connect_fails t s)"
  using assms connections_okD(3) [OF assms(1)]
  by (auto simp: closes_def connect_fails_def can_go_back_def without_def split: option.splits)

lemma fails_ok:
  assumes ok: "connections_ok (s, ts)" and t: "t \<in> set ts" "can_go_back t s"
  shows "connections_ok (ends t (connect_fails t) (s, ts))"
proof (cases "isCurrentAttempt t s")
  case False
  thus ?thesis using superseded_ok [OF ok False] by (simp add: ends_def connect_fails_def)
next
  case True
  have c: "closes {ct_id t} s (connect_fails t s)" by (rule fails_closes [OF ok True t(2)])
  have "waits_for (remove1 t ts) (connect_fails t s) i \<longleftrightarrow> waits_for (remove1 t ts) s i" for i
    by (simp add: waits_for_def isCurrentAttempt_def connect_fails_def)
  hence "connections_ok (connect_fails t s, remove1 t ts)"
    using waits_current_ended [OF ok t(1) True] waits_ended [OF ok, of _ t] set_ended [OF ok, of t]
    by (intro closes_ok [OF ok c]) auto
  thus ?thesis by (simp add: ends_def)
qed

lemma without_twice: "without i (without i xs) = without i xs"
  by (simp add: without_def)

lemma test_fails_alike:
  "isCurrentAttempt t s \<Longrightarrow> connect_test_fails msg t s = connect_fails t s"
  by (simp add: connect_test_fails_def connect_fails_def updateCurrentConnection_def updateConnectionData_def
    isCurrentAttempt_def without_twice Let_def)

lemma disconnected_ok:
  assumes ok: "connections_ok (s, ts)" and d: "disconnect c s = (s', Some d)"
  shows "connections_ok (disconnected d s', ts)"
proof (rule closes_forgets_ok [OF ok, of "{dt_target d}"])
  have d': "d = \<lparr>dt_target = dt_target d, dt_open = openConnectionIds s, dt_active = activeConnectionId s\<rparr>"
    "s' = s\<lparr>connectionAttempts := (connectionAttempts s)(dt_target d := None)\<rparr>"
    using d by (auto simp: disconnect_def split: option.splits)
  show "closes {dt_target d} s (disconnected d s')"
    using connections_okD(3) [OF ok]
    by (subst d', subst (2) d') (auto simp: closes_def disconnected_def Let_def d'(2) without_def split: list.splits dest: filter_eq_ConsD)
  show "connectionAttempts (disconnected d s') i = None" if "i \<in> {dt_target d}" for i
    using that by (simp add: d'(2) disconnected_def Let_def)
qed

lemma detached_ok:
  assumes ok: "connections_ok (s, ts)"
  shows "connections_ok (detachConnection i s, ts)"
proof (rule closes_forgets_ok [OF ok, of "{i}"])
  show "closes {i} s (detachConnection i s)"
    using connections_okD(3) [OF ok]
    by (auto simp: closes_def detachConnection_def Let_def without_def split: list.splits dest: filter_eq_ConsD)
qed (simp add: detachConnection_def Let_def)

lemma invalidated_ok:
  assumes ok: "connections_ok (s, ts)" and names: "[] \<notin> set (openConnectionIds s)"
  shows "connections_ok (connections_invalidated is s, ts)"
proof (cases "is = []")
  case False
  show ?thesis
  proof (rule closes_forgets_ok [OF ok, of "set is"])
    have "a \<noteq> []" if "activeConnectionId s = Some a" for a
      using names connections_okD(3) [OF ok that] by auto
    thus "closes (set is) s (connections_invalidated is s)"
      using False connections_okD(3) [OF ok]
      by (auto simp: closes_def connections_invalidated_def split: option.splits simp: find_Some_iff)
  qed (use False in \<open>simp add: connections_invalidated_def\<close>)
qed (use ok in \<open>simp add: connections_invalidated_def\<close>)

lemma switch_connection_ok:
  assumes ok: "connections_ok (s, ts)"
  shows "connections_ok (switchConnection i s, ts)"
proof (cases "i \<in> set (openConnectionIds s)")
  case True
  have w: "waits_for ts (switchConnection i s) j \<longleftrightarrow> waits_for ts s j" for j
    by (simp add: waits_for_def isCurrentAttempt_def switchConnection_def)
  show ?thesis
    by (rule connections_okI)
       (use connections_okD [OF ok] True in \<open>simp_all add: w, simp_all add: switchConnection_def split: if_splits\<close>)
qed (use ok in \<open>simp add: switchConnection_def\<close>)

lemma named_step:
  assumes "connection_step st st'" "named_connections st"
  shows "named_connections st'"
  using assms
  by (induction rule: connection_step.induct)
     (auto simp: named_connections_def ends_def connect_def connect_succeeds_def connect_fails_def connect_test_fails_def
       updateCurrentConnection_def updateConnectionData_def disconnect_def disconnected_def detachConnection_def
       connections_invalidated_def switchConnection_def Let_def split: if_splits option.splits)

lemma connections_step_ok:
  assumes "connection_step st st'" "connections_ok st" "named_connections st"
  shows "connections_ok st'"
  using assms
proof (induction rule: connection_step.induct)
  case (test_fails t ts s msg)
  thus ?case using fails_ok [of s ts t] by (simp add: ends_def test_fails_alike)
next
  case (invalidated s ts ids)
  thus ?case by (auto intro: invalidated_ok simp: named_connections_def)
qed (auto intro: connect_ok succeeds_ok fails_ok superseded_ok disconnected_ok detached_ok switch_connection_ok)

lemma connections_reach_ok:
  assumes "connection_step\<^sup>*\<^sup>* (no_connections, []) st"
  shows "connections_ok st \<and> named_connections st"
  using assms
proof (induction rule: rtranclp_induct)
  case base
  show ?case by (simp add: connections_ok_def named_connections_def no_connections_def waits_for_def)
qed (blast intro: connections_step_ok named_step)

text \<open>C13 (open_connections_have_data):
  However attempts to connect, disconnects, detached, invalidated and dead connections and switches follow each
  other (the orders above apart), the open connections are distinct, exactly they have data, the active
  connection is open, and every open connection is connected unless its current attempt is in flight.\<close>

theorem open_connections_have_data:
  assumes "connection_step\<^sup>*\<^sup>* (no_connections, []) (s, ts)"
  shows "distinct (openConnectionIds s) \<and>
    (\<forall>i. connectionDataMap s i \<noteq> None \<longleftrightarrow> i \<in> set (openConnectionIds s)) \<and>
    (\<forall>i. activeConnectionId s = Some i \<longrightarrow> i \<in> set (openConnectionIds s)) \<and>
    (\<forall>i d. connectionDataMap s i = Some d \<longrightarrow>
       isConnected d \<and> \<not> isConnecting d \<or> (\<exists>t \<in> set ts. ct_id t = i \<and> isCurrentAttempt t s))"
  using connections_reach_ok [OF assms] by (simp add: connections_ok_def waits_for_def)

definition sample_connections :: "DatabaseState \<times> ConnectTask list" where
  "sample_connections =
     (let (s, t) = connect ''a'' True no_connections; (s, u) = connect ''b'' True s
      in (connect_succeeds None t s, [u]))"

lemma sample_connections_reached: "connection_step\<^sup>*\<^sup>* (no_connections, []) sample_connections"
proof -
  define t where "t = snd (connect ''a'' True no_connections)"
  define s where "s = fst (connect ''a'' True no_connections)"
  define u where "u = snd (connect ''b'' True s)"
  have "connection_step\<^sup>*\<^sup>* (no_connections, []) (s, [t])"
    using connects [of "''a''" no_connections "[]" True] by (simp add: s_def t_def)
  also have "connection_step\<^sup>*\<^sup>* (s, [t]) (fst (connect ''b'' True s), [u, t])"
    using connects [of "''b''" s "[t]" True] by (simp add: u_def r_into_rtranclp)
  also have "connection_step\<^sup>*\<^sup>* (fst (connect ''b'' True s), [u, t]) sample_connections"
    using succeeds [of t "[u, t]" "fst (connect ''b'' True s)" None]
    by (simp add: ends_def sample_connections_def s_def t_def u_def connect_def r_into_rtranclp)
  finally show ?thesis .
qed

lemma open_connections_have_data_witness:
  "distinct (openConnectionIds (fst sample_connections)) \<and> openConnectionIds (fst sample_connections) = [''a'', ''b''] \<and>
   (\<exists>t. t \<in> set (snd sample_connections) \<and> ct_id t = ''b'' \<and> isCurrentAttempt t (fst sample_connections))"
proof -
  have "openConnectionIds (fst sample_connections) = [''a'', ''b'']" by code_simp
  moreover have "map_option isConnected (connectionDataMap (fst sample_connections) ''b'') = Some False" by code_simp
  then obtain d where d: "connectionDataMap (fst sample_connections) ''b'' = Some d" "\<not> isConnected d" by blast
  have reached: "connection_step\<^sup>*\<^sup>* (no_connections, []) (fst sample_connections, snd sample_connections)"
    using sample_connections_reached by simp
  have "isConnected d \<and> \<not> isConnecting d \<or>
      (\<exists>t \<in> set (snd sample_connections). ct_id t = ''b'' \<and> isCurrentAttempt t (fst sample_connections))"
    using open_connections_have_data [OF reached] d(1) by blast
  ultimately show ?thesis using d(2) open_connections_have_data [OF reached] by blast
qed

section \<open>The orders left out\<close>

text \<open>Connecting to \<open>i\<close> without a failure.\<close>

definition opened :: "jsstring \<Rightarrow> DatabaseState \<Rightarrow> DatabaseState" where
  "opened i s = (case connect i True s of (s, t) \<Rightarrow> connect_succeeds None t s)"

text \<open>
  A connection is closed while it is connecting, opened again, and is connected; then the first attempt's test
  fails: its identifier leaves the open ones, though it is active, connected and has data.\<close>

lemma stale_test_failure_closes_connection:
  "(let (s, t) = connect ''a'' True no_connections;
        s = detachConnection ''a'' s;
        s = connect_test_fails ''no'' t (opened ''a'' s)
    in (openConnectionIds s, activeConnectionId s, map_option isConnected (connectionDataMap s ''a''))) =
   ([], Some ''a'', Some True)"
  by code_simp

text \<open>Two connections are closed at once: the second one to end puts the first one's identifier back.\<close>

lemma simultaneous_disconnects_reopen:
  "(let s = opened ''c'' (opened ''b'' (opened ''a'' no_connections));
        (s, d1) = disconnect (Some ''a'') s;
        (s, d2) = disconnect (Some ''b'') s;
        s = disconnected (the d2) (disconnected (the d1) s)
    in (openConnectionIds s, connectionDataMap s ''a'' = None)) = ([''a'', ''c''], True)"
  by code_simp

text \<open>A connection opened while a disconnect waits for the backend loses its place among the open ones.\<close>

lemma disconnect_drops_new_connection:
  "(let s = opened ''a'' no_connections;
        (s, d) = disconnect (Some ''a'') s;
        s = disconnected (the d) (opened ''b'' s)
    in (openConnectionIds s, activeConnectionId s, map_option isConnected (connectionDataMap s ''b''))) =
   ([], None, Some True)"
  by code_simp

text \<open>A failing attempt leaves the active connection closed: a reconnect, and one in the background.\<close>

lemma failed_reconnect_stays_active:
  "(let (s, t) = connect ''a'' True (opened ''a'' no_connections);
        s = connect_test_fails ''no'' t s
    in (openConnectionIds s, activeConnectionId s)) = ([], Some ''a'')"
  by code_simp

lemma failed_background_connect_stays_active:
  "(let (s, t) = connect ''b'' False (opened ''a'' no_connections);
        s = connect_test_fails ''no'' t (switchConnection ''b'' s)
    in (openConnectionIds s, activeConnectionId s)) = ([''a''], Some ''b'')"
  by code_simp

end
