(* ===== verification/Spec2Isabelle.thy ===== *)
theory Spec2Isabelle
  imports SplitterFacts SqlLiteral QueryParams StripComments TabFacts GridUndo AsyncResource SplitHook
    GridCellFacts SqlGuardFacts ClipboardFacts SqlCopy RowIdentity CellFilter UiStateFacts
    MultiResult AutoRefresh Insertions ExplorerPins PlanRegistry PlanDiagnostics PlanColumns
    NotebookVars GridFind GridPaste EditorSession ConnectionGroups TableQuery VisualQuery
    NotebookStore ConnectionStrings ApprovalWindow ConnectionSession
begin

text \<open>
  Verification of the core logic of Tabularis, a database client (TypeScript, \<open>src/packages/web-ui/src\<close>;
  file names below are relative to its \<open>utils/\<close> unless a directory is given, those of the query plans to
  \<open>src/packages/explain/src\<close>).

  \<^bold>\<open>The program.\<close> A React user interface talks to a backend through calls that return promises. What
  decides which SQL is run, which row is changed and what the user's edits, tabs and panels become is
  kept outside the components, in functions over plain data and a few small stores: the SQL splitter and
  its clients, the generators of literals, identifiers and WHERE clauses, the guards in front of a query,
  the addressing of rows, the undo histories, the tab, pin and layout operations, the stores with
  asynchronous loads, and the package that reads EXPLAIN output and analyses the plan. These are the parts modelled here. They meet in the following places. A driver's
  capabilities are resolved to a SQL syntax (\<open>SqlSyntax\<close>) that both the splitter (\<open>Splitter\<close>) and the
  literal writers (\<open>SqlLiteral\<close>, \<open>FilterBar\<close>, \<open>SqlCopy\<close>) use: what one writes the other has to read. The
  scanner (\<open>Tokenizer\<close>) is called in a loop by the splitter, the comment stripper and the non-code spans,
  and the spans mask the text in which query parameters are looked for. Row data travels from the grid to
  the clipboard and back, to INSERT data, and into the WHERE clauses of UPDATE and DELETE. The parsers of query
  plans give every node an id; metrics, warnings and views are looked up by it.

  \<^bold>\<open>Theories and the code they model.\<close>

  Shared: \<open>Prelude\<close> (JavaScript string reads, character classes, generic lemmas on lists and options),
  \<open>JsValue\<close> (values of type \<open>unknown\<close>: the JSON constructors; an object is the list of its properties).

  Splitting SQL: \<open>SqlOptions\<close> (\<open>sqlSplitter/index.ts\<close>: dialects, options, quote rules), \<open>Tokenizer\<close>
  (\<open>sqlSplitter/tokenizer.ts\<close>, one definition per \<open>scan\<close> and \<open>read\<close> function), \<open>TokenLoop\<close> (the loop every
  client of the scanner runs, as locales), \<open>TokenKinds\<close> (what a kind says of the source), \<open>Classify\<close>
  (\<open>sqlSplitter/classify.ts\<close>), \<open>ScriptBlocks\<close> (\<open>sqlSplitter/scriptBlocks.ts\<close>, its state as a record),
  \<open>Splitter\<close> (\<open>sqlSplitter/splitter.ts\<close>, \<open>statementAt.ts\<close>), \<open>SplitterFacts\<close>, \<open>NonCodeSpans\<close>
  (\<open>sqlSplitter/nonCodeSpans.ts\<close>), \<open>StripComments\<close> (\<open>stripSqlComments.ts\<close>), \<open>QueryParams\<close>
  (\<open>queryParameters.ts\<close>).

  Writing SQL: \<open>SqlSyntax\<close> (\<open>sqlSyntax.ts\<close>, the two caches as explicit state), \<open>SqlLiteral\<close>
  (\<open>sqlLiteral.ts\<close>), \<open>Identifiers\<close> (\<open>identifiers.ts\<close>), \<open>ColumnTypes\<close> (the type predicates of \<open>blob.ts\<close>,
  \<open>geometry.ts\<close>, \<open>text.ts\<close>, \<open>json.ts\<close>, \<open>dateInput.ts\<close>), \<open>ForeignKeys\<close> (\<open>foreignKeys.ts\<close>), \<open>FilterBar\<close> with
  \<open>FilterFacts\<close> (\<open>filterBar.ts\<close>), \<open>CellFilter\<close> (\<open>cellValueFilter.ts\<close>), \<open>RowIdentity\<close>
  (\<open>rowIdentity.ts\<close>), \<open>Insertions\<close> (\<open>pendingInsertions.ts\<close>), \<open>SqlAnalysis\<close> with \<open>SqlGuardFacts\<close>
  (\<open>sqlAnalysis.ts\<close>), \<open>SqlCopy\<close> (\<open>clipboard.ts\<close> and \<open>escape.ts\<close>), \<open>ClipboardText\<close> with \<open>ClipboardFacts\<close>
  (the CSV part of \<open>clipboard.ts\<close>, \<open>clipboardParser.ts\<close>), \<open>TableQuery\<close> (the query of a table tab in \<open>editor.ts\<close>),
  \<open>VisualQuery\<close> (\<open>visualQuery.ts\<close>).

  Editing: \<open>UndoHistory\<close> (the locale \<open>undo_stack\<close> and \<open>notebookUndo.ts\<close>), \<open>GridUndo\<close> (\<open>gridUndo.ts\<close>),
  \<open>GridCells\<close> with \<open>GridCellFacts\<close> (cell positions of \<open>dataGrid.ts\<close>, \<open>hiddenColumns.ts\<close>), \<open>GridPaste\<close> (the
  paste part of \<open>dataGrid.ts\<close>), \<open>GridFind\<close> (\<open>gridFind.ts\<close>), \<open>MultiResult\<close> (\<open>multiResult.ts\<close>), \<open>NotebookVars\<close>
  (\<open>notebookVariables.ts\<close>, the cache of rendered results as explicit state), \<open>NotebookFile\<close> (\<open>notebookFile.ts\<close>,
  \<open>notebook.ts\<close>, the moves of \<open>notebookDnd.ts\<close>).

  Workspace: \<open>Tabs\<close> with \<open>TabFacts\<close> (\<open>tabFilters.ts\<close>, \<open>tabPins.ts\<close>, \<open>tabDnd.ts\<close>, \<open>tabCleaner.ts\<close>,
  \<open>closedTabs.ts\<close>), \<open>ConnectionLayout\<close> with \<open>LayoutFacts\<close> (\<open>connectionLayout.ts\<close>), \<open>SplitHook\<close>
  (\<open>hooks/useConnectionLayout.ts\<close>, one step per callback), \<open>ExplorerPins\<close> (\<open>explorerPins.ts\<close>), \<open>EditorTabs\<close> (the tab part of \<open>editor.ts\<close>,
  \<open>tabScroll.ts\<close>), \<open>EditorSession\<close> (\<open>contexts/EditorProvider.tsx\<close>: callbacks and effects as steps on the list of tabs),
  \<open>ConnectionGroups\<close> (\<open>groupTree.ts\<close>, the ordering part of \<open>connections.ts\<close>), \<open>ConnectionStrings\<close> (\<open>connectionStringParser.ts\<close>, \<open>fsPath.ts\<close>),
  \<open>ConnectionSession\<close> (\<open>contexts/DatabaseProvider.tsx\<close>: which connections are open, active and connected).

  Asynchronous stores: \<open>AsyncResource\<close> (\<open>asyncResource.ts\<close>), \<open>AutoRefresh\<close> (\<open>autoRefresh.ts\<close>), \<open>UiState\<close>
  with \<open>UiStateFacts\<close> (\<open>uiStateStore.ts\<close>), \<open>NotebookStore\<close> (\<open>notebookStore.ts\<close>), \<open>ApprovalWindow\<close>
  (\<open>mcpApprovalAttention.ts\<close>). An operation with awaits is cut there: one definition per
  piece, the closure's variables in a record, and a step relation that interleaves the pieces in any order.

  Query plans: \<open>PlanNode\<close> (\<open>types.ts\<close>, \<open>parsers/node.ts\<close>, traversal of \<open>plan.ts\<close>), \<open>PlanText\<close> (what the indented
  text formats share, and the forest an indentation describes), \<open>PlanPostgres\<close>, \<open>PlanMysql\<close> (JSON),
  \<open>PlanMysqlText\<close> (text and rows), \<open>PlanSqlite\<close> (\<open>parsers/postgres.ts\<close>, \<open>mysql.ts\<close>, \<open>sqlite.ts\<close>), \<open>PlanRegistry\<close>
  (\<open>registry.ts\<close>, \<open>raw.ts\<close>, \<open>parsers/builtins.ts\<close>, \<open>parsers/source.ts\<close>), \<open>PlanMetrics\<close> (\<open>metrics.ts\<close> and the
  locale \<open>plan_source\<close> of what the views rely on, interpreted by each parser), \<open>PlanAnalysis\<close> (\<open>plan.ts\<close>,
  \<open>stats.ts\<close>), \<open>PlanDiagnostics\<close> (\<open>diagnostics.ts\<close>), \<open>PlanColumns\<close> (\<open>tableColumns.ts\<close>).

  \<^bold>\<open>What the lemmas show.\<close> The scanner makes progress and stays inside the source (\<open>token_ok\<close>), so every
  client loop returns; the splitter's segments tile the source, its statements are trimmed, ordered and
  disjoint, a cursor in one is found again; the literals and identifiers the program writes are one token
  with the intended value for the reader of the same syntax, and WHERE clauses mean what the user picked.
  The guards flag what they should on plain text, and the inputs they miss are stated. The undo histories
  are walks on a fixed timeline. Tab and pin operations keep pinned entries first and touch only their own
  connection or scope; layouts stay well-formed trees whose panels are the list the operation is meant to
  give. The editor's session keeps its invariant however tabs are opened, closed, moved and loaded; a group
  dropped in the connection list keeps the groups a forest. The FROM clause of a visual query lists every table
  once, a connection string goes to the driver that owns its protocol. The stores agree with their backend after
  a flush in every interleaving of one session, and the window of an approval is given back as it was. A plan read
  from text is the forest its indentation describes, a plan's nodes have ids of their own whatever parser made it,
  and what the views add up (times, shares, statistics, warnings) accounts for every node once.

  \<^bold>\<open>Loops and fuel.\<close> Loops that advance an index run on fuel and return \<open>None\<close> when it is used up. One unit per
  remaining character is enough for the scanner's clients (\<open>TokenLoop\<close>) and for \<open>scanQuoted\<close> with a nonempty
  closing quote (\<open>Tokenizer\<close>); the non-code regions need one unit per region, bounded by their total weight
  (\<open>NonCodeSpans\<close>). The builder of SQLite plans follows parent ids and may go round in a circle; its fuel is
  one unit more than there are rows, which is enough for rows numbered as SQLite numbers them; the tree of connection groups has one level at
  most per group. Every property of these loops is stated with the result being there.

  \<^bold>\<open>Not modelled.\<close> React components, pages and contexts (rendering and calls of the functions above), the
  Rust backend, plugin transport and the API contract (types). Listener lists and log messages of the
  stores; a listener that calls back into the store. Of the editor's provider the history of visited tabs, the
  notebook cache and the release of query sessions. Characters are 8 bit: case mapping and blanks are those
  of Latin-1, a column of a UTF-16 string with larger characters is not covered. Numbers in the layout
  geometry, in query plans and in cell values are exact (integers and rationals) where the code has doubles; the
  rounding of \<open>Math.fround\<close>, \<open>JSON.parse\<close> of a plan, the comparison of strings by locale and the printing of a
  number in a warning are parameters, and so are the URL parser and the percent decoder of the platform and which
  characters are curly quotes. Of the explain package the React components and \<open>flow.ts\<close> (placing nodes
  with a graph library) are left out. The order of integer-like keys of an object is modelled only where rows
  are turned into objects (\<open>js_object\<close>). Of the files above these parts are left out: format detection and
  type inference of pasted text, \<open>parseTablesFromQuery\<close>, \<open>parseDistinctValues\<close>, \<open>tableRefreshIdentity\<close>, and
  the formatting of dates, geometries and binary values.
\<close>

section \<open>Plugins and the splitter\<close>


text \<open>C26 (resolved_syntax_is_wf): whatever a plugin manifest declares, the resolved syntax satisfies what
  the tokenizer relies on: every quote rule opens with one character and closes with at least one
  and the string prefixes are made of letters.\<close>

theorem resolved_syntax_is_wf:
  "wf_options (options (syntaxOf objs driver))
   \<and> list_all (\<lambda>r. length (q_open r) = 1) (quotes (options (syntaxOf objs driver)))
   \<and> list_all (list_all is_alpha) (stringPrefixes (options (syntaxOf objs driver)))"
  using lexable_syntaxOf [of objs driver] by (simp add: lexable_def)

end
